(* ===== verification/VtPrelude.thy ===== *)
theory VtPrelude
  imports Complex_Main "HOL-Library.Multiset" "HOL-Library.Product_Lexorder"
begin

text \<open>
  What the component theories share: the JavaScript values and operators the sources use
  (numbers, truthiness, rounding, array access), the generic lemmas on them, and the two
  interfaces many components have in common: a machine that keeps an invariant
  (\<open>machine\<close>) and a log that keeps its last entries (\<open>bounded_log\<close>).

  A JavaScript number is modelled by a \<open>real\<close>: arithmetic is exact, so the rounding of
  IEEE doubles is not modelled; NaN and the infinities occur only where a component tests
  for them and are then a constructor of their own.
\<close>

section \<open>Numbers and truthiness\<close>

named_theorems js_simps \<open>unfolding rules for the JavaScript operators\<close>

text \<open>\<open>x || d\<close> for a number argument that may be missing: 0 and undefined are falsy.\<close>

definition js_or :: "real option \<Rightarrow> real \<Rightarrow> real" where
  "js_or x d = (case x of None \<Rightarrow> d | Some v \<Rightarrow> if v = 0 then d else v)"

lemma js_or_simps [simp, js_simps]:
  "js_or None d = d"
  "v \<noteq> 0 \<Longrightarrow> js_or (Some v) d = v"
  "js_or (Some 0) d = d"
  by (simp_all add: js_or_def)

text \<open>\<open>Math.round\<close> rounds a half upwards, which is the library's \<open>round\<close>.\<close>

definition Math_round :: "real \<Rightarrow> real" where
  "Math_round x = of_int (round x)"

definition Math_floor :: "real \<Rightarrow> real" where
  "Math_floor x = of_int \<lfloor>x\<rfloor>"

lemma Math_round_Ints [simp, intro]: "Math_round x \<in> \<int>"
  by (simp add: Math_round_def)

lemma Math_floor_Ints [simp, intro]: "Math_floor x \<in> \<int>"
  by (simp add: Math_floor_def)

lemma Math_round_of_Ints: "x \<in> \<int> \<Longrightarrow> Math_round x = x"
  by (auto simp: Math_round_def elim!: Ints_cases)

lemma Math_floor_of_Ints: "x \<in> \<int> \<Longrightarrow> Math_floor x = x"
  by (auto simp: Math_floor_def elim!: Ints_cases)

lemma Math_round_mono: "x \<le> y \<Longrightarrow> Math_round x \<le> Math_round y"
  by (simp add: Math_round_def round_mono)

lemma Math_floor_le: "Math_floor x \<le> x"
  by (simp add: Math_floor_def)

lemma Math_floor_gt: "x - 1 < Math_floor x"
  unfolding Math_floor_def by linarith

lemma Math_floor_nonneg: "0 \<le> x \<Longrightarrow> 0 \<le> Math_floor x"
  by (simp add: Math_floor_def)

lemma Math_floor_ge_Ints: "k \<in> \<int> \<Longrightarrow> k \<le> x \<Longrightarrow> k \<le> Math_floor x"
  by (auto simp: Math_floor_def le_floor_iff elim!: Ints_cases)

lemma Math_round_add_Ints: "k \<in> \<int> \<Longrightarrow> Math_round (k + x) = k + Math_round x"
proof (elim Ints_cases)
  fix i assume k: "k = of_int i"
  have "\<lfloor>of_int i + x + 1 / 2\<rfloor> = i + \<lfloor>x + 1 / 2\<rfloor>" by linarith
  then show ?thesis by (simp add: k Math_round_def round_def)
qed

lemma Math_round_bounds: "x - 1 / 2 < Math_round x" "Math_round x \<le> x + 1 / 2"
  unfolding Math_round_def by (simp_all add: of_int_round_gt of_int_round_le)

lemma Ints_max: "x \<in> \<int> \<Longrightarrow> y \<in> \<int> \<Longrightarrow> max x y \<in> \<int>" for x :: real
  by (simp add: max_def)

lemma Ints_min: "x \<in> \<int> \<Longrightarrow> y \<in> \<int> \<Longrightarrow> min x y \<in> \<int>" for x :: real
  by (simp add: min_def)

text \<open>\<open>Math.ceil(Math.sqrt(n))\<close> and \<open>Math.ceil(a / b)\<close> of natural numbers, computed.\<close>

function ceil_sqrt_from :: "nat \<Rightarrow> nat \<Rightarrow> nat" where
  "ceil_sqrt_from k n = (if n \<le> k * k then k else ceil_sqrt_from (Suc k) n)"
  by pat_completeness auto
termination ceil_sqrt_from
proof (relation "measure (\<lambda>(k, n). n - k)")
  fix k n :: nat
  assume "\<not> n \<le> k * k"
  moreover have "k \<le> k * k" by (cases k) simp_all
  ultimately have "k < n" by linarith
  then show "((Suc k, n), (k, n)) \<in> measure (\<lambda>(k, n). n - k)" by simp
qed simp

declare ceil_sqrt_from.simps [simp del]

definition ceil_sqrt :: "nat \<Rightarrow> nat" where
  "ceil_sqrt n = ceil_sqrt_from 0 n"

lemma ceil_sqrt_from_le: "n \<le> ceil_sqrt_from k n * ceil_sqrt_from k n"
  by (induction k n rule: ceil_sqrt_from.induct) (subst (1 2) ceil_sqrt_from.simps, auto)

lemma ceil_sqrt_le: "n \<le> ceil_sqrt n * ceil_sqrt n"
  unfolding ceil_sqrt_def by (rule ceil_sqrt_from_le)

lemma ceil_sqrt_from_least: "n \<le> j * j \<Longrightarrow> k \<le> j \<Longrightarrow> ceil_sqrt_from k n \<le> j"
proof (induction k n rule: ceil_sqrt_from.induct)
  case (1 k n)
  show ?case
  proof (cases "n \<le> k * k")
    case True
    then show ?thesis using "1.prems" by (subst ceil_sqrt_from.simps) simp
  next
    case False
    with "1.prems" have "Suc k \<le> j" by (metis le_antisym not_less_eq_eq)
    with False "1" show ?thesis by (subst ceil_sqrt_from.simps) simp
  qed
qed

lemma ceil_sqrt_least: "n \<le> j * j \<Longrightarrow> ceil_sqrt n \<le> j"
  unfolding ceil_sqrt_def by (rule ceil_sqrt_from_least) simp_all

lemma ceil_sqrt_eq: "ceil_sqrt n = nat \<lceil>sqrt (real n)\<rceil>"
proof (rule antisym)
  let ?m = "nat \<lceil>sqrt (real n)\<rceil>"
  have "sqrt (real n) \<le> real ?m" by (simp add: of_nat_ceiling)
  then have "real n \<le> real ?m * real ?m" by (metis of_nat_0_le_iff real_sqrt_le_iff real_sqrt_mult_self abs_of_nat real_sqrt_mult)
  then have "n \<le> ?m * ?m" by (metis of_nat_le_iff of_nat_mult)
  then show "ceil_sqrt n \<le> ?m" by (rule ceil_sqrt_least)
next
  have "real n \<le> (real (ceil_sqrt n))\<^sup>2"
    using ceil_sqrt_le[of n] unfolding power2_eq_square by (metis of_nat_le_iff of_nat_mult)
  then have "sqrt (real n) \<le> real (ceil_sqrt n)" by (simp add: real_le_lsqrt)
  then show "nat \<lceil>sqrt (real n)\<rceil> \<le> ceil_sqrt n" by (simp add: nat_le_iff ceiling_le_iff)
qed

lemma ceil_sqrt_pos: "0 < n \<Longrightarrow> 0 < ceil_sqrt n"
  using ceil_sqrt_le[of n] by (cases "ceil_sqrt n") auto

definition ceil_div :: "nat \<Rightarrow> nat \<Rightarrow> nat" where
  "ceil_div a b = (a + b - 1) div b"

lemma ceil_div_le: "0 < b \<Longrightarrow> a \<le> b * ceil_div a b"
proof -
  assume b: "0 < b"
  have "(a + b - 1) mod b < b" using b by simp
  moreover have "a + b - 1 = b * ((a + b - 1) div b) + (a + b - 1) mod b" by simp
  ultimately show "a \<le> b * ceil_div a b" unfolding ceil_div_def using b by linarith
qed

lemma ceil_div_least: "0 < b \<Longrightarrow> a \<le> b * k \<Longrightarrow> ceil_div a b \<le> k"
proof -
  assume b: "0 < b" and k: "a \<le> b * k"
  have "a + b - 1 < b * Suc k" using b k by (simp add: algebra_simps)
  then have "(a + b - 1) div b < Suc k" using b by (simp add: less_mult_imp_div_less mult.commute)
  then show "ceil_div a b \<le> k" by (simp add: ceil_div_def)
qed

lemma ceil_div_pos: "0 < a \<Longrightarrow> 0 < b \<Longrightarrow> 0 < ceil_div a b"
  using ceil_div_le[of b a] by (cases "ceil_div a b") auto

section \<open>Interfaces shared by the components\<close>

text \<open>
  A component that reacts to events: its step keeps an invariant for the events it is meant to
  see, so every run of such events stays in it.
\<close>

locale machine =
  fixes step :: "'s \<Rightarrow> 'e \<Rightarrow> 's" and inv :: "'s \<Rightarrow> bool" and ok :: "'e \<Rightarrow> bool"
  assumes step_inv: "inv s \<Longrightarrow> ok e \<Longrightarrow> inv (step s e)"
begin

lemma run_inv: "inv s \<Longrightarrow> \<forall>e\<in>set es. ok e \<Longrightarrow> inv (foldl step s es)"
  by (induction es arbitrary: s) (simp_all add: step_inv)

end

text \<open>A log that keeps the newest \<open>cap\<close> entries, pushed onto while it is within them.\<close>

locale bounded_log =
  fixes push :: "'x list \<Rightarrow> 'x \<Rightarrow> 'x list" and cap :: nat
  assumes push_keeps: "length xs \<le> cap \<Longrightarrow> push xs x = drop (Suc (length xs) - cap) (xs @ [x])"
    and cap_pos: "0 < cap"
begin

lemma push_length: "length xs \<le> cap \<Longrightarrow> length (push xs x) \<le> cap"
  by (simp add: push_keeps)

lemma push_last: "length xs \<le> cap \<Longrightarrow> push xs x \<noteq> [] \<and> last (push xs x) = x"
  using cap_pos by (simp add: push_keeps)

lemma push_all:
  "length xs \<le> cap \<Longrightarrow> foldl push xs ys = drop (length xs + length ys - cap) (xs @ ys)"
proof (induction ys arbitrary: xs)
  case Nil
  then show ?case by simp
next
  case (Cons y ys)
  let ?k = "Suc (length xs) - cap"
  note keeps = push_keeps [OF Cons.prems, of y]
  have k: "?k \<le> Suc (length xs)" using cap_pos by simp
  have p: "push xs y @ ys = drop ?k (xs @ y # ys)"
    unfolding keeps using k drop_append [of ?k "xs @ [y]" ys] by simp
  have "foldl push xs (y # ys) = drop (length (push xs y) + length ys - cap) (push xs y @ ys)"
    using Cons.IH [OF push_length [OF Cons.prems]] by simp
  also have "\<dots> = drop (Suc (length xs) - ?k + length ys - cap + ?k) (xs @ y # ys)"
    unfolding p drop_drop by (simp only: keeps length_drop length_append_singleton)
  also have "Suc (length xs) - ?k + length ys - cap + ?k = length xs + length (y # ys) - cap"
    using Cons.prems cap_pos by (cases "length xs = cap") auto
  finally show ?case .
qed

lemma push_newest: "foldl push [] ys = drop (length ys - cap) ys"
  using push_all [of "[]" ys] by simp

end

end
