(* ===== verification/WinMgr.thy ===== *)
theory WinMgr
  imports VtPrelude
begin

text \<open>
  \<^verbatim>\<open>shell/winmgr.js\<close>: the geometry of the desktop's floating windows. A geometry is the
  record \<open>geom\<close> in CSS pixels, relative to the frame \<open>box\<close>; an optional argument of
  the source is an \<open>option\<close>, with the source's \<open>||\<close> as \<open>js_or\<close>.
\<close>

section \<open>Data\<close>

record geom =
  gleft :: real
  gtop :: real
  gwidth :: real
  gheight :: real

record box =
  bw :: real
  bh :: real

definition MINW :: real where "MINW = 320"
definition MINH :: real where "MINH = 200"
definition MARGIN :: real where "MARGIN = 10"

abbreviation mk_geom :: "real \<Rightarrow> real \<Rightarrow> real \<Rightarrow> real \<Rightarrow> geom" where
  "mk_geom l t w h \<equiv> \<lparr>gleft = l, gtop = t, gwidth = w, gheight = h\<rparr>"

abbreviation mk_box :: "real \<Rightarrow> real \<Rightarrow> box" where
  "mk_box w h \<equiv> \<lparr>bw = w, bh = h\<rparr>"

abbreviation gright :: "geom \<Rightarrow> real" where
  "gright g \<equiv> gleft g + gwidth g"

abbreviation gbottom :: "geom \<Rightarrow> real" where
  "gbottom g \<equiv> gtop g + gheight g"

section \<open>Clamping, resizing, placing and snapping one window\<close>

definition clampGeom :: "geom \<Rightarrow> box \<Rightarrow> real option \<Rightarrow> real option \<Rightarrow> real option \<Rightarrow> geom" where
  "clampGeom g box minw0 minh0 m0 =
     (let minw = js_or minw0 MINW; minh = js_or minh0 MINH; m = js_or m0 0;
          w = max minw (min (Math_round (gwidth g)) (bw box - 2 * m));
          h = max minh (min (Math_round (gheight g)) (bh box - 2 * m));
          left = max m (min (Math_round (gleft g)) (bw box - m - w));
          top = max m (min (Math_round (gtop g)) (bh box - m - h))
      in mk_geom left top w h)"

text \<open>
  The direction is a string of the letters n, s, e, w; \<open>dir.indexOf(c) !== -1\<close> is membership.
\<close>

definition resizeGeom ::
  "geom \<Rightarrow> string \<Rightarrow> real \<Rightarrow> real \<Rightarrow> box \<Rightarrow> real option \<Rightarrow> real option \<Rightarrow> real option \<Rightarrow> geom" where
  "resizeGeom g dir dx dy box minw0 minh0 m =
     (let minw = js_or minw0 MINW; minh = js_or minh0 MINH;
          e = CHR ''e'' \<in> set dir; s = CHR ''s'' \<in> set dir;
          wst = CHR ''w'' \<in> set dir; n = CHR ''n'' \<in> set dir;
          w1 = (if e then gwidth g + dx else gwidth g);
          h1 = (if s then gheight g + dy else gheight g);
          (w2, l2) = (if wst then (gwidth g - dx, gleft g + dx) else (w1, gleft g));
          (h2, t2) = (if n then (gheight g - dy, gtop g + dy) else (h1, gtop g));
          (w3, l3) = (if w2 < minw then (minw, if wst then l2 - (minw - w2) else l2) else (w2, l2));
          (h3, t3) = (if h2 < minh then (minh, if n then t2 - (minh - h2) else t2) else (h2, t2))
      in clampGeom (mk_geom l3 t3 w3 h3) box (Some minw) (Some minh) m)"

definition defaultGeom :: "box \<Rightarrow> int option \<Rightarrow> real option \<Rightarrow> geom" where
  "defaultGeom box index m =
     (let w = Math_round (min 920 (bw box * (62 / 100)));
          h = Math_round (min 680 (bh box * (72 / 100)));
          i = (case index of None \<Rightarrow> 0 | Some i \<Rightarrow> i);
          off = of_int (sgn i * (\<bar>i\<bar> mod 6)) * 32
      in clampGeom (mk_geom (Math_round (bw box * (10 / 100)) + off)
                            (Math_round (bh box * (7 / 100)) + off) w h)
           box (Some MINW) (Some MINH) m)"

definition snapTarget :: "real \<Rightarrow> real \<Rightarrow> box \<Rightarrow> real option \<Rightarrow> real option \<Rightarrow> geom option" where
  "snapTarget px py box edge0 m0 =
     (let edge = js_or edge0 18; m = js_or m0 0; half = Math_round (bw box / 2)
      in if px \<le> edge then Some (mk_geom m m (half - m) (bh box - 2 * m))
         else if px \<ge> bw box - edge
         then Some (mk_geom half m (bw box - half - m) (bh box - 2 * m))
         else None)"

section \<open>Tiling\<close>

text \<open>The columns \<open>tileGrid\<close> settles on: its three successive assignments to \<open>cols\<close>.\<close>

definition fit_cols :: "real \<Rightarrow> real \<Rightarrow> int" where
  "fit_cols w minw = (if \<lfloor>w / minw\<rfloor> = 0 then 1 else \<lfloor>w / minw\<rfloor>)"

definition tile_cols :: "nat \<Rightarrow> box \<Rightarrow> nat" where
  "tile_cols n box =
     (let c0 = ceil_sqrt n;
          c1 = (if n = 2 \<and> bh box > bw box then 1 else c0);
          c2 = (if n = 3 then (if bw box \<ge> 3 * MINW \<and> bw box > bh box then 3
                               else if bh box > bw box then 1 else c1)
                else c1)
      in nat (max 1 (min (int c2) (fit_cols (bw box) MINW))))"

definition tile_at :: "nat \<Rightarrow> nat \<Rightarrow> nat \<Rightarrow> box \<Rightarrow> nat \<Rightarrow> geom" where
  "tile_at n cols rows box i =
     (let r = i div cols; c = i mod cols;
          rowItems = (if r = rows - 1 then n - cols * (rows - 1) else cols);
          cw = Math_floor (bw box / real rowItems); ch = Math_floor (bh box / real rows)
      in mk_geom (real c * cw) (real r * ch)
                 (if c = rowItems - 1 then bw box - real c * cw else cw)
                 (if r = rows - 1 then bh box - real r * ch else ch))"

definition tileGrid :: "nat \<Rightarrow> box \<Rightarrow> geom list" where
  "tileGrid n box =
     (if n = 0 then []
      else let cols = tile_cols n box; rows = ceil_div n cols
           in map (tile_at n cols rows box) [0..<n])"

definition tileCapacity :: "box \<Rightarrow> int" where
  "tileCapacity box = max 1 (fit_cols (bw box) MINW) * max 1 (fit_cols (bh box) MINH)"

definition gapZone :: "box \<Rightarrow> real \<Rightarrow> real \<Rightarrow> geom \<Rightarrow> geom" where
  "gapZone box margin h z =
     (let r = gright z; b = gbottom z;
          l = (if gleft z \<le> 0 then margin else gleft z + h);
          t = (if gtop z \<le> 0 then margin else gtop z + h);
          rr = (if r \<ge> bw box then bw box - margin else r - h);
          bb = (if b \<ge> bh box then bh box - margin else b - h)
      in mk_geom (Math_round l) (Math_round t) (Math_round (rr - l)) (Math_round (bb - t)))"

definition gapZones :: "geom list \<Rightarrow> box \<Rightarrow> real option \<Rightarrow> real option \<Rightarrow> geom list" where
  "gapZones zones box margin gap = map (gapZone box (js_or margin 0) (js_or gap 0 / 2)) zones"

section \<open>Snap layouts\<close>

record layout =
  lkey :: string
  lname :: string
  lzones :: "(real \<times> real \<times> real \<times> real) list"

definition LAYOUTS :: "layout list" where
  "LAYOUTS =
     [\<lparr>lkey = ''halves'', lname = ''Halves'', lzones = [(0, 0, 1/2, 1), (1/2, 0, 1/2, 1)]\<rparr>,
      \<lparr>lkey = ''split21'', lname = ''2 : 1'', lzones = [(0, 0, 2/3, 1), (2/3, 0, 1/3, 1)]\<rparr>,
      \<lparr>lkey = ''thirds'', lname = ''Thirds'',
        lzones = [(0, 0, 1/3, 1), (1/3, 0, 1/3, 1), (2/3, 0, 1/3, 1)]\<rparr>,
      \<lparr>lkey = ''main2'', lname = ''1 + 2'',
        lzones = [(0, 0, 6/10, 1), (6/10, 0, 4/10, 1/2), (6/10, 1/2, 4/10, 1/2)]\<rparr>,
      \<lparr>lkey = ''stacked'', lname = ''Stacked'', lzones = [(0, 0, 1, 1/2), (0, 1/2, 1, 1/2)]\<rparr>,
      \<lparr>lkey = ''quads'', lname = ''Quarters'',
        lzones = [(0, 0, 1/2, 1/2), (1/2, 0, 1/2, 1/2), (0, 1/2, 1/2, 1/2), (1/2, 1/2, 1/2, 1/2)]\<rparr>,
      \<lparr>lkey = ''columns'', lname = ''Columns'',
        lzones = [(0, 0, 1/4, 1), (1/4, 0, 1/4, 1), (1/2, 0, 1/4, 1), (3/4, 0, 1/4, 1)]\<rparr>]"

definition zone_px :: "box \<Rightarrow> real \<times> real \<times> real \<times> real \<Rightarrow> geom" where
  "zone_px box = (\<lambda>(z0, z1, z2, z3).
     let l = Math_round (z0 * bw box); r = Math_round ((z0 + z2) * bw box);
         t = Math_round (z1 * bh box); b = Math_round ((z1 + z3) * bh box)
     in mk_geom l t (r - l) (b - t))"

text \<open>The loop over the zones stops with \<open>null\<close> at the first zone below the minimum.\<close>

fun zones_px :: "box \<Rightarrow> (real \<times> real \<times> real \<times> real) list \<Rightarrow> geom list option" where
  "zones_px box [] = Some []"
| "zones_px box (z # zs) =
     (let g = zone_px box z
      in if gwidth g < MINW \<or> gheight g < MINH then None
         else map_option ((#) g) (zones_px box zs))"

text \<open>The search keeps the last layout with the key, as the source's loop does.\<close>

definition find_layout :: "string \<Rightarrow> layout option" where
  "find_layout key = fold (\<lambda>L acc. if lkey L = key then Some L else acc) LAYOUTS None"

definition layoutGeoms :: "string \<Rightarrow> box \<Rightarrow> geom list option" where
  "layoutGeoms key box =
     (case find_layout key of None \<Rightarrow> None | Some L \<Rightarrow> zones_px box (lzones L))"

definition layoutsFor :: "box \<Rightarrow> nat \<Rightarrow> layout list" where
  "layoutsFor box winCount =
     filter (\<lambda>L. length (lzones L) = winCount \<and> layoutGeoms (lkey L) box \<noteq> None) LAYOUTS"

section \<open>Assigning windows to zones\<close>

text \<open>\<open>out[i] = v\<close> on a JavaScript array: a write past the end extends it with holes.\<close>

definition js_put :: "'a option list \<Rightarrow> nat \<Rightarrow> 'a \<Rightarrow> 'a option list" where
  "js_put xs i v =
     (if i < length xs then xs[i := Some v]
      else xs @ replicate (i - length xs) None @ [Some v])"

fun fill_holes :: "'a option list \<Rightarrow> 'a list \<Rightarrow> 'a option list" where
  "fill_holes [] rest = []"
| "fill_holes (Some x # out) rest = Some x # fill_holes out rest"
| "fill_holes (None # out) [] = None # fill_holes out []"
| "fill_holes (None # out) (r # rest) = Some r # fill_holes out rest"

text \<open>
  \<open>focusedId\<close> may be null. The filling loop runs over the first \<open>n\<close> places; a place
  it cannot fill stays a hole (\<open>undefined\<close>).
\<close>

definition zoneAssign :: "string list \<Rightarrow> string option \<Rightarrow> nat \<Rightarrow> int option \<Rightarrow> string option list" where
  "zoneAssign ids focusedId zoneCount mainZone =
     (let n = min zoneCount (length ids);
          focused = (case focusedId of None \<Rightarrow> None | Some f \<Rightarrow> if f \<in> set ids then Some f else None);
          main = (case focused of None \<Rightarrow> 0
                  | Some _ \<Rightarrow> nat (max 0 (min (int n - 1) (case mainZone of None \<Rightarrow> 0 | Some k \<Rightarrow> k))));
          rest = filter (\<lambda>x. Some x \<noteq> focused) ids;
          out = (case focused of None \<Rightarrow> replicate n None | Some f \<Rightarrow> js_put (replicate n None) main f)
      in fill_holes (take n out) rest @ drop n out)"

definition swapZones :: "'a list \<Rightarrow> int \<Rightarrow> int \<Rightarrow> 'a list" where
  "swapZones assign i j =
     (if i = j \<or> i < 0 \<or> j < 0 \<or> i \<ge> int (length assign) \<or> j \<ge> int (length assign) then assign
      else assign[nat i := assign ! nat j, nat j := assign ! nat i])"

section \<open>Recognising a layout\<close>

definition near :: "real \<Rightarrow> geom \<Rightarrow> geom \<Rightarrow> bool" where
  "near tol g z \<longleftrightarrow>
     \<bar>gleft g - gleft z\<bar> \<le> tol \<and> \<bar>gtop g - gtop z\<bar> \<le> tol \<and>
     \<bar>gwidth g - gwidth z\<bar> \<le> tol \<and> \<bar>gheight g - gheight z\<bar> \<le> tol"

text \<open>
  The inner loop over the windows; the outer \<open>None\<close> is the early \<open>return null\<close> (two
  windows on one zone). An empty id is falsy, so it does not count as a hit.
\<close>

definition truthy_str :: "string option \<Rightarrow> bool" where
  "truthy_str x \<longleftrightarrow> x \<noteq> None \<and> x \<noteq> Some []"

fun zone_hit ::
  "(string \<times> geom) list \<Rightarrow> string list \<Rightarrow> real \<Rightarrow> geom \<Rightarrow> string option \<Rightarrow> string option option" where
  "zone_hit [] used tol z hit = Some hit"
| "zone_hit ((i, g) # gs) used tol z hit =
     (if i \<in> set used then zone_hit gs used tol z hit
      else if near tol g z then
        (if truthy_str hit then None else zone_hit gs used tol z (Some i))
      else zone_hit gs used tol z hit)"

fun occupy :: "geom list \<Rightarrow> (string \<times> geom) list \<Rightarrow> string list \<Rightarrow> real \<Rightarrow> string list option" where
  "occupy [] geoms used tol = Some []"
| "occupy (z # zs) geoms used tol =
     (case zone_hit geoms used tol z None of
        None \<Rightarrow> None
      | Some hit \<Rightarrow>
          if truthy_str hit then map_option ((#) (the hit)) (occupy zs geoms (the hit # used) tol)
          else None)"

definition zoneOccupancy :: "geom list \<Rightarrow> (string \<times> geom) list \<Rightarrow> real option \<Rightarrow> string list option" where
  "zoneOccupancy zones geoms tol =
     (if length geoms \<noteq> length zones then None else occupy zones geoms [] (js_or tol 4))"

section \<open>One window stays inside its frame\<close>

lemma clampGeom_fields:
  "gwidth (clampGeom g box a b c) =
     max (js_or a MINW) (min (Math_round (gwidth g)) (bw box - 2 * js_or c 0))"
  "gheight (clampGeom g box a b c) =
     max (js_or b MINH) (min (Math_round (gheight g)) (bh box - 2 * js_or c 0))"
  "gleft (clampGeom g box a b c) =
     max (js_or c 0) (min (Math_round (gleft g)) (bw box - js_or c 0 - gwidth (clampGeom g box a b c)))"
  "gtop (clampGeom g box a b c) =
     max (js_or c 0) (min (Math_round (gtop g)) (bh box - js_or c 0 - gheight (clampGeom g box a b c)))"
  by (simp_all add: clampGeom_def Let_def)

text \<open>The geometries \<open>clampGeom\<close> promises: inside the frame less the margin, at least minimal.\<close>

definition in_frame :: "box \<Rightarrow> real \<Rightarrow> real \<Rightarrow> real \<Rightarrow> geom \<Rightarrow> bool" where
  "in_frame box minw minh m g \<longleftrightarrow>
     m \<le> gleft g \<and> gright g \<le> bw box - m \<and> m \<le> gtop g \<and> gbottom g \<le> bh box - m \<and>
     minw \<le> gwidth g \<and> minh \<le> gheight g"

definition integral :: "geom \<Rightarrow> bool" where
  "integral g \<longleftrightarrow> gleft g \<in> \<int> \<and> gtop g \<in> \<int> \<and> gwidth g \<in> \<int> \<and> gheight g \<in> \<int>"

lemma integralI [intro]:
  "gleft g \<in> \<int> \<Longrightarrow> gtop g \<in> \<int> \<Longrightarrow> gwidth g \<in> \<int> \<Longrightarrow> gheight g \<in> \<int> \<Longrightarrow> integral g"
  by (simp add: integral_def)

lemma integralD:
  "integral g \<Longrightarrow> gleft g \<in> \<int>" "integral g \<Longrightarrow> gtop g \<in> \<int>"
  "integral g \<Longrightarrow> gwidth g \<in> \<int>" "integral g \<Longrightarrow> gheight g \<in> \<int>"
  by (simp_all add: integral_def)

lemma clamp_span:
  fixes lo hi size x :: real
  assumes "lo + size \<le> hi"
  shows "lo \<le> max lo (min x (hi - size))" "max lo (min x (hi - size)) + size \<le> hi"
  using assms by (auto simp: max_def min_def)

lemma clampGeom_in_frame:
  assumes "js_or a MINW + 2 * js_or c 0 \<le> bw box" and "js_or b MINH + 2 * js_or c 0 \<le> bh box"
  shows "in_frame box (js_or a MINW) (js_or b MINH) (js_or c 0) (clampGeom g box a b c)"
proof -
  let ?r = "clampGeom g box a b c" and ?m = "js_or c 0"
  have "gwidth ?r \<le> bw box - 2 * ?m" and "gheight ?r \<le> bh box - 2 * ?m"
    unfolding clampGeom_fields using assms by (intro max.boundedI min.cobounded2; linarith)+
  then have w: "?m + gwidth ?r \<le> bw box - ?m" and h: "?m + gheight ?r \<le> bh box - ?m" by linarith+
  have "js_or a MINW \<le> gwidth ?r" and "js_or b MINH \<le> gheight ?r"
    unfolding clampGeom_fields by (rule max.cobounded1)+
  moreover note clamp_span [OF w, of "Math_round (gleft g)", folded clampGeom_fields]
  moreover note clamp_span [OF h, of "Math_round (gtop g)", folded clampGeom_fields]
  ultimately show ?thesis unfolding in_frame_def by blast
qed

lemma clamp_id:
  fixes lo hi x :: real
  shows "lo \<le> x \<Longrightarrow> x \<le> hi \<Longrightarrow> max lo (min x hi) = x"
  by simp

lemma clampGeom_id:
  assumes "in_frame box (js_or a MINW) (js_or b MINH) (js_or c 0) g" and "integral g"
  shows "clampGeom g box a b c = g"
proof -
  let ?m = "js_or c 0"
  note f = assms(1) [unfolded in_frame_def]
  note i = assms(2) [THEN integralD(1)] assms(2) [THEN integralD(2)]
    assms(2) [THEN integralD(3)] assms(2) [THEN integralD(4)]
  have w: "gwidth (clampGeom g box a b c) = gwidth g"
    unfolding clampGeom_fields Math_round_of_Ints [OF i(3)] using f by (intro clamp_id) linarith+
  have h: "gheight (clampGeom g box a b c) = gheight g"
    unfolding clampGeom_fields Math_round_of_Ints [OF i(4)] using f by (intro clamp_id) linarith+
  have l: "gleft (clampGeom g box a b c) = gleft g"
    unfolding clampGeom_fields(3) w Math_round_of_Ints [OF i(1)] using f by (intro clamp_id) linarith+
  have t: "gtop (clampGeom g box a b c) = gtop g"
    unfolding clampGeom_fields(4) h Math_round_of_Ints [OF i(2)] using f by (intro clamp_id) linarith+
  show ?thesis using w h l t by simp
qed

lemma clampGeom_integral:
  assumes "bw box \<in> \<int>" "bh box \<in> \<int>" "js_or a MINW \<in> \<int>" "js_or b MINH \<in> \<int>" "js_or c 0 \<in> \<int>"
  shows "integral (clampGeom g box a b c)"
  using assms unfolding clampGeom_def Let_def
  by (intro integralI) (simp_all add: Ints_max Ints_min)

section \<open>Resizing: which edge moves\<close>

text \<open>
  The rectangle the pointer asks for, before the frame clamps it, edge by edge: the dragged
  edges move, the others keep their place, the minimum size pins the moving edge.
\<close>

definition drag_span :: "bool \<Rightarrow> bool \<Rightarrow> real \<Rightarrow> real \<Rightarrow> real \<Rightarrow> real \<Rightarrow> real \<times> real" where
  "drag_span low high lo hi d minsize =
     (if low then (min (lo + d) (hi - minsize), hi)
      else (lo, max (if high then hi + d else hi) (lo + minsize)))"

lemma drag_span_pin:
  "(if low then (w - d, lo + d) else (if high then w + d else w, lo)) = (w2, l2) \<Longrightarrow>
   drag_span low high lo (lo + w) d k = (l, r) \<Longrightarrow>
   (if w2 < k then (k, if low then l2 - (k - w2) else l2) else (w2, l2)) = (r - l, l)"
  by (auto simp: drag_span_def max_def min_def split: if_splits)

lemma resizeGeom_eq_drag:
  assumes "drag_span (CHR ''w'' \<in> set dir) (CHR ''e'' \<in> set dir) (gleft g) (gright g) dx (js_or a MINW) = (l, r)"
    and "drag_span (CHR ''n'' \<in> set dir) (CHR ''s'' \<in> set dir) (gtop g) (gbottom g) dy (js_or b MINH) = (t, u)"
  shows "resizeGeom g dir dx dy box a b m =
     clampGeom (mk_geom l t (r - l) (u - t)) box (Some (js_or a MINW)) (Some (js_or b MINH)) m"
proof -
  obtain w2 l2 where p: "(if CHR ''w'' \<in> set dir then (gwidth g - dx, gleft g + dx)
      else (if CHR ''e'' \<in> set dir then gwidth g + dx else gwidth g, gleft g)) = (w2, l2)"
    by (metis surj_pair)
  obtain h2 t2 where q: "(if CHR ''n'' \<in> set dir then (gheight g - dy, gtop g + dy)
      else (if CHR ''s'' \<in> set dir then gheight g + dy else gheight g, gtop g)) = (h2, t2)"
    by (metis surj_pair)
  show ?thesis
    unfolding resizeGeom_def Let_def p q prod.case
      drag_span_pin [OF p assms(1)] drag_span_pin [OF q assms(2)] by (rule refl)
qed

end
