(* ===== verification/WinTiling.thy ===== *)
theory WinTiling
  imports WinMgr
begin

text \<open>
  The tilings of \<^verbatim>\<open>shell/winmgr.js\<close>. \<open>gapZones\<close> relies on its input tiling the frame
  with shared integer edges, \<open>tileGrid\<close> and \<open>layoutGeoms\<close> are the two providers: that is the
  locale \<open>tiling_source\<close>, interpreted once for each of them.
\<close>

section \<open>The contract\<close>

definition apart_by :: "real \<Rightarrow> geom \<Rightarrow> geom \<Rightarrow> bool" where
  "apart_by d a b \<longleftrightarrow>
     gright a + d \<le> gleft b \<or> gright b + d \<le> gleft a \<or>
     gbottom a + d \<le> gtop b \<or> gbottom b + d \<le> gtop a"

definition zone_ok :: "box \<Rightarrow> geom \<Rightarrow> bool" where
  "zone_ok box z \<longleftrightarrow>
     integral z \<and> 0 \<le> gleft z \<and> 0 \<le> gtop z \<and> gright z \<le> bw box \<and> gbottom z \<le> bh box \<and>
     0 < gwidth z \<and> 0 < gheight z"

definition tiling :: "box \<Rightarrow> geom list \<Rightarrow> bool" where
  "tiling box zs \<longleftrightarrow> (\<forall>z\<in>set zs. zone_ok box z) \<and> sorted_wrt (apart_by 0) zs"

definition int_box :: "box \<Rightarrow> bool" where
  "int_box box \<longleftrightarrow> bw box \<in> \<int> \<and> bh box \<in> \<int>"

lemma tilingI:
  "(\<And>z. z \<in> set zs \<Longrightarrow> zone_ok box z) \<Longrightarrow> sorted_wrt (apart_by 0) zs \<Longrightarrow> tiling box zs"
  by (simp add: tiling_def)

section \<open>Gapping one zone\<close>

lemma Math_round_half: "Math_round (real k / 2) = real ((k + 1) div 2)"
proof (cases "even k")
  case True
  then obtain j where "k = 2 * j" by (elim evenE)
  then show ?thesis by (simp add: Math_round_def)
next
  case False
  then obtain j where "k = 2 * j + 1" by (elim oddE)
  moreover have "\<lfloor>real j + 1 / 2 + 1 / 2\<rfloor> = int j + 1" by linarith
  ultimately show ?thesis by (simp add: Math_round_def round_def add_divide_distrib)
qed

lemma Math_round_neg_half: "Math_round (- (real k / 2)) = - real (k div 2)"
proof (cases "even k")
  case True
  then obtain j where "k = 2 * j" by (elim evenE)
  then show ?thesis using Math_round_of_Ints [of "- real j"] by simp
next
  case False
  then obtain j where "k = 2 * j + 1" by (elim oddE)
  moreover have "\<lfloor>- (real j + 1 / 2) + 1 / 2\<rfloor> = - int j" by linarith
  ultimately show ?thesis by (simp add: Math_round_def round_def add_divide_distrib)
qed

lemma Math_round_Ints_add_half:
  "x \<in> \<int> \<Longrightarrow> Math_round (x + real k / 2) = x + real ((k + 1) div 2)"
  "x \<in> \<int> \<Longrightarrow> Math_round (x - real k / 2) = x - real (k div 2)"
  using Math_round_add_Ints [of x "real k / 2"] Math_round_add_Ints [of x "- (real k / 2)"]
  by (simp_all add: Math_round_half Math_round_neg_half)

text \<open>
  One axis of \<open>gapZone\<close>: the span \<open>[lo, hi]\<close> in a frame of extent \<open>extent\<close>. The near end moves in
  by the margin or by the half gap rounded up, the far end by the margin or by the half gap
  rounded down, with one pixel of overshoot where an interior near end meets the frame's far end.
\<close>

definition gap_lo :: "real \<Rightarrow> nat \<Rightarrow> real \<Rightarrow> real" where
  "gap_lo margin gap lo = (if lo \<le> 0 then margin else lo + real ((gap + 1) div 2))"

definition gap_hi :: "real \<Rightarrow> real \<Rightarrow> nat \<Rightarrow> real \<Rightarrow> real \<Rightarrow> real" where
  "gap_hi extent margin gap lo hi =
     (if hi \<ge> extent then extent - margin + (if lo \<le> 0 then 0 else real (gap mod 2))
      else hi - real (gap div 2))"

lemma half_split: "real ((k + 1) div 2) - real (k div 2) = real (k mod 2)"
proof -
  have "(k + 1) div 2 = k div 2 + k mod 2" by presburger
  then show ?thesis by simp
qed

lemma half_sum: "real ((k + 1) div 2) + real (k div 2) = real k"
proof -
  have "(k + 1) div 2 + k div 2 = k" by presburger
  then show ?thesis by (metis of_nat_add)
qed

lemma gap_axis:
  fixes lo hi extent margin :: real and gap :: nat
  assumes "lo \<in> \<int>" "hi \<in> \<int>" "extent \<in> \<int>" "margin \<in> \<int>"
  defines "l \<equiv> if lo \<le> 0 then margin else lo + real gap / 2"
    and "r \<equiv> if hi \<ge> extent then extent - margin else hi - real gap / 2"
  shows "Math_round l = gap_lo margin gap lo"
    and "Math_round l + Math_round (r - l) = gap_hi extent margin gap lo hi"
proof -
  show l: "Math_round l = gap_lo margin gap lo"
    using assms by (simp add: gap_lo_def Math_round_of_Ints Math_round_Ints_add_half)
  have a: "Math_round (hi - real gap / 2 - margin) = hi - margin - real (gap div 2)"
    using Math_round_Ints_add_half(2) [of "hi - margin" gap] assms by (simp add: algebra_simps)
  have b: "Math_round (extent - margin - (lo + real gap / 2)) = extent - margin - lo - real (gap div 2)"
    using Math_round_Ints_add_half(2) [of "extent - margin - lo" gap] assms by (simp add: algebra_simps)
  have c: "Math_round (hi - real gap / 2 - (lo + real gap / 2)) = hi - lo - real gap"
    using assms Math_round_of_Ints [of "hi - lo - real gap"] by (simp add: algebra_simps)
  have d: "Math_round (extent - margin - margin) = extent - margin - margin"
    using assms by (simp add: Math_round_of_Ints)
  note e = half_sum [of gap]
  show "Math_round l + Math_round (r - l) = gap_hi extent margin gap lo hi"
    unfolding l unfolding l_def r_def gap_lo_def gap_hi_def
    using a b c d e half_split [of gap] by auto
qed

lemma gapZone_spans:
  fixes gap :: nat
  assumes z: "integral z" and box: "int_box box" and m: "margin \<in> \<int>"
  defines "z' \<equiv> gapZone box margin (real gap / 2) z"
  shows "gleft z' = gap_lo margin gap (gleft z)"
    and "gright z' = gap_hi (bw box) margin gap (gleft z) (gright z)"
    and "gtop z' = gap_lo margin gap (gtop z)"
    and "gbottom z' = gap_hi (bh box) margin gap (gtop z) (gbottom z)"
proof -
  have i: "gright z \<in> \<int>" "gbottom z \<in> \<int>" using z by (simp_all add: integral_def)
  note x = gap_axis [OF integralD(1) [OF z] i(1) _ m, of "bw box" gap]
  note y = gap_axis [OF integralD(2) [OF z] i(2) _ m, of "bh box" gap]
  show "gleft z' = gap_lo margin gap (gleft z)" "gtop z' = gap_lo margin gap (gtop z)"
    using x(1) y(1) box unfolding z'_def gapZone_def Let_def int_box_def by simp_all
  show "gright z' = gap_hi (bw box) margin gap (gleft z) (gright z)"
    using x(2) box unfolding z'_def gapZone_def Let_def int_box_def by simp
  show "gbottom z' = gap_hi (bh box) margin gap (gtop z) (gbottom z)"
    using y(2) box unfolding z'_def gapZone_def Let_def int_box_def by simp
qed

lemma gap_seam:
  assumes "hi \<le> lo'" "lo < hi" "lo' < hi'" "0 \<le> lo" "hi' \<le> extent"
  shows "gap_hi extent margin gap lo hi + real gap = gap_lo margin gap lo' - (lo' - hi)"
  using assms half_sum [of gap] by (simp add: gap_hi_def gap_lo_def)

section \<open>What gapping promises of any tiling\<close>

lemma gap_seam_nonneg:
  assumes "hi \<le> lo'" "lo < hi" "lo' < hi'" "0 \<le> lo" "hi' \<le> extent"
  shows "gap_hi extent margin gap lo hi + real gap \<le> gap_lo margin gap lo'"
  using gap_seam [OF assms] assms(1) by simp

lemma gap_apart:
  assumes "int_box box" "margin \<in> \<int>" "zone_ok box a" "zone_ok box b" "apart_by 0 a b"
  shows "apart_by (real gap) (gapZone box margin (real gap / 2) a) (gapZone box margin (real gap / 2) b)"
proof -
  have i: "integral a" "integral b" using assms(3,4) by (simp_all add: zone_ok_def)
  note sp = gapZone_spans [OF i(1) assms(1,2), of gap] gapZone_spans [OF i(2) assms(1,2), of gap]
  have pos: "gleft a < gright a" "gtop a < gbottom a" "gleft b < gright b" "gtop b < gbottom b"
    "0 \<le> gleft a" "0 \<le> gtop a" "0 \<le> gleft b" "0 \<le> gtop b"
    "gright a \<le> bw box" "gbottom a \<le> bh box" "gright b \<le> bw box" "gbottom b \<le> bh box"
    using assms(3,4) by (simp_all add: zone_ok_def)
  from assms(5) consider "gright a \<le> gleft b" | "gright b \<le> gleft a"
    | "gbottom a \<le> gtop b" | "gbottom b \<le> gtop a"
    by (auto simp: apart_by_def)
  then show ?thesis
    unfolding apart_by_def unfolding sp(2,4,6,8) unfolding sp(1,3,5,7)
    by cases (use pos in \<open>blast intro: gap_seam_nonneg\<close>)+
qed

text \<open>
  The frame edge of a gapped zone: the margin, except that an odd gap costs one pixel on the
  far side of a zone that does not start at the near side.
\<close>

definition gapped_ok :: "box \<Rightarrow> real \<Rightarrow> nat \<Rightarrow> geom \<Rightarrow> bool" where
  "gapped_ok box margin gap z \<longleftrightarrow>
     integral z \<and> min margin (real ((gap + 1) div 2)) \<le> gleft z \<and>
     min margin (real ((gap + 1) div 2)) \<le> gtop z \<and>
     gright z \<le> max (bw box - margin + real (gap mod 2)) (bw box - real (gap div 2)) \<and>
     gbottom z \<le> max (bh box - margin + real (gap mod 2)) (bh box - real (gap div 2))"

lemma gap_bounds:
  shows "0 \<le> lo \<Longrightarrow> min margin (real ((gap + 1) div 2)) \<le> gap_lo margin gap lo"
    and "gap_hi extent margin gap lo hi
      \<le> max (extent - margin + real (gap mod 2)) (extent - real (gap div 2))"
  by (auto simp: gap_lo_def gap_hi_def)

lemma gapped_zone_ok:
  assumes "int_box box" "margin \<in> \<int>" "zone_ok box z"
  shows "gapped_ok box margin gap (gapZone box margin (real gap / 2) z)"
proof -
  have i: "integral z" and b: "0 \<le> gleft z" "0 \<le> gtop z" "gright z \<le> bw box" "gbottom z \<le> bh box"
    using assms(3) by (simp_all add: zone_ok_def)
  have "integral (gapZone box margin (real gap / 2) z)"
    unfolding gapZone_def Let_def by (intro integralI) simp_all
  then show ?thesis
    unfolding gapped_ok_def unfolding gapZone_spans(2,4) [OF i assms(1,2)]
    unfolding gapZone_spans(1,3) [OF i assms(1,2)]
    by (intro conjI gap_bounds b)
qed

locale tiling_source =
  fixes tiles :: "'k \<Rightarrow> box \<Rightarrow> geom list option"
    and fits :: "'k \<Rightarrow> box \<Rightarrow> bool"
  assumes tiles_tiling: "int_box box \<Longrightarrow> fits k box \<Longrightarrow> tiles k box = Some zs \<Longrightarrow> tiling box zs"
begin

lemma gapped_apart:
  assumes "int_box box" "fits k box" "tiles k box = Some zs" "margin \<in> \<int>"
  shows "sorted_wrt (apart_by (real gap)) (gapZones zs box (Some margin) (Some (real gap)))"
proof -
  have "tiling box zs" using assms(1-3) by (rule tiles_tiling)
  then have ok: "\<forall>z\<in>set zs. zone_ok box z" and ap: "sorted_wrt (apart_by 0) zs"
    by (simp_all add: tiling_def)
  have d: "js_or (Some (real gap)) 0 = real gap" "js_or (Some margin) 0 = margin"
    by (simp_all add: js_or_def)
  show ?thesis
    unfolding gapZones_def d sorted_wrt_map
    by (rule sorted_wrt_mono_rel [OF _ ap]) (use ok in \<open>blast intro: gap_apart [OF assms(1,4)]\<close>)
qed

lemma gapped_inside:
  assumes "int_box box" "fits k box" "tiles k box = Some zs" "margin \<in> \<int>"
    and "z \<in> set (gapZones zs box (Some margin) (Some (real gap)))"
  shows "gapped_ok box margin gap z"
proof -
  have "tiling box zs" using assms(1-3) by (rule tiles_tiling)
  then have ok: "\<forall>z\<in>set zs. zone_ok box z" by (simp add: tiling_def)
  have d: "js_or (Some (real gap)) 0 = real gap" "js_or (Some margin) 0 = margin"
    by (simp_all add: js_or_def)
  from assms(5) obtain y where "y \<in> set zs" "z = gapZone box margin (real gap / 2) y"
    unfolding gapZones_def d by auto
  with ok show ?thesis using gapped_zone_ok [OF assms(1,4)] by blast
qed

end

section \<open>The even grid\<close>

lemma tile_cols_pos: "0 < tile_cols n box"
  by (simp add: tile_cols_def Let_def)

lemma tile_cols_width:
  assumes "1 \<le> bw box"
  shows "real (tile_cols n box) \<le> bw box"
    and "MINW \<le> bw box \<Longrightarrow> real (tile_cols n box) * MINW \<le> bw box"
proof -
  let ?f = "\<lfloor>bw box / MINW\<rfloor>"
  have le: "int (tile_cols n box) \<le> max 1 (fit_cols (bw box) MINW)"
    unfolding tile_cols_def Let_def int_nat_eq by (auto simp: max_def min_def)
  have f: "real_of_int ?f * MINW \<le> bw box"
    using of_int_floor_le [of "bw box / MINW"] by (simp add: MINW_def field_simps)
  show 2: "real (tile_cols n box) * MINW \<le> bw box" if "MINW \<le> bw box"
  proof -
    have f1: "1 \<le> ?f" using that by (simp add: le_floor_iff MINW_def)
    then have "?f \<noteq> 0" by linarith
    then have "fit_cols (bw box) MINW = ?f" by (simp only: fit_cols_def if_False)
    with le f1 have "int (tile_cols n box) \<le> ?f" by linarith
    then have "real (tile_cols n box) \<le> real_of_int ?f" by linarith
    then have "real (tile_cols n box) * MINW \<le> real_of_int ?f * MINW" by (simp add: MINW_def)
    with f show ?thesis by linarith
  qed
  show "real (tile_cols n box) \<le> bw box"
  proof (cases "MINW \<le> bw box")
    case True
    have "real (tile_cols n box) \<le> real (tile_cols n box) * MINW" by (simp add: MINW_def)
    with 2 [OF True] show ?thesis by linarith
  next
    case False
    then have "?f = 0" using assms by (simp add: floor_eq_iff MINW_def)
    then have "int (tile_cols n box) \<le> 1" using le by (simp add: fit_cols_def)
    then show ?thesis using assms by linarith
  qed
qed

text \<open>The row and the column of a tile.\<close>

definition row_items :: "nat \<Rightarrow> nat \<Rightarrow> nat \<Rightarrow> nat \<Rightarrow> nat" where
  "row_items n cols rows r = (if r = rows - 1 then n - cols * (rows - 1) else cols)"

lemma grid_index:
  assumes "0 < cols" "i < n" "rows = ceil_div n cols"
  shows "i div cols < rows" and "i mod cols < row_items n cols rows (i div cols)"
    and "row_items n cols rows (i div cols) \<le> cols"
proof -
  have le: "n \<le> cols * rows" using ceil_div_le assms by simp
  show r: "i div cols < rows"
    using assms le by (metis less_le_trans less_mult_imp_div_less mult.commute)
  show "i mod cols < row_items n cols rows (i div cols)"
  proof (cases "i div cols = rows - 1")
    case True
    have "cols * (i div cols) + i mod cols < n" using assms by simp
    then show ?thesis unfolding row_items_def True by simp
  next
    case False
    then show ?thesis using assms by (simp add: row_items_def)
  qed
  have "n \<le> cols * (rows - 1) + cols" using le r by (metis Suc_pred' gr_zeroI less_nat_zero_code mult_Suc_right add.commute)
  then show "row_items n cols rows (i div cols) \<le> cols" by (simp add: row_items_def le_diff_conv add.commute)
qed

text \<open>One axis of a tile: \<open>k\<close> spans of equal floor size, the last one taking the rest.\<close>

definition slot_lo :: "real \<Rightarrow> nat \<Rightarrow> nat \<Rightarrow> real" where
  "slot_lo extent k c = real c * Math_floor (extent / real k)"

definition slot_size :: "real \<Rightarrow> nat \<Rightarrow> nat \<Rightarrow> real" where
  "slot_size extent k c =
     (if c = k - 1 then extent - real c * Math_floor (extent / real k) else Math_floor (extent / real k))"

lemma tile_at_slots:
  "tile_at n cols rows box i =
     (let r = i div cols; c = i mod cols; k = row_items n cols rows r
      in mk_geom (slot_lo (bw box) k c) (slot_lo (bh box) rows r)
                 (slot_size (bw box) k c) (slot_size (bh box) rows r))"
  by (simp add: tile_at_def slot_lo_def slot_size_def row_items_def Let_def)

lemma slot_floor:
  assumes "0 < k" "real k \<le> extent"
  shows "1 \<le> Math_floor (extent / real k)" and "real k * Math_floor (extent / real k) \<le> extent"
proof -
  have "1 \<le> extent / real k" using assms by simp
  then show "1 \<le> Math_floor (extent / real k)" using Math_floor_ge_Ints [of 1] by simp
  show "real k * Math_floor (extent / real k) \<le> extent"
    using Math_floor_le [of "extent / real k"] assms by (simp add: field_simps)
qed

lemma slot_end:
  assumes "c < k" "real k \<le> extent"
  shows "slot_lo extent k c + slot_size extent k c =
      (if c = k - 1 then extent else slot_lo extent k (Suc c))"
  by (simp add: slot_lo_def slot_size_def distrib_right)

lemma slot_bounds:
  assumes "c < k" "real k \<le> extent"
  shows "0 \<le> slot_lo extent k c" "Math_floor (extent / real k) \<le> slot_size extent k c"
    "0 < slot_size extent k c" "slot_lo extent k c + slot_size extent k c \<le> extent"
proof -
  let ?f = "Math_floor (extent / real k)"
  have k: "0 < k" using assms by simp
  note f = slot_floor [OF k assms(2)]
  have m: "real (Suc c) * ?f \<le> real k * ?f" using assms f(1) by (intro mult_right_mono) auto
  show "0 \<le> slot_lo extent k c" using f(1) by (simp add: slot_lo_def)
  have "real c * ?f + ?f \<le> extent" using m f(2) by (simp add: distrib_right)
  then have "?f \<le> extent - real c * ?f" by linarith
  then show s: "?f \<le> slot_size extent k c"
    unfolding slot_size_def by (cases "c = k - 1") (simp_all only: if_True if_False, simp_all)
  then show "0 < slot_size extent k c" using f(1) by linarith
  show "slot_lo extent k c + slot_size extent k c \<le> extent"
    unfolding slot_end [OF assms] using m f(2) by (simp add: slot_lo_def)
qed

lemma slot_before:
  assumes "c < c'" "c' < k" "real k \<le> extent"
  shows "slot_lo extent k c + slot_size extent k c \<le> slot_lo extent k c'"
proof -
  have "c \<noteq> k - 1" "c < k" "0 < k" using assms by linarith+
  moreover have "real (Suc c) * Math_floor (extent / real k) \<le> real c' * Math_floor (extent / real k)"
    using assms slot_floor(1) [of k extent] by (intro mult_right_mono) auto
  ultimately show ?thesis using slot_end [OF \<open>c < k\<close> assms(3)] by (simp add: slot_lo_def)
qed

lemma slot_Ints: "extent \<in> \<int> \<Longrightarrow> slot_lo extent k c \<in> \<int> \<and> slot_size extent k c \<in> \<int>"
  by (simp add: slot_lo_def slot_size_def)

definition grid_fits :: "nat \<Rightarrow> box \<Rightarrow> bool" where
  "grid_fits n box \<longleftrightarrow> 1 \<le> bw box \<and> real n \<le> bh box"

lemma grid_rows_le: "0 < cols \<Longrightarrow> ceil_div n cols \<le> n"
  by (rule ceil_div_least) (simp_all add: Suc_leI)

lemma tile_slots:
  assumes "grid_fits n box" "i < n"
  defines "cols \<equiv> tile_cols n box" and "rows \<equiv> ceil_div n (tile_cols n box)"
  defines "k \<equiv> row_items n cols rows (i div cols)"
  shows "0 < cols" "i mod cols < k" "i div cols < rows" "real k \<le> bw box" "real rows \<le> bh box"
proof -
  show c: "0 < cols" by (simp add: cols_def tile_cols_pos)
  note g = grid_index [OF c assms(2), of rows]
  show "i mod cols < k" "i div cols < rows" using g unfolding k_def rows_def cols_def by blast+
  have "k \<le> cols" using g(3) unfolding k_def rows_def cols_def by blast
  moreover have "real cols \<le> bw box"
    using tile_cols_width(1) assms(1) unfolding cols_def grid_fits_def by blast
  ultimately show "real k \<le> bw box" by linarith
  have "rows \<le> n" unfolding rows_def by (rule grid_rows_le) (rule tile_cols_pos)
  then show "real rows \<le> bh box" using assms(1) unfolding grid_fits_def by linarith
qed

lemma tileGrid_zone_ok:
  assumes "int_box box" "grid_fits n box" "z \<in> set (tileGrid n box)"
  shows "zone_ok box z"
proof -
  let ?cols = "tile_cols n box" let ?rows = "ceil_div n ?cols"
  from assms(3) obtain i where i: "i < n" and z: "z = tile_at n ?cols ?rows box i"
    by (auto simp: tileGrid_def Let_def split: if_splits)
  note t = tile_slots [OF assms(2) i]
  note x = slot_bounds [OF t(2,4)] and y = slot_bounds [OF t(3,5)]
  have ib: "bw box \<in> \<int>" "bh box \<in> \<int>" using assms(1) by (simp_all add: int_box_def)
  show ?thesis
    unfolding z tile_at_slots Let_def zone_ok_def integral_def
    using x y slot_Ints [OF ib(1)] slot_Ints [OF ib(2)] by simp
qed

lemma tileGrid_apart:
  assumes "grid_fits n box" "i < j" "j < n"
  defines "cols \<equiv> tile_cols n box" and "rows \<equiv> ceil_div n (tile_cols n box)"
  shows "apart_by 0 (tile_at n cols rows box i) (tile_at n cols rows box j)"
proof (cases "i div cols = j div cols")
  case True
  have "i mod cols < j mod cols"
    using assms(2) True by (metis div_mult_mod_eq nat_add_left_cancel_less)
  then show ?thesis
    using slot_before [of "i mod cols" "j mod cols"] tile_slots [OF assms(1,3)] True
    unfolding tile_at_slots Let_def apart_by_def cols_def rows_def by simp
next
  case False
  then have "i div cols < j div cols" using assms(2) by (meson div_le_mono le_neq_implies_less less_imp_le)
  then show ?thesis
    using slot_before [of "i div cols" "j div cols" rows "bh box"] tile_slots [OF assms(1,3)]
    unfolding tile_at_slots Let_def apart_by_def cols_def rows_def by simp
qed

lemma tileGrid_tiling:
  assumes "int_box box" "grid_fits n box"
  shows "tiling box (tileGrid n box)"
proof (rule tilingI)
  show "zone_ok box z" if "z \<in> set (tileGrid n box)" for z
    using assms that by (rule tileGrid_zone_ok)
  show "sorted_wrt (apart_by 0) (tileGrid n box)"
    using tileGrid_apart [OF assms(2)]
    by (simp add: tileGrid_def Let_def sorted_wrt_iff_nth_less)
qed

interpretation grid: tiling_source "\<lambda>n box. Some (tileGrid n box)" grid_fits
  by unfold_locales (auto intro: tileGrid_tiling)

text \<open>The tiles also fill the frame: row by row, their areas add up to the frame's.\<close>

definition garea :: "geom \<Rightarrow> real" where
  "garea g = gwidth g * gheight g"

lemma sum_slot_size:
  assumes "0 < k" "real k \<le> extent"
  shows "(\<Sum>c<k. slot_size extent k c) = extent"
proof -
  obtain j where j: "k = Suc j" using assms(1) by (cases k) auto
  have "(\<Sum>c<j. slot_size extent k c) = (\<Sum>c<j. Math_floor (extent / real k))"
    by (rule sum.cong) (simp_all add: slot_size_def j)
  then show ?thesis by (simp add: j slot_size_def)
qed

lemma sum_grid_row:
  fixes f :: "nat \<Rightarrow> nat \<Rightarrow> real"
  assumes "k \<le> cols"
  shows "(\<Sum>i = r * cols..<r * cols + k. f (i div cols) (i mod cols)) = (\<Sum>c<k. f r c)"
proof -
  have "(\<Sum>i = 0 + r * cols..<k + r * cols. f (i div cols) (i mod cols))
      = (\<Sum>c = 0..<k. f ((c + r * cols) div cols) ((c + r * cols) mod cols))"
    by (rule sum.shift_bounds_nat_ivl)
  also have "\<dots> = (\<Sum>c = 0..<k. f r c)"
    using assms by (intro sum.cong) auto
  finally show ?thesis by (simp add: add.commute atLeast0LessThan)
qed

lemma sum_grid:
  fixes f :: "nat \<Rightarrow> nat \<Rightarrow> real"
  assumes "0 < cols" "0 < n" "rows = ceil_div n cols"
  shows "(\<Sum>i<n. f (i div cols) (i mod cols))
     = (\<Sum>r<rows. \<Sum>c<row_items n cols rows r. f r c)"
proof -
  let ?g = "\<lambda>i. f (i div cols) (i mod cols)"
  obtain m where rows: "rows = Suc m" using ceil_div_pos [OF assms(2,1)] assms(3)
    by (metis gr0_implies_Suc)
  have "n \<le> cols * rows" using ceil_div_le [OF assms(1), of n] assms(3) by simp
  then have le: "n \<le> m * cols + cols" by (simp add: rows mult.commute)
  have "\<not> n \<le> cols * m" using ceil_div_least [OF assms(1), of n m] assms(3) rows by auto
  then have gt: "m * cols < n" by (simp add: mult.commute)
  have "(\<Sum>i<n. ?g i) = (\<Sum>i<m * cols. ?g i) + (\<Sum>i = m * cols..<n. ?g i)"
    using sum.atLeastLessThan_concat [of 0 "m * cols" n ?g] gt by (simp add: atLeast0LessThan)
  moreover have "(\<Sum>i<m * cols. ?g i) = (\<Sum>r<m. \<Sum>c<cols. f r c)"
    unfolding sum.nat_group [of ?g cols m, symmetric] by (intro sum.cong sum_grid_row) simp_all
  moreover have "(\<Sum>i = m * cols..<n. ?g i) = (\<Sum>c<n - m * cols. f m c)"
    using sum_grid_row [of "n - m * cols" cols f m] le gt by simp
  ultimately show ?thesis by (simp add: rows row_items_def mult.commute)
qed

lemma row_items_pos:
  assumes "0 < cols" "0 < n" "rows = ceil_div n cols" "r < rows"
  shows "0 < row_items n cols rows r" "row_items n cols rows r \<le> cols"
proof -
  have "\<not> n \<le> cols * (rows - 1)" if "r = rows - 1"
    using ceil_div_least [OF assms(1), of n "rows - 1"] assms(3,4) by auto
  moreover have "n \<le> cols * (rows - 1) + cols"
    using ceil_div_le [OF assms(1), of n] assms(3,4) by (cases rows) (auto simp: algebra_simps)
  ultimately show "0 < row_items n cols rows r" "row_items n cols rows r \<le> cols"
    using assms(1) by (auto simp: row_items_def le_diff_conv add.commute)
qed

lemma tileGrid_area:
  assumes "0 < n" "grid_fits n box"
  shows "(\<Sum>z\<leftarrow>tileGrid n box. garea z) = bw box * bh box"
proof -
  define cols where "cols = tile_cols n box"
  define rows where "rows = ceil_div n cols"
  define k where "k = row_items n cols rows"
  have c: "0 < cols" by (simp add: cols_def tile_cols_pos)
  have fits: "real (k r) \<le> bw box" "0 < k r" if "r < rows" for r
    using row_items_pos [OF c assms(1) rows_def that] tile_cols_width(1) [of box n] assms(2)
    unfolding k_def cols_def grid_fits_def by linarith+
  have rows: "0 < rows" "real rows \<le> bh box"
    using ceil_div_pos [OF assms(1) c] grid_rows_le [OF c, of n] assms(2)
    unfolding rows_def grid_fits_def by linarith+
  have "(\<Sum>z\<leftarrow>tileGrid n box. garea z) = (\<Sum>i<n. garea (tile_at n cols rows box i))"
    using assms(1) by (simp add: tileGrid_def Let_def cols_def rows_def o_def interv_sum_list_conv_sum_set_nat atLeast0LessThan)
  also have "\<dots> = (\<Sum>i<n. (\<lambda>r c. slot_size (bw box) (k r) c * slot_size (bh box) rows r) (i div cols) (i mod cols))"
    by (simp add: tile_at_slots Let_def garea_def k_def)
  also have "\<dots> = (\<Sum>r<rows. \<Sum>c<k r. slot_size (bw box) (k r) c * slot_size (bh box) rows r)"
    unfolding k_def by (rule sum_grid [OF c assms(1) rows_def])
  also have "\<dots> = (\<Sum>r<rows. bw box * slot_size (bh box) rows r)"
    by (intro sum.cong refl) (simp add: sum_slot_size fits flip: sum_distrib_right)
  also have "\<dots> = bw box * bh box"
    by (simp add: sum_slot_size rows flip: sum_distrib_left)
  finally show ?thesis .
qed

text \<open>Widths keep the minimum whenever the frame is as wide as one window.\<close>

lemma tileGrid_min_width:
  assumes "MINW \<le> bw box" "z \<in> set (tileGrid n box)"
  shows "MINW \<le> gwidth z"
proof -
  let ?cols = "tile_cols n box" let ?rows = "ceil_div n ?cols"
  from assms(2) obtain i where i: "i < n" and z: "z = tile_at n ?cols ?rows box i"
    by (auto simp: tileGrid_def Let_def split: if_splits)
  let ?k = "row_items n ?cols ?rows (i div ?cols)"
  have k: "i mod ?cols < ?k" "?k \<le> ?cols" using grid_index [OF tile_cols_pos i refl] by blast+
  have w: "1 \<le> bw box" using assms(1) by (simp add: MINW_def)
  have "real ?k * MINW \<le> real ?cols * MINW" using k(2) by (simp add: MINW_def)
  also have "\<dots> \<le> bw box" using tile_cols_width(2) [OF w assms(1)] .
  finally have b: "real ?k * MINW \<le> bw box" .
  then have "MINW \<le> Math_floor (bw box / real ?k)"
    using k(1) by (intro Math_floor_ge_Ints) (auto simp: MINW_def field_simps)
  moreover have "real ?k \<le> bw box" using b by (simp add: MINW_def)
  ultimately show ?thesis
    using slot_bounds(2) [OF k(1), of "bw box"] unfolding z tile_at_slots Let_def by simp
qed

section \<open>The snap layouts\<close>

text \<open>
  In fractions of the frame, the zones of each layout lie inside the unit square and are
  pairwise apart: a finite check of the table.
\<close>

definition frac_ok :: "real \<times> real \<times> real \<times> real \<Rightarrow> bool" where
  "frac_ok = (\<lambda>(z0, z1, z2, z3). 0 \<le> z0 \<and> 0 \<le> z1 \<and> z0 + z2 \<le> 1 \<and> z1 + z3 \<le> 1)"

definition frac_apart :: "real \<times> real \<times> real \<times> real \<Rightarrow> real \<times> real \<times> real \<times> real \<Rightarrow> bool" where
  "frac_apart = (\<lambda>(a0, a1, a2, a3) (b0, b1, b2, b3).
     a0 + a2 \<le> b0 \<or> b0 + b2 \<le> a0 \<or> a1 + a3 \<le> b1 \<or> b1 + b3 \<le> a1)"

lemma LAYOUTS_ok:
  "\<forall>L\<in>set LAYOUTS. (\<forall>z\<in>set (lzones L). frac_ok z) \<and> sorted_wrt frac_apart (lzones L)"
  by (simp add: LAYOUTS_def frac_ok_def frac_apart_def)

lemma fold_last_match: "fold (\<lambda>L acc. if P L then Some L else acc) Ls acc = Some L \<Longrightarrow>
    acc = Some L \<or> L \<in> set Ls \<and> P L"
  by (induction Ls arbitrary: acc) (force split: if_splits)+

lemma find_layout_Some: "find_layout key = Some L \<Longrightarrow> L \<in> set LAYOUTS \<and> lkey L = key"
  unfolding find_layout_def by (drule fold_last_match) simp

lemma find_layout_of_key:
  "\<forall>L\<in>set LAYOUTS. find_layout (lkey L) = Some L"
  by (simp add: LAYOUTS_def find_layout_def)

lemma zones_px_Some:
  "zones_px box zs = Some out \<Longrightarrow>
     out = map (zone_px box) zs \<and> (\<forall>g\<in>set out. MINW \<le> gwidth g \<and> MINH \<le> gheight g)"
  by (induction zs arbitrary: out) (auto simp: Let_def not_less split: if_splits)

lemma zones_px_None:
  "zones_px box zs = None \<longleftrightarrow> (\<exists>z\<in>set zs. gwidth (zone_px box z) < MINW \<or> gheight (zone_px box z) < MINH)"
  by (induction zs) (auto simp: Let_def)

lemma zone_px_spans:
  "gleft (zone_px box (z0, z1, z2, z3)) = Math_round (z0 * bw box)"
  "gright (zone_px box (z0, z1, z2, z3)) = Math_round ((z0 + z2) * bw box)"
  "gtop (zone_px box (z0, z1, z2, z3)) = Math_round (z1 * bh box)"
  "gbottom (zone_px box (z0, z1, z2, z3)) = Math_round ((z1 + z3) * bh box)"
  by (simp_all add: zone_px_def Let_def)

lemma zone_px_integral: "integral (zone_px box z)"
  by (cases z) (simp add: zone_px_def integral_def Let_def)

lemma frac_edge:
  assumes "x \<in> \<int>" "0 \<le> x"
  shows "0 \<le> f \<Longrightarrow> 0 \<le> Math_round (f * x)" "f \<le> 1 \<Longrightarrow> Math_round (f * x) \<le> x"
    "f \<le> f' \<Longrightarrow> Math_round (f * x) \<le> Math_round (f' * x)"
proof -
  show *: "f \<le> f' \<Longrightarrow> Math_round (f * x) \<le> Math_round (f' * x)" for f f'
    using assms(2) by (intro Math_round_mono mult_right_mono)
  show "0 \<le> f \<Longrightarrow> 0 \<le> Math_round (f * x)" "f \<le> 1 \<Longrightarrow> Math_round (f * x) \<le> x"
    using * [of 0 f] * [of f 1] assms(1) by (simp_all add: Math_round_of_Ints)
qed

definition layout_fits :: "string \<Rightarrow> box \<Rightarrow> bool" where
  "layout_fits key box \<longleftrightarrow> 0 \<le> bw box \<and> 0 \<le> bh box"

lemma zone_px_apart:
  assumes "int_box box" "layout_fits key box" "frac_apart y z"
  shows "apart_by 0 (zone_px box y) (zone_px box z)"
proof -
  obtain a0 a1 a2 a3 b0 b1 b2 b3 where yz: "y = (a0, a1, a2, a3)" "z = (b0, b1, b2, b3)"
    by (metis prod_cases4)
  note x = frac_edge(3) [of "bw box"] and v = frac_edge(3) [of "bh box"]
  from assms(3) show ?thesis
    unfolding yz frac_apart_def apart_by_def prod.case
    unfolding zone_px_spans(2,4) unfolding zone_px_spans(1,3)
    using x v assms(1,2) unfolding int_box_def layout_fits_def by auto
qed

lemma zone_px_ok:
  assumes "int_box box" "layout_fits key box" "frac_ok z"
    and "MINW \<le> gwidth (zone_px box z)" "MINH \<le> gheight (zone_px box z)"
  shows "zone_ok box (zone_px box z)"
proof -
  obtain z0 z1 z2 z3 where z: "z = (z0, z1, z2, z3)" by (metis prod_cases4)
  have f: "0 \<le> z0" "0 \<le> z1" "z0 + z2 \<le> 1" "z1 + z3 \<le> 1"
    using assms(3) by (simp_all add: frac_ok_def z)
  have "0 < gwidth (zone_px box z)" "0 < gheight (zone_px box z)"
    using assms(4,5) by (simp_all add: MINW_def MINH_def)
  moreover have "0 \<le> gleft (zone_px box z)" "gright (zone_px box z) \<le> bw box"
    "0 \<le> gtop (zone_px box z)" "gbottom (zone_px box z) \<le> bh box"
    unfolding z zone_px_spans(2,4) unfolding z zone_px_spans(1,3)
    using frac_edge [of "bw box"] frac_edge [of "bh box"] f assms(1,2)
    unfolding int_box_def layout_fits_def by auto
  ultimately show ?thesis by (simp add: zone_ok_def zone_px_integral)
qed

lemma layoutGeoms_tiling:
  assumes "int_box box" "layout_fits key box" "layoutGeoms key box = Some zs"
  shows "tiling box zs"
proof -
  from assms(3) obtain L where L: "find_layout key = Some L" and zs: "zones_px box (lzones L) = Some zs"
    by (auto simp: layoutGeoms_def split: option.splits)
  note ok = bspec [OF LAYOUTS_ok conjunct1 [OF find_layout_Some [OF L]]]
  note px = zones_px_Some [OF zs]
  show ?thesis
  proof (rule tilingI)
    fix z assume "z \<in> set zs"
    then show "zone_ok box z" using px ok zone_px_ok [OF assms(1,2)] by auto
  next
    have "sorted_wrt (\<lambda>y z. apart_by 0 (zone_px box y) (zone_px box z)) (lzones L)"
      by (rule sorted_wrt_mono_rel [OF _ conjunct2 [OF ok]]) (rule zone_px_apart [OF assms(1,2)])
    then show "sorted_wrt (apart_by 0) zs" by (simp add: conjunct1 [OF px] sorted_wrt_map)
  qed
qed

interpretation snap: tiling_source layoutGeoms layout_fits
  by unfold_locales (rule layoutGeoms_tiling)

end
