(* ===== verification/WinZones.thy ===== *)
theory WinZones
  imports WinTiling
begin

text \<open>
  Who is where: \<open>zoneAssign\<close>, \<open>swapZones\<close> and \<open>zoneOccupancy\<close> of \<^verbatim>\<open>shell/winmgr.js\<close>, up to
  the round trip the shell relies on, that a placed layout is recognised as itself.
\<close>

section \<open>Assignment\<close>

lemma fill_holes_replicate:
  "i \<le> length rest \<Longrightarrow>
     fill_holes (replicate i None @ xs) rest = map Some (take i rest) @ fill_holes xs (drop i rest)"
proof (induction i arbitrary: rest)
  case 0
  then show ?case by simp
next
  case (Suc i)
  then obtain r rest' where "rest = r # rest'" by (cases rest) auto
  with Suc show ?case by simp
qed

lemma fill_holes_all:
  "i \<le> length rest \<Longrightarrow> fill_holes (replicate i None) rest = map Some (take i rest)"
  using fill_holes_replicate [of i rest "[]"] by simp

lemma list_update_replicate:
  "i < n \<Longrightarrow> (replicate n x)[i := y] = replicate i x @ y # replicate (n - Suc i) x"
  by (simp add: upd_conv_take_nth_drop)

text \<open>The place the focused window takes: the requested main zone, brought into range.\<close>

definition main_zone :: "nat \<Rightarrow> int option \<Rightarrow> nat" where
  "main_zone n mainZone = nat (max 0 (min (int n - 1) (case mainZone of None \<Rightarrow> 0 | Some k \<Rightarrow> k)))"

lemma main_zone_less: "0 < n \<Longrightarrow> main_zone n mz < n"
  by (auto simp: main_zone_def split: option.splits)

lemma length_filter_neq:
  assumes "distinct xs" "f \<in> set xs"
  shows "length (filter (\<lambda>x. x \<noteq> f) xs) = length xs - 1"
proof -
  have "filter (\<lambda>x. x \<noteq> f) xs = removeAll f xs"
    unfolding removeAll_filter_not_eq by (rule filter_cong) auto
  also have "\<dots> = remove1 f xs" using assms(1) by (simp add: distinct_remove1_removeAll)
  finally show ?thesis using assms(2) by (simp add: length_remove1)
qed

lemma zoneAssign_focused:
  assumes "distinct ids" "f \<in> set ids" "0 < zoneCount"
  defines "n \<equiv> min zoneCount (length ids)" and "rest \<equiv> filter (\<lambda>x. x \<noteq> f) ids"
  shows "zoneAssign ids (Some f) zoneCount mz =
     map Some (take (main_zone n mz) rest @ f # take (n - Suc (main_zone n mz)) (drop (main_zone n mz) rest))"
proof -
  let ?m = "main_zone n mz"
  have "0 < length ids" using assms(2) by (cases ids) auto
  then have n: "0 < n" using assms(3) by (simp add: n_def)
  have m: "?m < n" using n by (rule main_zone_less)
  have "length rest = length ids - 1"
    using length_filter_neq [OF assms(1,2)] by (simp add: rest_def)
  then have len: "n - 1 \<le> length rest" unfolding n_def by simp
  have "zoneAssign ids (Some f) zoneCount mz = fill_holes ((replicate n None)[?m := Some f]) rest"
    using assms(2) m by (simp add: zoneAssign_def Let_def n_def rest_def js_put_def main_zone_def)
  also have "\<dots> = fill_holes (replicate ?m None @ Some f # replicate (n - Suc ?m) None) rest"
    using m by (simp add: list_update_replicate)
  also have "\<dots> = map Some (take ?m rest @ f # take (n - Suc ?m) (drop ?m rest))"
    using m len by (simp add: fill_holes_replicate fill_holes_all)
  finally show ?thesis .
qed

lemma zoneAssign_unfocused:
  assumes "case focusedId of None \<Rightarrow> True | Some f \<Rightarrow> f \<notin> set ids"
  shows "zoneAssign ids focusedId zoneCount mz = map Some (take (min zoneCount (length ids)) ids)"
proof -
  have *: "(case focusedId of None \<Rightarrow> None | Some f \<Rightarrow> if f \<in> set ids then Some f else None) = None"
    using assms by (auto split: option.splits)
  show ?thesis unfolding zoneAssign_def Let_def * by (simp add: fill_holes_all)
qed

section \<open>Swapping\<close>

lemma swapZones_mset: "mset (swapZones xs i j) = mset xs"
  by (auto simp: swapZones_def mset_swap)

lemma list_swap_twice:
  assumes "a < length xs" "b < length xs" "a \<noteq> b" and "ys = xs[a := xs ! b, b := xs ! a]"
  shows "ys[a := ys ! b, b := ys ! a] = xs"
  unfolding assms(4) using assms(1-3) by (intro nth_equalityI) (auto simp: nth_list_update)

lemma swapZones_twice: "swapZones (swapZones xs i j) i j = xs"
proof (cases "i = j \<or> i < 0 \<or> j < 0 \<or> i \<ge> int (length xs) \<or> j \<ge> int (length xs)")
  case False
  then have "nat i < length xs" "nat j < length xs" "nat i \<noteq> nat j" by auto
  from list_swap_twice [OF this refl] show ?thesis
    using False by (simp only: swapZones_def if_False length_list_update)
qed (simp add: swapZones_def)

section \<open>Recognition\<close>

lemma zone_hit_found:
  "zone_hit gs used tol z hit = Some (Some i) \<Longrightarrow>
     hit = Some i \<or> (\<exists>g. (i, g) \<in> set gs \<and> i \<notin> set used \<and> near tol g z)"
  by (induction gs used tol z hit rule: zone_hit.induct) (auto split: if_splits)

lemma zone_hit_one:
  assumes "\<forall>(j, g)\<in>set gs. j \<notin> set used \<longrightarrow> near tol g z \<longrightarrow> j = i"
    and "distinct (map fst gs)" and "hit = None \<or> i \<notin> fst ` set gs"
  shows "zone_hit gs used tol z hit =
     Some (if \<exists>g. (i, g) \<in> set gs \<and> i \<notin> set used \<and> near tol g z then Some i else hit)"
  using assms
proof (induction gs used tol z hit rule: zone_hit.induct)
  case (1 used tol z hit)
  then show ?case by simp
next
  case (2 j g gs used tol z hit)
  show ?case
  proof (cases "j \<notin> set used \<and> near tol g z")
    case True
    then have ji: "j = i" using "2.prems"(1) by auto
    then have h: "hit = None" and n: "i \<notin> fst ` set gs" using "2.prems"(2,3) by auto
    have "zone_hit gs used tol z (Some i) = Some (Some i)"
      using "2.IH"(2) True "2.prems" n by (auto simp: h ji truthy_str_def)
    then show ?thesis using True by (simp add: h ji truthy_str_def) blast
  next
    case False
    have "zone_hit ((j, g) # gs) used tol z hit = zone_hit gs used tol z hit" using False by auto
    moreover have "(\<exists>g'. (i, g') \<in> set ((j, g) # gs) \<and> i \<notin> set used \<and> near tol g' z)
        = (\<exists>g'. (i, g') \<in> set gs \<and> i \<notin> set used \<and> near tol g' z)" using False by auto
    moreover have "zone_hit gs used tol z hit =
        Some (if \<exists>g'. (i, g') \<in> set gs \<and> i \<notin> set used \<and> near tol g' z then Some i else hit)"
    proof -
      have p: "\<forall>(j, g)\<in>set gs. j \<notin> set used \<longrightarrow> near tol g z \<longrightarrow> j = i"
        "distinct (map fst gs)" "hit = None \<or> i \<notin> fst ` set gs" using "2.prems" by auto
      show ?thesis
      proof (cases "j \<in> set used")
        case True
        show ?thesis by (rule "2.IH"(1) [OF True p])
      next
        case not_used: False
        then have "\<not> near tol g z" using False by blast
        with not_used show ?thesis by (rule "2.IH"(3) [OF _ _ p])
      qed
    qed
    ultimately show ?thesis by simp
  qed
qed

lemma occupy_sound:
  "occupy zs gs used tol = Some out \<Longrightarrow>
     length out = length zs \<and> distinct out \<and> set out \<inter> set used = {} \<and>
     list_all2 (\<lambda>i z. \<exists>g. (i, g) \<in> set gs \<and> near tol g z) out zs"
proof (induction zs gs used tol arbitrary: out rule: occupy.induct)
  case (1 gs used tol)
  then show ?case by simp
next
  case (2 z zs gs used tol)
  from "2.prems" obtain i out' where hit: "zone_hit gs used tol z None = Some (Some i)"
    and rest: "occupy zs gs (i # used) tol = Some out'" and out: "out = i # out'"
    by (auto simp: truthy_str_def split: option.splits if_splits)
  from hit have t: "truthy_str (Some i)" using "2.prems" by (auto split: if_splits)
  have "length out' = length zs \<and> distinct out' \<and> set out' \<inter> set (i # used) = {} \<and>
      list_all2 (\<lambda>i z. \<exists>g. (i, g) \<in> set gs \<and> near tol g z) out' zs"
    using "2.IH" [OF hit t] rest by simp
  moreover have "\<exists>g. (i, g) \<in> set gs \<and> i \<notin> set used \<and> near tol g z"
    using zone_hit_found [OF hit] by simp
  ultimately show ?case by (auto simp: out)
qed

text \<open>Zones no window can be near to at once are told apart.\<close>

definition told_apart :: "real \<Rightarrow> geom list \<Rightarrow> bool" where
  "told_apart tol zs \<longleftrightarrow> (\<forall>i<length zs. \<forall>j<length zs. i \<noteq> j \<longrightarrow> \<not> near tol (zs ! i) (zs ! j))"

lemma occupy_placed:
  assumes gs: "set gs = set (zip ids zs)" "distinct (map fst gs)"
    and ids: "length ids = length zs" "distinct ids" "[] \<notin> set ids"
    and zs: "told_apart tol zs" "0 \<le> tol"
    and k: "k \<le> length zs" "set used = set (take k ids)"
  shows "occupy (drop k zs) gs used tol = Some (drop k ids)"
  using k
proof (induction "length zs - k" arbitrary: k used)
  case 0
  then show ?case using ids by simp
next
  case (Suc d)
  then have k: "k < length zs" by simp
  let ?i = "ids ! k" and ?z = "zs ! k"
  have kl: "k < length ids" using k ids(1) by simp
  have i1: "?i \<noteq> []" using ids(3) nth_mem [OF kl] by metis
  have i2: "(?i, ?z) \<in> set gs"
    unfolding gs(1) using k kl by (auto simp: in_set_zip)
  have i3: "?i \<notin> set used"
    using ids(2) kl Suc.prems(2) by (auto simp: in_set_conv_nth nth_eq_iff_index_eq)
  have near: "near tol ?z ?z" using zs(2) by (simp add: near_def)
  have only: "j = ?i" if "(j, g) \<in> set gs" "near tol g ?z" for j g
  proof -
    from that(1) gs(1) obtain m where m: "m < length zs" "j = ids ! m" "g = zs ! m"
      using ids(1) by (auto simp: in_set_zip)
    then have "m = k"
      using that(2) k zs(1) [unfolded told_apart_def, rule_format, of m k] by blast
    with m show ?thesis by simp
  qed
  have all: "\<forall>(j, g)\<in>set gs. j \<notin> set used \<longrightarrow> near tol g ?z \<longrightarrow> j = ?i"
    using only by blast
  have ex: "\<exists>g. (?i, g) \<in> set gs \<and> ?i \<notin> set used \<and> near tol g ?z"
    using i2 i3 near by blast
  have "zone_hit gs used tol ?z None = Some (Some ?i)"
    unfolding zone_hit_one [OF all gs(2) disjI1 [OF refl]] using ex by (simp only: if_True)
  moreover have "drop k zs = ?z # drop (Suc k) zs" "drop k ids = ?i # drop (Suc k) ids"
    using k kl by (simp_all add: Cons_nth_drop_Suc)
  moreover have "occupy (drop (Suc k) zs) gs (?i # used) tol = Some (drop (Suc k) ids)"
  proof (rule Suc.hyps(1))
    show "d = length zs - Suc k" "Suc k \<le> length zs" using Suc.hyps(2) k by simp_all
    show "set (?i # used) = set (take (Suc k) ids)"
      using Suc.prems(2) kl by (simp add: take_Suc_conv_app_nth)
  qed
  ultimately show ?case using i1 by (simp add: truthy_str_def)
qed

lemma zoneOccupancy_placed:
  assumes "set gs = set (zip ids zs)" "distinct (map fst gs)"
    and "length ids = length zs" "distinct ids" "[] \<notin> set ids"
    and "told_apart (js_or tol 4) zs" "0 \<le> js_or tol 4"
  shows "zoneOccupancy zs gs tol = Some ids"
proof -
  have "length gs = length (zip ids zs)"
    using assms(1-4) by (metis distinct_card distinct_map distinct_zipI1)
  then show ?thesis
    using occupy_placed [OF assms, of 0 "[]"] assms(3) by (simp add: zoneOccupancy_def)
qed

lemma apart_told_apart:
  assumes "\<forall>z\<in>set zs. 0 \<le> gwidth z \<and> 0 \<le> gheight z" "sorted_wrt (apart_by d) zs" "tol < d"
  shows "told_apart tol zs"
proof -
  have n: "\<not> near tol a b \<and> \<not> near tol b a"
    if "apart_by d a b" "a \<in> set zs" "b \<in> set zs" for a b
    using that assms(1,3) unfolding apart_by_def near_def by fastforce
  show ?thesis
    unfolding told_apart_def using n assms(2) unfolding sorted_wrt_iff_nth_less
    by (metis nat_neq_iff nth_mem)
qed

end
