(* ===== verification/WinProps.thy ===== *)
theory WinProps
  imports WinZones
begin

text \<open>
  What the window geometry guarantees, stated over the definitions of \<open>WinMgr\<close> alone, with a
  witness for each statement that has a hypothesis, and the two places where the code does
  less than its comments say.
\<close>

section \<open>Clamping and resizing\<close>

lemma js_or_again: "d \<noteq> 0 \<Longrightarrow> js_or (Some (js_or a d)) d' = js_or a d"
  by (simp add: js_or_def split: option.splits)

lemma clamp_again:
  fixes lo x hi :: real
  shows "max lo (min (max lo (min x hi)) hi) = max lo (min x hi)"
  by (auto simp: max_def min_def)

lemma clampGeom_again:
  assumes "integral (clampGeom g box a b c)"
  shows "clampGeom (clampGeom g box a b c) box a b c = clampGeom g box a b c"
proof -
  let ?r = "clampGeom g box a b c"
  note i = assms [THEN integralD(1)] assms [THEN integralD(2)] assms [THEN integralD(3)] assms [THEN integralD(4)]
  have w: "gwidth (clampGeom ?r box a b c) = gwidth ?r"
    unfolding clampGeom_fields(1) [of ?r] Math_round_of_Ints [OF i(3)] unfolding clampGeom_fields(1) by (rule clamp_again)
  have h: "gheight (clampGeom ?r box a b c) = gheight ?r"
    unfolding clampGeom_fields(2) [of ?r] Math_round_of_Ints [OF i(4)] unfolding clampGeom_fields(2) by (rule clamp_again)
  have l: "gleft (clampGeom ?r box a b c) = gleft ?r"
    unfolding clampGeom_fields(3) [of ?r] w Math_round_of_Ints [OF i(1)] unfolding clampGeom_fields(3) by (rule clamp_again)
  have t: "gtop (clampGeom ?r box a b c) = gtop ?r"
    unfolding clampGeom_fields(4) [of ?r] h Math_round_of_Ints [OF i(2)] unfolding clampGeom_fields(4) by (rule clamp_again)
  show ?thesis using w h l t by simp
qed

text \<open>C4. What \<open>clampGeom\<close> gives, for the minimum sizes and the margin as they default. The result is never
  smaller than the minimum and never left of or above the margin. In a frame that can hold the
  minimum size with its margins it is inside the frame. A window of whole pixels that is already inside is
  not changed. And in a frame of whole pixels, with whole minimum sizes and margin, the result is whole pixels
  and clamping it again changes nothing.\<close>

theorem clampGeom_contract:
  "let r = clampGeom g box minw minh m; a = js_or minw MINW; b = js_or minh MINH; c = js_or m 0 in
     a \<le> gwidth r \<and> b \<le> gheight r \<and> c \<le> gleft r \<and> c \<le> gtop r \<and>
     (a + 2 * c \<le> bw box \<and> b + 2 * c \<le> bh box \<longrightarrow> gright r \<le> bw box - c \<and> gbottom r \<le> bh box - c) \<and>
     (in_frame box a b c g \<and> integral g \<longrightarrow> r = g) \<and>
     (bw box \<in> \<int> \<and> bh box \<in> \<int> \<and> a \<in> \<int> \<and> b \<in> \<int> \<and> c \<in> \<int> \<longrightarrow>
        integral r \<and> clampGeom r box minw minh m = r)"
proof -
  have "js_or minw MINW \<le> gwidth (clampGeom g box minw minh m) \<and> js_or minh MINH \<le> gheight (clampGeom g box minw minh m) \<and>
      js_or m 0 \<le> gleft (clampGeom g box minw minh m) \<and> js_or m 0 \<le> gtop (clampGeom g box minw minh m)"
    unfolding clampGeom_fields by (intro conjI max.cobounded1)
  moreover have "gright (clampGeom g box minw minh m) \<le> bw box - js_or m 0 \<and> gbottom (clampGeom g box minw minh m) \<le> bh box - js_or m 0"
    if "js_or minw MINW + 2 * js_or m 0 \<le> bw box \<and> js_or minh MINH + 2 * js_or m 0 \<le> bh box"
    using clampGeom_in_frame [of minw m box minh g] that unfolding in_frame_def by blast
  ultimately show ?thesis
    using clampGeom_id [of box minw minh m g] clampGeom_integral [of box minw minh m g] clampGeom_again [of g box minw minh m]
    unfolding Let_def by blast
qed

theorem clampGeom_contract_witness:
  "let r = clampGeom (mk_geom 900 (- 50) 400 2000) (mk_box 1000 800) None None (Some 10) in
     in_frame (mk_box 1000 800) 320 200 10 r \<and> integral r \<and> clampGeom r (mk_box 1000 800) None None (Some 10) = r"
  using clampGeom_contract [of "mk_geom 900 (- 50) 400 2000" "mk_box 1000 800" None None "Some 10"]
  by (simp add: MINW_def MINH_def Let_def in_frame_def)

text \<open>C11. Which edges a drag moves, one axis at a time. The span a drag asks for is \<open>drag_span\<close>: the west (north)
  edge follows the pointer but stops where the window would be smaller than the minimum, and the opposite edge stays;
  or else the east (south) edge follows the pointer if it is dragged, and stays otherwise, but is never nearer to the other
  edge than the minimum, and the other edge stays. When that span is of whole pixels and within the margins of the frame, the
  result spans exactly it, whatever happens on the other axis. When it is not, the result is clamped, which can
  move the opposite edge (\<open>resizeGeom_past_frame\<close>), but it is still inside a frame that can hold the minimum size, and never smaller than it.\<close>

theorem resizeGeom_edges:
  assumes "drag_span (CHR ''w'' \<in> set dir) (CHR ''e'' \<in> set dir) (gleft g) (gright g) dx (js_or minw MINW) = (l, r)"
    and "drag_span (CHR ''n'' \<in> set dir) (CHR ''s'' \<in> set dir) (gtop g) (gbottom g) dy (js_or minh MINH) = (t, b)"
  shows "let R = resizeGeom g dir dx dy box minw minh m; c = js_or m 0 in
    (l \<in> \<int> \<and> r \<in> \<int> \<and> c \<le> l \<and> r \<le> bw box - c \<longrightarrow> gleft R = l \<and> gright R = r) \<and>
    (t \<in> \<int> \<and> b \<in> \<int> \<and> c \<le> t \<and> b \<le> bh box - c \<longrightarrow> gtop R = t \<and> gbottom R = b) \<and>
    (js_or minw MINW + 2 * c \<le> bw box \<and> js_or minh MINH + 2 * c \<le> bh box \<longrightarrow> in_frame box (js_or minw MINW) (js_or minh MINH) c R) \<and>
    js_or minw MINW \<le> gwidth R \<and> js_or minh MINH \<le> gheight R"
proof -
  define R where "R = clampGeom (mk_geom l t (r - l) (b - t)) box (Some (js_or minw MINW)) (Some (js_or minh MINH)) m"
  have R: "resizeGeom g dir dx dy box minw minh m = R" unfolding R_def by (rule resizeGeom_eq_drag [OF assms])
  have o: "js_or (Some (js_or minw MINW)) MINW = js_or minw MINW" "js_or (Some (js_or minh MINH)) MINH = js_or minh MINH"
    by (simp_all add: js_or_again MINW_def MINH_def)
  note f = clampGeom_fields [of "mk_geom l t (r - l) (b - t)" box "Some (js_or minw MINW)" "Some (js_or minh MINH)" m, folded R_def, unfolded o]
  have span: "js_or minw MINW \<le> r - l" "js_or minh MINH \<le> b - t"
    using assms by (auto simp: drag_span_def split: if_splits)
  have x: "gleft R = l \<and> gright R = r" if "l \<in> \<int>" "r \<in> \<int>" "js_or m 0 \<le> l" "r \<le> bw box - js_or m 0"
  proof -
    have "gwidth R = r - l" unfolding f(1) using that span by (simp add: Math_round_of_Ints)
    then show ?thesis using f(3) that by (simp add: Math_round_of_Ints)
  qed
  have y: "gtop R = t \<and> gbottom R = b" if "t \<in> \<int>" "b \<in> \<int>" "js_or m 0 \<le> t" "b \<le> bh box - js_or m 0"
  proof -
    have "gheight R = b - t" unfolding f(2) using that span by (simp add: Math_round_of_Ints)
    then show ?thesis using f(4) that by (simp add: Math_round_of_Ints)
  qed
  have z: "in_frame box (js_or minw MINW) (js_or minh MINH) (js_or m 0) R"
    if "js_or minw MINW + 2 * js_or m 0 \<le> bw box" "js_or minh MINH + 2 * js_or m 0 \<le> bh box"
    using clampGeom_in_frame [of "Some (js_or minw MINW)" m box "Some (js_or minh MINH)" "mk_geom l t (r - l) (b - t)"] that
    unfolding o R_def by blast
  have "js_or minw MINW \<le> gwidth R \<and> js_or minh MINH \<le> gheight R" unfolding f by (intro conjI max.cobounded1)
  then show ?thesis unfolding R Let_def using x y z by blast
qed

theorem resizeGeom_edges_witness:
  "resizeGeom (mk_geom 100 100 400 300) ''nw'' 200 (- 50) (mk_box 1000 800) None None (Some 10)
     = mk_geom 180 50 320 350"
proof -
  let ?R = "resizeGeom (mk_geom 100 100 400 300) ''nw'' 200 (- 50) (mk_box 1000 800) None None (Some 10)"
  have "gleft ?R = 180 \<and> gright ?R = 500 \<and> gtop ?R = 50 \<and> gbottom ?R = 400"
    using resizeGeom_edges [of "''nw''" "mk_geom 100 100 400 300" 200 None 180 500 "- 50" None 50 400
        "mk_box 1000 800" "Some 10"]
    by (simp add: drag_span_def MINW_def MINH_def Let_def)
  then show ?thesis by (cases ?R) simp
qed

text \<open>
  Past the frame it is different: the comment on \<open>resizeGeom\<close> says that the opposite edge stays
  put, but the clamp shifts the whole window, so dragging the right edge far out also moves the
  left edge from 100 to 10.
\<close>

lemma resizeGeom_past_frame:
  "resizeGeom (mk_geom 100 100 400 300) ''e'' 1000 0 (mk_box 1000 800) None None (Some 10)
     = mk_geom 10 100 980 300"
  by (simp add: resizeGeom_def clampGeom_def MINW_def MINH_def Let_def Math_round_def)

section \<open>Tilings\<close>

text \<open>In an integer frame at least one pixel wide and \<open>n\<close> pixels high, \<open>tileGrid\<close> returns
  \<open>n\<close> tiles with integer edges, inside the frame and pairwise disjoint, whose areas add up to
  the frame's: an exact tiling. Each is as wide as the minimum when the frame is.\<close>

lemma tileGrid_exact:
  assumes "int_box box" "0 < n" "1 \<le> bw box" "real n \<le> bh box"
  shows "length (tileGrid n box) = n \<and> tiling box (tileGrid n box) \<and>
    (\<Sum>z\<leftarrow>tileGrid n box. garea z) = bw box * bh box \<and>
    (MINW \<le> bw box \<longrightarrow> (\<forall>z\<in>set (tileGrid n box). MINW \<le> gwidth z))"
proof -
  have fits: "grid_fits n box" using assms(3,4) by (simp add: grid_fits_def)
  have "length (tileGrid n box) = n" using assms(2) by (simp add: tileGrid_def Let_def)
  with tileGrid_tiling [OF assms(1) fits] tileGrid_area [OF assms(2) fits] tileGrid_min_width
  show ?thesis by blast
qed

theorem tileGrid_exact_witness:
  "tiling (mk_box 1400 900) (tileGrid 5 (mk_box 1400 900))"
  using tileGrid_exact [of "mk_box 1400 900" 5] by (simp add: int_box_def)

text \<open>
  The height has no such guarantee. The comment on \<open>tileGrid\<close> says it never asks for more
  columns or rows than the frame holds at the minimum size, but only the columns are bounded: a
  frame of 1600 by 400 has capacity 10, and nine windows in it come out 133 pixels high, below
  the minimum of 200 (the caller then raises each to 200, and they overlap).
\<close>

lemma tileGrid_below_min_height:
  "9 \<le> tileCapacity (mk_box 1600 400) \<and>
   gheight (hd (tileGrid 9 (mk_box 1600 400))) = 133 \<and> 133 < MINH"
proof -
  have c: "ceil_sqrt 9 = 3"
    by (simp add: ceil_sqrt_def ceil_sqrt_from.simps [of 0] ceil_sqrt_from.simps [of "Suc 0"]
        ceil_sqrt_from.simps [of "Suc (Suc 0)"] ceil_sqrt_from.simps [of "Suc (Suc (Suc 0))"])
  have t: "tile_cols 9 (mk_box 1600 400) = 3"
    by (simp add: tile_cols_def c fit_cols_def MINW_def Let_def)
  have "gheight (hd (tileGrid 9 (mk_box 1600 400))) = 133"
    by (simp add: tileGrid_def t ceil_div_def tile_at_def Math_floor_def Let_def upt_rec)
  then show ?thesis by (simp add: tileCapacity_def fit_cols_def MINW_def MINH_def)
qed

text \<open>Gapping keeps neighbours at least the gap apart, for the even grid and for every snap
  layout alike.\<close>

lemma gapZones_seam:
  assumes "int_box box" "0 \<le> bw box" "0 \<le> bh box" "margin \<in> \<int>"
  shows "(1 \<le> bw box \<and> real n \<le> bh box \<longrightarrow>
      sorted_wrt (apart_by (real gap)) (gapZones (tileGrid n box) box (Some margin) (Some (real gap)))) \<and>
    (\<forall>zs. layoutGeoms key box = Some zs \<longrightarrow>
      sorted_wrt (apart_by (real gap)) (gapZones zs box (Some margin) (Some (real gap))))"
  using grid.gapped_apart [OF assms(1) _ refl assms(4), of n gap]
    snap.gapped_apart [OF assms(1) _ _ assms(4), of key _ gap] assms(2,3)
  by (simp add: grid_fits_def layout_fits_def)

theorem gapZones_seam_witness:
  "sorted_wrt (apart_by 5) (gapZones (tileGrid 5 (mk_box 1400 900)) (mk_box 1400 900) (Some 10) (Some 5))"
  using gapZones_seam [of "mk_box 1400 900" 10 5 5 "[]"] by (simp add: int_box_def)

text \<open>
  At the frame the margin can be a pixel short: with the shell's margin 10 and gap 5, the right
  half of a 1400 pixel frame ends at 1391, nine pixels from the edge, not ten.
\<close>

lemma gapZones_margin_short:
  "map gright (gapZones [mk_geom 0 0 700 900, mk_geom 700 0 700 900] (mk_box 1400 900) (Some 10) (Some 5))
     = [698, 1391]"
  by (simp add: gapZones_def gapZone_def Math_round_def round_def Let_def)

section \<open>Assigning and recognising\<close>

text \<open>\<open>zoneAssign\<close> fills the zones without holes or repetitions: the focused window takes
  the main zone (brought into range), the others keep their taskbar order, and when there are as
  many zones as windows every window has one.\<close>

lemma zoneAssign_spec:
  assumes "distinct ids" "f \<in> set ids" "0 < zoneCount"
  defines "n \<equiv> min zoneCount (length ids)" and "rest \<equiv> filter (\<lambda>x. x \<noteq> f) ids"
  shows "\<exists>out. zoneAssign ids (Some f) zoneCount mz = map Some out \<and>
    length out = n \<and> distinct out \<and> set out \<subseteq> set ids \<and>
    out ! main_zone n mz = f \<and> filter (\<lambda>x. x \<noteq> f) out = take (n - 1) rest \<and>
    (zoneCount = length ids \<longrightarrow> mset out = mset ids)"
proof -
  let ?m = "main_zone n mz"
  let ?out = "take ?m rest @ f # take (n - Suc ?m) (drop ?m rest)"
  have "0 < length ids" using assms(2) by (cases ids) auto
  then have n: "0 < n" using assms(3) by (simp add: n_def)
  note m = main_zone_less [OF n, of mz]
  have lr: "length rest = length ids - 1" unfolding rest_def by (rule length_filter_neq [OF assms(1,2)])
  then have le: "n - 1 \<le> length rest" by (simp add: n_def)
  have cut: "take ?m rest @ take (n - Suc ?m) (drop ?m rest) = take (n - 1) rest"
    using m take_add [of ?m "n - Suc ?m" rest] by (simp add: Suc_diff_Suc)
  have mset: "mset ?out = add_mset f (mset (take (n - 1) rest))"
    unfolding cut [symmetric] by simp
  have f: "f \<notin> set rest" "set rest \<subseteq> set ids" "distinct rest"
    using assms(1) by (auto simp: rest_def)
  then have "f \<notin> set (take (n - 1) rest)" by (meson in_set_takeD)
  then have "distinct ?out" using mset f(3) by (metis distinct.simps(2) distinct_take mset.simps(2) mset_eq_imp_distinct_iff)
  moreover have "length ?out = n" using arg_cong [OF mset, of size] le n by simp
  moreover have "set ?out \<subseteq> set ids" using f(2) assms(2) by (auto dest: in_set_takeD in_set_dropD)
  moreover have "?out ! ?m = f" using m le by (simp add: nth_append min_def)
  moreover have "filter (\<lambda>x. x \<noteq> f) ?out = take (n - 1) rest"
  proof -
    have "filter (\<lambda>x. x \<noteq> f) ?out = filter (\<lambda>x. x \<noteq> f) (take (n - 1) rest)"
      unfolding cut [symmetric] by simp
    then show ?thesis using f(1) by (auto simp: filter_id_conv dest: in_set_takeD)
  qed
  moreover have "mset ?out = mset ids" if "zoneCount = length ids"
  proof -
    have "take (n - 1) rest = rest" using that lr by (simp add: n_def)
    then have *: "mset ?out = add_mset f (mset rest)" using mset by (simp only:)
    have "rest = remove1 f ids"
      unfolding rest_def using assms(1) by (simp add: distinct_remove1_removeAll removeAll_filter_not_eq eq_commute)
    then have "mset rest = mset ids - {#f#}" by simp
    then show ?thesis unfolding * using assms(2) by simp
  qed
  ultimately show ?thesis
    using zoneAssign_focused [OF assms(1-3), of mz, folded n_def rest_def] by blast
qed

theorem zoneAssign_spec_witness:
  "\<exists>out. zoneAssign [''files'', ''notes'', ''term''] (Some ''notes'') 3 (Some 2) = map Some out \<and>
     mset out = mset [''files'', ''notes'', ''term'']"
  using zoneAssign_spec [of "[''files'', ''notes'', ''term'']" "''notes''" 3 "Some 2"] by auto

text \<open>Whatever \<open>zoneOccupancy\<close> answers is a bijection: as many windows as zones, each
  window once, and each within the tolerance of the zone it is said to occupy.\<close>

lemma zoneOccupancy_bijection:
  assumes "zoneOccupancy zones geoms tol = Some out"
  shows "length out = length zones \<and> length geoms = length zones \<and> distinct out \<and>
    list_all2 (\<lambda>i z. \<exists>g. (i, g) \<in> set geoms \<and> near (js_or tol 4) g z) out zones \<and>
    (distinct (map fst geoms) \<longrightarrow> set out = fst ` set geoms)"
proof -
  have len: "length geoms = length zones" and occ: "occupy zones geoms [] (js_or tol 4) = Some out"
    using assms by (auto simp: zoneOccupancy_def split: if_splits)
  note s = occupy_sound [OF occ]
  have sub: "set out \<subseteq> fst ` set geoms"
    using s by (force simp: list_all2_conv_all_nth in_set_conv_nth)
  have "set out = fst ` set geoms" if "distinct (map fst geoms)"
  proof (rule card_subset_eq [OF _ sub])
    show "card (set out) = card (fst ` set geoms)"
      using s len that by (metis distinct_card length_map set_map)
  qed simp
  with s len show ?thesis by blast
qed

theorem zoneOccupancy_bijection_witness:
  "distinct [''b'', ''a''] \<and>
   zoneOccupancy [mk_geom 0 0 700 900, mk_geom 700 0 700 900]
     [(''a'', mk_geom 702 1 698 900), (''b'', mk_geom 0 0 700 900)] None = Some [''b'', ''a'']"
proof -
  have *: "zoneOccupancy [mk_geom 0 0 700 900, mk_geom 700 0 700 900]
     [(''a'', mk_geom 702 1 698 900), (''b'', mk_geom 0 0 700 900)] None = Some [''b'', ''a'']"
    by (simp add: zoneOccupancy_def near_def truthy_str_def)
  then show ?thesis using zoneOccupancy_bijection [OF *] by blast
qed

lemma zone_px_min_sizes:
  assumes "layoutGeoms key box = Some zs" "z \<in> set zs"
  shows "MINW \<le> gwidth z" "MINH \<le> gheight z"
  using assms zones_px_Some by (auto simp: layoutGeoms_def split: option.splits)

lemma gapZone_nonneg:
  assumes "int_box box" "zone_ok box z" "MINW \<le> gwidth z" "MINH \<le> gheight z"
  shows "0 \<le> gwidth (gapZone box 10 (real 5 / 2) z) \<and> 0 \<le> gheight (gapZone box 10 (real 5 / 2) z)"
proof -
  have i: "integral z" using assms(2) by (simp add: zone_ok_def)
  have axis: "gap_lo 10 5 lo \<le> gap_hi extent 10 5 lo hi" if "lo + 200 \<le> hi" "0 \<le> lo" "hi \<le> extent" for lo hi extent
    using that by (auto simp: gap_lo_def gap_hi_def)
  have ten: "(10 :: real) \<in> \<int>" by simp
  note sp = gapZone_spans [OF i assms(1) ten, of 5]
  have "gleft (gapZone box 10 (real 5 / 2) z) \<le> gright (gapZone box 10 (real 5 / 2) z)"
    unfolding sp(2) unfolding sp(1) using assms(2-4) by (intro axis) (simp_all add: zone_ok_def MINW_def)
  moreover have "gtop (gapZone box 10 (real 5 / 2) z) \<le> gbottom (gapZone box 10 (real 5 / 2) z)"
    unfolding sp(4) unfolding sp(3) using assms(2-4) by (intro axis) (simp_all add: zone_ok_def MINH_def)
  ultimately show ?thesis by simp
qed

text \<open>A placed layout reads back as itself: when the zones of a snap layout are gapped as
  the shell gaps them and the windows are put on them, recognition returns exactly the
  assignment they were placed with, whatever order the windows are listed in.\<close>

lemma layout_reads_back:
  assumes "int_box box" "0 \<le> bw box" "0 \<le> bh box" "layoutGeoms key box = Some zs"
    and "zones = gapZones zs box (Some MARGIN) (Some (MARGIN / 2))"
    and "length ids = length zones" "distinct ids" "[] \<notin> set ids"
    and "set geoms = set (zip ids zones)" "distinct (map fst geoms)"
  shows "zoneOccupancy zones geoms None = Some ids"
proof -
  have fits: "layout_fits key box" using assms(2,3) by (simp add: layout_fits_def)
  have zones: "zones = gapZones zs box (Some 10) (Some (real 5))"
    using assms(5) by (simp add: MARGIN_def)
  have z': "zones = map (gapZone box 10 (real 5 / 2)) zs"
    unfolding zones gapZones_def by (simp add: js_or_def)
  have ok: "\<forall>z\<in>set zs. zone_ok box z"
    using layoutGeoms_tiling [OF assms(1) fits assms(4)] by (simp add: tiling_def)
  have "\<forall>z\<in>set zones. 0 \<le> gwidth z \<and> 0 \<le> gheight z"
    unfolding z' using ok gapZone_nonneg [OF assms(1)] zone_px_min_sizes [OF assms(4)] by auto
  moreover have "sorted_wrt (apart_by (real 5)) zones"
    unfolding zones by (rule snap.gapped_apart [OF assms(1) fits assms(4)]) simp
  ultimately have "told_apart 4 zones" by (rule apart_told_apart) simp
  then show ?thesis
    by (intro zoneOccupancy_placed [OF assms(9,10,6-8)]) simp_all
qed

theorem layout_reads_back_witness:
  "zoneOccupancy
     (gapZones [mk_geom 0 0 700 900, mk_geom 700 0 700 900] (mk_box 1400 900) (Some MARGIN) (Some (MARGIN / 2)))
     [(''b'', gapZone (mk_box 1400 900) 10 (5 / 2) (mk_geom 700 0 700 900)),
      (''a'', gapZone (mk_box 1400 900) 10 (5 / 2) (mk_geom 0 0 700 900))] None = Some [''a'', ''b'']"
proof -
  have "layoutGeoms ''halves'' (mk_box 1400 900) = Some [mk_geom 0 0 700 900, mk_geom 700 0 700 900]"
    by (simp add: layoutGeoms_def find_layout_def LAYOUTS_def zone_px_def Math_round_def MINW_def MINH_def Let_def)
  from layout_reads_back [OF _ _ _ this refl, of "[''a'', ''b'']"
      "[(''b'', gapZone (mk_box 1400 900) 10 (5 / 2) (mk_geom 700 0 700 900)),
        (''a'', gapZone (mk_box 1400 900) 10 (5 / 2) (mk_geom 0 0 700 900))]"]
  show ?thesis by (auto simp: int_box_def gapZones_def MARGIN_def js_or_def)
qed

text \<open>Swapping two zones' occupants is a permutation and its own inverse, for every pair of
  indices, in range or not.\<close>

theorem swapZones_involution:
  "mset (swapZones assign i j) = mset assign \<and> swapZones (swapZones assign i j) i j = assign"
  by (simp add: swapZones_mset swapZones_twice)

end
