(* ===== verification/Desk.thy ===== *)
theory Desk
  imports VtPrelude
begin

text \<open>
  \<^verbatim>\<open>shell/deskstate.js\<close>: what the desktop does with a heartbeat reply, and
  \<^verbatim>\<open>shell/desktop.html\<close>'s switch that applies the reset decision. A missing or non-numeric
  field is \<open>None\<close>; \<open>close_targets\<close> is its list of own properties, in which a value that is
  not an array is \<open>None\<close>.
\<close>

section \<open>The decisions\<close>

record desk_view =
  dv_open :: "string list option"
  dv_running :: "string list option"
  dv_xWinCount :: "real option"
  dv_terminalCount :: "real option"

definition or_empty :: "'a list option \<Rightarrow> 'a list" where
  "or_empty x = (case x of None \<Rightarrow> [] | Some xs \<Rightarrow> xs)"

lemma or_empty_simps [simp]: "or_empty None = []" "or_empty (Some xs) = xs"
  by (simp_all add: or_empty_def)

definition isRunning :: "string \<Rightarrow> desk_view \<Rightarrow> bool" where
  "isRunning i s =
     (if i = ''x11launcher'' then js_or (dv_xWinCount s) 0 > 0
      else if i \<in> set (or_empty (dv_open s)) then True
      else if i \<in> set (or_empty (dv_running s)) then True
      else if i = ''terminal'' then js_or (dv_terminalCount s) 0 > 0
      else False)"

datatype reset_decision = ResetNone | ResetBaseline | ResetClear

definition resetDecision :: "real option \<Rightarrow> real option \<Rightarrow> reset_decision" where
  "resetDecision lastEpoch epoch =
     (case epoch of None \<Rightarrow> ResetNone
      | Some e \<Rightarrow> (case lastEpoch of None \<Rightarrow> ResetBaseline
                  | Some l \<Rightarrow> if e > l then ResetClear else ResetNone))"

definition closeTargetsFor ::
  "(string \<times> string list option) list option \<Rightarrow> string \<Rightarrow> string list option \<Rightarrow> string list" where
  "closeTargetsFor closeTargets instanceId opn =
     map fst (filter (\<lambda>(app, ids). (case ids of None \<Rightarrow> False | Some l \<Rightarrow> instanceId \<in> set l) \<and>
                                   app \<in> set (or_empty opn)) (or_empty closeTargets))"

text \<open>
  \<open>now.toString(36)\<close> of a whole number of milliseconds; the fractional digits of the random
  number, an implementation's choice in JavaScript, are a parameter.
\<close>

definition digit36 :: "nat \<Rightarrow> char" where
  "digit36 d = (if d < 10 then char_of (48 + d) else char_of (87 + d))"

fun toString36 :: "nat \<Rightarrow> string" where
  "toString36 n = (if n < 36 then [digit36 n] else toString36 (n div 36) @ [digit36 (n mod 36)])"

declare toString36.simps [simp del]

definition mintInstanceId :: "nat \<Rightarrow> string \<Rightarrow> string" where
  "mintInstanceId now rand36 = ''i-'' @ toString36 now @ ''-'' @ take 6 (drop 2 rand36)"

section \<open>The heartbeat as a machine\<close>

text \<open>
  The part of \<open>onDesktopResp\<close> these decisions drive: \<open>clearAllLocal\<close> empties the open set
  (and is counted), \<open>closeApp\<close> removes one app.
\<close>

record client =
  cl_id :: string
  cl_epoch :: "real option"
  cl_open :: "string list"
  cl_clears :: nat

record reply =
  rp_epoch :: "real option"
  rp_targets :: "(string \<times> string list option) list option"

definition onDesktopResp :: "client \<Rightarrow> reply \<Rightarrow> client" where
  "onDesktopResp c d =
     (let c1 = (case resetDecision (cl_epoch c) (rp_epoch d) of
                  ResetBaseline \<Rightarrow> c\<lparr>cl_epoch := rp_epoch d\<rparr>
                | ResetClear \<Rightarrow> c\<lparr>cl_epoch := rp_epoch d, cl_open := [], cl_clears := Suc (cl_clears c)\<rparr>
                | ResetNone \<Rightarrow> c);
          gone = closeTargetsFor (rp_targets d) (cl_id c1) (Some (cl_open c1))
      in c1\<lparr>cl_open := filter (\<lambda>a. a \<notin> set gone) (cl_open c1)\<rparr>)"

section \<open>Properties\<close>

lemma named_iff:
  "(case ids of None \<Rightarrow> False | Some l \<Rightarrow> me \<in> set l) \<longleftrightarrow> (\<exists>l. ids = Some l \<and> me \<in> set l)"
  by (cases ids) simp_all

lemma closeTargetsFor_iff:
  "app \<in> set (closeTargetsFor ct me opn) \<longleftrightarrow>
     (\<exists>l. (app, Some l) \<in> set (or_empty ct) \<and> me \<in> set l) \<and> app \<in> set (or_empty opn)"
  unfolding closeTargetsFor_def named_iff by force

lemma onDesktopResp_id: "cl_id (onDesktopResp c d) = cl_id c"
  by (simp add: onDesktopResp_def Let_def split: reset_decision.splits)

lemma onDesktopResp_epoch:
  "cl_epoch (onDesktopResp c d) =
     (case rp_epoch d of None \<Rightarrow> cl_epoch c
      | Some e \<Rightarrow> (case cl_epoch c of None \<Rightarrow> Some e | Some l \<Rightarrow> Some (max l e)))"
  by (auto simp: onDesktopResp_def resetDecision_def Let_def max_def split: option.splits)

lemma onDesktopResp_open:
  "set (cl_open (onDesktopResp c d)) \<subseteq> set (cl_open c)"
  by (auto simp: onDesktopResp_def Let_def split: reset_decision.splits)

text \<open>The epochs of a run of replies, as the client sees them: those that carry a number.\<close>

definition epochs :: "reply list \<Rightarrow> real list" where
  "epochs ds = List.map_filter rp_epoch ds"

lemma epochs_simps [simp]:
  "epochs [] = []"
  "epochs (d # ds) = (case rp_epoch d of None \<Rightarrow> epochs ds | Some e \<Rightarrow> e # epochs ds)"
  by (simp_all add: epochs_def List.map_filter_simps split: option.split)

text \<open>The number of new maxima in a list of epochs.\<close>

fun advances :: "real \<Rightarrow> real list \<Rightarrow> nat" where
  "advances l [] = 0"
| "advances l (e # es) = (if e > l then Suc (advances e es) else advances l es)"

lemma run_clears:
  "cl_epoch c = Some l \<Longrightarrow>
     cl_clears (foldl onDesktopResp c ds) = cl_clears c + advances l (epochs ds) \<and>
     cl_epoch (foldl onDesktopResp c ds) = Some (fold max (epochs ds) l)"
proof (induction ds arbitrary: c l)
  case Nil
  then show ?case by simp
next
  case (Cons d ds)
  show ?case
  proof (cases "rp_epoch d")
    case None
    then have "cl_epoch (onDesktopResp c d) = Some l" "cl_clears (onDesktopResp c d) = cl_clears c"
      using Cons.prems by (simp_all add: onDesktopResp_def resetDecision_def Let_def)
    with Cons.IH None show ?thesis by simp
  next
    case (Some e)
    then have "cl_epoch (onDesktopResp c d) = Some (max l e)"
      "cl_clears (onDesktopResp c d) = cl_clears c + (if e > l then 1 else 0)"
      using Cons.prems by (auto simp: onDesktopResp_def resetDecision_def Let_def max_def)
    with Cons.IH [of "onDesktopResp c d" "max l e"] Some show ?thesis
      by (auto simp: max_def)
  qed
qed

text \<open>A client that joins late is never wiped by the epoch it joins at: the first numeric
  epoch only sets its baseline, and from then on it clears once for each advance beyond every
  epoch seen before, however the replies repeat or run backwards.\<close>

lemma heartbeat_clears_per_advance:
  assumes "cl_epoch c = None" and "epochs ds = e # es"
  shows "cl_clears (foldl onDesktopResp c ds) = cl_clears c + advances e es \<and>
    cl_epoch (foldl onDesktopResp c ds) = Some (fold max es e)"
  using assms
proof (induction ds arbitrary: c)
  case Nil
  then show ?case by simp
next
  case (Cons d ds)
  show ?case
  proof (cases "rp_epoch d")
    case None
    then have "cl_epoch (onDesktopResp c d) = None" "cl_clears (onDesktopResp c d) = cl_clears c"
      using Cons.prems by (simp_all add: onDesktopResp_def resetDecision_def Let_def)
    with Cons None show ?thesis by simp
  next
    case (Some e')
    then have "cl_epoch (onDesktopResp c d) = Some e" "cl_clears (onDesktopResp c d) = cl_clears c"
      "epochs ds = es"
      using Cons.prems by (simp_all add: onDesktopResp_def resetDecision_def Let_def)
    with run_clears show ?thesis by simp
  qed
qed

theorem heartbeat_clears_per_advance_witness:
  "cl_clears (foldl onDesktopResp \<lparr>cl_id = ''i-1'', cl_epoch = None, cl_open = [''notes''], cl_clears = 0\<rparr>
      [\<lparr>rp_epoch = None, rp_targets = None\<rparr>, \<lparr>rp_epoch = Some 7, rp_targets = None\<rparr>,
       \<lparr>rp_epoch = Some 5, rp_targets = None\<rparr>, \<lparr>rp_epoch = Some 9, rp_targets = None\<rparr>]) = 1"
  using heartbeat_clears_per_advance [of "\<lparr>cl_id = ''i-1'', cl_epoch = None, cl_open = [''notes''], cl_clears = 0\<rparr>"
      "[\<lparr>rp_epoch = None, rp_targets = None\<rparr>, \<lparr>rp_epoch = Some 7, rp_targets = None\<rparr>,
       \<lparr>rp_epoch = Some 5, rp_targets = None\<rparr>, \<lparr>rp_epoch = Some 9, rp_targets = None\<rparr>]" 7 "[5, 9]"]
  by simp

text \<open>Cross-device close is addressed and safe: after a reply the client has closed
  exactly the open apps that name it (and everything on a reset); an app that does not name it,
  or names it with something other than an array, stays open.\<close>

theorem heartbeat_close_targets:
  "set (cl_open (onDesktopResp c d)) =
     (if resetDecision (cl_epoch c) (rp_epoch d) = ResetClear then {}
      else {a \<in> set (cl_open c). \<not> (\<exists>l. (a, Some l) \<in> set (or_empty (rp_targets d)) \<and> cl_id c \<in> set l)})"
  by (cases "resetDecision (cl_epoch c) (rp_epoch d)")
    (auto simp: onDesktopResp_def Let_def closeTargetsFor_iff)

end
