(* ===== verification/TabSync.thy ===== *)
theory TabSync
  imports VtPrelude
begin

text \<open>
  \<^verbatim>\<open>apps/everyday/terminal/lib/tab-sync.js\<close>: reconciling this client's terminal tabs with the
  set running on the backend. The objects used as sets are HOL sets of terminal numbers.
\<close>

record reconciled =
  rc_desired :: "nat list"
  rc_pending :: "nat set"
  rc_closing :: "nat set"

definition reconcile :: "nat list option \<Rightarrow> nat set option \<Rightarrow> nat set option \<Rightarrow> reconciled" where
  "reconcile running0 pending0 closing0 =
     (let running = (case running0 of None \<Rightarrow> [] | Some r \<Rightarrow> r);
          pending = (case pending0 of None \<Rightarrow> {} | Some p \<Rightarrow> p);
          closing = (case closing0 of None \<Rightarrow> {} | Some c \<Rightarrow> c);
          runSet = set running;
          newPending = Set.filter (\<lambda>k. k \<notin> runSet \<and> k \<notin> closing) pending;
          newClosing = Set.filter (\<lambda>k. k \<in> runSet) closing;
          desired = (set running \<union> newPending) - newClosing
      in \<lparr>rc_desired = sorted_list_of_set desired, rc_pending = newPending, rc_closing = newClosing\<rparr>)"

definition nextAvailable :: "nat list option \<Rightarrow> nat list option \<Rightarrow> nat \<Rightarrow> nat" where
  "nextAvailable used running mx =
     (let u = set (case used of None \<Rightarrow> [] | Some l \<Rightarrow> l) \<union> set (case running of None \<Rightarrow> [] | Some l \<Rightarrow> l)
      in case find (\<lambda>i. i \<notin> u) [1..<Suc mx] of None \<Rightarrow> 0 | Some i \<Rightarrow> i)"

lemma reconcile_fields:
  "rc_pending (reconcile (Some r) (Some p) (Some c)) = p - set r - c"
  "rc_closing (reconcile (Some r) (Some p) (Some c)) = c \<inter> set r"
  "rc_desired (reconcile (Some r) (Some p) (Some c)) = sorted_list_of_set ((set r \<union> p) - c)"
proof -
  show "rc_pending (reconcile (Some r) (Some p) (Some c)) = p - set r - c"
    "rc_closing (reconcile (Some r) (Some p) (Some c)) = c \<inter> set r"
    by (auto simp: reconcile_def Let_def)
  have "(set r \<union> Set.filter (\<lambda>k. k \<notin> set r \<and> k \<notin> c) p) - Set.filter (\<lambda>k. k \<in> set r) c = (set r \<union> p) - c"
    by auto
  then show "rc_desired (reconcile (Some r) (Some p) (Some c)) = sorted_list_of_set ((set r \<union> p) - c)"
    by (simp add: reconcile_def Let_def)
qed

text \<open>\<open>reconcile\<close> computes \<open>(running \<union> pending) - closing\<close> as a strictly ascending list,
  for the sets as they were before the confirmed entries are dropped; a tab closed here is never
  shown, and what remains pending or closing is exactly what the backend has not confirmed.\<close>

lemma reconcile_spec:
  assumes "finite p"
  shows "let out = reconcile (Some r) (Some p) (Some c) in
    set (rc_desired out) = (set r \<union> p) - c \<and> sorted_wrt (<) (rc_desired out) \<and>
    rc_pending out = p - set r - c \<and> rc_closing out = c \<inter> set r"
  unfolding Let_def reconcile_fields
  using assms by (intro conjI refl strict_sorted_list_of_set set_sorted_list_of_set) simp

theorem reconcile_spec_witness:
  "set (rc_desired (reconcile (Some [2, 1]) (Some {3, 4}) (Some {1, 4}))) = {2, 3}"
proof -
  have "(set [2, 1] \<union> {3, 4}) - {1, 4} = {2, 3 :: nat}" by auto
  then show ?thesis using reconcile_spec [of "{3, 4}" "[2, 1]" "{1, 4}", unfolded Let_def] by simp
qed

text \<open>Once the backend has caught up with this client (everything it opened and did not
  close runs, nothing it closed still runs) one poll shows exactly the running set and leaves
  nothing outstanding; polling the same set again changes nothing, whatever the state was.\<close>

lemma reconcile_converges:
  assumes "finite p"
  shows "(p - c \<subseteq> set r \<and> c \<inter> set r = {} \<longrightarrow>
      reconcile (Some r) (Some p) (Some c)
        = \<lparr>rc_desired = sorted_list_of_set (set r), rc_pending = {}, rc_closing = {}\<rparr>) \<and>
    (let out = reconcile (Some r) (Some p) (Some c)
     in reconcile (Some r) (Some (rc_pending out)) (Some (rc_closing out)) = out)"
proof -
  have 1: "reconcile (Some r) (Some p) (Some c)
      = \<lparr>rc_desired = sorted_list_of_set (set r), rc_pending = {}, rc_closing = {}\<rparr>"
    if "p - c \<subseteq> set r" "c \<inter> set r = {}"
  proof -
    have "(set r \<union> p) - c = set r" "p - set r - c = {}" using that by auto
    then show ?thesis
      using reconcile_fields [of r p c] that(2) by (intro reconciled.equality) simp_all
  qed
  have e: "(set r \<union> (p - set r - c)) - c \<inter> set r = (set r \<union> p) - c"
    "(p - set r - c) - set r - c \<inter> set r = p - set r - c" "(c \<inter> set r) \<inter> set r = c \<inter> set r" by auto
  have 2: "let out = reconcile (Some r) (Some p) (Some c)
     in reconcile (Some r) (Some (rc_pending out)) (Some (rc_closing out)) = out"
    unfolding Let_def reconcile_fields by (rule reconciled.equality) (simp_all only: reconcile_fields e, simp)
  from 1 2 show ?thesis by blast
qed

theorem reconcile_converges_witness:
  "reconcile (Some [1, 3]) (Some {3}) (Some {2})
     = \<lparr>rc_desired = sorted_list_of_set {1, 3}, rc_pending = {}, rc_closing = {}\<rparr>"
  using reconcile_converges [of "{3}" "{2}" "[1, 3]"] by simp

lemma find_upt_Some:
  "find P [a..<b] = Some i \<longleftrightarrow> a \<le> i \<and> i < b \<and> P i \<and> (\<forall>j. a \<le> j \<and> j < i \<longrightarrow> \<not> P j)"
proof (induction "b - a" arbitrary: a)
  case 0
  then show ?case by auto
next
  case (Suc d)
  then have "a < b" by simp
  then have u: "[a..<b] = a # [Suc a..<b]" by (rule upt_conv_Cons)
  have ih: "find P [Suc a..<b] = Some i \<longleftrightarrow>
      Suc a \<le> i \<and> i < b \<and> P i \<and> (\<forall>j. Suc a \<le> j \<and> j < i \<longrightarrow> \<not> P j)"
    by (rule Suc.hyps(1)) (use Suc.hyps(2) in simp)
  show ?case
  proof (cases "P a")
    case True
    then show ?thesis using \<open>a < b\<close> unfolding u by (auto simp: order.order_iff_strict)
  next
    case False
    have "(\<forall>j. a \<le> j \<and> j < i \<longrightarrow> \<not> P j) \<longleftrightarrow> (\<forall>j. Suc a \<le> j \<and> j < i \<longrightarrow> \<not> P j)"
      "a \<le> i \<and> P i \<longleftrightarrow> Suc a \<le> i \<and> P i"
      using False by (metis Suc_leD Suc_leI le_neq_implies_less)+
    with False ih show ?thesis unfolding u by auto
  qed
qed

lemma find_upt_None: "find P [a..<b] = None \<longleftrightarrow> (\<forall>j. a \<le> j \<and> j < b \<longrightarrow> \<not> P j)"
  by (auto simp: find_None_iff)

text \<open>The number handed to a new terminal is the least free one from 1 up to the maximum,
  free both here and on the backend; 0 means that every slot is taken.\<close>

theorem nextAvailable_spec:
  "let i = nextAvailable (Some used) (Some running) mx in
    (i = 0 \<longleftrightarrow> {1..mx} \<subseteq> set used \<union> set running) \<and>
    (i \<noteq> 0 \<longrightarrow> i \<le> mx \<and> i \<notin> set used \<and> i \<notin> set running \<and> {1..<i} \<subseteq> set used \<union> set running)"
proof (cases "find (\<lambda>i. i \<notin> set used \<union> set running) [1..<Suc mx]")
  case None
  then have "\<forall>j. 1 \<le> j \<and> j < Suc mx \<longrightarrow> j \<in> set used \<union> set running"
    unfolding find_upt_None by blast
  then have "{1..mx} \<subseteq> set used \<union> set running" by auto
  with None show ?thesis by (simp add: nextAvailable_def Let_def)
next
  case (Some i)
  then have i: "1 \<le> i" "i < Suc mx" "i \<notin> set used \<union> set running"
    "\<forall>j. 1 \<le> j \<and> j < i \<longrightarrow> j \<in> set used \<union> set running"
    unfolding find_upt_Some by blast+
  then have "i \<in> {1..mx}" "{1..<i} \<subseteq> set used \<union> set running" by auto
  with i(3) have "\<not> {1..mx} \<subseteq> set used \<union> set running" by blast
  with i \<open>{1..<i} \<subseteq> set used \<union> set running\<close> Some show ?thesis by (simp add: nextAvailable_def Let_def)
qed

theorem nextAvailable_spec_witness: "nextAvailable (Some [1, 2]) (Some [4]) 5 = 3"
  using nextAvailable_spec [of "[1, 2]" "[4]" 5] by (simp add: nextAvailable_def upt_rec)

end
