(* ===== verification/KbdInput.thy ===== *)
theory KbdInput
  imports VtPrelude
begin

text \<open>
  \<^verbatim>\<open>apps/everyday/terminal/lib/kbd-input.js\<close>: from the overlay's values and composition events
  to the bytes of the terminal. A JavaScript string is a list of UTF-16 code units, so that
  \<open>Array.from\<close> and its code points are what the language says; the closure's variables are the
  record \<open>kbd\<close>, the timer is the pending value with its delay, and every method returns the
  strings it passes to \<open>send\<close>. The clock is the event \<open>Fire\<close>. The source's test for a missing
  \<open>setTimeout\<close> is taken to succeed.
\<close>

section \<open>Strings and code points\<close>

type_synonym jsstr = "nat list"

definition DEL :: jsstr where "DEL = [127]"
definition CR :: jsstr where "CR = [13]"
definition TAB :: jsstr where "TAB = [9]"

definition is_high :: "nat \<Rightarrow> bool" where "is_high u \<longleftrightarrow> 55296 \<le> u \<and> u \<le> 56319"
definition is_low :: "nat \<Rightarrow> bool" where "is_low u \<longleftrightarrow> 56320 \<le> u \<and> u \<le> 57343"

text \<open>\<open>Array.from\<close>: a surrogate pair is one element, everything else a single unit.\<close>

fun array_from :: "jsstr \<Rightarrow> jsstr list" where
  "array_from [] = []"
| "array_from [x] = [[x]]"
| "array_from (x # y # zs) =
     (if is_high x \<and> is_low y then [x, y] # array_from zs else [x] # array_from (y # zs))"

lemma concat_array_from [simp]: "concat (array_from v) = v"
  by (induction v rule: array_from.induct) auto

section \<open>The state machine\<close>

record kbd =
  lastSent :: jsstr
  composing :: bool
  timer :: "(jsstr \<times> nat) option"

definition kbd_init :: kbd where
  "kbd_init = \<lparr>lastSent = [], composing = False, timer = None\<rparr>"

definition cancel :: "kbd \<Rightarrow> kbd" where
  "cancel s = s\<lparr>timer := None\<rparr>"

text \<open>The \<open>while\<close> loop that finds the first difference.\<close>

fun common_prefix :: "'a list \<Rightarrow> 'a list \<Rightarrow> nat" where
  "common_prefix (x # xs) (y # ys) = (if x = y then Suc (common_prefix xs ys) else 0)"
| "common_prefix _ _ = 0"

definition diffSend :: "jsstr \<Rightarrow> kbd \<Rightarrow> kbd \<times> jsstr list" where
  "diffSend v s =
     (let va = array_from v; la = array_from (lastSent s); i = common_prefix va la
      in (s\<lparr>lastSent := v\<rparr>, replicate (length la - i) DEL @ drop i va))"

definition flush :: "jsstr \<Rightarrow> kbd \<Rightarrow> kbd \<times> jsstr list" where
  "flush v s0 =
     (let s = s0\<lparr>timer := None\<rparr>
      in if v = [] \<and> lastSent s \<noteq> [] \<and> composing s then (s, []) else diffSend v s)"

definition sched :: "jsstr \<Rightarrow> nat \<Rightarrow> kbd \<Rightarrow> kbd" where
  "sched v ms s = (cancel s)\<lparr>timer := Some (v, ms)\<rparr>"

datatype kbd_event =
    Input jsstr bool
  | CompositionStart
  | CompositionEnd jsstr
  | Enter jsstr
  | TabKey
  | BackspaceEmpty
  | Reset
  | Fire

fun kbd_step :: "nat \<Rightarrow> kbd \<Rightarrow> kbd_event \<Rightarrow> kbd \<times> jsstr list" where
  "kbd_step safety s (Input v isComposing) =
     (if composing s \<or> isComposing then (sched v safety s, []) else flush v (cancel s))"
| "kbd_step safety s CompositionStart = (cancel (s\<lparr>composing := True\<rparr>), [])"
| "kbd_step safety s (CompositionEnd v) = (sched v 40 (s\<lparr>composing := False\<rparr>), [])"
| "kbd_step safety s (Enter v) =
     (let (s1, out) = flush v (cancel s) in (s1\<lparr>lastSent := []\<rparr>, out @ [CR]))"
| "kbd_step safety s TabKey = (s, [TAB])"
| "kbd_step safety s BackspaceEmpty = (s, [DEL])"
| "kbd_step safety s Reset = ((cancel s)\<lparr>lastSent := [], composing := False\<rparr>, [])"
| "kbd_step safety s Fire = (case timer s of None \<Rightarrow> (s, []) | Some (v, _) \<Rightarrow> flush v s)"

section \<open>The line at the other end\<close>

text \<open>
  The receiving line editor, as far as the module relies on it: DEL removes the last character
  (a code point), CR submits the line, any other chunk is typed.
\<close>

definition pty_byte :: "jsstr list \<Rightarrow> jsstr \<Rightarrow> jsstr list" where
  "pty_byte line c = (if c = DEL then butlast line else if c = CR then [] else line @ [c])"

definition pty_step :: "nat \<Rightarrow> kbd \<times> jsstr list \<Rightarrow> kbd_event \<Rightarrow> kbd \<times> jsstr list" where
  "pty_step safety sl e =
     (let (s, out) = kbd_step safety (fst sl) e in (s, foldl pty_byte (snd sl) out))"

text \<open>Values the user types or dictates contain neither DEL nor CR.\<close>

definition plain :: "jsstr \<Rightarrow> bool" where
  "plain v \<longleftrightarrow> 127 \<notin> set v \<and> 13 \<notin> set v"

fun typed :: "kbd_event \<Rightarrow> bool" where
  "typed (Input v _) = plain v"
| "typed CompositionStart = True"
| "typed (CompositionEnd v) = plain v"
| "typed (Enter v) = plain v"
| "typed TabKey = False"
| "typed BackspaceEmpty = False"
| "typed Reset = True"
| "typed Fire = True"

lemma array_from_plain: "plain v \<Longrightarrow> c \<in> set (array_from v) \<Longrightarrow> c \<noteq> DEL \<and> c \<noteq> CR"
proof -
  assume v: "plain v" and c: "c \<in> set (array_from v)"
  have "set c \<subseteq> set (concat (array_from v))"
    using c by (auto simp del: concat_array_from)
  then have "set c \<subseteq> set v" by (simp only: concat_array_from)
  with v show "c \<noteq> DEL \<and> c \<noteq> CR" by (auto simp: plain_def DEL_def CR_def)
qed

lemma common_prefix_take: "take (common_prefix xs ys) xs = take (common_prefix xs ys) ys"
  by (induction xs ys rule: common_prefix.induct) auto

lemma common_prefix_le: "common_prefix xs ys \<le> length ys"
  by (induction xs ys rule: common_prefix.induct) auto

lemma pty_dels: "k \<le> length l \<Longrightarrow> foldl pty_byte (b @ l) (replicate k DEL) = b @ take (length l - k) l"
proof (induction k arbitrary: l)
  case 0
  then show ?case by simp
next
  case (Suc k)
  then have "l \<noteq> []" by auto
  then have "pty_byte (b @ l) DEL = b @ butlast l" by (simp add: pty_byte_def butlast_append)
  then show ?case using Suc.IH [of "butlast l"] Suc.prems by (simp add: take_butlast)
qed

lemma pty_types: "\<forall>c\<in>set cs. c \<noteq> DEL \<and> c \<noteq> CR \<Longrightarrow> foldl pty_byte l cs = l @ cs"
  by (induction cs arbitrary: l) (simp_all add: pty_byte_def)

lemma diffSend_line:
  assumes "plain v"
  shows "foldl pty_byte (b @ array_from (lastSent s)) (snd (diffSend v s)) = b @ array_from v"
proof -
  let ?va = "array_from v" and ?la = "array_from (lastSent s)"
  let ?i = "common_prefix ?va ?la"
  have i: "?i \<le> length ?la" by (rule common_prefix_le)
  have "foldl pty_byte (b @ ?la) (replicate (length ?la - ?i) DEL) = b @ take ?i ?va"
    using pty_dels [of "length ?la - ?i" ?la b] i common_prefix_take [of ?va ?la] by simp
  moreover have "foldl pty_byte (b @ take ?i ?va) (drop ?i ?va) = b @ take ?i ?va @ drop ?i ?va"
    using array_from_plain [OF assms] by (subst pty_types) (auto dest: in_set_dropD)
  ultimately show ?thesis by (simp add: diffSend_def Let_def)
qed

text \<open>
  The mirror: some text that was on the line before, then exactly what was sent; and a pending
  timer carries a plain value.
\<close>

definition mirror :: "jsstr list \<Rightarrow> kbd \<times> jsstr list \<Rightarrow> bool" where
  "mirror b sl \<longleftrightarrow>
     snd sl = b @ array_from (lastSent (fst sl)) \<and>
     (\<forall>v d. timer (fst sl) = Some (v, d) \<longrightarrow> plain v)"

lemma flush_mirror:
  assumes "snd sl = b @ array_from (lastSent (fst sl))" "plain v" "flush v (fst sl) = (s', out)"
  shows "mirror b (s', foldl pty_byte (snd sl) out)"
  using assms diffSend_line [OF assms(2), of b "(fst sl)\<lparr>timer := None\<rparr>"]
  by (auto simp: mirror_def flush_def diffSend_def Let_def split: if_splits)

lemma cancel_lastSent [simp]: "lastSent (cancel s) = lastSent s" "composing (cancel s) = composing s"
  by (simp_all add: cancel_def)

text \<open>
  One typed event keeps the mirror; the text before it is the same, except that Enter empties
  the line and Reset makes everything on the line "before".
\<close>

lemma pty_step_mirror:
  assumes m: "mirror b sl" and t: "typed e"
  shows "mirror (case e of Enter _ \<Rightarrow> [] | Reset \<Rightarrow> snd sl | _ \<Rightarrow> b) (pty_step safety sl e)"
proof -
  obtain s l where sl: "sl = (s, l)" by fastforce
  have l: "l = b @ array_from (lastSent s)" and tm: "timer s = Some (v, d) \<Longrightarrow> plain v" for v d
    using m by (auto simp: mirror_def sl)
  show ?thesis
  proof (cases e)
    case (Input v c)
    show ?thesis
    proof (cases "composing s \<or> c")
      case True
      then show ?thesis using Input t l by (auto simp: pty_step_def mirror_def sched_def sl)
    next
      case False
      obtain s' out where f: "flush v (cancel s) = (s', out)" by fastforce
      have "mirror b (s', foldl pty_byte l out)"
        using flush_mirror [of "(cancel s, l)" b v s' out] l f t Input by simp
      then show ?thesis using False Input f by (simp add: pty_step_def sl)
    qed
  next
    case CompositionStart
    then show ?thesis using l by (simp add: pty_step_def mirror_def cancel_def sl)
  next
    case (CompositionEnd v)
    then show ?thesis using l t by (simp add: pty_step_def mirror_def sched_def cancel_def sl)
  next
    case (Enter v)
    obtain s' out where f: "flush v (cancel s) = (s', out)" by fastforce
    have "mirror b (s', foldl pty_byte l out)"
      using flush_mirror [of "(cancel s, l)" b v s' out] l f t Enter by simp
    then show ?thesis using Enter f by (auto simp: pty_step_def mirror_def sl pty_byte_def DEL_def CR_def)
  next
    case Reset
    then show ?thesis using l by (simp add: pty_step_def mirror_def cancel_def sl)
  next
    case Fire
    show ?thesis
    proof (cases "timer s")
      case None
      then show ?thesis using Fire l by (simp add: pty_step_def mirror_def sl)
    next
      case (Some p)
      obtain v d where p: "p = (v, d)" by fastforce
      obtain s' out where f: "flush v s = (s', out)" by fastforce
      have "mirror b (s', foldl pty_byte l out)"
        using flush_mirror [of "(s, l)" b v s' out] l f tm Some p by simp
      then show ?thesis using Fire Some p f by (simp add: pty_step_def sl)
    qed
  qed (use t in simp_all)
qed

interpretation mirrored: machine "pty_step safety" "\<lambda>sl. \<exists>b. mirror b sl" typed
  using pty_step_mirror by unfold_locales blast

text \<open>Without Enter and Reset the text before stays the same.\<close>

fun editing :: "kbd_event \<Rightarrow> bool" where
  "editing (Enter _) = False"
| "editing Reset = False"
| "editing e = typed e"

lemma pty_step_editing: "mirror b sl \<Longrightarrow> editing e \<Longrightarrow> mirror b (pty_step safety sl e)"
  using pty_step_mirror [of b sl e safety] by (cases e) simp_all

interpretation edited: machine "pty_step safety" "mirror b" editing
  by unfold_locales (rule pty_step_editing)

section \<open>Properties\<close>

text \<open>C32. The terminal's line mirrors the overlay: through any sequence of inputs, compositions
  and timer firings, the line is what was there before followed by the text last sent, character
  by character (surrogate pairs included); after an input outside a composition that text is the
  overlay's value.\<close>

theorem kbd_line_mirrors_value:
  assumes "\<forall>e\<in>set es. editing e" and "plain v"
    and "s = fst (foldl (pty_step safety) (kbd_init, line) es)" and "\<not> composing s"
  shows "snd (foldl (pty_step safety) (kbd_init, line) es) = line @ array_from (lastSent s) \<and>
    snd (foldl (pty_step safety) (kbd_init, line) (es @ [Input v False])) = line @ array_from v"
proof -
  have "mirror line (kbd_init, line)" by (simp add: mirror_def kbd_init_def)
  then have m: "mirror line (foldl (pty_step safety) (kbd_init, line) es)"
    using assms(1) by (rule edited.run_inv)
  then have 1: "snd (foldl (pty_step safety) (kbd_init, line) es) = line @ array_from (lastSent s)"
    by (simp add: mirror_def assms(3))
  then have sl: "foldl (pty_step safety) (kbd_init, line) es = (s, line @ array_from (lastSent s))"
    using assms(3) by (simp only: prod_eq_iff fst_conv snd_conv)
  have "flush v (cancel s) = diffSend v (cancel s)"
    using assms(4) by (simp add: flush_def cancel_def)
  then have "snd (pty_step safety (s, line @ array_from (lastSent s)) (Input v False)) = line @ array_from v"
    using assms(4) diffSend_line [OF assms(2), of line "cancel s"]
    by (simp add: pty_step_def case_prod_beta)
  with 1 sl show ?thesis by simp
qed

theorem kbd_line_mirrors_value_witness:
  "snd (foldl (pty_step 6000) (kbd_init, []) ([Input [55357, 56832] False] @ [Input [98] False])) = [[98]]"
proof -
  have e: "\<forall>e\<in>set [Input [55357, 56832] False]. editing e" "plain [98]" by (simp_all add: plain_def)
  have "\<not> composing (fst (foldl (pty_step 6000) (kbd_init, []) [Input [55357, 56832] False]))"
    by (simp add: pty_step_def kbd_init_def flush_def diffSend_def cancel_def Let_def)
  from kbd_line_mirrors_value [OF e refl this, THEN conjunct2] show ?thesis by (simp only: array_from.simps append.simps)
qed

section \<open>Compositions and the clock\<close>

text \<open>
  The machine with its clock: \<open>tk_due\<close> is when the pending timer fires (milliseconds). \<open>tick\<close> lets
  the clock reach \<open>now\<close>: a timer that is due by then fires, on time and before an event of the
  same millisecond.
\<close>

record timed_kbd =
  tk_s :: kbd
  tk_due :: nat
  tk_out :: "jsstr list"

definition tick :: "nat \<Rightarrow> nat \<Rightarrow> timed_kbd \<Rightarrow> timed_kbd" where
  "tick safety now k =
     (if timer (tk_s k) \<noteq> None \<and> tk_due k \<le> now
      then let (s, out) = kbd_step safety (tk_s k) Fire in k\<lparr>tk_s := s, tk_out := tk_out k @ out\<rparr>
      else k)"

definition schedules :: "kbd \<Rightarrow> kbd_event \<Rightarrow> bool" where
  "schedules s e = (case e of Input v c \<Rightarrow> composing s \<or> c | CompositionEnd v \<Rightarrow> True | _ \<Rightarrow> False)"

definition timed_step :: "nat \<Rightarrow> timed_kbd \<Rightarrow> nat \<times> kbd_event \<Rightarrow> timed_kbd" where
  "timed_step safety k0 te =
     (let k = tick safety (fst te) k0; (s, out) = kbd_step safety (tk_s k) (snd te)
      in \<lparr>tk_s = s,
          tk_due = (if schedules (tk_s k) (snd te) then fst te + (case timer s of None \<Rightarrow> 0 | Some (v, ms) \<Rightarrow> ms) else tk_due k),
          tk_out = tk_out k @ out\<rparr>)"

text \<open>The keys that turn the text \<open>l\<close> into \<open>v\<close>, and a sequence of texts one into the next.\<close>

definition change :: "jsstr \<Rightarrow> jsstr \<Rightarrow> jsstr list" where
  "change l v =
     (let n = common_prefix (array_from v) (array_from l)
      in replicate (length (array_from l) - n) DEL @ drop n (array_from v))"

fun changes :: "jsstr \<Rightarrow> jsstr list \<Rightarrow> jsstr list" where
  "changes l [] = []"
| "changes l (v # vs) = change l v @ changes v vs"

text \<open>The values of a composition that were left alone for the safety time before the next input or the end.\<close>

fun rested :: "nat \<Rightarrow> nat \<Rightarrow> (nat \<times> jsstr \<times> bool) list \<Rightarrow> jsstr list" where
  "rested safety fin [] = []"
| "rested safety fin [(t, v, _)] = (if t + safety \<le> fin then [v] else [])"
| "rested safety fin ((t, v, _) # (t', v', c') # ins) =
     (if t + safety \<le> t' then [v] else []) @ rested safety fin ((t', v', c') # ins)"

definition dictated :: "nat \<Rightarrow> nat \<Rightarrow> (nat \<times> jsstr \<times> bool) list \<Rightarrow> jsstr list" where
  "dictated safety fin ins = filter (\<lambda>v. v \<noteq> []) (rested safety fin ins)"

lemma dictated_Cons2:
  "dictated safety fin ((t, v, c) # (t', v', c') # ins) =
     (if t + safety \<le> t' \<and> v \<noteq> [] then [v] else []) @ dictated safety fin ((t', v', c') # ins)"
  by (simp add: dictated_def)

lemma changes_append: "changes l (vs @ [v]) = changes l vs @ change (last (l # vs)) v"
  by (induction vs arbitrary: l) auto

lemma flush_change:
  "flush v s = (s\<lparr>timer := None, lastSent := (if v = [] \<and> composing s then lastSent s else v)\<rparr>,
     if v = [] \<and> composing s then [] else change (lastSent s) v)"
  by (auto simp: flush_def diffSend_def change_def Let_def)

definition key_in :: "nat \<times> jsstr \<times> bool \<Rightarrow> nat \<times> kbd_event" where
  "key_in = (\<lambda>(t, v, c). (t, Input v c))"

text \<open>The inputs of a composition, from the first one on.\<close>

lemma composing_run:
  "let k = tick safety fin (foldl (timed_step safety)
        \<lparr>tk_s = \<lparr>lastSent = l, composing = True, timer = Some (v0, safety)\<rparr>, tk_due = t0 + safety, tk_out = out\<rparr> (map key_in ins));
       vs = dictated safety fin ((t0, v0, c0) # ins)
   in lastSent (tk_s k) = last (l # vs) \<and> composing (tk_s k) \<and> tk_out k = out @ changes l vs"
proof (induction ins arbitrary: l v0 t0 c0 out)
  case Nil
  show ?case by (simp add: tick_def flush_change Let_def dictated_def)
next
  case (Cons i ins)
  obtain t v c where i: "i = (t, v, c)" by (metis prod_cases3)
  define fires where "fires \<longleftrightarrow> t0 + safety \<le> t \<and> v0 \<noteq> []"
  have "timed_step safety \<lparr>tk_s = \<lparr>lastSent = l, composing = True, timer = Some (v0, safety)\<rparr>, tk_due = t0 + safety, tk_out = out\<rparr> (key_in i) =
      \<lparr>tk_s = \<lparr>lastSent = (if fires then v0 else l), composing = True, timer = Some (v, safety)\<rparr>, tk_due = t + safety,
        tk_out = out @ (if fires then change l v0 else [])\<rparr>"
    by (auto simp: i key_in_def timed_step_def tick_def flush_change sched_def cancel_def schedules_def fires_def Let_def)
  then show ?case
    using Cons.IH [of "if fires then v0 else l" v t "out @ (if fires then change l v0 else [])" c]
    by (cases fires) (auto simp: i dictated_Cons2 fires_def Let_def)
qed

text \<open>C35. What a composition sends, and when. Take any state, the start of a composition, any inputs at any times, and
  its end at \<open>fin\<close> with the chosen value \<open>v\<close>. Up to the end, the only keys sent are those that turn the
  text last sent into the values that were left alone for the safety time (six seconds by default; the empty value is passed
  over), one into the next: nothing at all when no pause is that long. Forty
  milliseconds after the end the text last sent is turned into \<open>v\<close> and remembered. The
  timer is taken to fire on time.\<close>

theorem composition_sends_once:
  "let k0 = timed_step safety k (start, CompositionStart);
       k1 = timed_step safety (foldl (timed_step safety) k0 (map (\<lambda>(t, v, c). (t, Input v c)) ins)) (fin, CompositionEnd v);
       k2 = tick safety (fin + 40) k1;
       l = lastSent (tk_s k0); vs = dictated safety fin ins
   in tk_out k1 = tk_out k0 @ changes l vs \<and>
      (now < fin + 40 \<longrightarrow> tick safety now k1 = k1) \<and>
      tk_out k2 = tk_out k1 @ change (last (l # vs)) v \<and> lastSent (tk_s k2) = v"
proof -
  define k0 where "k0 = timed_step safety k (start, CompositionStart)"
  define kn where "kn = tick safety fin (foldl (timed_step safety) k0 (map key_in ins))"
  define l where "l = lastSent (tk_s k0)"
  define vs where "vs = dictated safety fin ins"
  have k0: "tk_s k0 = \<lparr>lastSent = l, composing = True, timer = None\<rparr>"
    by (simp add: k0_def l_def timed_step_def cancel_def Let_def)
  have kn: "lastSent (tk_s kn) = last (l # vs) \<and> composing (tk_s kn) \<and> tk_out kn = tk_out k0 @ changes l vs"
  proof (cases ins)
    case Nil
    then show ?thesis by (simp add: kn_def vs_def dictated_def tick_def k0)
  next
    case (Cons i ins')
    obtain t u c where i: "i = (t, u, c)" by (metis prod_cases3)
    have "timed_step safety k0 (key_in i) =
        \<lparr>tk_s = \<lparr>lastSent = l, composing = True, timer = Some (u, safety)\<rparr>, tk_due = t + safety, tk_out = tk_out k0\<rparr>"
      by (simp add: i key_in_def timed_step_def tick_def k0 sched_def cancel_def schedules_def)
    then show ?thesis using composing_run [of safety fin l u t "tk_out k0" ins' c]
      by (simp add: kn_def vs_def Cons i Let_def)
  qed
  define k1 where "k1 = timed_step safety (foldl (timed_step safety) k0 (map key_in ins)) (fin, CompositionEnd v)"
  have k1: "k1 = \<lparr>tk_s = \<lparr>lastSent = last (l # vs), composing = False, timer = Some (v, 40)\<rparr>, tk_due = fin + 40, tk_out = tk_out kn\<rparr>"
    using kn by (simp add: k1_def timed_step_def kn_def [symmetric] sched_def cancel_def schedules_def Let_def)
  have "tick safety (fin + 40) k1 =
      \<lparr>tk_s = \<lparr>lastSent = v, composing = False, timer = None\<rparr>, tk_due = fin + 40, tk_out = tk_out kn @ change (last (l # vs)) v\<rparr>"
    by (simp add: k1 tick_def flush_change)
  moreover have "now < fin + 40 \<Longrightarrow> tick safety now k1 = k1" by (simp add: k1 tick_def)
  ultimately show ?thesis
    using kn k1
    unfolding k1_def [symmetric] key_in_def [symmetric] Let_def l_def [symmetric] k0_def [symmetric] vs_def [symmetric] by simp
qed

text \<open>
  Two inputs and the choice of a word: one change at the end. A dictation that rests for six seconds is sent before its end.
\<close>

definition a_start :: timed_kbd where
  "a_start = timed_step 6000 \<lparr>tk_s = kbd_init, tk_due = 0, tk_out = []\<rparr> (900, CompositionStart)"

definition a_composition :: timed_kbd where
  "a_composition = timed_step 6000 (foldl (timed_step 6000) a_start
     (map (\<lambda>(t, v, c). (t, Input v c)) [(1000, [115], True), (1500, [115, 104], True)])) (2100, CompositionEnd [25163])"

theorem composition_sends_once_witness:
  "tk_out a_composition = [] \<and> tk_out (tick 6000 2140 a_composition) = [[25163]]"
proof -
  have "dictated 6000 2100 [(1000, [115], True), (1500, [115, 104], True)] = []" by (simp add: dictated_def)
  moreover have "tk_out a_start = []" "lastSent (tk_s a_start) = []"
    by (simp_all add: a_start_def timed_step_def tick_def kbd_init_def cancel_def Let_def)
  moreover have "change [] [25163] = [[25163]]" by (simp add: change_def)
  ultimately show ?thesis
    using composition_sends_once [of 6000 "\<lparr>tk_s = kbd_init, tk_due = 0, tk_out = []\<rparr>" 900
        "[(1000, [115], True), (1500, [115, 104], True)]" 2100 "[25163]" 0]
    unfolding Let_def a_start_def [symmetric] a_composition_def [symmetric] by simp
qed

lemma dictation_is_sent: "dictated 6000 9000 [(1000, [104, 105], True), (8000, [104, 111], True)] = [[104, 105]]"
  by (simp add: dictated_def)

end
