(* ===== verification/JsStr.thy ===== *)
theory JsStr
  imports VtPrelude "HOL-Library.Sublist"
begin

text \<open>
  The string operations of JavaScript the components share. Strings are HOL strings: the code
  units the sources compare against and split on are all below 128. Case mapping is that of
  the ASCII letters, which is what a case-insensitive ASCII pattern tests.
\<close>

section \<open>Case, white space, prefixes\<close>

definition lower_char :: "char \<Rightarrow> char" where
  "lower_char c = (let k = of_char c :: nat in if 65 \<le> k \<and> k \<le> 90 then char_of (k + 32) else c)"

definition upper_char :: "char \<Rightarrow> char" where
  "upper_char c = (let k = of_char c :: nat in if 97 \<le> k \<and> k \<le> 122 then char_of (k - 32) else c)"

definition toLowerCase :: "string \<Rightarrow> string" where "toLowerCase s = map lower_char s"
definition toUpperCase :: "string \<Rightarrow> string" where "toUpperCase s = map upper_char s"

definition is_space :: "char \<Rightarrow> bool" where
  "is_space c \<longleftrightarrow> (of_char c :: nat) \<in> {9, 10, 11, 12, 13, 32, 160}"

definition js_trim :: "string \<Rightarrow> string" where
  "js_trim s = rev (dropWhile is_space (rev (dropWhile is_space s)))"

text \<open>\<open>s.slice(0, n) === p\<close> and \<open>s.indexOf(p) === 0\<close>.\<close>

definition starts_with :: "string \<Rightarrow> string \<Rightarrow> bool" where
  "starts_with p s \<longleftrightarrow> take (length p) s = p"

text \<open>A pattern \<open>/\\.(a|b|...)$/i\<close>: the name ends in a dot and one of the extensions.\<close>

definition has_ext :: "string list \<Rightarrow> string \<Rightarrow> bool" where
  "has_ext exts name \<longleftrightarrow> list_ex (\<lambda>e. suffix (CHR ''.'' # e) (toLowerCase name)) exts"

lemma starts_with_iff: "starts_with p s \<longleftrightarrow> (\<exists>t. s = p @ t)"
  unfolding starts_with_def by (metis append_eq_conv_conj append_take_drop_id)

lemma js_trim_id: "(s = [] \<or> (\<not> is_space (hd s) \<and> \<not> is_space (last s))) \<Longrightarrow> js_trim s = s"
proof (cases "s = []")
  case False
  assume "s = [] \<or> (\<not> is_space (hd s) \<and> \<not> is_space (last s))"
  with False have h: "\<not> is_space (hd s)" "\<not> is_space (hd (rev s))" by (simp_all add: hd_rev)
  then have "dropWhile is_space s = s" "dropWhile is_space (rev s) = rev s"
    using False by (cases s; cases "rev s"; simp)+
  then show ?thesis by (simp add: js_trim_def)
qed (simp add: js_trim_def)

section \<open>Splitting and joining\<close>

text \<open>\<open>s.split(c)\<close> for a one-character separator.\<close>

fun js_split :: "char \<Rightarrow> string \<Rightarrow> string list" where
  "js_split c [] = [[]]"
| "js_split c (x # xs) = (if x = c then [] # js_split c xs
                          else (case js_split c xs of [] \<Rightarrow> [[x]] | y # ys \<Rightarrow> (x # y) # ys))"

text \<open>\<open>xs.join(sep)\<close>.\<close>

fun js_join :: "string \<Rightarrow> string list \<Rightarrow> string" where
  "js_join sep [] = []"
| "js_join sep [x] = x"
| "js_join sep (x # y # ys) = x @ sep @ js_join sep (y # ys)"

lemma js_split_ne [simp]: "js_split c s \<noteq> []"
  by (cases s) (auto split: list.splits)

lemma js_split_parts: "p \<in> set (js_split c s) \<Longrightarrow> c \<notin> set p"
  by (induction s arbitrary: p) (auto split: if_splits list.splits)

lemma js_split_append: "c \<notin> set x \<Longrightarrow> js_split c (x @ c # s) = x # js_split c s"
  by (induction x) auto

lemma js_split_single: "c \<notin> set x \<Longrightarrow> js_split c x = [x]"
  by (induction x) auto

lemma js_split_join:
  "xs \<noteq> [] \<Longrightarrow> \<forall>x\<in>set xs. c \<notin> set x \<Longrightarrow> js_split c (js_join [c] xs) = xs"
proof (induction xs rule: induct_list012)
  case (3 x y zs)
  then show ?case by (simp add: js_split_append)
qed (simp_all add: js_split_single)

lemma js_join_split: "js_join [c] (js_split c s) = s"
proof (induction s)
  case (Cons x xs)
  show ?case
  proof (cases "js_split c xs")
    case Nil
    then show ?thesis by simp
  next
    case (Cons y ys)
    then show ?thesis using Cons.IH by (cases ys) auto
  qed
qed simp

lemma js_join_Cons: "js_join sep (x # xs) = (if xs = [] then x else x @ sep @ js_join sep xs)"
  by (cases xs) simp_all

lemma js_join_append:
  "xs \<noteq> [] \<Longrightarrow> ys \<noteq> [] \<Longrightarrow> js_join sep (xs @ ys) = js_join sep xs @ sep @ js_join sep ys"
  by (induction xs rule: induct_list012) (simp_all add: js_join_Cons)

section \<open>The last occurrence of a character\<close>

text \<open>\<open>s.lastIndexOf(c)\<close>, with \<open>None\<close> for -1.\<close>

fun lastIndexOf :: "char \<Rightarrow> string \<Rightarrow> nat option" where
  "lastIndexOf c [] = None"
| "lastIndexOf c (x # xs) = (case lastIndexOf c xs of Some i \<Rightarrow> Some (Suc i)
                             | None \<Rightarrow> if x = c then Some 0 else None)"

lemma lastIndexOf_None: "lastIndexOf c s = None \<longleftrightarrow> c \<notin> set s"
  by (induction s) (auto split: option.splits)

lemma lastIndexOf_Some:
  "lastIndexOf c s = Some i \<Longrightarrow> i < length s \<and> s ! i = c \<and> c \<notin> set (drop (Suc i) s)"
proof (induction s arbitrary: i)
  case (Cons x xs)
  then show ?case
    by (cases "lastIndexOf c xs") (auto simp: lastIndexOf_None split: if_splits)
qed simp

lemma lastIndexOf_append: "c \<notin> set y \<Longrightarrow> lastIndexOf c (x @ c # y) = Some (length x)"
proof (induction x)
  case Nil
  then have "lastIndexOf c y = None" by (simp add: lastIndexOf_None)
  then show ?case by simp
qed simp

lemma lastIndexOf_split: "lastIndexOf c s = Some i \<Longrightarrow> s = take i s @ c # drop (Suc i) s"
  using lastIndexOf_Some id_take_nth_drop by metis

section \<open>Decimal numbers\<close>

definition digit :: "nat \<Rightarrow> char" where "digit d = char_of (48 + d)"

fun dec :: "nat \<Rightarrow> string" where
  "dec n = (if n < 10 then [digit n] else dec (n div 10) @ [digit (n mod 10)])"

declare dec.simps [simp del]

definition dec_int :: "int \<Rightarrow> string" where
  "dec_int k = (if k < 0 then CHR ''-'' # dec (nat (- k)) else dec (nat k))"

text \<open>The remainder \<open>a % b\<close> of whole numbers has the sign of the dividend.\<close>

definition js_rem :: "int \<Rightarrow> int \<Rightarrow> int" where
  "js_rem a b = sgn a * (\<bar>a\<bar> mod \<bar>b\<bar>)"

lemma js_rem_nonneg: "0 \<le> a \<Longrightarrow> 0 < b \<Longrightarrow> js_rem a b = a mod b"
  by (cases "a = 0") (simp_all add: js_rem_def)

text \<open>\<open>parseInt(s, 10)\<close> of a string that starts with a digit: the value of the leading digits.\<close>

definition is_digit :: "char \<Rightarrow> bool" where
  "is_digit c \<longleftrightarrow> 48 \<le> (of_char c :: nat) \<and> (of_char c :: nat) \<le> 57"

definition digits_value :: "string \<Rightarrow> nat" where
  "digits_value s = foldl (\<lambda>a c. a * 10 + (of_char c - 48)) 0 s"

definition parseInt10 :: "string \<Rightarrow> int option" where
  "parseInt10 s0 =
     (let s1 = dropWhile is_space s0;
          neg = (s1 \<noteq> [] \<and> hd s1 = CHR ''-'');
          s = (if s1 \<noteq> [] \<and> (hd s1 = CHR ''-'' \<or> hd s1 = CHR ''+'') then tl s1 else s1);
          ds = takeWhile is_digit s
      in if ds = [] then None else Some (if neg then - int (digits_value ds) else int (digits_value ds)))"

lemma of_char_digit: "d < 10 \<Longrightarrow> of_char (digit d) = 48 + d"
  by (simp add: digit_def of_char_of)

lemma is_digit_digit [simp]: "d < 10 \<Longrightarrow> is_digit (digit d)"
  by (simp add: is_digit_def of_char_digit)

lemma dec_digits: "c \<in> set (dec n) \<Longrightarrow> is_digit c"
proof (induction n rule: dec.induct)
  case (1 n)
  show ?case
  proof (cases "n < 10")
    case True
    then show ?thesis using "1.prems" by (simp add: dec.simps [of n])
  next
    case False
    then have "c \<in> set (dec (n div 10)) \<or> c = digit (n mod 10)"
      using "1.prems" by (subst (asm) dec.simps) auto
    then show ?thesis using "1.IH" False by auto
  qed
qed

lemma dec_ne [simp]: "dec n \<noteq> []"
  by (subst dec.simps) simp

lemma digits_value_dec [simp]: "digits_value (dec n) = n"
proof (induction n rule: dec.induct)
  case (1 n)
  show ?case
  proof (cases "n < 10")
    case True
    then show ?thesis by (simp add: dec.simps [of n] digits_value_def of_char_digit)
  next
    case False
    then have "digits_value (dec n) = digits_value (dec (n div 10)) * 10 + n mod 10"
      by (subst dec.simps) (simp add: digits_value_def of_char_digit)
    then show ?thesis using "1.IH" False by simp
  qed
qed

lemma dec_inj: "dec m = dec n \<Longrightarrow> m = n"
  using digits_value_dec by metis

lemma dec_int_int [simp]: "dec_int (int n) = dec n"
  by (simp add: dec_int_def)

lemma digit_not_space: "is_digit c \<Longrightarrow> \<not> is_space c"
  by (auto simp: is_digit_def is_space_def)

lemma parseInt10_dec [simp]: "parseInt10 (dec n) = Some (int n)"
proof -
  have h: "is_digit (hd (dec n))" using dec_digits dec_ne hd_in_set by blast
  then have "hd (dec n) \<noteq> CHR ''-''" "hd (dec n) \<noteq> CHR ''+''"
    by (auto simp: is_digit_def)
  moreover have "dropWhile is_space (dec n) = dec n"
    using digit_not_space [OF h] by (cases "dec n") simp_all
  moreover have "takeWhile is_digit (dec n) = dec n"
    using dec_digits unfolding takeWhile_eq_all_conv by blast
  ultimately show ?thesis by (simp add: parseInt10_def Let_def del: takeWhile_eq_all_conv)
qed

end
