(* ===== verification/FilesCore.thy ===== *)
theory FilesCore
  imports JsStr
begin

text \<open>
  \<^verbatim>\<open>apps/everyday/files/filesx-core.js\<close>: the pure half of the Files app. Path arithmetic, names,
  labels, keyboard navigation of a listing, and following a file that changes under its preview.
\<close>

section \<open>File types\<close>

definition OFF_EXTS :: "string list" where
  "OFF_EXTS = [''doc'', ''docx'', ''docm'', ''dot'', ''dotx'', ''dotm'', ''xls'', ''xlsx'', ''xlsm'', ''xlsb'',
     ''xlt'', ''xltx'', ''xltm'', ''ppt'', ''pptx'', ''pptm'', ''pps'', ''ppsx'', ''ppsm'', ''pot'', ''potx'',
     ''potm'', ''odt'', ''ods'', ''odp'', ''ott'', ''ots'', ''otp'', ''rtf'', ''csv'', ''tsv'']"
definition IMG_EXTS :: "string list" where
  "IMG_EXTS = [''png'', ''jpg'', ''jpeg'', ''gif'', ''webp'', ''bmp'', ''svg'', ''avif'', ''ico'', ''heic'',
     ''heif'', ''tif'', ''tiff'']"
definition VID_EXTS :: "string list" where
  "VID_EXTS = [''mp4'', ''m4v'', ''mov'', ''mkv'', ''webm'', ''avi'', ''wmv'', ''flv'', ''ogv'', ''mpg'', ''mpeg'',
     ''ts'', ''m2ts'', ''3gp'']"
definition AUD_EXTS :: "string list" where
  "AUD_EXTS = [''mp3'', ''wav'', ''flac'', ''ogg'', ''m4a'', ''aac'', ''opus'', ''wma'']"
definition ARC_EXTS :: "string list" where
  "ARC_EXTS = [''zip'', ''tar'', ''gz'', ''tgz'', ''xz'', ''bz2'', ''7z'', ''rar'', ''zst'']"

definition KIND_MAP :: "(string \<times> string) list" where
  "KIND_MAP =
    [(''png'', ''PNG image''), (''jpg'', ''JPEG image''), (''jpeg'', ''JPEG image''), (''gif'', ''GIF image''),
     (''webp'', ''WebP image''), (''svg'', ''SVG image''), (''heic'', ''HEIC image''), (''bmp'', ''Bitmap image''),
     (''tif'', ''TIFF image''), (''tiff'', ''TIFF image''), (''ico'', ''Icon image''), (''avif'', ''AVIF image''),
     (''mp4'', ''MPEG-4 video''), (''mkv'', ''Matroska video''), (''mov'', ''QuickTime video''),
     (''avi'', ''AVI video''), (''webm'', ''WebM video''),
     (''mp3'', ''MP3 audio''), (''flac'', ''FLAC audio''), (''wav'', ''WAV audio''), (''m4a'', ''M4A audio''),
     (''ogg'', ''Ogg audio''),
     (''pdf'', ''PDF document''), (''doc'', ''Word document''), (''docx'', ''Word document''),
     (''xls'', ''Excel spreadsheet''), (''xlsx'', ''Excel spreadsheet''),
     (''ppt'', ''PowerPoint presentation''), (''pptx'', ''PowerPoint presentation''),
     (''odt'', ''OpenDocument text''), (''ods'', ''OpenDocument spreadsheet''),
     (''odp'', ''OpenDocument presentation''),
     (''txt'', ''Plain text''), (''md'', ''Markdown text''), (''csv'', ''CSV text''), (''json'', ''JSON file''),
     (''yaml'', ''YAML file''), (''yml'', ''YAML file''), (''log'', ''Log file''), (''ipynb'', ''Jupyter notebook''),
     (''zip'', ''ZIP archive''), (''tar'', ''tar archive''), (''gz'', ''gzip archive''), (''tgz'', ''gzip archive''),
     (''xz'', ''xz archive''), (''bz2'', ''bzip2 archive''), (''7z'', ''7-Zip archive''), (''rar'', ''RAR archive''),
     (''py'', ''Python script''), (''sh'', ''Shell script''), (''js'', ''JavaScript file''), (''ts'', ''TypeScript file''),
     (''c'', ''C source''), (''h'', ''C header''), (''cpp'', ''C++ source''), (''go'', ''Go source''),
     (''rs'', ''Rust source''), (''java'', ''Java source''), (''html'', ''HTML file''), (''css'', ''CSS file''),
     (''iso'', ''Disk image''), (''deb'', ''Debian package''), (''rpm'', ''RPM package''),
     (''exe'', ''Windows program''), (''dmg'', ''macOS disk image'')]"

text \<open>The emoji of an icon, by what it shows.\<close>

datatype icon = FolderIcon | PictureIcon | FilmIcon | NoteIcon | PackageIcon | RedBook | BlueBook | GreenBook
  | OrangeBook | PageIcon

definition iconFor :: "string \<Rightarrow> bool \<Rightarrow> icon" where
  "iconFor name isDir =
     (if isDir then FolderIcon
      else if has_ext IMG_EXTS name then PictureIcon
      else if has_ext VID_EXTS name then FilmIcon
      else if has_ext AUD_EXTS name then NoteIcon
      else if has_ext ARC_EXTS name then PackageIcon
      else if has_ext [''pdf''] name then RedBook
      else if has_ext [''doc'', ''docx'', ''odt''] name then BlueBook
      else if has_ext [''xls'', ''xlsx'', ''ods'', ''csv''] name then GreenBook
      else if has_ext [''ppt'', ''pptx'', ''odp''] name then OrangeBook
      else PageIcon)"

definition ext_of :: "string \<Rightarrow> string" where
  "ext_of name = (case lastIndexOf (CHR ''.'') name of
     Some dot \<Rightarrow> if dot > 0 then toLowerCase (drop (Suc dot) name) else []
   | None \<Rightarrow> [])"

text \<open>
  \<open>KIND_MAP[ext]\<close> of a plain object: besides the table's own keys the lookup finds what the
  object inherits. Of the inherited names two have no capital letter, and so can be an
  extension; their value is an object, not a label.
\<close>

datatype kind_label = Label string | InheritedValue string

definition kindOf :: "string \<Rightarrow> bool \<Rightarrow> kind_label" where
  "kindOf name isDir =
     (if isDir then Label ''Folder''
      else let ext = ext_of name
           in case map_of KIND_MAP ext of
                Some k \<Rightarrow> Label k
              | None \<Rightarrow> if ext \<in> {''constructor'', ''__proto__''} then InheritedValue ext
                        else if ext \<noteq> [] then Label (toUpperCase ext @ '' file'') else Label ''File'')"

section \<open>Paths\<close>

text \<open>The \<open>forEach\<close> over the segments: \<open>out\<close> is grown at its end, \<open>pop\<close> of [] does nothing.\<close>

fun walk_segs :: "string list \<Rightarrow> string list \<Rightarrow> string list" where
  "walk_segs out [] = out"
| "walk_segs out (seg # segs) =
     (if seg = [] \<or> seg = ''.'' then walk_segs out segs
      else if seg = ''..'' then walk_segs (butlast out) segs
      else walk_segs (out @ [seg]) segs)"

text \<open>\<open>cwd\<close> and \<open>home\<close> may be missing or empty, which is the empty string here.\<close>

definition normPath :: "string \<Rightarrow> string \<Rightarrow> string \<Rightarrow> string option" where
  "normPath input cwd home =
     (let p0 = js_trim input
      in if p0 = [] then None
         else let p1 = (if p0 = ''~'' then (if home \<noteq> [] then home else ''/'')
                        else if take 2 p0 = ''~/'' then home @ drop 1 p0 else p0);
                  p2 = (if take 1 p1 \<noteq> ''/'' then (if cwd = ''/'' \<or> cwd = [] then [] else cwd) @ ''/'' @ p1 else p1)
              in Some (''/'' @ js_join ''/'' (walk_segs [] (js_split (CHR ''/'') p2))))"

text \<open>\<open>pth\<close> is the source's \<open>abs\<close>; its \<open>slice(0, -1)\<close>, when there is no slash, drops the last character.\<close>

definition relParent :: "string \<Rightarrow> string \<Rightarrow> string" where
  "relParent pth cwd =
     (let d0 = (case lastIndexOf (CHR ''/'') pth of Some i \<Rightarrow> take i pth | None \<Rightarrow> butlast pth);
          dir = (if d0 = [] then ''/'' else d0)
      in if dir = cwd then []
         else let root = (if cwd = ''/'' then ''/'' else cwd @ ''/'')
              in if starts_with root dir then drop (length root) dir else dir)"

section \<open>Labels\<close>

definition toFixed1 :: "real \<Rightarrow> string" where
  "toFixed1 x = (let k = nat \<lfloor>10 * x + 1 / 2\<rfloor> in dec (k div 10) @ ''.'' @ dec (k mod 10))"

text \<open>The \<open>do ... while\<close> of \<open>fmtSize\<close>, from the value of \<open>i\<close> after the increment.\<close>

function size_loop :: "real \<Rightarrow> nat \<Rightarrow> real \<times> nat" where
  "size_loop n i = (let m = n / 1024 in if m \<ge> 1024 \<and> i < 3 then size_loop m (Suc i) else (m, i))"
  by pat_completeness auto
termination size_loop
  by (relation "measure (\<lambda>(_, i). 3 - i)") (auto simp: Let_def)

declare size_loop.simps [simp del]

definition fmtSize :: "nat \<Rightarrow> string" where
  "fmtSize n =
     (if n < 1024 then dec n @ '' B''
      else let (m, i) = size_loop (real n) 0
           in (if m < 10 then toFixed1 m else dec (nat (round m))) @ '' '' @
              [''KB'', ''MB'', ''GB'', ''TB''] ! i)"

text \<open>
  The calendar and the locale are the host's: \<open>exactDate\<close>, \<open>year\<close> and the three
  \<open>toLocaleDateString\<close> forms are parameters, in seconds.
\<close>

record calendar =
  exactDate :: "real \<Rightarrow> string"
  year_of :: "real \<Rightarrow> int"
  monthDay :: "real \<Rightarrow> string"
  shortDate :: "real \<Rightarrow> string"
  longDate :: "real \<Rightarrow> string"

definition fmtRel :: "calendar \<Rightarrow> real \<Rightarrow> bool \<Rightarrow> bool \<Rightarrow> real \<Rightarrow> string" where
  "fmtRel cal ts short exact nowMs =
     (if exact then exactDate cal ts
      else let s = nowMs / 1000 - ts; ago = (if short then '''' else '' ago'')
           in if s < 45 then (if short then ''now'' else ''just now'')
              else if s < 3600 then dec_int (round (s / 60)) @ ''m'' @ ago
              else if s < 86400 then dec_int (round (s / 3600)) @ ''h'' @ ago
              else if s < 86400 * 7 then dec_int (round (s / 86400)) @ ''d'' @ ago
              else if year_of cal ts = year_of cal (nowMs / 1000) then monthDay cal ts
              else if short then shortDate cal ts else longDate cal ts)"

definition fmtMode :: "nat \<Rightarrow> string" where
  "fmtMode mode =
     map (\<lambda>i. if (mode div 2 ^ i) mod 2 = 1 then ''rwx'' ! ((8 - i) mod 3) else CHR ''-'') (rev [0..<9])"

definition nextName :: "string \<Rightarrow> nat \<Rightarrow> string" where
  "nextName name n =
     (case lastIndexOf (CHR ''.'') name of
        Some dot \<Rightarrow> if dot > 0 then take dot name @ '' ('' @ dec n @ '')'' @ drop dot name
                    else name @ '' ('' @ dec n @ '')''
      | None \<Rightarrow> name @ '' ('' @ dec n @ '')'')"

section \<open>Arrow keys\<close>

text \<open>\<open>cols | 0\<close> of a whole number is the number.\<close>

definition gridStep :: "int \<Rightarrow> string \<Rightarrow> int \<Rightarrow> int \<Rightarrow> int" where
  "gridStep i0 key cols0 n =
     (if n \<le> 0 then -1
      else let cols = max 1 cols0
           in if i0 < 0 then 0
              else let i = (if i0 \<ge> n then n - 1 else i0);
                       line = i div cols; lastLine = (n - 1) div cols
                   in if key = ''ArrowLeft'' then max 0 (i - 1)
                      else if key = ''ArrowRight'' then min (n - 1) (i + 1)
                      else if key = ''ArrowUp'' then (if line = 0 then i else i - cols)
                      else if key = ''ArrowDown'' then (if line = lastLine then i else min (n - 1) (i + cols))
                      else i)"

section \<open>Ageing labels and following a file\<close>

record entry =
  en_mtime :: real
  en_isDir :: bool
  en_size :: nat

text \<open>A rendered row: its \<open>dataset.i\<close> and the texts of its two labels, where it has them.\<close>

record row_el =
  data_i :: nat
  mt_text :: "string option"
  meta_text :: "string option"

text \<open>\<open>sep\<close> is the middle dot between spaces.\<close>

definition sep :: string where "sep = [CHR '' '', char_of (183 :: nat), CHR '' '']"

definition meta_label :: "calendar \<Rightarrow> real \<Rightarrow> entry \<Rightarrow> string" where
  "meta_label cal nowMs e =
     fmtRel cal (en_mtime e) True False nowMs @ (if en_isDir e then [] else sep @ fmtSize (en_size e))"

definition set_label :: "string option \<Rightarrow> string \<Rightarrow> string option \<times> nat" where
  "set_label l s = (case l of None \<Rightarrow> (None, 0) | Some t \<Rightarrow> if t \<noteq> s then (Some s, 1) else (Some t, 0))"

definition retick_row :: "calendar \<Rightarrow> real \<Rightarrow> entry list \<Rightarrow> row_el \<Rightarrow> row_el \<times> nat" where
  "retick_row cal nowMs rows el =
     (if data_i el < length rows
      then let e = rows ! data_i el;
               (mt, a) = set_label (mt_text el) (fmtRel cal (en_mtime e) False False nowMs);
               (me, b) = set_label (meta_text el) (meta_label cal nowMs e)
           in (el\<lparr>mt_text := mt, meta_text := me\<rparr>, a + b)
      else (el, 0))"

definition retickRows :: "calendar \<Rightarrow> bool \<Rightarrow> real \<Rightarrow> row_el list \<Rightarrow> entry list \<Rightarrow> row_el list \<times> nat" where
  "retickRows cal exact nowMs els rows =
     (if exact \<or> rows = [] then (els, 0)
      else let rs = map (retick_row cal nowMs rows) els in (map fst rs, sum_list (map snd rs)))"

record watch =
  w_path :: string
  w_mtime :: real
  w_size :: real

record stat_reply =
  d_ok :: bool
  d_stat :: "(real \<times> real) option"

definition previewReload :: "watch option \<Rightarrow> string \<Rightarrow> stat_reply option \<Rightarrow> watch option" where
  "previewReload w0 path d0 =
     (case (w0, d0) of
        (Some w, Some d) \<Rightarrow>
          (case (d_ok d, d_stat d) of
             (True, Some (m, s)) \<Rightarrow>
               if path \<noteq> w_path w then None
               else if m = w_mtime w \<and> s = w_size w then None
               else Some \<lparr>w_path = w_path w, w_mtime = m, w_size = s\<rparr>
           | _ \<Rightarrow> None)
      | _ \<Rightarrow> None)"

text \<open>\<open>mtime\<close> is the number's text, ''0'' where it is missing.\<close>

definition bustUrl :: "string \<Rightarrow> string \<Rightarrow> string" where
  "bustUrl url mtime = url @ (if CHR ''?'' \<notin> set url then ''?'' else ''&'') @ ''v='' @ mtime"

record scroll_box =
  sb_top :: real
  clientH :: real
  scrollH :: real

definition scrollAfterReload :: "scroll_box \<Rightarrow> scroll_box \<Rightarrow> real" where
  "scrollAfterReload before after =
     (let maxTop = max 0 (scrollH after - clientH after)
      in if sb_top before + clientH before \<ge> scrollH before - 4 then maxTop
         else min (sb_top before) maxTop)"

section \<open>Lemmas and properties\<close>

definition seg_ok :: "string \<Rightarrow> bool" where
  "seg_ok s \<longleftrightarrow> s \<noteq> [] \<and> s \<noteq> ''.'' \<and> s \<noteq> ''..'' \<and> CHR ''/'' \<notin> set s"

definition path_of :: "string list \<Rightarrow> string" where
  "path_of segs = ''/'' @ js_join ''/'' segs"

lemma walk_segs_ok:
  "\<forall>s\<in>set out. seg_ok s \<Longrightarrow> \<forall>s\<in>set segs. CHR ''/'' \<notin> set s \<Longrightarrow> \<forall>s\<in>set (walk_segs out segs). seg_ok s"
proof (induction out segs rule: walk_segs.induct)
  case (2 out seg segs)
  have b: "\<forall>s\<in>set (butlast out). seg_ok s" using "2.prems"(1) in_set_butlastD by metis
  have n: "\<forall>s\<in>set segs. CHR ''/'' \<notin> set s" and h: "CHR ''/'' \<notin> set seg" using "2.prems"(2) by simp_all
  show ?case
  proof (cases "seg = [] \<or> seg = ''.''")
    case True
    have "walk_segs out (seg # segs) = walk_segs out segs" by (simp only: walk_segs.simps if_P [OF True])
    then show ?thesis using "2.IH"(1) [OF True "2.prems"(1) n] by (simp only:)
  next
    case dots: False
    show ?thesis
    proof (cases "seg = ''..''")
      case True
      have "walk_segs out (seg # segs) = walk_segs (butlast out) segs"
        by (simp only: walk_segs.simps if_not_P [OF dots] if_P [OF True])
      then show ?thesis using "2.IH"(2) [OF dots True b n] by (simp only:)
    next
      case False
      have "walk_segs out (seg # segs) = walk_segs (out @ [seg]) segs"
        by (simp only: walk_segs.simps if_not_P [OF dots] if_not_P [OF False])
      moreover have "\<forall>s\<in>set (out @ [seg]). seg_ok s"
        using "2.prems"(1) dots False h by (simp add: seg_ok_def)
      ultimately show ?thesis using "2.IH"(3) [OF dots False _ n] by (simp only:)
    qed
  qed
qed simp

lemma walk_segs_append: "walk_segs out (xs @ ys) = walk_segs (walk_segs out xs) ys"
  by (induction out xs rule: walk_segs.induct) simp_all

lemma walk_segs_id: "\<forall>s\<in>set segs. seg_ok s \<Longrightarrow> walk_segs out segs = out @ segs"
  by (induction segs arbitrary: out) (simp_all add: seg_ok_def)

lemma split_path_of:
  "\<forall>s\<in>set segs. seg_ok s \<Longrightarrow> walk_segs [] (js_split (CHR ''/'') (path_of segs)) = segs"
proof (cases "segs = []")
  case False
  assume ok: "\<forall>s\<in>set segs. seg_ok s"
  then have "js_split (CHR ''/'') (js_join ''/'' segs) = segs"
    using False by (intro js_split_join) (simp_all add: seg_ok_def)
  then show ?thesis using walk_segs_id [OF ok, of "[]"] by (simp add: path_of_def)
qed (simp add: path_of_def)

lemma js_split_app: "js_split c (x @ [c] @ s) = js_split c x @ js_split c s"
  by (induction x) (auto split: list.splits)

text \<open>Resolving a path typed by the user. Only a blank input has no path; the result is
  always absolute and canonical (no empty, dot or dot-dot segment, so nothing climbs above the
  root); a canonical path resolves to itself; and a relative input is what walking its segments
  from the folder in view arrives at.\<close>

lemma normPath_canonical:
  assumes "js_trim input \<noteq> []"
  shows "(\<exists>segs. normPath input cwd home = Some (path_of segs) \<and> (\<forall>s\<in>set segs. seg_ok s)) \<and>
    ((\<forall>s\<in>set segs. seg_ok s) \<and> js_trim (path_of segs) = path_of segs \<longrightarrow>
       normPath (path_of segs) cwd home = Some (path_of segs)) \<and>
    ((\<forall>s\<in>set segs. seg_ok s) \<and> take 1 (js_trim input) \<noteq> ''/'' \<and> take 1 (js_trim input) \<noteq> ''~'' \<longrightarrow>
       normPath input (path_of segs) home =
         Some (path_of (walk_segs segs (js_split (CHR ''/'') (js_trim input)))))"
proof (intro conjI impI)
  show "\<exists>segs. normPath input cwd home = Some (path_of segs) \<and> (\<forall>s\<in>set segs. seg_ok s)"
  proof -
    have "\<exists>q. normPath input cwd home = Some (path_of (walk_segs [] (js_split (CHR ''/'') q)))"
      unfolding normPath_def Let_def path_of_def if_not_P [OF assms] by blast
    then show ?thesis using walk_segs_ok [of "[]"] js_split_parts by fastforce
  qed
next
  assume a: "(\<forall>s\<in>set segs. seg_ok s) \<and> js_trim (path_of segs) = path_of segs"
  have "hd (path_of segs) = CHR ''/''" "path_of segs \<noteq> []" "take 1 (path_of segs) = ''/''"
    by (simp_all add: path_of_def)
  then have "normPath (path_of segs) cwd home =
      Some (''/'' @ js_join ''/'' (walk_segs [] (js_split (CHR ''/'') (path_of segs))))"
    using a by (auto simp: normPath_def Let_def path_of_def)
  then show "normPath (path_of segs) cwd home = Some (path_of segs)"
    using split_path_of a by (simp add: path_of_def)
next
  assume a: "(\<forall>s\<in>set segs. seg_ok s) \<and> take 1 (js_trim input) \<noteq> ''/'' \<and> take 1 (js_trim input) \<noteq> ''~''"
  let ?p = "js_trim input"
  have t: "?p \<noteq> ''~''" "take 2 ?p \<noteq> ''~/''" "take 1 ?p \<noteq> ''/''" using a by (cases ?p; simp)+
  define c where "c = (if path_of segs = ''/'' \<or> path_of segs = [] then [] else path_of segs)"
  have n: "normPath input (path_of segs) home =
      Some (''/'' @ js_join ''/'' (walk_segs [] (js_split (CHR ''/'') (c @ ''/'' @ ?p))))"
    using assms t by (simp add: normPath_def Let_def c_def)
  have "walk_segs [] (js_split (CHR ''/'') c) = segs"
  proof (cases "path_of segs = ''/''")
    case True
    then have "segs = []" using a split_path_of [of segs] by simp
    then show ?thesis using True by (simp add: c_def)
  next
    case False
    then have "c = path_of segs" by (simp add: c_def path_of_def)
    then show ?thesis using a split_path_of by simp
  qed
  then show "normPath input (path_of segs) home =
      Some (path_of (walk_segs segs (js_split (CHR ''/'') ?p)))"
    unfolding n js_split_app walk_segs_append by (simp add: path_of_def)
qed

theorem normPath_canonical_witness:
  "normPath '' ../b//./c '' ''/x/y'' ''/root'' = Some ''/x/b/c''"
proof -
  have t: "js_trim '' ../b//./c '' = ''../b//./c''" by (simp add: js_trim_def is_space_def)
  have ok: "\<forall>s\<in>set [''x'', ''y'']. seg_ok s" by (simp add: seg_ok_def)
  show ?thesis
    using normPath_canonical [of "'' ../b//./c ''" "''/''" "''/root''" "[''x'', ''y'']", THEN conjunct2, THEN conjunct2] ok
    unfolding t by (simp add: path_of_def)
qed

text \<open>The arrow keys keep the selection inside the listing: from a selected tile Right and
  Left move by one and hold at the ends; Down always reaches the next line when there is one (the
  last tile when that line is short) and Up undoes it whenever the column exists below; from
  nothing selected any key picks the first tile.\<close>

theorem gridStep_spec:
  assumes "0 < n" and "0 < cols"
  shows "0 \<le> gridStep i key cols n \<and> gridStep i key cols n < n \<and>
    (i < 0 \<longrightarrow> gridStep i key cols n = 0) \<and>
    (0 \<le> i \<and> i < n \<longrightarrow>
       gridStep i ''ArrowRight'' cols n = min (n - 1) (i + 1) \<and>
       gridStep i ''ArrowLeft'' cols n = max 0 (i - 1) \<and>
       (i div cols < (n - 1) div cols \<longrightarrow> gridStep i ''ArrowDown'' cols n div cols = i div cols + 1) \<and>
       (i div cols = (n - 1) div cols \<longrightarrow> gridStep i ''ArrowDown'' cols n = i) \<and>
       (i + cols < n \<longrightarrow> gridStep (gridStep i ''ArrowDown'' cols n) ''ArrowUp'' cols n = i))"
proof -
  have mx: "max 1 cols = cols" using assms by simp
  have up: "i div cols = 0 \<or> cols \<le> i" if "0 \<le> i" for i
    using assms that by (cases "i < cols") simp_all
  have r: "0 \<le> gridStep i key cols n \<and> gridStep i key cols n < n"
    using assms up [of "if i \<ge> n then n - 1 else i"] by (auto simp: gridStep_def Let_def)
  have down: "gridStep i ''ArrowDown'' cols n div cols = i div cols + 1"
    if i: "0 \<le> i" "i < n" and l: "i div cols < (n - 1) div cols" for i
  proof -
    have e: "gridStep i ''ArrowDown'' cols n = min (n - 1) (i + cols)"
      using assms i l by (auto simp: gridStep_def Let_def)
    have a: "(i + cols) div cols = i div cols + 1" using assms by simp
    show ?thesis
    proof (cases "i + cols \<le> n - 1")
      case True
      then have "min (n - 1) (i + cols) = i + cols" by simp
      then show ?thesis unfolding e using a by (simp only:)
    next
      case False
      then have "(n - 1) div cols \<le> (i + cols) div cols" using assms by (intro zdiv_mono1) simp_all
      then have "(n - 1) div cols = i div cols + 1" using l a by linarith
      then show ?thesis unfolding e using False by (simp add: min_def)
    qed
  qed
  have stay: "gridStep i ''ArrowDown'' cols n = i" if "0 \<le> i" "i < n" "i div cols = (n - 1) div cols"
    using assms that by (auto simp: gridStep_def Let_def)
  have undo: "gridStep (gridStep i ''ArrowDown'' cols n) ''ArrowUp'' cols n = i"
    if i: "0 \<le> i" "i + cols < n"
  proof -
    have "(i + cols) div cols \<le> (n - 1) div cols" using assms i by (intro zdiv_mono1) simp_all
    then have l: "i div cols < (n - 1) div cols" using assms by simp
    have e: "gridStep i ''ArrowDown'' cols n = i + cols"
      using assms i l by (auto simp: gridStep_def Let_def)
    have "0 \<le> i div cols" using assms i by (simp add: pos_imp_zdiv_nonneg_iff)
    then have "(i + cols) div cols \<noteq> 0" using assms by simp
    then show ?thesis unfolding e using assms i by (auto simp: gridStep_def Let_def)
  qed
  have rl: "gridStep i ''ArrowRight'' cols n = min (n - 1) (i + 1)" "gridStep i ''ArrowLeft'' cols n = max 0 (i - 1)"
    if "0 \<le> i" "i < n" using that assms by (simp_all add: gridStep_def Let_def)
  have none: "gridStep i key cols n = 0" if "i < 0" using that assms by (simp add: gridStep_def Let_def)
  show ?thesis using r rl none down [of i] stay undo assms by auto
qed

theorem gridStep_spec_witness:
  "gridStep 2 ''ArrowDown'' 3 5 div 3 = (1 :: int) \<and>
   gridStep (gridStep 1 ''ArrowDown'' 3 5) ''ArrowUp'' 3 5 = 1"
  using gridStep_spec [of 5 3 2 "''ArrowDown''"] gridStep_spec [of 5 3 1 "''ArrowDown''"] by simp

text \<open>The permission text reads back as the nine permission bits.\<close>

definition parse_mode :: "string \<Rightarrow> nat" where
  "parse_mode s = foldl (\<lambda>a c. 2 * a + (if c = CHR ''-'' then 0 else 1)) 0 s"

lemma bits_fold:
  "foldl (\<lambda>a i. 2 * a + (m div 2 ^ i) mod 2) a (rev [0..<k]) = a * 2 ^ k + m mod 2 ^ k" for m :: nat
proof (induction k arbitrary: a)
  case 0
  then show ?case by simp
next
  case (Suc k)
  have "m mod 2 ^ Suc k = 2 ^ k * (m div 2 ^ k mod 2) + m mod 2 ^ k"
    using mod_mult2_eq [of m "2 ^ k" 2] by (simp add: mult.commute)
  then show ?case using Suc.IH [of "2 * a + m div 2 ^ k mod 2"] by (simp add: algebra_simps)
qed

text \<open>The permission column loses nothing: the text has nine places and reads back as the low
  nine bits of the mode, so two files show the same text exactly when those bits agree.\<close>

theorem fmtMode_roundtrip:
  "length (fmtMode mode) = 9 \<and> parse_mode (fmtMode mode) = mode mod 512 \<and>
   (fmtMode mode = fmtMode mode' \<longleftrightarrow> mode mod 512 = mode' mod 512)"
proof -
  have rwx: "''rwx'' ! ((8 - i) mod 3) \<noteq> CHR ''-''" for i
  proof -
    have "(8 - i) mod 3 = 0 \<or> (8 - i) mod 3 = 1 \<or> (8 - i) mod 3 = 2" by linarith
    then show ?thesis by (elim disjE) simp_all
  qed
  have p: "parse_mode (fmtMode m) = m mod 512" for m
  proof -
    have "parse_mode (fmtMode m) = foldl (\<lambda>a i. 2 * a + (m div 2 ^ i) mod 2) 0 (rev [0..<9])"
      unfolding parse_mode_def fmtMode_def foldl_map
      by (intro foldl_cong refl) (auto simp: rwx)
    then show ?thesis unfolding bits_fold by simp
  qed
  have same: "fmtMode mode = fmtMode mode'" if "mode mod 512 = mode' mod 512"
  proof -
    have nine: "(2 :: nat) ^ 9 = 512" by simp
    have bits: "(m div 2 ^ i) mod 2 = ((m mod 512) div 2 ^ i) mod 2" if "i < 9" for m i :: nat
    proof -
      have "bit (take_bit 9 m) i = bit m i" using that by (simp add: bit_take_bit_iff)
      then have "odd (take_bit 9 m div 2 ^ i) = odd (m div 2 ^ i)" by (simp only: bit_iff_odd)
      then have "take_bit 9 m div 2 ^ i mod 2 = m div 2 ^ i mod 2" by (simp only: mod_2_eq_odd)
      then show ?thesis by (simp only: take_bit_eq_mod nine)
    qed
    have "(mode div 2 ^ i) mod 2 = (mode' div 2 ^ i) mod 2" if "i < 9" for i
      using bits [OF that, of mode] bits [OF that, of mode'] \<open>mode mod 512 = mode' mod 512\<close> by (simp only:)
    then show ?thesis
      unfolding fmtMode_def
      by (intro map_cong refl) (simp only: set_rev set_upt atLeastLessThan_iff)
  qed
  have "length (fmtMode mode) = 9" by (simp add: fmtMode_def)
  then show ?thesis using p same by metis
qed

text \<open>A name counted up keeps its extension, and two counts never give the same name.\<close>

lemma ext_of_append: "pre \<noteq> [] \<Longrightarrow> CHR ''.'' \<notin> set e \<Longrightarrow> ext_of (pre @ CHR ''.'' # e) = toLowerCase e"
  by (simp add: ext_of_def lastIndexOf_append)

lemma nextName_ext: "ext_of name \<noteq> [] \<Longrightarrow> ext_of (nextName name n) = ext_of name"
proof -
  assume "ext_of name \<noteq> []"
  then obtain d where d: "lastIndexOf (CHR ''.'') name = Some d" "d > 0"
    by (auto simp: ext_of_def split: option.splits if_splits)
  note li = lastIndexOf_Some [OF d(1)]
  have dr: "drop d name = CHR ''.'' # drop (Suc d) name"
    using li Cons_nth_drop_Suc [of d name] by simp
  have "nextName name n = (take d name @ '' ('' @ dec n @ '')'') @ CHR ''.'' # drop (Suc d) name"
    using d dr by (simp add: nextName_def)
  moreover have "take d name @ '' ('' @ dec n @ '')'' \<noteq> []" by simp
  ultimately have "ext_of (nextName name n) = toLowerCase (drop (Suc d) name)"
    using li ext_of_append by metis
  then show ?thesis using d by (simp add: ext_of_def)
qed

lemma nextName_inj: "nextName name m = nextName name n \<Longrightarrow> m = n"
  by (auto simp: nextName_def split: option.splits if_splits dest: dec_inj)

text \<open>Ageing the labels of a listing: afterwards every label that belongs to a row still in the
  listing says what it should say now, the count returned is the number of labels whose text
  changed, nothing else of a row is touched, and a second tick at the same time changes nothing.\<close>

theorem retickRows_fresh:
  "(case retickRows cal False nowMs els rows of (els', n) \<Rightarrow>
     map data_i els' = map data_i els \<and>
     (\<forall>el\<in>set els'. data_i el < length rows \<longrightarrow>
        mt_text el \<in> {None, Some (fmtRel cal (en_mtime (rows ! data_i el)) False False nowMs)} \<and>
        meta_text el \<in> {None, Some (meta_label cal nowMs (rows ! data_i el))}) \<and>
     n = length (filter (\<lambda>(a, b). mt_text a \<noteq> mt_text b) (zip els els')) +
         length (filter (\<lambda>(a, b). meta_text a \<noteq> meta_text b) (zip els els')) \<and>
     retickRows cal False nowMs els' rows = (els', 0))"
proof -
  let ?f = "retick_row cal nowMs rows"
  have i: "data_i (fst (?f el)) = data_i el" for el
    by (simp add: retick_row_def Let_def split: prod.split)
  have fresh: "data_i el < length rows \<longrightarrow>
        mt_text (fst (?f el)) \<in> {None, Some (fmtRel cal (en_mtime (rows ! data_i el)) False False nowMs)} \<and>
        meta_text (fst (?f el)) \<in> {None, Some (meta_label cal nowMs (rows ! data_i el))}" for el
    by (auto simp: retick_row_def set_label_def Let_def split: option.splits if_splits)
  have cnt: "snd (?f el) = (if mt_text el \<noteq> mt_text (fst (?f el)) then 1 else 0) +
       (if meta_text el \<noteq> meta_text (fst (?f el)) then 1 else 0)" for el
    by (auto simp: retick_row_def set_label_def Let_def split: option.splits if_splits)
  have again: "?f (fst (?f el)) = (fst (?f el), 0)" for el
    by (auto simp: retick_row_def set_label_def Let_def split: option.splits if_splits)
  have n: "sum_list (map (snd \<circ> ?f) els) =
      length (filter (\<lambda>(a, b). mt_text a \<noteq> mt_text b) (zip els (map (fst \<circ> ?f) els))) +
      length (filter (\<lambda>(a, b). meta_text a \<noteq> meta_text b) (zip els (map (fst \<circ> ?f) els)))"
    by (induction els) (simp_all add: cnt)
  have z: "sum_list (map (snd \<circ> ?f) (map (fst \<circ> ?f) els)) = 0" by (simp add: again)
  have m: "map (fst \<circ> ?f) (map (fst \<circ> ?f) els) = map (fst \<circ> ?f) els" by (simp add: again)
  show ?thesis
  proof (cases "rows = []")
    case True
    then show ?thesis by (induction els) (simp_all add: retickRows_def)
  next
    case False
    then have e: "retickRows cal False nowMs es rows = (map (fst \<circ> ?f) es, sum_list (map (snd \<circ> ?f) es))" for es
      by (simp add: retickRows_def Let_def)
    have "\<forall>el\<in>set (map (fst \<circ> ?f) els). data_i el < length rows \<longrightarrow>
        mt_text el \<in> {None, Some (fmtRel cal (en_mtime (rows ! data_i el)) False False nowMs)} \<and>
        meta_text el \<in> {None, Some (meta_label cal nowMs (rows ! data_i el))}"
      using fresh i by auto
    then show ?thesis unfolding e prod.case n m z using i by simp
  qed
qed

section \<open>Two corners of the labels\<close>

text \<open>A size just below the next unit is rounded up to 1024 of the smaller one.\<close>

lemma fmtSize_rounds_to_1024: "fmtSize 1048064 = ''1024 KB''"
proof -
  have l: "size_loop 1048064 0 = (2047 / 2, 0)" by (subst size_loop.simps) simp
  have "round (2047 / 2 :: real) = 1024" unfolding round_def by simp
  moreover have "dec 1024 = ''1024''" by code_simp
  ultimately show ?thesis by (simp add: fmtSize_def l)
qed

text \<open>A file whose extension is the name of an inherited property has no label.\<close>

lemma kindOf_inherited: "kindOf ''a.constructor'' False = InheritedValue ''constructor''"
proof -
  have "ext_of ''a.constructor'' = ''constructor''"
    by (simp add: ext_of_def toLowerCase_def lower_char_def)
  then show ?thesis unfolding kindOf_def by (simp add: KIND_MAP_def)
qed

end
