(* ===== verification/LocalStorage.thy ===== *)
theory LocalStorage
  imports JsStr
begin

text \<open>
  The browser's \<open>localStorage\<close> as the components use it: cells by key, where reading and writing
  may each throw (private mode, a full quota). The contents of a cell are a type of the component
  that owns it. The interface \<open>web_storage\<close> states what the components rely on.
\<close>

record 'v storage =
  ls_cells :: "string \<Rightarrow> 'v option"
  ls_reads :: bool
  ls_writes :: bool

text \<open>\<open>getItem\<close>: \<open>None\<close> when it throws, \<open>Some None\<close> for null.\<close>

definition getItem :: "'v storage \<Rightarrow> string \<Rightarrow> 'v option option" where
  "getItem st k = (if ls_reads st then Some (ls_cells st k) else None)"

text \<open>\<open>try { setItem } catch {}\<close>, and the same for \<open>removeItem\<close>.\<close>

definition setItem :: "string \<Rightarrow> 'v \<Rightarrow> 'v storage \<Rightarrow> 'v storage" where
  "setItem k v st = (if ls_writes st then st\<lparr>ls_cells := (ls_cells st)(k := Some v)\<rparr> else st)"

definition removeItem :: "string \<Rightarrow> 'v storage \<Rightarrow> 'v storage" where
  "removeItem k st = (if ls_writes st then st\<lparr>ls_cells := (ls_cells st)(k := None)\<rparr> else st)"

section \<open>The interface\<close>

locale web_storage =
  fixes get :: "'s \<Rightarrow> 'k \<Rightarrow> 'v option option"
    and put :: "'k \<Rightarrow> 'v \<Rightarrow> 's \<Rightarrow> 's"
    and del :: "'k \<Rightarrow> 's \<Rightarrow> 's"
    and working :: "'s \<Rightarrow> bool"
  assumes get_works: "working s \<Longrightarrow> get s k \<noteq> None"
    and get_put: "working s \<Longrightarrow> get (put k v s) k' = (if k' = k then Some (Some v) else get s k')"
    and get_del: "working s \<Longrightarrow> get (del k s) k' = (if k' = k then Some None else get s k')"
    and put_works: "working (put k v s) = working s"
    and del_works: "working (del k s) = working s"
begin

lemma get_put_same: "working s \<Longrightarrow> get (put k v s) k = Some (Some v)"
  by (simp add: get_put)

lemma get_put_other: "working s \<Longrightarrow> k' \<noteq> k \<Longrightarrow> get (put k v s) k' = get s k'"
  by (simp add: get_put)

lemma get_del_same: "working s \<Longrightarrow> get (del k s) k = Some None"
  by (simp add: get_del)

lemma get_del_other: "working s \<Longrightarrow> k' \<noteq> k \<Longrightarrow> get (del k s) k' = get s k'"
  by (simp add: get_del)

lemma del_all_works: "working (fold del ks s) = working s"
  by (induction ks arbitrary: s) (simp_all add: del_works)

lemma get_del_all: "working s \<Longrightarrow> get (fold del ks s) k = (if k \<in> set ks then Some None else get s k)"
  by (induction ks arbitrary: s) (auto simp: get_del del_works)

end

definition ls_working :: "'v storage \<Rightarrow> bool" where
  "ls_working st \<longleftrightarrow> ls_reads st \<and> ls_writes st"

interpretation ls: web_storage getItem setItem removeItem ls_working
  by unfold_locales (auto simp: getItem_def setItem_def removeItem_def ls_working_def)

lemmas ls_rules = ls.get_put_same ls.get_put_other ls.get_del_same ls.get_del_other
  ls.put_works ls.del_works

lemma ls_broken:
  "\<not> ls_writes st \<Longrightarrow> setItem k v st = st" "\<not> ls_writes st \<Longrightarrow> removeItem k st = st"
  "\<not> ls_reads st \<Longrightarrow> getItem st k = None"
  by (simp_all add: setItem_def removeItem_def getItem_def)

end
