(* ===== verification/GameScore.thy ===== *)
theory GameScore
  imports LocalStorage
begin

text \<open>
  \<^verbatim>\<open>shared/gamescore.js\<close>: the best-scores table and the statistics every game shares, kept in
  \<open>localStorage\<close>. Scores, times and counts are whole numbers, as the games record them. The JSON
  text of a cell is modelled by what it parses to; a row of a board that is not an object with a
  finite number \<open>v\<close> is \<open>None\<close>. The clock is a parameter.
\<close>

section \<open>Stored data\<close>

record score_entry =
  se_v :: int
  se_t :: int
  se_s :: "string option"

record stats =
  st_n :: int
  st_w :: int
  st_cur :: int
  st_best :: int
  st_x :: "string \<Rightarrow> int option"

type_synonym board_rows = "score_entry option list"

text \<open>\<open>Text\<close> is any text that is not a JSON object: a legacy best or the seeded marker.\<close>

datatype cell = Text string | Scores "string \<Rightarrow> board_rows option" | Stats "string \<Rightarrow> stats option"

definition KEEP :: nat where "KEEP = 10"
definition SHOW :: nat where "SHOW = 3"
definition PFX :: string where "PFX = ''vibetop:scores:''"
definition SPFX :: string where "SPFX = ''vibetop:stats:''"

text \<open>\<open>readKey\<close> gives an empty object for a missing, unreadable or malformed cell.\<close>

definition read :: "cell storage \<Rightarrow> string \<Rightarrow> string \<Rightarrow> board_rows option" where
  "read st game = (case getItem st (PFX @ game) of Some (Some (Scores all)) \<Rightarrow> all | _ \<Rightarrow> Map.empty)"

definition readStats :: "cell storage \<Rightarrow> string \<Rightarrow> string \<Rightarrow> stats option" where
  "readStats st game = (case getItem st (SPFX @ game) of Some (Some (Stats all)) \<Rightarrow> all | _ \<Rightarrow> Map.empty)"

definition write_scores :: "string \<Rightarrow> (string \<Rightarrow> board_rows option) \<Rightarrow> cell storage \<Rightarrow> cell storage" where
  "write_scores game all st = setItem (PFX @ game) (Scores all) st"

definition writeStats :: "string \<Rightarrow> (string \<Rightarrow> stats option) \<Rightarrow> cell storage \<Rightarrow> cell storage" where
  "writeStats game all st = setItem (SPFX @ game) (Stats all) st"

definition num :: "int \<Rightarrow> int" where "num v = (if v > 0 then v else 0)"

definition no_stats :: stats where
  "no_stats = \<lparr>st_n = 0, st_w = 0, st_cur = 0, st_best = 0, st_x = Map.empty\<rparr>"

definition statsOf :: "cell storage \<Rightarrow> string \<Rightarrow> string \<Rightarrow> stats" where
  "statsOf st game board =
     (let s = (case readStats st game board of None \<Rightarrow> no_stats | Some s \<Rightarrow> s)
      in \<lparr>st_n = num (st_n s), st_w = num (st_w s), st_cur = num (st_cur s), st_best = num (st_best s),
          st_x = st_x s\<rparr>)"

section \<open>The table\<close>

text \<open>
  The comparator orders by value, then by age. Sorting by it is the library's stable sort by this
  key.
\<close>

definition rank_key :: "bool \<Rightarrow> score_entry \<Rightarrow> int \<times> int" where
  "rank_key lower e = (if lower then se_v e else - se_v e, se_t e)"

record options =
  o_game :: string
  o_board :: string
  o_value :: int
  o_lower :: bool
  o_session :: "string option"
  o_seed :: "string option"

text \<open>\<open>parseInt(text, 10) || 0\<close>: JSON text starts with a brace, which is no number.\<close>

definition legacy_best :: "cell storage \<Rightarrow> string \<Rightarrow> int" where
  "legacy_best st seed =
     (case getItem st seed of Some (Some (Text t)) \<Rightarrow> (case parseInt10 t of Some v \<Rightarrow> v | None \<Rightarrow> 0)
      | _ \<Rightarrow> 0)"

definition mark_of :: "string \<Rightarrow> string" where
  "mark_of game = PFX @ game @ '':seeded''"

definition rows_of :: "(string \<Rightarrow> board_rows option) \<Rightarrow> string \<Rightarrow> board_rows" where
  "rows_of all board = (case all board of None \<Rightarrow> [] | Some l \<Rightarrow> l)"

definition import_best :: "options \<Rightarrow> string \<Rightarrow> cell storage \<Rightarrow> cell storage" where
  "import_best opts seed st =
     (let all = read st (o_game opts); list = rows_of all (o_board opts); v = legacy_best st seed;
          st1 = (if list = [] \<and> v > 0
                 then write_scores (o_game opts)
                        (all(o_board opts := Some [Some \<lparr>se_v = v, se_t = 0, se_s = None\<rparr>])) st
                 else st)
      in setItem (mark_of (o_game opts)) (Text ''1'') st1)"

definition migrate :: "options \<Rightarrow> cell storage \<Rightarrow> cell storage" where
  "migrate opts st =
     (case o_seed opts of
        None \<Rightarrow> st
      | Some seed \<Rightarrow>
          if seed = [] then st
          else (case getItem st (mark_of (o_game opts)) of
                  None \<Rightarrow> st
                | Some None \<Rightarrow> import_best opts seed st
                | Some (Some m) \<Rightarrow> if m = Text [] then import_best opts seed st else st))"

definition valid_rows :: "board_rows \<Rightarrow> score_entry list" where
  "valid_rows rows = map the (filter (\<lambda>r. r \<noteq> None) rows)"

definition listOf :: "options \<Rightarrow> cell storage \<Rightarrow> score_entry list \<times> cell storage" where
  "listOf opts st0 =
     (let st = migrate opts st0; list = valid_rows (rows_of (read st (o_game opts)) (o_board opts))
      in (sort_key (rank_key (o_lower opts)) list, st))"

text \<open>
  The rows other than this run's: those of the same session and an undated duplicate go. An empty
  session string counts as none.
\<close>

definition session_of :: "options \<Rightarrow> string option" where
  "session_of opts = (case o_session opts of Some s \<Rightarrow> if s = [] then None else Some s | None \<Rightarrow> None)"

definition other_rows :: "options \<Rightarrow> score_entry list \<Rightarrow> score_entry list" where
  "other_rows opts list =
     filter (\<lambda>e. \<not> (se_t e = 0 \<and> se_v e = o_value opts))
       (filter (\<lambda>e. session_of opts = None \<or> se_s e \<noteq> session_of opts) list)"

definition new_entry :: "options \<Rightarrow> int \<Rightarrow> score_entry" where
  "new_entry opts now = \<lparr>se_v = o_value opts, se_t = now, se_s = session_of opts\<rparr>"

text \<open>
  \<open>list.indexOf(entry)\<close> looks for the object just pushed, so the pushed row is marked while the
  list is sorted and cut.
\<close>

fun index_from :: "nat \<Rightarrow> (score_entry \<times> bool) list \<Rightarrow> nat" where
  "index_from i [] = 0"
| "index_from i ((e, new) # es) = (if new then Suc i else index_from (Suc i) es)"

record recorded =
  r_rank :: nat
  r_entry :: "score_entry option"
  r_list :: "score_entry list"

definition record_score :: "options \<Rightarrow> int \<Rightarrow> cell storage \<Rightarrow> recorded \<times> cell storage" where
  "record_score opts now st0 =
     (let st = migrate opts st0;
          all = read st (o_game opts);
          list = other_rows opts (valid_rows (rows_of all (o_board opts)));
          entry = new_entry opts now;
          marked = map (\<lambda>e. (e, False)) list @ [(entry, True)];
          kept = take KEEP (sort_key (\<lambda>p. rank_key (o_lower opts) (fst p)) marked);
          final = map fst kept;
          rank = index_from 0 kept
      in (\<lparr>r_rank = rank, r_entry = (if rank = 0 then None else Some entry), r_list = final\<rparr>,
          write_scores (o_game opts) (all(o_board opts := Some (map Some final))) st))"

section \<open>Statistics\<close>

text \<open>One field of \<open>extra\<close>; \<open>None\<close> is a value that is not a finite number.\<close>

definition merge_extra :: "string \<times> int option \<Rightarrow> (string \<Rightarrow> int option) \<Rightarrow> string \<Rightarrow> int option" where
  "merge_extra kv x =
     (case snd kv of None \<Rightarrow> x
      | Some v \<Rightarrow> if num (case x (fst kv) of None \<Rightarrow> 0 | Some old \<Rightarrow> old) > v then x else x(fst kv := Some v))"

definition finish ::
  "string \<Rightarrow> string \<Rightarrow> bool \<Rightarrow> (string \<times> int option) list \<Rightarrow> cell storage \<Rightarrow> stats \<times> cell storage" where
  "finish game board won extra st =
     (let all = readStats st game;
          s0 = statsOf st game board;
          s1 = s0\<lparr>st_n := st_n s0 + 1\<rparr>;
          s2 = (if won then (let s = s1\<lparr>st_w := st_w s1 + 1, st_cur := st_cur s1 + 1\<rparr>
                             in if st_cur s > st_best s then s\<lparr>st_best := st_cur s\<rparr> else s)
                else s1\<lparr>st_cur := 0\<rparr>);
          s3 = s2\<lparr>st_x := fold merge_extra extra (st_x s2)\<rparr>
      in (s3, writeStats game (all(board := Some s3)) st))"

definition reset :: "string \<Rightarrow> string list \<Rightarrow> cell storage \<Rightarrow> cell storage" where
  "reset game seeds st =
     fold removeItem ([PFX @ game, PFX @ game @ '':seeded'', SPFX @ game] @ seeds) st"

section \<open>What the cards show\<close>

definition isMe :: "score_entry \<Rightarrow> score_entry option \<Rightarrow> bool" where
  "isMe e hl =
     (case hl of None \<Rightarrow> False
      | Some h \<Rightarrow> (case se_s h of
          Some s \<Rightarrow> if s \<noteq> [] then se_s e = Some s else se_v e = se_v h \<and> se_t e = se_t h
        | None \<Rightarrow> se_v e = se_v h \<and> se_t e = se_t h))"

text \<open>The local calendar: midnight of a time's day in milliseconds, its month (1..12) and day.\<close>

record local_time =
  midnight :: "int \<Rightarrow> int"
  month_of :: "int \<Rightarrow> nat"
  day_of :: "int \<Rightarrow> nat"

definition fmtDate :: "local_time \<Rightarrow> int \<Rightarrow> int \<Rightarrow> string" where
  "fmtDate cal now t =
     (if t = 0 then []
      else let diff = round ((real_of_int (midnight cal now) - real_of_int (midnight cal t)) / 86400000)
           in if diff \<le> 0 then ''today''
              else if diff = 1 then ''yesterday''
              else if diff < 7 then dec_int diff @ ''d ago''
              else dec (month_of cal t) @ ''/'' @ dec (day_of cal t))"

record shown_row =
  sr_rank :: nat
  sr_value :: string
  sr_date :: string
  sr_me :: bool

text \<open>\<open>fmtVal\<close> with the unit suffix (the games pass no \<open>fmt\<close> to a card).\<close>

definition fmtVal :: "string \<Rightarrow> int \<Rightarrow> string" where
  "fmtVal unit v = dec_int v @ unit"

definition render ::
  "local_time \<Rightarrow> int \<Rightarrow> options \<Rightarrow> string \<Rightarrow> score_entry option \<Rightarrow> cell storage \<Rightarrow> shown_row list \<times> cell storage" where
  "render cal now opts unit highlight st0 =
     (let (list, st) = listOf opts st0
      in (map (\<lambda>(i, e). let me = isMe e highlight
                         in \<lparr>sr_rank = i + 1, sr_value = fmtVal unit (se_v e),
                             sr_date = (if me then ''just now'' else fmtDate cal now (se_t e)), sr_me = me\<rparr>)
              (enumerate 0 (take SHOW list)), st))"

section \<open>The leaderboard panel\<close>

datatype chip = Num int | Txt string | Dash

definition pct :: "int \<Rightarrow> int \<Rightarrow> chip" where
  "pct w n = (if n \<noteq> 0 then Txt (dec_int (round (real_of_int (w * 100) / real_of_int n)) @ ''%'') else Dash)"

definition pad2 :: "int \<Rightarrow> string" where
  "pad2 n = (if n < 10 then ''0'' else []) @ dec_int n"

definition capitalise :: "string \<Rightarrow> string" where
  "capitalise b = toUpperCase (take 1 b) @ drop 1 b"

text \<open>\<open>x || dash\<close> of an extra field: 0 and a missing field are falsy.\<close>

definition extra_chip :: "(int \<Rightarrow> chip) \<Rightarrow> int option \<Rightarrow> chip" where
  "extra_chip f x = (case x of None \<Rightarrow> Dash | Some v \<Rightarrow> if v = 0 then Dash else f v)"

record spec =
  sp_lower :: bool
  sp_seed :: "string option"
  sp_fmt :: "int \<Rightarrow> string"
  sp_head :: "string \<Rightarrow> string"
  sp_empty :: "string \<Rightarrow> string"
  sp_stats :: "stats \<Rightarrow> (string \<times> chip) list"

definition dot_sep :: string where "dot_sep = [CHR '' '', char_of (183 :: nat), CHR '' '']"

definition mine_spec :: spec where
  "mine_spec = \<lparr>sp_lower = True, sp_seed = None, sp_fmt = (\<lambda>v. dec_int v @ ''s''),
     sp_head = (\<lambda>b. ''Fastest times'' @ dot_sep @ capitalise b),
     sp_empty = (\<lambda>b. ''No cleared game yet on '' @ b @ ''.''),
     sp_stats = (\<lambda>s. [(''Played'', Num (st_n s)), (''Won'', Num (st_w s)), (''Win rate'', pct (st_w s) (st_n s)),
                     (''Streak'', Num (st_cur s)), (''Best streak'', Num (st_best s))])\<rparr>"

definition sol_spec :: spec where
  "sol_spec = \<lparr>sp_lower = True, sp_seed = None, sp_fmt = (\<lambda>v. dec_int v @ '' moves''),
     sp_head = (\<lambda>_. ''Fewest moves''), sp_empty = (\<lambda>_. ''No solved deal yet.''),
     sp_stats = (\<lambda>s. [(''Deals'', Num (st_n s)), (''Solved'', Num (st_w s)), (''Win rate'', pct (st_w s) (st_n s)),
                     (''Best streak'', Num (st_best s))])\<rparr>"

definition g2048_spec :: spec where
  "g2048_spec = \<lparr>sp_lower = False, sp_seed = Some ''vt-2048-best'', sp_fmt = dec_int,
     sp_head = (\<lambda>_. ''Highest scores''), sp_empty = (\<lambda>_. ''No score yet.''),
     sp_stats = (\<lambda>s. [(''Games'', Num (st_n s)), (''Best tile'', extra_chip Num (st_x s ''tile'')),
                     (''Reached 2048'', Num (st_w s))])\<rparr>"

definition circuit_spec :: spec where
  "circuit_spec = \<lparr>sp_lower = False, sp_seed = Some ''vibetop:circuit:best'', sp_fmt = dec_int,
     sp_head = (\<lambda>_. ''Highest scores''), sp_empty = (\<lambda>_. ''No score yet.''),
     sp_stats = (\<lambda>s. [(''Runs'', Num (st_n s)),
                     (''Furthest sector'', extra_chip (\<lambda>v. Txt (pad2 v)) (st_x s ''sector'')),
                     (''Cleared'', Num (st_w s))])\<rparr>"

definition rts_spec :: spec where
  "rts_spec = \<lparr>sp_lower = True, sp_seed = None,
     sp_fmt = (\<lambda>v. dec_int (v div 60) @ '':'' @ (if js_rem v 60 < 10 then ''0'' else []) @ dec_int (js_rem v 60)),
     sp_head = (\<lambda>b. ''Fastest wins'' @ dot_sep @ capitalise b),
     sp_empty = (\<lambda>b. ''No win on '' @ b @ '' yet.''),
     sp_stats = (\<lambda>s. [(''Matches'', Num (st_n s)), (''Won'', Num (st_w s)), (''Win rate'', pct (st_w s) (st_n s)),
                     (''Streak'', Num (st_cur s)), (''Best streak'', Num (st_best s))])\<rparr>"

definition SPEC :: "(string \<times> spec) list" where
  "SPEC = [(''mine'', mine_spec), (''sol'', sol_spec), (''2048'', g2048_spec), (''circuit'', circuit_spec),
           (''rts'', rts_spec)]"

definition seedOf :: "string \<Rightarrow> string list" where
  "seedOf game = (case map_of SPEC game of
      Some g \<Rightarrow> (case sp_seed g of Some s \<Rightarrow> [s] | None \<Rightarrow> [])
    | None \<Rightarrow> [])"

text \<open>A drawn row: its rank, value and date, and whether it has a podium class.\<close>

record drawn =
  dr_chips :: "(string \<times> chip) list"
  dr_head :: string
  dr_rows :: "(nat \<times> string \<times> string \<times> bool) list"
  dr_empty :: "string option"

definition panel :: "local_time \<Rightarrow> int \<Rightarrow> string \<Rightarrow> string \<Rightarrow> cell storage \<Rightarrow> (drawn \<times> cell storage) option" where
  "panel cal now game board st0 =
     (case map_of SPEC game of
        None \<Rightarrow> None
      | Some g \<Rightarrow>
         (let chips = sp_stats g (statsOf st0 game board);
              (list, st) = listOf \<lparr>o_game = game, o_board = board, o_value = 0, o_lower = sp_lower g,
                                   o_session = None, o_seed = sp_seed g\<rparr> st0
          in Some (if list = []
                   then (\<lparr>dr_chips = chips, dr_head = sp_head g board, dr_rows = [], dr_empty = Some (sp_empty g board)\<rparr>, st)
                   else (\<lparr>dr_chips = chips, dr_head = sp_head g board,
                          dr_rows = map (\<lambda>(i, e). (i + 1, sp_fmt g (se_v e), fmtDate cal now (se_t e), i < 3)) (enumerate 0 list),
                          dr_empty = None\<rparr>, st))))"

end
