(* ===== verification/GameProps.thy ===== *)
theory GameProps
  imports GameScore
begin

text \<open>
  What the best-scores table and the statistics of \<open>GameScore\<close> guarantee. The lemmas on keys and
  cells rest on the \<open>web_storage\<close> interface; the properties follow.
\<close>

section \<open>Cells\<close>

lemma key_simps [simp]:
  "PFX @ g = PFX @ g' \<longleftrightarrow> g = g'" "SPFX @ g = SPFX @ g' \<longleftrightarrow> g = g'"
  "PFX @ g \<noteq> SPFX @ g'" "SPFX @ g \<noteq> PFX @ g'"
  by (simp_all add: PFX_def SPFX_def)

lemma mark_key: "mark_of g = PFX @ g'' \<longleftrightarrow> g'' = g @ '':seeded''" "mark_of g \<noteq> SPFX @ g'"
  by (auto simp: mark_of_def)

definition scores_in :: "cell \<Rightarrow> string \<Rightarrow> board_rows option" where
  "scores_in c = (case c of Scores all \<Rightarrow> all | _ \<Rightarrow> Map.empty)"

lemma read_setItem:
  "read (setItem k v st) g =
     (if ls_writes st \<and> ls_reads st \<and> k = PFX @ g then scores_in v else read st g)"
  by (cases v) (auto simp: read_def setItem_def getItem_def scores_in_def)

lemma read_removeItem:
  "read (removeItem k st) g = (if ls_writes st \<and> k = PFX @ g then Map.empty else read st g)"
  by (auto simp: read_def removeItem_def getItem_def fun_eq_iff)

lemma readStats_setItem_Stats:
  "ls_working st \<Longrightarrow> readStats (writeStats g all st) g' = (if g' = g then all else readStats st g')"
  by (auto simp: readStats_def writeStats_def ls.get_put)

lemma readStats_write_scores [simp]: "readStats (write_scores g all st) g' = readStats st g'"
  by (auto simp: readStats_def write_scores_def setItem_def getItem_def)

lemma read_write_scores:
  "ls_working st \<Longrightarrow> read (write_scores g all st) g' = (if g' = g then all else read st g')"
  by (auto simp: read_setItem write_scores_def ls_working_def scores_in_def)

lemma migrate_works [simp]: "ls_working (migrate opts st) = ls_working st"
  by (auto simp: migrate_def import_best_def write_scores_def Let_def ls.put_works split: option.splits)

section \<open>Sorting and cutting\<close>

lemma map_insort_key: "map g (insort_key (\<lambda>p. f (g p)) x xs) = insort_key f (g x) (map g xs)"
  by (induction xs) simp_all

lemma map_sort_key: "map g (sort_key (\<lambda>p. f (g p)) xs) = sort_key f (map g xs)"
  by (induction xs) (simp_all add: map_insort_key)

lemma index_from_pos:
  "index_from i ps \<noteq> 0 \<Longrightarrow> i < index_from i ps \<and> index_from i ps - Suc i < length ps \<and>
     snd (ps ! (index_from i ps - Suc i))"
proof (induction i ps rule: index_from.induct)
  case (2 i e new es)
  show ?case
  proof (cases new)
    case False
    then have *: "Suc i < index_from (Suc i) es \<and> index_from (Suc i) es - Suc (Suc i) < length es \<and>
        snd (es ! (index_from (Suc i) es - Suc (Suc i)))" using 2 by simp
    then obtain k where k: "index_from (Suc i) es = Suc (Suc (i + k))"
      by (metis Suc_lessE add_Suc_right less_iff_Suc_add add_Suc)
    then show ?thesis using * False by simp
  qed simp
qed simp

lemma index_from_zero: "index_from i ps = 0 \<Longrightarrow> \<forall>p\<in>set ps. \<not> snd p"
  by (induction i ps rule: index_from.induct) (auto split: if_splits)

text \<open>The table as a list: the other rows and the new one, ranked and cut.\<close>

definition ranked :: "options \<Rightarrow> int \<Rightarrow> score_entry list \<Rightarrow> score_entry list" where
  "ranked opts now others = sort_key (rank_key (o_lower opts)) (others @ [new_entry opts now])"

definition others_in :: "options \<Rightarrow> cell storage \<Rightarrow> score_entry list" where
  "others_in opts st =
     other_rows opts (valid_rows (rows_of (read (migrate opts st) (o_game opts)) (o_board opts)))"

definition marked_table :: "options \<Rightarrow> int \<Rightarrow> score_entry list \<Rightarrow> (score_entry \<times> bool) list" where
  "marked_table opts now others =
     sort_key (\<lambda>p. rank_key (o_lower opts) (fst p)) (map (\<lambda>e. (e, False)) others @ [(new_entry opts now, True)])"

lemma marked_ranked: "map fst (marked_table opts now others) = ranked opts now others"
  unfolding marked_table_def ranked_def map_sort_key [of fst] by (simp add: comp_def)

lemma record_unfold:
  "record_score opts now st =
     (let kept = take KEEP (marked_table opts now (others_in opts st)); rank = index_from 0 kept;
          final = take KEEP (ranked opts now (others_in opts st))
      in (\<lparr>r_rank = rank, r_entry = (if rank = 0 then None else Some (new_entry opts now)), r_list = final\<rparr>,
          write_scores (o_game opts)
            ((read (migrate opts st) (o_game opts))(o_board opts := Some (map Some final))) (migrate opts st)))"
  unfolding record_score_def others_in_def Let_def marked_ranked [symmetric]
  by (simp add: marked_table_def take_map)

lemma valid_rows_Some [simp]: "valid_rows (map Some l) = l"
  by (simp add: valid_rows_def comp_def)

lemma sorted_cut:
  "sorted (map f xs) \<Longrightarrow> x \<in> set (drop n xs) \<Longrightarrow> y \<in> set (take n xs) \<Longrightarrow> f y \<le> f x"
proof -
  assume s: "sorted (map f xs)" and x: "x \<in> set (drop n xs)" and y: "y \<in> set (take n xs)"
  have "sorted (map f (take n xs) @ map f (drop n xs))" using s by (simp flip: map_append)
  then have "\<forall>a\<in>set (map f (take n xs)). \<forall>b\<in>set (map f (drop n xs)). a \<le> b"
    unfolding sorted_append by blast
  then show "f y \<le> f x" using x y by simp
qed

section \<open>Properties\<close>

text \<open>Recording a run: the stored board is ranked and has at most ten rows; it is made of the
  run and the rows of other runs, and what is cut ranks no better than anything kept; the rank
  returned is the position of the run in it, or 0 when ten rows that rank no worse keep it out;
  other boards, other games and the statistics are as they were.\<close>

lemma record_keeps_ten_best:
  assumes "ls_working st"
  shows "let (r, st') = record_score opts now st; m = migrate opts st; k = rank_key (o_lower opts)
    in valid_rows (rows_of (read st' (o_game opts)) (o_board opts)) = r_list r \<and>
       sorted (map k (r_list r)) \<and> length (r_list r) = min 10 (Suc (length (others_in opts st))) \<and>
       (\<exists>cut. mset (r_list r) + mset cut = add_mset (new_entry opts now) (mset (others_in opts st)) \<and>
          (\<forall>x\<in>set cut. \<forall>y\<in>set (r_list r). k y \<le> k x)) \<and>
       (if r_rank r = 0 then length (r_list r) = 10 \<and> (\<forall>y\<in>set (r_list r). k y \<le> k (new_entry opts now))
        else r_rank r \<le> length (r_list r) \<and> r_list r ! (r_rank r - 1) = new_entry opts now) \<and>
       (\<forall>b. b \<noteq> o_board opts \<longrightarrow> read st' (o_game opts) b = read m (o_game opts) b) \<and>
       (\<forall>g. g \<noteq> o_game opts \<longrightarrow> read st' g = read m g) \<and> readStats st' = readStats m"
proof -
  let ?o = "others_in opts st" and ?k = "rank_key (o_lower opts)" and ?e = "new_entry opts now"
  let ?all = "ranked opts now ?o" and ?mk = "marked_table opts now ?o"
  let ?rank = "index_from 0 (take KEEP ?mk)"
  have w: "ls_working (migrate opts st)" using assms by simp
  have sorted: "sorted (map ?k ?all)" by (simp add: ranked_def)
  have mset: "mset ?all = add_mset ?e (mset ?o)" by (simp add: ranked_def)
  have cut: "\<forall>x\<in>set (drop KEEP ?all). \<forall>y\<in>set (take KEEP ?all). ?k y \<le> ?k x"
    using sorted_cut [OF sorted] by blast
  have len: "length (take KEEP ?all) = min 10 (Suc (length ?o))" by (simp add: ranked_def KEEP_def)
  have msets: "mset (take KEEP ?all) + mset (drop KEEP ?all) = add_mset ?e (mset ?o)"
    using mset by (metis append_take_drop_id mset_append)
  have tk: "take KEEP ?all = map fst (take KEEP ?mk)" by (simp add: marked_ranked [symmetric] take_map)
  have mem: "p \<in> set ?mk \<Longrightarrow> snd p \<Longrightarrow> fst p = ?e" for p by (auto simp: marked_table_def)
  have rank: "if ?rank = 0 then length (take KEEP ?all) = 10 \<and> (\<forall>y\<in>set (take KEEP ?all). ?k y \<le> ?k ?e)
      else ?rank \<le> length (take KEEP ?all) \<and> take KEEP ?all ! (?rank - 1) = ?e"
  proof (cases "?rank = 0")
    case True
    then have "\<forall>p\<in>set (take KEEP ?mk). \<not> snd p" by (rule index_from_zero)
    then have "(?e, True) \<notin> set (take KEEP ?mk)" by auto
    moreover have "(?e, True) \<in> set ?mk" by (simp add: marked_table_def)
    ultimately have d: "(?e, True) \<in> set (drop KEEP ?mk)" by (metis Un_iff append_take_drop_id set_append)
    then have "?e \<in> set (drop KEEP ?all)" by (metis fst_conv image_eqI list.set_map marked_ranked drop_map)
    moreover from d have "KEEP < length ?mk" by (metis drop_all empty_iff empty_set not_le)
    then have "length (take KEEP ?all) = 10"
      using length_map [of fst ?mk] by (simp add: marked_ranked KEEP_def)
    ultimately show ?thesis using True cut by simp
  next
    case False
    note ip = index_from_pos [OF this]
    then have n: "?rank - 1 < length (take KEEP ?mk)" "snd (take KEEP ?mk ! (?rank - 1))"
      by (simp_all only: One_nat_def)
    have "take KEEP ?mk ! (?rank - 1) \<in> set ?mk" using nth_mem [OF n(1)] by (rule in_set_takeD)
    then have "fst (take KEEP ?mk ! (?rank - 1)) = ?e" using n(2) by (rule mem)
    moreover have "?rank \<le> length (take KEEP ?mk)" using n(1) False by linarith
    ultimately show ?thesis using n(1) False unfolding tk nth_map [OF n(1)] by (simp only: length_map if_False simp_thms)
  qed
  show ?thesis
    unfolding record_unfold Let_def prod.case recorded.select_convs
    using w sorted sorted_wrt_take [of "(\<le>)" "map ?k ?all" KEEP] len cut msets rank
    by (auto simp: read_write_scores rows_of_def take_map fun_eq_iff)
qed

theorem record_keeps_ten_best_witness:
  "ls_working (\<lparr>ls_cells = Map.empty, ls_reads = True, ls_writes = True\<rparr> :: cell storage) \<and>
   readStats (snd (record_score \<lparr>o_game = ''mine'', o_board = ''easy'', o_value = 32, o_lower = True,
        o_session = Some ''g1'', o_seed = None\<rparr> 1700 \<lparr>ls_cells = Map.empty, ls_reads = True, ls_writes = True\<rparr>))
     = readStats \<lparr>ls_cells = Map.empty, ls_reads = True, ls_writes = True\<rparr>"
proof -
  have w: "ls_working (\<lparr>ls_cells = Map.empty, ls_reads = True, ls_writes = True\<rparr> :: cell storage)"
    by (simp add: ls_working_def)
  let ?o = "\<lparr>o_game = ''mine'', o_board = ''easy'', o_value = 32, o_lower = True,
        o_session = Some ''g1'', o_seed = None\<rparr>"
  let ?s = "\<lparr>ls_cells = Map.empty, ls_reads = True, ls_writes = True\<rparr> :: cell storage"
  have "readStats (snd (record_score ?o 1700 ?s)) = readStats (migrate ?o ?s)"
    using record_keeps_ten_best [OF w, of ?o 1700] unfolding Let_def case_prod_beta by blast
  moreover have "migrate ?o ?s = ?s" by (simp add: migrate_def)
  ultimately show ?thesis using w by (simp only: simp_thms)
qed

subsection \<open>One row per game played\<close>

definition one_row :: "score_entry list \<Rightarrow> bool" where
  "one_row l \<longleftrightarrow> (\<forall>s. s \<noteq> [] \<longrightarrow> length (filter (\<lambda>e. se_s e = Some s) l) \<le> 1)"

definition board_of :: "cell storage \<Rightarrow> string \<Rightarrow> string \<Rightarrow> score_entry list" where
  "board_of st g b = valid_rows (rows_of (read st g) b)"

definition one_row_each :: "cell storage \<Rightarrow> bool" where
  "one_row_each st \<longleftrightarrow> (\<forall>g b. one_row (board_of st g b))"

text \<open>What the games do with the store, in any order.\<close>

datatype score_event =
    Record options int
  | Listing options
  | Finish string string bool "(string \<times> int option) list"
  | ResetGame string "string list"

primrec score_step :: "cell storage \<Rightarrow> score_event \<Rightarrow> cell storage" where
  "score_step st (Record opts now) = snd (record_score opts now st)"
| "score_step st (Listing opts) = snd (listOf opts st)"
| "score_step st (Finish g b won extra) = snd (finish g b won extra st)"
| "score_step st (ResetGame g seeds) = reset g seeds st"

lemma one_row_simps [simp]:
  "one_row []" "one_row [e]" "rows_of Map.empty b = []" "valid_rows [] = []"
  by (simp_all add: one_row_def rows_of_def valid_rows_def)

lemma rows_of_upd [simp]: "rows_of (all(b := Some l)) b' = (if b' = b then l else rows_of all b')"
  by (simp add: rows_of_def)

lemma one_row_put:
  assumes "one_row_each st" and "\<forall>b. one_row (valid_rows (rows_of (scores_in v) b))"
  shows "one_row_each (setItem k v st)"
  using assms by (simp add: one_row_each_def board_of_def read_setItem)

lemma one_row_del: "one_row_each st \<Longrightarrow> one_row_each (removeItem k st)"
  by (simp add: one_row_each_def board_of_def read_removeItem)

lemma one_row_migrate: "one_row_each st \<Longrightarrow> one_row_each (migrate opts st)"
proof -
  assume st: "one_row_each st"
  have "one_row_each (import_best opts seed st)" for seed
  proof -
    have v: "valid_rows [Some e] = [e]" for e by (simp add: valid_rows_def)
    have "one_row_each (write_scores (o_game opts)
            ((read st (o_game opts))(o_board opts := Some [Some \<lparr>se_v = x, se_t = 0, se_s = None\<rparr>])) st)" for x
      unfolding write_scores_def using st
      by (intro one_row_put) (auto simp: scores_in_def one_row_each_def board_of_def v)
    then show ?thesis
      unfolding import_best_def Let_def using st by (intro one_row_put) (simp_all add: scores_in_def)
  qed
  then show ?thesis using st by (auto simp: migrate_def split: option.splits)
qed

lemma filter_sort_len: "length (filter P (sort_key f xs)) = length (filter P xs)"
  by (metis mset_filter mset_sort size_mset)

lemma filter_take_le: "length (filter P (take n xs)) \<le> length (filter P xs)"
  by (metis append_take_drop_id filter_append le_add1 length_append)

lemma one_row_cut:
  assumes "one_row l"
  shows "one_row (take KEEP (ranked opts now (other_rows opts l)))"
  unfolding one_row_def
proof (intro allI impI)
  fix s :: string assume s: "s \<noteq> []"
  let ?P = "\<lambda>e. se_s e = Some s"
  have "length (filter ?P (take KEEP (ranked opts now (other_rows opts l)))) \<le>
      length (filter ?P (other_rows opts l @ [new_entry opts now]))"
    using filter_take_le filter_sort_len unfolding ranked_def by metis
  also have "\<dots> \<le> 1"
  proof (cases "session_of opts = Some s")
    case True
    then have "filter ?P (other_rows opts l) = []" by (auto simp: other_rows_def filter_empty_conv)
    then show ?thesis by simp
  next
    case False
    have "length (filter ?P (other_rows opts l)) \<le> length (filter ?P l)"
      unfolding other_rows_def filter_filter
      by (induction l) auto
    also have "\<dots> \<le> 1" using assms s by (simp add: one_row_def)
    finally show ?thesis using False by (simp add: new_entry_def)
  qed
  finally show "length (filter ?P (take KEEP (ranked opts now (other_rows opts l)))) \<le> 1" .
qed

lemma score_step_one_row: "one_row_each st \<Longrightarrow> one_row_each (score_step st e)"
proof (cases e)
  case (Record opts now)
  assume "one_row_each st"
  then have m: "one_row_each (migrate opts st)" by (rule one_row_migrate)
  then have "one_row (take KEEP (ranked opts now (others_in opts st)))"
    unfolding others_in_def by (intro one_row_cut) (simp add: one_row_each_def board_of_def)
  then show ?thesis
    using m unfolding Record score_step.simps record_unfold Let_def snd_conv write_scores_def
    by (intro one_row_put) (auto simp: scores_in_def one_row_each_def board_of_def)
next
  case (Listing opts)
  assume "one_row_each st"
  then show ?thesis using one_row_migrate by (simp add: Listing listOf_def Let_def)
next
  case (Finish g b won extra)
  assume "one_row_each st"
  then show ?thesis unfolding Finish score_step.simps finish_def Let_def snd_conv writeStats_def
    by (intro one_row_put) (simp_all add: scores_in_def)
next
  case (ResetGame g seeds)
  assume st: "one_row_each st"
  have "one_row_each (fold removeItem ks s)" if "one_row_each s" for ks and s :: "cell storage"
    using that by (induction ks arbitrary: s) (simp_all add: one_row_del)
  then show ?thesis using st by (simp only: ResetGame score_step.simps reset_def)
qed

interpretation scoring: machine score_step one_row_each "\<lambda>_. True"
  by unfold_locales (rule score_step_one_row)

text \<open>However often a game reports, and in whatever order the games record, list, finish and
  reset, whether or not the browser lets them read and write: starting from an empty store, no
  board ever holds two rows of the same played game.\<close>

lemma one_row_per_session:
  "one_row (board_of (foldl score_step \<lparr>ls_cells = Map.empty, ls_reads = r, ls_writes = w\<rparr> es) g b)"
proof -
  have "one_row_each \<lparr>ls_cells = Map.empty, ls_reads = r, ls_writes = w\<rparr>"
    by (simp add: one_row_each_def board_of_def read_def getItem_def)
  then have "one_row_each (foldl score_step \<lparr>ls_cells = Map.empty, ls_reads = r, ls_writes = w\<rparr> es)"
    by (rule scoring.run_inv) simp
  then show ?thesis by (simp add: one_row_each_def)
qed

subsection \<open>Statistics are the history\<close>

definition win_streak :: "bool list \<Rightarrow> nat" where
  "win_streak ws = length (takeWhile id (rev ws))"

definition best_streak :: "bool list \<Rightarrow> nat" where
  "best_streak ws = Max ((\<lambda>i. win_streak (take i ws)) ` {..length ws})"

lemma win_streak_snoc: "win_streak (ws @ [w]) = (if w then Suc (win_streak ws) else 0)"
  by (simp add: win_streak_def)

lemma best_streak_snoc: "best_streak (ws @ [w]) = max (win_streak (ws @ [w])) (best_streak ws)"
proof -
  have "{..length (ws @ [w])} = insert (length (ws @ [w])) {..length ws}" by auto
  then have "best_streak (ws @ [w]) =
      Max (insert (win_streak (ws @ [w])) ((\<lambda>i. win_streak (take i (ws @ [w]))) ` {..length ws}))"
    by (simp add: best_streak_def)
  also have "(\<lambda>i. win_streak (take i (ws @ [w]))) ` {..length ws} = (\<lambda>i. win_streak (take i ws)) ` {..length ws}"
    by (intro image_cong) auto
  finally show ?thesis by (simp add: best_streak_def)
qed

lemma best_streak_Nil: "best_streak [] = 0" by (simp add: best_streak_def win_streak_def)

text \<open>What the games reported for the field \<open>k\<close>.\<close>

definition reported :: "string \<Rightarrow> (string \<times> int option) list \<Rightarrow> int set" where
  "reported k kvs = {v. (k, Some v) \<in> set kvs}"

definition mark_value :: "(string \<Rightarrow> int option) \<Rightarrow> string \<Rightarrow> int" where
  "mark_value x k = num (case x k of None \<Rightarrow> 0 | Some v \<Rightarrow> v)"

lemma finite_reported [simp]: "finite (reported k kvs)"
proof -
  have "reported k kvs \<subseteq> (the \<circ> snd) ` set kvs" by (force simp: reported_def)
  then show ?thesis by (rule finite_subset) simp
qed

lemma merge_extra_mark:
  "mark_value (merge_extra kv x) k =
     (if fst kv = k then max (mark_value x k) (case snd kv of None \<Rightarrow> 0 | Some v \<Rightarrow> v) else mark_value x k)"
  by (auto simp: merge_extra_def mark_value_def num_def max_def split: option.splits)

lemma merge_all_mark:
  "mark_value (fold merge_extra kvs x) k = Max (insert (mark_value x k) (reported k kvs))"
proof (induction kvs arbitrary: x)
  case Nil
  then show ?case by (simp add: reported_def)
next
  case (Cons kv kvs)
  have nn: "0 \<le> mark_value x k" by (simp add: mark_value_def num_def)
  have r: "reported k (kv # kvs) =
      (if fst kv = k then (case snd kv of None \<Rightarrow> {} | Some v \<Rightarrow> {v}) else {}) \<union> reported k kvs"
    by (cases kv) (auto simp: reported_def split: option.splits)
  show ?case
  proof (cases "fst kv = k \<and> snd kv \<noteq> None")
    case True
    then obtain v where v: "snd kv = Some v" "fst kv = k" by auto
    have "insert (mark_value x k) (reported k (kv # kvs)) = {mark_value x k, v} \<union> reported k kvs"
      by (simp add: r v)
    moreover have "mark_value (merge_extra kv x) k = max (mark_value x k) v" by (simp add: merge_extra_mark v)
    ultimately show ?thesis using Cons.IH [of "merge_extra kv x"]
      by (cases "reported k kvs = {}") (simp_all add: max.assoc)
  next
    case False
    then have "mark_value (merge_extra kv x) k = mark_value x k" "reported k (kv # kvs) = reported k kvs"
      using nn by (auto simp: merge_extra_mark r split: option.splits)
    then show ?thesis using Cons.IH [of "merge_extra kv x"] by simp
  qed
qed


text \<open>A game that has been reset, then finished with these results.\<close>

definition history_run ::
  "string \<Rightarrow> string \<Rightarrow> cell storage \<Rightarrow> (bool \<times> (string \<times> int option) list) list \<Rightarrow> cell storage" where
  "history_run game board st hist =
     foldl (\<lambda>st (won, extra). snd (finish game board won extra st)) st hist"

lemma writeStats_works: "ls_working (writeStats g all st) = ls_working st"
  by (simp add: writeStats_def ls.put_works)

lemma finish_statsOf:
  assumes "ls_working st"
  shows "readStats (snd (finish g b won extra st)) g b = Some (fst (finish g b won extra st))"
    and "ls_working (snd (finish g b won extra st))"
  using assms by (simp_all add: finish_def Let_def readStats_setItem_Stats writeStats_works)

text \<open>The numbers \<open>s\<close> tell the history \<open>hist\<close>, as far as the extra field \<open>k\<close> goes.\<close>

definition tells :: "string \<Rightarrow> (bool \<times> (string \<times> int option) list) list \<Rightarrow> stats \<Rightarrow> bool" where
  "tells k hist s \<longleftrightarrow>
     st_n s = int (length hist) \<and> st_w s = int (count_list (map fst hist) True) \<and>
     st_cur s = int (win_streak (map fst hist)) \<and> st_best s = int (best_streak (map fst hist)) \<and>
     mark_value (st_x s) k = Max (insert 0 (reported k (concat (map snd hist))))"

lemma reported_append: "reported k (xs @ ys) = reported k xs \<union> reported k ys"
  by (auto simp: reported_def)

lemma tells_finish:
  assumes "tells k hist (statsOf st g b)"
  shows "tells k (hist @ [(won, extra)]) (fst (finish g b won extra st))"
proof -
  let ?s = "statsOf st g b" and ?t = "fst (finish g b won extra st)"
  have t: "st_n ?t = st_n ?s + 1" "st_w ?t = st_w ?s + (if won then 1 else 0)"
    "st_cur ?t = (if won then st_cur ?s + 1 else 0)"
    "st_best ?t = (if won then max (st_best ?s) (st_cur ?s + 1) else st_best ?s)"
    "st_x ?t = fold merge_extra extra (st_x ?s)"
    by (simp_all add: finish_def Let_def max_def)
  let ?R = "reported k (concat (map snd hist))"
  have "mark_value (st_x ?t) k = Max (insert (Max (insert 0 ?R)) (reported k extra))"
    unfolding t merge_all_mark using assms by (simp add: tells_def)
  also have "\<dots> = Max (insert 0 (?R \<union> reported k extra))"
    by (cases "reported k extra = {}") (simp_all add: Max_Un flip: Un_insert_left)
  finally have "mark_value (st_x ?t) k = Max (insert 0 (reported k (concat (map snd (hist @ [(won, extra)])))))"
    by (simp add: reported_append)
  moreover have "st_best ?t = int (best_streak (map fst (hist @ [(won, extra)])))"
    using assms by (simp add: t best_streak_snoc win_streak_snoc tells_def) (simp add: max_def)
  ultimately show ?thesis
    using assms unfolding tells_def t by (simp add: win_streak_snoc)
qed

lemma tells_statsOf:
  assumes "readStats st g b = Some s" and "tells k hist s"
  shows "statsOf st g b = s"
  using assms by (simp add: statsOf_def tells_def num_def)

lemma history_tells:
  assumes "ls_working st" and "readStats st game board = None"
  shows "ls_working (history_run game board st hist) \<and>
    tells k hist (statsOf (history_run game board st hist) game board)"
proof (induction hist rule: rev_induct)
  case Nil
  show ?case
    using assms by (simp add: history_run_def statsOf_def no_stats_def num_def win_streak_def tells_def
        best_streak_Nil mark_value_def reported_def)
next
  case (snoc h hist)
  obtain won extra where h: "h = (won, extra)" by fastforce
  let ?r = "history_run game board st hist"
  have r: "history_run game board st (hist @ [h]) = snd (finish game board won extra ?r)"
    by (simp add: history_run_def h)
  have "tells k (hist @ [h]) (fst (finish game board won extra ?r))"
    unfolding h using snoc.IH tells_finish by blast
  then show ?case
    unfolding r using tells_statsOf finish_statsOf snoc.IH by metis
qed

text \<open>The statistics are the history: after a reset and any sequence of finished games the
  numbers shown are how many games were finished, how many were won, the wins since the last
  loss, the longest run of wins there ever was, and for every extra field the highest value any
  game reported.\<close>

lemma finish_history:
  assumes "ls_working st"
  shows "let s = statsOf (history_run game board (reset game seeds st) hist) game board; ws = map fst hist
    in st_n s = int (length hist) \<and> st_w s = int (count_list ws True) \<and>
       st_cur s = int (win_streak ws) \<and> st_best s = int (best_streak ws) \<and>
       mark_value (st_x s) k = Max (insert 0 (reported k (concat (map snd hist))))"
proof -
  have "ls_working (reset game seeds st)" by (simp only: reset_def ls.del_all_works assms)
  moreover have "getItem (reset game seeds st) (SPFX @ game) = Some None"
    unfolding reset_def by (subst ls.get_del_all [OF assms]) simp
  then have "readStats (reset game seeds st) game board = None" by (simp add: readStats_def)
  ultimately show ?thesis using history_tells [of "reset game seeds st" game board hist k]
    by (simp add: tells_def Let_def)
qed

theorem finish_history_witness:
  "st_best (statsOf (history_run ''mine'' ''easy''
      (reset ''mine'' [] (\<lparr>ls_cells = Map.empty, ls_reads = True, ls_writes = True\<rparr> :: cell storage))
      [(True, []), (True, []), (False, []), (True, [])]) ''mine'' ''easy'') = 2"
proof -
  have w: "ls_working (\<lparr>ls_cells = Map.empty, ls_reads = True, ls_writes = True\<rparr> :: cell storage)"
    by (simp add: ls_working_def)
  let ?h = "[(True, []), (True, []), (False, []), (True, [])] :: (bool \<times> (string \<times> int option) list) list"
  have b: "best_streak (map fst ?h) = 2"
    by (simp add: best_streak_snoc [of "[_, _, _]", simplified] best_streak_snoc [of "[_, _]", simplified]
        best_streak_snoc [of "[_]", simplified] best_streak_snoc [of "[]", simplified] best_streak_Nil win_streak_def)
  note f = finish_history [OF w, of "''mine''" "''easy''" "[]" ?h, unfolded Let_def, THEN conjunct2, THEN conjunct2,
      THEN conjunct2, THEN conjunct1]
  show ?thesis unfolding f b by simp
qed

subsection \<open>The legacy best is imported once\<close>

definition seeded :: "cell storage \<Rightarrow> string \<Rightarrow> bool" where
  "seeded st game \<longleftrightarrow> (\<exists>m. getItem st (mark_of game) = Some (Some m) \<and> m \<noteq> Text [])"

lemma migrate_seeded: "seeded st (o_game opts) \<Longrightarrow> migrate opts st = st"
  by (auto simp: migrate_def seeded_def split: option.splits)

lemma mark_not_scores: "mark_of g \<noteq> PFX @ g"
  by (simp add: mark_of_def)

lemma import_best_cells:
  assumes "ls_working st"
  shows "seeded (import_best opts seed st) (o_game opts)"
    and "board_of (import_best opts seed st) (o_game opts) (o_board opts) =
      (if rows_of (read st (o_game opts)) (o_board opts) = [] \<and> legacy_best st seed > 0
       then [\<lparr>se_v = legacy_best st seed, se_t = 0, se_s = None\<rparr>]
       else board_of st (o_game opts) (o_board opts))"
proof -
  show "seeded (import_best opts seed st) (o_game opts)"
    using assms by (simp add: import_best_def Let_def seeded_def ls_rules write_scores_def)
  have r: "read (setItem (mark_of (o_game opts)) (Text t) s) (o_game opts) = read s (o_game opts)" for s t
    using mark_not_scores by (simp add: read_setItem)
  have v: "valid_rows [Some e] = [e]" for e by (simp add: valid_rows_def)
  show "board_of (import_best opts seed st) (o_game opts) (o_board opts) =
      (if rows_of (read st (o_game opts)) (o_board opts) = [] \<and> legacy_best st seed > 0
       then [\<lparr>se_v = legacy_best st seed, se_t = 0, se_s = None\<rparr>]
       else board_of st (o_game opts) (o_board opts))"
    using assms by (simp add: import_best_def Let_def board_of_def r read_write_scores v)
qed

text \<open>A best score from before the table existed is imported once and for all: the first time
  it becomes the only, undated row of an empty board (a board with rows is left alone), and from
  then on no later value of the legacy key, and no other write, makes it come in again.\<close>

lemma migrate_imports_once:
  assumes "ls_working st" "o_seed opts = Some seed" "seed \<noteq> []"
    and "getItem st (mark_of (o_game opts)) = Some None"
  shows "board_of (migrate opts st) (o_game opts) (o_board opts) =
      (if rows_of (read st (o_game opts)) (o_board opts) = [] \<and> legacy_best st seed > 0
       then [\<lparr>se_v = legacy_best st seed, se_t = 0, se_s = None\<rparr>]
       else board_of st (o_game opts) (o_board opts)) \<and>
    (o_game opts' = o_game opts \<and> k \<noteq> mark_of (o_game opts) \<longrightarrow>
       migrate opts' (setItem k v (migrate opts st)) = setItem k v (migrate opts st))"
proof -
  have m: "migrate opts st = import_best opts seed st" using assms by (simp add: migrate_def)
  have w: "ls_working (migrate opts st)" using assms by simp
  have "seeded (setItem k v (migrate opts st)) (o_game opts)" if "k \<noteq> mark_of (o_game opts)"
    using that import_best_cells(1) [OF assms(1), of opts seed] w
    by (simp add: seeded_def ls.get_put m)
  then show ?thesis using import_best_cells(2) [OF assms(1)] m migrate_seeded by metis
qed

lemma migrate_imports_once_witness:
  "board_of (migrate \<lparr>o_game = ''2048'', o_board = [], o_value = 0, o_lower = False, o_session = None,
        o_seed = Some ''vt-2048-best''\<rparr>
      \<lparr>ls_cells = [''vt-2048-best'' \<mapsto> Text ''1376''], ls_reads = True, ls_writes = True\<rparr>) ''2048'' []
    = [\<lparr>se_v = 1376, se_t = 0, se_s = None\<rparr>]"
proof -
  let ?st = "\<lparr>ls_cells = [''vt-2048-best'' \<mapsto> Text ''1376''], ls_reads = True, ls_writes = True\<rparr>"
  let ?o = "\<lparr>o_game = ''2048'', o_board = [], o_value = 0, o_lower = False, o_session = None,
        o_seed = Some ''vt-2048-best''\<rparr>"
  have w: "ls_working ?st" by (simp add: ls_working_def)
  have g: "getItem ?st (mark_of (o_game ?o)) = Some None"
    by (simp add: getItem_def mark_of_def PFX_def)
  have r: "rows_of (read ?st (o_game ?o)) (o_board ?o) = []"
    by (simp add: read_def getItem_def PFX_def rows_of_def)
  have l: "legacy_best ?st ''vt-2048-best'' = 1376"
    by (simp add: legacy_best_def getItem_def) code_simp
  show ?thesis
    using migrate_imports_once [OF w _ _ g, of "''vt-2048-best''"] unfolding r l by simp
qed

text \<open>Resetting a game forgets it: no board shows a row, every statistic is zero and nothing is
  imported again, provided the legacy key goes with it; the other games keep theirs.\<close>

theorem reset_forgets:
  assumes "ls_working st" and "\<forall>s. o_seed opts = Some s \<longrightarrow> s \<in> set seeds"
  shows "fst (listOf opts (reset (o_game opts) seeds st)) = [] \<and>
    statsOf (reset (o_game opts) seeds st) (o_game opts) board = no_stats \<and>
    (g \<noteq> o_game opts \<and> g \<noteq> o_game opts @ '':seeded'' \<and> PFX @ g \<notin> set seeds \<longrightarrow>
       read (reset (o_game opts) seeds st) g = read st g)"
proof -
  let ?g = "o_game opts" and ?st = "reset (o_game opts) seeds st"
  let ?ks = "[PFX @ ?g, PFX @ ?g @ '':seeded'', SPFX @ ?g] @ seeds"
  have w: "ls_working ?st" by (simp only: reset_def ls.del_all_works assms)
  have get: "getItem ?st k = (if k \<in> set ?ks then Some None else getItem st k)" for k
    unfolding reset_def by (rule ls.get_del_all [OF assms(1)])
  have rd: "read ?st ?g = Map.empty" by (simp add: read_def get)
  have st: "readStats ?st ?g = Map.empty" by (simp add: readStats_def get)
  have "board_of (migrate opts ?st) ?g (o_board opts) = []"
  proof (cases "o_seed opts")
    case None
    then show ?thesis using rd by (simp add: migrate_def board_of_def)
  next
    case (Some s)
    then have "getItem ?st s = Some None" using get assms(2) by simp
    then have "legacy_best ?st s = 0" by (simp add: legacy_best_def)
    then have "board_of (import_best opts s ?st) ?g (o_board opts) = []"
      using import_best_cells(2) [OF w] rd by (simp add: board_of_def)
    moreover have "getItem ?st (mark_of ?g) = Some None" by (simp add: get mark_of_def)
    ultimately show ?thesis using Some rd by (simp add: migrate_def board_of_def)
  qed
  then have "fst (listOf opts ?st) = []" by (simp add: listOf_def Let_def board_of_def)
  moreover have "statsOf ?st ?g board = no_stats" by (simp add: statsOf_def st no_stats_def num_def)
  moreover have "read ?st g = read st g" if "g \<noteq> ?g \<and> g \<noteq> ?g @ '':seeded'' \<and> PFX @ g \<notin> set seeds"
    unfolding read_def using that get [of "PFX @ g"] by simp
  ultimately show ?thesis by blast
qed

theorem reset_forgets_witness:
  "statsOf (reset ''mine'' [] (\<lparr>ls_cells = Map.empty, ls_reads = True, ls_writes = True\<rparr> :: cell storage)) ''mine'' [] = no_stats"
proof -
  have w: "ls_working (\<lparr>ls_cells = Map.empty, ls_reads = True, ls_writes = True\<rparr> :: cell storage)"
    by (simp add: ls_working_def)
  show ?thesis
    using reset_forgets [OF w, of "\<lparr>o_game = ''mine'', o_board = [], o_value = 0, o_lower = True,
        o_session = None, o_seed = None\<rparr>" "[]" "[]"] by simp
qed

subsection \<open>The card\<close>

text \<open>A card shows the three best rows; the run just played is the row of its session.\<close>

lemma render_shows:
  "map sr_rank (fst (render cal now opts unit hl st)) = [1..<Suc (min 3 (length (fst (listOf opts st))))] \<and>
   map sr_me (fst (render cal now opts unit hl st)) = map (\<lambda>e. isMe e hl) (take 3 (fst (listOf opts st)))"
  by (intro conjI nth_equalityI)
     (simp_all add: render_def SHOW_def case_prod_beta Let_def nth_enumerate_eq del: upt_Suc)

end
