(* ===== verification/Keybar.thy ===== *)
theory Keybar
  imports VtPrelude
begin

text \<open>
  \<^verbatim>\<open>shell/keybar.js\<close>: where the mobile key bar goes and how far the terminal is lifted, from one
  reading of the viewport.
\<close>

definition KB_GAP :: real where "KB_GAP = 150"
definition PAD :: real where "PAD = 4"

record reading =
  vvTop :: "real option"
  vvH :: "real option"
  innerH :: real
  baseH :: real
  barH :: real
  frameBottom :: "real option"
  contentBottom :: "real option"

record bar =
  kbUp :: bool
  barTop :: real
  lift :: real

definition visible_h :: "reading \<Rightarrow> real" where
  "visible_h s = (case vvH s of Some h \<Rightarrow> h | None \<Rightarrow> innerH s)"

definition lift_target :: "real \<Rightarrow> real option \<Rightarrow> real" where
  "lift_target fb cb = (case cb of None \<Rightarrow> fb | Some c \<Rightarrow> min fb (c + PAD))"

definition compute :: "reading \<Rightarrow> bar" where
  "compute s =
     (let h = visible_h s; top = js_or (vvTop s) 0;
          up = h < baseH s - KB_GAP;
          bt = Math_round (top + h - barH s);
          lft = (case frameBottom s of
                   Some fb \<Rightarrow> if up then max 0 (Math_round (lift_target fb (contentBottom s) - bt)) else 0
                 | None \<Rightarrow> 0)
      in \<lparr>kbUp = up, barTop = bt, lift = lft\<rparr>)"

lemma compute_fields:
  "kbUp (compute s) \<longleftrightarrow> visible_h s < baseH s - KB_GAP"
  "barTop (compute s) = Math_round (js_or (vvTop s) 0 + visible_h s - barH s)"
  "lift (compute s) = (case frameBottom s of
     Some fb \<Rightarrow> if kbUp (compute s) then max 0 (Math_round (lift_target fb (contentBottom s) - barTop (compute s))) else 0
   | None \<Rightarrow> 0)"
  by (simp_all add: compute_def Let_def split: option.splits)

text \<open>The same screen read in coordinates moved by \<open>d\<close>, as a shell scroll does.\<close>

definition shifted :: "real \<Rightarrow> reading \<Rightarrow> reading" where
  "shifted d s = s\<lparr>vvTop := Some (js_or (vvTop s) 0 + d),
     frameBottom := map_option (\<lambda>y. y + d) (frameBottom s), contentBottom := map_option (\<lambda>y. y + d) (contentBottom s)\<rparr>"

lemma lift_target_shift: "lift_target (fb + d) (map_option (\<lambda>y. y + d) cb) = lift_target fb cb + d"
  by (cases cb) (simp_all add: lift_target_def min_def)

lemma js_or_Some_0: "js_or (Some x) 0 = x"
  by (simp add: js_or_def)

text \<open>The lift never leaves the content covered and is never more than it needs: with the
  keyboard up, the last content row (or the frame's bottom) ends at the bar's top, to within half
  a pixel, if anything was covered, and nothing moves otherwise; with the keyboard down nothing is
  lifted. Both figures are whole pixels, and reading the same screen in shifted coordinates moves
  the bar with them and keeps the lift.\<close>

lemma keybar_lift_exact:
  assumes "frameBottom s = Some fb" and "d \<in> \<int>"
  shows "(kbUp (compute s) \<longrightarrow>
        (let t = lift_target fb (contentBottom s)
         in t - lift (compute s) \<le> barTop (compute s) + 1 / 2 \<and>
            (0 < lift (compute s) \<longrightarrow> \<bar>t - lift (compute s) - barTop (compute s)\<bar> \<le> 1 / 2))) \<and>
    (\<not> kbUp (compute s) \<longrightarrow> lift (compute s) = 0) \<and>
    0 \<le> lift (compute s) \<and> lift (compute s) \<in> \<int> \<and> barTop (compute s) \<in> \<int> \<and>
    barTop (compute (shifted d s)) = barTop (compute s) + d \<and>
    lift (compute (shifted d s)) = lift (compute s)"
proof -
  let ?t = "lift_target fb (contentBottom s)" and ?b = "barTop (compute s)"
  have l: "lift (compute s) = (if kbUp (compute s) then max 0 (Math_round (?t - ?b)) else 0)"
    unfolding compute_fields(3) [of s] assms(1) by simp
  note r = Math_round_bounds [of "?t - ?b"]
  have up: "?t - lift (compute s) \<le> ?b + 1 / 2 \<and>
      (0 < lift (compute s) \<longrightarrow> \<bar>?t - lift (compute s) - ?b\<bar> \<le> 1 / 2)" if "kbUp (compute s)"
  proof -
    define q where "q = Math_round (?t - ?b)"
    have q: "?t - ?b - 1 / 2 < q" "q \<le> ?t - ?b + 1 / 2" using r by (simp_all only: q_def)
    have e: "lift (compute s) = max 0 q" using that unfolding l q_def by (simp only: if_True)
    show ?thesis
    proof (cases "0 < q")
      case True
      then have m: "max 0 q = q" by simp
      show ?thesis unfolding e m abs_le_iff using q by (intro conjI impI; linarith)
    next
      case False
      then have m: "max 0 q = 0" by simp
      show ?thesis unfolding e m using q False by (intro conjI impI; linarith)
    qed
  qed
  have bt: "barTop (compute (shifted d s)) = ?b + d"
  proof -
    have "js_or (vvTop s) 0 + d + visible_h s - barH s = d + (js_or (vvTop s) 0 + visible_h s - barH s)" by simp
    then have "Math_round (js_or (vvTop s) 0 + d + visible_h s - barH s) =
        d + Math_round (js_or (vvTop s) 0 + visible_h s - barH s)"
      using Math_round_add_Ints [OF assms(2)] by metis
    moreover have "visible_h (shifted d s) = visible_h s" by (simp add: shifted_def visible_h_def split: option.split)
    moreover have "barH (shifted d s) = barH s" "js_or (vvTop (shifted d s)) 0 = js_or (vvTop s) 0 + d"
      by (simp_all add: shifted_def js_or_Some_0)
    ultimately show ?thesis by (simp only: compute_fields(2) add.commute [of _ d])
  qed
  have ku: "kbUp (compute (shifted d s)) = kbUp (compute s)"
    by (simp add: compute_fields(1) visible_h_def shifted_def split: option.split)
  have fb: "frameBottom (shifted d s) = Some (fb + d)" "contentBottom (shifted d s) = map_option (\<lambda>y. y + d) (contentBottom s)"
    using assms(1) by (simp_all add: shifted_def)
  have "lift (compute (shifted d s)) = lift (compute s)"
    unfolding compute_fields(3) [of "shifted d s"] fb ku bt l option.case lift_target_shift by simp
  moreover have "lift (compute s) \<in> \<int>" "0 \<le> lift (compute s)" unfolding l by (simp_all add: Ints_max)
  moreover have "?b \<in> \<int>" by (simp add: compute_fields(2))
  ultimately show ?thesis using up bt by (simp add: Let_def l)
qed

lemma keybar_lift_exact_witness:
  "barTop (compute (shifted 239 \<lparr>vvTop = None, vvH = Some 480, innerH = 894, baseH = 894, barH = 44,
      frameBottom = Some 812, contentBottom = None\<rparr>)) = 436 + 239"
proof -
  let ?s = "\<lparr>vvTop = None, vvH = Some 480, innerH = 894, baseH = 894, barH = 44,
      frameBottom = Some 812, contentBottom = None\<rparr>"
  have fb: "frameBottom ?s = Some 812" and z: "(239 :: real) \<in> \<int>" by simp_all
  have "barTop (compute ?s) = 436" by (simp add: compute_fields(2) visible_h_def Math_round_of_Ints)
  with keybar_lift_exact [OF fb z] show ?thesis by simp
qed

end
