(* ===== verification/Pinch.thy ===== *)
theory Pinch
  imports VtPrelude
begin

text \<open>
  \<^verbatim>\<open>shared/pinch.js\<close>: the algebra of a two-finger zoom. A number that must be finite is an option,
  \<open>None\<close> for NaN and the infinities; \<open>Math.sqrt\<close> and \<open>Math.exp\<close> are the real functions.
\<close>

record metrics =
  dist :: real
  cx :: real
  cy :: real

record view =
  zoom :: real
  px :: real
  py :: real

definition pinchMetrics :: "real \<Rightarrow> real \<Rightarrow> real \<Rightarrow> real \<Rightarrow> metrics" where
  "pinchMetrics ax ay bx by' =
     (let dx = bx - ax; dy = by' - ay
      in \<lparr>dist = max (1 / 1000000) (sqrt (dx * dx + dy * dy)), cx = (ax + bx) / 2, cy = (ay + by') / 2\<rparr>)"

definition pinchStep :: "metrics \<Rightarrow> view \<Rightarrow> metrics \<Rightarrow> real option \<Rightarrow> real option \<Rightarrow> view" where
  "pinchStep start v now mn mx =
     (let lo = (case mn of None \<Rightarrow> 1 | Some m \<Rightarrow> m); hi = (case mx of None \<Rightarrow> 6 | Some m \<Rightarrow> m);
          z = max lo (min hi (zoom v * (dist now / dist start)));
          ux = (cx start - px v) / zoom v; uy = (cy start - py v) / zoom v
      in \<lparr>zoom = z, px = cx now - z * ux, py = cy now - z * uy\<rparr>)"

definition clampPan ::
  "real \<Rightarrow> real \<Rightarrow> real option \<Rightarrow> real option \<Rightarrow> real option \<Rightarrow> real option \<Rightarrow> real option \<Rightarrow> real \<times> real" where
  "clampPan x y width height boxWidth boxHeight z =
     (case (width, height, boxWidth, boxHeight, z) of
        (Some w, Some h, Some bw, Some bh, Some zm) \<Rightarrow>
          (let mx = max 0 ((w * zm - bw) / 2); my = max 0 ((h * zm - bh) / 2)
           in (max (- mx) (min mx x), max (- my) (min my y)))
      | _ \<Rightarrow> (x, y))"

definition wheelFactor :: "real option \<Rightarrow> bool \<Rightarrow> real" where
  "wheelFactor deltaY pinch =
     (case deltaY of None \<Rightarrow> 1
      | Some d \<Rightarrow> if d = 0 then 1
          else if pinch then exp (max (- (2 / 10)) (min (2 / 10) (- d * (1 / 100))))
          else if d < 0 then 12 / 10 else 1 / (12 / 10))"

text \<open>The picture point under a place of the box.\<close>

definition point_under :: "view \<Rightarrow> real \<Rightarrow> real \<Rightarrow> real \<times> real" where
  "point_under v x y = ((x - px v) / zoom v, (y - py v) / zoom v)"

lemma pinchMetrics_dist_pos: "0 < dist (pinchMetrics ax ay bx by')"
  by (simp add: pinchMetrics_def Let_def less_max_iff_disj)

text \<open>A pinch is attached to the picture: throughout the gesture the picture point that was under
  the starting midpoint stays under the current midpoint, the zoom stays within its bounds and
  follows the fingers' separation inside them, and fingers that keep their separation only pan.\<close>

lemma pinchStep_anchored:
  assumes "0 < zoom v" "0 < dist start" "0 < lo" "lo \<le> hi"
  shows "let w = pinchStep start v now (Some lo) (Some hi)
    in point_under w (cx now) (cy now) = point_under v (cx start) (cy start) \<and>
       lo \<le> zoom w \<and> zoom w \<le> hi \<and>
       (lo \<le> zoom v * (dist now / dist start) \<and> zoom v * (dist now / dist start) \<le> hi \<longrightarrow>
          zoom w / zoom v = dist now / dist start) \<and>
       (dist now = dist start \<and> lo \<le> zoom v \<and> zoom v \<le> hi \<longrightarrow>
          w = v\<lparr>px := px v + (cx now - cx start), py := py v + (cy now - cy start)\<rparr>)"
proof -
  let ?z = "max lo (min hi (zoom v * (dist now / dist start)))"
  have z: "?z \<noteq> 0" "lo \<le> ?z" "?z \<le> hi" using assms by (auto simp: max_def)
  have w: "pinchStep start v now (Some lo) (Some hi) =
      \<lparr>zoom = ?z, px = cx now - ?z * ((cx start - px v) / zoom v), py = cy now - ?z * ((cy start - py v) / zoom v)\<rparr>"
    by (simp add: pinchStep_def Let_def)
  have "?z = zoom v" if "dist now = dist start" "lo \<le> zoom v" "zoom v \<le> hi"
    using that assms by simp
  then show ?thesis
    unfolding w Let_def using z assms by (simp add: point_under_def field_simps)
qed

theorem pinchStep_anchored_witness:
  "point_under (pinchStep (pinchMetrics 0 0 2 0) \<lparr>zoom = 1, px = 0, py = 0\<rparr> (pinchMetrics 0 0 6 0) (Some 1) (Some 6)) 3 0 = (1, 0)"
proof -
  have d: "0 < dist (pinchMetrics 0 0 2 0)" by (rule pinchMetrics_dist_pos)
  have c: "cx (pinchMetrics 0 0 6 0) = 3" "cy (pinchMetrics 0 0 6 0) = 0"
    "cx (pinchMetrics 0 0 2 0) = 1" "cy (pinchMetrics 0 0 2 0) = 0"
    by (simp_all add: pinchMetrics_def Let_def)
  have "point_under (pinchStep (pinchMetrics 0 0 2 0) \<lparr>zoom = 1, px = 0, py = 0\<rparr> (pinchMetrics 0 0 6 0) (Some 1) (Some 6))
      (cx (pinchMetrics 0 0 6 0)) (cy (pinchMetrics 0 0 6 0)) =
      point_under \<lparr>zoom = 1, px = 0, py = 0\<rparr> (cx (pinchMetrics 0 0 2 0)) (cy (pinchMetrics 0 0 2 0))"
    using pinchStep_anchored [of "\<lparr>zoom = 1, px = 0, py = 0\<rparr>" "pinchMetrics 0 0 2 0" 1 6 "pinchMetrics 0 0 6 0"] d
    unfolding Let_def by simp
  moreover have "point_under \<lparr>zoom = 1, px = 0, py = 0\<rparr> 1 0 = (1, 0)" by (simp add: point_under_def)
  ultimately show ?thesis unfolding c by (simp only:)
qed

text \<open>A clamped pan never shows beyond the picture's edge, and clamping is idempotent.\<close>

lemma clamp_axis:
  fixes m x :: real
  assumes "0 \<le> m"
  shows "\<bar>max (- m) (min m x)\<bar> \<le> m" "max (- m) (min m (max (- m) (min m x))) = max (- m) (min m x)"
  using assms by (auto simp: max_def min_def abs_le_iff)

lemma clampPan_covers:
  assumes "clampPan x y (Some w) (Some h) (Some bw) (Some bh) (Some z) = (x', y')"
  shows "\<bar>x'\<bar> \<le> max 0 ((w * z - bw) / 2)" "\<bar>y'\<bar> \<le> max 0 ((h * z - bh) / 2)"
    and "clampPan x' y' (Some w) (Some h) (Some bw) (Some bh) (Some z) = (x', y')"
proof -
  define mx my where m: "mx = max 0 ((w * z - bw) / 2)" "my = max 0 ((h * z - bh) / 2)"
  have p: "0 \<le> mx" "0 \<le> my" unfolding m by simp_all
  have c: "clampPan a b (Some w) (Some h) (Some bw) (Some bh) (Some z) = (max (- mx) (min mx a), max (- my) (min my b))" for a b
    unfolding clampPan_def m Let_def by simp
  have e: "x' = max (- mx) (min mx x)" "y' = max (- my) (min my y)" using assms unfolding c by simp_all
  show "\<bar>x'\<bar> \<le> max 0 ((w * z - bw) / 2)" "\<bar>y'\<bar> \<le> max 0 ((h * z - bh) / 2)"
    unfolding m [symmetric] e using clamp_axis(1) p by blast+
  show "clampPan x' y' (Some w) (Some h) (Some bw) (Some bh) (Some z) = (x', y')"
    unfolding c e clamp_axis(2) [OF p(1)] clamp_axis(2) [OF p(2)] ..
qed

text \<open>Wheel steps in opposite directions undo each other.\<close>

lemma wheelFactor_inverse: "wheelFactor (Some d) pinch * wheelFactor (Some (- d)) pinch = 1"
proof (cases "pinch \<and> d \<noteq> 0")
  case True
  have "max (- (2 / 10)) (min (2 / 10) (- d * (1 / 100))) + max (- (2 / 10)) (min (2 / 10) (d * (1 / 100))) = 0"
    by (simp add: max_def min_def)
  then show ?thesis using True by (simp add: wheelFactor_def flip: exp_add)
next
  case False
  then show ?thesis by (auto simp: wheelFactor_def)
qed

end
