(* ===== verification/Coach.thy ===== *)
theory Coach
  imports LocalStorage
begin

text \<open>
  \<^verbatim>\<open>shell/coach.js\<close>: the tip banner. Its cells in \<open>localStorage\<close> are texts: a tip's number of
  showings or \<open>done\<close>, the position of a rotation, the kill-switch. What the banner looks like is
  not modelled; that one is up, and for which tip, is.
\<close>

definition COACH_MAX :: int where "COACH_MAX = 3"

record tip_state =
  ts_done :: bool
  ts_count :: int

definition parse_or_0 :: "string option \<Rightarrow> int" where
  "parse_or_0 v = (case v of None \<Rightarrow> 0 | Some t \<Rightarrow> (case parseInt10 t of None \<Rightarrow> 0 | Some c \<Rightarrow> c))"

definition tip_get :: "string storage \<Rightarrow> string \<Rightarrow> tip_state" where
  "tip_get st key =
     (case getItem st key of
        None \<Rightarrow> \<lparr>ts_done = False, ts_count = 0\<rparr>
      | Some v \<Rightarrow> if v = Some ''done'' then \<lparr>ts_done = True, ts_count = 0\<rparr>
          else let c = parse_or_0 v in \<lparr>ts_done = c \<ge> COACH_MAX, ts_count = c\<rparr>)"

record tip =
  t_key :: string
  t_text :: string

record coach_opts =
  co_surface :: string
  co_rotate :: bool

text \<open>The page: its storage, whether it is hidden, and the tip on its banner.\<close>

record page =
  pg_store :: "string storage"
  pg_hidden :: bool
  pg_banner :: "tip option"

definition rot_key :: "string \<Rightarrow> string" where
  "rot_key surface = ''vibetop:coachrot:'' @ surface"

definition hints_key :: string where "hints_key = ''vibetop:hints''"

definition live_tips :: "string storage \<Rightarrow> tip list \<Rightarrow> tip list" where
  "live_tips st tips = filter (\<lambda>t. t_key t \<noteq> [] \<and> t_text t \<noteq> [] \<and> \<not> ts_done (tip_get st (t_key t))) tips"

text \<open>
  The rotation: the tip chosen and the storage with the next position. Reading the list at a
  negative position gives \<open>undefined\<close>, here \<open>None\<close>.
\<close>

definition rotate_tip :: "string storage \<Rightarrow> coach_opts \<Rightarrow> tip list \<Rightarrow> tip option \<times> string storage" where
  "rotate_tip st opts live =
     (if co_rotate opts \<and> co_surface opts \<noteq> [] \<and> length live > 1
      then (case getItem st (rot_key (co_surface opts)) of
              None \<Rightarrow> (Some (hd live), st)
            | Some v \<Rightarrow>
                let i = parse_or_0 v; j = js_rem i (int (length live))
                in (if j < 0 then None else Some (live ! nat j), setItem (rot_key (co_surface opts)) (dec_int (i + 1)) st))
      else (Some (hd live), st))"

text \<open>Without a tip the code throws at \<open>tip.text\<close>, after the rotation was stored.\<close>

definition vibeCoach :: "tip list \<Rightarrow> coach_opts \<Rightarrow> page \<Rightarrow> page" where
  "vibeCoach tips opts pg =
     (let st = pg_store pg
      in if getItem st hints_key = Some (Some ''0'') then pg
         else if pg_hidden pg then pg
         else if pg_banner pg \<noteq> None then pg
         else let live = live_tips st tips
              in if live = [] then pg
                 else (case rotate_tip st opts live of
                         (None, st1) \<Rightarrow> pg\<lparr>pg_store := st1\<rparr>
                       | (Some tip, st1) \<Rightarrow>
                           pg\<lparr>pg_store := setItem (t_key tip) (dec_int (ts_count (tip_get st1 (t_key tip)) + 1)) st1,
                              pg_banner := Some tip\<rparr>))"

text \<open>The click on the banner.\<close>

definition tap :: "page \<Rightarrow> page" where
  "tap pg = (case pg_banner pg of None \<Rightarrow> pg
             | Some t \<Rightarrow> pg\<lparr>pg_banner := None, pg_store := setItem (t_key t) ''done'' (pg_store pg)\<rparr>)"

section \<open>Runs\<close>

text \<open>\<open>Leave\<close> is the page being closed and opened again: the storage stays, the banner goes.\<close>

datatype coach_event = Open "tip list" coach_opts | Tap | Leave bool | Hints bool

text \<open>A page with the log of the tips that were put on the banner and of those tapped away.\<close>

record coach_run =
  cr_page :: page
  cr_shown :: "string list"
  cr_tapped :: "string set"

fun coach_step :: "coach_run \<Rightarrow> coach_event \<Rightarrow> coach_run" where
  "coach_step r (Open tips opts) =
     (let pg = vibeCoach tips opts (cr_page r)
      in r\<lparr>cr_page := pg,
          cr_shown := (case (pg_banner (cr_page r), pg_banner pg) of
             (None, Some t) \<Rightarrow> t_key t # cr_shown r | _ \<Rightarrow> cr_shown r)\<rparr>)"
| "coach_step r Tap =
     r\<lparr>cr_page := tap (cr_page r),
       cr_tapped := (case pg_banner (cr_page r) of None \<Rightarrow> cr_tapped r | Some t \<Rightarrow> insert (t_key t) (cr_tapped r))\<rparr>"
| "coach_step r (Leave hidden) = r\<lparr>cr_page := (cr_page r)\<lparr>pg_banner := None, pg_hidden := hidden\<rparr>\<rparr>"
| "coach_step r (Hints on) =
     r\<lparr>cr_page := (cr_page r)\<lparr>pg_store := setItem hints_key (if on then ''1'' else ''0'') (pg_store (cr_page r)),
         pg_banner := (if on then pg_banner (cr_page r) else None)\<rparr>\<rparr>"

text \<open>Tips are named as the surfaces name them.\<close>

definition tip_key :: "string \<Rightarrow> bool" where
  "tip_key k \<longleftrightarrow> starts_with ''vibetop:tip:'' k"

primrec coach_ok :: "coach_event \<Rightarrow> bool" where
  "coach_ok (Open tips opts) = (\<forall>t\<in>set tips. tip_key (t_key t))"
| "coach_ok Tap = True"
| "coach_ok (Leave h) = True"
| "coach_ok (Hints on) = True"

text \<open>
  What a cell says about the showings of its tip: untouched if there were none, the count if it
  was never tapped away, done otherwise.
\<close>

definition cell_tells :: "coach_run \<Rightarrow> string \<Rightarrow> bool" where
  "cell_tells r k \<longleftrightarrow>
     (let n = count_list (cr_shown r) k
      in n \<le> 3 \<and> getItem (pg_store (cr_page r)) k =
           Some (if k \<in> cr_tapped r then Some ''done'' else if n = 0 then None else Some (dec n)))"

definition coach_inv :: "coach_run \<Rightarrow> bool" where
  "coach_inv r \<longleftrightarrow> ls_working (pg_store (cr_page r)) \<and> (\<forall>k. tip_key k \<longrightarrow> cell_tells r k) \<and>
     (\<forall>t. pg_banner (cr_page r) = Some t \<longrightarrow> tip_key (t_key t))"

lemma tip_key_other: "tip_key k \<Longrightarrow> k \<noteq> hints_key" "tip_key k \<Longrightarrow> k \<noteq> rot_key s"
  by (auto simp: tip_key_def starts_with_def hints_key_def rot_key_def)

lemma dec_done: "dec n \<noteq> ''done''"
proof
  assume "dec n = ''done''"
  then have "CHR ''d'' \<in> set (dec n)" by simp
  then have "is_digit (CHR ''d'')" by (rule dec_digits)
  then show False by (simp add: is_digit_def)
qed

lemma tip_get_told:
  assumes "cell_tells r k"
  shows "ts_done (tip_get (pg_store (cr_page r)) k) \<longleftrightarrow> k \<in> cr_tapped r \<or> count_list (cr_shown r) k = 3"
    and "k \<notin> cr_tapped r \<Longrightarrow> ts_count (tip_get (pg_store (cr_page r)) k) = int (count_list (cr_shown r) k)"
  using assms by (auto simp: cell_tells_def tip_get_def parse_or_0_def COACH_MAX_def Let_def dec_done)

lemma rotate_tip_in:
  assumes "live \<noteq> []" "ls_working st" "rotate_tip st opts live = (t, st1)"
  shows "t = Some u \<Longrightarrow> u \<in> set live" and "ls_working st1"
    and "tip_key k \<Longrightarrow> getItem st1 k = getItem st k"
proof -
  have "nat j < length live" if "0 \<le> j" "j = js_rem i (int (length live))" for i j
  proof -
    define m where "m = \<bar>i\<bar> mod int (length live)"
    have m: "0 \<le> m" "m < int (length live)" using assms(1) by (simp_all add: m_def)
    have "j = (if 0 < i then m else if i = 0 then 0 else - m)"
      by (simp add: that(2) js_rem_def m_def sgn_if)
    then have "j < int (length live)" using m by (auto split: if_splits)
    then show ?thesis using that(1) by linarith
  qed
  then show "t = Some u \<Longrightarrow> u \<in> set live" "ls_working st1" "tip_key k \<Longrightarrow> getItem st1 k = getItem st k"
    using assms tip_key_other
    by (auto simp: rotate_tip_def Let_def ls_rules split: if_splits option.splits)
qed

lemma open_inv:
  assumes inv: "coach_inv r" and ok: "\<forall>t\<in>set tips. tip_key (t_key t)"
  shows "coach_inv (coach_step r (Open tips opts))"
proof (cases "pg_store (vibeCoach tips opts (cr_page r)) = pg_store (cr_page r) \<and>
              pg_banner (vibeCoach tips opts (cr_page r)) = pg_banner (cr_page r)")
  case True
  then show ?thesis
    using inv by (auto simp: coach_inv_def cell_tells_def Let_def split: option.splits)
next
  case False
  let ?pg = "cr_page r" and ?st = "pg_store (cr_page r)"
  let ?live = "live_tips ?st tips"
  obtain t st1 where rot: "rotate_tip ?st opts ?live = (t, st1)" by fastforce
  have b: "pg_banner ?pg = None" and ne: "?live \<noteq> []"
    using False by (auto simp: vibeCoach_def Let_def split: if_splits)
  have w: "ls_working ?st" using inv by (simp add: coach_inv_def)
  note rt = rotate_tip_in [OF ne w rot]
  show ?thesis
  proof (cases t)
    case None
    then have "vibeCoach tips opts ?pg = ?pg\<lparr>pg_store := st1\<rparr>"
      using False b ne rot by (auto simp: vibeCoach_def Let_def split: if_splits)
    then show ?thesis using inv b rt by (simp add: coach_inv_def cell_tells_def Let_def)
  next
    case (Some u)
    let ?k = "t_key u"
    have u: "u \<in> set ?live" using rt(1) Some by blast
    have k: "tip_key ?k" using u ok by (simp add: live_tips_def)
    have told: "cell_tells r ?k" using inv k by (simp add: coach_inv_def)
    have nd: "\<not> ts_done (tip_get ?st ?k)" using u by (simp add: live_tips_def)
    then have nt: "?k \<notin> cr_tapped r" and n: "count_list (cr_shown r) ?k \<noteq> 3"
      using tip_get_told(1) [OF told] by simp_all
    have same: "tip_get st1 ?k = tip_get ?st ?k" using rt(3) [OF k] by (simp add: tip_get_def)
    have cnt: "ts_count (tip_get st1 ?k) + 1 = int (Suc (count_list (cr_shown r) ?k))"
      unfolding same using tip_get_told(2) [OF told nt] by simp
    have d: "dec_int (ts_count (tip_get st1 ?k) + 1) = dec (Suc (count_list (cr_shown r) ?k))"
      unfolding cnt by (rule dec_int_int)
    have v: "vibeCoach tips opts ?pg =
        ?pg\<lparr>pg_store := setItem ?k (dec (Suc (count_list (cr_shown r) ?k))) st1, pg_banner := Some u\<rparr>"
      using False b ne rot Some d by (auto simp: vibeCoach_def Let_def split: if_splits)
    have "cell_tells (coach_step r (Open tips opts)) k'" if "tip_key k'" for k'
      using inv that told n nt rt(2) rt(3) [OF that]
      by (auto simp: v b cell_tells_def Let_def coach_inv_def ls.get_put)
    then show ?thesis using k rt(2) by (simp add: coach_inv_def v b ls_rules)
  qed
qed

lemma coach_step_inv: "coach_inv r \<Longrightarrow> coach_ok e \<Longrightarrow> coach_inv (coach_step r e)"
proof (cases e)
  case (Open tips opts)
  assume "coach_inv r" "coach_ok e"
  then show ?thesis unfolding Open by (intro open_inv) simp_all
next
  case Tap
  assume "coach_inv r"
  then show ?thesis
    by (cases "pg_banner (cr_page r)")
       (auto simp: Tap coach_inv_def tap_def cell_tells_def Let_def ls.get_put ls_rules)
next
  case (Leave h)
  assume "coach_inv r"
  then show ?thesis by (simp add: Leave coach_inv_def cell_tells_def Let_def)
next
  case (Hints on)
  assume "coach_inv r"
  then show ?thesis using tip_key_other(1)
    by (auto simp: Hints coach_inv_def cell_tells_def Let_def ls.get_put ls_rules)
qed

interpretation coaching: machine coach_step coach_inv coach_ok
  by unfold_locales (rule coach_step_inv)

definition fresh_page :: "coach_run" where
  "fresh_page = \<lparr>cr_page = \<lparr>pg_store = \<lparr>ls_cells = Map.empty, ls_reads = True, ls_writes = True\<rparr>,
     pg_hidden = False, pg_banner = None\<rparr>, cr_shown = [], cr_tapped = {}\<rparr>"

lemma fresh_inv: "coach_inv fresh_page"
  by (simp add: coach_inv_def fresh_page_def ls_working_def cell_tells_def getItem_def)

section \<open>Properties\<close>

text \<open>A tip is not a nag: in a browser whose storage works, through any sequence of opening
  surfaces, tapping banners, leaving and switching hints, no tip is shown more than three times,
  and a tip that was tapped away is never put up again.\<close>

lemma coach_shows_at_most_three:
  assumes "\<forall>e\<in>set es. coach_ok e" and "tip_key k" and "\<forall>t\<in>set tips. tip_key (t_key t)"
  shows "let r = foldl coach_step fresh_page es; pg = vibeCoach tips opts (cr_page r)
    in count_list (cr_shown r) k \<le> 3 \<and>
       (k \<in> cr_tapped r \<or> count_list (cr_shown r) k = 3 \<longrightarrow>
          pg_banner pg = pg_banner (cr_page r) \<or> (\<exists>t. pg_banner pg = Some t \<and> t_key t \<noteq> k))"
proof -
  let ?r = "foldl coach_step fresh_page es"
  have inv: "coach_inv ?r" using fresh_inv assms(1) by (rule coaching.run_inv)
  then have told: "cell_tells ?r k" using assms(2) by (simp add: coach_inv_def)
  have "t_key t \<noteq> k"
    if c: "k \<in> cr_tapped ?r \<or> count_list (cr_shown ?r) k = 3"
      and b: "pg_banner (vibeCoach tips opts (cr_page ?r)) = Some t" "pg_banner (cr_page ?r) \<noteq> Some t" for t
  proof
    assume tk: "t_key t = k"
    let ?live = "live_tips (pg_store (cr_page ?r)) tips"
    have ne: "?live \<noteq> []" using b by (auto simp: vibeCoach_def Let_def split: if_splits)
    obtain u st1 where rot: "rotate_tip (pg_store (cr_page ?r)) opts ?live = (u, st1)" by fastforce
    have "u = Some t" using b rot ne by (auto simp: vibeCoach_def Let_def split: if_splits option.splits)
    then have "t \<in> set ?live" using rotate_tip_in(1) [OF ne _ rot] inv by (simp add: coach_inv_def)
    then have "\<not> ts_done (tip_get (pg_store (cr_page ?r)) k)" using tk by (simp add: live_tips_def)
    then show False using tip_get_told(1) [OF told] c by simp
  qed
  then have "pg_banner (vibeCoach tips opts (cr_page ?r)) = pg_banner (cr_page ?r) \<or>
      (\<exists>t. pg_banner (vibeCoach tips opts (cr_page ?r)) = Some t \<and> t_key t \<noteq> k)"
    if "k \<in> cr_tapped ?r \<or> count_list (cr_shown ?r) k = 3"
    using that
    by (cases "pg_banner (vibeCoach tips opts (cr_page ?r))")
       (auto simp: vibeCoach_def Let_def split: if_splits prod.splits option.splits)
  then show ?thesis using told by (simp add: Let_def cell_tells_def)
qed

theorem coach_shows_at_most_three_witness:
  "count_list (cr_shown (foldl coach_step fresh_page [Open [] \<lparr>co_surface = [], co_rotate = False\<rparr>, Tap, Leave False]))
     ''vibetop:tip:x:v1'' \<le> 3"
proof -
  have "tip_key ''vibetop:tip:x:v1''" by (simp add: tip_key_def starts_with_def)
  then show ?thesis
    using coach_shows_at_most_three [of "[Open [] \<lparr>co_surface = [], co_rotate = False\<rparr>, Tap, Leave False]"
      "''vibetop:tip:x:v1''" "[]"] unfolding Let_def by simp
qed

end
