(* ===== verification/TermConn.thy ===== *)
theory TermConn
  imports JsStr
begin

text \<open>
  \<^verbatim>\<open>apps/everyday/terminal/terminal-connection.js\<close>: the recovery of a terminal's WebSocket. The
  closure's variables are the record \<open>conn\<close>; what the browser says at the moment of a call (clock,
  visibility, network, the sockets' ready states, ttyd's controller) is the record \<open>env\<close>; every
  handler returns the new state and the calls it makes. Sockets are numbered. The session storage
  cell of the page is part of the state; \<open>ok\<close> says whether that storage works.
\<close>

section \<open>State and environment\<close>

datatype phase = Startup | Connecting | AwaitingOutput | Closed | Reconnecting | Errored

datatype panel = Waiting | ConnectingMsg | Stalled | Failed | FailedRetry

text \<open>The two \<open>Failed\<close> messages carry the retry button; they differ in their text.\<close>

record conn =
  c_socket :: "nat option"
  c_ready :: bool
  c_stopped :: bool
  c_exhausted :: bool
  c_panel :: "panel option"
  c_closeCode :: "nat option"
  c_closedAt :: int
  c_resumeClosed :: bool
  c_wasOffline :: bool
  c_since :: int
  c_phase :: phase
  c_retries :: nat
  c_timer :: bool
  c_hiddenAt :: "int option"
  c_foreground :: bool
  c_closing :: bool
  c_tracking :: bool
  c_closeKeys :: "nat list"
  c_stored :: "nat option"

record owner =
  ow_socket :: "nat option"
  ow_disposes :: bool
  ow_reconnects :: bool

record env =
  e_now :: int
  e_hidden :: bool
  e_frame_shown :: bool
  e_online :: bool
  e_body :: bool
  e_state :: "nat \<Rightarrow> nat"
  e_owner :: "owner option"
  e_trackable :: bool

datatype eff = Log string | Dispose | RefreshToken | Connect | Reload | CloseSocket nat | DisposeKeys "nat list"

definition stored_retries :: "bool \<Rightarrow> nat option \<Rightarrow> nat" where
  "stored_retries ok stored = (if ok then (case stored of None \<Rightarrow> 0 | Some n \<Rightarrow> min 3 n) else 0)"

definition boot :: "bool \<Rightarrow> env \<Rightarrow> nat option \<Rightarrow> conn" where
  "boot ok e stored =
     \<lparr>c_socket = None, c_ready = False, c_stopped = False, c_exhausted = False, c_panel = None,
      c_closeCode = None, c_closedAt = 0, c_resumeClosed = False, c_wasOffline = False, c_since = e_now e,
      c_phase = Startup, c_retries = stored_retries ok stored, c_timer = True,
      c_hiddenAt = (if e_hidden e then Some (e_now e) else None), c_foreground = True,
      c_closing = False, c_tracking = False, c_closeKeys = [], c_stored = stored\<rparr>"

definition show_panel :: "env \<Rightarrow> panel \<Rightarrow> conn \<Rightarrow> conn" where
  "show_panel e p s = (if e_body e then s\<lparr>c_panel := Some p\<rparr> else s)"

definition isForeground :: "env \<Rightarrow> bool" where
  "isForeground e \<longleftrightarrow> \<not> e_hidden e \<and> e_frame_shown e"

definition socket_dead :: "env \<Rightarrow> conn \<Rightarrow> bool" where
  "socket_dead e s \<longleftrightarrow> (case c_socket s of None \<Rightarrow> False | Some i \<Rightarrow> e_state e i = 3)"

definition owner_of :: "env \<Rightarrow> nat option \<Rightarrow> bool" where
  "owner_of e sock \<longleftrightarrow> (case e_owner e of None \<Rightarrow> False | Some w \<Rightarrow> ow_socket w = sock \<and> ow_disposes w)"

definition owner_reconnects :: "env \<Rightarrow> conn \<Rightarrow> bool" where
  "owner_reconnects e s \<longleftrightarrow>
     owner_of e (c_socket s) \<and> (case e_owner e of None \<Rightarrow> False | Some w \<Rightarrow> ow_reconnects w)"

section \<open>The watchdog\<close>

definition retry_delay :: "nat \<Rightarrow> int" where
  "retry_delay r = (if r = 0 then 0 else if r = 1 then 1000 else 4000)"

text \<open>\<open>tick\<close> up to the tests of the deadlines: the dead transport and the return of the network.\<close>

definition notice_dead :: "env \<Rightarrow> conn \<Rightarrow> conn" where
  "notice_dead e s =
     (if socket_dead e s \<and> c_phase s \<noteq> Closed \<and> c_phase s \<noteq> Reconnecting
      then s\<lparr>c_since := (if c_ready s then e_now e else c_since s), c_ready := False,
             c_phase := Closed, c_closedAt := e_now e\<rparr>
      else s)"

definition back_online :: "env \<Rightarrow> conn \<Rightarrow> conn" where
  "back_online e s = (if c_wasOffline s then s\<lparr>c_wasOffline := False, c_since := e_now e\<rparr> else s)"

definition event_name :: "conn \<Rightarrow> string" where
  "event_name s =
     (if c_resumeClosed s then ''resume-closed''
      else if c_phase s = Closed \<and> c_closeCode s \<in> {Some 1000, Some 1005} then ''clean-close''
      else if c_phase s = Closed then ''closed-reconnect'' else ''timeout'')"

text \<open>The part of \<open>tick\<close> that acts: give up, reconnect in place or reload.\<close>

definition attempt :: "bool \<Rightarrow> env \<Rightarrow> conn \<Rightarrow> conn \<times> eff list" where
  "attempt ok e s =
     (if c_retries s \<ge> 3
      then ((show_panel e FailedRetry s)\<lparr>c_exhausted := True\<rparr>,
            (if owner_of e (c_socket s) then [Dispose] else []) @ [Log ''retry-limit''])
      else let s1 = show_panel e Stalled s; ev = event_name s
           in if c_phase s = Closed \<and> owner_reconnects e s
              then if ok
                   then (s1\<lparr>c_stored := Some (c_retries s + 1), c_retries := c_retries s + 1,
                            c_since := e_now e, c_phase := Reconnecting, c_resumeClosed := False\<rparr>,
                         [Log ev, Dispose, Log ''inplace-reconnect'', RefreshToken])
                   else (show_panel e Failed (s1\<lparr>c_stopped := True\<rparr>), [Log ev, Dispose])
              else if ok
                   then (s1\<lparr>c_stopped := True, c_timer := False, c_stored := Some (c_retries s + 1)\<rparr>,
                         [Log ev, Reload])
                   else (show_panel e Failed (s1\<lparr>c_stopped := True, c_timer := False\<rparr>), [Log ev]))"

definition deadlines :: "bool \<Rightarrow> env \<Rightarrow> conn \<Rightarrow> conn \<times> eff list" where
  "deadlines ok e s =
     (let elapsed = e_now e - c_since s; recoverClosed = (c_phase s = Closed)
      in if recoverClosed \<and> c_retries s < 3 \<and> e_now e - c_closedAt s < retry_delay (c_retries s) then (s, [])
         else if \<not> recoverClosed \<and> elapsed < 3000 then (s, [])
         else if \<not> recoverClosed \<and> elapsed < 45000 then (show_panel e ConnectingMsg s, [])
         else attempt ok e s)"

definition tick :: "bool \<Rightarrow> env \<Rightarrow> conn \<Rightarrow> conn \<times> eff list" where
  "tick ok e s0 =
     (if \<not> isForeground e then (s0\<lparr>c_foreground := False\<rparr>, [])
      else let s1 = (if c_foreground s0 then s0 else s0\<lparr>c_foreground := True, c_since := e_now e\<rparr>)
           in if c_stopped s1 \<or> c_exhausted s1 then (s1, [])
              else let s2 = notice_dead e s1
                   in if c_ready s2 then (s2, [])
                      else if \<not> e_online e then (show_panel e Waiting (s2\<lparr>c_wasOffline := True\<rparr>), [])
                      else deadlines ok e (back_online e s2))"

section \<open>Page events\<close>

definition resume :: "bool \<Rightarrow> env \<Rightarrow> conn \<Rightarrow> conn \<times> eff list" where
  "resume ok e s =
     (if e_hidden e then (case c_hiddenAt s of None \<Rightarrow> (s\<lparr>c_hiddenAt := Some (e_now e)\<rparr>, []) | Some _ \<Rightarrow> (s, []))
      else let s1 = (case c_hiddenAt s of None \<Rightarrow> s
                     | Some h \<Rightarrow> s\<lparr>c_since := c_since s + (e_now e - max h (c_since s)), c_hiddenAt := None\<rparr>)
           in if c_stopped s1 \<or> c_exhausted s1 then (s1, [])
              else let s2 = (if socket_dead e s1 \<and> c_phase s1 \<noteq> Reconnecting
                             then s1\<lparr>c_closedAt := (if c_phase s1 \<noteq> Closed then e_now e else c_closedAt s1),
                                     c_ready := False, c_phase := Closed, c_resumeClosed := True\<rparr>
                             else s1)
                   in tick ok e s2)"

definition activate :: "bool \<Rightarrow> env \<Rightarrow> conn \<Rightarrow> conn \<times> eff list" where
  "activate ok e s =
     (let (s1, out) = resume ok e s
      in if c_stopped s1 \<or> c_ready s1 then (s1, out)
         else (show_panel e (if c_exhausted s1 then FailedRetry else ConnectingMsg) s1, out))"

definition pageshow :: "bool \<Rightarrow> env \<Rightarrow> bool \<Rightarrow> conn \<Rightarrow> conn \<times> eff list" where
  "pageshow ok e persisted s =
     (if persisted
      then resume ok e (s\<lparr>c_stopped := False, c_since := e_now e,
             c_hiddenAt := (if e_hidden e then Some (e_now e) else None),
             c_foreground := isForeground e, c_timer := True\<rparr>)
      else (s, []))"

section \<open>Socket events\<close>

text \<open>The constructor \<open>WS\<close>: the new socket supersedes the previous one.\<close>

definition newSocket :: "env \<Rightarrow> nat \<Rightarrow> conn \<Rightarrow> conn \<times> eff list" where
  "newSocket e i s =
     (s\<lparr>c_socket := Some i, c_closeCode := None, c_resumeClosed := False, c_ready := False,
        c_phase := Connecting\<rparr>,
      (case c_socket s of None \<Rightarrow> []
       | Some p \<Rightarrow> if e_state e p < 2
                   then CloseSocket p # (if owner_of e (Some p) then [Dispose] else [])
                   else []))"

definition onOpen :: "nat \<Rightarrow> conn \<Rightarrow> conn \<times> eff list" where
  "onOpen i s = (if c_socket s \<noteq> Some i then (s, [])
                 else (s\<lparr>c_phase := AwaitingOutput, c_closeKeys := []\<rparr>, [DisposeKeys (c_closeKeys s)]))"

text \<open>A message's data: a string, an \<open>ArrayBuffer\<close> or something else.\<close>

datatype msg_data = StringData "nat list" | BufferData "nat list" | OtherData

definition is_output :: "msg_data \<Rightarrow> bool" where
  "is_output d = (case d of
     StringData u \<Rightarrow> length u > 1 \<and> hd u = 48
   | BufferData b \<Rightarrow> length b > 1 \<and> hd b = 48
   | OtherData \<Rightarrow> False)"

definition onMessage :: "bool \<Rightarrow> nat \<Rightarrow> msg_data \<Rightarrow> conn \<Rightarrow> conn \<times> eff list" where
  "onMessage ok i d s =
     (if c_socket s \<noteq> Some i \<or> c_ready s \<or> c_stopped s \<or> \<not> is_output d then (s, [])
      else (s\<lparr>c_ready := True, c_exhausted := False, c_panel := None, c_retries := 0,
              c_stored := (if ok then None else c_stored s)\<rparr>,
            if c_retries s \<noteq> 0 then [Log ''recovered''] else []))"

definition onClose :: "bool \<Rightarrow> env \<Rightarrow> nat \<Rightarrow> nat \<Rightarrow> conn \<Rightarrow> conn \<times> eff list" where
  "onClose ok e i code s =
     (if c_socket s \<noteq> Some i then (s, [])
      else let s1 = s\<lparr>c_tracking := c_tracking s \<or> e_trackable e, c_closing := True\<rparr>
           in if c_stopped s1 then (s1, [])
              else let s2 = s1\<lparr>c_since := (if c_ready s1 then e_now e else c_since s1), c_ready := False,
                               c_phase := Closed, c_closeCode := Some code, c_closedAt := e_now e\<rparr>;
                       (s3, out) = tick ok e s2
                   in (s3, Log ''socket-close'' # out))"

definition onError :: "nat \<Rightarrow> conn \<Rightarrow> conn" where
  "onError i s = (if c_socket s = Some i then s\<lparr>c_phase := Errored\<rparr> else s)"

text \<open>The listener that \<open>onKey\<close> returned is kept while a close event is dispatched.\<close>

definition onKeyAdded :: "nat \<Rightarrow> conn \<Rightarrow> conn" where
  "onKeyAdded k s = (if c_tracking s \<and> c_closing s then s\<lparr>c_closeKeys := c_closeKeys s @ [k]\<rparr> else s)"

text \<open>The two continuations of the token promise.\<close>

definition tokenArrived :: "conn \<Rightarrow> conn \<times> eff list" where
  "tokenArrived s = (s, if \<not> c_stopped s \<and> \<not> c_exhausted s \<and> c_phase s = Reconnecting then [Connect] else [])"

datatype event =
    Tick | Resume | Activate | NewSocket nat | Opened nat | Message nat msg_data | ClosedEv nat nat
  | ErrorEv nat | KeyAdded nat | ClosingDone | TokenOk | TokenFailed | PageHide | PageShow bool | RetryClick

primrec handle :: "bool \<Rightarrow> env \<Rightarrow> conn \<Rightarrow> event \<Rightarrow> conn \<times> eff list" where
  "handle ok e s Tick = (if c_timer s then tick ok e s else (s, []))"
| "handle ok e s Resume = resume ok e s"
| "handle ok e s Activate = activate ok e s"
| "handle ok e s (NewSocket i) = newSocket e i s"
| "handle ok e s (Opened i) = onOpen i s"
| "handle ok e s (Message i d) = onMessage ok i d s"
| "handle ok e s (ClosedEv i code) = onClose ok e i code s"
| "handle ok e s (ErrorEv i) = (onError i s, [])"
| "handle ok e s (KeyAdded k) = (onKeyAdded k s, [])"
| "handle ok e s ClosingDone = (s\<lparr>c_closing := False\<rparr>, [])"
| "handle ok e s TokenOk = tokenArrived s"
| "handle ok e s TokenFailed = (s, [Log ''socket-error''])"
| "handle ok e s PageHide = (s\<lparr>c_stopped := True, c_timer := False\<rparr>, [])"
| "handle ok e s (PageShow p) = pageshow ok e p s"
| "handle ok e s RetryClick =
     (if c_panel s \<in> {Some Failed, Some FailedRetry} then (s\<lparr>c_stored := (if ok then None else c_stored s)\<rparr>, [Reload]) else (s, []))"

section \<open>Input cleaning\<close>

text \<open>
  A mouse report: ESC [, an optional <, digits, and two fields up to M or m that contain none of
  the delimiters. \<open>match_report\<close> is the pattern at the head of a text: the two fields and the rest.
\<close>

definition ESC :: nat where "ESC = 27"

definition is_dig :: "nat \<Rightarrow> bool" where "is_dig c \<longleftrightarrow> 48 \<le> c \<and> c \<le> 57"

definition field_char :: "nat \<Rightarrow> bool" where
  "field_char c \<longleftrightarrow> c \<notin> {59, 77, 109, ESC}"

definition match_report :: "nat list \<Rightarrow> (nat list \<times> nat list \<times> nat list) option" where
  "match_report s =
     (case s of
        a # b # r0 \<Rightarrow>
          if a = ESC \<and> b = 91
          then let r1 = (case r0 of [] \<Rightarrow> [] | c # r \<Rightarrow> if c = 60 then r else c # r);
                   r2 = dropWhile is_dig r1
               in if takeWhile is_dig r1 = [] then None
                  else (case r2 of [] \<Rightarrow> None
                        | c # r3 \<Rightarrow>
                            if c \<noteq> 59 then None
                            else (case dropWhile field_char r3 of [] \<Rightarrow> None
                                  | d # r4 \<Rightarrow>
                                      if d \<noteq> 59 then None
                                      else (case dropWhile field_char r4 of [] \<Rightarrow> None
                                            | m # r5 \<Rightarrow>
                                                if m = 77 \<or> m = 109
                                                then Some (takeWhile field_char r3, takeWhile field_char r4, r5)
                                                else None)))
          else None
      | _ \<Rightarrow> None)"

definition all_digits :: "nat list \<Rightarrow> bool" where
  "all_digits f \<longleftrightarrow> f \<noteq> [] \<and> list_all is_dig f"

lemma match_report_shorter: "match_report s = Some (c, r, rest) \<Longrightarrow> length rest < length s"
proof -
  assume "match_report s = Some (c, r, rest)"
  moreover have d: "length (dropWhile P xs) \<le> length xs" for P and xs :: "nat list"
    by (rule length_dropWhile_le)
  ultimately show ?thesis
    by (auto simp: match_report_def Let_def split: list.splits if_splits)
       (metis d length_Cons le_trans Suc_leD not_less_eq_eq le_SucI linorder_not_less)+
qed

text \<open>The global replacement, piece by piece: a report that matched, or one unit that did not.\<close>

datatype piece = Unit nat | GoodReport "nat list" | BadReport "nat list"

function pieces :: "nat list \<Rightarrow> piece list" where
  "pieces [] = []"
| "pieces (x # xs) =
     (case match_report (x # xs) of
        None \<Rightarrow> Unit x # pieces xs
      | Some (c, r, rest) \<Rightarrow>
          (if all_digits c \<and> all_digits r then GoodReport else BadReport)
            (take (length (x # xs) - length rest) (x # xs)) # pieces rest)"
  by pat_completeness auto
termination pieces
  by (relation "measure length") (auto dest: match_report_shorter)

primrec piece_text :: "piece \<Rightarrow> nat list" where
  "piece_text (Unit x) = [x]"
| "piece_text (GoodReport t) = t"
| "piece_text (BadReport t) = t"

primrec is_bad :: "piece \<Rightarrow> bool" where
  "is_bad (Unit x) = False"
| "is_bad (GoodReport t) = False"
| "is_bad (BadReport t) = True"

definition kept_text :: "nat list \<Rightarrow> nat list" where
  "kept_text text = concat (map piece_text (filter (\<lambda>p. \<not> is_bad p) (pieces text)))"

text \<open>
  \<open>cleanInput\<close>: \<open>None\<close> is a frame that is not sent. UTF-8 is the browser's (\<open>decode\<close>,
  \<open>encode\<close>); a frame that is not a byte view is passed on as it is, before this function.
\<close>

definition cleanInput :: "(nat list \<Rightarrow> nat list) \<Rightarrow> (nat list \<Rightarrow> nat list) \<Rightarrow> nat list \<Rightarrow> nat list option" where
  "cleanInput decode encode bytes =
     (if bytes = [] \<or> hd bytes \<noteq> 48 then Some bytes
      else let text = decode (tl bytes)
           in if \<not> list_ex is_bad (pieces text) then Some bytes
              else if kept_text text = [] then None else Some (48 # encode (kept_text text)))"

end
