(* ===== verification/TermConnProps.thy ===== *)
theory TermConnProps
  imports TermConn
begin

text \<open>
  What the recovery of a terminal connection guarantees: automatic attempts are bounded across page
  reloads, a live quiet shell is left alone, a dead one is recovered at once and then with the
  stated delays, and input cleaning removes exactly the broken mouse reports.
\<close>

section \<open>Attempts\<close>

definition recoveries :: "eff list \<Rightarrow> nat" where
  "recoveries out = length (filter (\<lambda>x. x = Reload \<or> x = RefreshToken) out)"

lemma recoveries_simps [simp]:
  "recoveries [] = 0"
  "recoveries (x # xs) = (if x = Reload \<or> x = RefreshToken then Suc (recoveries xs) else recoveries xs)"
  "recoveries (xs @ ys) = recoveries xs + recoveries ys"
  by (simp_all add: recoveries_def)

lemma show_panel_simps [simp]:
  "c_retries (show_panel e p s) = c_retries s" "c_stored (show_panel e p s) = c_stored s"
  "c_ready (show_panel e p s) = c_ready s" "c_phase (show_panel e p s) = c_phase s"
  "c_socket (show_panel e p s) = c_socket s" "c_stopped (show_panel e p s) = c_stopped s"
  "c_exhausted (show_panel e p s) = c_exhausted s"
  by (simp_all add: show_panel_def)

text \<open>
  How a call of the watchdog counts: it makes no attempt and keeps the counters, or it makes one
  and both counters say so.
\<close>

definition counts :: "bool \<Rightarrow> conn \<Rightarrow> conn \<times> eff list \<Rightarrow> bool" where
  "counts ok s r \<longleftrightarrow>
     (c_ready (fst r) \<longrightarrow> c_ready s) \<and>
     ((c_retries (fst r) = c_retries s \<and> c_stored (fst r) = c_stored s \<and> recoveries (snd r) = 0) \<or>
      (ok \<and> c_retries s < 3 \<and> c_stored (fst r) = Some (Suc (c_retries s)) \<and> recoveries (snd r) = 1 \<and>
       (Reload \<notin> set (snd r) \<longrightarrow> c_retries (fst r) = Suc (c_retries s))))"

lemma counts_cong:
  "counts ok s' r \<Longrightarrow> c_retries s' = c_retries s \<Longrightarrow> c_stored s' = c_stored s \<Longrightarrow>
     (c_ready s' \<Longrightarrow> c_ready s) \<Longrightarrow> counts ok s r"
  by (auto simp: counts_def)

lemma counts_same:
  "c_retries s' = c_retries s \<Longrightarrow> c_stored s' = c_stored s \<Longrightarrow> (c_ready s' \<Longrightarrow> c_ready s) \<Longrightarrow>
     recoveries out = 0 \<Longrightarrow> counts ok s (s', out)"
  by (auto simp: counts_def)

lemma attempt_counts: "counts ok s (attempt ok e s)"
  by (auto simp: counts_def attempt_def Let_def)

lemma deadlines_counts: "counts ok s (deadlines ok e s)"
  unfolding deadlines_def Let_def by (auto intro: counts_same attempt_counts)

lemma tick_counts: "counts ok s (tick ok e s)"
proof -
  let ?s1 = "if c_foreground s then s else s\<lparr>c_foreground := True, c_since := e_now e\<rparr>"
  have "counts ok s (deadlines ok e (back_online e (notice_dead e ?s1)))"
    by (rule counts_cong [OF deadlines_counts]) (auto simp: back_online_def notice_dead_def split: if_splits)
  then show ?thesis
    unfolding tick_def Let_def by (auto intro!: counts_same simp: notice_dead_def split: if_splits)
qed

lemma resume_counts: "counts ok s (resume ok e s)"
proof -
  have t: "counts ok s (tick ok e s')" if "c_retries s' = c_retries s" "c_stored s' = c_stored s"
    "c_ready s' \<Longrightarrow> c_ready s" for s'
    using that by (rule counts_cong [OF tick_counts])
  show ?thesis
    unfolding resume_def Let_def by (auto intro!: counts_same t split: option.splits)
qed

text \<open>
  The page as the browser runs it: a reload replaces it by a fresh boot from the stored counter.
  \<open>w_attempts\<close> counts the automatic attempts since the shell last answered or the user asked.
\<close>

record world =
  w_conn :: conn
  w_attempts :: nat

definition world_step :: "bool \<Rightarrow> world \<Rightarrow> env \<times> env \<times> event \<Rightarrow> world" where
  "world_step ok w x =
     (let (e, e', ev) = x; (s, out) = handle ok e (w_conn w) ev;
          n = (if ev = RetryClick \<and> Reload \<in> set out \<or> c_ready s \<and> \<not> c_ready (w_conn w) then 0
               else w_attempts w + recoveries out)
      in \<lparr>w_conn = (if Reload \<in> set out then boot ok e' (c_stored s) else s), w_attempts = n\<rparr>)"

definition world_inv :: "bool \<Rightarrow> world \<Rightarrow> bool" where
  "world_inv ok w \<longleftrightarrow>
     w_attempts w = c_retries (w_conn w) \<and> c_retries (w_conn w) \<le> 3 \<and>
     (ok \<longrightarrow> stored_retries ok (c_stored (w_conn w)) = c_retries (w_conn w)) \<and>
     (\<not> ok \<longrightarrow> c_retries (w_conn w) = 0)"

lemma boot_simps [simp]:
  "c_retries (boot ok e st) = stored_retries ok st" "c_stored (boot ok e st) = st" "\<not> c_ready (boot ok e st)"
  by (simp_all add: boot_def)

lemma stored_retries_simps [simp]:
  "stored_retries ok None = 0" "stored_retries True (Some n) = min 3 n" "stored_retries False st = 0"
  "stored_retries ok st \<le> 3"
  by (auto simp: stored_retries_def split: option.splits)

lemma counted_step:
  assumes "counts ok (w_conn w) (handle ok e (w_conn w) ev)" "world_inv ok w" "ev \<noteq> RetryClick"
  shows "world_inv ok (world_step ok w (e, e', ev))"
proof -
  obtain s out where h: "handle ok e (w_conn w) ev = (s, out)" by fastforce
  have w: "world_step ok w (e, e', ev) =
      \<lparr>w_conn = (if Reload \<in> set out then boot ok e' (c_stored s) else s), w_attempts = w_attempts w + recoveries out\<rparr>"
    using assms(1,3) unfolding h by (auto simp: world_step_def h counts_def)
  have r: "recoveries out = 0 \<Longrightarrow> Reload \<notin> set out" by (auto simp: recoveries_def filter_empty_conv)
  show ?thesis
    using assms(1,2) r unfolding w h by (auto simp: world_inv_def counts_def)
qed

lemma world_step_inv: "world_inv ok w \<Longrightarrow> world_inv ok (world_step ok w x)"
proof -
  assume inv: "world_inv ok w"
  obtain e e' ev where x: "x = (e, e', ev)" by (cases x)
  let ?s = "w_conn w"
  show ?thesis
  proof (cases ev)
    case (Message i d)
    show ?thesis
    proof (cases "c_socket ?s \<noteq> Some i \<or> c_ready ?s \<or> c_stopped ?s \<or> \<not> is_output d")
      case True
      then have "handle ok e ?s ev = (?s, [])" unfolding Message handle.simps onMessage_def by (simp only: if_True)
      then have "counts ok ?s (handle ok e ?s ev)" by (auto intro!: counts_same)
      then show ?thesis unfolding x by (rule counted_step [OF _ inv]) (simp add: Message)
    next
      case False
      then show ?thesis using inv by (simp add: x Message world_step_def onMessage_def world_inv_def)
    qed
  next
    case RetryClick
    then show ?thesis using inv by (auto simp: x world_step_def world_inv_def)
  next
    case (ClosedEv i code)
    let ?s2 = "\<lambda>s1. s1\<lparr>c_since := (if c_ready s1 then e_now e else c_since s1), c_ready := False,
        c_phase := Closed, c_closeCode := Some code, c_closedAt := e_now e\<rparr>"
    have t: "counts ok ?s (tick ok e s')" if "c_retries s' = c_retries ?s" "c_stored s' = c_stored ?s" "\<not> c_ready s'" for s'
      using that by (intro counts_cong [OF tick_counts]) simp_all
    have "counts ok ?s (onClose ok e i code ?s)"
    proof (cases "c_socket ?s \<noteq> Some i \<or> c_stopped ?s")
      case True
      then show ?thesis by (auto simp: onClose_def Let_def intro!: counts_same)
    next
      case False
      define s' where "s' = ?s2 (?s\<lparr>c_tracking := c_tracking ?s \<or> e_trackable e, c_closing := True\<rparr>)"
      have "onClose ok e i code ?s = (fst (tick ok e s'), Log ''socket-close'' # snd (tick ok e s'))"
        using False by (simp add: onClose_def Let_def s'_def case_prod_beta)
      moreover have "counts ok ?s (tick ok e s')" by (rule t) (simp_all add: s'_def)
      ultimately show ?thesis by (simp add: counts_def)
    qed
    then have "counts ok ?s (handle ok e ?s ev)" by (simp add: ClosedEv)
    then show ?thesis unfolding x by (rule counted_step [OF _ inv]) (simp add: ClosedEv)
  next
    case Tick
    have "counts ok ?s (handle ok e ?s ev)" by (auto simp: Tick intro!: counts_same tick_counts)
    then show ?thesis unfolding x by (rule counted_step [OF _ inv]) (simp add: Tick)
  next
    case Resume
    have "counts ok ?s (handle ok e ?s ev)" by (simp add: Resume resume_counts)
    then show ?thesis unfolding x by (rule counted_step [OF _ inv]) (simp add: Resume)
  next
    case Activate
    have "counts ok ?s (handle ok e ?s ev)"
      using resume_counts [of ok ?s e] by (auto simp: Activate activate_def counts_def case_prod_beta)
    then show ?thesis unfolding x by (rule counted_step [OF _ inv]) (simp add: Activate)
  next
    case (NewSocket i)
    have "counts ok ?s (handle ok e ?s ev)"
      by (auto simp: NewSocket newSocket_def intro!: counts_same split: option.splits)
    then show ?thesis unfolding x by (rule counted_step [OF _ inv]) (simp add: NewSocket)
  next
    case (PageShow p)
    have "counts ok ?s (handle ok e ?s ev)"
    proof (cases p)
      case True
      then show ?thesis unfolding PageShow handle.simps pageshow_def if_P [OF True]
        by (intro counts_cong [OF resume_counts]) simp_all
    qed (auto simp: PageShow pageshow_def intro!: counts_same)
    then show ?thesis unfolding x by (rule counted_step [OF _ inv]) (simp add: PageShow)
  next
    case (Opened i)
    have "counts ok ?s (handle ok e ?s ev)" by (auto simp: Opened onOpen_def intro!: counts_same)
    then show ?thesis unfolding x by (rule counted_step [OF _ inv]) (simp add: Opened)
  next
    case (ErrorEv i)
    have "counts ok ?s (handle ok e ?s ev)" by (auto simp: ErrorEv onError_def intro!: counts_same)
    then show ?thesis unfolding x by (rule counted_step [OF _ inv]) (simp add: ErrorEv)
  next
    case (KeyAdded k)
    have "counts ok ?s (handle ok e ?s ev)" by (auto simp: KeyAdded onKeyAdded_def intro!: counts_same)
    then show ?thesis unfolding x by (rule counted_step [OF _ inv]) (simp add: KeyAdded)
  next
    case ClosingDone
    have "counts ok ?s (handle ok e ?s ev)" by (auto simp: ClosingDone intro!: counts_same)
    then show ?thesis unfolding x by (rule counted_step [OF _ inv]) (simp add: ClosingDone)
  next
    case TokenOk
    have "counts ok ?s (handle ok e ?s ev)" by (auto simp: TokenOk tokenArrived_def intro!: counts_same)
    then show ?thesis unfolding x by (rule counted_step [OF _ inv]) (simp add: TokenOk)
  next
    case TokenFailed
    have "counts ok ?s (handle ok e ?s ev)" by (auto simp: TokenFailed intro!: counts_same)
    then show ?thesis unfolding x by (rule counted_step [OF _ inv]) (simp add: TokenFailed)
  next
    case PageHide
    have "counts ok ?s (handle ok e ?s ev)" by (auto simp: PageHide intro!: counts_same)
    then show ?thesis unfolding x by (rule counted_step [OF _ inv]) (simp add: PageHide)
  qed
qed

interpretation terminal: machine "world_step ok" "world_inv ok" "\<lambda>_. True"
  by unfold_locales (rule world_step_inv)

definition first_page :: "bool \<Rightarrow> env \<Rightarrow> world" where
  "first_page ok e = \<lparr>w_conn = boot ok e None, w_attempts = 0\<rparr>"

lemma first_page_inv: "world_inv ok (first_page ok e)"
  by (simp add: world_inv_def first_page_def)

section \<open>Properties\<close>

text \<open>Automatic recovery is bounded: whatever happens to the page (sockets opening, failing and
  closing, tokens arriving or not, the page hidden, restored, reloaded by the recovery itself),
  no more than three automatic attempts are made between two answers of the shell or presses of
  the retry button, also across reloads; and where the session storage does not work, so that
  attempts could not be counted across reloads, none is made.\<close>

lemma connection_attempts_bounded:
  "let w = foldl (world_step ok) (first_page ok e) xs
   in w_attempts w \<le> (if ok then 3 else 0)"
proof -
  define w where "w = foldl (world_step ok) (first_page ok e) xs"
  have "world_inv ok w" unfolding w_def using first_page_inv by (rule terminal.run_inv) simp
  then show ?thesis unfolding Let_def w_def [symmetric] by (simp add: world_inv_def)
qed

text \<open>What a live terminal shows: its socket is not dead and the shell has answered.\<close>

definition live :: "env \<Rightarrow> conn \<Rightarrow> bool" where
  "live e s \<longleftrightarrow> c_ready s \<and> \<not> socket_dead e s"

lemma tick_live: "live e s \<Longrightarrow> \<exists>f t. tick ok e s = (s\<lparr>c_foreground := f, c_since := t\<rparr>, [])"
proof -
  assume l: "live e s"
  have nd: "notice_dead e s' = s'" if "c_socket s' = c_socket s" for s'
    using l that by (auto simp: notice_dead_def live_def socket_dead_def)
  consider "\<not> isForeground e" | "isForeground e" "c_foreground s" | "isForeground e" "\<not> c_foreground s" by blast
  then show ?thesis
  proof cases
    case 1
    then have "tick ok e s = (s\<lparr>c_foreground := False, c_since := c_since s\<rparr>, [])" by (simp add: tick_def)
    then show ?thesis by blast
  next
    case 2
    then have "tick ok e s = (s\<lparr>c_foreground := True, c_since := c_since s\<rparr>, [])"
      using l nd by (simp add: tick_def Let_def live_def)
    then show ?thesis by blast
  next
    case 3
    then have "tick ok e s = (s\<lparr>c_foreground := True, c_since := e_now e\<rparr>, [])"
      using l nd by (simp add: tick_def Let_def live_def)
    then show ?thesis by blast
  qed
qed

lemma resume_live:
  "live e s \<Longrightarrow> \<exists>f t h. resume ok e s = (s\<lparr>c_foreground := f, c_since := t, c_hiddenAt := h\<rparr>, [])"
proof -
  assume l: "live e s"
  have same: "s = s\<lparr>c_foreground := c_foreground s, c_since := c_since s, c_hiddenAt := c_hiddenAt s\<rparr>" by simp
  have t: "\<exists>f u. tick ok e (s\<lparr>c_since := t, c_hiddenAt := h\<rparr>) = (s\<lparr>c_foreground := f, c_since := u, c_hiddenAt := h\<rparr>, [])" for t h
  proof -
    have "live e (s\<lparr>c_since := t, c_hiddenAt := h\<rparr>)" using l by (simp add: live_def socket_dead_def)
    from tick_live [OF this] obtain f u
      where "tick ok e (s\<lparr>c_since := t, c_hiddenAt := h\<rparr>) = (s\<lparr>c_since := t, c_hiddenAt := h, c_foreground := f, c_since := u\<rparr>, [])"
      by blast
    then have "tick ok e (s\<lparr>c_since := t, c_hiddenAt := h\<rparr>) = (s\<lparr>c_foreground := f, c_since := u, c_hiddenAt := h\<rparr>, [])"
      by simp
    then show ?thesis by blast
  qed
  have d: "\<not> socket_dead e (s\<lparr>c_since := t, c_hiddenAt := h\<rparr>)" for t h
    using l by (simp add: live_def socket_dead_def)
  define s1 where "s1 = (case c_hiddenAt s of None \<Rightarrow> s
      | Some h \<Rightarrow> s\<lparr>c_since := c_since s + (e_now e - max h (c_since s)), c_hiddenAt := None\<rparr>)"
  obtain t h where s1: "s1 = s\<lparr>c_since := t, c_hiddenAt := h\<rparr>"
  proof (cases "c_hiddenAt s")
    case None
    then have "s1 = s\<lparr>c_since := c_since s, c_hiddenAt := None\<rparr>" by (simp add: s1_def)
    then show ?thesis using that by blast
  next
    case (Some h)
    then show ?thesis using that by (simp add: s1_def)
  qed
  show ?thesis
  proof (cases "e_hidden e")
    case True
    then have "resume ok e s = (s\<lparr>c_hiddenAt := (case c_hiddenAt s of None \<Rightarrow> Some (e_now e) | Some x \<Rightarrow> Some x)\<rparr>, [])"
      by (simp add: resume_def split: option.split)
    then have "resume ok e s = (s\<lparr>c_foreground := c_foreground s, c_since := c_since s,
        c_hiddenAt := (case c_hiddenAt s of None \<Rightarrow> Some (e_now e) | Some x \<Rightarrow> Some x)\<rparr>, [])" by simp
    then show ?thesis by blast
  next
    case False
    then have r: "resume ok e s = (if c_stopped s1 \<or> c_exhausted s1 then (s1, []) else tick ok e s1)"
      unfolding resume_def s1_def [symmetric] Let_def using d s1 by simp
    show ?thesis
    proof (cases "c_stopped s1 \<or> c_exhausted s1")
      case True
      then have "resume ok e s = (s\<lparr>c_foreground := c_foreground s, c_since := t, c_hiddenAt := h\<rparr>, [])"
        using r s1 by simp
      then show ?thesis by blast
    next
      case False
      then have "resume ok e s = tick ok e (s\<lparr>c_since := t, c_hiddenAt := h\<rparr>)" using r s1 by simp
      then show ?thesis using t [where t = t and h = h] by metis
    qed
  qed
qed

text \<open>A quiet shell is never timed out: while the shell has answered and its socket is not dead,
  the watchdog and every return to the page, however much later they run and whatever the network
  says, make no call, show no panel and keep the connection as it is.\<close>

lemma quiet_shell_left_alone:
  assumes "live e s" and "ev \<in> {Tick, Resume, Activate}"
  shows "let (s', out) = handle ok e s ev
    in out = [] \<and> live e s' \<and> c_panel s' = c_panel s \<and> c_phase s' = c_phase s \<and>
       c_socket s' = c_socket s \<and> c_retries s' = c_retries s \<and> c_stored s' = c_stored s"
proof -
  obtain f t h where r: "resume ok e s = (s\<lparr>c_foreground := f, c_since := t, c_hiddenAt := h\<rparr>, [])"
    using resume_live [OF assms(1)] by blast
  obtain f' t' where k: "tick ok e s = (s\<lparr>c_foreground := f', c_since := t'\<rparr>, [])"
    using tick_live [OF assms(1)] by blast
  show ?thesis
    using assms r k by (cases "c_timer s") (auto simp: activate_def live_def socket_dead_def)
qed

definition demo_env :: "int \<Rightarrow> env" where
  "demo_env now = \<lparr>e_now = now, e_hidden = False, e_frame_shown = True, e_online = True, e_body = True,
     e_state = (\<lambda>_. 1), e_owner = Some \<lparr>ow_socket = Some 7, ow_disposes = True, ow_reconnects = True\<rparr>,
     e_trackable = True\<rparr>"

definition demo_conn :: conn where
  "demo_conn = (boot True (demo_env 0) None)\<lparr>c_socket := Some 7, c_ready := True, c_phase := AwaitingOutput\<rparr>"

theorem quiet_shell_left_alone_witness:
  "snd (handle True (demo_env 3600000) demo_conn Tick) = []"
proof -
  have "live (demo_env 3600000) demo_conn"
    by (simp add: live_def demo_conn_def demo_env_def socket_dead_def)
  from quiet_shell_left_alone [OF this, of Tick True] show ?thesis by (auto simp: Let_def split: prod.splits)
qed

text \<open>What a tick does to a closed terminal, case by case: \<open>n\<close> attempts were made, the close is \<open>wait\<close> old.\<close>

definition attempt_due :: "nat \<Rightarrow> int \<Rightarrow> bool" where
  "attempt_due n wait \<longleftrightarrow> n = 0 \<or> (n = 1 \<and> 1000 \<le> wait) \<or> (n = 2 \<and> 4000 \<le> wait)"

definition closed_tick :: "bool \<Rightarrow> env \<Rightarrow> conn \<Rightarrow> conn \<times> eff list \<Rightarrow> bool" where
  "closed_tick ok e s r \<longleftrightarrow>
     (let n = c_retries s; wait = e_now e - c_closedAt s; s' = fst r; out = snd r in
      if \<not> isForeground e then s' = s\<lparr>c_foreground := False\<rparr> \<and> out = []
      else if \<not> e_online e then out = [] \<and> c_phase s' = Closed \<and> c_retries s' = n \<and> c_panel s' = Some Waiting
      else if n = 3
      then c_exhausted s' \<and> c_panel s' = Some FailedRetry \<and> recoveries out = 0
      else if \<not> attempt_due n wait then out = [] \<and> c_phase s' = Closed \<and> c_retries s' = n \<and> c_closedAt s' = c_closedAt s
      else if \<not> ok then recoveries out = 0 \<and> c_stopped s' \<and> c_panel s' = Some Failed
      else if owner_reconnects e s
      then out = [Log (event_name s), Dispose, Log ''inplace-reconnect'', RefreshToken] \<and>
           c_phase s' = Reconnecting \<and> c_retries s' = n + 1 \<and> c_stored s' = Some (n + 1)
      else out = [Log (event_name s), Reload] \<and> c_stopped s' \<and> c_stored s' = Some (n + 1))"

lemma closed_tick_spec:
  assumes s: "c_phase s = Closed" "\<not> c_ready s" "\<not> c_stopped s" "\<not> c_exhausted s" "c_retries s \<le> 3"
    and e: "e_body e" "c_closedAt s \<le> e_now e"
  shows "closed_tick ok e s (tick ok e s)"
proof -
  define s1 where "s1 = (if c_foreground s then s else s\<lparr>c_foreground := True, c_since := e_now e\<rparr>)"
  have nd: "notice_dead e s1 = s1" using s by (simp add: notice_dead_def s1_def)
  define s2 where "s2 = back_online e s1"
  have same: "c_phase s2 = Closed" "c_retries s2 = c_retries s" "c_closedAt s2 = c_closedAt s" "c_socket s2 = c_socket s"
    "event_name s2 = event_name s" "owner_reconnects e s2 = owner_reconnects e s"
    using s by (simp_all add: s2_def s1_def back_online_def event_name_def owner_reconnects_def)
  have t: "tick ok e s =
      (if \<not> isForeground e then (s\<lparr>c_foreground := False\<rparr>, [])
       else if \<not> e_online e then (show_panel e Waiting (s1\<lparr>c_wasOffline := True\<rparr>), []) else deadlines ok e s2)"
    using s nd by (simp add: tick_def s1_def [symmetric] s2_def Let_def) (simp add: s1_def)
  have n: "c_retries s = 0 \<or> c_retries s = 1 \<or> c_retries s = 2 \<or> c_retries s = 3" using s by linarith
  have d: "deadlines ok e s2 =
      (if c_retries s \<noteq> 3 \<and> \<not> attempt_due (c_retries s) (e_now e - c_closedAt s) then (s2, []) else attempt ok e s2)"
    using n e(2) same by (auto simp: deadlines_def attempt_due_def retry_delay_def Let_def)
  show ?thesis
  proof (cases "isForeground e \<and> e_online e")
    case False
    then show ?thesis using s e by (auto simp: closed_tick_def t show_panel_def s1_def)
  next
    case True
    have a: "attempt ok e s2 =
        (if c_retries s = 3
         then ((show_panel e FailedRetry s2)\<lparr>c_exhausted := True\<rparr>,
               (if owner_of e (c_socket s) then [Dispose] else []) @ [Log ''retry-limit''])
         else let s3 = show_panel e Stalled s2
              in if owner_reconnects e s
                 then if ok
                      then (s3\<lparr>c_stored := Some (c_retries s + 1), c_retries := c_retries s + 1,
                               c_since := e_now e, c_phase := Reconnecting, c_resumeClosed := False\<rparr>,
                            [Log (event_name s), Dispose, Log ''inplace-reconnect'', RefreshToken])
                      else (show_panel e Failed (s3\<lparr>c_stopped := True\<rparr>), [Log (event_name s), Dispose])
                 else if ok
                      then (s3\<lparr>c_stopped := True, c_timer := False, c_stored := Some (c_retries s + 1)\<rparr>, [Log (event_name s), Reload])
                      else (show_panel e Failed (s3\<lparr>c_stopped := True, c_timer := False\<rparr>), [Log (event_name s)]))"
      unfolding attempt_def same using n by (simp add: Let_def) linarith
    show ?thesis using True e same unfolding closed_tick_def t d a
      by (auto simp: show_panel_def recoveries_def Let_def)
  qed
qed

text \<open>The state the close event of the current socket leaves, before its tick.\<close>

definition just_closed :: "env \<Rightarrow> nat \<Rightarrow> conn \<Rightarrow> conn" where
  "just_closed e code s =
     s\<lparr>c_tracking := c_tracking s \<or> e_trackable e, c_closing := True, c_since := (if c_ready s then e_now e else c_since s),
       c_ready := False, c_phase := Closed, c_closeCode := Some code, c_closedAt := e_now e\<rparr>"

text \<open>C34. A closed terminal is recovered promptly but not hastily. Take a terminal whose socket closed, that has not
  been stopped and has not given up, on a page with a body and a clock that does not run backwards. A tick on a page that
  is not in the foreground only notes that; offline it shows that it waits and keeps its attempts. In the
  foreground and online, the first attempt is made at once, the second no earlier than 1000 and the third no earlier than 4000
  milliseconds after the close, and each by the first tick from then on: with a controller that can reconnect, in
  place, after disposing of the old connection, and otherwise by reloading the page, with the attempt counted in the
  page's storage; without that storage it stops with a message instead. With three attempts used up it gives up with
  the retry button and tries nothing more. The close event of the current socket, in any phase, does all this
  itself, so the first attempt is part of it.\<close>

theorem closed_terminal_recovers:
  assumes "\<not> c_stopped s" "\<not> c_exhausted s" "c_retries s \<le> 3" "e_body e"
  shows "(c_phase s = Closed \<and> \<not> c_ready s \<and> c_closedAt s \<le> e_now e \<longrightarrow> closed_tick ok e s (tick ok e s)) \<and>
    (c_socket s = Some i \<longrightarrow>
       (\<exists>r. onClose ok e i code s = (fst r, Log ''socket-close'' # snd r) \<and> closed_tick ok e (just_closed e code s) r))"
proof -
  have "closed_tick ok e (just_closed e code s) (tick ok e (just_closed e code s))"
    by (rule closed_tick_spec) (use assms in \<open>simp_all add: just_closed_def\<close>)
  moreover have "onClose ok e i code s =
      (fst (tick ok e (just_closed e code s)), Log ''socket-close'' # snd (tick ok e (just_closed e code s)))" if "c_socket s = Some i"
    using assms that by (simp add: onClose_def just_closed_def Let_def split: prod.split)
  ultimately show ?thesis using closed_tick_spec assms by blast
qed

theorem closed_terminal_recovers_witness:
  "snd (tick True (demo_env 6000) (demo_conn\<lparr>c_ready := False, c_phase := Closed, c_closedAt := 5000, c_retries := 1\<rparr>)) =
     [Log ''closed-reconnect'', Dispose, Log ''inplace-reconnect'', RefreshToken]"
proof -
  let ?e = "demo_env 6000" and ?s = "demo_conn\<lparr>c_ready := False, c_phase := Closed, c_closedAt := 5000, c_retries := 1\<rparr>"
  have n: "event_name ?s = ''closed-reconnect''" by (simp add: event_name_def demo_conn_def boot_def)
  have h: "\<not> c_stopped ?s" "\<not> c_exhausted ?s" "c_retries ?s \<le> 3" "e_body ?e" "isForeground ?e" "e_online ?e"
    "owner_reconnects ?e ?s" "c_phase ?s = Closed" "\<not> c_ready ?s" "c_closedAt ?s \<le> e_now ?e"
    by (simp_all add: isForeground_def demo_env_def demo_conn_def boot_def owner_reconnects_def owner_of_def)
  have "closed_tick True ?e ?s (tick True ?e ?s)" using closed_terminal_recovers [OF h(1-4)] h by blast
  then show ?thesis using h n by (simp add: closed_tick_def Let_def) (simp add: attempt_due_def demo_env_def demo_conn_def boot_def)
qed

section \<open>Superseded sockets and broken mouse reports\<close>

text \<open>Only the newest socket reaches the state.\<close>

lemma superseded_inert:
  assumes "c_socket s \<noteq> Some i"
  shows "handle ok e s (Opened i) = (s, [])" "handle ok e s (Message i d) = (s, [])"
    "handle ok e s (ClosedEv i code) = (s, [])" "handle ok e s (ErrorEv i) = (s, [])"
  using assms by (simp_all add: onOpen_def onMessage_def onClose_def onError_def)

lemma dropWhile_tail: "dropWhile P xs = y # ys \<Longrightarrow> suffix ys xs"
  by (metis suffix_ConsD suffix_dropWhile)

lemma match_report_suffix: "match_report s = Some (c, r, rest) \<Longrightarrow> suffix rest s"
  unfolding match_report_def Let_def
  by (auto split: list.splits if_splits dest!: dropWhile_tail intro!: suffix_ConsI elim!: suffix_order.trans)

lemma pieces_Cons_match:
  assumes "match_report (x # xs) = Some (c, r, rest)"
  shows "\<exists>pre. x # xs = pre @ rest \<and> pieces (x # xs) =
    (if all_digits c \<and> all_digits r then GoodReport pre else BadReport pre) # pieces rest"
proof -
  obtain pre where p: "x # xs = pre @ rest" using match_report_suffix [OF assms] by (auto simp: suffix_def)
  then have t: "take (length (x # xs) - length rest) (x # xs) = pre" by simp
  have "pieces (x # xs) = (if all_digits c \<and> all_digits r then GoodReport else BadReport)
      (take (length (x # xs) - length rest) (x # xs)) # pieces rest"
    by (simp only: pieces.simps assms option.case prod.case)
  then show ?thesis using p unfolding t by (intro exI [of _ pre]) simp
qed

lemma pieces_text: "concat (map piece_text (pieces s)) = s"
proof (induction s rule: pieces.induct)
  case (2 x xs)
  show ?case
  proof (cases "match_report (x # xs)")
    case None
    then show ?thesis using "2.IH"(1) by simp
  next
    case (Some m)
    obtain c r rest where m: "m = (c, r, rest)" by (cases m)
    obtain pre where p: "x # xs = pre @ rest" and ps: "pieces (x # xs) =
        (if all_digits c \<and> all_digits r then GoodReport pre else BadReport pre) # pieces rest"
      using pieces_Cons_match Some m by blast
    have "concat (map piece_text (pieces (x # xs))) = pre @ concat (map piece_text (pieces rest))"
      unfolding ps by simp
    then show ?thesis using "2.IH"(2) [OF Some m [symmetric] refl] p by simp
  qed
qed simp

text \<open>A frame without a broken report is sent as it is; what is dropped are whole broken reports.\<close>

lemma cleanInput_spec:
  assumes "bytes \<noteq> []" "hd bytes = 48"
  shows "(\<not> list_ex is_bad (pieces (decode (tl bytes))) \<longrightarrow> cleanInput decode encode bytes = Some bytes) \<and>
    (cleanInput decode encode bytes = None \<longleftrightarrow>
       list_ex is_bad (pieces (decode (tl bytes))) \<and> kept_text (decode (tl bytes)) = [])"
  using assms by (simp add: cleanInput_def Let_def)

end
