(* ===== verification/TermHttp.thy ===== *)
theory TermHttp
  imports JsStr
begin

text \<open>
  \<^verbatim>\<open>apps/everyday/terminal/terminal-http.js\<close>: the WebSocket that falls back to HTTPS requests. The
  object's fields are the record \<open>hws\<close>. Asynchronous code is cut where it awaits: a request that
  is issued is an output of the step, its outcome is an event. Base64 and UTF-8 of the data are
  the browser's and not modelled: frames are byte lists. A listener of \<open>message\<close> may call back into the
  socket while a frame of a response is dispatched: it may close it, or fail it (a \<open>send\<close> over the limits).
  Other sends of a listener do not meet what the delivery reads or writes, so they are events of their own,
  and listeners of the other kinds are taken not to call back while their event is dispatched.
\<close>

section \<open>State, events, outputs\<close>

datatype ws_state = SConnecting | SOpen | SClosed

record out_frame =
  f_bytes :: "nat list"
  f_binary :: bool

record in_frame =
  i_seq :: nat
  i_bytes :: "nat list"
  i_binary :: bool

record response =
  rs_frames :: "in_frame list"
  rs_closed :: bool
  rs_ack :: bool

datatype request =
    ReqOpen
  | ReqStream nat
  | ReqPoll nat
  | ReqAck nat
  | ReqSend nat "out_frame list"
  | ReqClose

record hws =
  h_state :: ws_state
  h_http :: bool
  h_streaming :: bool
  h_seq :: nat
  h_after :: nat
  h_sending :: bool
  h_queue :: "out_frame list"
  h_buffered :: nat
  h_inflight :: nat
  h_ackPending :: bool
  h_ackTimer :: bool
  h_ackAfter :: nat
  h_streamFailures :: nat

text \<open>\<open>h_inflight\<close> is the size of what the pending send request carries (a local variable of \<open>_flush\<close>).\<close>

datatype emit =
    EmitOpen
  | EmitMessage nat "nat list" bool
  | EmitNative
  | EmitError
  | EmitClose nat bool

datatype out = Emit emit | Request request | NativeSend out_frame | NativeClose | Throw | FlushSoon

definition hws_init :: hws where
  "hws_init = \<lparr>h_state = SConnecting, h_http = False, h_streaming = False, h_seq = 0, h_after = 0,
     h_sending = False, h_queue = [], h_buffered = 0, h_inflight = 0, h_ackPending = False,
     h_ackTimer = False, h_ackAfter = 0, h_streamFailures = 0\<rparr>"

section \<open>Closing\<close>

definition finish_http :: "nat \<Rightarrow> bool \<Rightarrow> hws \<Rightarrow> hws \<times> out list" where
  "finish_http code clean s =
     (if h_state s = SClosed then (s, [])
      else (s\<lparr>h_state := SClosed, h_ackTimer := False, h_queue := [], h_buffered := 0\<rparr>,
            [Emit (EmitClose code clean)]))"

definition close_http :: "nat \<Rightarrow> hws \<Rightarrow> hws \<times> out list" where
  "close_http code s =
     (if h_state s = SClosed then (s, [])
      else let (s', out) = finish_http (if code = 0 then 1000 else code) (code \<noteq> 1006) s
           in (s', (if h_http s then Request ReqClose else NativeClose) # out))"

definition fail_http :: "hws \<Rightarrow> hws \<times> out list" where
  "fail_http s = (if h_state s = SClosed then (s, [])
                  else let (s', out) = close_http 1006 s in (s', Emit EmitError # out))"

section \<open>Opening\<close>

definition native_open :: "hws \<Rightarrow> hws \<times> out list" where
  "native_open s = (if h_http s \<or> h_state s \<noteq> SConnecting then (s, [])
                    else (s\<lparr>h_state := SOpen\<rparr>, [Emit EmitOpen]))"

definition fallback :: "hws \<Rightarrow> hws \<times> out list" where
  "fallback s = (if h_http s \<or> h_state s \<noteq> SConnecting then (s, [])
                 else (s\<lparr>h_http := True\<rparr>, [NativeClose, Request ReqOpen]))"

definition native_error :: "hws \<Rightarrow> hws \<times> out list" where
  "native_error s = (if h_http s \<or> h_state s = SClosed then (s, [])
                     else if h_state s = SConnecting then fallback s else (s, [Emit EmitError]))"

definition native_close :: "nat \<Rightarrow> bool \<Rightarrow> hws \<Rightarrow> hws \<times> out list" where
  "native_close code clean s = (if h_http s \<or> h_state s = SClosed then (s, [])
                     else if h_state s = SConnecting then fallback s else finish_http code clean s)"

text \<open>One turn of \<open>_poll\<close>: the next request.\<close>

definition poll_next :: "hws \<Rightarrow> out list" where
  "poll_next s = (if h_state s \<noteq> SOpen then []
                  else if h_streaming s then [Request (ReqStream (h_after s))]
                  else [Request (ReqPoll (h_after s))])"

definition fallback_opened :: "bool \<Rightarrow> hws \<Rightarrow> hws \<times> out list" where
  "fallback_opened streaming s0 =
     (let s = s0\<lparr>h_streaming := streaming\<rparr>
      in if h_state s = SClosed then (s, [])
         else let s1 = s\<lparr>h_state := SOpen\<rparr> in (s1, Emit EmitOpen # poll_next s1))"

section \<open>Receiving\<close>

text \<open>What the listeners do to the socket when they get the message of a frame.\<close>

datatype listener = Stays | Closes nat | Overflows

definition listen :: "listener \<Rightarrow> hws \<Rightarrow> hws \<times> out list" where
  "listen l s = (case l of Stays \<Rightarrow> (s, []) | Closes code \<Rightarrow> close_http code s | Overflows \<Rightarrow> if h_state s = SOpen then fail_http s else (s, []))"

text \<open>
  The loop over the frames: what is new is emitted and acknowledged by \<open>_after\<close>; the state is not looked
  at again, so the loop goes on when a listener has closed the socket.
\<close>

fun deliver_frames :: "(nat \<Rightarrow> listener) \<Rightarrow> in_frame list \<Rightarrow> hws \<Rightarrow> hws \<times> out list" where
  "deliver_frames L [] s = (s, [])"
| "deliver_frames L (f # fs) s =
     (if i_seq f \<le> h_after s then deliver_frames L fs s
      else let (s1, o1) = listen (L (i_seq f)) s;
               (s2, o2) = deliver_frames L fs (s1\<lparr>h_after := i_seq f\<rparr>)
           in (s2, Emit (EmitMessage (i_seq f) (i_bytes f) (i_binary f)) # o1 @ o2))"

definition deliver :: "(nat \<Rightarrow> listener) \<Rightarrow> response \<Rightarrow> hws \<Rightarrow> hws \<times> out list" where
  "deliver L r s =
     (if h_state s \<noteq> SOpen then (s, [])
      else let (s1, o1) = deliver_frames L (rs_frames r) s
           in if rs_closed r
              then let (s2, o2) = finish_http 1000 True s1 in (s2, o1 @ o2)
              else if h_streaming s1 \<and> (rs_frames r \<noteq> [] \<or> rs_ack r) \<and> \<not> h_ackPending s1
              then (s1\<lparr>h_ackPending := True, h_ackTimer := True\<rparr>, o1)
              else (s1, o1))"

text \<open>The timer of the acknowledgement; \<open>_request\<close> throws at once when the socket is closed.\<close>

definition ack_timer :: "hws \<Rightarrow> hws \<times> out list" where
  "ack_timer s = (if \<not> h_ackTimer s then (s, [])
                  else if h_state s = SClosed then (s\<lparr>h_ackTimer := False, h_ackPending := False\<rparr>, [])
                  else (s\<lparr>h_ackTimer := False, h_ackAfter := h_after s\<rparr>, [Request (ReqAck (h_after s))]))"

definition ack_settled :: "bool \<Rightarrow> hws \<Rightarrow> hws \<times> out list" where
  "ack_settled ok s =
     (let (s1, out1) = (if ok then (s, []) else fail_http s);
          s2 = s1\<lparr>h_ackPending := False\<rparr>;
          (s3, out2) = (if h_after s2 > h_ackAfter s2
                        then deliver (\<lambda>_. Stays) \<lparr>rs_frames = [], rs_closed = False, rs_ack = True\<rparr> s2 else (s2, []))
      in (s3, out1 @ out2))"

text \<open>A line of the stream; \<open>chunk.value\<close> first clears the failures.\<close>

definition stream_line :: "(nat \<Rightarrow> listener) \<Rightarrow> response \<Rightarrow> hws \<Rightarrow> hws \<times> out list" where
  "stream_line L r s = deliver L r (s\<lparr>h_streamFailures := 0\<rparr>)"

definition stream_failed :: "bool \<Rightarrow> hws \<Rightarrow> hws \<times> out list" where
  "stream_failed permanent s =
     (if permanent \<or> h_state s = SClosed then fail_http s
      else let s1 = s\<lparr>h_streamFailures := h_streamFailures s + 1\<rparr>
           in if h_streamFailures s1 > 2 then fail_http s1 else (s1, poll_next s1))"

definition poll_answered :: "(nat \<Rightarrow> listener) \<Rightarrow> response \<Rightarrow> hws \<Rightarrow> hws \<times> out list" where
  "poll_answered L r s =
     (if h_state s \<noteq> SOpen then (s, [])
      else let (s1, out) = deliver L r s in (s1, out @ poll_next s1))"

text \<open>Splitting the stream's text into lines: the complete lines and what is kept as \<open>pending\<close>.\<close>

definition feed :: "string \<Rightarrow> string \<Rightarrow> string list \<times> string" where
  "feed pending chunk = (let ps = js_split (CHR 0x0A) (pending @ chunk) in (butlast ps, last ps))"

section \<open>Sending\<close>

definition head_is :: "nat \<Rightarrow> out_frame \<Rightarrow> bool" where
  "head_is c f \<longleftrightarrow> f_bytes f \<noteq> [] \<and> hd (f_bytes f) = c"

definition f_size :: "out_frame \<Rightarrow> nat" where "f_size f = length (f_bytes f)"

definition FRAME_LIMIT :: nat where "FRAME_LIMIT = 256 * 1024"
definition BUFFER_LIMIT :: nat where "BUFFER_LIMIT = 1024 * 1024"

text \<open>The resizes that follow, at most \<open>room\<close> of them.\<close>

fun take_resizes :: "nat \<Rightarrow> out_frame list \<Rightarrow> out_frame list \<times> out_frame list" where
  "take_resizes (Suc room) (f # q) =
     (if head_is 49 f then let (fs, q') = take_resizes room q in (f # fs, q') else ([], f # q))"
| "take_resizes _ q = ([], q)"

text \<open>The inputs that can be appended to a request of size \<open>sz\<close>.\<close>

fun take_inputs :: "bool \<Rightarrow> nat \<Rightarrow> out_frame list \<Rightarrow> out_frame list \<times> out_frame list" where
  "take_inputs binary sz [] = ([], [])"
| "take_inputs binary sz (f # q) =
     (if f_binary f \<noteq> binary \<or> \<not> head_is 48 f \<or> sz + f_size f > FRAME_LIMIT then ([], f # q)
      else let (fs, q') = take_inputs binary (sz + f_size f) q in (f # fs, q'))"

text \<open>
  The next batch: the frames taken from the queue, the frames of the request, and the rest of
  the queue.
\<close>

definition next_batch :: "out_frame \<Rightarrow> out_frame list \<Rightarrow> out_frame list \<times> out_frame list \<times> out_frame list" where
  "next_batch first q =
     (let (rz, q1) = (if head_is 49 first then take_resizes 15 q else ([], q))
      in if rz \<noteq> [] then (first # rz, first # rz, q1)
         else let (ins, q2) = (if head_is 48 first then take_inputs (f_binary first) (f_size first) q else ([], q))
              in (first # ins,
                  [\<lparr>f_bytes = f_bytes first @ concat (map (tl \<circ> f_bytes) ins), f_binary = f_binary first\<rparr>], q2))"

definition flush_next :: "hws \<Rightarrow> hws \<times> out list" where
  "flush_next s =
     (case h_queue s of
        [] \<Rightarrow> (s\<lparr>h_sending := False\<rparr>, [])
      | first # q \<Rightarrow>
          if h_state s \<noteq> SOpen then (s\<lparr>h_sending := False\<rparr>, [])
          else let (taken, frames, q') = next_batch first q
               in (s\<lparr>h_queue := q', h_seq := h_seq s + length frames, h_inflight := sum_list (map f_size taken)\<rparr>,
                   [Request (ReqSend (h_seq s + 1) frames)]))"

definition flush_http :: "hws \<Rightarrow> hws \<times> out list" where
  "flush_http s = (if h_sending s then (s, []) else flush_next (s\<lparr>h_sending := True\<rparr>))"

definition send_done :: "hws \<Rightarrow> hws \<times> out list" where
  "send_done s =
     (if h_state s \<noteq> SOpen then (s\<lparr>h_sending := False\<rparr>, [])
      else flush_next (s\<lparr>h_buffered := h_buffered s - h_inflight s, h_inflight := 0\<rparr>))"

definition send_failed :: "hws \<Rightarrow> hws \<times> out list" where
  "send_failed s = (let (s', out) = fail_http s in (s'\<lparr>h_sending := False\<rparr>, out))"

definition send :: "out_frame \<Rightarrow> hws \<Rightarrow> hws \<times> out list" where
  "send f s =
     (if h_state s = SConnecting then (s, [Throw])
      else if h_state s \<noteq> SOpen then (s, [])
      else if \<not> h_http s then (s, [NativeSend f])
      else if f_size f > FRAME_LIMIT \<or> h_buffered s + f_size f > BUFFER_LIMIT then fail_http s
      else let s1 = s\<lparr>h_queue := h_queue s @ [f], h_buffered := h_buffered s + f_size f\<rparr>
           in if head_is 49 f \<and> \<not> h_sending s1 then (s1, [FlushSoon]) else flush_http s1)"

section \<open>One request with its retries\<close>

datatype outcome = Ok response | Rejected nat | NetworkError

definition permanent :: "outcome \<Rightarrow> bool" where
  "permanent x = (case x of Rejected st \<Rightarrow> 400 \<le> st \<and> st < 500 | _ \<Rightarrow> False)"

text \<open>
  \<open>_request\<close>: the outcomes of the successive fetches and whether the socket is closed when one
  has failed; the result and how many fetches were made.
\<close>

fun request_loop :: "nat \<Rightarrow> nat \<Rightarrow> (outcome \<times> bool) list \<Rightarrow> (bool + response) option \<times> nat" where
  "request_loop retries attempt [] = (None, attempt)"
| "request_loop retries attempt ((x, shut) # xs) =
     (case x of
        Ok r \<Rightarrow> (Some (Inr r), Suc attempt)
      | _ \<Rightarrow> if permanent x \<or> attempt \<ge> retries \<or> shut then (Some (Inl (permanent x)), Suc attempt)
             else request_loop retries (Suc attempt) xs)"

section \<open>All events\<close>

datatype hev =
    NativeOpened | NativeMessage | NativeFailed | NativeClosed nat bool | OpenTimeout
  | FallbackOpened bool | FallbackFailed | StreamLine "nat \<Rightarrow> listener" response | StreamEnded | StreamFailed bool
  | PollAnswered "nat \<Rightarrow> listener" response | PollFailed | AckTimer | AckSettled bool
  | Send out_frame | Flush | SendDone | SendFailed | CloseCall nat

primrec http_step :: "hws \<Rightarrow> hev \<Rightarrow> hws \<times> out list" where
  "http_step s NativeOpened = native_open s"
| "http_step s NativeMessage = (s, if h_http s \<or> h_state s \<noteq> SOpen then [] else [Emit EmitNative])"
| "http_step s NativeFailed = native_error s"
| "http_step s (NativeClosed code clean) = native_close code clean s"
| "http_step s OpenTimeout = (if h_state s = SConnecting then fallback s else (s, []))"
| "http_step s (FallbackOpened streaming) = fallback_opened streaming s"
| "http_step s FallbackFailed = fail_http s"
| "http_step s (StreamLine L r) = stream_line L r s"
| "http_step s StreamEnded = (s, poll_next s)"
| "http_step s (StreamFailed p) = stream_failed p s"
| "http_step s (PollAnswered L r) = poll_answered L r s"
| "http_step s PollFailed = fail_http s"
| "http_step s AckTimer = ack_timer s"
| "http_step s (AckSettled ok) = ack_settled ok s"
| "http_step s (Send f) = send f s"
| "http_step s Flush = flush_http s"
| "http_step s SendDone = (if h_sending s then send_done s else (s, []))"
| "http_step s SendFailed = (if h_sending s then send_failed s else (s, []))"
| "http_step s (CloseCall code) = close_http code s"

end
