(* ===== verification/TermHttpProps.thy ===== *)
theory TermHttpProps
  imports TermHttp
begin

text \<open>
  What the HTTPS fallback guarantees: what ttyd is sent is what the client sent, in order, whatever
  is joined or grouped; what the client receives arrives once and in order; the close is
  reported once, and after it no later event emits anything.
\<close>

section \<open>What a frame means to the receiver\<close>

text \<open>
  ttyd reads the input frames ('0') of one kind as one stream of bytes; every other frame counts as
  it is.
\<close>

datatype meaning = TypedByte bool nat | WholeFrame out_frame

definition meaning_of :: "out_frame \<Rightarrow> meaning list" where
  "meaning_of f = (if head_is 48 f then map (TypedByte (f_binary f)) (tl (f_bytes f)) else [WholeFrame f])"

definition meanings :: "out_frame list \<Rightarrow> meaning list" where
  "meanings fs = concat (map meaning_of fs)"

lemma meanings_simps [simp]:
  "meanings [] = []" "meanings (f # fs) = meaning_of f @ meanings fs"
  "meanings (fs @ gs) = meanings fs @ meanings gs"
  by (simp_all add: meanings_def)

definition sizes :: "out_frame list \<Rightarrow> nat" where "sizes fs = sum_list (map f_size fs)"

lemma sizes_simps [simp]:
  "sizes [] = 0" "sizes (f # fs) = f_size f + sizes fs" "sizes (fs @ gs) = sizes fs + sizes gs"
  by (simp_all add: sizes_def)

lemma take_resizes_split: "take_resizes n q = (fs, q') \<Longrightarrow> q = fs @ q'"
  by (induction n q arbitrary: fs q' rule: take_resizes.induct) (auto split: if_splits prod.splits)

lemma take_inputs_split:
  "take_inputs b sz q = (fs, q') \<Longrightarrow>
     q = fs @ q' \<and> (\<forall>f\<in>set fs. f_binary f = b \<and> head_is 48 f) \<and> (sz \<le> FRAME_LIMIT \<longrightarrow> sz + sizes fs \<le> FRAME_LIMIT)"
proof (induction b sz q arbitrary: fs q' rule: take_inputs.induct)
  case (2 binary sz f q)
  show ?case
  proof (cases "f_binary f \<noteq> binary \<or> \<not> head_is 48 f \<or> sz + f_size f > FRAME_LIMIT")
    case True
    then show ?thesis using "2.prems" by auto
  next
    case False
    obtain gs r where g: "take_inputs binary (sz + f_size f) q = (gs, r)" by fastforce
    then have "fs = f # gs" "q' = r" using "2.prems" False by auto
    then show ?thesis using "2.IH" [OF False g] False by (simp add: add.assoc)
  qed
qed simp

lemma joined_meaning:
  assumes "head_is 48 f" "\<forall>g\<in>set gs. f_binary g = f_binary f \<and> head_is 48 g"
  shows "meaning_of \<lparr>f_bytes = f_bytes f @ concat (map (tl \<circ> f_bytes) gs), f_binary = f_binary f\<rparr> =
    meanings (f # gs)"
proof -
  have m: "meanings gs = map (TypedByte (f_binary f)) (concat (map (tl \<circ> f_bytes) gs))"
    using assms(2) by (induction gs) (simp_all add: meaning_of_def)
  have "head_is 48 \<lparr>f_bytes = f_bytes f @ concat (map (tl \<circ> f_bytes) gs), f_binary = f_binary f\<rparr>"
    using assms(1) by (simp add: head_is_def)
  then show ?thesis using assms(1) m by (simp add: meaning_of_def head_is_def)
qed

lemma next_batch_spec:
  assumes "next_batch f q = (taken, frames, q')"
  shows "f # q = taken @ q'" "meanings frames = meanings taken" "frames \<noteq> []"
proof -
  obtain rz q1 where r: "(if head_is 49 f then take_resizes 15 q else ([], q)) = (rz, q1)" by fastforce
  obtain ins q2 where i: "(if head_is 48 f then take_inputs (f_binary f) (f_size f) q else ([], q)) = (ins, q2)"
    by fastforce
  have rs: "q = rz @ q1" using r by (auto split: if_splits dest: take_resizes_split)
  have inp: "q = ins @ q2" "\<forall>g\<in>set ins. f_binary g = f_binary f \<and> head_is 48 g"
    using i by (auto split: if_splits dest: take_inputs_split)
  let ?joined = "\<lparr>f_bytes = f_bytes f @ concat (map (tl \<circ> f_bytes) ins), f_binary = f_binary f\<rparr>"
  have nb: "next_batch f q = (if rz \<noteq> [] then (f # rz, f # rz, q1) else (f # ins, [?joined], q2))"
    unfolding next_batch_def Let_def r i prod.case ..
  have "f # q = taken @ q' \<and> meanings frames = meanings taken \<and> frames \<noteq> []"
  proof (cases "rz = []")
    case False
    then show ?thesis using assms rs unfolding nb by auto
  next
    case True
    then have e: "taken = f # ins" "q' = q2" "frames = [?joined]" using assms unfolding nb by auto
    show ?thesis
    proof (cases "head_is 48 f")
      case h: True
      then show ?thesis unfolding e using inp joined_meaning [OF h inp(2)] by simp
    next
      case False
      then have n: "ins = []" using i by simp
      have "\<lparr>f_bytes = f_bytes f, f_binary = f_binary f\<rparr> = f" by simp
      then have j: "?joined = f" unfolding n by simp
      show ?thesis unfolding e j using inp n by simp
    qed
  qed
  then show "f # q = taken @ q'" "meanings frames = meanings taken" "frames \<noteq> []" by auto
qed

section \<open>A run with its log\<close>

record hrun =
  hr_s :: hws
  hr_accepted :: "out_frame list"
  hr_sent :: "(nat \<times> out_frame list) list"
  hr_emits :: "emit list"

definition accepts :: "hws \<Rightarrow> hev \<Rightarrow> out_frame list" where
  "accepts s e = (case e of
     Send f \<Rightarrow> if h_state s = SOpen \<and> h_http s \<and> f_size f \<le> FRAME_LIMIT \<and> h_buffered s + f_size f \<le> BUFFER_LIMIT
              then [f] else []
   | _ \<Rightarrow> [])"

definition sent_in :: "out list \<Rightarrow> (nat \<times> out_frame list) list" where
  "sent_in os = concat (map (\<lambda>x. case x of Request (ReqSend n fs) \<Rightarrow> [(n, fs)] | _ \<Rightarrow> []) os)"

definition emits_in :: "out list \<Rightarrow> emit list" where
  "emits_in os = concat (map (\<lambda>x. case x of Emit e \<Rightarrow> [e] | _ \<Rightarrow> []) os)"

lemma outs_simps [simp]:
  "sent_in [] = []" "sent_in (xs @ ys) = sent_in xs @ sent_in ys"
  "sent_in (x # xs) = (case x of Request (ReqSend n fs) \<Rightarrow> [(n, fs)] | _ \<Rightarrow> []) @ sent_in xs"
  "emits_in [] = []" "emits_in (xs @ ys) = emits_in xs @ emits_in ys"
  "emits_in (x # xs) = (case x of Emit e \<Rightarrow> [e] | _ \<Rightarrow> []) @ emits_in xs"
  "sent_in (map Emit es) = []" "emits_in (map Emit es) = es"
  by (simp_all add: sent_in_def emits_in_def comp_def)

definition hrun_step :: "hrun \<Rightarrow> hev \<Rightarrow> hrun" where
  "hrun_step r e =
     (let (s, os) = http_step (hr_s r) e
      in \<lparr>hr_s = s, hr_accepted = hr_accepted r @ accepts (hr_s r) e,
          hr_sent = hr_sent r @ sent_in os, hr_emits = hr_emits r @ emits_in os\<rparr>)"

definition frames_sent :: "hrun \<Rightarrow> out_frame list" where
  "frames_sent r = concat (map snd (hr_sent r))"

text \<open>Request numbers: each says how many frames went before, plus one.\<close>

fun numbered :: "nat \<Rightarrow> (nat \<times> out_frame list) list \<Rightarrow> bool" where
  "numbered n [] = True"
| "numbered n ((k, fs) # xs) = (k = n + 1 \<and> numbered (n + length fs) xs)"

lemma numbered_append:
  "numbered n (xs @ ys) \<longleftrightarrow> numbered n xs \<and> numbered (n + length (concat (map snd xs))) ys"
  by (induction n xs rule: numbered.induct) (auto simp: add.assoc)

definition send_inv :: "hrun \<Rightarrow> bool" where
  "send_inv r \<longleftrightarrow>
     (let s = hr_s r in
      (h_state s = SOpen \<longrightarrow>
         meanings (frames_sent r) @ meanings (h_queue s) = meanings (hr_accepted r) \<and>
         h_buffered s = sizes (h_queue s) + h_inflight s \<and> (\<not> h_sending s \<longrightarrow> h_inflight s = 0)) \<and>
      prefix (meanings (frames_sent r)) (meanings (hr_accepted r)) \<and>
      (h_state s = SConnecting \<longrightarrow> hr_accepted r = [] \<and> h_queue s = [] \<and> h_inflight s = 0 \<and> h_buffered s = 0) \<and>
      h_buffered s \<le> BUFFER_LIMIT \<and>
      numbered 0 (hr_sent r) \<and> h_seq s = length (frames_sent r))"

text \<open>What every step other than sending does to the sending side: nothing, or it closes.\<close>

definition frame_ok :: "hws \<Rightarrow> hws \<times> out list \<Rightarrow> bool" where
  "frame_ok s r \<longleftrightarrow>
     (let s' = fst r in
      sent_in (snd r) = [] \<and> h_seq s' = h_seq s \<and>
      (h_state s' = SClosed \<and> h_buffered s' \<le> h_buffered s \<or>
       h_state s \<noteq> SClosed \<and> (h_state s' = SConnecting \<longrightarrow> h_state s = SConnecting) \<and>
       h_queue s' = h_queue s \<and> h_buffered s' = h_buffered s \<and> h_inflight s' = h_inflight s \<and>
       h_sending s' = h_sending s))"

text \<open>What a step emits: new messages in order, and one close when it closes.\<close>

definition seqs :: "emit list \<Rightarrow> nat list" where
  "seqs es = concat (map (\<lambda>e. case e of EmitMessage n b t \<Rightarrow> [n] | _ \<Rightarrow> []) es)"

definition closes :: "emit list \<Rightarrow> nat" where
  "closes es = length (filter (\<lambda>e. case e of EmitClose c w \<Rightarrow> True | _ \<Rightarrow> False) es)"

lemma emit_simps [simp]:
  "seqs [] = []" "seqs (xs @ ys) = seqs xs @ seqs ys"
  "seqs (e # es) = (case e of EmitMessage n b t \<Rightarrow> [n] | _ \<Rightarrow> []) @ seqs es"
  "closes [] = 0" "closes (xs @ ys) = closes xs + closes ys"
  "closes (e # es) = (case e of EmitClose c w \<Rightarrow> 1 | _ \<Rightarrow> 0) + closes es"
  by (simp_all add: seqs_def closes_def split: emit.split)

definition ends_closed :: "emit list \<Rightarrow> bool" where
  "ends_closed es \<longleftrightarrow> (\<exists>pre c w. es = pre @ [EmitClose c w])"

lemma ends_closed_simps [simp]:
  "\<not> ends_closed []" "ends_closed (xs @ [EmitClose c w])" "ends_closed [EmitClose c w]" "ends_closed [e, EmitClose c w]"
  "es \<noteq> [] \<Longrightarrow> ends_closed (xs @ es) = ends_closed es"
proof -
  show "ends_closed (xs @ es) = ends_closed es" if "es \<noteq> []"
    using that by (cases es rule: rev_cases) (auto simp: ends_closed_def)
qed (auto simp: ends_closed_def)

text \<open>\<open>q\<close> says that no listener closes: then the close is the last thing that is emitted.\<close>

definition emits_ok :: "bool \<Rightarrow> ws_state \<Rightarrow> nat \<Rightarrow> ws_state \<Rightarrow> nat \<Rightarrow> emit list \<Rightarrow> bool" where
  "emits_ok q st a st' a' es \<longleftrightarrow>
     sorted_wrt (<) (seqs es) \<and> (\<forall>n\<in>set (seqs es). a < n \<and> n \<le> a') \<and> a \<le> a' \<and>
     (if st = SClosed then es = [] \<and> st' = SClosed
      else closes es = (if st' = SClosed then 1 else 0) \<and> (q \<and> st' = SClosed \<longrightarrow> ends_closed es))"

definition emit_ok :: "bool \<Rightarrow> hws \<Rightarrow> hws \<times> out list \<Rightarrow> bool" where
  "emit_ok q s r \<longleftrightarrow> emits_ok q (h_state s) (h_after s) (h_state (fst r)) (h_after (fst r)) (emits_in (snd r))"

lemma emits_ok_none [simp]: "emits_ok q st a st a []"
  by (simp add: emits_ok_def)

lemma emits_ok_trans:
  assumes 1: "emits_ok q st a st1 a1 es" and 2: "emits_ok q st1 a1 st2 a2 fs"
  shows "emits_ok q st a st2 a2 (es @ fs)"
proof -
  have "sorted_wrt (<) (seqs (es @ fs)) \<and> (\<forall>n\<in>set (seqs (es @ fs)). a < n \<and> n \<le> a2) \<and> a \<le> a2"
    using 1 2 by (auto simp: emits_ok_def sorted_wrt_append split: if_splits) fastforce+
  moreover have "if st = SClosed then es @ fs = [] \<and> st2 = SClosed
      else closes (es @ fs) = (if st2 = SClosed then 1 else 0) \<and> (q \<and> st2 = SClosed \<longrightarrow> ends_closed (es @ fs))"
    using 1 2 by (cases "fs = []") (auto simp: emits_ok_def split: if_splits)
  ultimately show ?thesis by (simp add: emits_ok_def)
qed

text \<open>What a listener does to the sending side, to what is emitted, and to the rest of the state.\<close>

lemma listen_spec:
  assumes "listen l s = (s', os)" "h_state s \<noteq> SConnecting"
  shows "sent_in os = [] \<and> h_seq s' = h_seq s \<and> h_after s' = h_after s \<and> seqs (emits_in os) = [] \<and>
    closes (emits_in os) = (if h_state s \<noteq> SClosed \<and> h_state s' = SClosed then 1 else 0) \<and>
    (if h_state s = SClosed \<or> l = Stays then s' = s \<and> os = []
     else h_state s' = SClosed \<and> h_queue s' = [] \<and> h_buffered s' = 0)"
  using assms
  by (cases "h_state s"; cases l) (auto simp: listen_def close_http_def finish_http_def fail_http_def split: if_splits)

lemma deliver_frames_spec:
  assumes "deliver_frames L fs s = (s', os)" "h_state s \<noteq> SConnecting"
  shows "sent_in os = [] \<and> h_seq s' = h_seq s \<and> h_state s' \<noteq> SConnecting \<and>
    (h_state s' = h_state s \<and> h_queue s' = h_queue s \<and> h_buffered s' = h_buffered s \<and> h_inflight s' = h_inflight s \<and> h_sending s' = h_sending s
      \<or> h_state s' = SClosed \<and> h_buffered s' = 0) \<and>
    sorted_wrt (<) (seqs (emits_in os)) \<and> (\<forall>n\<in>set (seqs (emits_in os)). h_after s < n \<and> n \<le> h_after s') \<and> h_after s \<le> h_after s' \<and>
    closes (emits_in os) = (if h_state s \<noteq> SClosed \<and> h_state s' = SClosed then 1 else 0) \<and>
    (h_state s = SClosed \<longrightarrow> h_state s' = SClosed) \<and>
    (list_all (\<lambda>f. L (i_seq f) = Stays) fs \<longrightarrow> h_state s' = h_state s)"
  using assms
proof (induction L fs s arbitrary: s' os rule: deliver_frames.induct)
  case (2 L f fs s)
  show ?case
  proof (cases "i_seq f \<le> h_after s")
    case True
    then show ?thesis using "2.IH"(1) [OF True, of s' os] "2.prems" by simp
  next
    case False
    obtain s1 o1 where l: "listen (L (i_seq f)) s = (s1, o1)" by fastforce
    obtain s2 o2 where d: "deliver_frames L fs (s1\<lparr>h_after := i_seq f\<rparr>) = (s2, o2)" by fastforce
    have e: "s' = s2" "os = Emit (EmitMessage (i_seq f) (i_bytes f) (i_binary f)) # o1 @ o2"
      using "2.prems"(1) False l d by auto
    note ls = listen_spec [OF l "2.prems"(2)]
    have ne: "h_state (s1\<lparr>h_after := i_seq f\<rparr>) \<noteq> SConnecting" using ls "2.prems"(2) by (auto split: if_splits)
    note ih = "2.IH"(2) [OF False l [symmetric] refl d ne]
    show ?thesis using ls ih False unfolding e by (auto split: if_splits)
  qed
qed auto

text \<open>Nothing new is lost: of frames in ascending order exactly the new ones are emitted, whatever the listeners do.\<close>

lemma listen_emits:
  assumes "listen l s = (s1, o1)"
  shows "h_after s1 = h_after s \<and> filter (\<lambda>e. case e of EmitMessage n b t \<Rightarrow> True | _ \<Rightarrow> False) (emits_in o1) = []"
  using assms by (cases l) (auto simp: listen_def close_http_def finish_http_def fail_http_def split: if_splits)

lemma deliver_frames_complete:
  assumes "sorted_wrt (<) (map i_seq fs)"
  shows "filter (\<lambda>e. case e of EmitMessage n b t \<Rightarrow> True | _ \<Rightarrow> False) (emits_in (snd (deliver_frames L fs s))) =
    map (\<lambda>f. EmitMessage (i_seq f) (i_bytes f) (i_binary f)) (filter (\<lambda>f. h_after s < i_seq f) fs)"
  using assms
proof (induction L fs s rule: deliver_frames.induct)
  case (2 L f fs s)
  show ?case
  proof (cases "i_seq f \<le> h_after s")
    case False
    obtain s1 o1 where l: "listen (L (i_seq f)) s = (s1, o1)" by fastforce
    obtain s2 o2 where d: "deliver_frames L fs (s1\<lparr>h_after := i_seq f\<rparr>) = (s2, o2)" by fastforce
    have "filter (\<lambda>g. i_seq f < i_seq g) fs = fs" "filter (\<lambda>g. h_after s < i_seq g) fs = fs"
      using "2.prems" False by (auto intro!: filter_True)
    then show ?thesis using "2.IH"(2) [OF False l [symmetric] refl] "2.prems" False l d listen_emits [OF l] by simp
  qed (use 2 in simp)
qed simp

lemmas closing = finish_http_def close_http_def fail_http_def

lemma finish_ok [simp]: "frame_ok s (finish_http c w s)" "emit_ok q s (finish_http c w s)"
  by (auto simp: frame_ok_def emit_ok_def emits_ok_def closing)

lemma close_ok [simp]: "frame_ok s (close_http c s)" "emit_ok q s (close_http c s)"
  by (auto simp: frame_ok_def emit_ok_def emits_ok_def closing)

lemma fail_ok [simp]: "frame_ok s (fail_http s)" "emit_ok q s (fail_http s)"
  by (auto simp: frame_ok_def emit_ok_def emits_ok_def closing)

lemma fallback_ok [simp]: "frame_ok s (fallback s)" "emit_ok q s (fallback s)"
  by (auto simp: frame_ok_def emit_ok_def fallback_def)

lemma poll_next_outs [simp]: "sent_in (poll_next s) = []" "emits_in (poll_next s) = []"
  by (simp_all add: poll_next_def)

lemma same_ok:
  "h_state s' = h_state s \<Longrightarrow> h_queue s' = h_queue s \<Longrightarrow> h_buffered s' = h_buffered s \<Longrightarrow>
   h_inflight s' = h_inflight s \<Longrightarrow> h_sending s' = h_sending s \<Longrightarrow> h_seq s' = h_seq s \<Longrightarrow>
   sent_in os = [] \<Longrightarrow> frame_ok s (s', os)"
  by (cases "h_state s") (simp_all add: frame_ok_def)

lemma frame_ok_cong:
  "frame_ok s' r \<Longrightarrow> h_state s' = h_state s \<Longrightarrow> h_queue s' = h_queue s \<Longrightarrow> h_buffered s' = h_buffered s \<Longrightarrow>
   h_inflight s' = h_inflight s \<Longrightarrow> h_sending s' = h_sending s \<Longrightarrow> h_seq s' = h_seq s \<Longrightarrow> frame_ok s r"
  by (simp add: frame_ok_def Let_def)

lemma emit_ok_cong:
  "emit_ok q s' r \<Longrightarrow> h_state s' = h_state s \<Longrightarrow> h_after s' = h_after s \<Longrightarrow> emit_ok q s r"
  by (simp add: emit_ok_def)

text \<open>No listener closes or fails the socket while a response is delivered.\<close>

definition quiet_response :: "(nat \<Rightarrow> listener) \<Rightarrow> response \<Rightarrow> bool" where
  "quiet_response L r \<longleftrightarrow> list_all (\<lambda>f. L (i_seq f) = Stays) (rs_frames r)"

lemma deliver_ok: "frame_ok s (deliver L r s)" "q \<longrightarrow> quiet_response L r \<Longrightarrow> emit_ok q s (deliver L r s)"
proof -
  obtain s1 os where d: "deliver_frames L (rs_frames r) s = (s1, os)" by fastforce
  show "frame_ok s (deliver L r s)"
    using deliver_frames_spec [OF d] by (auto simp: deliver_def d frame_ok_def closing Let_def)
  assume "q \<longrightarrow> quiet_response L r"
  then show "emit_ok q s (deliver L r s)"
    using deliver_frames_spec [OF d]
    by (auto simp: quiet_response_def deliver_def d emit_ok_def emits_ok_def closing Let_def)
qed

text \<open>Two steps in a row.\<close>

lemma emit_ok_seq:
  assumes "emit_ok q s (s1, o1)" "emit_ok q s1 (s2, o2)"
  shows "emit_ok q s (s2, o1 @ o2)"
  using assms by (auto simp: emit_ok_def intro: emits_ok_trans)

lemma frame_ok_seq:
  assumes "frame_ok s (s1, o1)" "frame_ok s1 (s2, o2)"
  shows "frame_ok s (s2, o1 @ o2)"
  using assms by (auto simp: frame_ok_def Let_def)

lemma ack_settled_ok: "frame_ok s (ack_settled ok s)" "emit_ok q s (ack_settled ok s)"
proof -
  obtain s1 o1 where 1: "(if ok then (s, []) else fail_http s) = (s1, o1)" by fastforce
  define s2 where "s2 = s1\<lparr>h_ackPending := False\<rparr>"
  obtain s3 o2 where 3: "(if h_after s2 > h_ackAfter s2
      then deliver (\<lambda>_. Stays) \<lparr>rs_frames = [], rs_closed = False, rs_ack = True\<rparr> s2 else (s2, [])) = (s3, o2)" by fastforce
  have e: "ack_settled ok s = (s3, o1 @ o2)"
    unfolding ack_settled_def Let_def 1 prod.case s2_def [symmetric] 3 ..
  have skip: "frame_ok x (x, [])" "emit_ok q x (x, [])" for x
    by (auto intro!: same_ok simp: emit_ok_def)
  have "frame_ok s (s1, o1)" "emit_ok q s (s1, o1)"
    unfolding 1 [symmetric] by (simp_all add: skip)
  then have a: "frame_ok s (s2, o1)" "emit_ok q s (s2, o1)"
    by (simp_all add: s2_def frame_ok_def emit_ok_def)
  have b: "frame_ok s2 (s3, o2)" "emit_ok q s2 (s3, o2)"
    unfolding 3 [symmetric] by (simp_all add: skip deliver_ok quiet_response_def)
  show "frame_ok s (ack_settled ok s)" unfolding e using a(1) b(1) by (rule frame_ok_seq)
  show "emit_ok q s (ack_settled ok s)" unfolding e using a(2) b(2) by (rule emit_ok_seq)
qed

fun sending_event :: "hev \<Rightarrow> bool" where
  "sending_event (Send f) = True"
| "sending_event Flush = True"
| "sending_event SendDone = True"
| "sending_event SendFailed = True"
| "sending_event _ = False"

lemma other_frame_ok: "\<not> sending_event e \<Longrightarrow> frame_ok s (http_step s e)"
proof (cases e)
  case (StreamLine L r)
  show ?thesis unfolding StreamLine http_step.simps stream_line_def
    by (rule frame_ok_cong [OF deliver_ok(1)]) simp_all
next
  case (StreamFailed p)
  have "frame_ok s (fail_http (s\<lparr>h_streamFailures := h_streamFailures s + 1\<rparr>))"
    by (rule frame_ok_cong [OF fail_ok(1)]) simp_all
  then show ?thesis unfolding StreamFailed http_step.simps stream_failed_def Let_def
    by (auto intro: same_ok)
next
  case (PollAnswered L r)
  obtain s1 out where d: "deliver L r s = (s1, out)" by fastforce
  then have "frame_ok s (s1, out @ poll_next s1)"
    using deliver_ok(1) [of s L r] by (simp add: frame_ok_def)
  then show ?thesis unfolding PollAnswered http_step.simps poll_answered_def d
    by (auto intro: same_ok)
next
  case (AckSettled ok)
  then show ?thesis by (simp add: ack_settled_ok)
next
  case (FallbackOpened b)
  then show ?thesis by (cases "h_state s") (auto simp: frame_ok_def fallback_opened_def Let_def)
qed (auto intro!: same_ok simp: native_error_def native_close_def ack_timer_def frame_ok_def native_open_def
      fallback_def closing Let_def)

lemma flush_next_emit: "emit_ok q s (flush_next s)"
  by (auto simp: emit_ok_def flush_next_def split: list.split prod.split)

lemma flush_emit: "emit_ok q s (flush_http s)"
proof (cases "h_sending s")
  case False
  show ?thesis unfolding flush_http_def if_not_P [OF False]
    by (rule emit_ok_cong [OF flush_next_emit]) simp_all
qed (simp add: flush_http_def emit_ok_def)

definition quiet_event :: "hev \<Rightarrow> bool" where
  "quiet_event e = (case e of StreamLine L r \<Rightarrow> quiet_response L r | PollAnswered L r \<Rightarrow> quiet_response L r | _ \<Rightarrow> True)"

lemma any_emit_ok:
  assumes quiet: "q \<longrightarrow> quiet_event e"
  shows "emit_ok q s (http_step s e)"
proof (cases e)
  case (StreamLine L r)
  show ?thesis unfolding StreamLine http_step.simps stream_line_def
    by (rule emit_ok_cong [OF deliver_ok(2)]) (use quiet in \<open>simp_all add: StreamLine quiet_event_def\<close>)
next
  case (StreamFailed p)
  have "emit_ok q s (fail_http (s\<lparr>h_streamFailures := h_streamFailures s + 1\<rparr>))"
    by (rule emit_ok_cong [OF fail_ok(2)]) simp_all
  moreover have "emit_ok q s (s\<lparr>h_streamFailures := h_streamFailures s + 1\<rparr>,
      poll_next (s\<lparr>h_streamFailures := h_streamFailures s + 1\<rparr>))" by (simp add: emit_ok_def)
  ultimately show ?thesis unfolding StreamFailed http_step.simps stream_failed_def Let_def
    by (simp only: fail_ok(2) split: if_split) simp
next
  case (PollAnswered L r)
  obtain s1 out where d: "deliver L r s = (s1, out)" by fastforce
  then have "emit_ok q s (s1, out @ poll_next s1)"
    using deliver_ok(2) [where q = q and L = L and r = r and s = s] quiet d by (simp add: emit_ok_def PollAnswered quiet_event_def)
  then show ?thesis unfolding PollAnswered http_step.simps poll_answered_def d
    by (auto simp: emit_ok_def)
next
  case (AckSettled ok)
  then show ?thesis by (simp add: ack_settled_ok)
next
  case (FallbackOpened b)
  then show ?thesis by (cases "h_state s") (auto simp: emit_ok_def emits_ok_def fallback_opened_def Let_def)
next
  case (Send f)
  have "emit_ok q s (flush_http (s\<lparr>h_queue := h_queue s @ [f], h_buffered := h_buffered s + f_size f\<rparr>))"
    by (rule emit_ok_cong [OF flush_emit]) simp_all
  moreover have "emit_ok q s (fail_http s)" by simp
  ultimately show ?thesis unfolding Send http_step.simps send_def Let_def
    by (auto simp: emit_ok_def)
next
  case Flush
  show ?thesis unfolding Flush http_step.simps by (rule flush_emit)
next
  case SendDone
  have "emit_ok q s (flush_next (s\<lparr>h_buffered := h_buffered s - h_inflight s, h_inflight := 0\<rparr>))"
    by (rule emit_ok_cong [OF flush_next_emit]) simp_all
  then show ?thesis unfolding SendDone http_step.simps send_done_def
    by (auto simp: emit_ok_def)
next
  case SendFailed
  obtain s' out where f: "fail_http s = (s', out)" by fastforce
  have "emit_ok q s (s'\<lparr>h_sending := False\<rparr>, out)" using fail_ok(2) [where s = s and q = q] f by (simp add: emit_ok_def)
  then show ?thesis unfolding SendFailed http_step.simps send_failed_def f by (auto simp: emit_ok_def)
qed (auto simp: native_error_def native_close_def ack_timer_def emit_ok_def emits_ok_def native_open_def
      fallback_def closing Let_def)

section \<open>The sending side\<close>

lemma send_inv_other:
  assumes inv: "send_inv r" and ok: "frame_ok (hr_s r) (http_step (hr_s r) e)" and acc: "accepts (hr_s r) e = []"
  shows "send_inv (hrun_step r e)"
proof -
  obtain s' os where h: "http_step (hr_s r) e = (s', os)" by fastforce
  let ?s = "hr_s r"
  have f: "sent_in os = []" "h_seq s' = h_seq ?s"
    "h_state s' = SClosed \<and> h_buffered s' \<le> h_buffered ?s \<or>
       h_state ?s \<noteq> SClosed \<and> (h_state s' = SConnecting \<longrightarrow> h_state ?s = SConnecting) \<and>
       h_queue s' = h_queue ?s \<and> h_buffered s' = h_buffered ?s \<and> h_inflight s' = h_inflight ?s \<and>
       h_sending s' = h_sending ?s"
    using ok unfolding h frame_ok_def Let_def fst_conv snd_conv by blast+
  have r': "hrun_step r e = r\<lparr>hr_s := s', hr_emits := hr_emits r @ emits_in os\<rparr>"
    by (simp add: hrun_step_def h acc f)
  have sent: "frames_sent (hrun_step r e) = frames_sent r" by (simp add: r' frames_sent_def)
  from f(3) show ?thesis
  proof (elim disjE conjE)
    assume "h_state s' = SClosed" "h_buffered s' \<le> h_buffered ?s"
    then show ?thesis using inv unfolding send_inv_def sent by (auto simp: r' f Let_def)
  next
    assume g: "h_state ?s \<noteq> SClosed" "h_state s' = SConnecting \<longrightarrow> h_state ?s = SConnecting"
      "h_queue s' = h_queue ?s" "h_buffered s' = h_buffered ?s" "h_inflight s' = h_inflight ?s"
      "h_sending s' = h_sending ?s"
    show ?thesis
    proof (cases "h_state ?s = SOpen")
      case True
      then show ?thesis using inv g unfolding send_inv_def sent by (simp add: r' f Let_def)
    next
      case False
      then have "h_state ?s = SConnecting" using g(1) by (cases "h_state ?s") simp_all
      then show ?thesis using inv g unfolding send_inv_def sent by (auto simp: r' f Let_def)
    qed
  qed
qed

lemma send_inv_flush_next:
  assumes inv: "send_inv \<lparr>hr_s = s, hr_accepted = acc, hr_sent = sent, hr_emits = em\<rparr>"
    and s: "h_inflight s = 0" "h_sending s" "h_state s = SOpen" and f: "flush_next s = (s', os)"
  shows "send_inv \<lparr>hr_s = s', hr_accepted = acc, hr_sent = sent @ sent_in os, hr_emits = em'\<rparr>"
proof (cases "h_queue s")
  case Nil
  then have "s' = s\<lparr>h_sending := False\<rparr>" "os = []" using f by (simp_all add: flush_next_def)
  then show ?thesis using inv s by (simp add: send_inv_def frames_sent_def)
next
  case (Cons first q)
  obtain taken frames q' where b: "next_batch first q = (taken, frames, q')" by (cases "next_batch first q")
  note nb = next_batch_spec [OF b]
  have s': "s' = s\<lparr>h_queue := q', h_seq := h_seq s + length frames, h_inflight := sizes taken\<rparr>"
    and os: "os = [Request (ReqSend (h_seq s + 1) frames)]"
    using f Cons s b by (simp_all add: flush_next_def sizes_def)
  have "meanings (h_queue s) = meanings frames @ meanings q'" "sizes (h_queue s) = sizes taken + sizes q'"
    using nb Cons by simp_all
  moreover have "meanings acc = meanings (concat (map snd sent)) @ meanings (h_queue s)"
    using inv s by (simp add: send_inv_def frames_sent_def)
  ultimately have m: "meanings acc = meanings (concat (map snd sent)) @ meanings frames @ meanings q'"
    "sizes (h_queue s) = sizes taken + sizes q'" by simp_all
  show ?thesis
    using inv s unfolding s' os send_inv_def Let_def by (simp add: frames_sent_def m numbered_append)
qed

lemma send_inv_flush:
  assumes inv: "send_inv \<lparr>hr_s = s, hr_accepted = acc, hr_sent = sent, hr_emits = em\<rparr>"
    and s: "h_state s = SOpen" and f: "flush_http s = (s', os)"
  shows "send_inv \<lparr>hr_s = s', hr_accepted = acc, hr_sent = sent @ sent_in os, hr_emits = em'\<rparr>"
proof (cases "h_sending s")
  case True
  then have "s' = s" "os = []" using f by (simp_all add: flush_http_def)
  then show ?thesis using inv by (simp add: send_inv_def frames_sent_def)
next
  case False
  then have "flush_next (s\<lparr>h_sending := True\<rparr>) = (s', os)" "h_inflight s = 0"
    using f inv s by (simp_all add: flush_http_def send_inv_def)
  moreover have "send_inv \<lparr>hr_s = s\<lparr>h_sending := True\<rparr>, hr_accepted = acc, hr_sent = sent, hr_emits = em\<rparr>"
    using inv by (simp add: send_inv_def frames_sent_def)
  ultimately show ?thesis using send_inv_flush_next s by simp
qed

lemma send_inv_step: "send_inv r \<Longrightarrow> send_inv (hrun_step r e)"
proof (cases "sending_event e")
  case False
  assume inv: "send_inv r"
  have "accepts (hr_s r) e = []" using False by (cases e) (simp_all add: accepts_def)
  then show ?thesis using send_inv_other [OF inv other_frame_ok [OF False]] by blast
next
  case True
  assume inv: "send_inv r"
  let ?s = "hr_s r"
  have skip: "send_inv (hrun_step r e)" if "http_step ?s e = (?s, os)" "sent_in os = []" "accepts ?s e = []" for os
  proof -
    have "hrun_step r e = r\<lparr>hr_emits := hr_emits r @ emits_in os\<rparr>" by (simp add: hrun_step_def that)
    then show ?thesis using inv by (simp add: send_inv_def frames_sent_def)
  qed
  show ?thesis
  proof (cases e)
    case (Send f)
    show ?thesis
    proof (cases "accepts ?s e = []")
      case no: True
      show ?thesis
      proof (cases "h_state ?s = SOpen \<and> h_http ?s")
        case True
        then have "f_size f > FRAME_LIMIT \<or> h_buffered ?s + f_size f > BUFFER_LIMIT"
          using no by (auto simp: Send accepts_def split: if_splits)
        then have "http_step ?s e = fail_http ?s" using True by (simp add: Send send_def)
        then show ?thesis using send_inv_other [OF inv _ no] by simp
      next
        case False
        then consider "http_step ?s e = (?s, [Throw])" | "http_step ?s e = (?s, [])"
          | "http_step ?s e = (?s, [NativeSend f])"
          by (cases "h_state ?s") (auto simp: Send send_def)
        then show ?thesis by cases (rule skip, assumption, simp, rule no)+
      qed
    next
      case yes: False
      then have g: "h_state ?s = SOpen" "h_http ?s" "f_size f \<le> FRAME_LIMIT" "h_buffered ?s + f_size f \<le> BUFFER_LIMIT"
        and a: "accepts ?s e = [f]" by (auto simp: Send accepts_def split: if_splits)
      let ?s1 = "?s\<lparr>h_queue := h_queue ?s @ [f], h_buffered := h_buffered ?s + f_size f\<rparr>"
      have i1: "send_inv \<lparr>hr_s = ?s1, hr_accepted = hr_accepted r @ [f], hr_sent = hr_sent r, hr_emits = em\<rparr>" for em
        using inv g by (auto simp: send_inv_def frames_sent_def Let_def)
      show ?thesis
      proof (cases "head_is 49 f \<and> \<not> h_sending ?s1")
        case True
        then have "http_step ?s e = (?s1, [FlushSoon])" using g by (simp add: Send send_def Let_def)
        then show ?thesis using i1 a by (simp add: hrun_step_def)
      next
        case False
        obtain s' os where fl: "flush_http ?s1 = (s', os)" by fastforce
        then have "http_step ?s e = (s', os)" using False g by (auto simp: Send send_def Let_def)
        moreover have "send_inv \<lparr>hr_s = s', hr_accepted = hr_accepted r @ [f], hr_sent = hr_sent r @ sent_in os, hr_emits = em\<rparr>" for em
          by (rule send_inv_flush [OF i1 _ fl]) (simp add: g)
        ultimately show ?thesis by (simp add: hrun_step_def a)
      qed
    qed
  next
    case Flush
    have i0: "send_inv \<lparr>hr_s = ?s, hr_accepted = hr_accepted r, hr_sent = hr_sent r, hr_emits = hr_emits r\<rparr>"
      using inv by (cases r) simp
    have a: "accepts ?s e = []" by (simp add: Flush accepts_def)
    obtain s' os where fl: "flush_http ?s = (s', os)" by fastforce
    show ?thesis
    proof (cases "h_state ?s = SOpen")
      case True
      have "send_inv \<lparr>hr_s = s', hr_accepted = hr_accepted r, hr_sent = hr_sent r @ sent_in os, hr_emits = em\<rparr>" for em
        by (rule send_inv_flush [OF i0 True fl])
      then show ?thesis using fl a by (simp add: hrun_step_def Flush)
    next
      case False
      then have "os = [] \<and> (s' = ?s \<or> s' = ?s\<lparr>h_sending := False\<rparr>)"
        using fl by (auto simp: flush_http_def flush_next_def split: if_splits list.splits)
      then show ?thesis using inv False fl a by (auto simp: hrun_step_def Flush send_inv_def frames_sent_def Let_def)
    qed
  next
    case SendDone
    have a: "accepts ?s e = []" by (simp add: SendDone accepts_def)
    show ?thesis
    proof (cases "h_sending ?s \<and> h_state ?s = SOpen")
      case True
      let ?s1 = "?s\<lparr>h_buffered := h_buffered ?s - h_inflight ?s, h_inflight := 0\<rparr>"
      obtain s' os where fl: "flush_next ?s1 = (s', os)" by fastforce
      have i1: "send_inv \<lparr>hr_s = ?s1, hr_accepted = hr_accepted r, hr_sent = hr_sent r, hr_emits = em\<rparr>" for em
        using inv True by (auto simp: send_inv_def frames_sent_def Let_def)
      have "send_inv \<lparr>hr_s = s', hr_accepted = hr_accepted r, hr_sent = hr_sent r @ sent_in os, hr_emits = em\<rparr>" for em
        by (rule send_inv_flush_next [OF i1 _ _ _ fl]) (use True in simp_all)
      then show ?thesis using fl a True by (simp add: hrun_step_def SendDone send_done_def)
    next
      case False
      then have "http_step ?s e = (?s, []) \<or> http_step ?s e = (?s\<lparr>h_sending := False\<rparr>, [])"
        by (auto simp: SendDone send_done_def)
      then show ?thesis using inv False a
        by (auto simp: hrun_step_def SendDone send_inv_def frames_sent_def Let_def send_done_def split: if_splits)
    qed
  next
    case SendFailed
    have a: "accepts ?s e = []" by (simp add: SendFailed accepts_def)
    obtain s' out where f: "fail_http ?s = (s', out)" by fastforce
    have "h_state s' = SClosed" using f by (auto simp: closing split: if_splits)
    then have "frame_ok ?s (s'\<lparr>h_sending := False\<rparr>, out)" using fail_ok(1) [of ?s] f by (auto simp: frame_ok_def)
    then have "frame_ok ?s (http_step ?s e)" if "h_sending ?s"
      using f that by (simp add: SendFailed send_failed_def)
    then show ?thesis using send_inv_other [OF inv _ a] skip a by (cases "h_sending ?s") (simp_all add: SendFailed)
  qed (use True in simp_all)
qed

section \<open>Runs\<close>

definition recv_inv :: "bool \<Rightarrow> hrun \<Rightarrow> bool" where
  "recv_inv q r \<longleftrightarrow>
     sorted_wrt (<) (seqs (hr_emits r)) \<and> (\<forall>n\<in>set (seqs (hr_emits r)). n \<le> h_after (hr_s r)) \<and>
     closes (hr_emits r) = (if h_state (hr_s r) = SClosed then 1 else 0) \<and>
     (q \<and> h_state (hr_s r) = SClosed \<longrightarrow> ends_closed (hr_emits r))"

lemma recv_inv_step: "recv_inv q r \<Longrightarrow> q \<longrightarrow> quiet_event e \<Longrightarrow> recv_inv q (hrun_step r e)"
proof -
  assume inv: "recv_inv q r" and quiet: "q \<longrightarrow> quiet_event e"
  obtain s' os where h: "http_step (hr_s r) e = (s', os)" by fastforce
  have em: "emits_ok q (h_state (hr_s r)) (h_after (hr_s r)) (h_state s') (h_after s') (emits_in os)"
    using any_emit_ok [OF quiet, of "hr_s r"] by (simp add: emit_ok_def h)
  have "sorted_wrt (<) (seqs (hr_emits r @ emits_in os)) \<and> (\<forall>n\<in>set (seqs (hr_emits r @ emits_in os)). n \<le> h_after s') \<and>
      closes (hr_emits r @ emits_in os) = (if h_state s' = SClosed then 1 else 0)"
    using inv em by (auto simp: recv_inv_def emits_ok_def sorted_wrt_append split: if_splits) fastforce+
  moreover have "ends_closed (hr_emits r @ emits_in os)" if "q" "h_state s' = SClosed"
    using inv em that by (cases "emits_in os = []") (auto simp: recv_inv_def emits_ok_def split: if_splits)
  ultimately show ?thesis by (simp add: recv_inv_def hrun_step_def h)
qed

interpretation fallback_socket: machine hrun_step "\<lambda>r. send_inv r \<and> recv_inv q r" "\<lambda>e. q \<longrightarrow> quiet_event e"
  by unfold_locales (simp add: send_inv_step recv_inv_step)

definition hrun_init :: hrun where
  "hrun_init = \<lparr>hr_s = hws_init, hr_accepted = [], hr_sent = [], hr_emits = []\<rparr>"

lemma hrun_init_inv: "send_inv hrun_init \<and> recv_inv q hrun_init"
  by (simp add: send_inv_def recv_inv_def hrun_init_def hws_init_def frames_sent_def)

lemma hrun_inv: "send_inv (foldl hrun_step hrun_init es)" "recv_inv (list_all quiet_event es) (foldl hrun_step hrun_init es)"
  using fallback_socket.run_inv [of hrun_init False es] fallback_socket.run_inv [of hrun_init "list_all quiet_event es" es] hrun_init_inv
  by (simp_all add: list_all_iff)

text \<open>C36. The fallback sends what it was given: through any interleaving of sends, flushes, answers,
  failures and incoming frames, what the requests carry means to the terminal exactly a prefix of
  what the client's accepted frames mean, in order (typed bytes neither lost, repeated nor moved
  past a resize or another control frame); while the socket is open the rest is exactly what is
  queued; the requests number their frames without a gap; and never more than a megabyte is
  buffered.\<close>

theorem http_send_in_order:
  "let r = foldl hrun_step hrun_init es; s = hr_s r in
     prefix (meanings (frames_sent r)) (meanings (hr_accepted r)) \<and>
     (h_state s = SOpen \<longrightarrow> meanings (hr_accepted r) = meanings (frames_sent r) @ meanings (h_queue s) \<and>
        h_buffered s = sizes (h_queue s) + h_inflight s) \<and>
     numbered 0 (hr_sent r) \<and> h_buffered s \<le> 1024 * 1024"
  using hrun_inv(1) [of es] unfolding send_inv_def Let_def BUFFER_LIMIT_def by simp

theorem http_send_in_order_witness:
  "meanings (frames_sent (foldl hrun_step hrun_init [OpenTimeout, FallbackOpened False,
      Send \<lparr>f_bytes = [48, 108], f_binary = True\<rparr>, Send \<lparr>f_bytes = [48, 115], f_binary = True\<rparr>,
      Send \<lparr>f_bytes = [49, 0], f_binary = True\<rparr>, SendDone])) =
   [TypedByte True 108, TypedByte True 115]"
proof -
  let ?es = "[OpenTimeout, FallbackOpened False,
      Send \<lparr>f_bytes = [48, 108], f_binary = True\<rparr>, Send \<lparr>f_bytes = [48, 115], f_binary = True\<rparr>,
      Send \<lparr>f_bytes = [49, 0], f_binary = True\<rparr>, SendDone]"
  note defs = hrun_step_def hrun_init_def hws_init_def fallback_def fallback_opened_def poll_next_def send_def
    flush_http_def flush_next_def send_done_def next_batch_def head_is_def f_size_def accepts_def
    FRAME_LIMIT_def BUFFER_LIMIT_def frames_sent_def Let_def
  let ?r = "foldl hrun_step hrun_init ?es"
  have q: "h_state (hr_s ?r) = SOpen" "meanings (h_queue (hr_s ?r)) = [WholeFrame \<lparr>f_bytes = [49, 0], f_binary = True\<rparr>]"
    by (simp_all add: defs meaning_of_def)
  have "meanings (hr_accepted ?r) = [TypedByte True 108, TypedByte True 115, WholeFrame \<lparr>f_bytes = [49, 0], f_binary = True\<rparr>]"
    by (simp add: defs meaning_of_def)
  then show ?thesis using http_send_in_order [of ?es] q unfolding Let_def by simp
qed

text \<open>C37. The fallback receives once and in order: through any run, whatever the server repeats and whatever
  a listener of a message does to the socket, the messages handed to ttyd have strictly increasing sequence numbers up
  to the one acknowledged; at most one close is ever reported, exactly when the socket is closed; a closed
  socket stays closed and no later event makes it emit anything. When no listener closes or fails the socket while a
  response is delivered, the close is also the last thing that is emitted. (When one does, the
  rest of that response is still emitted after the close: \<open>message_after_close\<close>.)\<close>

theorem http_receive_once:
  "let r = foldl hrun_step hrun_init es in
     sorted_wrt (<) (seqs (hr_emits r)) \<and> (\<forall>n\<in>set (seqs (hr_emits r)). n \<le> h_after (hr_s r)) \<and>
     closes (hr_emits r) = (if h_state (hr_s r) = SClosed then 1 else 0) \<and>
     (h_state (hr_s r) = SClosed \<longrightarrow>
        hr_emits (hrun_step r e) = hr_emits r \<and> h_state (hr_s (hrun_step r e)) = SClosed) \<and>
     (h_state (hr_s r) = SClosed \<and> list_all quiet_event es \<longrightarrow> ends_closed (hr_emits r))"
proof -
  let ?r = "foldl hrun_step hrun_init es"
  have "hr_emits (hrun_step ?r e) = hr_emits ?r \<and> h_state (hr_s (hrun_step ?r e)) = SClosed"
    if "h_state (hr_s ?r) = SClosed"
    using any_emit_ok [of False e "hr_s ?r"] that
    by (cases "http_step (hr_s ?r) e") (simp add: emit_ok_def emits_ok_def hrun_step_def)
  then show ?thesis using hrun_inv(2) [of es] by (simp add: recv_inv_def Let_def)
qed

definition two_frames :: response where
  "two_frames = \<lparr>rs_frames = [\<lparr>i_seq = 1, i_bytes = [65], i_binary = False\<rparr>, \<lparr>i_seq = 2, i_bytes = [66], i_binary = False\<rparr>],
     rs_closed = True, rs_ack = False\<rparr>"

lemmas a_run = hrun_step_def hrun_init_def hws_init_def fallback_def fallback_opened_def poll_next_def stream_line_def deliver_def
  listen_def two_frames_def finish_http_def close_http_def accepts_def

theorem http_receive_once_witness:
  "\<exists>pre c w. hr_emits (foldl hrun_step hrun_init [OpenTimeout, FallbackOpened True, StreamLine (\<lambda>_. Stays) two_frames]) =
     pre @ [EmitClose c w]"
proof -
  let ?es = "[OpenTimeout, FallbackOpened True, StreamLine (\<lambda>_. Stays) two_frames]"
  have "h_state (hr_s (foldl hrun_step hrun_init ?es)) = SClosed" by (simp add: a_run)
  moreover have "list_all quiet_event ?es" by (simp add: quiet_event_def quiet_response_def two_frames_def)
  ultimately show ?thesis
    using http_receive_once [of ?es Flush] unfolding Let_def ends_closed_def by blast
qed

text \<open>A listener closes the socket at the first frame, and gets the second one after the close.\<close>

lemma message_after_close:
  "hr_emits (foldl hrun_step hrun_init [OpenTimeout, FallbackOpened True,
      StreamLine (\<lambda>n. if n = 1 then Closes 0 else Stays) two_frames]) =
   [EmitOpen, EmitMessage 1 [65] False, EmitClose 1000 True, EmitMessage 2 [66] False]"
  by (simp add: a_run)

section \<open>Requests and lines\<close>

text \<open>A request is fetched at most once more often than its retries, and not again after a 4xx.\<close>

lemma request_loop_bound: "snd (request_loop retries k xs) \<le> max k (Suc (max retries k))"
  by (induction retries k xs rule: request_loop.induct) (auto split: outcome.splits)

lemma request_loop_permanent:
  "permanent x \<Longrightarrow> request_loop retries k ((x, c) # xs) = (Some (Inl True), Suc k)"
  by (cases x) (simp_all add: permanent_def)

text \<open>How the stream is cut into packets does not change its lines.\<close>

lemma js_split_append_last:
  "js_split c (x @ y) = butlast (js_split c x) @ js_split c (last (js_split c x) @ y)"
proof (induction x)
  case (Cons a x)
  show ?case
  proof (cases "js_split c x")
    case Nil
    then show ?thesis by simp
  next
    case (Cons p ps)
    show ?thesis
    proof (cases "ps = []")
      case True
      then have "js_split c (x @ y) = js_split c (p @ y)" using Cons.IH Cons by simp
      then show ?thesis using Cons True by simp
    next
      case False
      then have "js_split c (x @ y) = p # butlast ps @ js_split c (last ps @ y)" using Cons.IH Cons by simp
      then show ?thesis using Cons False by simp
    qed
  qed
qed simp

lemma feed_split:
  "feed p (a @ b) = (fst (feed p a) @ fst (feed (snd (feed p a)) b), snd (feed (snd (feed p a)) b))"
proof -
  have "js_split c ((p @ a) @ b) = butlast (js_split c (p @ a)) @ js_split c (last (js_split c (p @ a)) @ b)" for c
    by (rule js_split_append_last)
  then show ?thesis by (simp add: feed_def Let_def butlast_append last_append)
qed

end
