(* ===== verification/TermResume.thy ===== *)
theory TermResume
  imports KbdInput "HOL-Library.Sublist"
begin

text \<open>
  \<^verbatim>\<open>apps/everyday/terminal/terminal-resume.js\<close>: scrollback resumed by session epoch and offset.
  Texts are lists of code units. The JSON of an envelope is read by a parameter \<open>parse\<close>
  (\<open>None\<close> where \<open>JSON.parse\<close> throws); base64 data is modelled decoded. The promises that
  order the work of one socket are sequential here, and the cache is loaded before it is used,
  as \<open>loaded\<close> makes sure.
\<close>

section \<open>Finding a marker\<close>

definition occurs_at :: "'a list \<Rightarrow> 'a list \<Rightarrow> nat \<Rightarrow> bool" where
  "occurs_at pat s j \<longleftrightarrow> take (length pat) (drop j s) = pat"

text \<open>\<open>s.indexOf(pat)\<close> and \<open>s.lastIndexOf(pat)\<close>, for a non-empty pattern.\<close>

fun find_sub :: "'a list \<Rightarrow> 'a list \<Rightarrow> nat option" where
  "find_sub pat [] = None"
| "find_sub pat (x # xs) =
     (if take (length pat) (x # xs) = pat then Some 0 else map_option Suc (find_sub pat xs))"

fun find_last_sub :: "'a list \<Rightarrow> 'a list \<Rightarrow> nat option" where
  "find_last_sub pat [] = None"
| "find_last_sub pat (x # xs) =
     (case find_last_sub pat xs of
        Some i \<Rightarrow> Some (Suc i)
      | None \<Rightarrow> if take (length pat) (x # xs) = pat then Some 0 else None)"

definition BEL :: nat where "BEL = 7"

text \<open>ESC ] 777;vt-resume;\<close>

definition RESUME_PREFIX :: "nat list" where
  "RESUME_PREFIX = [27, 93, 55, 55, 55, 59, 118, 116, 45, 114, 101, 115, 117, 109, 101, 59]"

text \<open>
  The part of a marker at the end of a packet: the longest proper prefix of it that the text ends
  with. The loop's last success is its result.
\<close>

definition keep_len :: "'a list \<Rightarrow> 'a list \<Rightarrow> nat" where
  "keep_len pat s =
     fold (\<lambda>n k. if n \<le> length s \<and> drop (length s - n) s = take n pat then n else k) [1..<length pat] 0"

section \<open>Taking a text apart\<close>

text \<open>\<open>Rest\<close> is plain text from the branch without a marker, \<open>Plain\<close> the text before one.\<close>

datatype item = Rest "nat list" | Plain "nat list" | Envelope "nat list"

lemma find_sub_Some:
  "pat \<noteq> [] \<Longrightarrow> find_sub pat s = Some i \<Longrightarrow> occurs_at pat s i \<and> i < length s \<and> (\<forall>j<i. \<not> occurs_at pat s j)"
proof (induction s arbitrary: i)
  case (Cons x xs)
  show ?case
  proof (cases "take (length pat) (x # xs) = pat")
    case True
    then show ?thesis using Cons.prems by (simp add: occurs_at_def)
  next
    case False
    then obtain k where k: "find_sub pat xs = Some k" "i = Suc k" using Cons.prems by auto
    then have "occurs_at pat xs k \<and> k < length xs \<and> (\<forall>j<k. \<not> occurs_at pat xs j)" using Cons by blast
    then show ?thesis using k False by (auto simp: occurs_at_def less_Suc_eq_0_disj)
  qed
qed simp

lemma find_sub_None: "pat \<noteq> [] \<Longrightarrow> find_sub pat s = None \<longleftrightarrow> (\<forall>j. \<not> occurs_at pat s j)"
proof (induction s)
  case Nil
  then show ?case by (simp add: occurs_at_def)
next
  case (Cons x xs)
  then have "find_sub pat (x # xs) = None \<longleftrightarrow>
      \<not> occurs_at pat (x # xs) 0 \<and> (\<forall>j. \<not> occurs_at pat (x # xs) (Suc j))"
    by (simp add: occurs_at_def)
  then show ?case by (metis old.nat.exhaust)
qed

lemma find_sub_eqI:
  "pat \<noteq> [] \<Longrightarrow> occurs_at pat s i \<Longrightarrow> \<forall>j<i. \<not> occurs_at pat s j \<Longrightarrow> find_sub pat s = Some i"
  using find_sub_Some [of pat s] find_sub_None [of pat s]
  by (cases "find_sub pat s") (auto, metis linorder_neqE_nat)

lemma find_last_sub_le: "find_last_sub pat s = Some i \<Longrightarrow> i < length s"
  by (induction s arbitrary: i) (auto split: option.splits if_splits)

text \<open>One round of the \<open>while\<close> loop: the item taken, if any, and what is pending after it.\<close>

function scan :: "nat list \<Rightarrow> item list \<times> nat list" where
  "scan p =
     (if p = [] then ([], [])
      else case find_sub RESUME_PREFIX p of
        None \<Rightarrow> (let k = keep_len RESUME_PREFIX p
                 in ([Rest (take (length p - k) p)], drop (length p - k) p))
      | Some start \<Rightarrow>
          if start > 0
          then (let (is, r) = scan (drop start p) in (Plain (take start p) # is, r))
          else case find_sub [BEL] (drop (length RESUME_PREFIX) p) of
            None \<Rightarrow> ([], p)
          | Some e0 \<Rightarrow>
              let e = length RESUME_PREFIX + e0
              in case find_last_sub RESUME_PREFIX (take e p) of
                   Some newer \<Rightarrow>
                     if newer > 0 then scan (drop newer p)
                     else (let (is, r) = scan (drop (Suc e) p)
                           in (Envelope (drop (length RESUME_PREFIX) (take e p)) # is, r))
                 | None \<Rightarrow> (let (is, r) = scan (drop (Suc e) p)
                            in (Envelope (drop (length RESUME_PREFIX) (take e p)) # is, r)))"
  by pat_completeness auto
termination scan
  by (relation "measure length") auto

declare scan.simps [simp del]

section \<open>The cache\<close>

definition LIMIT :: nat where "LIMIT = 64 * 1024 * 1024"

record cache =
  ca_epoch :: "nat list"
  ca_offset :: "nat option"
  ca_chunks :: "nat list list"
  ca_size :: nat

text \<open>An envelope's fields; \<open>fr_data\<close> is None where it is not a string.\<close>

record env_frame =
  fr_ready :: bool
  fr_data :: "nat list option"
  fr_epoch :: "nat list"
  fr_offset :: "nat option"
  fr_reset :: bool

definition valid_cache :: "cache option \<Rightarrow> bool" where
  "valid_cache c = (case c of None \<Rightarrow> False | Some c \<Rightarrow> ca_offset c \<noteq> None \<and> ca_size c \<le> LIMIT)"

datatype saving = SaveNow | SaveLater | NoSave

definition remember :: "env_frame \<Rightarrow> cache option \<Rightarrow> cache option \<times> saving" where
  "remember f c0 =
     (let c1 = (if fr_reset f then Some \<lparr>ca_epoch = fr_epoch f, ca_offset = None, ca_chunks = [], ca_size = 0\<rparr>
                else c0)
      in case c1 of
           None \<Rightarrow> (c1, NoSave)
         | Some c \<Rightarrow>
             if ca_epoch c \<noteq> fr_epoch f then (c1, NoSave)
             else let chunk = (case fr_data f of None \<Rightarrow> [] | Some d \<Rightarrow> d); sz = ca_size c + length chunk
                  in if sz > LIMIT then (None, SaveLater)
                     else (Some (c\<lparr>ca_size := sz,
                                   ca_chunks := (if chunk \<noteq> [] then ca_chunks c @ [chunk] else ca_chunks c),
                                   ca_offset := fr_offset f\<rparr>),
                           if ca_offset c = None \<and> fr_offset f \<noteq> None then SaveNow else SaveLater))"

text \<open>
  The terminal queries removed from restored output: device attributes, status reports, mode
  requests and OSC colour queries, as the length of a match at the head of a text.
\<close>

definition in_set :: "nat list \<Rightarrow> nat \<Rightarrow> bool" where "in_set cs c \<longleftrightarrow> c \<in> set cs"

definition DIGITS :: "nat list" where "DIGITS = [48, 49, 50, 51, 52, 53, 54, 55, 56, 57]"

definition csi_query :: "nat list \<Rightarrow> nat list \<Rightarrow> nat list \<Rightarrow> nat list option" where
  "csi_query params final s =
     (let r = dropWhile (in_set params) s
      in if take (length final) r = final then Some (drop (length final) r) else None)"

definition query_rest :: "nat list \<Rightarrow> nat list option" where
  "query_rest s =
     (case s of
        a # b # r \<Rightarrow>
          if a = 27 \<and> b = 91
          then (case csi_query (DIGITS @ [59, 63, 62, 61]) [99] r of
                  Some t \<Rightarrow> Some t
                | None \<Rightarrow> (case csi_query (DIGITS @ [59, 63]) [110] r of
                    Some t \<Rightarrow> Some t
                  | None \<Rightarrow> csi_query (DIGITS @ [59, 63]) [36, 112] r))
          else if a = 27 \<and> b = 93
          then (case csi_query (DIGITS @ [59]) [63, BEL] r of
                  Some t \<Rightarrow> Some t
                | None \<Rightarrow> csi_query (DIGITS @ [59]) [63, 27, 92] r)
          else None
      | _ \<Rightarrow> None)"

lemma csi_query_le: "csi_query ps fin s = Some t \<Longrightarrow> length t \<le> length s"
  unfolding csi_query_def Let_def
  by (auto split: if_splits) (metis diff_le_self le_trans length_dropWhile_le)

lemma query_rest_shorter: "query_rest s = Some t \<Longrightarrow> length t < length s"
  by (auto simp: query_rest_def split: list.splits if_splits option.splits dest!: csi_query_le)

function strip_queries :: "nat list \<Rightarrow> nat list" where
  "strip_queries [] = []"
| "strip_queries (x # xs) =
     (case query_rest (x # xs) of None \<Rightarrow> x # strip_queries xs | Some t \<Rightarrow> strip_queries t)"
  by pat_completeness auto
termination strip_queries
  by (relation "measure length") (auto dest: query_rest_shorter)

definition restored :: "cache option \<Rightarrow> nat list" where
  "restored c = (case c of None \<Rightarrow> [] | Some c \<Rightarrow> strip_queries (concat (ca_chunks c)))"

text \<open>Pruning the database: newest first, eight entries and 128 MiB in all.\<close>

record db_row =
  db_key :: string
  db_size :: nat
  db_at :: nat

fun prune_rows :: "nat \<Rightarrow> nat \<Rightarrow> db_row list \<Rightarrow> db_row list" where
  "prune_rows i tot [] = []"
| "prune_rows i tot (e # es) =
     (let t = tot + db_size e
      in if i \<ge> 8 \<or> t > 128 * 1024 * 1024 then prune_rows (Suc i) t es else e # prune_rows (Suc i) t es)"

definition prune_db :: "db_row list \<Rightarrow> db_row list" where
  "prune_db rows = prune_rows 0 0 (rev (sort_key db_at (rev rows)))"

section \<open>One socket\<close>

record rsock =
  rk_pending :: "nat list"
  rk_current :: bool
  rk_first :: bool
  rk_negotiated :: bool
  rk_inputs :: "nat list list"
  rk_inputBytes :: nat
  rk_inputReady :: bool
  rk_cache :: "cache option"

datatype rout =
    Output "nat list"
  | RawSend "nat list"
  | ResumeRequest "(nat list \<times> nat) option"
  | CloseSock
  | Save saving

definition rsock_init :: "cache option \<Rightarrow> rsock" where
  "rsock_init c = \<lparr>rk_pending = [], rk_current = True, rk_first = True, rk_negotiated = False, rk_inputs = [],
     rk_inputBytes = 0, rk_inputReady = False, rk_cache = c\<rparr>"

definition is_input :: "nat list \<Rightarrow> bool" where
  "is_input data \<longleftrightarrow> data \<noteq> [] \<and> hd data = 48"

definition rs_send :: "nat list \<Rightarrow> rsock \<Rightarrow> rsock \<times> rout list" where
  "rs_send data s =
     (if is_input data \<and> \<not> rk_inputReady s
      then let n = rk_inputBytes s + length data
           in if n > 65536 then (s\<lparr>rk_inputBytes := n, rk_inputs := []\<rparr>, [CloseSock])
              else (s\<lparr>rk_inputBytes := n, rk_inputs := rk_inputs s @ [data]\<rparr>, [])
      else (s, [RawSend data]))"

definition allowInput :: "rsock \<Rightarrow> rsock \<times> rout list" where
  "allowInput s = (s\<lparr>rk_inputReady := True, rk_inputs := []\<rparr>, map RawSend (rk_inputs s))"

definition output_text :: "nat list \<Rightarrow> rout list" where
  "output_text t = (if t = [] then [] else [Output t])"

text \<open>ESC c resets the terminal.\<close>

definition RIS :: "nat list" where "RIS = [27, 99]"

definition resume_request :: "cache option \<Rightarrow> (nat list \<times> nat) option" where
  "resume_request c = (if valid_cache c then Some (ca_epoch (the c), the (ca_offset (the c))) else None)"

definition on_frame :: "env_frame \<Rightarrow> rsock \<Rightarrow> rsock \<times> rout list" where
  "on_frame f s =
     (if fr_ready f then (s\<lparr>rk_negotiated := True\<rparr>, [ResumeRequest (resume_request (rk_cache s))])
      else if \<not> rk_negotiated s \<or> fr_data f = None then (s, [])
      else let (s1, out1) =
                 (if rk_first s
                  then let (s', sent) = allowInput (s\<lparr>rk_first := False\<rparr>)
                       in (s', output_text (RIS @ (if fr_reset f then [] else restored (rk_cache s))) @ sent)
                  else (s, if fr_reset f then output_text RIS else []));
               (c, sv) = remember f (rk_cache s1)
           in (s1\<lparr>rk_cache := c\<rparr>, out1 @ output_text (the (fr_data f)) @ [Save sv]))"

definition on_item :: "(nat list \<Rightarrow> env_frame option) \<Rightarrow> item \<Rightarrow> rsock \<Rightarrow> rsock \<times> rout list" where
  "on_item parse it s =
     (case it of
        Rest t \<Rightarrow> (let (s', out) = (if t \<noteq> [] \<and> \<not> rk_negotiated s then allowInput s else (s, []))
                   in (s', out @ output_text t))
      | Plain t \<Rightarrow> (s, output_text t)
      | Envelope body \<Rightarrow> (case parse body of None \<Rightarrow> (s, []) | Some f \<Rightarrow> on_frame f s))"

fun on_items :: "(nat list \<Rightarrow> env_frame option) \<Rightarrow> item list \<Rightarrow> rsock \<Rightarrow> rsock \<times> rout list" where
  "on_items parse [] s = (s, [])"
| "on_items parse (it # is) s =
     (let (s1, o1) = on_item parse it s; (s2, o2) = on_items parse is s1 in (s2, o1 @ o2))"

definition rs_receive :: "(nat list \<Rightarrow> env_frame option) \<Rightarrow> nat list \<Rightarrow> rsock \<Rightarrow> rsock \<times> rout list" where
  "rs_receive parse data s =
     (if \<not> rk_current s then (s, [])
      else let (is, rest) = scan (rk_pending s @ data); (s', out) = on_items parse is s
           in (s'\<lparr>rk_pending := rest\<rparr>, out))"

end
