(* ===== verification/TermResumeProps.thy ===== *)
theory TermResumeProps
  imports TermResume
begin

text \<open>
  What the resume adapter guarantees: how the stream is cut into packets does not matter, the cache
  is what was shown, and input waits for the session.
\<close>

section \<open>Markers across a cut\<close>

lemma keep_len_fold:
  "fold (\<lambda>n k. if P n then n else k) [1..<m] 0 = (if \<exists>n. 1 \<le> n \<and> n < m \<and> P n then Max {n. 1 \<le> n \<and> n < m \<and> P n} else 0)"
proof (induction m)
  case (Suc m)
  show ?case
  proof (cases "1 \<le> m \<and> P m")
    case True
    have "Max {n. 1 \<le> n \<and> n < Suc m \<and> P n} = m" using True by (intro Max_eqI) auto
    then show ?thesis using True by (auto simp: upt_Suc)
  next
    case False
    then have "{n. 1 \<le> n \<and> n < Suc m \<and> P n} = {n. 1 \<le> n \<and> n < m \<and> P n}"
      "(\<exists>n. 1 \<le> n \<and> n < Suc m \<and> P n) = (\<exists>n. 1 \<le> n \<and> n < m \<and> P n)"
      by (auto simp: less_Suc_eq)
    then show ?thesis using Suc False by (cases "1 \<le> m") (auto simp: upt_Suc)
  qed
qed simp

text \<open>\<open>ends_with_part\<close>: the text ends with the first \<open>n\<close> units of the marker.\<close>

definition ends_with_part :: "'a list \<Rightarrow> 'a list \<Rightarrow> nat \<Rightarrow> bool" where
  "ends_with_part pat s n \<longleftrightarrow> n \<le> length s \<and> drop (length s - n) s = take n pat"

lemma ends_with_part_0 [simp]: "ends_with_part pat s 0"
  by (simp add: ends_with_part_def)

lemma keep_len_eq:
  "keep_len pat s =
     (if \<exists>n. 1 \<le> n \<and> n < length pat \<and> ends_with_part pat s n
      then Max {n. 1 \<le> n \<and> n < length pat \<and> ends_with_part pat s n} else 0)"
  unfolding keep_len_def ends_with_part_def [symmetric] by (rule keep_len_fold)

lemma keep_len_in:
  assumes "keep_len pat s \<noteq> 0"
  shows "keep_len pat s < length pat \<and> ends_with_part pat s (keep_len pat s)"
proof -
  let ?S = "{n. 1 \<le> n \<and> n < length pat \<and> ends_with_part pat s n}"
  have e: "\<exists>n. 1 \<le> n \<and> n < length pat \<and> ends_with_part pat s n"
    using assms unfolding keep_len_eq by (rule contrapos_np) (simp only: if_False)
  then have "keep_len pat s = Max ?S" unfolding keep_len_eq by (simp only: if_True)
  moreover have "Max ?S \<in> ?S" using e by (intro Max_in) auto
  ultimately show ?thesis by simp
qed

lemma keep_len_ends: "ends_with_part pat s (keep_len pat s)"
  using keep_len_in [of pat s] by (cases "keep_len pat s = 0") simp_all

lemma keep_len_less: "pat \<noteq> [] \<Longrightarrow> keep_len pat s < length pat"
  using keep_len_in [of pat s] by (cases "keep_len pat s = 0") simp_all

lemma keep_len_max: "n < length pat \<Longrightarrow> ends_with_part pat s n \<Longrightarrow> n \<le> keep_len pat s"
proof (cases "n = 0")
  case False
  assume n: "n < length pat" "ends_with_part pat s n"
  then have e: "\<exists>n. 1 \<le> n \<and> n < length pat \<and> ends_with_part pat s n"
    using False by (intro exI [of _ n]) simp
  then have "keep_len pat s = Max {n. 1 \<le> n \<and> n < length pat \<and> ends_with_part pat s n}"
    unfolding keep_len_eq by (simp only: if_True)
  moreover have "n \<le> Max {n. 1 \<le> n \<and> n < length pat \<and> ends_with_part pat s n}"
    using n False by (intro Max_ge) auto
  ultimately show ?thesis by simp
qed simp

lemma keep_len_le: "keep_len pat s \<le> length s"
  using keep_len_ends [of pat s] by (simp add: ends_with_part_def)

lemma keep_len_eqI:
  assumes "k < length pat" "ends_with_part pat s k"
    and "\<And>n. n < length pat \<Longrightarrow> ends_with_part pat s n \<Longrightarrow> n \<le> k"
  shows "keep_len pat s = k"
proof (rule antisym)
  have "pat \<noteq> []" using assms(1) by auto
  then show "keep_len pat s \<le> k" using assms(3) keep_len_less keep_len_ends by blast
  show "k \<le> keep_len pat s" using assms(1,2) by (rule keep_len_max)
qed

lemma occurs_at_append: "occurs_at pat s j \<Longrightarrow> occurs_at pat (s @ b) j"
proof -
  assume o: "occurs_at pat s j"
  then have "length pat \<le> length (drop j s)" unfolding occurs_at_def by (metis length_take min.cobounded1)
  then show ?thesis using o by (simp add: occurs_at_def)
qed

lemma occurs_at_append_inside:
  "occurs_at pat (s @ b) j \<Longrightarrow> j + length pat \<le> length s \<Longrightarrow> occurs_at pat s j"
  by (simp add: occurs_at_def)

lemma occurs_at_shift: "occurs_at pat (a @ s) (length a + j) = occurs_at pat s j"
  by (simp add: occurs_at_def)

text \<open>
  Without a marker in \<open>p\<close>, a marker in \<open>p @ b\<close> starts in the part kept, and so does any part of
  one at its end.
\<close>

lemma late_occurrence:
  assumes "\<forall>j. \<not> occurs_at pat p j" "pat \<noteq> []" "occurs_at pat (p @ b) j"
  shows "length p - keep_len pat p \<le> j"
proof (rule ccontr)
  assume "\<not> length p - keep_len pat p \<le> j"
  then have j: "j < length p - keep_len pat p" by simp
  have l: "length p < j + length pat" using assms occurs_at_append_inside not_le by blast
  let ?n = "length p - j"
  have "take ?n (drop j (p @ b)) = drop j p" using j by simp
  moreover have "take ?n (drop j (p @ b)) = take ?n pat"
    using assms(3) l unfolding occurs_at_def by (metis less_imp_le_nat le_diff_conv min.absorb1 add.commute take_take)
  ultimately have "ends_with_part pat p ?n" using j by (simp add: ends_with_part_def)
  moreover have "?n < length pat" using l j by linarith
  ultimately have "?n \<le> keep_len pat p" using keep_len_max by blast
  then show False using j by linarith
qed

lemma late_part:
  assumes "ends_with_part pat (p @ b) n" "n < length pat"
  shows "n \<le> keep_len pat p + length b"
proof (cases "n \<le> length b")
  case False
  let ?m = "n - length b"
  have d: "drop (length (p @ b) - n) (p @ b) = drop (length p - ?m) p @ b"
    using False assms(1) by (simp add: ends_with_part_def)
  have "take ?m (take n pat) = take ?m (drop (length p - ?m) p @ b)"
    using assms(1) unfolding ends_with_part_def d by simp
  then have "drop (length p - ?m) p = take ?m pat"
    using False assms(1) by (simp add: ends_with_part_def min_def)
  moreover have "n \<le> length p + length b" using assms(1) unfolding ends_with_part_def by simp
  then have "?m \<le> length p" by linarith
  ultimately have "ends_with_part pat p ?m" unfolding ends_with_part_def by blast
  moreover have "?m < length pat" using assms(2) by linarith
  ultimately have "?m \<le> keep_len pat p" by (intro keep_len_max)
  then show ?thesis by linarith
qed simp

lemma keep_len_cut:
  assumes "pat \<noteq> []"
  shows "keep_len pat (p @ b) = keep_len pat (drop (length p - keep_len pat p) p @ b)"
proof -
  define k where "k = keep_len pat p"
  let ?a = "take (length p - k) p" and ?r = "drop (length p - k) p @ b"
  have k: "k \<le> length p" unfolding k_def by (rule keep_len_le)
  have p: "p @ b = ?a @ ?r" by simp
  have e: "ends_with_part pat (p @ b) n \<longleftrightarrow> ends_with_part pat ?r n" if "n \<le> k + length b" for n
    unfolding p using that k by (simp add: ends_with_part_def drop_append)
  show ?thesis
    unfolding k_def [symmetric]
  proof (rule keep_len_eqI)
    show "keep_len pat ?r < length pat" using assms by (rule keep_len_less)
    have "keep_len pat ?r \<le> k + length b" using keep_len_le [of pat ?r] k by simp
    then show "ends_with_part pat (p @ b) (keep_len pat ?r)" using e keep_len_ends by blast
    show "n \<le> keep_len pat ?r" if n: "n < length pat" "ends_with_part pat (p @ b) n" for n
      using late_part [OF n(2,1)] n e keep_len_max unfolding k_def by blast
  qed
qed

section \<open>Scanning across a cut\<close>

definition flat :: "item list \<Rightarrow> (nat + nat list) list" where
  "flat is = concat (map (\<lambda>it. case it of Rest t \<Rightarrow> map Inl t | Plain t \<Rightarrow> map Inl t | Envelope b \<Rightarrow> [Inr b]) is)"

lemma flat_simps [simp]:
  "flat [] = []" "flat (it # is) = (case it of Rest t \<Rightarrow> map Inl t | Plain t \<Rightarrow> map Inl t | Envelope b \<Rightarrow> [Inr b]) @ flat is"
  "flat (is @ js) = flat is @ flat js"
  by (simp_all add: flat_def)

lemma RESUME_PREFIX_ne [simp]: "RESUME_PREFIX \<noteq> []" by (simp add: RESUME_PREFIX_def)

definition scan_flat :: "nat list \<Rightarrow> (nat + nat list) list \<times> nat list" where
  "scan_flat p = (flat (fst (scan p)), snd (scan p))"

text \<open>\<open>scan\<close> skips the text before the first marker.\<close>

lemma scan_flat_start:
  assumes "find_sub RESUME_PREFIX p = Some i"
  shows "scan_flat p = (map Inl (take i p) @ fst (scan_flat (drop i p)), snd (scan_flat (drop i p)))"
proof (cases "i = 0")
  case False
  have "p \<noteq> []" using assms by auto
  then have "scan p = (let (is, r) = scan (drop i p) in (Plain (take i p) # is, r))"
    using assms False by (simp only: scan.simps [of p] if_False option.case) simp
  then show ?thesis by (simp add: scan_flat_def case_prod_beta Let_def)
qed simp

lemma scan_flat_none:
  assumes "find_sub RESUME_PREFIX p = None"
  shows "scan_flat p = (map Inl (take (length p - keep_len RESUME_PREFIX p) p), drop (length p - keep_len RESUME_PREFIX p) p)"
proof (cases "p = []")
  case True
  have "scan [] = ([], [])" by (subst scan.simps) simp
  then show ?thesis using True by (simp add: scan_flat_def)
next
  case False
  then have "scan p = ([Rest (take (length p - keep_len RESUME_PREFIX p) p)], drop (length p - keep_len RESUME_PREFIX p) p)"
    by (simp only: scan.simps [of p] assms if_False option.case Let_def)
  then show ?thesis by (simp add: scan_flat_def)
qed

lemma find_sub_cut:
  assumes "find_sub pat p = None" "pat \<noteq> []"
  defines "a \<equiv> length p - keep_len pat p"
  shows "find_sub pat (p @ b) = map_option (\<lambda>i. a + i) (find_sub pat (drop a p @ b))"
proof -
  have no: "\<forall>j. \<not> occurs_at pat p j" using assms find_sub_None by blast
  have al: "length (take a p) = a" using keep_len_le [of pat p] by (simp add: a_def)
  have sh: "occurs_at pat (p @ b) (a + j) \<longleftrightarrow> occurs_at pat (drop a p @ b) j" for j
    using occurs_at_shift [of pat "take a p" "drop a p @ b" j]
    unfolding al append_assoc [symmetric] append_take_drop_id .
  have late: "a \<le> j" if "occurs_at pat (p @ b) j" for j
    unfolding a_def using late_occurrence [OF no assms(2) that] .
  show ?thesis
  proof (cases "find_sub pat (drop a p @ b)")
    case None
    then have "\<forall>j. \<not> occurs_at pat (drop a p @ b) j" using assms(2) find_sub_None by blast
    then have "\<forall>j. \<not> occurs_at pat (p @ b) j" using sh late by (metis le_Suc_ex)
    then have "find_sub pat (p @ b) = None" using assms(2) find_sub_None by blast
    then show ?thesis using None by simp
  next
    case (Some i)
    note fs = find_sub_Some [OF assms(2) Some]
    have "\<forall>j<a + i. \<not> occurs_at pat (p @ b) j" using fs sh late by (metis le_Suc_ex nat_add_left_cancel_less)
    then have "find_sub pat (p @ b) = Some (a + i)" using fs sh assms(2) by (intro find_sub_eqI) blast+
    then show ?thesis using Some by simp
  qed
qed

lemma scan_flat_cut_none:
  assumes "find_sub RESUME_PREFIX p = None"
  shows "scan_flat (p @ b) =
    (fst (scan_flat p) @ fst (scan_flat (snd (scan_flat p) @ b)), snd (scan_flat (snd (scan_flat p) @ b)))"
proof -
  define a where "a = length p - keep_len RESUME_PREFIX p"
  have al: "a \<le> length p" by (simp add: a_def)
  let ?r = "drop a p @ b"
  have p: "scan_flat p = (map Inl (take a p), drop a p)" unfolding a_def by (rule scan_flat_none [OF assms])
  note cut = find_sub_cut [OF assms RESUME_PREFIX_ne, of b, folded a_def]
  show ?thesis
  proof (cases "find_sub RESUME_PREFIX ?r")
    case None
    then have n: "find_sub RESUME_PREFIX (p @ b) = None" using cut by simp
    define k where "k = keep_len RESUME_PREFIX ?r"
    have k: "keep_len RESUME_PREFIX (p @ b) = k"
      unfolding k_def a_def by (rule keep_len_cut) simp
    have kl: "k \<le> length ?r" unfolding k_def by (rule keep_len_le)
    have l: "length (p @ b) - k = a + (length ?r - k)" using al kl by simp
    have "p @ b = take a p @ ?r" by simp
    then have t: "take (a + m) (p @ b) = take a p @ take m ?r" "drop (a + m) (p @ b) = drop m ?r" for m
      using al by (metis append_take_drop_id length_take min.absorb2 take_append diff_add_inverse take_all le_add1,
          metis al length_take min.absorb2 drop_append diff_add_inverse drop_all le_add1 append_Nil)
    show ?thesis
      unfolding p fst_conv snd_conv scan_flat_none [OF n] scan_flat_none [OF None] k k_def [symmetric] l t by simp
  next
    case (Some i)
    then have n: "find_sub RESUME_PREFIX (p @ b) = Some (a + i)" using cut by simp
    have "p @ b = take a p @ ?r" by simp
    then have t: "take (a + i) (p @ b) = take a p @ take i ?r" "drop (a + i) (p @ b) = drop i ?r"
      using al by (metis append_take_drop_id length_take min.absorb2 take_append diff_add_inverse take_all le_add1,
          metis al length_take min.absorb2 drop_append diff_add_inverse drop_all le_add1 append_Nil)
    show ?thesis
      unfolding p fst_conv snd_conv scan_flat_start [OF n] scan_flat_start [OF Some] t by simp
  qed
qed

lemma occurs_at_fits: "pat \<noteq> [] \<Longrightarrow> occurs_at pat s j \<Longrightarrow> j + length pat \<le> length s"
proof -
  assume "pat \<noteq> []" "occurs_at pat s j"
  then have "length pat \<le> length (drop j s)" "drop j s \<noteq> []"
    unfolding occurs_at_def by (metis length_take min.cobounded1, metis take_Nil)
  then show ?thesis by simp
qed

lemma find_sub_fits:
  assumes "pat \<noteq> []" "find_sub pat p = Some i"
  shows "i + length pat \<le> length p"
  using find_sub_Some [OF assms] occurs_at_fits assms(1) by blast

lemma find_sub_append:
  assumes "pat \<noteq> []" "find_sub pat p = Some i"
  shows "find_sub pat (p @ b) = Some i"
proof -
  note fs = find_sub_Some [OF assms] and fit = find_sub_fits [OF assms]
  have "\<not> occurs_at pat (p @ b) j" if "j < i" for j
  proof
    assume "occurs_at pat (p @ b) j"
    moreover have "j + length pat \<le> length p" using that fit by linarith
    ultimately have "occurs_at pat p j" by (rule occurs_at_append_inside)
    then show False using fs that by blast
  qed
  then show ?thesis using fs occurs_at_append assms(1) by (intro find_sub_eqI) blast+
qed

text \<open>A complete envelope at the head: the text before a newer marker is dropped.\<close>

lemma scan_flat_head:
  assumes "find_sub RESUME_PREFIX p = Some 0"
    and "find_sub [BEL] (drop (length RESUME_PREFIX) p) = Some e0" "e = length RESUME_PREFIX + e0"
  shows "scan_flat p =
    (case find_last_sub RESUME_PREFIX (take e p) of
       Some newer \<Rightarrow> if newer > 0 then scan_flat (drop newer p)
         else (Inr (drop (length RESUME_PREFIX) (take e p)) # fst (scan_flat (drop (Suc e) p)), snd (scan_flat (drop (Suc e) p)))
     | None \<Rightarrow> (Inr (drop (length RESUME_PREFIX) (take e p)) # fst (scan_flat (drop (Suc e) p)), snd (scan_flat (drop (Suc e) p))))"
proof -
  have "p \<noteq> []" using assms(1) by auto
  then have "scan p =
      (case find_last_sub RESUME_PREFIX (take e p) of
         Some newer \<Rightarrow> if newer > 0 then scan (drop newer p)
           else (let (is, r) = scan (drop (Suc e) p) in (Envelope (drop (length RESUME_PREFIX) (take e p)) # is, r))
       | None \<Rightarrow> (let (is, r) = scan (drop (Suc e) p) in (Envelope (drop (length RESUME_PREFIX) (take e p)) # is, r)))"
    by (simp only: scan.simps [of p] assms if_False option.case Let_def less_irrefl)
  then show ?thesis by (simp add: scan_flat_def case_prod_beta Let_def split: option.split)
qed

lemma scan_flat_cut:
  "scan_flat (p @ b) =
    (fst (scan_flat p) @ fst (scan_flat (snd (scan_flat p) @ b)), snd (scan_flat (snd (scan_flat p) @ b)))"
proof (induction "length p" arbitrary: p rule: less_induct)
  case less
  show ?case
  proof (cases "find_sub RESUME_PREFIX p")
    case None
    then show ?thesis by (rule scan_flat_cut_none)
  next
    case (Some i)
    note fa = find_sub_append [OF RESUME_PREFIX_ne Some, of b] find_sub_fits [OF RESUME_PREFIX_ne Some]
    have il: "i \<le> length p" using fa by linarith
    have tb: "take n (p @ b) = take n p" "drop n (p @ b) = drop n p @ b" if "n \<le> length p" for n
      using that by simp_all
    show ?thesis
    proof (cases "i = 0")
      case False
      then have "length (drop i p) < length p" using Some il by (cases p) auto
      from less [OF this] show ?thesis
        unfolding scan_flat_start [OF fa(1)] scan_flat_start [OF Some] tb [OF il] fst_conv snd_conv by simp
    next
      case True
      note fa0 = fa [unfolded True] and so = Some [unfolded True]
      let ?L = "length RESUME_PREFIX"
      have L: "?L \<le> length p" using fa0 by simp
      show ?thesis
      proof (cases "find_sub [BEL] (drop ?L p)")
        case None
        have "p \<noteq> []" using so by auto
        then have "scan p = ([], p)" by (simp only: scan.simps [of p] so None if_False option.case less_irrefl)
        then have "scan_flat p = ([], p)" by (simp add: scan_flat_def)
        then show ?thesis by simp
      next
        case e0: (Some e0)
        define e where "e = ?L + e0"
        have "[BEL] \<noteq> []" by simp
        note fb = find_sub_append [OF this e0, of b] find_sub_fits [OF this e0]
        have el: "Suc e \<le> length p" using fb(2) L by (simp add: e_def)
        have e0': "find_sub [BEL] (drop ?L (p @ b)) = Some e0" using fb(1) tb(2) [OF L] by simp
        have te: "take e (p @ b) = take e p" using el by simp
        note h = scan_flat_head [OF so e0 e_def] and h' = scan_flat_head [OF fa0(1) e0' e_def, unfolded te]
        show ?thesis
        proof (cases "\<exists>newer>0. find_last_sub RESUME_PREFIX (take e p) = Some newer")
          case True
          then obtain n where n: "find_last_sub RESUME_PREFIX (take e p) = Some n" "n > 0" by blast
          have nl: "n \<le> length p" using find_last_sub_le [OF n(1)] by simp
          then have "length (drop n p) < length p" using n el by simp
          from less [OF this] show ?thesis unfolding h h' n(1) using n(2) tb(2) [OF nl] by simp
        next
          case False
          let ?r = "\<lambda>q. (Inr (drop ?L (take e p)) # fst (scan_flat (drop (Suc e) q)), snd (scan_flat (drop (Suc e) q)))"
          have hh: "scan_flat p = ?r p" "scan_flat (p @ b) = ?r (p @ b)"
          proof -
            have "find_last_sub RESUME_PREFIX (take e p) = None \<or> find_last_sub RESUME_PREFIX (take e p) = Some 0"
              using False by (cases "find_last_sub RESUME_PREFIX (take e p)") auto
            then show "scan_flat p = ?r p" "scan_flat (p @ b) = ?r (p @ b)"
              unfolding h h' by auto
          qed
          have "length (drop (Suc e) p) < length p" using el by simp
          from less [OF this] show ?thesis unfolding hh tb(2) [OF el] fst_conv snd_conv by simp
        qed
      qed
    qed
  qed
qed

section \<open>Handling what was scanned\<close>

definition shown :: "rout list \<Rightarrow> nat list" where
  "shown out = concat (map (\<lambda>x. case x of Output t \<Rightarrow> t | _ \<Rightarrow> []) out)"

definition asked :: "rout list \<Rightarrow> (nat list \<times> nat) option list" where
  "asked out = concat (map (\<lambda>x. case x of ResumeRequest r \<Rightarrow> [r] | _ \<Rightarrow> []) out)"

lemma shown_simps [simp]:
  "shown [] = []" "shown (xs @ ys) = shown xs @ shown ys"
  "shown (x # xs) = (case x of Output t \<Rightarrow> t | _ \<Rightarrow> []) @ shown xs"
  "asked [] = []" "asked (xs @ ys) = asked xs @ asked ys"
  "asked (x # xs) = (case x of ResumeRequest r \<Rightarrow> [r] | _ \<Rightarrow> []) @ asked xs"
  "shown (map RawSend fs) = []" "asked (map RawSend fs) = []"
  "shown (output_text t) = t" "asked (output_text t) = []"
  by (simp_all add: shown_def asked_def comp_def output_text_def)

text \<open>The part of the state the output depends on.\<close>

record core =
  co_first :: bool
  co_negotiated :: bool
  co_cache :: "cache option"

definition core_of :: "rsock \<Rightarrow> core" where
  "core_of s = \<lparr>co_first = rk_first s, co_negotiated = rk_negotiated s, co_cache = rk_cache s\<rparr>"

text \<open>What one character or envelope does to it.\<close>

definition core_frame :: "env_frame \<Rightarrow> core \<Rightarrow> core \<times> nat list \<times> (nat list \<times> nat) option list" where
  "core_frame f c =
     (if fr_ready f then (c\<lparr>co_negotiated := True\<rparr>, [], [resume_request (co_cache c)])
      else if \<not> co_negotiated c \<or> fr_data f = None then (c, [], [])
      else (c\<lparr>co_first := False, co_cache := fst (remember f (co_cache c))\<rparr>,
            (if co_first c then RIS @ (if fr_reset f then [] else restored (co_cache c))
             else if fr_reset f then RIS else []) @ the (fr_data f), []))"

fun core_run :: "(nat list \<Rightarrow> env_frame option) \<Rightarrow> (nat + nat list) list \<Rightarrow> core \<Rightarrow>
    core \<times> nat list \<times> (nat list \<times> nat) option list" where
  "core_run parse [] c = (c, [], [])"
| "core_run parse (Inl x # xs) c = (let (c', t, q) = core_run parse xs c in (c', x # t, q))"
| "core_run parse (Inr b # xs) c =
     (case parse b of
        None \<Rightarrow> core_run parse xs c
      | Some f \<Rightarrow> (let (c1, t1, q1) = core_frame f c; (c2, t2, q2) = core_run parse xs c1 in (c2, t1 @ t2, q1 @ q2)))"

lemma core_run_append:
  "core_run parse (xs @ ys) c =
     (let (c1, t1, q1) = core_run parse xs c; (c2, t2, q2) = core_run parse ys c1 in (c2, t1 @ t2, q1 @ q2))"
proof (induction xs arbitrary: c)
  case (Cons x xs)
  show ?case
  proof (cases x)
    case (Inl a)
    then show ?thesis using Cons.IH [of c] by (simp add: Let_def case_prod_beta)
  next
    case (Inr b)
    show ?thesis
    proof (cases "parse b")
      case None
      then show ?thesis using Inr Cons.IH [of c] by (simp add: Let_def case_prod_beta)
    next
      case (Some f)
      then show ?thesis using Inr Cons.IH [of "fst (core_frame f c)"] by (simp add: Let_def case_prod_beta)
    qed
  qed
qed (simp add: Let_def case_prod_beta)

lemma core_run_text: "core_run parse (map Inl t) c = (c, t, [])"
  by (induction t) simp_all

lemma on_frame_core:
  "on_frame f s = (s', out) \<Longrightarrow> core_frame f (core_of s) = (core_of s', shown out, asked out) \<and> rk_current s' = rk_current s"
  by (auto simp: on_frame_def core_frame_def core_of_def allowInput_def Let_def case_prod_beta split: if_splits)

lemma on_item_core:
  assumes "on_item parse it s = (s', out)"
  shows "core_run parse (flat [it]) (core_of s) = (core_of s', shown out, asked out) \<and> rk_current s' = rk_current s"
proof (cases it)
  case (Rest t)
  then show ?thesis
    using assms by (auto simp: on_item_def core_run_text core_of_def allowInput_def Let_def split: if_splits)
next
  case (Plain t)
  then show ?thesis using assms by (auto simp: on_item_def core_run_text)
next
  case (Envelope b)
  then show ?thesis
    using assms on_frame_core by (fastforce simp: on_item_def Let_def case_prod_beta split: option.splits)
qed

lemma on_items_core:
  "on_items parse is s = (s', out) \<Longrightarrow>
     core_run parse (flat is) (core_of s) = (core_of s', shown out, asked out) \<and> rk_current s' = rk_current s"
proof (induction "is" arbitrary: s s' out)
  case Nil
  then show ?case by simp
next
  case (Cons it "is")
  obtain s1 o1 where 1: "on_item parse it s = (s1, o1)" by fastforce
  obtain s2 o2 where 2: "on_items parse is s1 = (s2, o2)" by fastforce
  have e: "s' = s2" "out = o1 @ o2" using Cons.prems 1 2 by simp_all
  have "flat (it # is) = flat [it] @ flat is" by simp
  then show ?case
    unfolding e using on_item_core [OF 1] Cons.IH [OF 2] by (simp only: core_run_append) simp
qed

text \<open>Receiving packets one by one, with what is shown and asked.\<close>

definition receive_run ::
  "(nat list \<Rightarrow> env_frame option) \<Rightarrow> nat list list \<Rightarrow> rsock \<Rightarrow> rsock \<times> rout list" where
  "receive_run parse ps s =
     foldl (\<lambda>(s, out) p. let (s', out') = rs_receive parse p s in (s', out @ out')) (s, []) ps"

lemma receive_core:
  assumes "rs_receive parse d s = (s', out)" "rk_current s"
  shows "core_run parse (fst (scan_flat (rk_pending s @ d))) (core_of s) = (core_of s', shown out, asked out)"
    and "rk_pending s' = snd (scan_flat (rk_pending s @ d))" "rk_current s'"
proof -
  obtain i r where sc: "scan (rk_pending s @ d) = (i, r)" by fastforce
  obtain s1 o1 where it: "on_items parse i s = (s1, o1)" by fastforce
  have e: "s' = s1\<lparr>rk_pending := r\<rparr>" "out = o1"
    using assms unfolding rs_receive_def by (auto simp: sc it)
  show "core_run parse (fst (scan_flat (rk_pending s @ d))) (core_of s) = (core_of s', shown out, asked out)"
    "rk_pending s' = snd (scan_flat (rk_pending s @ d))" "rk_current s'"
    using on_items_core [OF it] assms(2) by (simp_all add: e scan_flat_def sc core_of_def)
qed

lemma receive_run_Nil [simp]: "receive_run parse [] s = (s, [])"
  by (simp add: receive_run_def)

lemma receive_run_snoc:
  "receive_run parse (ps @ [p]) s =
     (let (s1, o1) = receive_run parse ps s; (s2, o2) = rs_receive parse p s1 in (s2, o1 @ o2))"
  by (simp add: receive_run_def case_prod_beta)

text \<open>A run of packets is the handling of their concatenation, whatever the cuts.\<close>

lemma receive_run_flat:
  assumes "receive_run parse ps s = (s', out)" "rk_current s" "ps \<noteq> []"
  shows "core_run parse (fst (scan_flat (rk_pending s @ concat ps))) (core_of s) = (core_of s', shown out, asked out)
       \<and> rk_pending s' = snd (scan_flat (rk_pending s @ concat ps)) \<and> rk_current s'"
  using assms(1,3)
proof (induction ps arbitrary: s' out rule: rev_induct)
  case Nil
  then show ?case by simp
next
  case (snoc p ps)
  obtain s1 o1 where 1: "receive_run parse ps s = (s1, o1)" by fastforce
  obtain s2 o2 where 2: "rs_receive parse p s1 = (s2, o2)" by fastforce
  have e: "s' = s2" "out = o1 @ o2" using snoc.prems 1 2 by (simp_all add: receive_run_snoc)
  show ?case
  proof (cases "ps = []")
    case True
    then have "s1 = s" "o1 = []" using 1 by simp_all
    then show ?thesis using receive_core [OF 2] assms(2) True by (simp add: e)
  next
    case False
    note ih = snoc.IH [OF 1 False]
    note rc = receive_core [OF 2 conjunct2 [OF conjunct2 [OF ih]]]
    let ?P = "rk_pending s @ concat ps"
    have cut: "scan_flat (?P @ p) = (fst (scan_flat ?P) @ fst (scan_flat (rk_pending s1 @ p)),
                 snd (scan_flat (rk_pending s1 @ p)))"
      using scan_flat_cut [of ?P p] ih by simp
    show ?thesis
      using ih rc by (simp add: e cut [unfolded append_assoc] core_run_append)
  qed
qed

text \<open>C15. Resuming does not depend on how the network cuts the stream: two sequences of packets
  with the same bytes show the same text, ask the same resume requests, and leave the same cache,
  the same flags and the same unfinished marker behind.\<close>

theorem resume_any_fragmentation:
  assumes "rk_current s" "ps \<noteq> []" "qs \<noteq> []" "concat ps = concat qs"
    and "receive_run parse ps s = (s1, o1)" "receive_run parse qs s = (s2, o2)"
  shows "shown o1 = shown o2 \<and> asked o1 = asked o2 \<and> rk_cache s1 = rk_cache s2 \<and>
    rk_first s1 = rk_first s2 \<and> rk_negotiated s1 = rk_negotiated s2 \<and> rk_pending s1 = rk_pending s2"
  using receive_run_flat [OF assms(5,1,2)] receive_run_flat [OF assms(6,1,3)] assms(4)
  by (auto simp: core_of_def)

lemma resume_any_fragmentation_witness:
  "let parse = (\<lambda>b. if b = [123] then Some \<lparr>fr_ready = True, fr_data = None, fr_epoch = [], fr_offset = None, fr_reset = False\<rparr>
                   else None);
       m = RESUME_PREFIX @ [123, BEL]; s = rsock_init None;
       r1 = receive_run parse [[104, 105], m] s; r2 = receive_run parse [104 # 105 # take 5 m, drop 5 m] s
   in shown (snd r1) = shown (snd r2) \<and> asked (snd r1) = asked (snd r2) \<and>
     rk_pending (fst r1) = rk_pending (fst r2)"
proof -
  have c: "rk_current (rsock_init None)" by (simp add: rsock_init_def)
  have e: "concat [[104, 105], m] = concat [104 # 105 # take 5 m, drop 5 m]" for m :: "nat list" by simp
  show ?thesis
    unfolding Let_def
    using resume_any_fragmentation [OF c _ _ e prod.collapse [symmetric] prod.collapse [symmetric]] by blast
qed

section \<open>The cache\<close>

definition remember_all :: "env_frame list \<Rightarrow> cache option \<Rightarrow> cache option" where
  "remember_all fs c = foldl (\<lambda>c f. fst (remember f c)) c fs"

definition data_of :: "env_frame \<Rightarrow> nat list" where
  "data_of f = (case fr_data f of None \<Rightarrow> [] | Some d \<Rightarrow> d)"

text \<open>The frames of the last epoch: what a cache stands for.\<close>

definition stands_for :: "cache \<Rightarrow> env_frame list \<Rightarrow> bool" where
  "stands_for c gs \<longleftrightarrow>
     gs \<noteq> [] \<and> fr_reset (hd gs) \<and> (\<forall>g \<in> set gs. fr_epoch g = ca_epoch c) \<and>
     concat (ca_chunks c) = concat (map data_of gs) \<and> ca_size c = length (concat (ca_chunks c)) \<and>
     ca_size c \<le> LIMIT \<and> ca_offset c = fr_offset (last gs)"

lemma remember_reset:
  assumes "fr_reset f" "fst (remember f c0) = Some c"
  shows "stands_for c [f]"
  using assms by (auto simp: remember_def stands_for_def data_of_def Let_def split: if_splits option.splits)

lemma remember_same:
  assumes "\<not> fr_reset f" "fr_epoch f = ca_epoch c0" "fst (remember f (Some c0)) = Some c" "stands_for c0 gs"
  shows "stands_for c (gs @ [f])"
  using assms by (auto simp: remember_def stands_for_def data_of_def Let_def hd_append split: if_splits option.splits)

lemma remember_other:
  assumes "\<not> fr_reset f" "fr_epoch f \<noteq> ca_epoch c0"
  shows "fst (remember f (Some c0)) = Some c0"
  using assms by (simp add: remember_def)

lemma remember_None: "\<not> fr_reset f \<Longrightarrow> fst (remember f None) = None"
  by (simp add: remember_def)

text \<open>C18. The cache is what was received: after any frames, a cache that is kept stands for the
  frames of one epoch since the last reset. Its chunks are exactly their data in order, its size is
  their length and within the limit, and its offset is the one of the last of them, so the next
  resume request asks for exactly what is missing.\<close>

theorem resume_cache_exact:
  assumes "remember_all fs None = Some c"
  shows "\<exists>us r vs. fs = us @ r # vs \<and> fr_reset r \<and> (\<forall>v \<in> set vs. \<not> fr_reset v) \<and> ca_epoch c = fr_epoch r \<and>
    stands_for c (r # [v \<leftarrow> vs. fr_epoch v = fr_epoch r])"
  using assms
proof (induction fs arbitrary: c rule: rev_induct)
  case Nil
  then show ?case by (simp add: remember_all_def)
next
  case (snoc f fs)
  have f: "fst (remember f (remember_all fs None)) = Some c" using snoc.prems by (simp add: remember_all_def)
  show ?case
  proof (cases "fr_reset f")
    case True
    note st = remember_reset [OF this f]
    then have "ca_epoch c = fr_epoch f" by (simp add: stands_for_def)
    then show ?thesis using True st by (intro exI [of _ fs] exI [of _ f] exI [of _ "[]"]) simp
  next
    case False
    then obtain c0 where c0: "remember_all fs None = Some c0" using f remember_None by (cases "remember_all fs None") auto
    from snoc.IH [OF this] obtain us r vs where
      d: "fs = us @ r # vs" "fr_reset r" "\<forall>v \<in> set vs. \<not> fr_reset v" "ca_epoch c0 = fr_epoch r"
         "stands_for c0 (r # [v \<leftarrow> vs. fr_epoch v = fr_epoch r])" by blast
    note f' = f [unfolded c0]
    have "ca_epoch c = fr_epoch r \<and> stands_for c (r # [v \<leftarrow> vs @ [f]. fr_epoch v = fr_epoch r])"
    proof (cases "fr_epoch f = ca_epoch c0")
      case True
      have st: "stands_for c ((r # [v \<leftarrow> vs. fr_epoch v = fr_epoch r]) @ [f])"
        by (rule remember_same [OF False True f' d(5)])
      then have "fr_epoch r = ca_epoch c" by (simp add: stands_for_def)
      then show ?thesis using st True d(4) by simp
    next
      case other: False
      then have "c = c0" using remember_other [OF False other] f' by simp
      then show ?thesis using other d by simp
    qed
    then show ?thesis using d False by (intro exI [of _ us] exI [of _ r] exI [of _ "vs @ [f]"]) simp
  qed
qed

lemma resume_cache_exact_witness:
  "\<exists>c. remember_all [\<lparr>fr_ready = False, fr_data = Some [1], fr_epoch = [9], fr_offset = None, fr_reset = True\<rparr>,
          \<lparr>fr_ready = False, fr_data = Some [2, 3], fr_epoch = [9], fr_offset = Some 3, fr_reset = False\<rparr>] None = Some c \<and>
     (\<exists>us r vs. [\<lparr>fr_ready = False, fr_data = Some [1], fr_epoch = [9], fr_offset = None, fr_reset = True\<rparr>,
          \<lparr>fr_ready = False, fr_data = Some [2, 3], fr_epoch = [9], fr_offset = Some 3, fr_reset = False\<rparr>] = us @ r # vs \<and>
       stands_for c (r # [v \<leftarrow> vs. fr_epoch v = fr_epoch r]))"
proof -
  let ?fs = "[\<lparr>fr_ready = False, fr_data = Some [1], fr_epoch = [9], fr_offset = None, fr_reset = True\<rparr>,
          \<lparr>fr_ready = False, fr_data = Some [2, 3], fr_epoch = [9], fr_offset = Some 3, fr_reset = False\<rparr>]"
  have "remember_all ?fs None = Some \<lparr>ca_epoch = [9], ca_offset = Some 3, ca_chunks = [[1], [2, 3]], ca_size = 3\<rparr>"
    by (simp add: remember_all_def remember_def LIMIT_def)
  then show ?thesis using resume_cache_exact [of ?fs] by blast
qed

section \<open>Input waits for the session\<close>

lemma rs_send_waits:
  assumes "is_input d" "\<not> rk_inputReady s" "rs_send d s = (s', out)"
  shows "out = [CloseSock] \<and> rk_inputs s' = [] \<or> out = [] \<and> rk_inputs s' = rk_inputs s @ [d]"
  using assms by (auto simp: rs_send_def Let_def split: if_splits)

lemma allowInput_in_order:
  "allowInput s = (s', out) \<Longrightarrow> out = map RawSend (rk_inputs s) \<and> rk_inputReady s' \<and> rk_inputs s' = []"
  by (auto simp: allowInput_def)

section \<open>Pruning\<close>

lemma prune_rows_over: "t > 128 * 1024 * 1024 \<Longrightarrow> prune_rows i t rows = []"
  by (induction rows arbitrary: i t) (auto simp: Let_def)

lemma prune_rows_late: "i \<ge> 8 \<Longrightarrow> prune_rows i t rows = []"
  by (induction rows arbitrary: i t) (auto simp: Let_def)

lemma prune_rows_bounds:
  "length (prune_rows i t rows) \<le> 8 - i \<and>
   (t \<le> 128 * 1024 * 1024 \<longrightarrow> t + sum_list (map db_size (prune_rows i t rows)) \<le> 128 * 1024 * 1024)"
proof (induction rows arbitrary: i t)
  case (Cons e es)
  show ?case
  proof (cases "i \<ge> 8 \<or> t + db_size e > 128 * 1024 * 1024")
    case True
    have "t + db_size e > 128 * 1024 * 1024 \<Longrightarrow> prune_rows j (t + db_size e) es = []" for j
      by (rule prune_rows_over)
    then show ?thesis using True prune_rows_late [of "Suc i"] by (auto simp: Let_def)
  next
    case False
    then show ?thesis using Cons.IH [of "Suc i" "t + db_size e"] by (auto simp: Let_def)
  qed
qed simp

end
