(* ===== verification/BlRealm.thy ===== *)
theory BlRealm
  imports VtPrelude JsStr
begin

text \<open>
  \<^verbatim>\<open>browser-lite/proxy\<close>: \<^verbatim>\<open>origin-policy.cjs\<close>, \<^verbatim>\<open>realm-policy.cjs\<close> and \<^verbatim>\<open>realm-gate.cjs\<close>. Every
  website document the proxy serves gets a host name of its own, derived from its origin and from
  the chain of documents it is nested in. What the platform and the engine provide (the URL parser,
  the suffix list, HMAC, base64 and JSON) is the record \<open>platform\<close>; a thrown error is \<open>None\<close>.
\<close>

section \<open>What the platform provides\<close>

record url =
  u_protocol :: string
  u_username :: string
  u_password :: string
  u_hostname :: string
  u_port :: string

definition u_host :: "url \<Rightarrow> string" where
  "u_host u = u_hostname u @ (if u_port u = [] then [] else '':'' @ u_port u)"

definition u_origin :: "url \<Rightarrow> string" where
  "u_origin u =
     (if u_protocol u \<in> {''http:'', ''https:'', ''ws:'', ''wss:'', ''ftp:''} then u_protocol u @ ''//'' @ u_host u
      else ''null'')"

record realm_context =
  cx_documentOrigin :: string
  cx_topSite :: string
  cx_tainted :: bool

text \<open>
  \<open>pf_url\<close> is \<open>new URL\<close>; \<open>pf_suffix\<close> is \<open>toughCookie.getPublicSuffix\<close>, None where it throws or
  returns nothing; \<open>pf_b64\<close> and \<open>pf_unb64\<close> are a Buffer's base64url; \<open>pf_data\<close> is the base64url of
  the JSON of a context key, and \<open>pf_undata\<close> reads one, with None for a taint that is no boolean.
\<close>

record platform =
  pf_url :: "string \<Rightarrow> url option"
  pf_isIP :: "string \<Rightarrow> bool"
  pf_suffix :: "string \<Rightarrow> string option"
  pf_hmac :: "nat list \<Rightarrow> string \<Rightarrow> nat list"
  pf_b64 :: "nat list \<Rightarrow> string"
  pf_unb64 :: "string \<Rightarrow> nat list"
  pf_data :: "realm_context \<Rightarrow> string"
  pf_undata :: "string \<Rightarrow> (string \<times> string \<times> bool option) option"

section \<open>Sites and contexts\<close>

definition upstreamUrl :: "platform \<Rightarrow> string \<Rightarrow> url option" where
  "upstreamUrl P input =
     (case pf_url P input of
        None \<Rightarrow> None
      | Some u \<Rightarrow>
          if u_protocol u \<notin> {''http:'', ''https:''} \<or> u_username u \<noteq> [] \<or> u_password u \<noteq> [] then None else Some u)"

text \<open>The hostname without the brackets of an IPv6 address.\<close>

definition unbracket :: "string \<Rightarrow> string" where
  "unbracket h =
     (let h1 = (if h \<noteq> [] \<and> hd h = CHR ''['' then tl h else h)
      in if h1 \<noteq> [] \<and> last h1 = CHR '']'' then butlast h1 else h1)"

definition site_of :: "platform \<Rightarrow> url \<Rightarrow> string" where
  "site_of P u =
     (if pf_isIP P (unbracket (u_hostname u)) then u_protocol u @ ''//'' @ u_hostname u
      else u_protocol u @ ''//'' @
        (case pf_suffix P (u_hostname u) of None \<Rightarrow> u_hostname u | Some d \<Rightarrow> if d = [] then u_hostname u else d))"

definition site :: "platform \<Rightarrow> string \<Rightarrow> string option" where
  "site P input = map_option (site_of P) (upstreamUrl P input)"

definition mainContext :: "platform \<Rightarrow> string \<Rightarrow> realm_context option" where
  "mainContext P url =
     (case upstreamUrl P url of
        None \<Rightarrow> None
      | Some u \<Rightarrow> (case site P url of
          None \<Rightarrow> None
        | Some t \<Rightarrow> Some \<lparr>cx_documentOrigin = u_origin u, cx_topSite = t, cx_tainted = False\<rparr>))"

text \<open>The disjunction is evaluated from the left, and a site that throws makes it throw.\<close>

definition childContext :: "platform \<Rightarrow> realm_context \<Rightarrow> string \<Rightarrow> realm_context option" where
  "childContext P parent url =
     (case upstreamUrl P url of
        None \<Rightarrow> None
      | Some u \<Rightarrow>
          (let cx = (\<lambda>t. \<lparr>cx_documentOrigin = u_origin u, cx_topSite = cx_topSite parent, cx_tainted = t\<rparr>)
           in if cx_tainted parent then Some (cx True)
              else case site P (cx_documentOrigin parent) of
                None \<Rightarrow> None
              | Some p \<Rightarrow>
                  if p \<noteq> cx_topSite parent then Some (cx True)
                  else map_option (\<lambda>c. cx (c \<noteq> cx_topSite parent)) (site P (u_origin u))))"

text \<open>\<open>contextKey\<close> serializes the three fields; the key is the triple here.\<close>

definition contextKey :: "realm_context \<Rightarrow> string \<times> string \<times> bool" where
  "contextKey c = (cx_documentOrigin c, cx_topSite c, cx_tainted c)"

lemma contextKey_inj: "contextKey c = contextKey d \<longleftrightarrow> c = d"
  by (cases c; cases d) (simp add: contextKey_def)

section \<open>The registry of realms\<close>

record realm =
  rl_origin :: string
  rl_context :: realm_context
  rl_physical :: string
  rl_resourceOnly :: bool

record realm_cfg =
  rc_uid :: nat
  rc_profile :: string
  rc_secret :: "nat list"
  rc_domain :: string
  rc_port :: string
  rc_maxRecords :: nat

text \<open>\<open>rg_file\<close> holds the lines appended to the state file, None without one.\<close>

record registry =
  rg_records :: "(string \<times> realm) list"
  rg_file :: "(string \<times> realm_context) list option"

definition NUL :: string where "NUL = [char_of (0::nat)]"

definition contextToken :: "platform \<Rightarrow> realm_cfg \<Rightarrow> realm_context \<Rightarrow> string" where
  "contextToken P cfg c =
     (let d = pf_data P c
      in d @ ''.'' @ pf_b64 P (pf_hmac P (rc_secret cfg) (rc_profile cfg @ NUL @ ''context'' @ NUL @ d)))"

definition readContext :: "platform \<Rightarrow> realm_cfg \<Rightarrow> string \<Rightarrow> realm_context option" where
  "readContext P cfg token =
     (if length token > 2048 then None
      else case js_split (CHR ''.'') token of
        [d, sig] \<Rightarrow>
          if d = [] \<or> sig = [] then None
          else if pf_unb64 P sig \<noteq> pf_hmac P (rc_secret cfg) (rc_profile cfg @ NUL @ ''context'' @ NUL @ d) then None
          else (case pf_undata P d of
            None \<Rightarrow> None
          | Some (doc, tsite, taint) \<Rightarrow>
              (case upstreamUrl P doc of
                None \<Rightarrow> None
              | Some u \<Rightarrow>
                  if u_origin u \<noteq> doc \<or> site P tsite \<noteq> Some tsite then None
                  else map_option (\<lambda>t. \<lparr>cx_documentOrigin = doc, cx_topSite = tsite, cx_tainted = t\<rparr>) taint))
      | _ \<Rightarrow> None)"

definition hex_digit :: "nat \<Rightarrow> char" where
  "hex_digit n = (if n < 10 then char_of (48 + n) else char_of (87 + n))"

definition hex :: "nat list \<Rightarrow> string" where
  "hex bs = concat (map (\<lambda>b. [hex_digit (b div 16), hex_digit (b mod 16)]) bs)"

definition resourceKey :: "platform \<Rightarrow> realm_cfg \<Rightarrow> realm_context \<Rightarrow> nat list" where
  "resourceKey P cfg c = pf_hmac P (rc_secret cfg) (rc_profile cfg @ NUL @ ''resource-realm'' @ NUL @ pf_data P c)"

definition digest :: "platform \<Rightarrow> realm_cfg \<Rightarrow> string \<Rightarrow> realm_context \<Rightarrow> string" where
  "digest P cfg org c =
     take 32 (hex (if org \<noteq> cx_documentOrigin c then pf_hmac P (resourceKey P cfg c) org
                   else pf_hmac P (rc_secret cfg) (rc_profile cfg @ NUL @ ''realm'' @ NUL @ org @ NUL @ pf_data P c)))"

definition realm_host :: "realm_cfg \<Rightarrow> string \<Rightarrow> string" where
  "realm_host cfg d =
     ''bl-u'' @ dec (rc_uid cfg) @ ''-'' @ d @ ''.'' @ rc_domain cfg @ (if rc_port cfg = [] then [] else '':'' @ rc_port cfg)"

definition physical_of :: "realm_cfg \<Rightarrow> string \<Rightarrow> string" where
  "physical_of cfg d = ''https://'' @ realm_host cfg d"

definition describe :: "platform \<Rightarrow> realm_cfg \<Rightarrow> string \<Rightarrow> realm_context \<Rightarrow> realm option" where
  "describe P cfg url c0 =
     (case upstreamUrl P url of
        None \<Rightarrow> None
      | Some u \<Rightarrow>
          map_option (\<lambda>c. \<lparr>rl_origin = u_origin u, rl_context = c, rl_physical = physical_of cfg (digest P cfg (u_origin u) c),
            rl_resourceOnly = (u_origin u \<noteq> cx_documentOrigin c)\<rparr>)
            (readContext P cfg (contextToken P cfg c0)))"

definition register ::
  "platform \<Rightarrow> realm_cfg \<Rightarrow> string \<Rightarrow> realm_context \<Rightarrow> registry \<Rightarrow> (realm \<times> registry) option" where
  "register P cfg url c0 g =
     (case describe P cfg url c0 of
        None \<Rightarrow> None
      | Some r \<Rightarrow> (case pf_url P (rl_physical r) of
          None \<Rightarrow> None
        | Some pu \<Rightarrow> (case map_of (rg_records g) (u_host pu) of
            Some old \<Rightarrow> Some (old, g)
          | None \<Rightarrow>
              if length (rg_records g) \<ge> rc_maxRecords cfg then None
              else Some (r, g\<lparr>rg_file := map_option (\<lambda>l. l @ [(rl_origin r, rl_context r)]) (rg_file g),
                              rg_records := rg_records g @ [(u_host pu, r)]\<rparr>))))"

definition recover ::
  "platform \<Rightarrow> realm_cfg \<Rightarrow> string \<Rightarrow> string \<Rightarrow> string \<Rightarrow> registry \<Rightarrow> (realm \<times> registry) option" where
  "recover P cfg host url token g =
     (case readContext P cfg token of
        None \<Rightarrow> None
      | Some c \<Rightarrow> (case upstreamUrl P url of
          None \<Rightarrow> None
        | Some u \<Rightarrow>
            if realm_host cfg (digest P cfg (u_origin u) c) \<noteq> host then None else register P cfg url c g))"

definition original :: "platform \<Rightarrow> registry \<Rightarrow> string \<Rightarrow> realm option" where
  "original P g physical =
     (case pf_url P physical of
        None \<Rightarrow> None
      | Some u \<Rightarrow> (case map_of (rg_records g) (u_host u) of
          None \<Rightarrow> None
        | Some r \<Rightarrow> if rl_physical r = u_origin u then Some r else None))"

text \<open>The constructor: the complete lines of the state file are registered again, without writing.\<close>

fun replay :: "platform \<Rightarrow> realm_cfg \<Rightarrow> (string \<times> realm_context) list \<Rightarrow> registry \<Rightarrow> registry option" where
  "replay P cfg [] g = Some g"
| "replay P cfg ((org, c) # ls) g =
     (case register P cfg org c g of None \<Rightarrow> None | Some (_, g') \<Rightarrow> replay P cfg ls g')"

definition open_registry :: "platform \<Rightarrow> realm_cfg \<Rightarrow> (string \<times> realm_context) list option \<Rightarrow> registry option" where
  "open_registry P cfg file =
     (case file of
        None \<Rightarrow> Some \<lparr>rg_records = [], rg_file = None\<rparr>
      | Some ls \<Rightarrow>
          map_option (\<lambda>g. g\<lparr>rg_file := Some ls\<rparr>) (replay P cfg ls \<lparr>rg_records = [], rg_file = None\<rparr>))"

section \<open>Who may ask for what\<close>

definition authorizeResource :: "realm option \<Rightarrow> realm \<Rightarrow> bool" where
  "authorizeResource source target =
     (case source of None \<Rightarrow> False | Some s \<Rightarrow> contextKey (rl_context s) = contextKey (rl_context target))"

text \<open>A nested document's context is computed from a registered origin, so it does not throw there.\<close>

definition authorizeChild :: "platform \<Rightarrow> realm option \<Rightarrow> realm \<Rightarrow> bool" where
  "authorizeChild P source target =
     (case source of
        None \<Rightarrow> False
      | Some s \<Rightarrow>
          \<not> rl_resourceOnly s \<and> \<not> rl_resourceOnly target \<and>
          (case childContext P (rl_context s) (rl_origin target) of
             None \<Rightarrow> False
           | Some c \<Rightarrow> contextKey c = contextKey (rl_context target)))"

definition cookieContext :: "platform \<Rightarrow> realm \<Rightarrow> string" where
  "cookieContext P r =
     (if \<not> cx_tainted (rl_context r) \<and> site P (rl_origin r) = Some (cx_topSite (rl_context r)) then ''strict'' else ''none'')"

text \<open>Request headers; None where the request has none.\<close>

record headers =
  hd_origin :: "string option"
  hd_referer :: "string option"
  hd_site :: "string option"
  hd_mode :: "string option"
  hd_dest :: "string option"

definition present :: "string option \<Rightarrow> bool" where
  "present v \<longleftrightarrow> v \<noteq> None \<and> v \<noteq> Some []"

definition samePhysical :: "platform \<Rightarrow> string \<Rightarrow> realm \<Rightarrow> bool" where
  "samePhysical P v r = (case pf_url P v of None \<Rightarrow> False | Some u \<Rightarrow> u_origin u = rl_physical r)"

definition sourceRecord :: "platform \<Rightarrow> headers \<Rightarrow> realm \<Rightarrow> registry \<Rightarrow> realm option" where
  "sourceRecord P h target g =
     (if present (hd_origin h)
      then if hd_origin h = Some ''null'' then None
           else if hd_site h = Some ''same-origin'' \<and> \<not> samePhysical P (the (hd_origin h)) target then None
           else original P g (the (hd_origin h))
      else if hd_site h = Some ''same-origin'' then Some target
      else if present (hd_referer h) then original P g (the (hd_referer h))
      else None)"

record decision =
  dc_allowed :: bool
  dc_source :: "realm option"
  dc_navigation :: bool

definition refused :: decision where
  "refused = \<lparr>dc_allowed = False, dc_source = None, dc_navigation = False\<rparr>"

record request_opts =
  op_approvedMain :: bool
  op_websocket :: bool
  op_workerModule :: bool

definition authorizeRequest :: "platform \<Rightarrow> headers \<Rightarrow> realm \<Rightarrow> registry \<Rightarrow> request_opts \<Rightarrow> decision" where
  "authorizeRequest P h target g opts =
     (if op_websocket opts
      then if present (hd_mode h) \<and> hd_mode h \<noteq> Some ''websocket'' then refused
           else let source = (if present (hd_origin h) \<and> hd_origin h \<noteq> Some ''null''
                              then original P g (the (hd_origin h)) else None)
                in \<lparr>dc_allowed = authorizeResource source target, dc_source = source, dc_navigation = False\<rparr>
      else if \<not> present (hd_mode h) \<or> \<not> present (hd_dest h) \<or> \<not> present (hd_site h) then refused
      else let mode = the (hd_mode h); dest = the (hd_dest h) in
        if dest \<in> {''serviceworker'', ''sharedworker'', ''object'', ''embed''} then refused
        else let source = sourceRecord P h target g in
          if mode = ''navigate'' \<or> dest \<in> {''document'', ''iframe'', ''frame''}
          then if mode \<noteq> ''navigate'' \<or> dest \<noteq> ''iframe'' \<or> rl_resourceOnly target then refused
               else \<lparr>dc_allowed = op_approvedMain opts \<or> authorizeChild P source target, dc_source = source,
                      dc_navigation = True\<rparr>
          else let moduleDependency = (op_workerModule opts \<and> dest = ''worker'' \<and> mode = ''cors'') in
            if dest \<in> {''worker'', ''sharedworker''} \<and> \<not> moduleDependency \<and>
               (rl_resourceOnly target \<or> source = None \<or> rl_origin (the source) \<noteq> rl_origin target)
            then refused
            else \<lparr>dc_allowed = authorizeResource source target, dc_source = source, dc_navigation = False\<rparr>)"

end
