(* ===== verification/BlNav.thy ===== *)
theory BlNav
  imports BlRealm
begin

text \<open>
  \<^verbatim>\<open>browser-lite/proxy/navigation.cjs\<close>: a cross-site navigation is captured, approved once by the
  trusted toolbar for the tab and epoch it belongs to, and dispatched once. Random identifiers are
  arguments; \<open>now\<close> is the clock of the call. A record is shared by the two maps of the source, so
  the tickets here name its challenge.
\<close>

datatype nav_state = CAPTURED | APPROVED | DISPATCHING

record nav_rec =
  nv_challenge :: string
  nv_url :: string
  nv_method :: string
  nv_body :: "nat list"
  nv_contentType :: string
  nv_sourceOrigin :: "string option"
  nv_tabId :: string
  nv_epoch :: int
  nv_initiator :: "string option"
  nv_cross :: bool
  nv_redirects :: int
  nv_taint :: string
  nv_expires :: int
  nv_state :: nav_state
  nv_ticket :: "string option"

record nav_store =
  ns_pending :: "nav_rec list"
  ns_tickets :: "(string \<times> string) list"
  ns_bytes :: nat

record nav_cfg =
  nc_ttl :: int
  nc_approvedTtl :: int
  nc_maxPending :: nat
  nc_maxPerTab :: nat
  nc_maxBytes :: nat
  nc_maxBytesPerTab :: nat

definition nav_defaults :: nav_cfg where
  "nav_defaults = \<lparr>nc_ttl = 30000, nc_approvedTtl = 120000, nc_maxPending = 256, nc_maxPerTab = 8,
     nc_maxBytes = 64 * 1024 * 1024, nc_maxBytesPerTab = 8 * 1024 * 1024\<rparr>"

definition nav_empty :: nav_store where
  "nav_empty = \<lparr>ns_pending = [], ns_tickets = [], ns_bytes = 0\<rparr>"

definition nav_get :: "nav_store \<Rightarrow> string \<Rightarrow> nav_rec option" where
  "nav_get s c = find (\<lambda>r. nv_challenge r = c) (ns_pending s)"

definition nav_by_ticket :: "nav_store \<Rightarrow> string \<Rightarrow> nav_rec option" where
  "nav_by_ticket s t = (case map_of (ns_tickets s) t of None \<Rightarrow> None | Some c \<Rightarrow> nav_get s c)"

definition nav_remove :: "nav_rec \<Rightarrow> nav_store \<Rightarrow> nav_store" where
  "nav_remove r s =
     s\<lparr>ns_pending := filter (\<lambda>q. nv_challenge q \<noteq> nv_challenge r) (ns_pending s),
       ns_tickets := (case nv_ticket r of None \<Rightarrow> ns_tickets s | Some t \<Rightarrow> filter (\<lambda>e. fst e \<noteq> t) (ns_tickets s)),
       ns_bytes := ns_bytes s - length (nv_body r)\<rparr>"

definition nav_cancel :: "string \<Rightarrow> nav_store \<Rightarrow> nav_store \<times> bool" where
  "nav_cancel c s =
     (case nav_get s c of
        None \<Rightarrow> (s, False)
      | Some r \<Rightarrow> if nv_state r = DISPATCHING then (s, False) else (nav_remove r s, True))"

text \<open>Removing while iterating over a Map visits every record that was there.\<close>

definition nav_cancel_if :: "(nav_rec \<Rightarrow> bool) \<Rightarrow> nav_store \<Rightarrow> nav_store" where
  "nav_cancel_if P s = fold (\<lambda>r s. if P r then fst (nav_cancel (nv_challenge r) s) else s) (ns_pending s) s"

definition nav_collect :: "int \<Rightarrow> nav_store \<Rightarrow> nav_store" where
  "nav_collect now s = nav_cancel_if (\<lambda>r. nv_expires r \<le> now \<and> nv_state r \<noteq> DISPATCHING) s"

definition invalidateTab :: "string \<Rightarrow> int \<Rightarrow> string option \<Rightarrow> nav_store \<Rightarrow> nav_store" where
  "invalidateTab tabId epoch except s =
     nav_cancel_if (\<lambda>r. nv_tabId r = tabId \<and> nv_epoch r \<noteq> epoch \<and> Some (nv_challenge r) \<noteq> except) s"

text \<open>The argument object of \<open>capture\<close>, after its defaults.\<close>

record nav_request =
  nr_url :: string
  nr_method :: string
  nr_body :: "nat list"
  nr_contentType :: string
  nr_sourceOrigin :: "string option"
  nr_tabId :: string
  nr_epoch :: int
  nr_initiator :: "string option"
  nr_cross :: bool
  nr_redirects :: int
  nr_taint :: string

definition owned :: "string \<Rightarrow> nav_store \<Rightarrow> nav_rec list" where
  "owned tabId s = filter (\<lambda>r. nv_tabId r = tabId) (ns_pending s)"

definition origin_or_null :: "platform \<Rightarrow> string option \<Rightarrow> string option option" where
  "origin_or_null P v = (case v of None \<Rightarrow> Some None | Some x \<Rightarrow> map_option (\<lambda>u. Some (u_origin u)) (upstreamUrl P x))"

text \<open>
  \<open>href\<close> is the serialized address. The collection has happened even when the capture is refused.
\<close>

definition nav_capture ::
  "platform \<Rightarrow> (string \<Rightarrow> string) \<Rightarrow> nav_cfg \<Rightarrow> int \<Rightarrow> string \<Rightarrow> nav_request \<Rightarrow> nav_store \<Rightarrow> nav_store \<times> string option" where
  "nav_capture P href cfg now challenge q s0 =
     (let s = nav_collect now s0; n = length (nr_body q); mine = owned (nr_tabId q) s in
      if upstreamUrl P (nr_url q) = None
         \<or> nr_method q \<notin> {''GET'', ''HEAD'', ''POST''} \<or> nr_tabId q = [] \<or> length (nr_tabId q) > 128
         \<or> CHR 0x0A \<in> set (nr_contentType q) \<or> CHR 0x0D \<in> set (nr_contentType q)
         \<or> origin_or_null P (nr_sourceOrigin q) = None \<or> origin_or_null P (nr_initiator q) = None
         \<or> nr_taint q \<notin> {''same-origin'', ''same-site'', ''cross-site''}
         \<or> nr_redirects q < 0 \<or> nr_redirects q > 20
         \<or> length (ns_pending s) \<ge> nc_maxPending cfg \<or> ns_bytes s + n > nc_maxBytes cfg
         \<or> length mine \<ge> nc_maxPerTab cfg \<or> sum_list (map (\<lambda>r. length (nv_body r)) mine) + n > nc_maxBytesPerTab cfg
         \<or> nr_method q \<in> {''GET'', ''HEAD''} \<and> nr_body q \<noteq> []
      then (s, None)
      else (s\<lparr>ns_pending := ns_pending s @ [\<lparr>nv_challenge = challenge, nv_url = href (nr_url q), nv_method = nr_method q,
               nv_body = nr_body q, nv_contentType = nr_contentType q,
               nv_sourceOrigin = the (origin_or_null P (nr_sourceOrigin q)), nv_tabId = nr_tabId q, nv_epoch = nr_epoch q,
               nv_initiator = the (origin_or_null P (nr_initiator q)), nv_cross = nr_cross q, nv_redirects = nr_redirects q,
               nv_taint = nr_taint q, nv_expires = now + nc_ttl cfg, nv_state = CAPTURED, nv_ticket = None\<rparr>],
              ns_bytes := ns_bytes s + n\<rparr>, Some challenge))"

definition nav_set :: "string \<Rightarrow> (nav_rec \<Rightarrow> nav_rec) \<Rightarrow> nav_store \<Rightarrow> nav_store" where
  "nav_set c f s = s\<lparr>ns_pending := map (\<lambda>r. if nv_challenge r = c then f r else r) (ns_pending s)\<rparr>"

definition nav_approve ::
  "nav_cfg \<Rightarrow> int \<Rightarrow> string \<Rightarrow> string \<Rightarrow> string \<Rightarrow> int \<Rightarrow> string option \<Rightarrow> nav_store \<Rightarrow> nav_store \<times> string option" where
  "nav_approve cfg now ticket challenge tabId epoch sourceOrigin s0 =
     (let s = nav_collect now s0 in
      case nav_get s challenge of
        None \<Rightarrow> (s, None)
      | Some r \<Rightarrow>
          if nv_state r \<noteq> CAPTURED \<or> nv_tabId r \<noteq> tabId \<or> nv_epoch r \<noteq> epoch \<or> nv_sourceOrigin r \<noteq> sourceOrigin
          then (s, None)
          else ((nav_set challenge (\<lambda>r. r\<lparr>nv_state := APPROVED, nv_expires := now + nc_approvedTtl cfg, nv_ticket := Some ticket\<rparr>) s)
                  \<lparr>ns_tickets := ns_tickets s @ [(ticket, challenge)]\<rparr>, Some ticket))"

definition nav_dispatch :: "int \<Rightarrow> string \<Rightarrow> string \<Rightarrow> int \<Rightarrow> nav_store \<Rightarrow> nav_store \<times> nav_rec option" where
  "nav_dispatch now ticket tabId epoch s0 =
     (let s = nav_collect now s0 in
      case nav_by_ticket s ticket of
        None \<Rightarrow> (s, None)
      | Some r \<Rightarrow>
          if nv_state r \<noteq> APPROVED \<or> nv_tabId r \<noteq> tabId \<or> nv_epoch r \<noteq> epoch then (s, None)
          else ((nav_set (nv_challenge r) (\<lambda>r. r\<lparr>nv_state := DISPATCHING\<rparr>) s)
                  \<lparr>ns_tickets := filter (\<lambda>e. fst e \<noteq> ticket) (ns_tickets s)\<rparr>, Some r))"

definition nav_complete :: "string \<Rightarrow> nav_store \<Rightarrow> nav_store \<times> bool" where
  "nav_complete c s =
     (case nav_get s c of
        None \<Rightarrow> (s, False)
      | Some r \<Rightarrow> if nv_state r \<noteq> DISPATCHING then (s, False) else (nav_remove r s, True))"

text \<open>The calls, for runs of the store.\<close>

datatype nav_event =
    Capture int string nav_request
  | Approve int string string string int "string option"
  | Dispatch int string string int
  | Complete string
  | Cancel string
  | Invalidate string int "string option"
  | Collect int

datatype nav_result = Challenge string | Ticket string | Replay nav_rec | Plain_result

text \<open>A call's result; a thrown error is None.\<close>

fun nav_step ::
  "platform \<Rightarrow> (string \<Rightarrow> string) \<Rightarrow> nav_cfg \<Rightarrow> nav_event \<Rightarrow> nav_store \<Rightarrow> nav_store \<times> nav_result option" where
  "nav_step P href cfg (Capture now c q) s =
     (let (s', r) = nav_capture P href cfg now c q s in (s', map_option Challenge r))"
| "nav_step P href cfg (Approve now t c tab ep so) s =
     (let (s', r) = nav_approve cfg now t c tab ep so s in (s', map_option Ticket r))"
| "nav_step P href cfg (Dispatch now t tab ep) s =
     (let (s', r) = nav_dispatch now t tab ep s in (s', map_option Replay r))"
| "nav_step P href cfg (Complete c) s =
     (let (s', ok) = nav_complete c s in (s', if ok then Some Plain_result else None))"
| "nav_step P href cfg (Cancel c) s = (fst (nav_cancel c s), Some Plain_result)"
| "nav_step P href cfg (Invalidate tab ep except) s = (invalidateTab tab ep except s, Some Plain_result)"
| "nav_step P href cfg (Collect now) s = (nav_collect now s, Some Plain_result)"

end
