(* ===== verification/BlTabs.thy ===== *)
theory BlTabs
  imports BlNav
begin

text \<open>
  \<^verbatim>\<open>browser-lite/proxy/gateway.cjs\<close>: the tabs, entry tickets and admissions of the gateway in realm
  mode. Opening a tab gives it a new epoch, a token and one entry ticket; the ticket is exchanged
  once, from the trusted toolbar, for an admission; the admission lets one navigation through.
  Random identifiers, the clock and the engine's proxied address (\<open>proxyUrl\<close>) are arguments.
\<close>

record tab =
  tb_tabId :: string
  tb_epoch :: int
  tb_token :: string
  tb_lease :: "string option"
  tb_origin :: string
  tb_physical :: string
  tb_opener :: "int option"

text \<open>The ticket and the owner of an approved navigation.\<close>

record execution =
  ex_ticket :: string
  ex_tabId :: string
  ex_epoch :: int

record entry_ticket =
  te_url :: string
  te_sourceOrigin :: "string option"
  te_execution :: "execution option"
  te_tabId :: string
  te_epoch :: int
  te_cross :: bool
  te_redirects :: int
  te_taint :: string
  te_lease :: "string option"
  te_host :: string
  te_expires :: int

record admission =
  ad_sourceOrigin :: "string option"
  ad_execution :: "execution option"
  ad_tabId :: string
  ad_epoch :: int
  ad_cross :: bool
  ad_redirects :: int
  ad_taint :: string
  ad_expires :: int

record gateway =
  gw_tabs :: "tab list"
  gw_tabTokens :: "(string \<times> tab) list"
  gw_tickets :: "(string \<times> entry_ticket) list"
  gw_admissions :: "(string \<times> admission list) list"
  gw_navs :: nav_store
  gw_registry :: registry

text \<open>The configuration: the platform, the realms, the navigation limits and whether a root identity guards the ingress.\<close>

record gw_cfg =
  gc_platform :: platform
  gc_realms :: realm_cfg
  gc_navs :: nav_cfg
  gc_href :: "string \<Rightarrow> string"
  gc_proxyUrl :: "string \<Rightarrow> realm_context \<Rightarrow> string \<Rightarrow> string"
  gc_ingress :: bool

definition tab_get :: "gateway \<Rightarrow> string \<Rightarrow> tab option" where
  "tab_get g i = find (\<lambda>t. tb_tabId t = i) (gw_tabs g)"

definition tab_put :: "tab \<Rightarrow> tab list \<Rightarrow> tab list" where
  "tab_put t ts =
     (if \<exists>x \<in> set ts. tb_tabId x = tb_tabId t then map (\<lambda>x. if tb_tabId x = tb_tabId t then t else x) ts else ts @ [t])"

definition drop_tickets :: "string \<Rightarrow> (string \<times> entry_ticket) list \<Rightarrow> (string \<times> entry_ticket) list" where
  "drop_tickets i ts = filter (\<lambda>e. te_tabId (snd e) \<noteq> i) ts"

text \<open>Every list of admissions is filtered, and an empty one goes.\<close>

definition keep_admissions :: "(admission \<Rightarrow> bool) \<Rightarrow> (string \<times> admission list) list \<Rightarrow> (string \<times> admission list) list" where
  "keep_admissions P as = filter (\<lambda>e. snd e \<noteq> []) (map (\<lambda>(k, items). (k, filter P items)) as)"

text \<open>The opener a page names: absent, an integer, or something else.\<close>

datatype opener = Undefined | Integer int | Other

record open_opts =
  oo_sourceOrigin :: "string option"
  oo_tabId :: string
  oo_epoch :: int
  oo_execution :: "execution option"
  oo_cross :: bool
  oo_redirects :: int
  oo_taint :: string
  oo_opener :: opener

text \<open>What \<open>open\<close> answers.\<close>

record opened =
  on_entry :: string
  on_origin :: string
  on_url :: string
  on_tabId :: string
  on_epoch :: int

definition next_opener :: "opener \<Rightarrow> tab option \<Rightarrow> int option" where
  "next_opener o' prior =
     (case o' of
        Integer n \<Rightarrow> if 0 \<le> n \<and> n < 4096 then Some n else None
      | Undefined \<Rightarrow> (case prior of None \<Rightarrow> None | Some p \<Rightarrow> tb_opener p)
      | Other \<Rightarrow> None)"

text \<open>
  The commit of \<open>open\<close>: the tab takes the place of the prior one, whose token, tickets, admissions
  and captured navigations go, except the navigation being executed; one new entry ticket is kept.
\<close>

definition gw_commit :: "int \<Rightarrow> string \<Rightarrow> open_opts \<Rightarrow> string \<Rightarrow> url \<Rightarrow> tab \<Rightarrow> gateway \<Rightarrow> gateway" where
  "gw_commit now ticket opts url u t g =
     (let i = tb_tabId t;
          toks = (case tab_get g i of None \<Rightarrow> gw_tabTokens g
                  | Some p \<Rightarrow> filter (\<lambda>e. fst e \<noteq> tb_token p) (gw_tabTokens g));
          executing = (case oo_execution opts of None \<Rightarrow> None
                       | Some x \<Rightarrow> map_option nv_challenge (nav_by_ticket (gw_navs g) (ex_ticket x)));
          e = \<lparr>te_url = url, te_sourceOrigin = oo_sourceOrigin opts, te_execution = oo_execution opts,
               te_tabId = i, te_epoch = tb_epoch t, te_cross = oo_cross opts, te_redirects = oo_redirects opts,
               te_taint = oo_taint opts, te_lease = tb_lease t, te_host = u_host u, te_expires = now + 120000\<rparr>
      in g\<lparr>gw_tabs := tab_put t (gw_tabs g),
           gw_tabTokens := filter (\<lambda>e. fst e \<noteq> tb_token t) toks @ [(tb_token t, t)],
           gw_navs := invalidateTab i (tb_epoch t) executing (gw_navs g),
           gw_tickets := filter (\<lambda>e. fst e \<noteq> ticket) (drop_tickets i (gw_tickets g)) @ [(ticket, e)],
           gw_admissions := keep_admissions (\<lambda>a. ad_tabId a \<noteq> i) (gw_admissions g)\<rparr>)"

text \<open>
  \<open>open\<close>: the expired tickets go first, whatever follows; an error (None) before the commit leaves
  the tabs as they were, with at most a realm registered.
\<close>

definition gw_open ::
  "gw_cfg \<Rightarrow> int \<Rightarrow> string option \<Rightarrow> string \<Rightarrow> string \<Rightarrow> string \<Rightarrow> open_opts \<Rightarrow> gateway \<Rightarrow> gateway \<times> opened option" where
  "gw_open c now lease token ticket dest opts g0 =
     (let P = gc_platform c; i = oo_tabId opts; ep = oo_epoch opts;
          g = g0\<lparr>gw_tickets := filter (\<lambda>e. \<not> te_expires (snd e) < now) (gw_tickets g0)\<rparr>;
          prior = tab_get g i
      in if length (filter (\<lambda>e. te_tabId (snd e) \<noteq> i) (gw_tickets g)) \<ge> 128
            \<or> ep < 1 \<or> length i > 128
            \<or> (case prior of Some p \<Rightarrow> ep \<le> tb_epoch p | None \<Rightarrow> length (gw_tabs g) \<ge> 128)
         then (g, None)
         else case mainContext P dest of
           None \<Rightarrow> (g, None)
         | Some ctx \<Rightarrow>
             if gc_ingress c \<and> (case prior of Some p \<Rightarrow> tb_lease p \<noteq> lease | None \<Rightarrow> False) then (g, None)
             else (case register P (gc_realms c) dest ctx (gw_registry g) of
               None \<Rightarrow> (g, None)
             | Some (rec, reg) \<Rightarrow>
                 (let t = \<lparr>tb_tabId = i, tb_epoch = ep, tb_token = token, tb_lease = lease,
                          tb_origin = (case pf_url P dest of None \<Rightarrow> [] | Some u \<Rightarrow> u_origin u),
                          tb_physical = rl_physical rec, tb_opener = next_opener (oo_opener opts) prior\<rparr>;
                     g1 = g\<lparr>gw_registry := reg\<rparr>;
                     url = gc_proxyUrl c dest ctx token
                 in case pf_url P url of
                      None \<Rightarrow> (g1, None)
                    | Some u \<Rightarrow> (gw_commit now ticket opts url u t g1,
                        Some \<lparr>on_entry = u_origin u @ ''/__vt/entry?ticket='' @ ticket, on_origin = u_origin u,
                              on_url = dest, on_tabId = i, on_epoch = ep\<rparr>))))"

definition gw_closeTab :: "string \<Rightarrow> int \<Rightarrow> gateway \<Rightarrow> gateway \<times> bool" where
  "gw_closeTab i ep g =
     (case tab_get g i of
        None \<Rightarrow> (g, False)
      | Some t \<Rightarrow>
          if tb_epoch t \<noteq> ep then (g, False)
          else (g\<lparr>gw_navs := invalidateTab i (-1) None (gw_navs g),
                  gw_tabs := filter (\<lambda>x. tb_tabId x \<noteq> i) (gw_tabs g),
                  gw_tabTokens := filter (\<lambda>e. fst e \<noteq> tb_token t) (gw_tabTokens g),
                  gw_tickets := drop_tickets i (gw_tickets g),
                  gw_admissions := keep_admissions (\<lambda>a. ad_tabId a \<noteq> i) (gw_admissions g)\<rparr>, True))"

definition gw_approveNavigation ::
  "gw_cfg \<Rightarrow> int \<Rightarrow> string option \<Rightarrow> string \<Rightarrow> string \<Rightarrow> string \<Rightarrow> string \<Rightarrow> string \<Rightarrow> int \<Rightarrow> gateway \<Rightarrow> gateway \<times> opened option" where
  "gw_approveNavigation c now lease navTicket token ticket challenge i ep g =
     (case (tab_get g i, nav_get (gw_navs g) challenge) of
        (Some t, Some r) \<Rightarrow>
          if tb_epoch t \<noteq> ep then (g, None)
          else (case nav_approve (gc_navs c) now navTicket challenge i ep (Some (tb_origin t)) (gw_navs g) of
              (ns, None) \<Rightarrow> (g\<lparr>gw_navs := ns\<rparr>, None)
            | (ns, Some nt) \<Rightarrow>
                gw_open c now lease token ticket (nv_url r)
                  \<lparr>oo_sourceOrigin = nv_initiator r, oo_tabId = i, oo_epoch = ep + 1,
                   oo_execution = Some \<lparr>ex_ticket = nt, ex_tabId = i, ex_epoch = ep\<rparr>, oo_cross = nv_cross r,
                   oo_redirects = nv_redirects r, oo_taint = nv_taint r, oo_opener = Undefined\<rparr>
                  (g\<lparr>gw_navs := ns\<rparr>))
      | _ \<Rightarrow> (g, None))"

text \<open>\<open>captureNavigation\<close>, after the body has been read: a navigation of a live tab.\<close>

definition gw_capture ::
  "gw_cfg \<Rightarrow> int \<Rightarrow> string \<Rightarrow> string \<Rightarrow> string \<Rightarrow> nat list \<Rightarrow> string \<Rightarrow> tab \<Rightarrow> gateway \<Rightarrow> gateway \<times> string option" where
  "gw_capture c now challenge dest method body contentType t g =
     (let (ns, r) = nav_capture (gc_platform c) (gc_href c) (gc_navs c) now challenge
            \<lparr>nr_url = dest, nr_method = method, nr_body = body, nr_contentType = contentType,
             nr_sourceOrigin = Some (tb_origin t), nr_tabId = tb_tabId t, nr_epoch = tb_epoch t,
             nr_initiator = Some (tb_origin t), nr_cross = False, nr_redirects = 0, nr_taint = ''same-origin''\<rparr> (gw_navs g)
      in (g\<lparr>gw_navs := ns\<rparr>, r))"

text \<open>The request for \<open>/__vt/entry\<close>; an empty answer is the refusal, and changes nothing.\<close>

record entry_request =
  er_ticket :: string
  er_host :: string
  er_fromParent :: bool
  er_dest :: "string option"
  er_role :: string
  er_lease :: "string option"

definition admit :: "string \<Rightarrow> admission \<Rightarrow> (string \<times> admission list) list \<Rightarrow> (string \<times> admission list) list" where
  "admit key a as =
     (if key \<in> fst ` set as then map (\<lambda>(k, items). (k, if k = key then items @ [a] else items)) as else as @ [(key, [a])])"

definition gw_entry :: "gw_cfg \<Rightarrow> int \<Rightarrow> entry_request \<Rightarrow> gateway \<Rightarrow> gateway \<times> string option" where
  "gw_entry c now q g =
     (case map_of (gw_tickets g) (er_ticket q) of
        None \<Rightarrow> (g, None)
      | Some e \<Rightarrow>
          if te_host e \<noteq> er_host q \<or> te_expires e < now
             \<or> map_option tb_epoch (tab_get g (te_tabId e)) \<noteq> Some (te_epoch e)
             \<or> gc_ingress c \<and> (te_lease e \<noteq> er_lease q \<or> er_role q \<notin> {''auth'', ''entry''})
             \<or> \<not> er_fromParent q \<or> er_dest q \<noteq> Some ''iframe''
          then (g, None)
          else (g\<lparr>gw_tickets := filter (\<lambda>x. fst x \<noteq> er_ticket q) (gw_tickets g),
                  gw_admissions := admit (gc_href c (te_url e))
                    \<lparr>ad_sourceOrigin = te_sourceOrigin e, ad_execution = te_execution e, ad_tabId = te_tabId e,
                     ad_epoch = te_epoch e, ad_cross = te_cross e, ad_redirects = te_redirects e, ad_taint = te_taint e,
                     ad_expires = now + 120000\<rparr>
                    (keep_admissions (\<lambda>a. ad_expires a > now) (gw_admissions g))\<rparr>, Some (te_url e)))"

text \<open>The admission a navigation to an address may use, and its use: it is spent, and an approved
  navigation behind it is dispatched.\<close>

definition gw_candidate :: "int \<Rightarrow> bool \<Rightarrow> string \<Rightarrow> gateway \<Rightarrow> admission option" where
  "gw_candidate now parent key g =
     (if \<not> parent then None
      else find (\<lambda>a. ad_expires a > now \<and> map_option tb_epoch (tab_get g (ad_tabId a)) = Some (ad_epoch a))
             (case map_of (gw_admissions g) key of None \<Rightarrow> [] | Some items \<Rightarrow> items))"

definition gw_spend :: "int \<Rightarrow> string \<Rightarrow> admission \<Rightarrow> gateway \<Rightarrow> gateway \<times> nav_rec option option" where
  "gw_spend now key a g =
     (let g1 = g\<lparr>gw_admissions := filter (\<lambda>e. snd e \<noteq> [] \<or> fst e \<noteq> key)
                  (map (\<lambda>(k, items). (k, if k = key then remove1 a items else items)) (gw_admissions g))\<rparr>
      in case ad_execution a of
           None \<Rightarrow> (g1, Some None)
         | Some x \<Rightarrow>
             (let (ns, r) = nav_dispatch now (ex_ticket x) (ex_tabId x) (ex_epoch x) (gw_navs g1)
              in (g1\<lparr>gw_navs := ns\<rparr>, map_option Some r)))"

text \<open>The events of a gateway.\<close>

datatype gw_event =
    Open int "string option" string string string open_opts
  | ApproveNavigation int "string option" string string string string string int
  | CloseTab string int
  | CaptureNavigation int string string string "nat list" string string
  | Enter int entry_request
  | Navigate int bool string

fun gw_step :: "gw_cfg \<Rightarrow> gateway \<Rightarrow> gw_event \<Rightarrow> gateway" where
  "gw_step c g (Open now lease token ticket dest opts) = fst (gw_open c now lease token ticket dest opts g)"
| "gw_step c g (ApproveNavigation now lease navTicket token ticket challenge i ep) =
     fst (gw_approveNavigation c now lease navTicket token ticket challenge i ep g)"
| "gw_step c g (CloseTab i ep) = fst (gw_closeTab i ep g)"
| "gw_step c g (CaptureNavigation now challenge dest method body ct token) =
     (case map_of (gw_tabTokens g) token of
        None \<Rightarrow> g
      | Some t \<Rightarrow> fst (gw_capture c now challenge dest method body ct t g))"
| "gw_step c g (Enter now q) = fst (gw_entry c now q g)"
| "gw_step c g (Navigate now parent key) =
     (case gw_candidate now parent key g of None \<Rightarrow> g | Some a \<Rightarrow> fst (gw_spend now key a g))"

definition gw_empty :: "registry \<Rightarrow> gateway" where
  "gw_empty reg = \<lparr>gw_tabs = [], gw_tabTokens = [], gw_tickets = [], gw_admissions = [], gw_navs = nav_empty, gw_registry = reg\<rparr>"

section \<open>What refers to a tab\<close>

text \<open>A tab and an epoch are live when the tab is open in that epoch.\<close>

definition live :: "gateway \<Rightarrow> string \<Rightarrow> int \<Rightarrow> bool" where
  "live g i ep \<longleftrightarrow> map_option tb_epoch (tab_get g i) = Some ep"

definition gw_ok :: "gateway \<Rightarrow> bool" where
  "gw_ok g \<longleftrightarrow>
     distinct (map tb_tabId (gw_tabs g)) \<and> length (gw_tabs g) \<le> 128 \<and>
     (\<forall>(k, t) \<in> set (gw_tabTokens g). k = tb_token t \<and> t \<in> set (gw_tabs g)) \<and>
     (\<forall>e \<in> set (gw_tickets g). live g (te_tabId (snd e)) (te_epoch (snd e))) \<and>
     (\<forall>(k, as) \<in> set (gw_admissions g). \<forall>a \<in> set as. live g (ad_tabId a) (ad_epoch a))"

lemma tab_get_Some: "tab_get g i = Some t \<Longrightarrow> t \<in> set (gw_tabs g) \<and> tb_tabId t = i"
  by (auto simp: tab_get_def find_Some_iff)

lemma tab_get_unique:
  assumes "distinct (map tb_tabId (gw_tabs g))" "t \<in> set (gw_tabs g)"
  shows "tab_get g (tb_tabId t) = Some t"
proof -
  have "tab_get g (tb_tabId t) \<noteq> None" using assms(2) by (auto simp: tab_get_def find_None_iff)
  then obtain q where q: "tab_get g (tb_tabId t) = Some q" by blast
  then have "q = t" using tab_get_Some [OF q] assms by (auto simp: distinct_map dest: inj_onD)
  then show ?thesis using q by simp
qed

end
