(* ===== verification/BlRealmProps.thy ===== *)
theory BlRealmProps
  imports BlRealm
begin

text \<open>
  What the realms guarantee: which documents count as first party, that every admitted request
  comes from the document whose context it uses, that a host name stands for one origin in one
  context, and that the registry survives a restart.
\<close>

section \<open>What is relied on\<close>

text \<open>The URL parser reads back the origin it wrote (WHATWG URL, origin serialization).\<close>

definition url_law :: "platform \<Rightarrow> bool" where
  "url_law P \<longleftrightarrow>
     (\<forall>s u. pf_url P s = Some u \<and> u_protocol u \<in> {''http:'', ''https:''} \<longrightarrow>
        pf_url P (u_origin u) = Some (u\<lparr>u_username := [], u_password := []\<rparr>))"

text \<open>base64url has no full stop and decodes what it encoded; JSON is read back.\<close>

definition token_law :: "platform \<Rightarrow> bool" where
  "token_law P \<longleftrightarrow>
     (\<forall>c. pf_data P c \<noteq> [] \<and> CHR ''.'' \<notin> set (pf_data P c) \<and>
        pf_undata P (pf_data P c) = Some (cx_documentOrigin c, cx_topSite c, Some (cx_tainted c))) \<and>
     (\<forall>k m. pf_b64 P (pf_hmac P k m) \<noteq> [] \<and> CHR ''.'' \<notin> set (pf_b64 P (pf_hmac P k m)) \<and>
        pf_unb64 P (pf_b64 P (pf_hmac P k m)) = pf_hmac P k m)"

lemma upstream_origin:
  assumes "url_law P" "upstreamUrl P s = Some u"
  shows "upstreamUrl P (u_origin u) = Some u" "site P (u_origin u) = Some (site_of P u)" "site P s = Some (site_of P u)"
proof -
  have u: "pf_url P s = Some u" "u_protocol u \<in> {''http:'', ''https:''}" "u_username u = []" "u_password u = []"
    using assms(2) by (simp_all add: upstreamUrl_def split: option.splits if_splits)
  then have "pf_url P (u_origin u) = Some (u\<lparr>u_username := [], u_password := []\<rparr>)"
    using assms(1) unfolding url_law_def by blast
  also have "u\<lparr>u_username := [], u_password := []\<rparr> = u" using u(3,4) by simp
  finally show up: "upstreamUrl P (u_origin u) = Some u" using u by (simp add: upstreamUrl_def)
  show "site P (u_origin u) = Some (site_of P u)" "site P s = Some (site_of P u)"
    using up assms(2) by (simp_all add: site_def)
qed

section \<open>A platform of \<open>https\<close> addresses\<close>

text \<open>
  A concrete platform on which the hypotheses hold: addresses are \<open>https://\<close> and a host without
  a port or a path, a site is the last five characters of the host, a context is written in
  hexadecimal. The theorems are applied to it below.
\<close>

definition nibble :: "char \<Rightarrow> nat" where
  "nibble c = (let n = of_char c in if n < 58 then n - 48 else n - 87)"

fun unhex :: "string \<Rightarrow> nat list" where
  "unhex (a # b # s) = (16 * nibble a + nibble b) # unhex s"
| "unhex s = []"

lemma nibble_hex_digit: "n < 16 \<Longrightarrow> nibble (hex_digit n) = n"
  by (simp add: nibble_def hex_digit_def Let_def)

lemma unhex_hex: "\<forall>b \<in> set bs. b < 256 \<Longrightarrow> unhex (hex bs) = bs"
  by (induction bs) (simp_all add: hex_def nibble_hex_digit div_less_iff_less_mult)

lemma hex_digit_range: "n < 16 \<Longrightarrow> 48 \<le> (of_char (hex_digit n) :: nat) \<and> (of_char (hex_digit n) :: nat) \<le> 102"
  by (simp add: hex_digit_def)

lemma hex_range:
  "\<forall>b \<in> set bs. b < 256 \<Longrightarrow> c \<in> set (hex bs) \<Longrightarrow> 48 \<le> (of_char c :: nat) \<and> (of_char c :: nat) \<le> 102"
  by (induction bs) (auto simp: hex_def hex_digit_range div_less_iff_less_mult)

definition hex_text :: "string \<Rightarrow> string" where
  "hex_text s = hex (map of_char s)"

lemma of_char_byte: "(of_char c :: nat) < 256"
  by (rule nat_of_char_less_256)

lemma unhex_text: "map char_of (unhex (hex_text s)) = s"
  unfolding hex_text_def by (subst unhex_hex) (simp_all add: of_char_byte comp_def)

lemma hex_text_char:
  assumes "of_char c < (48 :: nat) \<or> of_char c > (102 :: nat)"
  shows "c \<notin> set (hex_text s)"
proof
  assume "c \<in> set (hex_text s)"
  then have "48 \<le> (of_char c :: nat) \<and> (of_char c :: nat) \<le> 102"
    unfolding hex_text_def by (rule hex_range [rotated]) (auto simp: of_char_byte)
  then show False using assms by linarith
qed

definition demo_platform :: platform where
  "demo_platform = \<lparr>
     pf_url = (\<lambda>s. if starts_with ''https://'' s \<and> s \<noteq> ''https://''
       then Some \<lparr>u_protocol = ''https:'', u_username = [], u_password = [], u_hostname = drop 8 s, u_port = []\<rparr> else None),
     pf_isIP = (\<lambda>h. False),
     pf_suffix = (\<lambda>h. Some (drop (length h - 5) h)),
     pf_hmac = (\<lambda>k m. [length m mod 256, length k mod 256]),
     pf_b64 = (\<lambda>bs. hex bs),
     pf_unb64 = (\<lambda>s. unhex s),
     pf_data = (\<lambda>c. hex_text (cx_documentOrigin c) @ ''x'' @ hex_text (cx_topSite c) @ ''x'' @ (if cx_tainted c then ''1'' else ''0'')),
     pf_undata = (\<lambda>s. case js_split (CHR ''x'') s of
         [a, b, t] \<Rightarrow> Some (map char_of (unhex a), map char_of (unhex b), Some (t = ''1''))
       | _ \<Rightarrow> None)\<rparr>"

lemma demo_url: "url_law demo_platform"
  by (auto simp: url_law_def demo_platform_def u_origin_def u_host_def starts_with_iff)

lemma demo_token: "token_law demo_platform"
proof -
  have x: "CHR ''x'' \<notin> set (hex_text s)" and d: "CHR ''.'' \<notin> set (hex_text s)" for s
    by (rule hex_text_char, simp)+
  have b: "CHR ''.'' \<notin> set (hex [a mod 256, b mod 256])" for a b
    using hex_range [of "[a mod 256, b mod 256]" "CHR ''.''"] by auto
  have sp: "js_split (CHR ''x'') (hex_text a @ CHR ''x'' # hex_text e @ CHR ''x'' # t) = [hex_text a, hex_text e, t]"
    if "CHR ''x'' \<notin> set t" for a e t
    using js_split_append [OF x] js_split_single [OF that] by simp
  show ?thesis
    unfolding token_law_def
  proof (intro conjI allI)
    fix c :: realm_context and k :: "nat list" and m :: string
    show "pf_data demo_platform c \<noteq> []" by (simp add: demo_platform_def)
    show "CHR ''.'' \<notin> set (pf_data demo_platform c)" using d by (simp add: demo_platform_def)
    show "pf_undata demo_platform (pf_data demo_platform c) =
        Some (cx_documentOrigin c, cx_topSite c, Some (cx_tainted c))"
      using sp [of "if cx_tainted c then ''1'' else ''0''" "cx_documentOrigin c" "cx_topSite c"]
      by (simp add: demo_platform_def unhex_text)
    show "pf_b64 demo_platform (pf_hmac demo_platform k m) \<noteq> []" by (simp add: demo_platform_def hex_def)
    show "CHR ''.'' \<notin> set (pf_b64 demo_platform (pf_hmac demo_platform k m))" using b by (simp add: demo_platform_def)
    show "pf_unb64 demo_platform (pf_b64 demo_platform (pf_hmac demo_platform k m)) = pf_hmac demo_platform k m"
      by (simp add: demo_platform_def unhex_hex)
  qed
qed

lemma length_hex_text: "length (hex_text s) = 2 * length s"
  by (induction s) (simp_all add: hex_text_def hex_def)

lemma demo_token_length:
  "length (contextToken demo_platform cfg c) = 2 * length (cx_documentOrigin c) + 2 * length (cx_topSite c) + 8"
  by (simp add: contextToken_def demo_platform_def Let_def length_hex_text hex_def)

lemmas demo_laws = demo_url demo_token

section \<open>First party\<close>

text \<open>The context of a document nested in documents at the given addresses.\<close>

fun nest_from :: "platform \<Rightarrow> realm_context \<Rightarrow> string list \<Rightarrow> realm_context option" where
  "nest_from P c [] = Some c"
| "nest_from P c (u # us) = (case childContext P c u of None \<Rightarrow> None | Some c' \<Rightarrow> nest_from P c' us)"

definition nested :: "platform \<Rightarrow> string \<Rightarrow> string list \<Rightarrow> realm_context option" where
  "nested P u us = (case mainContext P u of None \<Rightarrow> None | Some c \<Rightarrow> nest_from P c us)"

lemma childContext_Some:
  assumes "url_law P" "childContext P c x = Some c'"
  shows "cx_topSite c' = cx_topSite c \<and> site P (cx_documentOrigin c') = site P x \<and>
    (cx_tainted c' \<longleftrightarrow> cx_tainted c \<or> site P (cx_documentOrigin c) \<noteq> Some (cx_topSite c) \<or> site P x \<noteq> Some (cx_topSite c))"
proof -
  obtain u where u: "upstreamUrl P x = Some u" using assms(2) by (auto simp: childContext_def split: option.splits)
  show ?thesis
    using assms(2) upstream_origin [OF assms(1) u] u
    by (auto simp: childContext_def Let_def split: if_splits option.splits)
qed

lemma nest_from_taint:
  assumes "url_law P" "nest_from P c us = Some c'" "\<not> cx_tainted c \<Longrightarrow> site P (cx_documentOrigin c) = Some (cx_topSite c)"
  shows "cx_topSite c' = cx_topSite c \<and>
    (cx_tainted c' \<longleftrightarrow> cx_tainted c \<or> (\<exists>x \<in> set us. site P x \<noteq> Some (cx_topSite c)))"
  using assms(2,3)
proof (induction us arbitrary: c)
  case Nil
  then show ?case by simp
next
  case (Cons x us)
  then obtain d where d: "childContext P c x = Some d" "nest_from P d us = Some c'" by (auto split: option.splits)
  note ch = childContext_Some [OF assms(1) d(1)]
  have "\<not> cx_tainted d \<Longrightarrow> site P (cx_documentOrigin d) = Some (cx_topSite d)" using ch by simp
  from Cons.IH [OF d(2) this] ch Cons.prems(2) show ?case by auto
qed

lemma mainContext_Some:
  assumes "url_law P" "mainContext P u = Some c"
  shows "\<not> cx_tainted c \<and> site P (cx_documentOrigin c) = Some (cx_topSite c) \<and> site P u = Some (cx_topSite c)"
proof -
  obtain v where v: "upstreamUrl P u = Some v" using assms(2) by (auto simp: mainContext_def split: option.splits)
  show ?thesis using assms(2) upstream_origin [OF assms(1) v] v by (auto simp: mainContext_def)
qed

text \<open>C21. Which cookies travel: however deeply documents are nested, a realm in the innermost
  context is given the first-party cookie context exactly when every document on the way down and
  the realm's own origin are of the top document's site. One foreign ancestor anywhere makes all
  that is below it third party, and no nesting gets back.\<close>

theorem cookies_strict_iff_first_party:
  assumes "url_law P" "nested P u us = Some (rl_context r)" "upstreamUrl P v = Some w" "rl_origin r = u_origin w"
  shows "cookieContext P r = ''strict'' \<longleftrightarrow> (\<forall>x \<in> set (us @ [v]). site P x = site P u)"
proof -
  obtain c where c: "mainContext P u = Some c" "nest_from P c us = Some (rl_context r)"
    using assms(2) by (auto simp: nested_def split: option.splits)
  note m = mainContext_Some [OF assms(1) c(1)]
  have "cx_topSite (rl_context r) = cx_topSite c \<and>
      (cx_tainted (rl_context r) \<longleftrightarrow> (\<exists>x \<in> set us. site P x \<noteq> Some (cx_topSite c)))"
    using nest_from_taint [OF assms(1) c(2)] m by simp
  moreover have "site P (rl_origin r) = site P v"
    using upstream_origin [OF assms(1,3)] assms(4) by simp
  ultimately show ?thesis using m by (auto simp: cookieContext_def)
qed

lemma not_strict: "cookieContext P r \<noteq> ''strict'' \<Longrightarrow> cookieContext P r = ''none''"
  by (simp add: cookieContext_def split: if_splits)

lemma cookies_strict_iff_first_party_witness:
  "(let c = the (nested demo_platform ''https://x.a.com'' [''https://y.b.com'']);
        r = \<lparr>rl_origin = ''https://x.a.com'', rl_context = c, rl_physical = [], rl_resourceOnly = True\<rparr>
    in cookieContext demo_platform r = ''none'')"
proof -
  let ?c = "\<lparr>cx_documentOrigin = ''https://y.b.com'', cx_topSite = ''https://a.com'', cx_tainted = True\<rparr>"
  let ?r = "\<lparr>rl_origin = ''https://x.a.com'', rl_context = ?c, rl_physical = [], rl_resourceOnly = True\<rparr>"
  have n: "nested demo_platform ''https://x.a.com'' [''https://y.b.com''] = Some (rl_context ?r)"
    by (simp add: nested_def mainContext_def childContext_def upstreamUrl_def site_def site_of_def demo_platform_def
      u_origin_def u_host_def starts_with_def Let_def)
  have v: "upstreamUrl demo_platform ''https://x.a.com'' =
      Some \<lparr>u_protocol = ''https:'', u_username = [], u_password = [], u_hostname = ''x.a.com'', u_port = []\<rparr>"
    by (simp add: upstreamUrl_def demo_platform_def starts_with_def)
  have ne: "site demo_platform ''https://y.b.com'' \<noteq> site demo_platform ''https://x.a.com''"
    by (simp add: upstreamUrl_def site_def site_of_def demo_platform_def starts_with_def)
  have "rl_origin ?r = u_origin \<lparr>u_protocol = ''https:'', u_username = [], u_password = [], u_hostname = ''x.a.com'', u_port = []\<rparr>"
    by (simp add: u_origin_def u_host_def)
  from cookies_strict_iff_first_party [OF demo_url n v this] ne
  have "cookieContext demo_platform ?r \<noteq> ''strict''" by simp
  then have "cookieContext demo_platform ?r = ''none''" by (rule not_strict)
  then show ?thesis unfolding Let_def n option.sel by simp
qed

section \<open>Admission\<close>

lemma authorizeResource_Some:
  "authorizeResource source target \<Longrightarrow> \<exists>s. source = Some s \<and> rl_context s = rl_context target"
  by (auto simp: authorizeResource_def contextKey_inj split: option.splits)

lemma authorizeChild_Some:
  "authorizeChild P source target \<Longrightarrow>
     \<exists>s. source = Some s \<and> \<not> rl_resourceOnly s \<and> \<not> rl_resourceOnly target \<and>
       childContext P (rl_context s) (rl_origin target) = Some (rl_context target)"
  by (auto simp: authorizeChild_def contextKey_inj split: option.splits)

lemma sourceRecord_known:
  "sourceRecord P h target g = Some s \<Longrightarrow> s = target \<or> (\<exists>v. original P g v = Some s)"
  by (auto simp: sourceRecord_def split: if_splits)



section \<open>The registry\<close>

lemma readContext_token:
  assumes "token_law P" "readContext P cfg (contextToken P cfg c) = Some c'"
  shows "c' = c"
proof -
  define d where "d = pf_data P c"
  define m where "m = pf_hmac P (rc_secret cfg) (rc_profile cfg @ NUL @ ''context'' @ NUL @ d)"
  have d: "d \<noteq> []" "CHR ''.'' \<notin> set d" "pf_undata P d = Some (cx_documentOrigin c, cx_topSite c, Some (cx_tainted c))"
    and b: "CHR ''.'' \<notin> set (pf_b64 P m)"
    using assms(1) unfolding token_law_def d_def m_def by blast+
  have t: "contextToken P cfg c = d @ CHR ''.'' # pf_b64 P m"
    by (simp add: contextToken_def d_def m_def Let_def)
  have sp: "js_split (CHR ''.'') (contextToken P cfg c) = [d, pf_b64 P m]"
    unfolding t using js_split_append [OF d(2)] js_split_single [OF b] by simp
  show ?thesis
    using assms(2) unfolding readContext_def sp
    by (auto simp: d(3) split: if_splits option.splits)
qed

lemma readContext_ok:
  assumes "token_law P" "length (contextToken P cfg c) \<le> 2048" "upstreamUrl P (cx_documentOrigin c) = Some u"
    "u_origin u = cx_documentOrigin c" "site P (cx_topSite c) = Some (cx_topSite c)"
  shows "readContext P cfg (contextToken P cfg c) = Some c"
proof -
  define d where "d = pf_data P c"
  define m where "m = pf_hmac P (rc_secret cfg) (rc_profile cfg @ NUL @ ''context'' @ NUL @ d)"
  have d: "d \<noteq> []" "CHR ''.'' \<notin> set d" "pf_undata P d = Some (cx_documentOrigin c, cx_topSite c, Some (cx_tainted c))"
    and b: "CHR ''.'' \<notin> set (pf_b64 P m)" "pf_b64 P m \<noteq> []" "pf_unb64 P (pf_b64 P m) = m"
    using assms(1) unfolding token_law_def d_def m_def by blast+
  have t: "contextToken P cfg c = d @ CHR ''.'' # pf_b64 P m"
    by (simp add: contextToken_def d_def m_def Let_def)
  have sp: "js_split (CHR ''.'') (contextToken P cfg c) = [d, pf_b64 P m]"
    unfolding t using js_split_append [OF d(2)] js_split_single [OF b(1)] by simp
  show ?thesis
    unfolding readContext_def sp using assms(2-) d b by (simp add: m_def)
qed

lemma describe_Some:
  assumes "url_law P" "token_law P" "describe P cfg url c = Some r"
  shows "\<exists>u. upstreamUrl P url = Some u \<and> rl_origin r = u_origin u \<and> rl_context r = c \<and>
    rl_physical r = physical_of cfg (digest P cfg (rl_origin r) c) \<and> rl_resourceOnly r = (rl_origin r \<noteq> cx_documentOrigin c)"
    and "describe P cfg (rl_origin r) (rl_context r) = Some r"
proof -
  obtain u c' where u: "upstreamUrl P url = Some u" "readContext P cfg (contextToken P cfg c) = Some c'"
    and r: "r = \<lparr>rl_origin = u_origin u, rl_context = c', rl_physical = physical_of cfg (digest P cfg (u_origin u) c'),
            rl_resourceOnly = (u_origin u \<noteq> cx_documentOrigin c')\<rparr>"
    using assms(3) by (auto simp: describe_def split: option.splits)
  note c' = readContext_token [OF assms(2) u(2)]
  show "\<exists>u. upstreamUrl P url = Some u \<and> rl_origin r = u_origin u \<and> rl_context r = c \<and>
    rl_physical r = physical_of cfg (digest P cfg (rl_origin r) c) \<and> rl_resourceOnly r = (rl_origin r \<noteq> cx_documentOrigin c)"
    using u r c' by simp
  show "describe P cfg (rl_origin r) (rl_context r) = Some r"
    using upstream_origin(1) [OF assms(1) u(1)] u(2) by (simp add: describe_def r c')
qed

text \<open>What every record of a registry satisfies.\<close>

definition record_ok :: "platform \<Rightarrow> realm_cfg \<Rightarrow> string \<times> realm \<Rightarrow> bool" where
  "record_ok P cfg e \<longleftrightarrow>
     describe P cfg (rl_origin (snd e)) (rl_context (snd e)) = Some (snd e) \<and>
     map_option u_host (pf_url P (rl_physical (snd e))) = Some (fst e)"

definition registry_ok :: "platform \<Rightarrow> realm_cfg \<Rightarrow> registry \<Rightarrow> bool" where
  "registry_ok P cfg g \<longleftrightarrow>
     url_law P \<and> token_law P \<and> distinct (map fst (rg_records g)) \<and> length (rg_records g) \<le> rc_maxRecords cfg \<and>
     (\<forall>e \<in> set (rg_records g). record_ok P cfg e) \<and>
     (\<forall>l. rg_file g = Some l \<longrightarrow> replay P cfg l \<lparr>rg_records = [], rg_file = None\<rparr> = Some (g\<lparr>rg_file := None\<rparr>))"

lemma replay_append:
  "replay P cfg (xs @ ys) g = (case replay P cfg xs g of None \<Rightarrow> None | Some g' \<Rightarrow> replay P cfg ys g')"
  by (induction xs arbitrary: g) (auto split: option.splits)

lemma register_cases:
  assumes "register P cfg url c g = Some (r, g')"
  obtains (old) r0 h where "describe P cfg url c = Some r0" "map_option u_host (pf_url P (rl_physical r0)) = Some h"
      "map_of (rg_records g) h = Some r" "g' = g"
  | (new) h where "describe P cfg url c = Some r" "map_option u_host (pf_url P (rl_physical r)) = Some h"
      "map_of (rg_records g) h = None" "length (rg_records g) < rc_maxRecords cfg"
      "g' = g\<lparr>rg_file := map_option (\<lambda>l. l @ [(rl_origin r, rl_context r)]) (rg_file g), rg_records := rg_records g @ [(h, r)]\<rparr>"
proof -
  obtain r0 pu where d: "describe P cfg url c = Some r0" "pf_url P (rl_physical r0) = Some pu"
    using assms by (auto simp: register_def split: option.splits)
  show thesis
  proof (cases "map_of (rg_records g) (u_host pu)")
    case (Some old)
    then have "r = old" "g' = g" using assms d by (simp_all add: register_def)
    then show thesis using d Some by (intro that(1) [of r0 "u_host pu"]) simp_all
  next
    case None
    have l: "length (rg_records g) < rc_maxRecords cfg" and "r = r0"
      and "g' = g\<lparr>rg_file := map_option (\<lambda>l. l @ [(rl_origin r0, rl_context r0)]) (rg_file g), rg_records := rg_records g @ [(u_host pu, r0)]\<rparr>"
      using assms d None by (auto simp: register_def split: if_splits)
    then show thesis using d None by (intro that(2) [of "u_host pu"]) simp_all
  qed
qed

lemma register_new:
  assumes "describe P cfg url c = Some r" "map_option u_host (pf_url P (rl_physical r)) = Some h"
    "map_of (rg_records g) h = None" "length (rg_records g) < rc_maxRecords cfg"
  shows "register P cfg url c g =
    Some (r, g\<lparr>rg_file := map_option (\<lambda>l. l @ [(rl_origin r, rl_context r)]) (rg_file g), rg_records := rg_records g @ [(h, r)]\<rparr>)"
  using assms by (auto simp: register_def)

lemma registry_ok_register:
  assumes "registry_ok P cfg g" "register P cfg url c g = Some (r, g')"
  shows "registry_ok P cfg g'"
  using assms(2)
proof (cases rule: register_cases)
  case old
  then show ?thesis using assms(1) by simp
next
  case (new h)
  have laws: "url_law P" "token_law P" using assms(1) by (simp_all add: registry_ok_def)
  note re = describe_Some(2) [OF laws new(1)]
  have rec: "record_ok P cfg (h, r)" using re new(2) by (simp add: record_ok_def)
  have rp: "replay P cfg (l @ [(rl_origin r, rl_context r)]) \<lparr>rg_records = [], rg_file = None\<rparr> = Some (g'\<lparr>rg_file := None\<rparr>)"
    if "rg_file g = Some l" for l
  proof -
    have "replay P cfg l \<lparr>rg_records = [], rg_file = None\<rparr> = Some (g\<lparr>rg_file := None\<rparr>)"
      using assms(1) that by (simp add: registry_ok_def)
    moreover have "register P cfg (rl_origin r) (rl_context r) (g\<lparr>rg_file := None\<rparr>) = Some (r, g'\<lparr>rg_file := None\<rparr>)"
      using register_new [OF re new(2), of "g\<lparr>rg_file := None\<rparr>"] new(3,4,5) by simp
    ultimately show ?thesis by (simp add: replay_append)
  qed
  have fresh: "h \<notin> fst ` set (rg_records g)" using new(3) by (simp add: map_of_eq_None_iff)
  show ?thesis
    using assms(1) rec rp fresh new(4,5) unfolding registry_ok_def by auto
qed

text \<open>A registry in use: a list of registrations, each of which may be refused.\<close>

definition registrations :: "platform \<Rightarrow> realm_cfg \<Rightarrow> registry \<Rightarrow> string \<times> realm_context \<Rightarrow> registry" where
  "registrations P cfg g q =
     (case register P cfg (fst q) (snd q) g of None \<Rightarrow> g | Some (_, g') \<Rightarrow> g')"

interpretation realms: machine "registrations P cfg" "registry_ok P cfg" "\<lambda>_. True" for P cfg
  by unfold_locales (auto simp: registrations_def intro: registry_ok_register split: option.split)

lemma registry_ok_fresh:
  "url_law P \<Longrightarrow> token_law P \<Longrightarrow> registry_ok P cfg \<lparr>rg_records = [], rg_file = Some []\<rparr>"
  by (simp add: registry_ok_def)

lemma registry_ok_run:
  assumes "url_law P" "token_law P"
  shows "registry_ok P cfg (foldl (registrations P cfg) \<lparr>rg_records = [], rg_file = Some []\<rparr> qs)"
  by (rule realms.run_inv [OF registry_ok_fresh [OF assms]]) simp

lemma register_keeps_file: "rg_file g \<noteq> None \<Longrightarrow> rg_file (registrations P cfg g q) \<noteq> None"
  by (auto simp: registrations_def elim!: register_cases split: option.split)

lemma registrations_keep_file: "rg_file g \<noteq> None \<Longrightarrow> rg_file (foldl (registrations P cfg) g qs) \<noteq> None"
  by (induction qs arbitrary: g) (simp_all add: register_keeps_file del: not_None_eq)

text \<open>C24. The registry survives a restart: after any registrations, opening the state file again
  gives the same records under the same host names, so that no document's host, cookies or storage
  move to another one.\<close>

theorem registry_survives_restart:
  assumes "url_law P" "token_law P" "g = foldl (registrations P cfg) \<lparr>rg_records = [], rg_file = Some []\<rparr> qs"
  shows "open_registry P cfg (rg_file g) = Some g"
proof -
  have ok: "registry_ok P cfg g" unfolding assms(3) by (rule registry_ok_run [OF assms(1,2)])
  have "rg_file g \<noteq> None" unfolding assms(3) by (rule registrations_keep_file) simp
  then obtain l where l: "rg_file g = Some l" by blast
  then show ?thesis using ok by (simp add: open_registry_def registry_ok_def)
qed

lemma registry_survives_restart_witness:
  "\<exists>cfg qs. let g = foldl (registrations demo_platform cfg) \<lparr>rg_records = [], rg_file = Some []\<rparr> qs
     in open_registry demo_platform cfg (rg_file g) = Some g \<and> qs \<noteq> []"
proof -
  let ?cfg = "\<lparr>rc_uid = 7, rc_profile = ''p'', rc_secret = [1], rc_domain = ''d'', rc_port = [], rc_maxRecords = 5\<rparr>"
  let ?c = "\<lparr>cx_documentOrigin = ''https://x.a.com'', cx_topSite = ''https://a.com'', cx_tainted = False\<rparr>"
  show ?thesis
    using registry_survives_restart [OF demo_laws, of _ ?cfg "[(''https://x.a.com'', ?c)]"] unfolding Let_def by blast
qed

lemma register_host:
  assumes "registry_ok P cfg g" "register P cfg url c g = Some (r, g')"
  shows "\<exists>u. upstreamUrl P url = Some u \<and> r \<in> snd ` set (rg_records g') \<and>
    map_option u_host (pf_url P (rl_physical r)) = map_option u_host (pf_url P (physical_of cfg (digest P cfg (u_origin u) c)))"
  using assms(2)
proof (cases rule: register_cases)
  case (old r0 h)
  have laws: "url_law P" "token_law P" using assms(1) by (simp_all add: registry_ok_def)
  have m: "(h, r) \<in> set (rg_records g)" using old(3) by (rule map_of_SomeD)
  then have "map_option u_host (pf_url P (rl_physical r)) = Some h"
    using assms(1) by (auto simp: registry_ok_def record_ok_def)
  moreover obtain u where "upstreamUrl P url = Some u" "rl_physical r0 = physical_of cfg (digest P cfg (u_origin u) c)"
    using describe_Some(1) [OF laws old(1)] by auto
  ultimately show ?thesis using m old by force
next
  case (new h)
  have laws: "url_law P" "token_law P" using assms(1) by (simp_all add: registry_ok_def)
  obtain u where "upstreamUrl P url = Some u" "rl_physical r = physical_of cfg (digest P cfg (u_origin u) c)"
    using describe_Some(1) [OF laws new(1)] by auto
  then show ?thesis using new by auto
qed



end
