(* ===== verification/BlNavProps.thy ===== *)
theory BlNavProps
  imports BlNav BlRealmProps
begin

text \<open>
  What the navigation store guarantees: its byte count and its limits are exact in every state, and
  a dispatch replays a captured navigation that was approved for the same tab, epoch and source,
  at most once.
\<close>

section \<open>The invariant\<close>

definition body_sum :: "nav_rec list \<Rightarrow> nat" where
  "body_sum rs = sum_list (map (\<lambda>r. length (nv_body r)) rs)"

definition nav_bounds :: "nav_cfg \<Rightarrow> nav_store \<Rightarrow> bool" where
  "nav_bounds cfg s \<longleftrightarrow>
     distinct (map nv_challenge (ns_pending s)) \<and>
     ns_bytes s = body_sum (ns_pending s) \<and>
     length (ns_pending s) \<le> nc_maxPending cfg \<and> ns_bytes s \<le> nc_maxBytes cfg \<and>
     (\<forall>tab. length (owned tab s) \<le> nc_maxPerTab cfg \<and> body_sum (owned tab s) \<le> nc_maxBytesPerTab cfg) \<and>
     (\<forall>r \<in> set (ns_pending s). nv_method r \<in> {''GET'', ''HEAD''} \<longrightarrow> nv_body r = [])"

definition nav_tickets_ok :: "nav_store \<Rightarrow> bool" where
  "nav_tickets_ok s \<longleftrightarrow>
     distinct (map fst (ns_tickets s)) \<and>
     (\<forall>(t, c) \<in> set (ns_tickets s). \<exists>r \<in> set (ns_pending s). nv_challenge r = c \<and> nv_state r = APPROVED \<and> nv_ticket r = Some t) \<and>
     (\<forall>r \<in> set (ns_pending s). nv_state r = APPROVED \<longrightarrow> (\<exists>t. nv_ticket r = Some t \<and> (t, nv_challenge r) \<in> set (ns_tickets s))) \<and>
     (\<forall>r \<in> set (ns_pending s). \<forall>q \<in> set (ns_pending s). nv_ticket r = nv_ticket q \<and> nv_ticket r \<noteq> None \<longrightarrow> r = q) \<and>
     (\<forall>r \<in> set (ns_pending s). nv_state r = CAPTURED \<longrightarrow> nv_ticket r = None)"

definition nav_ok :: "nav_cfg \<Rightarrow> nav_store \<Rightarrow> bool" where
  "nav_ok cfg s \<longleftrightarrow> nav_bounds cfg s \<and> nav_tickets_ok s"

lemma nav_ticketD:
  "nav_tickets_ok s \<Longrightarrow> (t, c) \<in> set (ns_tickets s) \<Longrightarrow>
     \<exists>r \<in> set (ns_pending s). nv_challenge r = c \<and> nv_state r = APPROVED \<and> nv_ticket r = Some t"
  by (auto simp: nav_tickets_ok_def)

lemma nav_approvedD:
  "nav_tickets_ok s \<Longrightarrow> r \<in> set (ns_pending s) \<Longrightarrow> nv_state r = APPROVED \<Longrightarrow>
     \<exists>t. nv_ticket r = Some t \<and> (t, nv_challenge r) \<in> set (ns_tickets s)"
  by (simp add: nav_tickets_ok_def)

lemma nav_ticket_unique:
  "nav_tickets_ok s \<Longrightarrow> r \<in> set (ns_pending s) \<Longrightarrow> q \<in> set (ns_pending s) \<Longrightarrow>
     nv_ticket r = Some t \<Longrightarrow> nv_ticket q = Some t \<Longrightarrow> r = q"
  unfolding nav_tickets_ok_def by (metis option.distinct(1))

lemma nav_captured_no_ticket:
  "nav_tickets_ok s \<Longrightarrow> r \<in> set (ns_pending s) \<Longrightarrow> nv_state r = CAPTURED \<Longrightarrow> nv_ticket r = None"
  by (simp add: nav_tickets_ok_def)

lemma body_sum_simps [simp]:
  "body_sum [] = 0" "body_sum (r # rs) = length (nv_body r) + body_sum rs" "body_sum (xs @ ys) = body_sum xs + body_sum ys"
  by (simp_all add: body_sum_def)

lemma body_sum_filter: "body_sum (filter P rs) \<le> body_sum rs"
  by (induction rs) auto

lemma body_sum_remove:
  "distinct (map nv_challenge rs) \<Longrightarrow> r \<in> set rs \<Longrightarrow>
     body_sum (filter (\<lambda>q. nv_challenge q \<noteq> nv_challenge r) rs) + length (nv_body r) = body_sum rs"
proof (induction rs)
  case (Cons x xs)
  show ?case
  proof (cases "x = r")
    case True
    have "nv_challenge q \<noteq> nv_challenge r" if "q \<in> set xs" for q
      using Cons.prems(1) True imageI [OF that, of nv_challenge] by auto
    then have "filter (\<lambda>q. nv_challenge q \<noteq> nv_challenge r) xs = xs" by (simp add: filter_id_conv)
    then show ?thesis using True by simp
  next
    case False
    then have "nv_challenge x \<noteq> nv_challenge r" using Cons.prems by force
    then show ?thesis using Cons False by simp
  qed
qed simp

lemma nav_get_in:
  "nav_get s c = Some r \<Longrightarrow> r \<in> set (ns_pending s) \<and> nv_challenge r = c"
  by (auto simp: nav_get_def find_Some_iff)

lemma nav_get_unique:
  assumes "distinct (map nv_challenge (ns_pending s))" "r \<in> set (ns_pending s)"
  shows "nav_get s (nv_challenge r) = Some r"
proof -
  have "nav_get s (nv_challenge r) \<noteq> None" using assms(2) by (auto simp: nav_get_def find_None_iff)
  then obtain q where q: "nav_get s (nv_challenge r) = Some q" by blast
  then have "q = r" using nav_get_in [OF q] assms by (auto simp: distinct_map dest: inj_onD)
  then show ?thesis using q by simp
qed

lemma owned_filter: "owned tab (s\<lparr>ns_pending := filter P (ns_pending s), ns_tickets := t, ns_bytes := b\<rparr>) = filter P (owned tab s)"
  by (simp add: owned_def conj_commute)

lemma nav_remove_ok:
  assumes "nav_ok cfg s" "r \<in> set (ns_pending s)"
  shows "nav_ok cfg (nav_remove r s)"
proof -
  let ?F = "\<lambda>q. nv_challenge q \<noteq> nv_challenge r"
  have b: "nav_bounds cfg s" and t: "nav_tickets_ok s" using assms(1) by (simp_all add: nav_ok_def)
  have d: "distinct (map nv_challenge (ns_pending s))" using b by (simp add: nav_bounds_def)
  have same: "q = r" if "q \<in> set (ns_pending s)" "nv_challenge q = nv_challenge r" for q
    using that d assms(2) by (auto simp: distinct_map dest: inj_onD)
  have sum: "body_sum (filter ?F (ns_pending s)) + length (nv_body r) = body_sum (ns_pending s)"
    by (rule body_sum_remove [OF d assms(2)])
  have own: "owned tab (nav_remove r s) = filter ?F (owned tab s)" for tab
    by (simp add: nav_remove_def owned_filter)
  have "nav_bounds cfg (nav_remove r s)"
    unfolding nav_bounds_def own
  proof (intro conjI allI ballI impI)
    fix tab
    show "length (filter ?F (owned tab s)) \<le> nc_maxPerTab cfg"
      using b length_filter_le [of ?F "owned tab s"] unfolding nav_bounds_def by (meson le_trans)
    show "body_sum (filter ?F (owned tab s)) \<le> nc_maxBytesPerTab cfg"
      using b body_sum_filter [of ?F "owned tab s"] unfolding nav_bounds_def by (meson le_trans)
  next
    show "length (ns_pending (nav_remove r s)) \<le> nc_maxPending cfg"
      using b length_filter_le [of ?F "ns_pending s"] unfolding nav_bounds_def nav_remove_def
      by (simp del: length_filter_le)
  qed (use b sum d in \<open>auto simp: nav_bounds_def nav_remove_def distinct_map_filter\<close>)
  moreover have "nav_tickets_ok (nav_remove r s)"
  proof -
    let ?T = "ns_tickets (nav_remove r s)"
    have tk: "(t', c') \<in> set ?T \<longleftrightarrow> (t', c') \<in> set (ns_tickets s) \<and> c' \<noteq> nv_challenge r" for t' c'
    proof
      assume a: "(t', c') \<in> set ?T"
      then have in_s: "(t', c') \<in> set (ns_tickets s)" and nt: "nv_ticket r \<noteq> Some t'"
        by (auto simp: nav_remove_def split: option.splits)
      then obtain q where "q \<in> set (ns_pending s)" "nv_challenge q = c'" "nv_ticket q = Some t'"
        using nav_ticketD [OF t] by blast
      then show "(t', c') \<in> set (ns_tickets s) \<and> c' \<noteq> nv_challenge r" using in_s nt same by auto
    next
      assume a: "(t', c') \<in> set (ns_tickets s) \<and> c' \<noteq> nv_challenge r"
      then obtain q where q: "q \<in> set (ns_pending s)" "nv_challenge q = c'" "nv_ticket q = Some t'"
        using nav_ticketD [OF t] by blast
      have "nv_ticket r \<noteq> Some t'"
        using nav_ticket_unique [OF t q(1) assms(2) q(3)] q(2) a by blast
      then show "(t', c') \<in> set ?T" using a by (auto simp: nav_remove_def split: option.splits)
    qed
    have dt: "distinct (map fst ?T)"
      using t by (auto simp: nav_tickets_ok_def nav_remove_def distinct_map_filter split: option.splits)
    have p: "q \<in> set (ns_pending (nav_remove r s)) \<longleftrightarrow> q \<in> set (ns_pending s) \<and> nv_challenge q \<noteq> nv_challenge r" for q
      by (auto simp: nav_remove_def)
    show ?thesis
      unfolding nav_tickets_ok_def
    proof (intro conjI ballI impI)
      fix e assume e: "e \<in> set ?T"
      obtain t' c' where tc: "e = (t', c')" by fastforce
      then have "(t', c') \<in> set (ns_tickets s)" "c' \<noteq> nv_challenge r" using e tk by auto
      then obtain q where "q \<in> set (ns_pending s)" "nv_challenge q = c'" "nv_state q = APPROVED" "nv_ticket q = Some t'"
        using nav_ticketD [OF t] by blast
      then show "case e of (t, c) \<Rightarrow> \<exists>r \<in> set (ns_pending (nav_remove r s)).
          nv_challenge r = c \<and> nv_state r = APPROVED \<and> nv_ticket r = Some t"
        using p \<open>c' \<noteq> nv_challenge r\<close> by (auto simp: tc)
    next
      fix q assume q: "q \<in> set (ns_pending (nav_remove r s))" "nv_state q = APPROVED"
      then obtain t' where "nv_ticket q = Some t'" "(t', nv_challenge q) \<in> set (ns_tickets s)"
        using nav_approvedD [OF t] p by blast
      then show "\<exists>t. nv_ticket q = Some t \<and> (t, nv_challenge q) \<in> set ?T" using tk p q by blast
    next
      show "distinct (map fst ?T)" by (rule dt)
    next
      fix q q' assume q: "q \<in> set (ns_pending (nav_remove r s))" "q' \<in> set (ns_pending (nav_remove r s))"
        and e: "nv_ticket q = nv_ticket q' \<and> nv_ticket q \<noteq> None"
      obtain t' where "nv_ticket q' = Some t'" using e by (cases "nv_ticket q'") auto
      moreover from this have "nv_ticket q = Some t'" using e by simp
      moreover have "q \<in> set (ns_pending s)" "q' \<in> set (ns_pending s)" using q p by simp_all
      ultimately show "q = q'" using nav_ticket_unique [OF t] by simp
    next
      fix q assume "q \<in> set (ns_pending (nav_remove r s))" "nv_state q = CAPTURED"
      then show "nv_ticket q = None" using nav_captured_no_ticket [OF t] p by simp
    qed
  qed
  ultimately show ?thesis by (simp add: nav_ok_def)
qed

lemma nav_remove_shrinks:
  "set (ns_pending (nav_remove r s)) = {q \<in> set (ns_pending s). nv_challenge q \<noteq> nv_challenge r}"
  "set (ns_tickets (nav_remove r s)) \<subseteq> set (ns_tickets s)"
  by (auto simp: nav_remove_def split: option.splits)

text \<open>Cancelling keeps the invariant, only removes, and removes exactly what it names.\<close>

lemma nav_cancel_ok:
  assumes "nav_ok cfg s" "nav_cancel c s = (s', b)"
  shows "nav_ok cfg s'" "set (ns_pending s') \<subseteq> set (ns_pending s)" "set (ns_tickets s') \<subseteq> set (ns_tickets s)"
    "\<And>q. q \<in> set (ns_pending s) \<Longrightarrow> q \<notin> set (ns_pending s') \<Longrightarrow> nv_challenge q = c \<and> nv_state q \<noteq> DISPATCHING"
    "\<And>q. q \<in> set (ns_pending s') \<Longrightarrow> nv_challenge q = c \<Longrightarrow> nv_state q = DISPATCHING"
proof -
  have d: "distinct (map nv_challenge (ns_pending s))" using assms(1) by (simp add: nav_ok_def nav_bounds_def)
  have "nav_ok cfg s' \<and> set (ns_pending s') \<subseteq> set (ns_pending s) \<and> set (ns_tickets s') \<subseteq> set (ns_tickets s) \<and>
    (\<forall>q \<in> set (ns_pending s). q \<notin> set (ns_pending s') \<longrightarrow> nv_challenge q = c \<and> nv_state q \<noteq> DISPATCHING) \<and>
    (\<forall>q \<in> set (ns_pending s'). nv_challenge q = c \<longrightarrow> nv_state q = DISPATCHING)"
  proof (cases "nav_get s c")
    case None
    then have "s' = s" using assms(2) by (simp add: nav_cancel_def)
    moreover have "\<forall>q \<in> set (ns_pending s). nv_challenge q \<noteq> c"
      using None by (auto simp: nav_get_def find_None_iff)
    ultimately show ?thesis using assms(1) by auto
  next
    case (Some r)
    note r = nav_get_in [OF Some]
    have uniq: "q = r" if "q \<in> set (ns_pending s)" "nv_challenge q = c" for q
      using nav_get_unique [OF d that(1)] Some that(2) by simp
    show ?thesis
    proof (cases "nv_state r = DISPATCHING")
      case True
      then have "s' = s" using assms(2) Some by (simp add: nav_cancel_def)
      then show ?thesis using assms(1) uniq True by auto
    next
      case False
      then have s': "s' = nav_remove r s" using assms(2) Some by (simp add: nav_cancel_def)
      show ?thesis
        using nav_remove_ok [OF assms(1)] r nav_remove_shrinks [of r s] uniq False unfolding s' by auto
    qed
  qed
  then show "nav_ok cfg s'" "set (ns_pending s') \<subseteq> set (ns_pending s)" "set (ns_tickets s') \<subseteq> set (ns_tickets s)"
    "\<And>q. q \<in> set (ns_pending s) \<Longrightarrow> q \<notin> set (ns_pending s') \<Longrightarrow> nv_challenge q = c \<and> nv_state q \<noteq> DISPATCHING"
    "\<And>q. q \<in> set (ns_pending s') \<Longrightarrow> nv_challenge q = c \<Longrightarrow> nv_state q = DISPATCHING" by auto
qed

lemma cancel_fold_ok:
  assumes "nav_ok cfg s" "set rs \<subseteq> R" "set (ns_pending s) \<subseteq> R" "inj_on nv_challenge R"
    and "s' = fold (\<lambda>r s. if P r then fst (nav_cancel (nv_challenge r) s) else s) rs s"
  shows "nav_ok cfg s' \<and> set (ns_pending s') \<subseteq> set (ns_pending s) \<and> set (ns_tickets s') \<subseteq> set (ns_tickets s) \<and>
    (\<forall>q \<in> set (ns_pending s). q \<notin> set (ns_pending s') \<longrightarrow> P q \<and> nv_state q \<noteq> DISPATCHING) \<and>
    (\<forall>q \<in> set (ns_pending s'). q \<in> set rs \<and> P q \<longrightarrow> nv_state q = DISPATCHING)"
  using assms
proof (induction rs arbitrary: s)
  case Nil
  then show ?case by simp
next
  case (Cons r rs)
  define s1 where "s1 = (if P r then fst (nav_cancel (nv_challenge r) s) else s)"
  obtain b where c: "P r \<Longrightarrow> nav_cancel (nv_challenge r) s = (s1, b)" by (cases "nav_cancel (nv_challenge r) s") (simp add: s1_def)
  have 1: "nav_ok cfg s1 \<and> set (ns_pending s1) \<subseteq> set (ns_pending s) \<and> set (ns_tickets s1) \<subseteq> set (ns_tickets s) \<and>
    (\<forall>q \<in> set (ns_pending s). q \<notin> set (ns_pending s1) \<longrightarrow> P q \<and> nv_state q \<noteq> DISPATCHING) \<and>
    (\<forall>q \<in> set (ns_pending s1). q = r \<and> P q \<longrightarrow> nv_state q = DISPATCHING)"
  proof (cases "P r")
    case True
    have "q = r" if "q \<in> set (ns_pending s)" "nv_challenge q = nv_challenge r" for q
      using that Cons.prems(2,3,4) by (auto dest: inj_onD)
    then show ?thesis using nav_cancel_ok [OF Cons.prems(1) c [OF True]] True by blast
  next
    case False
    then show ?thesis using Cons.prems(1) by (simp add: s1_def)
  qed
  have e: "s' = fold (\<lambda>r s. if P r then fst (nav_cancel (nv_challenge r) s) else s) rs s1"
    using Cons.prems(5) by (simp add: s1_def)
  have "set rs \<subseteq> R" "set (ns_pending s1) \<subseteq> R" using Cons.prems(2,3) 1 by auto
  from Cons.IH [OF conjunct1 [OF 1] this Cons.prems(4) e] 1 show ?case by auto
qed

lemma nav_cancel_if_ok:
  assumes "nav_ok cfg s" "s' = nav_cancel_if P s"
  shows "nav_ok cfg s'" "set (ns_pending s') = {q \<in> set (ns_pending s). \<not> (P q \<and> nv_state q \<noteq> DISPATCHING)}"
    "set (ns_tickets s') \<subseteq> set (ns_tickets s)"
proof -
  have "inj_on nv_challenge (set (ns_pending s))" using assms(1) by (simp add: nav_ok_def nav_bounds_def distinct_map)
  from cancel_fold_ok [OF assms(1) subset_refl subset_refl this assms(2) [unfolded nav_cancel_if_def]]
  show "nav_ok cfg s'" "set (ns_pending s') = {q \<in> set (ns_pending s). \<not> (P q \<and> nv_state q \<noteq> DISPATCHING)}"
    "set (ns_tickets s') \<subseteq> set (ns_tickets s)" by auto
qed

lemma nav_collect_ok:
  assumes "nav_ok cfg s"
  shows "nav_ok cfg (nav_collect now s)" "set (ns_pending (nav_collect now s)) \<subseteq> set (ns_pending s)"
    "set (ns_tickets (nav_collect now s)) \<subseteq> set (ns_tickets s)"
  using nav_cancel_if_ok [OF assms nav_collect_def [of now s]] by auto

section \<open>Each call\<close>

lemma nav_set_pending:
  assumes "distinct (map nv_challenge (ns_pending s))" "r \<in> set (ns_pending s)" "nv_challenge (f r) = nv_challenge r"
  shows "set (ns_pending (nav_set (nv_challenge r) f s)) = insert (f r) (set (ns_pending s) - {r})"
proof -
  have u: "nv_challenge q = nv_challenge r \<longleftrightarrow> q = r" if "q \<in> set (ns_pending s)" for q
    using that assms(1,2) by (auto simp: distinct_map dest: inj_onD)
  let ?g = "\<lambda>q. if nv_challenge q = nv_challenge r then f q else q"
  have "?g ` set (ns_pending s) = (\<lambda>q. if q = r then f r else q) ` set (ns_pending s)"
    by (intro image_cong refl) (simp add: u)
  also have "\<dots> = insert (f r) (set (ns_pending s) - {r})" using assms(2) by auto
  finally show ?thesis by (simp add: nav_set_def)
qed

lemma nav_set_bounds:
  assumes "nav_bounds cfg s" "\<And>r. nv_challenge (f r) = nv_challenge r \<and> nv_body (f r) = nv_body r \<and> nv_tabId (f r) = nv_tabId r \<and>
      nv_method (f r) = nv_method r"
  shows "nav_bounds cfg ((nav_set c f s)\<lparr>ns_tickets := tk\<rparr>)"
proof -
  let ?g = "\<lambda>r. if nv_challenge r = c then f r else r"
  have pg: "(\<lambda>r. nv_tabId r = tab) \<circ> ?g = (\<lambda>r. nv_tabId r = tab)" for tab
  proof (rule ext)
    fix r show "((\<lambda>r. nv_tabId r = tab) \<circ> ?g) r = (nv_tabId r = tab)"
      using assms(2) [of r] by (cases "nv_challenge r = c") simp_all
  qed
  have o: "owned tab ((nav_set c f s)\<lparr>ns_tickets := tk\<rparr>) = map ?g (owned tab s)" for tab
    using filter_map [of "\<lambda>r. nv_tabId r = tab" ?g "ns_pending s"] unfolding pg owned_def nav_set_def by simp
  have g: "nv_challenge (?g r) = nv_challenge r" "nv_body (?g r) = nv_body r" "nv_method (?g r) = nv_method r" for r
    using assms(2) [of r] by simp_all
  have b: "body_sum (map ?g xs) = body_sum xs" for xs
    by (induction xs) (simp_all only: list.map body_sum_simps g)
  have c: "map nv_challenge (map ?g xs) = map nv_challenge xs" for xs
    by (induction xs) (simp_all only: list.map g)
  have p: "ns_pending ((nav_set c f s)\<lparr>ns_tickets := tk\<rparr>) = map ?g (ns_pending s)"
    "ns_bytes ((nav_set c f s)\<lparr>ns_tickets := tk\<rparr>) = ns_bytes s" by (simp_all add: nav_set_def)
  have m: "\<forall>r \<in> set (map ?g xs). nv_method r \<in> {''GET'', ''HEAD''} \<longrightarrow> nv_body r = []"
    if "\<forall>r \<in> set xs. nv_method r \<in> {''GET'', ''HEAD''} \<longrightarrow> nv_body r = []" for xs
  proof
    fix r assume "r \<in> set (map ?g xs)"
    then obtain q where q: "q \<in> set xs" "r = ?g q" by (simp only: set_map) blast
    show "nv_method r \<in> {''GET'', ''HEAD''} \<longrightarrow> nv_body r = []"
      unfolding q(2) g using bspec [OF that q(1)] .
  qed
  show ?thesis
    using assms(1) m unfolding nav_bounds_def o b p c length_map by blast
qed

lemma nav_capture_Some:
  assumes "nav_capture P href cfg now c q s0 = (s', Some c')"
  obtains r s where "s = nav_collect now s0" "c' = c" "s' = s\<lparr>ns_pending := ns_pending s @ [r], ns_bytes := ns_bytes s + length (nv_body r)\<rparr>"
    "nv_challenge r = c" "nv_state r = CAPTURED" "nv_ticket r = None"
    "nv_url r = href (nr_url q)" "nv_method r = nr_method q" "nv_body r = nr_body q" "nv_contentType r = nr_contentType q"
    "nv_tabId r = nr_tabId q" "nv_epoch r = nr_epoch q" "Some (nv_sourceOrigin r) = origin_or_null P (nr_sourceOrigin q)"
    "length (ns_pending s) < nc_maxPending cfg" "ns_bytes s + length (nv_body r) \<le> nc_maxBytes cfg"
    "length (owned (nv_tabId r) s) < nc_maxPerTab cfg" "body_sum (owned (nv_tabId r) s) + length (nv_body r) \<le> nc_maxBytesPerTab cfg"
    "nv_method r \<in> {''GET'', ''HEAD''} \<longrightarrow> nv_body r = []"
proof -
  define r where "r = \<lparr>nv_challenge = c, nv_url = href (nr_url q), nv_method = nr_method q,
               nv_body = nr_body q, nv_contentType = nr_contentType q,
               nv_sourceOrigin = the (origin_or_null P (nr_sourceOrigin q)), nv_tabId = nr_tabId q, nv_epoch = nr_epoch q,
               nv_initiator = the (origin_or_null P (nr_initiator q)), nv_cross = nr_cross q, nv_redirects = nr_redirects q,
               nv_taint = nr_taint q, nv_expires = now + nc_ttl cfg, nv_state = CAPTURED, nv_ticket = None\<rparr>"
  define s where "s = nav_collect now s0"
  have a: "\<not> (origin_or_null P (nr_sourceOrigin q) = None) \<and> length (ns_pending s) < nc_maxPending cfg \<and>
      ns_bytes s + length (nr_body q) \<le> nc_maxBytes cfg \<and> length (owned (nr_tabId q) s) < nc_maxPerTab cfg \<and>
      sum_list (map (\<lambda>r. length (nv_body r)) (owned (nr_tabId q) s)) + length (nr_body q) \<le> nc_maxBytesPerTab cfg \<and>
      (nr_method q \<in> {''GET'', ''HEAD''} \<longrightarrow> nr_body q = []) \<and> c' = c \<and>
      s' = s\<lparr>ns_pending := ns_pending s @ [r], ns_bytes := ns_bytes s + length (nr_body q)\<rparr>"
    using assms unfolding nav_capture_def Let_def s_def [symmetric] r_def [symmetric]
    by (simp only: split: if_splits) auto
  have "r = r" "Some (nv_sourceOrigin r) = origin_or_null P (nr_sourceOrigin q)" using a by (auto simp: r_def)
  then show thesis
    using a by (intro that [of s r]) (simp_all add: s_def r_def body_sum_def)
qed

lemma nav_append_ok:
  assumes "nav_ok cfg s" "nv_challenge r \<notin> nv_challenge ` set (ns_pending s)" "nv_state r = CAPTURED" "nv_ticket r = None"
    "length (ns_pending s) < nc_maxPending cfg" "ns_bytes s + length (nv_body r) \<le> nc_maxBytes cfg"
    "length (owned (nv_tabId r) s) < nc_maxPerTab cfg" "body_sum (owned (nv_tabId r) s) + length (nv_body r) \<le> nc_maxBytesPerTab cfg"
    "nv_method r \<in> {''GET'', ''HEAD''} \<longrightarrow> nv_body r = []"
  shows "nav_ok cfg (s\<lparr>ns_pending := ns_pending s @ [r], ns_bytes := ns_bytes s + length (nv_body r)\<rparr>)"
proof -
  let ?s = "s\<lparr>ns_pending := ns_pending s @ [r], ns_bytes := ns_bytes s + length (nv_body r)\<rparr>"
  have o: "owned tab ?s = owned tab s @ (if nv_tabId r = tab then [r] else [])" for tab
    by (simp add: owned_def)
  have b: "nav_bounds cfg s" and t: "nav_tickets_ok s" using assms(1) by (simp_all add: nav_ok_def)
  have "nav_bounds cfg ?s"
    unfolding nav_bounds_def o
  proof (intro conjI allI)
    fix tab
    have m: "length (owned tab s) \<le> nc_maxPerTab cfg" "body_sum (owned tab s) \<le> nc_maxBytesPerTab cfg"
      using b by (simp_all add: nav_bounds_def)
    show "length (owned tab s @ (if nv_tabId r = tab then [r] else [])) \<le> nc_maxPerTab cfg"
      "body_sum (owned tab s @ (if nv_tabId r = tab then [r] else [])) \<le> nc_maxBytesPerTab cfg"
      using m assms(7,8) by auto
  next
    show "\<forall>r \<in> set (ns_pending ?s). nv_method r \<in> {''GET'', ''HEAD''} \<longrightarrow> nv_body r = []"
      using b assms(9) unfolding nav_bounds_def by (simp only: ball_simps set_append Un_iff) simp
  next
    show "distinct (map nv_challenge (ns_pending ?s))" using b assms(2) by (simp add: nav_bounds_def)
  next
    show "ns_bytes ?s = body_sum (ns_pending ?s)" using b by (simp add: nav_bounds_def)
  qed (use assms(5,6) in simp_all)
  moreover have "nav_tickets_ok ?s"
    unfolding nav_tickets_ok_def
  proof (intro conjI ballI impI)
    fix x assume "x \<in> set (ns_tickets ?s)"
    then have "(fst x, snd x) \<in> set (ns_tickets s)" by simp
    from nav_ticketD [OF t this] show "case x of (t, c) \<Rightarrow> \<exists>q \<in> set (ns_pending ?s).
        nv_challenge q = c \<and> nv_state q = APPROVED \<and> nv_ticket q = Some t" by (auto simp: case_prod_beta)
  next
    fix q assume "q \<in> set (ns_pending ?s)" "nv_state q = APPROVED"
    then show "\<exists>t'. nv_ticket q = Some t' \<and> (t', nv_challenge q) \<in> set (ns_tickets ?s)"
      using nav_approvedD [OF t, of q] assms(3) by auto
  next
    fix q q' assume "q \<in> set (ns_pending ?s)" "q' \<in> set (ns_pending ?s)" "nv_ticket q = nv_ticket q' \<and> nv_ticket q \<noteq> None"
    moreover from this obtain t' where "nv_ticket q' = Some t'" by (cases "nv_ticket q'") auto
    ultimately show "q = q'" using nav_ticket_unique [OF t, of q q' t'] assms(4) by auto
  next
    fix q assume "q \<in> set (ns_pending ?s)" "nv_state q = CAPTURED"
    then show "nv_ticket q = None" using nav_captured_no_ticket [OF t, of q] assms(4) by auto
  qed (use t in \<open>simp add: nav_tickets_ok_def\<close>)
  ultimately show ?thesis by (simp add: nav_ok_def)
qed

lemma nav_approve_Some:
  assumes "nav_approve cfg now t c tab ep so s0 = (s', Some t')" "s = nav_collect now s0"
  obtains r where "t' = t" "nav_get s c = Some r" "nv_state r = CAPTURED" "nv_tabId r = tab" "nv_epoch r = ep" "nv_sourceOrigin r = so"
    "s' = (nav_set c (\<lambda>r. r\<lparr>nv_state := APPROVED, nv_expires := now + nc_approvedTtl cfg, nv_ticket := Some t\<rparr>) s)
       \<lparr>ns_tickets := ns_tickets s @ [(t, c)]\<rparr>"
  using assms by (auto simp: nav_approve_def Let_def split: option.splits if_splits)

lemma nav_dispatch_Some:
  assumes "nav_dispatch now t tab ep s0 = (s', Some r)" "s = nav_collect now s0"
  shows "nav_by_ticket s t = Some r \<and> nv_state r = APPROVED \<and> nv_tabId r = tab \<and> nv_epoch r = ep \<and>
    s' = (nav_set (nv_challenge r) (\<lambda>r. r\<lparr>nv_state := DISPATCHING\<rparr>) s)\<lparr>ns_tickets := filter (\<lambda>e. fst e \<noteq> t) (ns_tickets s)\<rparr>"
  using assms by (auto simp: nav_dispatch_def Let_def split: option.splits if_splits)

lemma nav_approve_ok:
  assumes "nav_ok cfg s" "nav_get s c = Some r" "nv_state r = CAPTURED"
    "\<forall>q \<in> set (ns_pending s). nv_ticket q \<noteq> Some t" "t \<notin> fst ` set (ns_tickets s)"
    and s': "s' = (nav_set c (\<lambda>r. r\<lparr>nv_state := APPROVED, nv_expires := e, nv_ticket := Some t\<rparr>) s)\<lparr>ns_tickets := ns_tickets s @ [(t, c)]\<rparr>"
  shows "nav_ok cfg s'"
    and "set (ns_pending s') = insert (r\<lparr>nv_state := APPROVED, nv_expires := e, nv_ticket := Some t\<rparr>) (set (ns_pending s) - {r})"
proof -
  let ?r = "r\<lparr>nv_state := APPROVED, nv_expires := e, nv_ticket := Some t\<rparr>"
  have b: "nav_bounds cfg s" and tk: "nav_tickets_ok s" using assms(1) by (simp_all add: nav_ok_def)
  have d: "distinct (map nv_challenge (ns_pending s))" using b by (simp add: nav_bounds_def)
  note r = nav_get_in [OF assms(2)]
  have p: "set (ns_pending s') = insert ?r (set (ns_pending s) - {r})"
    using nav_set_pending [OF d conjunct1 [OF r], of "\<lambda>r. r\<lparr>nv_state := APPROVED, nv_expires := e, nv_ticket := Some t\<rparr>"] r
    by (simp add: s')
  then show "set (ns_pending s') = insert ?r (set (ns_pending s) - {r})" .
  have "nav_bounds cfg s'" unfolding s' by (rule nav_set_bounds [OF b]) simp
  moreover have "nav_tickets_ok s'"
    unfolding nav_tickets_ok_def p
  proof (intro conjI ballI impI)
    show "distinct (map fst (ns_tickets s'))"
      using tk assms(5) by (auto simp: s' nav_tickets_ok_def)
  next
    fix x assume "x \<in> set (ns_tickets s')"
    then consider "x = (t, c)" | "x \<in> set (ns_tickets s)" by (auto simp: s')
    then show "case x of (t, c) \<Rightarrow> \<exists>q \<in> insert ?r (set (ns_pending s) - {r}).
        nv_challenge q = c \<and> nv_state q = APPROVED \<and> nv_ticket q = Some t"
    proof cases
      case 1
      then show ?thesis using r by simp
    next
      case 2
      then obtain q where "q \<in> set (ns_pending s)" "nv_challenge q = snd x" "nv_state q = APPROVED" "nv_ticket q = Some (fst x)"
        using nav_ticketD [OF tk, of "fst x" "snd x"] by auto
      moreover from this have "q \<noteq> r" using assms(3) by auto
      ultimately show ?thesis by (auto simp: case_prod_beta)
    qed
  next
    fix q assume q: "q \<in> insert ?r (set (ns_pending s) - {r})" "nv_state q = APPROVED"
    show "\<exists>t'. nv_ticket q = Some t' \<and> (t', nv_challenge q) \<in> set (ns_tickets s')"
    proof (cases "q = ?r")
      case True
      then show ?thesis using r by (simp add: s')
    next
      case False
      then show ?thesis using nav_approvedD [OF tk _ q(2)] q(1) by (auto simp: s')
    qed
  next
    fix q q' assume q: "q \<in> insert ?r (set (ns_pending s) - {r})" "q' \<in> insert ?r (set (ns_pending s) - {r})"
      and e: "nv_ticket q = nv_ticket q' \<and> nv_ticket q \<noteq> None"
    have n: "nv_ticket ?r = Some t" by simp
    have other: "nv_ticket x \<noteq> Some t" if "x \<in> set (ns_pending s) - {r}" for x using assms(4) that by blast
    obtain t' where t': "nv_ticket q' = Some t'" using e by (cases "nv_ticket q'") auto
    moreover from this have t: "nv_ticket q = Some t'" using e by simp
    ultimately show "q = q'"
      using q n other nav_ticket_unique [OF tk, of q q' t'] by (metis Diff_iff insertE)
  next
    fix q assume q: "q \<in> insert ?r (set (ns_pending s) - {r})" "nv_state q = CAPTURED"
    then have "q \<in> set (ns_pending s)" by auto
    then show "nv_ticket q = None" using nav_captured_no_ticket [OF tk _ q(2)] by simp
  qed
  ultimately show "nav_ok cfg s'" by (simp add: nav_ok_def)
qed

lemma nav_dispatch_ok:
  assumes "nav_ok cfg s" "nav_by_ticket s t = Some r" "nv_state r = APPROVED"
    and s': "s' = (nav_set (nv_challenge r) (\<lambda>r. r\<lparr>nv_state := DISPATCHING\<rparr>) s)\<lparr>ns_tickets := filter (\<lambda>e. fst e \<noteq> t) (ns_tickets s)\<rparr>"
  shows "nav_ok cfg s'" "r \<in> set (ns_pending s)" "nv_ticket r = Some t"
    "set (ns_pending s') = insert (r\<lparr>nv_state := DISPATCHING\<rparr>) (set (ns_pending s) - {r})"
proof -
  let ?r = "r\<lparr>nv_state := DISPATCHING\<rparr>"
  have b: "nav_bounds cfg s" and tk: "nav_tickets_ok s" using assms(1) by (simp_all add: nav_ok_def)
  have d: "distinct (map nv_challenge (ns_pending s))" using b by (simp add: nav_bounds_def)
  obtain c where c: "(t, c) \<in> set (ns_tickets s)" "nav_get s c = Some r"
    using assms(2) by (auto simp: nav_by_ticket_def split: option.splits dest: map_of_SomeD)
  note r = nav_get_in [OF c(2)]
  show rp: "r \<in> set (ns_pending s)" using r by simp
  obtain q where q: "q \<in> set (ns_pending s)" "nv_challenge q = c" "nv_ticket q = Some t" using nav_ticketD [OF tk c(1)] by blast
  have "q = r" using nav_get_unique [OF d q(1)] q(2) c(2) by simp
  then show rt: "nv_ticket r = Some t" using q by simp
  have p: "set (ns_pending s') = insert ?r (set (ns_pending s) - {r})"
    using nav_set_pending [OF d rp, of "\<lambda>r. r\<lparr>nv_state := DISPATCHING\<rparr>"] by (simp add: s')
  then show "set (ns_pending s') = insert ?r (set (ns_pending s) - {r})" .
  have "nav_bounds cfg s'" unfolding s' by (rule nav_set_bounds [OF b]) simp
  moreover have "nav_tickets_ok s'"
    unfolding nav_tickets_ok_def p
  proof (intro conjI ballI impI)
    show "distinct (map fst (ns_tickets s'))" using tk by (simp add: s' nav_tickets_ok_def distinct_map_filter)
  next
    fix x assume "x \<in> set (ns_tickets s')"
    then have x: "(fst x, snd x) \<in> set (ns_tickets s)" "fst x \<noteq> t" by (auto simp: s')
    then obtain q where "q \<in> set (ns_pending s)" "nv_challenge q = snd x" "nv_state q = APPROVED" "nv_ticket q = Some (fst x)"
      using nav_ticketD [OF tk] by blast
    moreover from this have "q \<noteq> r" using rt x(2) by auto
    ultimately show "case x of (t, c) \<Rightarrow> \<exists>q \<in> insert ?r (set (ns_pending s) - {r}).
        nv_challenge q = c \<and> nv_state q = APPROVED \<and> nv_ticket q = Some t" by (auto simp: case_prod_beta)
  next
    fix q assume q: "q \<in> insert ?r (set (ns_pending s) - {r})" "nv_state q = APPROVED"
    have "q \<noteq> ?r" using q(2) by auto
    then have qs: "q \<in> set (ns_pending s)" "q \<noteq> r" using q(1) by blast+
    obtain t' where t': "nv_ticket q = Some t'" "(t', nv_challenge q) \<in> set (ns_tickets s)"
      using nav_approvedD [OF tk qs(1) q(2)] by blast
    then have "t' \<noteq> t" using nav_ticket_unique [OF tk qs(1) rp _ rt] qs(2) by blast
    then show "\<exists>t'. nv_ticket q = Some t' \<and> (t', nv_challenge q) \<in> set (ns_tickets s')" using t' by (auto simp: s')
  next
    fix q q' assume q: "q \<in> insert ?r (set (ns_pending s) - {r})" "q' \<in> insert ?r (set (ns_pending s) - {r})"
      and e: "nv_ticket q = nv_ticket q' \<and> nv_ticket q \<noteq> None"
    have n: "nv_ticket ?r = Some t" using rt by simp
    have other: "nv_ticket x \<noteq> Some t" if "x \<in> set (ns_pending s) - {r}" for x
      using nav_ticket_unique [OF tk _ rp _ rt, of x] that by blast
    obtain t' where t': "nv_ticket q' = Some t'" using e by (cases "nv_ticket q'") auto
    moreover from this have t: "nv_ticket q = Some t'" using e by simp
    ultimately show "q = q'"
      using q n other nav_ticket_unique [OF tk, of q q' t'] by (metis Diff_iff insertE)
  next
    fix q assume q: "q \<in> insert ?r (set (ns_pending s) - {r})" "nv_state q = CAPTURED"
    then have "q \<in> set (ns_pending s)" by auto
    then show "nv_ticket q = None" using nav_captured_no_ticket [OF tk _ q(2)] by simp
  qed
  ultimately show "nav_ok cfg s'" by (simp add: nav_ok_def)
qed

section \<open>Runs\<close>

text \<open>The random identifiers a run has drawn.\<close>

fun drawn :: "nav_event \<Rightarrow> string set" where
  "drawn (Capture now c q) = {c}"
| "drawn (Approve now t c tab ep so) = {t}"
| "drawn _ = {}"

type_synonym nav_trace = "(nav_event \<times> nav_result option) list"

text \<open>A run of the store, the newest call first; identifiers are drawn fresh.\<close>

inductive nav_run :: "platform \<Rightarrow> (string \<Rightarrow> string) \<Rightarrow> nav_cfg \<Rightarrow> nav_trace \<Rightarrow> nav_store \<Rightarrow> bool"
  for P href cfg where
  start: "nav_run P href cfg [] nav_empty"
| call: "nav_run P href cfg tr s \<Longrightarrow> \<forall>x \<in> set tr. drawn e \<inter> drawn (fst x) = {} \<Longrightarrow> nav_step P href cfg e s = (s', r) \<Longrightarrow>
    nav_run P href cfg ((e, r) # tr) s'"

inductive_cases nav_run_ConsE: "nav_run P href cfg (x # tr) s"

definition was_captured :: "platform \<Rightarrow> (string \<Rightarrow> string) \<Rightarrow> nav_trace \<Rightarrow> nav_rec \<Rightarrow> bool" where
  "was_captured P href tr r \<longleftrightarrow>
     (\<exists>now q. (Capture now (nv_challenge r) q, Some (Challenge (nv_challenge r))) \<in> set tr \<and>
        nv_url r = href (nr_url q) \<and> nv_method r = nr_method q \<and> nv_body r = nr_body q \<and>
        nv_contentType r = nr_contentType q \<and> nv_tabId r = nr_tabId q \<and> nv_epoch r = nr_epoch q \<and>
        Some (nv_sourceOrigin r) = origin_or_null P (nr_sourceOrigin q))"

definition was_approved :: "nav_trace \<Rightarrow> string \<Rightarrow> nav_rec \<Rightarrow> bool" where
  "was_approved tr t r \<longleftrightarrow>
     (\<exists>now. (Approve now t (nv_challenge r) (nv_tabId r) (nv_epoch r) (nv_sourceOrigin r), Some (Ticket t)) \<in> set tr)"

definition was_dispatched :: "nav_trace \<Rightarrow> string \<Rightarrow> bool" where
  "was_dispatched tr t \<longleftrightarrow> (\<exists>now tab ep r. (Dispatch now t tab ep, Some (Replay r)) \<in> set tr)"

definition was_drawn :: "nav_trace \<Rightarrow> string \<Rightarrow> bool" where
  "was_drawn tr t \<longleftrightarrow> (\<exists>x \<in> set tr. t \<in> drawn (fst x))"

lemma was_mono:
  "was_captured P href tr r \<Longrightarrow> was_captured P href (x # tr) r"
  "was_approved tr t r \<Longrightarrow> was_approved (x # tr) t r"
  "was_drawn tr t \<Longrightarrow> was_drawn (x # tr) t"
  unfolding was_captured_def was_approved_def was_drawn_def set_simps by blast+

lemma was_drawn_by:
  "was_captured P href tr r \<Longrightarrow> was_drawn tr (nv_challenge r)"
  "was_approved tr t r \<Longrightarrow> was_drawn tr t"
  unfolding was_captured_def was_approved_def was_drawn_def by force+

text \<open>The parts of a record that do not change.\<close>

definition same_nav :: "nav_rec \<Rightarrow> nav_rec \<Rightarrow> bool" where
  "same_nav r q \<longleftrightarrow> (\<exists>st e t. r = q\<lparr>nv_state := st, nv_expires := e, nv_ticket := t\<rparr>)"

lemma same_nav_was:
  assumes "same_nav r q"
  shows "was_captured P href tr r = was_captured P href tr q" "was_approved tr t r = was_approved tr t q"
proof -
  obtain st e x where r: "r = q\<lparr>nv_state := st, nv_expires := e, nv_ticket := x\<rparr>" using assms unfolding same_nav_def by blast
  show "was_captured P href tr r = was_captured P href tr q" "was_approved tr t r = was_approved tr t q"
    by (simp_all add: r was_captured_def was_approved_def)
qed

definition nav_traced :: "platform \<Rightarrow> (string \<Rightarrow> string) \<Rightarrow> nav_trace \<Rightarrow> nav_store \<Rightarrow> bool" where
  "nav_traced P href tr s \<longleftrightarrow>
     (\<forall>r \<in> set (ns_pending s). was_captured P href tr r \<and> (\<forall>t. nv_ticket r = Some t \<longrightarrow> was_approved tr t r)) \<and>
     (\<forall>t. was_dispatched tr t \<longrightarrow> was_drawn tr t \<and> t \<notin> fst ` set (ns_tickets s))"

lemma nav_traced_shrink:
  assumes "nav_traced P href tr s" "set (ns_pending s') \<subseteq> set (ns_pending s)" "set (ns_tickets s') \<subseteq> set (ns_tickets s)"
    "\<And>t. was_dispatched (x # tr) t \<Longrightarrow> was_dispatched tr t"
  shows "nav_traced P href (x # tr) s'"
  using assms was_mono unfolding nav_traced_def by (meson image_mono subset_iff)

lemma was_dispatched_Cons:
  "was_dispatched ((e, r) # tr) t \<longleftrightarrow> was_dispatched tr t \<or> (\<exists>now tab ep q. e = Dispatch now t tab ep \<and> r = Some (Replay q))"
  unfolding was_dispatched_def by auto

text \<open>The calls other than a successful capture, approval or dispatch only remove.\<close>

lemma nav_step_shrink:
  assumes "nav_ok cfg s" "nav_step P href cfg e s = (s', r)" "r = None \<or> (\<exists>q. r = Some Plain_result)"
  shows "nav_ok cfg s' \<and> set (ns_pending s') \<subseteq> set (ns_pending s) \<and> set (ns_tickets s') \<subseteq> set (ns_tickets s)"
proof (cases e)
  case (Capture now c q)
  then have "s' = nav_collect now s"
    using assms(2,3) by (auto simp: nav_capture_def Let_def case_prod_beta split: if_splits)
  then show ?thesis using nav_collect_ok [OF assms(1)] by simp
next
  case (Approve now t c tab ep so)
  then have "s' = nav_collect now s"
    using assms(2,3) by (auto simp: nav_approve_def Let_def case_prod_beta split: if_splits option.splits)
  then show ?thesis using nav_collect_ok [OF assms(1)] by simp
next
  case (Dispatch now t tab ep)
  then have "s' = nav_collect now s"
    using assms(2,3) by (auto simp: nav_dispatch_def Let_def case_prod_beta split: if_splits option.splits)
  then show ?thesis using nav_collect_ok [OF assms(1)] by simp
next
  case (Complete c)
  show ?thesis
  proof (cases "nav_get s c")
    case None
    then show ?thesis using assms Complete by (simp add: nav_complete_def)
  next
    case (Some q)
    then have "s' = s \<or> s' = nav_remove q s" using assms(2) Complete by (auto simp: nav_complete_def split: if_splits)
    then show ?thesis using nav_remove_ok [OF assms(1)] nav_get_in [OF Some] nav_remove_shrinks [of q s] assms(1) by auto
  qed
next
  case (Cancel c)
  then have "nav_cancel c s = (s', snd (nav_cancel c s))" using assms(2) by (cases "nav_cancel c s") simp
  from nav_cancel_ok(1-3) [OF assms(1) this] show ?thesis by simp
next
  case (Invalidate tab ep except)
  then have "s' = invalidateTab tab ep except s" using assms(2) by simp
  from nav_cancel_if_ok [OF assms(1) this [unfolded invalidateTab_def]] show ?thesis by auto
next
  case (Collect now)
  then have "s' = nav_collect now s" using assms(2) by simp
  then show ?thesis using nav_collect_ok [OF assms(1), of now] by simp
qed

lemma nav_run_inv: "nav_run P href cfg tr s \<Longrightarrow> nav_ok cfg s \<and> nav_traced P href tr s"
proof (induction rule: nav_run.induct)
  case start
  show ?case
    by (simp add: nav_ok_def nav_bounds_def nav_tickets_ok_def nav_traced_def nav_empty_def owned_def was_dispatched_def)
next
  case (call tr s e s' r)
  have ok: "nav_ok cfg s" and tr: "nav_traced P href tr s" using call.IH by simp_all
  have fresh: "\<not> was_drawn tr t" if "t \<in> drawn e" for t
    using call.hyps(2) that by (auto simp: was_drawn_def)
  show ?case
  proof (cases "r = None \<or> (\<exists>q. r = Some Plain_result)")
    case True
    note sh = nav_step_shrink [OF ok call.hyps(3) True]
    have "was_dispatched tr t" if "was_dispatched ((e, r) # tr) t" for t
      using that True by (auto simp: was_dispatched_Cons)
    then show ?thesis using sh nav_traced_shrink [OF tr] by blast
  next
    case False
    then obtain v where v: "r = Some v" "v \<noteq> Plain_result" by (cases r) auto
    show ?thesis
    proof (cases e)
      case (Capture now c q)
      then have st: "nav_capture P href cfg now c q s = (s', Some c)"
        using call.hyps(3) v by (auto simp: case_prod_beta nav_capture_def Let_def split: if_splits)
      have r: "r = Some (Challenge c)" using call.hyps(3) st Capture by simp
      define sc where "sc = nav_collect now s"
      note col = nav_collect_ok [OF ok, of now, folded sc_def]
      from nav_capture_Some [OF st] obtain n where
        n: "s' = sc\<lparr>ns_pending := ns_pending sc @ [n], ns_bytes := ns_bytes sc + length (nv_body n)\<rparr>"
        "nv_challenge n = c" "nv_state n = CAPTURED" "nv_ticket n = None"
        "nv_url n = href (nr_url q)" "nv_method n = nr_method q" "nv_body n = nr_body q" "nv_contentType n = nr_contentType q"
        "nv_tabId n = nr_tabId q" "nv_epoch n = nr_epoch q" "Some (nv_sourceOrigin n) = origin_or_null P (nr_sourceOrigin q)"
        "length (ns_pending sc) < nc_maxPending cfg" "ns_bytes sc + length (nv_body n) \<le> nc_maxBytes cfg"
        "length (owned (nv_tabId n) sc) < nc_maxPerTab cfg" "body_sum (owned (nv_tabId n) sc) + length (nv_body n) \<le> nc_maxBytesPerTab cfg"
        "nv_method n \<in> {''GET'', ''HEAD''} \<longrightarrow> nv_body n = []"
        unfolding sc_def by metis
      have new: "nv_challenge n \<notin> nv_challenge ` set (ns_pending sc)"
      proof
        assume "nv_challenge n \<in> nv_challenge ` set (ns_pending sc)"
        then obtain x where "x \<in> set (ns_pending s)" "nv_challenge x = c" using col(2) n(2) by auto
        then have "was_drawn tr c" using tr was_drawn_by(1) unfolding nav_traced_def by metis
        then show False using fresh [of c] Capture by simp
      qed
      have "nav_ok cfg s'" unfolding n(1) by (rule nav_append_ok [OF col(1) new n(3,4,12-16)])
      moreover have "nav_traced P href ((e, r) # tr) s'"
      proof -
        have "was_captured P href ((e, r) # tr) n"
          unfolding was_captured_def using n Capture r by auto
        moreover have "nav_traced P href ((e, r) # tr) sc"
          by (rule nav_traced_shrink [OF tr col(2,3)]) (simp add: was_dispatched_Cons Capture)
        ultimately show ?thesis using n(4) unfolding nav_traced_def n(1) by auto
      qed
      ultimately show ?thesis ..
    next
      case (Approve now t c tab ep so)
      then have "nav_approve cfg now t c tab ep so s = (s', Some t)"
        using call.hyps(3) v by (auto simp: case_prod_beta nav_approve_def Let_def split: if_splits option.splits)
      note st = this
      have r: "r = Some (Ticket t)" using call.hyps(3) st Approve by simp
      define sc where "sc = nav_collect now s"
      note col = nav_collect_ok [OF ok, of now, folded sc_def]
      from nav_approve_Some [OF st sc_def] obtain n where
        n: "nav_get sc c = Some n" "nv_state n = CAPTURED" "nv_tabId n = tab" "nv_epoch n = ep" "nv_sourceOrigin n = so" and
        s': "s' = (nav_set c (\<lambda>r. r\<lparr>nv_state := APPROVED, nv_expires := now + nc_approvedTtl cfg, nv_ticket := Some t\<rparr>) sc)
          \<lparr>ns_tickets := ns_tickets sc @ [(t, c)]\<rparr>" by metis
      have trc: "nav_traced P href ((e, r) # tr) sc"
        by (rule nav_traced_shrink [OF tr col(2,3)]) (simp add: was_dispatched_Cons Approve)
      have nt: "\<not> was_drawn tr t" using fresh [of t] Approve by simp
      have 1: "nv_ticket x \<noteq> Some t" if "x \<in> set (ns_pending sc)" for x
        using tr col(2) that nt was_drawn_by(2) unfolding nav_traced_def by blast
      have 2: "t \<notin> fst ` set (ns_tickets sc)"
        using nav_ticketD [of sc t] col(1) 1 by (auto simp: nav_ok_def)
      note ap = nav_approve_ok [OF col(1) n(1,2) ballI [OF 1] 2 s']
      let ?n = "n\<lparr>nv_state := APPROVED, nv_expires := now + nc_approvedTtl cfg, nv_ticket := Some t\<rparr>"
      note g = nav_get_in [OF n(1)]
      have ap2: "set (ns_pending s') = insert ?n (set (ns_pending sc) - {n})" by (rule ap(2))
      have sn: "same_nav ?n n" unfolding same_nav_def by blast
      have "was_captured P href ((e, r) # tr) n" using trc g unfolding nav_traced_def by blast
      moreover have "was_approved ((e, r) # tr) t n" unfolding was_approved_def using g n Approve r by auto
      moreover have "nv_ticket ?n = Some t" by simp
      ultimately have c1: "was_captured P href ((e, r) # tr) ?n \<and> (\<forall>t'. nv_ticket ?n = Some t' \<longrightarrow> was_approved ((e, r) # tr) t' ?n)"
        using same_nav_was [OF sn] by simp
      have c2: "was_drawn ((e, r) # tr) x \<and> x \<notin> fst ` set (ns_tickets s')" if "was_dispatched ((e, r) # tr) x" for x
      proof -
        have x: "was_dispatched tr x" using that by (simp add: was_dispatched_Cons Approve)
        then have d: "was_drawn tr x" using tr unfolding nav_traced_def by blast
        then have "x \<noteq> t" using nt by blast
        moreover have "x \<notin> fst ` set (ns_tickets sc)" using trc that unfolding nav_traced_def by blast
        ultimately show ?thesis using was_mono(3) [OF d] by (simp add: s')
      qed
      have "nav_traced P href ((e, r) # tr) s'"
        using c1 c2 trc unfolding nav_traced_def ap2 by blast
      then show ?thesis using ap(1) by simp
    next
      case (Dispatch now t tab ep)
      then obtain n where st: "nav_dispatch now t tab ep s = (s', Some n)" and r: "r = Some (Replay n)"
        using call.hyps(3) v by (cases "nav_dispatch now t tab ep s") auto
      define sc where "sc = nav_collect now s"
      note col = nav_collect_ok [OF ok, of now, folded sc_def]
      note n = nav_dispatch_Some [OF st sc_def]
      have dp: "nav_ok cfg s'" "n \<in> set (ns_pending sc)" "nv_ticket n = Some t"
        "set (ns_pending s') = insert (n\<lparr>nv_state := DISPATCHING\<rparr>) (set (ns_pending sc) - {n})"
        using nav_dispatch_ok [OF col(1), of t n s'] n by simp_all
      have trc: "\<forall>x \<in> set (ns_pending sc). was_captured P href ((e, r) # tr) x \<and>
          (\<forall>t. nv_ticket x = Some t \<longrightarrow> was_approved ((e, r) # tr) t x)"
      proof
        fix x assume "x \<in> set (ns_pending sc)"
        then have "x \<in> set (ns_pending s)" using col(2) by blast
        then have "was_captured P href tr x \<and> (\<forall>t. nv_ticket x = Some t \<longrightarrow> was_approved tr t x)"
          using tr unfolding nav_traced_def by blast
        then show "was_captured P href ((e, r) # tr) x \<and> (\<forall>t. nv_ticket x = Some t \<longrightarrow> was_approved ((e, r) # tr) t x)"
          using was_mono(1,2) by blast
      qed
      let ?n = "n\<lparr>nv_state := DISPATCHING\<rparr>"
      have sn: "same_nav ?n n" unfolding same_nav_def by (intro exI [of _ DISPATCHING] exI [of _ "nv_expires n"] exI [of _ "nv_ticket n"]) simp
      have c1: "was_captured P href ((e, r) # tr) ?n \<and> (\<forall>t'. nv_ticket ?n = Some t' \<longrightarrow> was_approved ((e, r) # tr) t' ?n)"
        using trc dp(2) same_nav_was [OF sn] by simp
      have c2: "was_drawn ((e, r) # tr) x \<and> x \<notin> fst ` set (ns_tickets s')" if "was_dispatched ((e, r) # tr) x" for x
      proof -
        have s': "ns_tickets s' = filter (\<lambda>e. fst e \<noteq> t) (ns_tickets sc)" using n by simp
        show ?thesis
        proof (cases "x = t")
          case True
          have "was_approved tr t n" using tr col(2) dp(2,3) unfolding nav_traced_def by blast
          then show ?thesis using was_mono(3) [OF was_drawn_by(2)] True by (auto simp: s')
        next
          case False
          then have "was_dispatched tr x" using that by (simp add: was_dispatched_Cons Dispatch)
          then have "was_drawn tr x" "x \<notin> fst ` set (ns_tickets s)" using tr unfolding nav_traced_def by blast+
          then show ?thesis using was_mono(3) col(3) by (auto simp: s')
        qed
      qed
      have "nav_traced P href ((e, r) # tr) s'"
        unfolding nav_traced_def dp(4) using c1 c2 trc by simp
      then show ?thesis using dp(1) by simp
    qed (use call.hyps(3) v in \<open>auto simp: case_prod_beta split: if_splits\<close>)
  qed
qed

definition demo_request :: nav_request where
  "demo_request = \<lparr>nr_url = ''https://b.com'', nr_method = ''POST'', nr_body = [1, 2], nr_contentType = ''text'',
     nr_sourceOrigin = Some ''https://a.com'', nr_tabId = ''T'', nr_epoch = 1, nr_initiator = None, nr_cross = False,
     nr_redirects = 0, nr_taint = ''same-origin''\<rparr>"

definition demo_record :: nav_rec where
  "demo_record = \<lparr>nv_challenge = ''c'', nv_url = ''https://b.com'', nv_method = ''POST'', nv_body = [1, 2], nv_contentType = ''text'',
     nv_sourceOrigin = Some ''https://a.com'', nv_tabId = ''T'', nv_epoch = 1, nv_initiator = None, nv_cross = False,
     nv_redirects = 0, nv_taint = ''same-origin'', nv_expires = 30000, nv_state = CAPTURED, nv_ticket = None\<rparr>"

definition demo_approved :: nav_rec where
  "demo_approved = demo_record\<lparr>nv_state := APPROVED, nv_expires := 120001, nv_ticket := Some ''t''\<rparr>"

lemma demo_run:
  "nav_run demo_platform id nav_defaults
     [(Dispatch 2 ''t'' ''T'' 1, Some (Replay demo_approved)), (Approve 1 ''t'' ''c'' ''T'' 1 (Some ''https://a.com''), Some (Ticket ''t'')),
      (Capture 0 ''c'' demo_request, Some (Challenge ''c''))]
     \<lparr>ns_pending = [demo_approved\<lparr>nv_state := DISPATCHING\<rparr>], ns_tickets = [], ns_bytes = 2\<rparr>"
proof -
  have 1: "nav_step demo_platform id nav_defaults (Capture 0 ''c'' demo_request) nav_empty =
      (\<lparr>ns_pending = [demo_record], ns_tickets = [], ns_bytes = 2\<rparr>, Some (Challenge ''c''))"
    by (simp add: nav_capture_def nav_collect_def nav_cancel_if_def nav_empty_def demo_request_def demo_record_def nav_defaults_def
      upstreamUrl_def origin_or_null_def demo_platform_def starts_with_def owned_def u_origin_def u_host_def Let_def)
  have 2: "nav_step demo_platform id nav_defaults (Approve 1 ''t'' ''c'' ''T'' 1 (Some ''https://a.com''))
      \<lparr>ns_pending = [demo_record], ns_tickets = [], ns_bytes = 2\<rparr> =
      (\<lparr>ns_pending = [demo_approved], ns_tickets = [(''t'', ''c'')], ns_bytes = 2\<rparr>, Some (Ticket ''t''))"
    by (simp add: nav_approve_def nav_collect_def nav_cancel_if_def nav_get_def nav_set_def demo_record_def demo_approved_def nav_defaults_def)
  have 3: "nav_step demo_platform id nav_defaults (Dispatch 2 ''t'' ''T'' 1)
      \<lparr>ns_pending = [demo_approved], ns_tickets = [(''t'', ''c'')], ns_bytes = 2\<rparr> =
      (\<lparr>ns_pending = [demo_approved\<lparr>nv_state := DISPATCHING\<rparr>], ns_tickets = [], ns_bytes = 2\<rparr>, Some (Replay demo_approved))"
    by (simp add: nav_dispatch_def nav_collect_def nav_cancel_if_def nav_by_ticket_def nav_get_def nav_set_def demo_record_def demo_approved_def)
  show ?thesis
    by (rule nav_run.call [OF _ _ 3], rule nav_run.call [OF _ _ 2], rule nav_run.call [OF nav_run.start _ 1]) simp_all
qed

lemma nav_run_suffix: "nav_run P href cfg (xs @ ys) s \<Longrightarrow> \<exists>s'. nav_run P href cfg ys s'"
  by (induction xs arbitrary: s) (auto elim: nav_run_ConsE)

text \<open>C25. A navigation runs once and only as it was captured and approved: in any run, a dispatch that
  answers replays the address, method, body and content type of an earlier capture, its ticket was
  issued earlier by an approval for exactly the tab, epoch and source origin of that capture, the
  caller named that tab and epoch, and no other dispatch of the same ticket ever answers.\<close>

theorem dispatched_once_as_approved:
  assumes "nav_run P href cfg (later @ (Dispatch now t tab ep, Some (Replay r)) # before) s"
  shows "was_captured P href before r \<and> was_approved before t r \<and> nv_tabId r = tab \<and> nv_epoch r = ep \<and>
    \<not> was_dispatched before t \<and> \<not> was_dispatched later t"
proof -
  obtain s1 where run: "nav_run P href cfg ((Dispatch now t tab ep, Some (Replay r)) # before) s1"
    using nav_run_suffix [OF assms] by blast
  then obtain s0 where s0: "nav_run P href cfg before s0" "nav_step P href cfg (Dispatch now t tab ep) s0 = (s1, Some (Replay r))"
    by (auto elim!: nav_run_ConsE)
  then have s0: "nav_run P href cfg before s0" "nav_dispatch now t tab ep s0 = (s1, Some r)"
    by (cases "nav_dispatch now t tab ep s0"; simp)+
  have ok: "nav_ok cfg s0" and tr: "nav_traced P href before s0" using nav_run_inv [OF s0(1)] by simp_all
  define sc where "sc = nav_collect now s0"
  note col = nav_collect_ok [OF ok, of now, folded sc_def]
  note n = nav_dispatch_Some [OF s0(2) sc_def]
  have r: "r \<in> set (ns_pending sc)" "nv_ticket r = Some t"
    using nav_dispatch_ok [OF col(1), of t r s1] n by simp_all
  have "was_captured P href before r \<and> was_approved before t r"
    using tr r col(2) unfolding nav_traced_def by blast
  moreover have "t \<in> fst ` set (ns_tickets s0)"
    using n col(3) by (force simp: nav_by_ticket_def split: option.splits dest: map_of_SomeD)
  then have nb: "\<not> was_dispatched before t" using tr unfolding nav_traced_def by blast
  moreover have "\<not> was_dispatched later t"
    using assms
  proof (induction later arbitrary: s)
    case Nil
    then show ?case by (simp add: was_dispatched_def)
  next
    case (Cons x xs)
    let ?tr = "xs @ (Dispatch now t tab ep, Some (Replay r)) # before"
    obtain s2 where s2: "nav_run P href cfg ?tr s2" "nav_step P href cfg (fst x) s2 = (s, snd x)"
      using Cons.prems by (auto elim!: nav_run_ConsE)
    have no: "\<not> was_dispatched xs t" by (rule Cons.IH [OF s2(1)])
    have ok2: "nav_ok cfg s2" and tr2: "nav_traced P href ?tr s2" using nav_run_inv [OF s2(1)] by simp_all
    have "was_dispatched ?tr t" unfolding was_dispatched_def by (intro exI) auto
    then have gone: "t \<notin> fst ` set (ns_tickets s2)" using tr2 unfolding nav_traced_def by blast
    show ?case
    proof
      assume "was_dispatched (x # xs) t"
      then obtain now2 tab2 ep2 q where x: "fst x = Dispatch now2 t tab2 ep2" "snd x = Some (Replay q)"
        using no unfolding was_dispatched_def by auto
      then obtain s3 where "nav_dispatch now2 t tab2 ep2 s2 = (s3, Some q)"
        using s2(2) by (cases "nav_dispatch now2 t tab2 ep2 s2") auto
      from nav_dispatch_Some [OF this refl] have "t \<in> fst ` set (ns_tickets (nav_collect now2 s2))"
        by (force simp: nav_by_ticket_def split: option.splits dest: map_of_SomeD)
      then show False using gone nav_collect_ok(3) [OF ok2, of now2] by blast
    qed
  qed
  ultimately show ?thesis using n by blast
qed

lemma dispatched_once_as_approved_witness:
  "was_captured demo_platform id [(Approve 1 ''t'' ''c'' ''T'' 1 (Some ''https://a.com''), Some (Ticket ''t'')),
      (Capture 0 ''c'' demo_request, Some (Challenge ''c''))] demo_approved"
  using dispatched_once_as_approved [of demo_platform id nav_defaults "[]", unfolded append_Nil, OF demo_run] by simp

text \<open>C27. The limits of the navigation store hold in every state it reaches: the byte count is the
  sum of the bodies held, at most 256 navigations and 64 MiB wait, at most 8 of them and 8 MiB per
  tab, and a GET or HEAD carries no body.\<close>

theorem nav_limits:
  assumes "nav_run P href nav_defaults tr s"
  shows "ns_bytes s = body_sum (ns_pending s) \<and> length (ns_pending s) \<le> 256 \<and> ns_bytes s \<le> 64 * 1024 * 1024 \<and>
    (\<forall>tab. length (owned tab s) \<le> 8 \<and> body_sum (owned tab s) \<le> 8 * 1024 * 1024) \<and>
    (\<forall>r \<in> set (ns_pending s). nv_method r \<in> {''GET'', ''HEAD''} \<longrightarrow> nv_body r = [])"
  using nav_run_inv [OF assms] unfolding nav_ok_def nav_bounds_def by (simp add: nav_defaults_def)

lemma nav_limits_witness:
  "body_sum [demo_approved\<lparr>nv_state := DISPATCHING\<rparr>] \<le> 64 * 1024 * 1024"
  using nav_limits [OF demo_run] by simp

end
