(* ===== verification/BlTabsProps.thy ===== *)
theory BlTabsProps
  imports BlTabs BlNavProps
begin

text \<open>
  What the gateway guarantees of its tabs: tokens, entry tickets and admissions always belong to the
  current epoch of an open tab, a new epoch takes all of them away from the old one, and an entry
  ticket is good for one admission.
\<close>

section \<open>Tabs\<close>

lemma tab_put_get:
  assumes "gw_tabs g' = tab_put t (gw_tabs g)"
  shows "tab_get g' j = (if j = tb_tabId t then Some t else tab_get g j)"
proof -
  have m: "find (\<lambda>x. tb_tabId x = j) (map (\<lambda>x. if tb_tabId x = tb_tabId t then t else x) ts) =
      (if j = tb_tabId t then (if \<exists>x \<in> set ts. tb_tabId x = tb_tabId t then Some t else None) else find (\<lambda>x. tb_tabId x = j) ts)" for ts
    by (induction ts) auto
  have a: "find P (xs @ [y]) = (case find P xs of Some x \<Rightarrow> Some x | None \<Rightarrow> if P y then Some y else None)" for P xs and y :: tab
    by (induction xs) auto
  have n: "find (\<lambda>x. tb_tabId x = tb_tabId t) (gw_tabs g) = None" if "\<not> (\<exists>x \<in> set (gw_tabs g). tb_tabId x = tb_tabId t)"
    using that by (auto simp: find_None_iff)
  show ?thesis
  proof (cases "\<exists>x \<in> set (gw_tabs g). tb_tabId x = tb_tabId t")
    case True
    then show ?thesis unfolding tab_get_def assms tab_put_def using m [of "gw_tabs g"] by simp
  next
    case False
    then show ?thesis unfolding tab_get_def assms tab_put_def using n by (auto simp: a split: option.split)
  qed
qed

lemma tab_put_distinct: "distinct (map tb_tabId ts) \<Longrightarrow> distinct (map tb_tabId (tab_put t ts))"
proof -
  assume d: "distinct (map tb_tabId ts)"
  have "map tb_tabId (map (\<lambda>x. if tb_tabId x = tb_tabId t then t else x) ts) = map tb_tabId ts"
    by (induction ts) simp_all
  then show ?thesis using d by (auto simp: tab_put_def simp del: map_map)
qed

lemma tab_put_set:
  "set (tab_put t ts) = insert t {x \<in> set ts. tb_tabId x \<noteq> tb_tabId t}"
  by (auto simp: tab_put_def)

lemma tab_put_length:
  "length (tab_put t ts) = (if \<exists>x \<in> set ts. tb_tabId x = tb_tabId t then length ts else Suc (length ts))"
  by (simp add: tab_put_def)

lemma tab_filter_get:
  assumes "gw_tabs g' = filter (\<lambda>x. tb_tabId x \<noteq> i) (gw_tabs g)"
  shows "tab_get g' j = (if j = i then None else tab_get g j)"
proof -
  have "find (\<lambda>x. tb_tabId x = j) (filter (\<lambda>x. tb_tabId x \<noteq> i) ts) = (if j = i then None else find (\<lambda>x. tb_tabId x = j) ts)" for ts
    by (induction ts) auto
  from this [of "gw_tabs g"] show ?thesis by (simp add: tab_get_def assms)
qed

lemma tab_get_None: "tab_get g i = None \<longleftrightarrow> (\<forall>x \<in> set (gw_tabs g). tb_tabId x \<noteq> i)"
  by (auto simp: tab_get_def find_None_iff)

lemma keep_admissions_in:
  "(k, as) \<in> set (keep_admissions P xs) \<Longrightarrow> \<exists>bs. (k, bs) \<in> set xs \<and> as = filter P bs"
  by (auto simp: keep_admissions_def)

lemma admit_in:
  "(k, as) \<in> set (admit key a xs) \<Longrightarrow> x \<in> set as \<Longrightarrow> x = a \<or> (\<exists>bs. (k, bs) \<in> set xs \<and> x \<in> set bs)"
  by (auto simp: admit_def split: if_splits)

lemma gw_ok_parts:
  assumes "gw_ok g"
  shows "distinct (map tb_tabId (gw_tabs g))" "length (gw_tabs g) \<le> 128"
    "(k, t) \<in> set (gw_tabTokens g) \<Longrightarrow> k = tb_token t \<and> t \<in> set (gw_tabs g)"
    "e \<in> set (gw_tickets g) \<Longrightarrow> live g (te_tabId (snd e)) (te_epoch (snd e))"
    "(k', as) \<in> set (gw_admissions g) \<Longrightarrow> a \<in> set as \<Longrightarrow> live g (ad_tabId a) (ad_epoch a)"
  using assms unfolding gw_ok_def by auto

text \<open>A state whose tabs are the same and whose other parts only shrank.\<close>

lemma gw_ok_shrink:
  assumes "gw_ok g" "gw_tabs g' = gw_tabs g" "gw_tabTokens g' = gw_tabTokens g" "set (gw_tickets g') \<subseteq> set (gw_tickets g)"
    "\<And>k as a. (k, as) \<in> set (gw_admissions g') \<Longrightarrow> a \<in> set as \<Longrightarrow> \<exists>bs. (k, bs) \<in> set (gw_admissions g) \<and> a \<in> set bs"
  shows "gw_ok g'"
proof -
  have l: "live g' = live g" by (intro ext) (simp add: live_def tab_get_def assms(2))
  have "live g' (te_tabId (snd e)) (te_epoch (snd e))" if "e \<in> set (gw_tickets g')" for e
    using gw_ok_parts(4) [OF assms(1)] that assms(4) unfolding l by blast
  moreover have "live g' (ad_tabId a) (ad_epoch a)" if "(k, as) \<in> set (gw_admissions g')" "a \<in> set as" for k as a
    using gw_ok_parts(5) [OF assms(1)] assms(5) [OF that] unfolding l by blast
  ultimately show ?thesis
    using gw_ok_parts(1,2,3) [OF assms(1)] unfolding gw_ok_def assms(2,3) by auto
qed

section \<open>Opening\<close>

lemma gw_open_cases:
  assumes "gw_open c now lease token ticket dest opts g0 = (g', r)"
  obtains (refused) "r = None" "gw_tabs g' = gw_tabs g0" "gw_tabTokens g' = gw_tabTokens g0"
      "set (gw_tickets g') \<subseteq> set (gw_tickets g0)" "gw_admissions g' = gw_admissions g0" "gw_navs g' = gw_navs g0"
  | (opened) t ans url u g1 where "r = Some ans" "tb_tabId t = oo_tabId opts" "tb_epoch t = oo_epoch opts" "tb_token t = token"
      "\<forall>p. tab_get g0 (oo_tabId opts) = Some p \<longrightarrow> tb_epoch p < oo_epoch opts"
      "tab_get g0 (oo_tabId opts) = None \<longrightarrow> length (gw_tabs g0) < 128"
      "g' = gw_commit now ticket opts url u t g1"
      "gw_tabs g1 = gw_tabs g0" "gw_tabTokens g1 = gw_tabTokens g0" "gw_admissions g1 = gw_admissions g0" "gw_navs g1 = gw_navs g0"
      "set (gw_tickets g1) \<subseteq> set (gw_tickets g0)"
proof -
  define g where "g = g0\<lparr>gw_tickets := filter (\<lambda>e. \<not> te_expires (snd e) < now) (gw_tickets g0)\<rparr>"
  define prior where "prior = tab_get g (oo_tabId opts)"
  have g: "gw_tabs g = gw_tabs g0" "gw_tabTokens g = gw_tabTokens g0" "set (gw_tickets g) \<subseteq> set (gw_tickets g0)"
    "gw_admissions g = gw_admissions g0" "gw_navs g = gw_navs g0" by (auto simp: g_def)
  have tg: "prior = tab_get g0 (oo_tabId opts)" unfolding prior_def tab_get_def g(1) ..
  note op = assms [unfolded gw_open_def Let_def, folded g_def, folded prior_def]
  show thesis
  proof (cases r)
    case None
    have "\<exists>reg. g' = g \<or> g' = g\<lparr>gw_registry := reg\<rparr>"
      using op None by (auto split: if_splits option.splits prod.splits)
    then show thesis using refused None g by auto
  next
    case (Some ans)
    obtain ctx rec reg u t url where
      n: "\<not> (case prior of Some p \<Rightarrow> oo_epoch opts \<le> tb_epoch p | None \<Rightarrow> length (gw_tabs g) \<ge> 128)"
      and t: "tb_tabId t = oo_tabId opts" "tb_epoch t = oo_epoch opts" "tb_token t = token"
      and g': "g' = gw_commit now ticket opts url u t (g\<lparr>gw_registry := reg\<rparr>)"
      using op Some by (force split: if_splits option.splits prod.splits)
    have "\<forall>p. prior = Some p \<longrightarrow> tb_epoch p < oo_epoch opts" "prior = None \<longrightarrow> length (gw_tabs g) < 128"
      using n by (auto split: option.splits)
    then show thesis using g by (intro opened [OF Some t _ _ g']) (simp_all add: tg)
  qed
qed

text \<open>What the commit does to each part.\<close>

lemma gw_commit_parts:
  assumes "g' = gw_commit now ticket opts url u t g" "gw_ok g"
    "tab_get g (tb_tabId t) = None \<Longrightarrow> length (gw_tabs g) < 128"
  shows "gw_ok g'" "tab_get g' j = (if j = tb_tabId t then Some t else tab_get g j)"
proof -
  let ?i = "tb_tabId t"
  have tabs: "gw_tabs g' = tab_put t (gw_tabs g)" by (simp add: assms(1) gw_commit_def Let_def)
  show get: "tab_get g' j = (if j = ?i then Some t else tab_get g j)" for j by (rule tab_put_get [OF tabs])
  have l: "live g' j ep \<longleftrightarrow> (if j = ?i then ep = tb_epoch t else live g j ep)" for j ep by (auto simp: live_def get)
  note ok = gw_ok_parts [OF assms(2)]
  have d: "distinct (map tb_tabId (gw_tabs g'))" unfolding tabs by (rule tab_put_distinct [OF ok(1)])
  have n: "length (gw_tabs g') \<le> 128"
    using assms(3) ok(2) unfolding tabs tab_put_length by (auto simp: tab_get_None)
  have tok: "k = tb_token x \<and> x \<in> set (gw_tabs g')" if kx: "(k, x) \<in> set (gw_tabTokens g')" for k x
  proof -
    consider "k = tb_token t" "x = t" | "(k, x) \<in> set (gw_tabTokens g)" "k \<noteq> tb_token t"
        "\<forall>p. tab_get g ?i = Some p \<longrightarrow> k \<noteq> tb_token p"
      using kx by (auto simp: assms(1) gw_commit_def Let_def split: option.splits)
    then show ?thesis
    proof cases
      case 1
      then show ?thesis unfolding tabs by (simp add: tab_put_set)
    next
      case 2
      note x = ok(3) [OF 2(1)]
      have "tb_tabId x \<noteq> ?i"
      proof
        assume "tb_tabId x = ?i"
        then have "tab_get g ?i = Some x" using tab_get_unique [OF ok(1)] x by metis
        then show False using 2(3) x by blast
      qed
      then show ?thesis using x unfolding tabs by (simp add: tab_put_set)
    qed
  qed
  have tick: "live g' (te_tabId (snd e)) (te_epoch (snd e))" if et: "e \<in> set (gw_tickets g')" for e
  proof -
    consider "te_tabId (snd e) = ?i" "te_epoch (snd e) = tb_epoch t" | "e \<in> set (gw_tickets g)" "te_tabId (snd e) \<noteq> ?i"
      using et by (auto simp: assms(1) gw_commit_def Let_def drop_tickets_def)
    then show ?thesis using ok(4) by cases (simp_all add: l)
  qed
  have adm: "live g' (ad_tabId a) (ad_epoch a)" if ka: "(k, as) \<in> set (gw_admissions g')" "a \<in> set as" for k as a
  proof -
    have "(k, as) \<in> set (keep_admissions (\<lambda>a. ad_tabId a \<noteq> ?i) (gw_admissions g))"
      using ka(1) by (simp add: assms(1) gw_commit_def Let_def)
    from keep_admissions_in [OF this] obtain bs where "(k, bs) \<in> set (gw_admissions g)" "a \<in> set bs" "ad_tabId a \<noteq> ?i"
      using ka(2) by auto
    then show ?thesis using ok(5) by (simp add: l)
  qed
  show "gw_ok g'" unfolding gw_ok_def using d n tok tick adm by auto
qed

lemma gw_open_ok:
  assumes "gw_ok g0" "gw_open c now lease token ticket dest opts g0 = (g', r)"
  shows "gw_ok g'"
  using assms(2)
proof (cases rule: gw_open_cases)
  case refused
  show ?thesis by (rule gw_ok_shrink [OF assms(1)]) (use refused in auto)
next
  case (opened t ans url u g1)
  have g1: "gw_ok g1" by (rule gw_ok_shrink [OF assms(1)]) (use opened in auto)
  have "tab_get g1 = tab_get g0" by (intro ext) (simp add: tab_get_def opened(8))
  then show ?thesis using gw_commit_parts(1) [OF opened(7) g1] opened(2,6,8) by simp
qed

section \<open>The other operations\<close>

lemma gw_closeTab_ok:
  assumes "gw_ok g" "gw_closeTab i ep g = (g', b)"
  shows "gw_ok g'"
proof (cases "g' = g")
  case True
  then show ?thesis using assms(1) by simp
next
  case False
  obtain t where t: "tab_get g i = Some t"
    and g': "g' = g\<lparr>gw_navs := invalidateTab i (-1) None (gw_navs g),
                  gw_tabs := filter (\<lambda>x. tb_tabId x \<noteq> i) (gw_tabs g),
                  gw_tabTokens := filter (\<lambda>e. fst e \<noteq> tb_token t) (gw_tabTokens g),
                  gw_tickets := drop_tickets i (gw_tickets g),
                  gw_admissions := keep_admissions (\<lambda>a. ad_tabId a \<noteq> i) (gw_admissions g)\<rparr>"
    using assms(2) False by (auto simp: gw_closeTab_def split: option.splits if_splits)
  note ok = gw_ok_parts [OF assms(1)]
  have get: "tab_get g' j = (if j = i then None else tab_get g j)" for j
    by (rule tab_filter_get) (simp add: g')
  have l: "j \<noteq> i \<Longrightarrow> live g' j e = live g j e" for j e by (simp add: live_def get)
  have tok: "k = tb_token x \<and> x \<in> set (gw_tabs g')" if "(k, x) \<in> set (gw_tabTokens g')" for k x
  proof -
    have k: "(k, x) \<in> set (gw_tabTokens g)" "k \<noteq> tb_token t" using that by (auto simp: g')
    note x = ok(3) [OF k(1)]
    have "tb_tabId x \<noteq> i" using tab_get_unique [OF ok(1), of x] x k(2) t by auto
    then show ?thesis using x by (simp add: g')
  qed
  have tick: "live g' (te_tabId (snd e)) (te_epoch (snd e))" if "e \<in> set (gw_tickets g')" for e
  proof -
    have "e \<in> set (gw_tickets g)" "te_tabId (snd e) \<noteq> i" using that by (simp_all add: g' drop_tickets_def)
    then show ?thesis using ok(4) l by simp
  qed
  have adm: "live g' (ad_tabId a) (ad_epoch a)" if ka: "(k, as) \<in> set (gw_admissions g')" "a \<in> set as" for k as a
  proof -
    have "(k, as) \<in> set (keep_admissions (\<lambda>a. ad_tabId a \<noteq> i) (gw_admissions g))" using ka(1) by (simp add: g')
    from keep_admissions_in [OF this] obtain bs where "(k, bs) \<in> set (gw_admissions g)" "a \<in> set bs" "ad_tabId a \<noteq> i"
      using ka(2) by auto
    then show ?thesis using ok(5) by (simp add: l)
  qed
  have "length (gw_tabs g') \<le> 128" using ok(2) length_filter_le [of _ "gw_tabs g"] by (simp add: g' le_trans [OF length_filter_le])
  moreover have "distinct (map tb_tabId (gw_tabs g'))" using ok(1) by (simp add: g' distinct_map_filter)
  ultimately show ?thesis unfolding gw_ok_def using tok tick adm by auto
qed

lemma gw_navs_ok: "gw_ok g \<Longrightarrow> gw_ok (g\<lparr>gw_navs := ns\<rparr>)"
  by (rule gw_ok_shrink) auto

lemma gw_approveNavigation_ok:
  assumes "gw_ok g" "gw_approveNavigation c now lease navTicket token ticket challenge i ep g = (g', r)"
  shows "gw_ok g'"
proof -
  have "g' = g \<or> (\<exists>ns. g' = g\<lparr>gw_navs := ns\<rparr>) \<or>
      (\<exists>ns d o'. gw_open c now lease token ticket d o' (g\<lparr>gw_navs := ns\<rparr>) = (g', r))"
    using assms(2) by (force simp: gw_approveNavigation_def split: option.splits if_splits prod.splits)
  then show ?thesis using assms(1) gw_navs_ok gw_open_ok by metis
qed

lemma gw_entry_Some:
  assumes "gw_entry c now q g = (g', Some loc)"
  obtains e a where "map_of (gw_tickets g) (er_ticket q) = Some e" "live g (te_tabId e) (te_epoch e)" "loc = te_url e"
    "er_fromParent q" "er_dest q = Some ''iframe''" "\<not> te_expires e < now"
    "gw_tabs g' = gw_tabs g" "gw_tabTokens g' = gw_tabTokens g"
    "gw_tickets g' = filter (\<lambda>x. fst x \<noteq> er_ticket q) (gw_tickets g)"
    "ad_tabId a = te_tabId e" "ad_epoch a = te_epoch e"
    "gw_admissions g' = admit (gc_href c (te_url e)) a (keep_admissions (\<lambda>a. ad_expires a > now) (gw_admissions g))"
proof -
  obtain e where e: "map_of (gw_tickets g) (er_ticket q) = Some e" using assms by (auto simp: gw_entry_def split: option.splits)
  show thesis
    using assms e by (intro that [of e "\<lparr>ad_sourceOrigin = te_sourceOrigin e, ad_execution = te_execution e, ad_tabId = te_tabId e,
        ad_epoch = te_epoch e, ad_cross = te_cross e, ad_redirects = te_redirects e, ad_taint = te_taint e,
        ad_expires = now + 120000\<rparr>"]) (auto simp: gw_entry_def live_def split: if_splits)
qed

lemma gw_entry_None: "gw_entry c now q g = (g', None) \<Longrightarrow> g' = g"
  by (auto simp: gw_entry_def split: option.splits if_splits)

lemma gw_entry_ok:
  assumes "gw_ok g" "gw_entry c now q g = (g', r)"
  shows "gw_ok g'"
proof (cases r)
  case None
  then show ?thesis using gw_entry_None assms by metis
next
  case (Some loc)
  note ok = gw_ok_parts [OF assms(1)]
  from assms(2) [unfolded Some] show ?thesis
  proof (cases rule: gw_entry_Some)
    case (1 e a)
    note e = 1(2,10,11) and g' = 1(7,8,9,12)
    have l: "live g' = live g" by (intro ext) (simp add: live_def tab_get_def g'(1))
    have adm: "live g' (ad_tabId x) (ad_epoch x)" if kx: "(k, as) \<in> set (gw_admissions g')" "x \<in> set as" for k as x
    proof -
      from admit_in [OF kx(1) [unfolded g'(4)] kx(2)] consider "x = a"
        | bs where "(k, bs) \<in> set (keep_admissions (\<lambda>a. ad_expires a > now) (gw_admissions g))" "x \<in> set bs" by blast
      then show ?thesis
      proof cases
        case 1
        then show ?thesis using e l by simp
      next
        case 2
        from keep_admissions_in [OF 2(1)] obtain cs where "(k, cs) \<in> set (gw_admissions g)" "x \<in> set cs" using 2(2) by auto
        then show ?thesis using ok(5) l by simp
      qed
    qed
    have tick: "live g' (te_tabId (snd e)) (te_epoch (snd e))" if "e \<in> set (gw_tickets g')" for e
      using that ok(4) [of e] by (simp add: g'(3) l)
    show ?thesis unfolding gw_ok_def using ok(1-3) tick adm by (auto simp: g'(1,2))
  qed
qed

lemma gw_spend_ok:
  assumes "gw_ok g" "gw_spend now key a g = (g', r)"
  shows "gw_ok g'"
proof -
  let ?f = "\<lambda>(k, items). (k, if k = key then remove1 a items else items)"
  have ad: "gw_admissions g' = filter (\<lambda>e. snd e \<noteq> [] \<or> fst e \<noteq> key) (map ?f (gw_admissions g))"
    and g': "gw_tabs g' = gw_tabs g" "gw_tabTokens g' = gw_tabTokens g" "gw_tickets g' = gw_tickets g"
    using assms(2) by (auto simp: gw_spend_def Let_def case_prod_beta split: option.splits)
  have "\<exists>bs. (k, bs) \<in> set (gw_admissions g) \<and> x \<in> set bs" if kx: "(k, as) \<in> set (gw_admissions g')" "x \<in> set as" for k as x
  proof -
    obtain bs where "(k, bs) \<in> set (gw_admissions g)" "as = bs \<or> as = remove1 a bs"
      using kx(1) by (auto simp: ad split: if_splits)
    then show ?thesis using kx(2) set_remove1_subset [of a bs] by blast
  qed
  then show ?thesis using gw_ok_shrink [OF assms(1) g'(1,2)] g'(3) by simp
qed

interpretation tabs: machine "gw_step c" gw_ok "\<lambda>_. True" for c
proof
  fix g e assume ok: "gw_ok g"
  show "gw_ok (gw_step c g e)"
  proof (cases e)
    case (Open now lease token ticket dest opts)
    then show ?thesis using gw_open_ok [OF ok prod.collapse [symmetric]] by simp
  next
    case (ApproveNavigation now lease navTicket token ticket challenge i ep)
    then show ?thesis using gw_approveNavigation_ok [OF ok prod.collapse [symmetric]] by simp
  next
    case (CloseTab i ep)
    then show ?thesis using gw_closeTab_ok [OF ok prod.collapse [symmetric]] by simp
  next
    case (CaptureNavigation now challenge dest verb payload ct token)
    then show ?thesis
      using ok gw_navs_ok by (auto simp: gw_capture_def Let_def case_prod_beta split: option.split)
  next
    case (Enter now q)
    then show ?thesis using gw_entry_ok [OF ok prod.collapse [symmetric]] by simp
  next
    case (Navigate now parent key)
    then show ?thesis using gw_spend_ok [OF ok prod.collapse [symmetric]] ok by (simp split: option.split)
  qed
qed

lemma gw_ok_empty: "gw_ok (gw_empty reg)"
  by (simp add: gw_ok_def gw_empty_def)

text \<open>C12. No stale tab anywhere: in every state the gateway reaches, tab identifiers are unique and at
  most 128 tabs are open, every routing token leads to the open tab it belongs to, and every entry
  ticket and every admission is for an open tab in its current epoch.\<close>

theorem tabs_never_stale:
  assumes "g = foldl (gw_step c) (gw_empty reg) es"
  shows "distinct (map tb_tabId (gw_tabs g)) \<and> length (gw_tabs g) \<le> 128 \<and>
    (\<forall>(k, t) \<in> set (gw_tabTokens g). k = tb_token t \<and> tab_get g (tb_tabId t) = Some t) \<and>
    (\<forall>e \<in> set (gw_tickets g). live g (te_tabId (snd e)) (te_epoch (snd e))) \<and>
    (\<forall>(k, as) \<in> set (gw_admissions g). \<forall>a \<in> set as. live g (ad_tabId a) (ad_epoch a))"
proof -
  have ok: "gw_ok g" unfolding assms by (rule tabs.run_inv [OF gw_ok_empty]) simp
  note p = gw_ok_parts [OF ok]
  have "k = tb_token t \<and> tab_get g (tb_tabId t) = Some t" if "(k, t) \<in> set (gw_tabTokens g)" for k t
    using p(3) [OF that] tab_get_unique [OF p(1)] by blast
  then show ?thesis using p by auto
qed

text \<open>The gateway of one open tab, for the witnesses.\<close>

definition demo_cfg :: gw_cfg where
  "demo_cfg = \<lparr>gc_platform = demo_platform,
     gc_realms = \<lparr>rc_uid = 7, rc_profile = ''p'', rc_secret = [1], rc_domain = ''d'', rc_port = [], rc_maxRecords = 5\<rparr>,
     gc_navs = nav_defaults, gc_href = id, gc_proxyUrl = (\<lambda>d c t. ''https://h''), gc_ingress = False\<rparr>"

definition demo_opts :: "int \<Rightarrow> open_opts" where
  "demo_opts ep = \<lparr>oo_sourceOrigin = None, oo_tabId = ''T'', oo_epoch = ep, oo_execution = None, oo_cross = False, oo_redirects = 0,
     oo_taint = ''same-origin'', oo_opener = Undefined\<rparr>"

definition demo_reg :: registry where "demo_reg = \<lparr>rg_records = [], rg_file = None\<rparr>"

lemma tabs_never_stale_witness:
  "length (gw_tabs (gw_step demo_cfg (gw_empty demo_reg) (Open 0 None ''tok'' ''tick'' ''https://x.a.com'' (demo_opts 1)))) \<le> 128"
  using tabs_never_stale [of _ demo_cfg demo_reg "[Open 0 None ''tok'' ''tick'' ''https://x.a.com'' (demo_opts 1)]"] by simp

lemma gw_commit_revokes:
  assumes "g' = gw_commit now ticket opts url u t g"
  shows "\<forall>e \<in> set (gw_tickets g'). te_tabId (snd e) = tb_tabId t \<longrightarrow> fst e = ticket"
    "\<forall>(k, as) \<in> set (gw_admissions g'). \<forall>a \<in> set as. ad_tabId a \<noteq> tb_tabId t"
  using assms by (auto simp: gw_commit_def Let_def drop_tickets_def dest!: keep_admissions_in)

lemma gw_entry_refused:
  assumes "\<forall>e. map_of (gw_tickets g) (er_ticket q) = Some e \<longrightarrow> False"
  shows "gw_entry c now q g = (g, None)"
  using assms by (auto simp: gw_entry_def split: option.split)

lemma entry_ticket_once:
  assumes "gw_entry c now q g = (g', Some loc)" "er_ticket q' = er_ticket q"
  shows "gw_entry c later q' g' = (g', None)"
proof (rule gw_entry_refused)
  from assms(1) show "\<forall>e. map_of (gw_tickets g') (er_ticket q') = Some e \<longrightarrow> False"
    by (cases rule: gw_entry_Some) (auto simp: assms(2) map_of_eq_None_iff dest!: map_of_SomeD)
qed

text \<open>C14. Reopening a tab revokes what it was given before: a successful \<open>open\<close> raises the epoch,
  leaves only its own entry ticket for the tab and no admission, and cancels every navigation
  captured in an earlier epoch, except one that is running or the approved one being executed; every
  other entry ticket of the tab is refused from then on, and its own is refused after one use.\<close>

theorem reopening_revokes:
  assumes "g = foldl (gw_step c) (gw_empty reg) es" "nav_ok ncfg (gw_navs g)"
    and "gw_open c now lease token ticket dest opts g = (g', Some ans)"
  shows "live g' (oo_tabId opts) (oo_epoch opts) \<and>
    (\<forall>ep. live g (oo_tabId opts) ep \<longrightarrow> ep < oo_epoch opts) \<and>
    (\<forall>e \<in> set (gw_tickets g'). te_tabId (snd e) = oo_tabId opts \<longrightarrow> fst e = ticket) \<and>
    (\<forall>(k, as) \<in> set (gw_admissions g'). \<forall>a \<in> set as. ad_tabId a \<noteq> oo_tabId opts) \<and>
    (\<forall>r \<in> set (ns_pending (gw_navs g')). nv_tabId r = oo_tabId opts \<and> nv_epoch r \<noteq> oo_epoch opts \<longrightarrow>
       nv_state r = DISPATCHING \<or>
       (\<exists>x. oo_execution opts = Some x \<and> map_option nv_challenge (nav_by_ticket (gw_navs g) (ex_ticket x)) = Some (nv_challenge r))) \<and>
    (\<forall>q g2 loc later q'. gw_entry c later q g' = (g2, Some loc) \<and> er_ticket q' = er_ticket q \<longrightarrow>
       (\<forall>z. gw_entry c z q' g2 = (g2, None)))"
  using assms(3)
proof (cases rule: gw_open_cases)
  case (opened t an url u g1)
  have ok: "gw_ok g" unfolding assms(1) by (rule tabs.run_inv [OF gw_ok_empty]) simp
  have g1: "gw_ok g1" by (rule gw_ok_shrink [OF ok]) (use opened in auto)
  have tg: "tab_get g1 = tab_get g" by (intro ext) (simp add: tab_get_def opened(8))
  note cp = gw_commit_parts [OF opened(7) g1] and rv = gw_commit_revokes [OF opened(7)]
  let ?x = "case oo_execution opts of None \<Rightarrow> None | Some x \<Rightarrow> map_option nv_challenge (nav_by_ticket (gw_navs g) (ex_ticket x))"
  have ns: "gw_navs g' = nav_cancel_if (\<lambda>r. nv_tabId r = oo_tabId opts \<and> nv_epoch r \<noteq> oo_epoch opts \<and> Some (nv_challenge r) \<noteq> ?x) (gw_navs g)"
    unfolding opened(7) gw_commit_def Let_def invalidateTab_def opened(2,3,11) by simp
  have "nv_state r = DISPATCHING \<or>
       (\<exists>x. oo_execution opts = Some x \<and> map_option nv_challenge (nav_by_ticket (gw_navs g) (ex_ticket x)) = Some (nv_challenge r))"
    if "r \<in> set (ns_pending (gw_navs g'))" "nv_tabId r = oo_tabId opts \<and> nv_epoch r \<noteq> oo_epoch opts" for r
  proof -
    have "nv_state r = DISPATCHING \<or> ?x = Some (nv_challenge r)"
      using that nav_cancel_if_ok(2) [OF assms(2) ns] by auto
    then show ?thesis by (cases "oo_execution opts") auto
  qed
  moreover have "live g' (oo_tabId opts) (oo_epoch opts)"
    using cp(2) [of "oo_tabId opts"] opened(2,3,6,8) by (simp add: live_def tg)
  moreover have "\<forall>ep. live g (oo_tabId opts) ep \<longrightarrow> ep < oo_epoch opts" using opened(5) by (auto simp: live_def)
  moreover have "\<forall>q g2 loc later q'. gw_entry c later q g' = (g2, Some loc) \<and> er_ticket q' = er_ticket q \<longrightarrow>
       (\<forall>z. gw_entry c z q' g2 = (g2, None))"
    using entry_ticket_once by blast
  ultimately show ?thesis using rv unfolding opened(2) by blast
qed simp

lemma demo_open:
  "\<exists>g' ans. gw_open demo_cfg 0 None ''tok'' ''tick'' ''https://x.a.com'' (demo_opts 1) (gw_empty demo_reg) = (g', Some ans)"
proof -
  let ?c = "\<lparr>cx_documentOrigin = ''https://x.a.com'', cx_topSite = ''https://a.com'', cx_tainted = False\<rparr>"
  have u: "upstreamUrl demo_platform ''https://x.a.com'' =
      Some \<lparr>u_protocol = ''https:'', u_username = [], u_password = [], u_hostname = ''x.a.com'', u_port = []\<rparr>"
    by (simp add: upstreamUrl_def demo_platform_def starts_with_def)
  have o: "u_origin \<lparr>u_protocol = ''https:'', u_username = [], u_password = [], u_hostname = ''x.a.com'', u_port = []\<rparr> = ''https://x.a.com''"
    by (simp add: u_origin_def u_host_def)
  have st: "site demo_platform ''https://a.com'' = Some ''https://a.com''" "site demo_platform ''https://x.a.com'' = Some ''https://a.com''"
    by (simp_all add: upstreamUrl_def site_def site_of_def demo_platform_def starts_with_def)
  have c: "mainContext demo_platform ''https://x.a.com'' = Some ?c" by (simp add: mainContext_def u o st)
  have "readContext demo_platform cfg (contextToken demo_platform cfg ?c) = Some ?c" for cfg
    by (rule readContext_ok [OF demo_token, where u = "\<lparr>u_protocol = ''https:'', u_username = [], u_password = [],
      u_hostname = ''x.a.com'', u_port = []\<rparr>"]) (simp_all add: demo_token_length u o st)
  then have d: "\<exists>r. describe demo_platform cfg ''https://x.a.com'' ?c = Some r \<and> (\<exists>x. rl_physical r = ''https://'' @ x \<and> x \<noteq> [])" for cfg
    by (simp add: describe_def u o physical_of_def realm_host_def)
  have p: "\<exists>v. pf_url demo_platform (''https://'' @ x) = Some v" if "x \<noteq> []" for x
    using that by (simp add: demo_platform_def starts_with_def)
  have "\<exists>z. register demo_platform (gc_realms demo_cfg) ''https://x.a.com'' ?c demo_reg = Some z"
    using d [of "gc_realms demo_cfg"] p by (fastforce simp: register_def demo_reg_def demo_cfg_def)
  then obtain r reg where "register demo_platform (gc_realms demo_cfg) ''https://x.a.com'' ?c demo_reg = Some (r, reg)" by fastforce
  then show ?thesis
    using c p [of "''h''"] unfolding gw_open_def Let_def
    by (auto simp: demo_cfg_def demo_opts_def gw_empty_def tab_get_def)
qed

lemma reopening_revokes_witness:
  "\<exists>g' ans. gw_open demo_cfg 0 None ''tok'' ''tick'' ''https://x.a.com'' (demo_opts 1) (gw_empty demo_reg) = (g', Some ans) \<and>
     live g' ''T'' 1 \<and> (\<forall>e \<in> set (gw_tickets g'). te_tabId (snd e) = ''T'' \<longrightarrow> fst e = ''tick'')"
proof -
  obtain g' ans where o: "gw_open demo_cfg 0 None ''tok'' ''tick'' ''https://x.a.com'' (demo_opts 1) (gw_empty demo_reg) = (g', Some ans)"
    using demo_open by blast
  have e: "gw_empty demo_reg = foldl (gw_step demo_cfg) (gw_empty demo_reg) []" by simp
  have "nav_ok nav_defaults (gw_navs (gw_empty demo_reg))"
    using nav_run_inv [OF nav_run.start] by (simp add: gw_empty_def)
  from reopening_revokes [OF e this o] o show ?thesis by (simp add: demo_opts_def)
qed

end
