(* ===== verification/BlHosts.thy ===== *)
theory BlHosts
  imports JsStr
begin

text \<open>
  \<^verbatim>\<open>browser-lite/proxy/adblock-list.cjs\<close> and the host list of \<^verbatim>\<open>gateway.cjs\<close>: which hosts are blocked as
  advertising, and which are Google's and get one fixed user agent.
\<close>

section \<open>The advertising hosts\<close>

definition BLOCK :: "string list" where
  "BLOCK = [
    ''doubleclick.net'', ''googlesyndication.com'', ''googleadservices.com'', ''google-analytics.com'',
    ''googletagmanager.com'', ''googletagservices.com'', ''2mdn.net'', ''app-measurement.com'',
    ''admob.com'', ''adnxs.com'', ''adsrvr.org'', ''rubiconproject.com'', ''pubmatic.com'', ''openx.net'',
    ''criteo.com'', ''criteo.net'', ''taboola.com'', ''outbrain.com'', ''scorecardresearch.com'',
    ''quantserve.com'', ''quantcount.com'', ''moatads.com'', ''adsafeprotected.com'',
    ''amazon-adsystem.com'', ''casalemedia.com'', ''3lift.com'', ''bidswitch.net'', ''smartadserver.com'',
    ''teads.tv'', ''sharethrough.com'', ''contextweb.com'', ''yieldmo.com'', ''gumgum.com'', ''indexww.com'',
    ''spotxchange.com'', ''spotx.tv'', ''districtm.io'', ''adform.net'', ''mathtag.com'', ''bluekai.com'',
    ''tapad.com'', ''crwdcntrl.net'', ''rlcdn.com'', ''agkn.com'', ''demdex.net'', ''everesttech.net'',
    ''adroll.com'', ''adsymptotic.com'', ''servedbyadbutler.com'', ''adzerk.net'', ''kargo.com'',
    ''nativo.com'', ''triplelift.com'', ''yieldlab.net'', ''improvedigital.com'', ''hotjar.com'',
    ''mixpanel.com'', ''segment.com'', ''segment.io'', ''fullstory.com'', ''mouseflow.com'',
    ''chartbeat.com'', ''chartbeat.net'', ''branch.io'', ''amplitude.com'', ''clarity.ms'',
    ''optimizely.com'', ''krxd.net'', ''exelator.com'', ''adcolony.com'', ''applovin.com'', ''inmobi.com'',
    ''mopub.com'', ''chartboost.com'', ''flurry.com'', ''bugsnag.com'', ''nr-data.net'', ''ads-twitter.com'',
    ''analytics.twitter.com'', ''connect.facebook.net'', ''onesignal.com'', ''pushcrew.com'',
    ''propellerads.com'', ''popads.net'', ''popcash.net'', ''revcontent.com'', ''mgid.com'', ''adblade.com'',
    ''zergnet.com'', ''media.net'', ''adtelligent.com'']"

definition NEVER :: "string list" where
  "NEVER = [
    ''googlevideo.com'', ''youtube.com'', ''youtube-nocookie.com'', ''ytimg.com'', ''ggpht.com'',
    ''google.com'', ''gstatic.com'', ''googleapis.com'', ''googleusercontent.com'', ''withgoogle.com'',
    ''gmail.com'']"

text \<open>Every suffix of the host that starts a label is looked up, the longest first.\<close>

fun suffix_from :: "char option \<Rightarrow> string \<Rightarrow> string list \<Rightarrow> bool" where
  "suffix_from prev [] S = False"
| "suffix_from prev (c # cs) S =
     (if (prev = None \<or> prev = Some (CHR ''.'')) \<and> c # cs \<in> set S then True else suffix_from (Some c) cs S)"

definition suffixMatch :: "string \<Rightarrow> string list \<Rightarrow> bool" where
  "suffixMatch host S = suffix_from None host S"

text \<open>\<open>replace\<close> of the trailing dots.\<close>

definition no_trailing_dots :: "string \<Rightarrow> string" where
  "no_trailing_dots h = rev (dropWhile (\<lambda>c. c = CHR ''.'') (rev h))"

definition blocks :: "string \<Rightarrow> bool" where
  "blocks host0 =
     (let host = no_trailing_dots (toLowerCase host0)
      in if host = [] \<or> CHR ''/'' \<in> set host then False
         else if suffixMatch host NEVER then False
         else suffixMatch host BLOCK)"

section \<open>Google's hosts\<close>

definition GOOGLE_UA_DOMAINS :: "string list" where
  "GOOGLE_UA_DOMAINS = [
    ''google.com'', ''youtube.com'', ''youtube-nocookie.com'', ''googleusercontent.com'', ''googleapis.com'',
    ''gstatic.com'', ''ggpht.com'', ''ytimg.com'', ''googlevideo.com'', ''gmail.com'', ''withgoogle.com'']"

definition GOOGLE_CLIENT_HINTS :: "string list" where
  "GOOGLE_CLIENT_HINTS = [
    ''sec-ch-ua'', ''sec-ch-ua-mobile'', ''sec-ch-ua-platform'', ''sec-ch-ua-platform-version'',
    ''sec-ch-ua-full-version'', ''sec-ch-ua-full-version-list'', ''sec-ch-ua-arch'', ''sec-ch-ua-model'',
    ''sec-ch-ua-bitness'', ''sec-ch-ua-wow64'', ''sec-ch-ua-form-factors'']"

definition ends_with :: "string \<Rightarrow> string \<Rightarrow> bool" where
  "ends_with s t \<longleftrightarrow> length t \<le> length s \<and> drop (length s - length t) s = t"

definition is_letter :: "char \<Rightarrow> bool" where
  "is_letter c \<longleftrightarrow> c \<in> set ''abcdefghijklmnopqrstuvwxyz''"

text \<open>
  \<open>(^|\.)google\.(com?\.)?[a-z]{2,3}$\<close>: the host is \<open>google.\<close>, an optional \<open>co.\<close> or \<open>com.\<close>, and a
  country's letters, at its start or after a dot.
\<close>

definition google_tail :: "string \<Rightarrow> bool" where
  "google_tail s \<longleftrightarrow>
     (\<exists>p \<in> set [''google.'', ''google.co.'', ''google.com.''].
        starts_with p s \<and> length (drop (length p) s) \<in> {2, 3} \<and> (\<forall>c \<in> set (drop (length p) s). is_letter c))"

fun google_country :: "char option \<Rightarrow> string \<Rightarrow> bool" where
  "google_country prev [] = False"
| "google_country prev (c # cs) =
     ((prev = None \<or> prev = Some (CHR ''.'')) \<and> google_tail (c # cs) \<or> google_country (Some c) cs)"

definition isGoogleHost :: "string \<Rightarrow> bool" where
  "isGoogleHost host0 =
     (let h = toLowerCase host0;
          host = (if h \<noteq> [] \<and> last h = CHR ''.'' then butlast h else h)
      in google_country None host \<or> (\<exists>d \<in> set GOOGLE_UA_DOMAINS. host = d \<or> ends_with host (CHR ''.'' # d)))"

section \<open>What the lists decide\<close>

text \<open>A host is under a domain when it is the domain or ends with a dot and the domain.\<close>

definition under :: "string \<Rightarrow> string \<Rightarrow> bool" where
  "under host d \<longleftrightarrow> host = d \<or> ends_with host (CHR ''.'' # d)"

lemma suffix_from_iff:
  "suffix_from prev s S \<longleftrightarrow>
     (\<exists>i < length s. drop i s \<in> set S \<and> (if i = 0 then prev = None \<or> prev = Some (CHR ''.'') else s ! (i - 1) = CHR ''.''))"
proof (induction s arbitrary: prev)
  case Nil
  then show ?case by simp
next
  case (Cons c cs)
  have "(\<exists>i < length (c # cs). drop i (c # cs) \<in> set S \<and>
        (if i = 0 then prev = None \<or> prev = Some (CHR ''.'') else (c # cs) ! (i - 1) = CHR ''.'')) \<longleftrightarrow>
      (c # cs \<in> set S \<and> (prev = None \<or> prev = Some (CHR ''.''))) \<or>
      (\<exists>i < length cs. drop i cs \<in> set S \<and> (c # cs) ! i = CHR ''.'')"
    by (subst less_Suc_eq_0_disj [of _ "length cs", folded length_Cons [of c cs]]) auto
  moreover have "(\<exists>i < length cs. drop i cs \<in> set S \<and> (c # cs) ! i = CHR ''.'') \<longleftrightarrow> suffix_from (Some c) cs S"
    unfolding Cons.IH [of "Some c"] by (auto simp: nth_Cons' split: if_splits)
  ultimately show ?case by auto
qed

lemma suffixMatch_iff: "[] \<notin> set S \<Longrightarrow> suffixMatch host S \<longleftrightarrow> (\<exists>d \<in> set S. under host d)"
  unfolding suffixMatch_def suffix_from_iff
proof
  assume ne: "[] \<notin> set S"
  { assume "\<exists>i < length host. drop i host \<in> set S \<and> (if i = 0 then None = None \<or> None = Some (CHR ''.'') else host ! (i - 1) = CHR ''.'')"
    then obtain i where i: "i < length host" "drop i host \<in> set S" "i = 0 \<or> host ! (i - 1) = CHR ''.''" by (auto split: if_splits)
    have "under host (drop i host)"
    proof (cases i)
      case 0
      then show ?thesis by (simp add: under_def)
    next
      case (Suc j)
      then have "drop j host = CHR ''.'' # drop i host" using i Cons_nth_drop_Suc [of j host] by simp
      moreover have "Suc (length host - i) \<le> length host" "length host - Suc (length host - i) = j" using i(1) Suc by linarith+
      ultimately show ?thesis by (simp add: under_def ends_with_def)
    qed
    then show "\<exists>d \<in> set S. under host d" using i(2) by blast }
  { assume "\<exists>d \<in> set S. under host d"
    then obtain d where d: "d \<in> set S" "under host d" by blast
    have dn: "d \<noteq> []" using d(1) ne by auto
    show "\<exists>i < length host. drop i host \<in> set S \<and> (if i = 0 then None = None \<or> None = Some (CHR ''.'') else host ! (i - 1) = CHR ''.'')"
    proof (cases "host = d")
      case True
      then show ?thesis using d dn by (intro exI [of _ 0]) simp
    next
      case False
      then have e: "Suc (length d) \<le> length host" "drop (length host - Suc (length d)) host = CHR ''.'' # d"
        using d(2) by (simp_all add: under_def ends_with_def)
      define j where "j = length host - Suc (length d)"
      have j: "j < length host" "drop j host = CHR ''.'' # d" using e by (simp_all add: j_def)
      then have "host ! j = CHR ''.''" "drop (Suc j) host = d"
        using Cons_nth_drop_Suc [of j host] by simp_all
      moreover have "Suc j < length host" using e dn by (cases d) (simp_all add: j_def)
      ultimately show ?thesis using d by (intro exI [of _ "Suc j"]) simp
    qed }
qed

text \<open>The ad blocker's decision is exactly the lists': a host is blocked when, without its trailing
  dots and its case, it lies under a listed advertising domain and under no domain of the Google
  family, so a careless entry in the list cannot break Google's own hosts.\<close>

lemma blocks_iff_listed:
  "blocks h \<longleftrightarrow>
     (let host = no_trailing_dots (toLowerCase h)
      in CHR ''/'' \<notin> set host \<and> (\<exists>d \<in> set BLOCK. under host d) \<and> \<not> (\<exists>d \<in> set NEVER. under host d))"
proof -
  have ne: "[] \<notin> set BLOCK" "[] \<notin> set NEVER" by (simp_all add: BLOCK_def NEVER_def)
  have u: "\<not> under [] d" if "d \<noteq> []" for d using that by (simp add: under_def ends_with_def)
  have "\<not> (\<exists>d \<in> set BLOCK. under [] d)" using ne(1) u by metis
  then show ?thesis by (auto simp: blocks_def Let_def suffixMatch_iff [OF ne(1)] suffixMatch_iff [OF ne(2)])
qed

end
