(* ===== verification/BlCookies.thy ===== *)
theory BlCookies
  imports BlRealm BlHosts
begin

text \<open>
  Cookies and response headers of a realm: \<^verbatim>\<open>cookie-policy.cjs\<close>, \<^verbatim>\<open>sync-cookie-policy.cjs\<close>,
  \<^verbatim>\<open>redirect-policy.cjs\<close>, \<^verbatim>\<open>cache-policy.cjs\<close> and the helpers of \<^verbatim>\<open>origin-policy.cjs\<close>. What the
  cookie jar of the engine answers is an argument.
\<close>

section \<open>Sites\<close>

definition cookie_site :: "platform \<Rightarrow> string \<Rightarrow> string" where
  "cookie_site P h = (case pf_suffix P h of None \<Rightarrow> h | Some d \<Rightarrow> if d = [] then h else d)"

definition sameSite :: "platform \<Rightarrow> string \<Rightarrow> string \<Rightarrow> bool" where
  "sameSite P a b =
     (case (pf_url P a, pf_url P b) of
        (Some u, Some v) \<Rightarrow> u_protocol u = u_protocol v \<and> cookie_site P (u_hostname u) = cookie_site P (u_hostname v)
      | _ \<Rightarrow> False)"

section \<open>The view of a cookie jar\<close>

datatype credentials = Include | SameOrigin | Omit

definition useCookieJar :: "string \<Rightarrow> credentials \<Rightarrow> string \<Rightarrow> string \<Rightarrow> bool" where
  "useCookieJar role cred sourceOrigin targetOrigin =
     (if role \<noteq> ''auth'' \<or> cred = Omit then False else cred \<noteq> SameOrigin \<or> sourceOrigin = targetOrigin)"

record cookie =
  ck_string :: string
  ck_sameSite :: string
  ck_secure :: bool

record view_opts =
  vo_role :: string
  vo_credentials :: credentials
  vo_source :: string
  vo_target :: string
  vo_navigation :: bool
  vo_method :: string
  vo_context :: "string option"

definition view_allowed :: "view_opts \<Rightarrow> bool" where
  "view_allowed v = useCookieJar (vo_role v) (vo_credentials v) (vo_source v) (vo_target v)"

definition view_context :: "platform \<Rightarrow> view_opts \<Rightarrow> string" where
  "view_context P v =
     (case vo_context v of
        Some c \<Rightarrow> c
      | None \<Rightarrow> if sameSite P (vo_source v) (vo_target v) then ''strict''
                else if vo_navigation v \<and> vo_method v \<in> {''GET'', ''HEAD''} then ''lax'' else ''none'')"

text \<open>A context that is none of the three names is refused when the view is made.\<close>

definition cookieView :: "view_opts \<Rightarrow> string + view_opts" where
  "cookieView v =
     (case vo_context v of
        Some c \<Rightarrow> if c \<in> {''strict'', ''lax'', ''none''} then Inr v else Inl ''Invalid cookie context''
      | None \<Rightarrow> Inr v)"

definition join_cookies :: "cookie list \<Rightarrow> string" where
  "join_cookies cs = js_join ''; '' (map ck_string cs)"

text \<open>\<open>jar http ctx\<close> is what the jar holds for the address in a SameSite context; None is null.\<close>

definition getHeader :: "platform \<Rightarrow> view_opts \<Rightarrow> (bool \<Rightarrow> string \<Rightarrow> cookie list) \<Rightarrow> string option" where
  "getHeader P v jar =
     (if \<not> view_allowed v then None
      else let ctx = view_context P v; s = join_cookies (filter (\<lambda>k. ctx \<noteq> ''none'' \<or> ck_sameSite k = ''none'') (jar True ctx))
           in if s = [] then None else Some s)"

definition setByServer :: "platform \<Rightarrow> view_opts \<Rightarrow> (string \<Rightarrow> cookie option) \<Rightarrow> string list \<Rightarrow> string list" where
  "setByServer P v parse values =
     (if \<not> view_allowed v then []
      else let ctx = view_context P v
           in filter (\<lambda>x. case parse x of
                None \<Rightarrow> False
              | Some k \<Rightarrow> (ck_sameSite k \<noteq> ''none'' \<or> ck_secure k) \<and>
                          (ctx \<noteq> ''none'' \<or> vo_navigation v \<or> ck_sameSite k = ''none'')) values)"

definition getClientString :: "platform \<Rightarrow> view_opts \<Rightarrow> (bool \<Rightarrow> string \<Rightarrow> cookie list) \<Rightarrow> string" where
  "getClientString P v jar =
     (if view_allowed v
      then let ctx = view_context P v
           in join_cookies (filter (\<lambda>k. ctx \<noteq> ''none'' \<or> ck_sameSite k = ''none'') (jar False ctx))
      else [])"

text \<open>The credential cookie of a request, when there is exactly one.\<close>

definition named_cookies :: "string \<Rightarrow> string \<Rightarrow> string list" where
  "named_cookies header name = filter (starts_with (name @ ''='')) (map js_trim (js_split (CHR '';'') header))"

definition uniqueCookie :: "string \<Rightarrow> string \<Rightarrow> string option" where
  "uniqueCookie header name =
     (case named_cookies header name of [v] \<Rightarrow> Some (drop (length name + 1) v) | _ \<Rightarrow> None)"

section \<open>Sync cookies\<close>

definition is_sync :: "string \<Rightarrow> bool" where
  "is_sync name \<longleftrightarrow> starts_with ''__Host-s|'' name \<or> starts_with ''__Host-c|'' name"

definition domainMatches :: "string \<Rightarrow> string \<Rightarrow> bool" where
  "domainMatches host d0 =
     (let d = toLowerCase (if d0 \<noteq> [] \<and> hd d0 = CHR ''.'' then tl d0 else d0)
      in d \<noteq> [] \<and> (host = d \<or> ends_with host (CHR ''.'' # d)))"

text \<open>\<open>decode\<close> is \<open>decodeURIComponent\<close>, None where it throws.\<close>

definition syncCookieDomain :: "(string \<Rightarrow> string option) \<Rightarrow> string \<Rightarrow> string" where
  "syncCookieDomain decode name =
     (let parts = js_split (CHR ''|'') (drop 7 name)
      in case decode (if length parts > 3 then parts ! 3 else []) of None \<Rightarrow> [] | Some d \<Rightarrow> d)"

definition readable :: "platform \<Rightarrow> (string \<Rightarrow> string option) \<Rightarrow> string \<Rightarrow> realm \<Rightarrow> bool" where
  "readable P decode name r =
     (if rl_resourceOnly r \<or> cookieContext P r \<noteq> ''strict'' then False
      else case pf_url P (rl_origin r) of
        None \<Rightarrow> False
      | Some u \<Rightarrow> domainMatches (toLowerCase (u_hostname u)) (syncCookieDomain decode name))"

definition EXPIRED :: string where "EXPIRED = ''=;path=/;Secure;expires=Thu, 01 Jan 1970 00:00:01 GMT''"

definition cookie_name :: "string \<Rightarrow> string" where "cookie_name line = hd (js_split (CHR ''='') line)"

fun has_sub :: "string \<Rightarrow> string \<Rightarrow> bool" where
  "has_sub pat [] \<longleftrightarrow> pat = []"
| "has_sub pat (c # cs) \<longleftrightarrow> starts_with pat (c # cs) \<or> has_sub pat cs"

definition sync_kept :: "platform \<Rightarrow> (string \<Rightarrow> string option) \<Rightarrow> realm \<Rightarrow> string \<Rightarrow> bool" where
  "sync_kept P decode r line \<longleftrightarrow>
     \<not> is_sync (cookie_name line) \<or> has_sub ''expires=Thu, 01 Jan 1970'' line \<or> readable P decode (cookie_name line) r"

fun expire_stale :: "platform \<Rightarrow> (string \<Rightarrow> string option) \<Rightarrow> realm \<Rightarrow> string list \<Rightarrow> string list \<Rightarrow> string list" where
  "expire_stale P decode r [] sending = []"
| "expire_stale P decode r (part # ps) sending =
     (let name = cookie_name (js_trim part)
      in if is_sync name \<and> \<not> readable P decode name r \<and> name \<notin> set sending
         then (name @ EXPIRED) # expire_stale P decode r ps (name # sending)
         else expire_stale P decode r ps sending)"

definition realmSyncCookies ::
  "platform \<Rightarrow> (string \<Rightarrow> string option) \<Rightarrow> string list \<Rightarrow> realm \<Rightarrow> string \<Rightarrow> string list" where
  "realmSyncCookies P decode out r cookieHeader =
     (let kept = filter (sync_kept P decode r) out
      in kept @ expire_stale P decode r (js_split (CHR '';'') cookieHeader) (map cookie_name kept))"

section \<open>Redirects and fetch metadata\<close>

text \<open>Both addresses come from a navigation that was parsed, so \<open>new URL\<close> does not throw on them.\<close>

definition url_origin_of :: "platform \<Rightarrow> string \<Rightarrow> string" where
  "url_origin_of P s = (case pf_url P s of None \<Rightarrow> [] | Some u \<Rightarrow> u_origin u)"

definition redirectTaint :: "platform \<Rightarrow> string \<Rightarrow> string \<Rightarrow> string \<Rightarrow> string \<Rightarrow> string" where
  "redirectTaint P prior initiator previous nxt =
     (if prior = ''cross-site'' then prior
      else let from_o = url_origin_of P previous; to_o = url_origin_of P nxt
           in if \<not> sameSite P from_o to_o \<and> \<not> sameSite P initiator from_o then ''cross-site''
              else if from_o \<noteq> to_o \<and> initiator \<noteq> from_o then ''same-site'' else prior)"

text \<open>What a navigation carries: its source (None for null), and what its redirects did.\<close>

record nav_info =
  ni_source :: "string option"
  ni_cross :: bool
  ni_taint :: string

definition navigationFetchSite :: "platform \<Rightarrow> nav_info option \<Rightarrow> string \<Rightarrow> string \<Rightarrow> string" where
  "navigationFetchSite P n source target =
     (case n of
        Some i \<Rightarrow>
          if ni_source i = None then ''none''
          else if ni_cross i \<or> ni_taint i = ''cross-site'' then ''cross-site''
          else if \<not> sameSite P source target then ''cross-site''
          else if source = target \<and> ni_taint i \<noteq> ''same-site'' then ''same-origin'' else ''same-site''
      | None \<Rightarrow> if \<not> sameSite P source target then ''cross-site''
                else if source = target then ''same-origin'' else ''same-site'')"

definition mainFrameFetchDest :: "string \<Rightarrow> string \<Rightarrow> bool \<Rightarrow> string" where
  "mainFrameFetchDest dest mode nested = (if dest = ''iframe'' \<and> mode = ''navigate'' \<and> \<not> nested then ''document'' else dest)"

section \<open>Caching\<close>

definition cache_directive :: "string \<Rightarrow> bool" where
  "cache_directive p \<longleftrightarrow> \<not> (toLowerCase p \<in> {''public'', ''private''} \<or> starts_with ''s-maxage='' (toLowerCase p))"

definition realmCacheControl :: "string \<Rightarrow> bool \<Rightarrow> string" where
  "realmCacheControl upstream doc =
     (if doc then ''no-store''
      else let ds = filter (\<lambda>p. p \<noteq> []) (map js_trim (js_split (CHR '','') upstream))
           in if \<exists>p \<in> set ds. toLowerCase p = ''no-store'' then ''no-store''
              else js_join '', '' (''private'' # filter cache_directive ds))"

section \<open>What the policies promise\<close>

text \<open>The relay role never sees or sets a cookie, and a third-party context only sees SameSite=None ones.\<close>

lemma relay_sees_no_cookie:
  "vo_role v \<noteq> ''auth'' \<Longrightarrow> getHeader P v jar = None \<and> setByServer P v parse values = [] \<and> getClientString P v jar = []"
  by (simp add: getHeader_def setByServer_def getClientString_def view_allowed_def useCookieJar_def)

lemma view_context_known:
  assumes "cookieView v = Inr w"
  shows "view_context P w \<in> {''strict'', ''lax'', ''none''}"
proof (cases "vo_context v")
  case None
  then show ?thesis using assms by (simp add: cookieView_def view_context_def)
next
  case (Some c)
  then show ?thesis using assms by (simp only: cookieView_def view_context_def option.case split: if_splits) auto
qed

lemma third_party_header:
  assumes "getHeader P v jar = Some h" "view_context P v = ''none''"
  shows "h = join_cookies (filter (\<lambda>k. ck_sameSite k = ''none'') (jar True ''none''))"
  using assms by (auto simp: getHeader_def Let_def split: if_splits)

text \<open>Redirects only ever make the serialized origin worse.\<close>

definition taint_rank :: "string \<Rightarrow> nat" where
  "taint_rank t = (if t = ''cross-site'' then 2 else if t = ''same-site'' then 1 else 0)"

lemma redirectTaint_monotone:
  "taint_rank prior \<le> taint_rank (redirectTaint P prior i a b)"
  by (simp add: redirectTaint_def taint_rank_def Let_def)

lemma expire_stale_names:
  "n \<in> set (expire_stale P decode r ps sending) \<Longrightarrow>
     \<exists>part \<in> set ps. n = cookie_name (js_trim part) @ EXPIRED \<and> is_sync (cookie_name (js_trim part)) \<and>
       \<not> readable P decode (cookie_name (js_trim part)) r"
  by (induction ps arbitrary: sending) (auto simp: Let_def split: if_splits)

lemma expire_stale_all:
  "part \<in> set ps \<Longrightarrow> is_sync (cookie_name (js_trim part)) \<Longrightarrow> \<not> readable P decode (cookie_name (js_trim part)) r \<Longrightarrow>
     cookie_name (js_trim part) @ EXPIRED \<in> set (expire_stale P decode r ps sending) \<or> cookie_name (js_trim part) \<in> set sending"
proof (induction ps arbitrary: sending)
  case (Cons a ps)
  show ?case
  proof (cases "part = a")
    case True
    then show ?thesis using Cons.prems by (simp add: Let_def)
  next
    case False
    then have p: "part \<in> set ps" using Cons.prems(1) by simp
    show ?thesis
      using Cons.IH [OF p Cons.prems(2,3), of "cookie_name (js_trim a) # sending"] Cons.IH [OF p Cons.prems(2,3), of sending]
      by (auto simp: Let_def)
  qed
qed simp

text \<open>A realm is only sent the sync cookies it can read: what is set for it and is not an expiry
  is an ordinary cookie or one its own document can read, and every sync cookie the browser still
  carries that the realm cannot read is expired, unless the response sets or expires it already.\<close>

lemma sync_cookies_readable:
  "(\<forall>line \<in> set (realmSyncCookies P decode out r hdr).
      (line \<in> set out \<and> (\<not> is_sync (cookie_name line) \<or> has_sub ''expires=Thu, 01 Jan 1970'' line
         \<or> \<not> rl_resourceOnly r \<and> cookieContext P r = ''strict'' \<and> readable P decode (cookie_name line) r)) \<or>
      (\<exists>name. line = name @ EXPIRED \<and> is_sync name \<and> \<not> readable P decode name r)) \<and>
   (\<forall>part \<in> set (js_split (CHR '';'') hdr).
      is_sync (cookie_name (js_trim part)) \<and> \<not> readable P decode (cookie_name (js_trim part)) r \<longrightarrow>
        cookie_name (js_trim part) @ EXPIRED \<in> set (realmSyncCookies P decode out r hdr) \<or>
        (\<exists>line \<in> set out. cookie_name line = cookie_name (js_trim part) \<and> has_sub ''expires=Thu, 01 Jan 1970'' line))"
proof (intro conjI ballI impI)
  fix line assume "line \<in> set (realmSyncCookies P decode out r hdr)"
  then consider "line \<in> set out" "sync_kept P decode r line"
    | "line \<in> set (expire_stale P decode r (js_split (CHR '';'') hdr) (map cookie_name (filter (sync_kept P decode r) out)))"
    unfolding realmSyncCookies_def Let_def by auto
  then show "(line \<in> set out \<and> (\<not> is_sync (cookie_name line) \<or> has_sub ''expires=Thu, 01 Jan 1970'' line
         \<or> \<not> rl_resourceOnly r \<and> cookieContext P r = ''strict'' \<and> readable P decode (cookie_name line) r)) \<or>
      (\<exists>name. line = name @ EXPIRED \<and> is_sync name \<and> \<not> readable P decode name r)"
  proof cases
    case 1
    have "readable P decode (cookie_name line) r \<Longrightarrow> \<not> rl_resourceOnly r \<and> cookieContext P r = ''strict''"
      unfolding readable_def by (cases "rl_resourceOnly r \<or> cookieContext P r \<noteq> ''strict''") simp_all
    then show ?thesis using 1 unfolding sync_kept_def by blast
  next
    case 2
    from expire_stale_names [OF this] show ?thesis by blast
  qed
next
  fix part assume p: "part \<in> set (js_split (CHR '';'') hdr)"
    and s: "is_sync (cookie_name (js_trim part)) \<and> \<not> readable P decode (cookie_name (js_trim part)) r"
  let ?n = "cookie_name (js_trim part)"
  from expire_stale_all [OF p conjunct1 [OF s] conjunct2 [OF s], of "map cookie_name (filter (sync_kept P decode r) out)"]
  consider "?n @ EXPIRED \<in> set (expire_stale P decode r (js_split (CHR '';'') hdr) (map cookie_name (filter (sync_kept P decode r) out)))"
    | line where "line \<in> set out" "sync_kept P decode r line" "cookie_name line = ?n" by auto
  then show "?n @ EXPIRED \<in> set (realmSyncCookies P decode out r hdr) \<or>
        (\<exists>line \<in> set out. cookie_name line = ?n \<and> has_sub ''expires=Thu, 01 Jan 1970'' line)"
  proof cases
    case 1
    then show ?thesis by (simp add: realmSyncCookies_def Let_def)
  next
    case 2
    then show ?thesis using s unfolding sync_kept_def by metis
  qed
qed

lemma sync_cookies_readable_witness:
  "let P = \<lparr>pf_url = (\<lambda>s. None), pf_isIP = (\<lambda>h. False), pf_suffix = (\<lambda>h. None), pf_hmac = (\<lambda>k m. []), pf_b64 = (\<lambda>b. []),
           pf_unb64 = (\<lambda>s. []), pf_data = (\<lambda>c. []), pf_undata = (\<lambda>d. None)\<rparr>;
       r = \<lparr>rl_origin = [], rl_context = \<lparr>cx_documentOrigin = [], cx_topSite = [], cx_tainted = True\<rparr>, rl_physical = [], rl_resourceOnly = True\<rparr>
   in ''__Host-s|a'' @ EXPIRED \<in> set (realmSyncCookies P Some [] r ''__Host-s|a=1'')"
proof -
  let ?P = "\<lparr>pf_url = (\<lambda>s. None), pf_isIP = (\<lambda>h. False), pf_suffix = (\<lambda>h. None), pf_hmac = (\<lambda>k m. []), pf_b64 = (\<lambda>b. []),
           pf_unb64 = (\<lambda>s. []), pf_data = (\<lambda>c. []), pf_undata = (\<lambda>d. None)\<rparr>"
  let ?r = "\<lparr>rl_origin = [], rl_context = \<lparr>cx_documentOrigin = [], cx_topSite = [], cx_tainted = True\<rparr>, rl_physical = [], rl_resourceOnly = True\<rparr>"
  have sp: "js_split (CHR '';'') ''__Host-s|a=1'' = [''__Host-s|a=1'']" by simp
  have t: "cookie_name (js_trim ''__Host-s|a=1'') = ''__Host-s|a''" by code_simp
  have "is_sync ''__Host-s|a''" "\<not> readable ?P Some ''__Host-s|a'' ?r" by (simp_all add: is_sync_def starts_with_def readable_def)
  then have bad: "is_sync (cookie_name (js_trim ''__Host-s|a=1'')) \<and> \<not> readable ?P Some (cookie_name (js_trim ''__Host-s|a=1'')) ?r"
    unfolding t by blast
  have "\<forall>part \<in> set [''__Host-s|a=1''].
      is_sync (cookie_name (js_trim part)) \<and> \<not> readable ?P Some (cookie_name (js_trim part)) ?r \<longrightarrow>
        cookie_name (js_trim part) @ EXPIRED \<in> set (realmSyncCookies ?P Some [] ?r ''__Host-s|a=1'') \<or>
        (\<exists>line \<in> set []. cookie_name line = cookie_name (js_trim part) \<and> has_sub ''expires=Thu, 01 Jan 1970'' line)"
    by (rule conjunct2 [OF sync_cookies_readable [of ?P Some "[]" ?r "''__Host-s|a=1''"], unfolded sp])
  from bspec [OF this, of "''__Host-s|a=1''"] bad
  have "cookie_name (js_trim ''__Host-s|a=1'') @ EXPIRED \<in> set (realmSyncCookies ?P Some [] ?r ''__Host-s|a=1'')"
    by (simp only: list.set insert_iff empty_iff bex_simps) blast
  then show ?thesis unfolding t Let_def .
qed

end
