(* ===== verification/BlControl.thy ===== *)
theory BlControl
  imports BlTabs
begin

text \<open>
  \<^verbatim>\<open>browser-lite/proxy/control-ledger.cjs\<close>, and the command dispatch of \<^verbatim>\<open>gateway.cjs\<close> it calls:
  one lane of numbered commands per toolbar tab, whose last outcome is kept so that a repeated
  request is answered and not performed again. Every tab, ticket and identifier the gateway draws
  at random is an argument.
\<close>

section \<open>The commands\<close>

record control_body =
  cb_url :: string
  cb_tabId :: "string option"
  cb_epoch :: "int option"
  cb_opener :: opener
  cb_challenge :: string

datatype control_result = Entry opened | Closed

text \<open>\<open>Refused\<close> stands for every error of \<open>open\<close>, \<open>approveNavigation\<close> and \<open>closeTab\<close>.\<close>

datatype control_error =
    InvalidOperation | TabExpired | SessionMismatch | OperationChanged | StaleOperation | TabChanged
  | UnknownCommand | Refused

record draws =
  dr_tabId :: string
  dr_token :: string
  dr_ticket :: string
  dr_navTicket :: string

fun refused_or :: "gateway \<times> opened option \<Rightarrow> gateway \<times> (control_error + control_result)" where
  "refused_or (g, None) = (g, Inl Refused)"
| "refused_or (g, Some o') = (g, Inr (Entry o'))"

definition body_tab :: "control_body \<Rightarrow> gateway \<Rightarrow> tab option" where
  "body_tab b g = Option.bind (cb_tabId b) (tab_get g)"

definition gw_perform ::
  "gw_cfg \<Rightarrow> int \<Rightarrow> draws \<Rightarrow> string option \<Rightarrow> string \<Rightarrow> control_body \<Rightarrow> gateway \<Rightarrow>
   gateway \<times> (control_error + control_result)" where
  "gw_perform c now d lease command b g =
     (if gc_ingress c \<and> (case body_tab b g of None \<Rightarrow> False | Some t \<Rightarrow> tb_lease t \<noteq> lease)
      then (g, Inl SessionMismatch)
      else if command = ''open''
      then refused_or (gw_open c now lease (dr_token d) (dr_ticket d) (cb_url b)
             \<lparr>oo_sourceOrigin = None, oo_tabId = (case cb_tabId b of None \<Rightarrow> dr_tabId d | Some i \<Rightarrow> i),
              oo_epoch = (case cb_epoch b of None \<Rightarrow> 1 | Some e \<Rightarrow> e), oo_execution = None, oo_cross = False,
              oo_redirects = 0, oo_taint = ''same-origin'', oo_opener = cb_opener b\<rparr> g)
      else if command = ''approve''
      then (case (cb_tabId b, cb_epoch b) of
              (Some i, Some e) \<Rightarrow>
                refused_or (gw_approveNavigation c now lease (dr_navTicket d) (dr_token d) (dr_ticket d) (cb_challenge b) i e g)
            | _ \<Rightarrow> (g, Inl Refused))
      else if command = ''close''
      then (case (cb_tabId b, cb_epoch b) of
              (Some i, Some e) \<Rightarrow> (case gw_closeTab i e g of (g', done) \<Rightarrow> (g', if done then Inr Closed else Inl Refused))
            | _ \<Rightarrow> (g, Inl Refused))
      else (g, Inl UnknownCommand))"

text \<open>A lane that goes closes its tab, in whatever epoch it is.\<close>

definition lane_expire :: "string option \<Rightarrow> gateway \<Rightarrow> gateway" where
  "lane_expire i g =
     (case Option.bind i (tab_get g) of None \<Rightarrow> g | Some t \<Rightarrow> fst (gw_closeTab (tb_tabId t) (tb_epoch t) g))"

section \<open>The lanes\<close>

text \<open>\<open>ln_outcome\<close> is the lane's \<open>error\<close> or \<open>result\<close>; it and the fingerprint are None before the first command.\<close>

record lane =
  ln_operation :: int
  ln_tabId :: "string option"
  ln_owner :: "string option"
  ln_expires :: int
  ln_fingerprint :: "string option"
  ln_outcome :: "(control_error + control_result) option"
  ln_closed :: bool

record ledger_cfg =
  lc_gateway :: gw_cfg
  lc_fingerprint :: "string \<Rightarrow> control_body \<Rightarrow> string"
  lc_ttl :: int
  lc_limit :: nat

type_synonym control_state = "(string \<times> lane) list \<times> gateway"

definition lane_put :: "string \<Rightarrow> lane \<Rightarrow> (string \<times> lane) list \<Rightarrow> (string \<times> lane) list" where
  "lane_put cid l ls = map (\<lambda>(k, x). (k, if k = cid then l else x)) ls"

definition ledger_drop :: "(string \<times> lane \<Rightarrow> bool) \<Rightarrow> control_state \<Rightarrow> control_state" where
  "ledger_drop bad s =
     (filter (\<lambda>e. \<not> bad e) (fst s), fold (\<lambda>e. lane_expire (ln_tabId (snd e))) (filter bad (fst s)) (snd s))"

definition ledger_collect :: "int \<Rightarrow> control_state \<Rightarrow> control_state" where
  "ledger_collect now s = ledger_drop (\<lambda>e. ln_expires (snd e) \<le> now) s"

definition ledger_revoke :: "string option \<Rightarrow> control_state \<Rightarrow> control_state" where
  "ledger_revoke owner s = ledger_drop (\<lambda>e. ln_owner (snd e) = owner) s"

definition oldest_lane :: "(string \<times> lane) list \<Rightarrow> string \<times> lane" where
  "oldest_lane es = foldl (\<lambda>o' e. if ln_expires (snd e) < ln_expires (snd o') then e else o') (hd es) (tl es)"

definition ledger_evict :: "(string \<times> lane) list \<Rightarrow> control_state \<Rightarrow> control_state" where
  "ledger_evict es s =
     (let (id, l) = oldest_lane es in (filter (\<lambda>e. fst e \<noteq> id) (fst s), lane_expire (ln_tabId l) (snd s)))"

definition valid_client :: "string \<Rightarrow> bool" where
  "valid_client cid \<longleftrightarrow> length cid = 36 \<and> (\<forall>ch \<in> set cid. ch \<in> set ''abcdef0123456789-'')"

text \<open>The lane of a client, opened by its first command; None where another command finds none.\<close>

definition ledger_lane ::
  "ledger_cfg \<Rightarrow> string \<Rightarrow> int \<Rightarrow> string option \<Rightarrow> string option \<Rightarrow> control_state \<Rightarrow> (lane \<times> control_state) option" where
  "ledger_lane c cid op i owner s =
     (case map_of (fst s) cid of
        Some l \<Rightarrow> Some (l, s)
      | None \<Rightarrow>
          if op \<noteq> 1 then None
          else let live_lanes = filter (\<lambda>e. \<not> ln_closed (snd e)) (fst s);
                   s1 = (if lc_limit c \<le> length live_lanes then ledger_evict live_lanes s else s);
                   s2 = (if 4096 \<le> length (fst s1) then ledger_evict (fst s1) s1 else s1);
                   l = \<lparr>ln_operation = 0, ln_tabId = i, ln_owner = owner, ln_expires = 0, ln_fingerprint = None,
                        ln_outcome = None, ln_closed = False\<rparr>
               in Some (l, (fst s2 @ [(cid, l)], snd s2)))"

datatype verdict = Deny control_error | Replay "control_error + control_result" | Perform

definition judge :: "lane \<Rightarrow> int \<Rightarrow> string \<Rightarrow> string option \<Rightarrow> verdict" where
  "judge l op fp i =
     (if op = ln_operation l
      then if ln_fingerprint l \<noteq> Some fp then Deny OperationChanged
           else (case ln_outcome l of None \<Rightarrow> Deny OperationChanged | Some out \<Rightarrow> Replay out)
      else if op \<noteq> ln_operation l + 1 then Deny StaleOperation
      else if present (ln_tabId l) \<and> i \<noteq> ln_tabId l then Deny TabChanged
      else Perform)"

definition lane_done :: "int \<Rightarrow> string \<Rightarrow> control_error + control_result \<Rightarrow> lane \<Rightarrow> lane" where
  "lane_done op fp out l =
     (let l1 = l\<lparr>ln_operation := op, ln_fingerprint := Some fp, ln_outcome := Some out\<rparr>
      in case out of
           Inl _ \<Rightarrow> l1
         | Inr Closed \<Rightarrow> l1\<lparr>ln_closed := True\<rparr>
         | Inr (Entry o') \<Rightarrow> l1\<lparr>ln_tabId := (if on_tabId o' = [] then ln_tabId l else Some (on_tabId o')), ln_closed := False\<rparr>)"

record command =
  cm_name :: string
  cm_body :: control_body
  cm_client :: string
  cm_operation :: int
  cm_owner :: "string option"

text \<open>
  \<open>run\<close>. The last component says what the lane decided, None where no lane was reached or it belongs
  to another owner.
\<close>

definition ledger_run ::
  "ledger_cfg \<Rightarrow> int \<Rightarrow> draws \<Rightarrow> command \<Rightarrow> control_state \<Rightarrow>
   control_state \<times> (control_error + control_result) \<times> verdict option" where
  "ledger_run c now d q s =
     (let s0 = ledger_collect now s; cid = cm_client q; op = cm_operation q; b = cm_body q
      in if \<not> valid_client cid \<or> op < 1 then (s0, Inl InvalidOperation, None)
         else case ledger_lane c cid op (cb_tabId b) (cm_owner q) s0 of
           None \<Rightarrow> (s0, Inl TabExpired, None)
         | Some (l, (ls, g)) \<Rightarrow>
             if ln_owner l \<noteq> cm_owner q then ((ls, g), Inl SessionMismatch, None)
             else let l1 = l\<lparr>ln_expires := now + lc_ttl c\<rparr>; fp = lc_fingerprint c (cm_name q) b;
                      v = judge l1 op fp (cb_tabId b)
                  in case v of
                       Deny e \<Rightarrow> ((lane_put cid l1 ls, g), Inl e, Some v)
                     | Replay out \<Rightarrow> ((lane_put cid l1 ls, g), out, Some v)
                     | Perform \<Rightarrow>
                         (case gw_perform (lc_gateway c) now d (cm_owner q) (cm_name q) b g of
                           (g', out) \<Rightarrow> ((lane_put cid (lane_done op fp out l1) ls, g'), out, Some v)))"

definition ledger_touch ::
  "ledger_cfg \<Rightarrow> int \<Rightarrow> string \<Rightarrow> string option \<Rightarrow> control_state \<Rightarrow> control_state \<times> control_error option" where
  "ledger_touch c now cid owner s =
     (let s0 = ledger_collect now s
      in case map_of (fst s0) cid of
           None \<Rightarrow> (s0, Some TabExpired)
         | Some l \<Rightarrow>
             if ln_owner l \<noteq> owner then (s0, Some SessionMismatch)
             else ((lane_put cid (l\<lparr>ln_expires := now + lc_ttl c\<rparr>) (fst s0), snd s0), None))"

text \<open>The gateway's heartbeat: every client is touched, and the ones that fail are reported.\<close>

fun heartbeat ::
  "ledger_cfg \<Rightarrow> int \<Rightarrow> string list \<Rightarrow> string option \<Rightarrow> control_state \<Rightarrow> control_state \<times> string list" where
  "heartbeat c now [] owner s = (s, [])"
| "heartbeat c now (cid # cids) owner s =
     (let (s1, e) = ledger_touch c now cid owner s; (s2, expired) = heartbeat c now cids owner s1
      in (s2, if e = None then expired else cid # expired))"

definition control_heartbeat ::
  "ledger_cfg \<Rightarrow> int \<Rightarrow> string list \<Rightarrow> string option \<Rightarrow> control_state \<Rightarrow> control_state \<times> string list option" where
  "control_heartbeat c now cids owner s =
     (if length cids > 128 then (s, None)
      else (case heartbeat c now cids owner s of (s', expired) \<Rightarrow> (s', Some expired)))"

end
