(* ===== verification/BlWorkers.thy ===== *)
theory BlWorkers
  imports VtPrelude JsStr
begin

text \<open>
  The resources the Browser Lite gateway holds for its clients: worker sources
  (\<^verbatim>\<open>browser-lite/proxy/worker-store.cjs\<close>), the connections of a device lease
  (\<^verbatim>\<open>lease-connections.cjs\<close>) and upload buffers (\<^verbatim>\<open>body-budget.cjs\<close>). The clock is an argument; timers,
  promises and sockets are events and lists of what was answered or destroyed.
\<close>

text \<open>\<open>Map.set\<close> on an insertion-ordered map.\<close>

definition kv_set :: "'k \<Rightarrow> 'v \<Rightarrow> ('k \<times> 'v) list \<Rightarrow> ('k \<times> 'v) list" where
  "kv_set k v xs = (if map_of xs k = None then xs @ [(k, v)] else map (\<lambda>(a, b). (a, if a = k then v else b)) xs)"

definition kv_delete :: "'k \<Rightarrow> ('k \<times> 'v) list \<Rightarrow> ('k \<times> 'v) list" where
  "kv_delete k xs = filter (\<lambda>e. fst e \<noteq> k) xs"

lemma kv_set_get: "map_of (kv_set k v xs) j = (if j = k then Some v else map_of xs j)"
proof (cases "map_of xs k = None")
  case True
  then show ?thesis by (auto simp: kv_set_def map_add_def split: option.split)
next
  case False
  have "map_of (map (\<lambda>(a, b). (a, if a = k then v else b)) xs) j = (if j = k \<and> map_of xs k \<noteq> None then Some v else map_of xs j)"
    by (induction xs) auto
  then show ?thesis using False by (auto simp: kv_set_def)
qed

section \<open>Worker sources\<close>

record worker_item =
  wi_physical :: string
  wi_body :: "nat list"
  wi_metadata :: string
  wi_expires :: int

text \<open>A request that waits for its source: which one it is, and the realm it comes from.\<close>

record waiter =
  wt_request :: nat
  wt_physical :: string

record worker_store =
  ws_entries :: "(string \<times> worker_item) list"
  ws_bytes :: nat
  ws_failed :: "(string \<times> string \<times> int) list"
  ws_waiters :: "(string \<times> waiter list) list"
  ws_answers :: "(waiter \<times> string \<times> nat list option) list"

record worker_cfg =
  wc_ttl :: int
  wc_maxBytes :: nat
  wc_maxEntries :: nat
  wc_maxTotalBytes :: nat
  wc_maxTotalEntries :: nat

definition worker_defaults :: worker_cfg where
  "worker_defaults = \<lparr>wc_ttl = 60000, wc_maxBytes = 32 * 1024 * 1024, wc_maxEntries = 64,
     wc_maxTotalBytes = 128 * 1024 * 1024, wc_maxTotalEntries = 256\<rparr>"

definition base64url_char :: "char \<Rightarrow> bool" where
  "base64url_char ch \<longleftrightarrow> ch \<in> set ''ABCDEFGHIJKLMNOPQRSTUVWXYZabcdefghijklmnopqrstuvwxyz0123456789_-''"

definition CLIENT_ID :: "string \<Rightarrow> bool" where
  "CLIENT_ID s \<longleftrightarrow> length s = 43 \<and> (\<forall>ch \<in> set s. base64url_char ch)"

definition worker_remove :: "string \<Rightarrow> worker_store \<Rightarrow> worker_store" where
  "worker_remove wid s =
     (case map_of (ws_entries s) wid of
        None \<Rightarrow> s
      | Some item \<Rightarrow> s\<lparr>ws_bytes := ws_bytes s - length (wi_body item), ws_entries := kv_delete wid (ws_entries s)\<rparr>)"

definition worker_collect :: "int \<Rightarrow> worker_store \<Rightarrow> worker_store" where
  "worker_collect now s =
     (let s1 = fold (\<lambda>e s. if wi_expires (snd e) \<le> now then worker_remove (fst e) s else s) (ws_entries s) s
      in s1\<lparr>ws_failed := filter (\<lambda>e. \<not> snd (snd e) \<le> now) (ws_failed s1)\<rparr>)"

definition worker_get :: "int \<Rightarrow> string \<Rightarrow> string \<Rightarrow> worker_store \<Rightarrow> worker_store \<times> nat list option" where
  "worker_get now physical wid s0 =
     (let s = worker_collect now s0
      in (s, case map_of (ws_entries s) wid of
               None \<Rightarrow> None
             | Some item \<Rightarrow> if wi_physical item \<noteq> physical then None else Some (wi_body item)))"

text \<open>Every request waiting for an id is answered, with the source if it may have it.\<close>

definition worker_answer :: "int \<Rightarrow> string \<Rightarrow> waiter \<Rightarrow> worker_store \<Rightarrow> worker_store" where
  "worker_answer now wid w s =
     (case worker_get now (wt_physical w) wid s of (s', r) \<Rightarrow> s'\<lparr>ws_answers := (w, wid, r) # ws_answers s'\<rparr>)"

definition worker_settle :: "int \<Rightarrow> string \<Rightarrow> worker_store \<Rightarrow> worker_store" where
  "worker_settle now wid s =
     (case map_of (ws_waiters s) wid of
        None \<Rightarrow> s
      | Some ws \<Rightarrow> fold (worker_answer now wid) ws (s\<lparr>ws_waiters := kv_delete wid (ws_waiters s)\<rparr>))"

definition own_items :: "string \<Rightarrow> worker_store \<Rightarrow> worker_item list" where
  "own_items physical s = filter (\<lambda>i. wi_physical i = physical) (map snd (ws_entries s))"

definition worker_put ::
  "worker_cfg \<Rightarrow> int \<Rightarrow> string \<Rightarrow> string \<Rightarrow> nat list \<Rightarrow> string \<Rightarrow> string option \<Rightarrow> worker_store \<Rightarrow> worker_store \<times> string option" where
  "worker_put c now random physical body meta clientId s0 =
     (let s = worker_collect now s0; own = own_items physical s;
          ownBytes = sum_list (map (length \<circ> wi_body) own)
      in if (case clientId of None \<Rightarrow> False
             | Some k \<Rightarrow> \<not> CLIENT_ID k \<or> map_of (ws_entries s) k \<noteq> None \<or> map_of (ws_failed s) k \<noteq> None)
         then (s, None)
         else if ownBytes + length body > wc_maxBytes c \<or> length own \<ge> wc_maxEntries c
            \<or> ws_bytes s + length body > wc_maxTotalBytes c \<or> length (ws_entries s) \<ge> wc_maxTotalEntries c
         then (s, None)
         else let wid = (case clientId of None \<Rightarrow> random | Some k \<Rightarrow> k);
                  item = \<lparr>wi_physical = physical, wi_body = body, wi_metadata = meta, wi_expires = now + wc_ttl c\<rparr>
              in (worker_settle now wid
                    (s\<lparr>ws_entries := kv_set wid item (ws_entries s), ws_bytes := ws_bytes s + length body\<rparr>), Some wid))"

definition worker_fail :: "worker_cfg \<Rightarrow> int \<Rightarrow> string \<Rightarrow> string \<Rightarrow> worker_store \<Rightarrow> worker_store" where
  "worker_fail c now physical clientId s0 =
     (if \<not> CLIENT_ID clientId \<or> map_of (ws_entries s0) clientId \<noteq> None then s0
      else let s = worker_collect now s0;
               s1 = (if length (ws_failed s) < wc_maxTotalEntries c
                     then s\<lparr>ws_failed := kv_set clientId (physical, now + wc_ttl c) (ws_failed s)\<rparr> else s)
           in worker_settle now clientId s1)"

definition worker_wait :: "worker_cfg \<Rightarrow> int \<Rightarrow> waiter \<Rightarrow> string \<Rightarrow> worker_store \<Rightarrow> worker_store" where
  "worker_wait c now w wid s0 =
     (case worker_get now (wt_physical w) wid s0 of
        (s, ready) \<Rightarrow>
          if ready \<noteq> None \<or> map_of (ws_entries s) wid \<noteq> None \<or> \<not> CLIENT_ID wid \<or> map_of (ws_failed s) wid \<noteq> None
          then s\<lparr>ws_answers := (w, wid, ready) # ws_answers s\<rparr>
          else if sum_list (map (length \<circ> snd) (ws_waiters s)) \<ge> wc_maxTotalEntries c
          then s\<lparr>ws_answers := (w, wid, None) # ws_answers s\<rparr>
          else s\<lparr>ws_waiters := kv_set wid ((case map_of (ws_waiters s) wid of None \<Rightarrow> [] | Some ws \<Rightarrow> ws) @ [w]) (ws_waiters s)\<rparr>)"

text \<open>The timer of a waiting request; it has been cleared when the request was answered before.\<close>

definition worker_timeout :: "waiter \<Rightarrow> string \<Rightarrow> worker_store \<Rightarrow> worker_store" where
  "worker_timeout w wid s =
     (case map_of (ws_waiters s) wid of
        None \<Rightarrow> s
      | Some ws \<Rightarrow>
          if w \<notin> set ws then s
          else s\<lparr>ws_waiters := (if remove1 w ws = [] then kv_delete wid (ws_waiters s) else kv_set wid (remove1 w ws) (ws_waiters s)),
                 ws_answers := (w, wid, None) # ws_answers s\<rparr>)"

datatype worker_event =
    Put int string string "nat list" string "string option"
  | Fail int string string
  | Wait int waiter string
  | Timeout waiter string

fun worker_step :: "worker_cfg \<Rightarrow> worker_store \<Rightarrow> worker_event \<Rightarrow> worker_store" where
  "worker_step c s (Put now random physical body meta k) = fst (worker_put c now random physical body meta k s)"
| "worker_step c s (Fail now physical k) = worker_fail c now physical k s"
| "worker_step c s (Wait now w wid) = worker_wait c now w wid s"
| "worker_step c s (Timeout w wid) = worker_timeout w wid s"

definition worker_empty :: worker_store where
  "worker_empty = \<lparr>ws_entries = [], ws_bytes = 0, ws_failed = [], ws_waiters = [], ws_answers = []\<rparr>"

section \<open>Connections of a lease\<close>

record lease_item =
  li_expires :: int
  li_connections :: "nat list"
  li_revoked :: bool

text \<open>\<open>lx_destroyed\<close> and \<open>lx_expired\<close> are the sockets destroyed and the leases reported, newest first.\<close>

record leases =
  lx_leases :: "(string \<times> lease_item) list"
  lx_destroyed :: "nat list"
  lx_expired :: "string list"

definition valid_lease :: "int \<Rightarrow> string \<Rightarrow> int \<Rightarrow> bool" where
  "valid_lease now lease expires \<longleftrightarrow>
     length lease = 32 \<and> (\<forall>ch \<in> set lease. ch \<in> set ''abcdef0123456789'') \<and>
     \<not> expires * 1000 \<le> now \<and> \<not> expires * 1000 > now + 7 * 86400000"

definition revoke_item :: "string \<Rightarrow> lease_item \<Rightarrow> leases \<Rightarrow> leases" where
  "revoke_item lease item s =
     (if li_revoked item then s
      else s\<lparr>lx_leases := kv_set lease (item\<lparr>li_revoked := True, li_connections := []\<rparr>) (lx_leases s),
             lx_destroyed := li_connections item @ lx_destroyed s, lx_expired := lease # lx_expired s\<rparr>)"

definition leases_clean :: "int \<Rightarrow> leases \<Rightarrow> leases" where
  "leases_clean now s =
     (let old = filter (\<lambda>e. li_expires (snd e) * 1000 \<le> now) (lx_leases s);
          s1 = fold (\<lambda>e. revoke_item (fst e) (snd e)) old s
      in s1\<lparr>lx_leases := filter (\<lambda>e. \<not> li_expires (snd e) * 1000 \<le> now) (lx_leases s1)\<rparr>)"

definition lease_register :: "nat \<Rightarrow> int \<Rightarrow> string \<Rightarrow> int \<Rightarrow> leases \<Rightarrow> leases \<times> lease_item option" where
  "lease_register limit now lease expires s =
     (if \<not> valid_lease now lease expires then (s, None)
      else case map_of (lx_leases s) lease of
        Some item \<Rightarrow> (s, if li_revoked item then None else Some item)
      | None \<Rightarrow>
          let s1 = leases_clean now s
          in if length (lx_leases s1) \<ge> limit then (s1, None)
             else let item = \<lparr>li_expires = expires, li_connections = [], li_revoked = False\<rparr>
                  in (s1\<lparr>lx_leases := kv_set lease item (lx_leases s1)\<rparr>, Some item))"

definition lease_track :: "nat \<Rightarrow> int \<Rightarrow> string \<Rightarrow> int \<Rightarrow> nat \<Rightarrow> leases \<Rightarrow> leases \<times> bool" where
  "lease_track limit now lease expires socket s =
     (case lease_register limit now lease expires s of
        (s1, None) \<Rightarrow> (s1, False)
      | (s1, Some item) \<Rightarrow>
          (s1\<lparr>lx_leases := kv_set lease (item\<lparr>li_connections := List.insert socket (li_connections item)\<rparr>) (lx_leases s1)\<rparr>, True))"

definition lease_done :: "string \<Rightarrow> nat \<Rightarrow> leases \<Rightarrow> leases" where
  "lease_done lease socket s =
     (case map_of (lx_leases s) lease of
        None \<Rightarrow> s
      | Some item \<Rightarrow> s\<lparr>lx_leases := kv_set lease (item\<lparr>li_connections := removeAll socket (li_connections item)\<rparr>) (lx_leases s)\<rparr>)"

text \<open>A lease revoked before it was ever seen is registered first, so that it stays revoked; None where that throws.\<close>

definition lease_revoke :: "nat \<Rightarrow> int \<Rightarrow> string \<Rightarrow> int option \<Rightarrow> leases \<Rightarrow> leases" where
  "lease_revoke limit now lease expires s =
     (case map_of (lx_leases s) lease of
        Some item \<Rightarrow> revoke_item lease item s
      | None \<Rightarrow>
          (case expires of
             None \<Rightarrow> s
           | Some e \<Rightarrow>
               if e * 1000 > now
               then (case lease_register limit now lease e s of
                       (s1, None) \<Rightarrow> s1
                     | (s1, Some item) \<Rightarrow> revoke_item lease item s1)
               else s))"

definition leases_close :: "leases \<Rightarrow> leases" where
  "leases_close s = (fold (\<lambda>e. revoke_item (fst e) (snd e)) (lx_leases s) s)\<lparr>lx_leases := []\<rparr>"

section \<open>Upload buffers\<close>

text \<open>One reader per upload, numbered in the order they start: its limit and what it has buffered.\<close>

record upload =
  up_limit :: nat
  up_size :: nat

record budget =
  bb_bytes :: nat
  bb_active :: nat
  bb_next :: nat
  bb_uploads :: "(nat \<times> upload) list"

definition budget_start :: "nat \<Rightarrow> nat \<Rightarrow> budget \<Rightarrow> budget \<times> nat option" where
  "budget_start maxConcurrent limit b =
     (if bb_active b \<ge> maxConcurrent then (b, None)
      else (b\<lparr>bb_active := bb_active b + 1, bb_next := bb_next b + 1,
              bb_uploads := bb_uploads b @ [(bb_next b, \<lparr>up_limit = limit, up_size = 0\<rparr>)]\<rparr>, Some (bb_next b)))"

text \<open>The \<open>finally\<close> block, at the end of the stream or on an error.\<close>

definition budget_end :: "nat \<Rightarrow> budget \<Rightarrow> budget" where
  "budget_end i b =
     (case map_of (bb_uploads b) i of
        None \<Rightarrow> b
      | Some u \<Rightarrow> b\<lparr>bb_bytes := bb_bytes b - up_size u, bb_active := bb_active b - 1, bb_uploads := kv_delete i (bb_uploads b)\<rparr>)"

definition budget_chunk :: "nat \<Rightarrow> nat \<Rightarrow> nat \<Rightarrow> budget \<Rightarrow> budget \<times> bool" where
  "budget_chunk maxBytes i n b =
     (case map_of (bb_uploads b) i of
        None \<Rightarrow> (b, False)
      | Some u \<Rightarrow>
          if up_size u + n > up_limit u \<or> bb_bytes b + n > maxBytes then (budget_end i b, False)
          else (b\<lparr>bb_bytes := bb_bytes b + n, bb_uploads := kv_set i (u\<lparr>up_size := up_size u + n\<rparr>) (bb_uploads b)\<rparr>, True))"

datatype budget_event = Upload nat | Chunk nat nat | Ended nat

fun budget_step :: "nat \<Rightarrow> nat \<Rightarrow> budget \<Rightarrow> budget_event \<Rightarrow> budget" where
  "budget_step maxBytes maxConcurrent b (Upload limit) = fst (budget_start maxConcurrent limit b)"
| "budget_step maxBytes maxConcurrent b (Chunk i n) = fst (budget_chunk maxBytes i n b)"
| "budget_step maxBytes maxConcurrent b (Ended i) = budget_end i b"

definition budget_empty :: budget where
  "budget_empty = \<lparr>bb_bytes = 0, bb_active = 0, bb_next = 0, bb_uploads = []\<rparr>"

end
