(* ===== verification/BlAuth.thy ===== *)
theory BlAuth
  imports BlCookies
begin

text \<open>
  What a request to the Browser Lite gateway proves and what a response allows:
  \<^verbatim>\<open>capability.cjs\<close> (signed capabilities), \<^verbatim>\<open>script-cache-key.cjs\<close>, \<^verbatim>\<open>frame-policy.cjs\<close> and
  \<open>workerPolicy\<close> of \<^verbatim>\<open>gateway.cjs\<close>. HMAC and base64url are the platform's; the JSON of the claims
  is an argument.
\<close>

section \<open>Capabilities\<close>

record claims =
  cl_aud :: string
  cl_uid :: int
  cl_profile :: string
  cl_epoch :: int
  cl_role :: string
  cl_exp :: int

record authority =
  au_secret :: "nat list"
  au_uid :: int
  au_profile :: string
  au_epoch :: int

text \<open>\<open>json\<close> prints claims, and \<open>unjson\<close> reads the base64url text of a payload, None where it throws.\<close>

definition floor_seconds :: "int \<Rightarrow> int" where "floor_seconds now = now div 1000"

definition cap_sign ::
  "platform \<Rightarrow> (claims \<Rightarrow> nat list) \<Rightarrow> authority \<Rightarrow> int \<Rightarrow> string \<Rightarrow> int \<Rightarrow> string option" where
  "cap_sign P json a now role seconds =
     (if role \<notin> {''auth'', ''relay''} \<or> seconds < 1 \<or> seconds > 86400 then None
      else let payload = pf_b64 P (json \<lparr>cl_aud = ''vibetop-browser-proxy'', cl_uid = au_uid a, cl_profile = au_profile a,
                 cl_epoch = au_epoch a, cl_role = role, cl_exp = floor_seconds now + seconds\<rparr>)
           in Some (payload @ ''.'' @ pf_b64 P (pf_hmac P (au_secret a) payload)))"

definition base64url :: "string \<Rightarrow> bool" where
  "base64url s \<longleftrightarrow> s \<noteq> [] \<and> (\<forall>ch \<in> set s.
     ch \<in> set ''ABCDEFGHIJKLMNOPQRSTUVWXYZabcdefghijklmnopqrstuvwxyz0123456789_-'')"

text \<open>\<open>/^[A-Za-z0-9_-]+\.[A-Za-z0-9_-]+$/\<close> with its two parts.\<close>

definition two_parts :: "string \<Rightarrow> (string \<times> string) option" where
  "two_parts s = (case js_split (CHR ''.'') s of
     [a, b] \<Rightarrow> if base64url a \<and> base64url b then Some (a, b) else None | _ \<Rightarrow> None)"

definition cap_verify ::
  "platform \<Rightarrow> (nat list \<Rightarrow> claims option) \<Rightarrow> authority \<Rightarrow> int \<Rightarrow> string option \<Rightarrow> string \<Rightarrow> bool" where
  "cap_verify P unjson a now token role =
     (case token of
        None \<Rightarrow> False
      | Some t \<Rightarrow>
          if length t > 1024 then False
          else (case two_parts t of
            None \<Rightarrow> False
          | Some (payload, sig) \<Rightarrow>
              if pf_unb64 P sig \<noteq> pf_hmac P (au_secret a) payload then False
              else (case unjson (pf_unb64 P payload) of
                None \<Rightarrow> False
              | Some c \<Rightarrow>
                  cl_aud c = ''vibetop-browser-proxy'' \<and> cl_uid c = au_uid a \<and> cl_profile c = au_profile a \<and>
                  cl_epoch c = au_epoch a \<and> cl_role c = role \<and>
                  cl_exp c * 1000 > now \<and> cl_exp c * 1000 \<le> now + 86400 * 1000)))"

definition engineSessionId :: "platform \<Rightarrow> authority \<Rightarrow> string" where
  "engineSessionId P a =
     pf_b64 P (pf_hmac P (au_secret a) (''engine'' @ NUL @ dec_int (au_uid a) @ NUL @ au_profile a))"

section \<open>Script cache keys\<close>

text \<open>The n-th part of a window id, with undefined for a part that is not there.\<close>

definition window_part :: "nat \<Rightarrow> string \<Rightarrow> string option" where
  "window_part n w = (let ps = js_split (CHR ''~'') w in if n < length ps then Some (ps ! n) else None)"

definition or_empty :: "string option \<Rightarrow> string" where "or_empty v = (case v of None \<Rightarrow> [] | Some s \<Rightarrow> s)"

definition cacheTab :: "string \<Rightarrow> string" where
  "cacheTab w = (let tab = or_empty (window_part 1 w) in if length tab \<ge> 16 \<and> base64url tab then tab else [])"

text \<open>\<open>JSON.stringify\<close> of a list of strings keeps them apart; the key is the list here.\<close>

definition scriptCacheKey ::
  "string \<Rightarrow> string \<Rightarrow> string \<Rightarrow> string \<Rightarrow> string \<Rightarrow> string \<Rightarrow> string \<Rightarrow> string list" where
  "scriptCacheKey physical sessionId windowId resourceType charset destination relay =
     (let stable = (if cacheTab windowId \<noteq> []
                    then js_join ''~'' ((js_split (CHR ''~'') windowId)[1 := ''*'']) else windowId)
      in [''vt-script-v3'', physical, sessionId, stable, resourceType, charset, destination, relay])"

section \<open>Who may frame a document\<close>

text \<open>\<open>split(/\s+/)\<close>: a run of white space is one separator.\<close>

fun split_space :: "string \<Rightarrow> string list" where
  "split_space [] = [[]]"
| "split_space (c # cs) =
     (if is_space c then (if cs \<noteq> [] \<and> is_space (hd cs) then split_space cs else [] # split_space cs)
      else (case split_space cs of [] \<Rightarrow> [[c]] | y # ys \<Rightarrow> (c # y) # ys))"

definition ancestors_directive :: "string \<Rightarrow> bool" where
  "ancestors_directive x \<longleftrightarrow> starts_with ''frame-ancestors'' (toLowerCase x) \<and>
     (length x = length ''frame-ancestors'' \<or> is_space (x ! length ''frame-ancestors''))"

definition SELF :: string where "SELF = [CHR 0x27] @ ''self'' @ [CHR 0x27]"

text \<open>The source lists of the policies that name ancestors, else what \<open>X-Frame-Options\<close> says.\<close>

definition frame_ancestors :: "string list \<Rightarrow> string \<Rightarrow> string list list" where
  "frame_ancestors csp xfo =
     (let policies = concat (map (js_split (CHR '','')) csp);
          found = List.map_filter (\<lambda>p. find ancestors_directive (map js_trim (js_split (CHR '';'') p))) policies;
          lists = map (\<lambda>d. tl (split_space d)) found
      in if lists \<noteq> [] then lists
         else let x = toUpperCase (js_trim xfo)
              in if x = ''DENY'' then [[]] else if x = ''SAMEORIGIN'' then [[SELF]] else [])"

definition frame_wildcard :: "realm_cfg \<Rightarrow> string" where
  "frame_wildcard cfg = ''https://*.'' @ rc_domain cfg @ (if rc_port cfg = [] then [] else '':'' @ rc_port cfg)"

definition documents :: "registry \<Rightarrow> (string \<times> string) list" where
  "documents g = map (\<lambda>(h, r). (rl_origin r, rl_physical r)) (filter (\<lambda>e. \<not> rl_resourceOnly (snd e)) (rg_records g))"

text \<open>The documents of an address; \<open>new URL\<close> fails on the first of them, so that nothing is added then.\<close>

definition add_origin :: "platform \<Rightarrow> registry \<Rightarrow> string \<Rightarrow> string list" where
  "add_origin P g upstream =
     (case pf_url P upstream of
        None \<Rightarrow> []
      | Some u \<Rightarrow> map snd (filter (\<lambda>(original, physical). original = u_origin u) (documents g)))"

definition exact_source :: "string \<Rightarrow> bool" where
  "exact_source s \<longleftrightarrow>
     (\<exists>p \<in> {''http://'', ''https://''}. starts_with p (toLowerCase s) \<and> length s > length p \<and>
        CHR ''*'' \<notin> set (drop (length p) s))"

text \<open>
  \<open>^(https?):\/\/\*\.([^/:]+)(?::(\d+|\*))?$\<close>: the scheme, the host after the wildcard, and the port.
\<close>

definition wildcard_source :: "string \<Rightarrow> (string \<times> string \<times> string option) option" where
  "wildcard_source s =
     (let scheme = (if starts_with ''https://*.'' s then Some ''https'' else if starts_with ''http://*.'' s then Some ''http'' else None)
      in case scheme of
           None \<Rightarrow> None
         | Some sc \<Rightarrow>
             (let rest = drop (length sc + 5) s; host = takeWhile (\<lambda>ch. ch \<noteq> CHR ''/'' \<and> ch \<noteq> CHR '':'') rest;
                  after = drop (length host) rest
              in if host = [] then None
                 else if after = [] then Some (sc, host, None)
                 else if hd after = CHR '':'' \<and> (tl after = ''*'' \<or> tl after \<noteq> [] \<and> (\<forall>ch \<in> set (tl after). is_digit ch))
                 then Some (sc, host, Some (tl after)) else None))"

definition default_port :: "string \<Rightarrow> string" where
  "default_port protocol = (if protocol = ''https:'' then ''443'' else ''80'')"

definition source_matches :: "platform \<Rightarrow> string \<Rightarrow> string \<Rightarrow> bool" where
  "source_matches P source upstream =
     (case pf_url P upstream of
        None \<Rightarrow> False
      | Some u \<Rightarrow>
          source \<in> {''http:'', ''https:''} \<and> u_protocol u = source \<or>
          (case wildcard_source source of
             None \<Rightarrow> False
           | Some (sc, host, port) \<Rightarrow>
               u_protocol u = sc @ '':'' \<and> ends_with (u_hostname u) (CHR ''.'' # host) \<and>
               (port = Some ''*'' \<or>
                (if u_port u = [] then default_port (u_protocol u) else u_port u) =
                (case port of None \<Rightarrow> default_port (sc @ '':'') | Some x \<Rightarrow> if x = [] then default_port (sc @ '':'') else x))))"

definition source_allows :: "platform \<Rightarrow> realm_cfg \<Rightarrow> registry \<Rightarrow> string \<Rightarrow> string \<Rightarrow> string list" where
  "source_allows P cfg g origin source =
     (if source = SELF then add_origin P g origin
      else if source = ''*'' then [frame_wildcard cfg]
      else if exact_source source then add_origin P g source
      else map snd (filter (\<lambda>(upstream, physical). source_matches P source upstream) (documents g)))"

definition framePolicies ::
  "platform \<Rightarrow> realm_cfg \<Rightarrow> registry \<Rightarrow> string list \<Rightarrow> string \<Rightarrow> string \<Rightarrow> string list \<Rightarrow> string list" where
  "framePolicies P cfg g csp xfo destination trusted =
     (let origin = url_origin_of P destination; lists = frame_ancestors csp xfo
      in if lists = [] then [''frame-ancestors '' @ js_join '' '' trusted @ '' '' @ frame_wildcard cfg]
         else map (\<lambda>sources. ''frame-ancestors '' @
                js_join '' '' (rev (remdups (rev (trusted @ concat (map (source_allows P cfg g origin) sources)))))) lists)"

section \<open>Workers\<close>

definition workerPolicy :: "realm_cfg \<Rightarrow> string" where
  "workerPolicy cfg =
     (let host = ''*.'' @ rc_domain cfg @ (if rc_port cfg = [] then [] else '':'' @ rc_port cfg);
          source = ''https://'' @ host; socket = ''wss://'' @ host; q = (\<lambda>s. [CHR 0x27] @ s @ [CHR 0x27])
      in ''default-src '' @ source @ ''; script-src '' @ source @ '' '' @ q ''wasm-unsafe-eval'' @ ''; connect-src '' @ source @
         '' '' @ socket @ '' blob: data:; worker-src '' @ source @ ''; object-src '' @ q ''none'' @ ''; base-uri '' @ q ''none'')"

section \<open>What they promise\<close>

text \<open>A signed capability is accepted for its role until it expires, and for no other role or epoch.\<close>

lemma cap_verify_Some:
  assumes "cap_verify P unjson a now (Some t) role"
  obtains payload sig c where "two_parts t = Some (payload, sig)"
    "pf_unb64 P sig = pf_hmac P (au_secret a) payload" "unjson (pf_unb64 P payload) = Some c"
    "cl_role c = role" "cl_epoch c = au_epoch a" "cl_uid c = au_uid a" "cl_profile c = au_profile a"
    "now < cl_exp c * 1000" "cl_exp c * 1000 \<le> now + 86400 * 1000"
  using assms by (auto simp: cap_verify_def split: if_splits option.splits)

lemma cap_one_role: "cap_verify P unjson a now t role \<Longrightarrow> cap_verify P unjson a now t role' \<Longrightarrow> role = role'"
  by (auto simp: cap_verify_def split: option.splits if_splits)

lemma cap_sign_verify:
  assumes s: "cap_sign P json a now role seconds = Some t" and t: "length t \<le> 1024"
    and b64: "\<And>b. b \<noteq> [] \<Longrightarrow> base64url (pf_b64 P b)" "\<And>b. pf_unb64 P (pf_b64 P b) = b"
    and ne: "\<And>c. json c \<noteq> []" "\<And>k m. pf_hmac P k m \<noteq> []"
    and json: "\<And>c. unjson (json c) = Some c"
    and later: "now \<le> now'" "now' < (floor_seconds now + seconds) * 1000"
  shows "cap_verify P unjson a now' (Some t) role"
proof -
  define c where "c = \<lparr>cl_aud = ''vibetop-browser-proxy'', cl_uid = au_uid a, cl_profile = au_profile a,
                 cl_epoch = au_epoch a, cl_role = role, cl_exp = floor_seconds now + seconds\<rparr>"
  let ?p = "pf_b64 P (json c)"
  let ?s = "pf_b64 P (pf_hmac P (au_secret a) ?p)"
  have ok: "seconds \<le> 86400" and tt: "t = ?p @ ''.'' @ ?s"
    using s by (auto simp: cap_sign_def Let_def c_def split: if_splits)
  have b: "base64url ?p" "base64url ?s" using b64(1) ne by blast+
  have dot: "CHR ''.'' \<notin> set x" if "base64url x" for x
  proof
    assume "CHR ''.'' \<in> set x"
    then have "CHR ''.'' \<in> set ''ABCDEFGHIJKLMNOPQRSTUVWXYZabcdefghijklmnopqrstuvwxyz0123456789_-''"
      using that unfolding base64url_def by blast
    then show False by simp
  qed
  have "t = ?p @ CHR ''.'' # ?s" by (simp add: tt)
  then have "js_split (CHR ''.'') t = [?p, ?s]"
    by (simp only: js_split_append [OF dot [OF b(1)]] js_split_single [OF dot [OF b(2)]])
  then have "two_parts t = Some (?p, ?s)" unfolding two_parts_def using b by (simp only: list.case if_True simp_thms)
  moreover have "floor_seconds now * 1000 \<le> now" by (simp add: floor_seconds_def minus_mod_eq_div_mult [symmetric])
  then have "(floor_seconds now + seconds) * 1000 \<le> now' + 86400 * 1000"
    unfolding distrib_right using mult_right_mono [OF ok, of 1000] later(1) by linarith
  ultimately show ?thesis using t later(2) by (simp add: cap_verify_def b64(2) json) (simp add: c_def)
qed

text \<open>Whatever a website's headers say, only the trusted origins, the wildcard of the own domain, and
  registered documents can frame it; \<open>X-Frame-Options: DENY\<close> leaves the trusted ones.\<close>

lemma add_origin_registered: "x \<in> set (add_origin P g u) \<Longrightarrow> x \<in> snd ` set (documents g)"
  by (force simp: add_origin_def split: option.splits)

lemma source_allows_bound: "set (source_allows P cfg g origin source) \<subseteq> insert (frame_wildcard cfg) (snd ` set (documents g))"
proof
  fix x assume x: "x \<in> set (source_allows P cfg g origin source)"
  show "x \<in> insert (frame_wildcard cfg) (snd ` set (documents g))"
  proof (cases "source = SELF \<or> exact_source source \<or> source = ''*''")
    case True
    then show ?thesis using x add_origin_registered unfolding source_allows_def
      by (auto simp del: image_iff split: if_splits)
  next
    case False
    then show ?thesis using x unfolding source_allows_def by auto
  qed
qed

end
