(* ===== verification/BlGate.thy ===== *)
theory BlGate
  imports BlControl BlWorkers BlAuth
begin

text \<open>
  \<open>gate\<close> of \<^verbatim>\<open>browser-lite/proxy/gateway.cjs\<close> in realm mode, with \<open>bindChildFrame\<close> and the mapping of
  \<^verbatim>\<open>realm-origins.cjs\<close>: every request to the proxy passes it before the engine sees it. What the engine
  (Hammerhead's URL descriptors) and the platform's URL class answer is the record \<open>engine\<close>.
\<close>

section \<open>What the engine provides\<close>

text \<open>A proxied address taken apart by \<open>parseProxyUrl\<close>; an absent window id is empty.\<close>

record parsed =
  pa_dest :: string
  pa_session :: string
  pa_window :: string
  pa_type :: string
  pa_charset :: string

record rtype =
  rt_isIframe :: bool
  rt_isWebSocket :: bool
  rt_isWorkerModule :: bool

text \<open>
  \<open>en_location\<close> is the path and the query of \<open>new URL(url, base)\<close>; \<open>en_number\<close> is \<open>Number\<close> with None
  for what is no safe integer; \<open>en_proxy dest physical windowId type\<close> prints a proxied address;
  \<open>en_strip\<close> removes the credentials of an address; \<open>en_blank\<close> is the proxied \<open>about:blank\<close>.
\<close>

record engine =
  en_parse :: "string \<Rightarrow> parsed option"
  en_rtype :: "string \<Rightarrow> rtype"
  en_workerKind :: string
  en_location :: "string \<Rightarrow> string \<Rightarrow> (string \<times> (string \<Rightarrow> string option)) option"
  en_number :: "string \<Rightarrow> int option"
  en_proxy :: "string \<Rightarrow> string \<Rightarrow> string \<Rightarrow> string \<Rightarrow> string"
  en_strip :: "string \<Rightarrow> string"
  en_blank :: string
  en_session :: string
  en_runtimePath :: string

text \<open>The gateway: its tabs, its identity (\<open>ga_ingress\<close>: uid, profile and epoch), and \<open>verify\<close> of its authority.\<close>

record gate_cfg =
  ga_gw :: gw_cfg
  ga_engine :: engine
  ga_ingress :: "(string \<times> string \<times> string) option"
  ga_verify :: "int \<Rightarrow> string option \<Rightarrow> string \<Rightarrow> bool"
  ga_parent :: string
  ga_cookieName :: string
  ga_relay :: string
  ga_leaseLimit :: nat

record frame_grant =
  fg_expires :: int
  fg_lease :: "string option"
  fg_source :: realm

record gate_state =
  gs_gw :: gateway
  gs_grants :: "(string \<times> frame_grant) list"
  gs_leases :: leases
  gs_adblock :: bool

text \<open>A request; \<open>hq_body\<close> is the upload once read, None where the reading fails.\<close>

record http_request =
  hq_method :: string
  hq_url :: string
  hq_headers :: "(string \<times> string) list"
  hq_upgrade :: bool
  hq_socket :: nat
  hq_body :: "nat list option"

definition hget :: "http_request \<Rightarrow> string \<Rightarrow> string option" where
  "hget q name = map_of (hq_headers q) name"

definition headers_of :: "http_request \<Rightarrow> headers" where
  "headers_of q = \<lparr>hd_origin = hget q ''origin'', hd_referer = hget q ''referer'', hd_site = hget q ''sec-fetch-site'',
     hd_mode = hget q ''sec-fetch-mode'', hd_dest = hget q ''sec-fetch-dest''\<rparr>"

text \<open>What a request that passes carries on.\<close>

record passed =
  ps_method :: string
  ps_headers :: "(string \<times> string) list"
  ps_role :: string
  ps_realm :: realm
  ps_source :: "realm option"
  ps_navigation :: "admission option"
  ps_replay :: "nav_rec option"
  ps_cookie :: string
  ps_cacheKey :: "string list"
  ps_workerCsp :: bool

datatype gate_verdict =
    Denied nat
  | Redirect nat string
  | ChallengePage string string int
  | Blocked "(string \<times> string) list"
  | Pass passed

section \<open>Mapping addresses\<close>

definition webUrl :: "string \<Rightarrow> string" where
  "webUrl s = (if starts_with ''ws:'' s then ''http:'' @ drop 3 s
               else if starts_with ''wss:'' s then ''https:'' @ drop 4 s else s)"

definition token_char :: "string \<Rightarrow> bool" where
  "token_char s \<longleftrightarrow> s \<noteq> [] \<and> (\<forall>ch \<in> set s.
     ch \<in> set ''ABCDEFGHIJKLMNOPQRSTUVWXYZabcdefghijklmnopqrstuvwxyz0123456789_.-'')"

text \<open>\<open>map\<close> of \<open>RealmOrigins\<close> for a known owner: the realm of an address and the window id it carries; None throws.\<close>

definition realm_map ::
  "gate_cfg \<Rightarrow> string \<Rightarrow> realm_context \<Rightarrow> string \<Rightarrow> string \<Rightarrow> string \<Rightarrow> registry \<Rightarrow> (realm \<times> string \<times> registry) option" where
  "realm_map c url owner kind incoming relay g =
     (let P = gc_platform (ga_gw c); R = gc_realms (ga_gw c); t = en_rtype (ga_engine c) kind
      in case (if rt_isIframe t then childContext P owner url else Some owner) of
           None \<Rightarrow> None
         | Some mapped \<Rightarrow>
             if rt_isWorkerModule t
             then let fields = js_split (CHR ''~'') incoming
                  in if kind \<noteq> en_workerKind (ga_engine c) \<or> length fields \<noteq> 3 \<or> \<not> base64url (fields ! 1)
                        \<or> \<not> token_char (fields ! 2) \<or> fields ! 0 \<noteq> contextToken P R mapped
                     then None
                     else map_option (\<lambda>(r, g'). (r, incoming, g')) (register P R url mapped g)
             else map_option (\<lambda>(r, g'). (r, contextToken P R mapped @ ''~'' @ or_empty (window_part 1 incoming) @
                         (if relay = [] then [] else ''~'' @ relay), g')) (register P R url mapped g))"

text \<open>\<open>getProxyUrl\<close> as the gateway replaces it: it never throws.\<close>

definition gate_url ::
  "gate_cfg \<Rightarrow> string \<Rightarrow> realm_context \<Rightarrow> string \<Rightarrow> string \<Rightarrow> string \<Rightarrow> registry \<Rightarrow> string \<times> registry" where
  "gate_url c dest0 owner kind incoming relay g =
     (let P = gc_platform (ga_gw c); E = ga_engine c;
          dest = (case en_parse E dest0 of
                    Some p \<Rightarrow> if pa_session p = en_session E then pa_dest p else dest0 | None \<Rightarrow> dest0)
      in if starts_with ''about:'' dest then (en_blank E, g)
         else case pf_url P dest of
           None \<Rightarrow> (en_blank E, g)
         | Some u \<Rightarrow>
             if u_protocol u \<notin> {''http:'', ''https:'', ''ws:'', ''wss:''} then (dest, g)
             else let d = (if u_username u \<noteq> [] \<or> u_password u \<noteq> [] then en_strip E dest else dest)
                  in case realm_map c (webUrl d) owner kind incoming relay g of
                       None \<Rightarrow> (en_blank E, g)
                     | Some (r, w, g') \<Rightarrow> (en_proxy E d (rl_physical r) w kind, g'))"

text \<open>\<open>verify\<close>: the host is a realm of exactly the destination's origin.\<close>

definition realm_verify :: "gate_cfg \<Rightarrow> registry \<Rightarrow> string \<Rightarrow> string \<Rightarrow> bool" where
  "realm_verify c g host url =
     (case (original (gc_platform (ga_gw c)) g (''https://'' @ host), upstreamUrl (gc_platform (ga_gw c)) url) of
        (Some r, Some u) \<Rightarrow> rl_origin r = u_origin u
      | _ \<Rightarrow> False)"

section \<open>The identity of a request\<close>

definition js_string :: "string option \<Rightarrow> string" where
  "js_string v = (case v of None \<Rightarrow> ''undefined'' | Some s \<Rightarrow> s)"

definition validIngress :: "string \<times> string \<times> string \<Rightarrow> http_request \<Rightarrow> bool" where
  "validIngress i q =
     (case i of (uid, profile, epoch) \<Rightarrow>
        js_string (hget q ''x-vt-browser-uid'') = uid \<and> js_string (hget q ''x-vt-browser-profile'') = profile \<and>
        js_string (hget q ''x-vt-browser-epoch'') = epoch \<and>
        (let l = or_empty (hget q ''x-vt-browser-lease'')
         in length l = 32 \<and> (\<forall>ch \<in> set l. ch \<in> set ''abcdef0123456789'')) \<and>
        (case hget q ''x-vt-browser-relay'' of None \<Rightarrow> False | Some r \<Rightarrow> length r \<le> 2048 \<and> two_parts r \<noteq> None))"

record identity =
  id_role :: "string option"
  id_lease :: "string option"
  id_relay :: string

text \<open>The first lines of \<open>gate\<close>: None is the refusal with 401.\<close>

definition gate_identity :: "gate_cfg \<Rightarrow> int \<Rightarrow> http_request \<Rightarrow> gate_state \<Rightarrow> gate_state \<times> identity option" where
  "gate_identity c now q st =
     (case ga_ingress c of
        None \<Rightarrow> (st, Some \<lparr>id_role = None, id_lease = None, id_relay = []\<rparr>)
      | Some i \<Rightarrow>
          (let role = hget q ''x-vt-browser-role''; lease = or_empty (hget q ''x-vt-browser-lease'')
           in if \<not> validIngress i q \<or> role \<notin> {Some ''auth'', Some ''relay'', Some ''entry''} then (st, None)
              else (case en_number (ga_engine c) (js_string (hget q ''x-vt-browser-expires'')) of
                None \<Rightarrow> (st, None)
              | Some expires \<Rightarrow>
                  (case lease_track (ga_leaseLimit c) now lease expires (hq_socket q) (gs_leases st) of
                     (ls, tracked) \<Rightarrow>
                       (st\<lparr>gs_leases := ls\<rparr>,
                        if tracked then Some \<lparr>id_role = role, id_lease = Some lease, id_relay = or_empty (hget q ''x-vt-browser-relay'')\<rparr>
                        else None)))))"

definition gate_auth :: "gate_cfg \<Rightarrow> int \<Rightarrow> http_request \<Rightarrow> identity \<Rightarrow> bool" where
  "gate_auth c now q d =
     (if ga_ingress c \<noteq> None then id_role d = Some ''auth''
      else case uniqueCookie (or_empty (hget q ''cookie'')) (ga_cookieName c) of
        None \<Rightarrow> False
      | Some k \<Rightarrow> k \<noteq> [] \<and> ga_verify c now (Some k) ''auth'')"

definition gate_relay ::
  "gate_cfg \<Rightarrow> int \<Rightarrow> parsed option \<Rightarrow> (string \<Rightarrow> string option) \<Rightarrow> identity \<Rightarrow> bool" where
  "gate_relay c now p query d =
     (if ga_ingress c \<noteq> None then id_role d = Some ''relay''
      else let w = (case p of None \<Rightarrow> [] | Some x \<Rightarrow> pa_window x); cap = or_empty (window_part 2 w)
           in ga_verify c now (if cap \<noteq> [] then Some cap else query ''cap'') ''relay'')"

section \<open>A new frame on its parent's host\<close>

text \<open>\<open>bindChildFrame\<close>: None where it does not apply. The frame is sent to its own realm and admitted there once.\<close>

definition bindChildFrame ::
  "gate_cfg \<Rightarrow> int \<Rightarrow> http_request \<Rightarrow> identity \<Rightarrow> string \<Rightarrow> parsed \<Rightarrow> gate_state \<Rightarrow> (gate_state \<times> gate_verdict) option" where
  "bindChildFrame c now q d physical p st =
     (let P = gc_platform (ga_gw c); R = gc_realms (ga_gw c); g = gs_gw st; h = headers_of q;
          relay = (if id_relay d \<noteq> [] then id_relay d else ga_relay c)
      in if hq_method q \<noteq> ''GET'' \<or> hd_dest h \<noteq> Some ''iframe'' \<or> hd_mode h \<noteq> Some ''navigate''
            \<or> hd_site h \<noteq> Some ''same-origin'' \<or> \<not> rt_isIframe (en_rtype (ga_engine c) (pa_type p)) then None
         else case original P (gw_registry g) physical of
           None \<Rightarrow> None
         | Some owner \<Rightarrow>
             if rl_resourceOnly owner then None
             else let dest = webUrl (pa_dest p)
                  in case pf_url P dest of
                       None \<Rightarrow> None
                     | Some u \<Rightarrow>
                         if u_origin u = rl_origin owner
                            \<or> hd (js_split (CHR ''~'') (pa_window p)) \<noteq> contextToken P R (rl_context owner) then None
                         else (case gate_url c dest (rl_context owner) (pa_type p) (pa_window p) relay (gw_registry g) of
                           (target, reg) \<Rightarrow>
                             let grants = filter (\<lambda>e. \<not> fg_expires (snd e) \<le> now) (gs_grants st);
                                 grant = \<lparr>fg_expires = now + 60000, fg_lease = id_lease d, fg_source = owner\<rparr>
                             in Some (st\<lparr>gs_gw := g\<lparr>gw_registry := reg\<rparr>,
                                        gs_grants := (if length grants < 1024
                                          then kv_set (gc_href (ga_gw c) target) grant grants else grants)\<rparr>,
                                      Redirect 302 target)))"

section \<open>Headers\<close>

definition client_header :: "string \<Rightarrow> bool" where
  "client_header n \<longleftrightarrow>
     (\<exists>p \<in> {''x-vt-'', ''cf-'', ''x-forwarded-'', ''x-original-''}. starts_with p n) \<or>
     n \<in> {''is-api-request'', ''forwarded'', ''x-real-ip'', ''true-client-ip'', ''cdn-loop''}"

definition scrub :: "http_request \<Rightarrow> http_request" where
  "scrub q = q\<lparr>hq_headers := filter (\<lambda>e. \<not> client_header (fst e)) (hq_headers q)\<rparr>"

definition GOOGLE_PINNED_UA :: string where
  "GOOGLE_PINNED_UA = ''Mozilla/5.0 (Macintosh; Intel Mac OS X 10_15_7) AppleWebKit/605.1.15 (KHTML, like Gecko) Version/26.6.2 Safari/605.1.15''"

definition pin_google :: "gate_cfg \<Rightarrow> parsed \<Rightarrow> http_request \<Rightarrow> http_request" where
  "pin_google c p q =
     (case pf_url (gc_platform (ga_gw c)) (webUrl (pa_dest p)) of
        None \<Rightarrow> q
      | Some u \<Rightarrow>
          if isGoogleHost (u_hostname u)
          then q\<lparr>hq_headers := filter (\<lambda>e. fst e \<notin> set GOOGLE_CLIENT_HINTS)
                   (kv_set ''user-agent'' GOOGLE_PINNED_UA (hq_headers q))\<rparr>
          else q)"

text \<open>The empty answer an advertising host gets: the headers a page's CORS request needs to read it.\<close>

definition blocked_headers :: "http_request \<Rightarrow> (string \<times> string) list" where
  "blocked_headers q =
     [(''Cache-Control'', ''no-store'')] @
     (if present (hget q ''origin'')
      then [(''Access-Control-Allow-Origin'', the (hget q ''origin'')), (''Access-Control-Allow-Credentials'', ''true''),
            (''Vary'', ''Origin'')] else []) @
     (if hq_method q = ''OPTIONS''
      then [(''Access-Control-Allow-Methods'',
              if present (hget q ''access-control-request-method'') then the (hget q ''access-control-request-method'') else ''GET''),
            (''Access-Control-Allow-Headers'', or_empty (hget q ''access-control-request-headers'')),
            (''Access-Control-Max-Age'', ''600'')] else [])"

definition ad_blocked :: "gate_cfg \<Rightarrow> parsed \<Rightarrow> http_request \<Rightarrow> gate_state \<Rightarrow> bool" where
  "ad_blocked c p q st \<longleftrightarrow>
     gs_adblock st \<and> \<not> hq_upgrade q \<and> hget q ''sec-fetch-dest'' \<noteq> Some ''document'' \<and>
     (case pf_url (gc_platform (ga_gw c)) (webUrl (pa_dest p)) of None \<Rightarrow> False | Some u \<Rightarrow> blocks (u_hostname u))"

section \<open>A navigation of the tab\<close>

definition from_parent :: "gate_cfg \<Rightarrow> http_request \<Rightarrow> bool" where
  "from_parent c q =
     (case hget q ''referer'' of
        None \<Rightarrow> False
      | Some r \<Rightarrow> (case pf_url (gc_platform (ga_gw c)) r of None \<Rightarrow> False | Some u \<Rightarrow> u_origin u = ga_parent c))"

definition window_tab :: "parsed \<Rightarrow> gateway \<Rightarrow> tab option" where
  "window_tab p g = Option.bind (window_part 1 (pa_window p)) (map_of (gw_tabTokens g))"

text \<open>\<open>captureNavigation\<close>, with the challenge page as its answer.\<close>

definition gate_capture :: "gate_cfg \<Rightarrow> int \<Rightarrow> string \<Rightarrow> parsed \<Rightarrow> tab \<Rightarrow> http_request \<Rightarrow> gate_state \<Rightarrow> gate_state \<times> gate_verdict" where
  "gate_capture c now challenge p t q st =
     (case hq_body q of
        None \<Rightarrow> (st, Denied 400)
      | Some body \<Rightarrow>
          (case gw_capture (ga_gw c) now challenge (pa_dest p) (hq_method q) body (or_empty (hget q ''content-type'')) t (gs_gw st) of
             (g, None) \<Rightarrow> (st\<lparr>gs_gw := g\<rparr>, Denied 400)
           | (g, Some ch) \<Rightarrow> (st\<lparr>gs_gw := g\<rparr>, ChallengePage ch (tb_tabId t) (tb_epoch t))))"

text \<open>What a navigation without an admission is: captured for approval, the tab's own, refused, or not one of the tab.\<close>

datatype own_nav = Captured tab | OwnNavigation | NotOwn | Refuse

definition tab_navigation ::
  "gate_cfg \<Rightarrow> bool \<Rightarrow> identity \<Rightarrow> string \<Rightarrow> parsed \<Rightarrow> http_request \<Rightarrow> realm \<Rightarrow> realm option \<Rightarrow> bool \<Rightarrow> gate_state \<Rightarrow> own_nav" where
  "tab_navigation c auth d physical p q target source admitted st =
     (let P = gc_platform (ga_gw c); t = window_tab p (gs_gw st); h = headers_of q
      in if hq_upgrade q \<or> admitted \<or> hd_mode h \<noteq> Some ''navigate'' \<or> hd_dest h \<noteq> Some ''iframe''
            \<or> rt_isIframe (en_rtype (ga_engine c) (pa_type p))
            \<or> map_option rl_origin source = Some (url_origin_of P (pa_dest p)) then NotOwn
         else let leaseOk = (ga_ingress c = None \<or> (case t of None \<Rightarrow> False | Some x \<Rightarrow> tb_lease x = id_lease d))
              in if auth \<and> map_option tb_physical t = map_option rl_physical source \<and> leaseOk \<and> authorizeResource source target
                 then Captured (the t)
                 else if auth \<and> from_parent c q \<and> source = None \<and> t \<noteq> None \<and> leaseOk
                 then if tb_physical (the t) = physical then OwnNavigation else Captured (the t)
                 else Refuse)"

text \<open>The grant of \<open>bindChildFrame\<close> for this address, which goes when it is used.\<close>

definition take_grant ::
  "gate_cfg \<Rightarrow> int \<Rightarrow> identity \<Rightarrow> http_request \<Rightarrow> string \<Rightarrow> bool \<Rightarrow> gate_state \<Rightarrow> gate_state \<times> frame_grant option" where
  "take_grant c now d q key admitted st =
     (if hq_upgrade q \<or> admitted \<or> hget q ''sec-fetch-mode'' \<noteq> Some ''navigate'' \<or> hget q ''sec-fetch-dest'' \<noteq> Some ''iframe''
      then (st, None)
      else case map_of (gs_grants st) key of
        None \<Rightarrow> (st, None)
      | Some f \<Rightarrow>
          if fg_expires f > now \<and> (ga_ingress c = None \<or> fg_lease f = id_lease d)
          then (st\<lparr>gs_grants := kv_delete key (gs_grants st)\<rparr>, Some f) else (st, None))"

text \<open>The method and headers of an approved navigation replace the request's.\<close>

definition replay_request :: "nav_rec \<Rightarrow> http_request \<Rightarrow> http_request" where
  "replay_request r q =
     q\<lparr>hq_method := nv_method r,
       hq_headers := kv_set ''content-length'' (dec (length (nv_body r)))
         (if nv_contentType r = [] then hq_headers q else kv_set ''content-type'' (nv_contentType r) (hq_headers q))\<rparr>"

definition cookie_context_for :: "gate_cfg \<Rightarrow> realm \<Rightarrow> admission option \<Rightarrow> parsed \<Rightarrow> string \<Rightarrow> string" where
  "cookie_context_for c target navigation p verb =
     (let P = gc_platform (ga_gw c)
      in case navigation of
           None \<Rightarrow> cookieContext P target
         | Some a \<Rightarrow>
             if ad_cross a \<or> (present (ad_sourceOrigin a) \<and> \<not> sameSite P (the (ad_sourceOrigin a)) (pa_dest p))
             then if verb \<in> {''GET'', ''HEAD''} then ''lax'' else ''none''
             else cookieContext P target)"

section \<open>A request for a website's resource\<close>

text \<open>The admission of the request, once its realm is known: what was refused, captured or may go on.\<close>

datatype admitted =
    Answered gate_verdict
  | Admitted "realm option" "admission option" "nav_rec option"

definition gate_admit ::
  "gate_cfg \<Rightarrow> int \<Rightarrow> string \<Rightarrow> bool \<Rightarrow> identity \<Rightarrow> string \<Rightarrow> parsed \<Rightarrow> http_request \<Rightarrow> realm \<Rightarrow> gate_state \<Rightarrow> gate_state \<times> admitted" where
  "gate_admit c now challenge auth d physical p q target st =
     (let P = gc_platform (ga_gw c); g = gs_gw st; h = headers_of q; key = gc_href (ga_gw c) (physical @ hq_url q);
          candidate = gw_candidate now (from_parent c q) key g;
          source = sourceRecord P h target (gw_registry g);
          own = tab_navigation c auth d physical p q target source (candidate \<noteq> None) st
      in case own of
           Refuse \<Rightarrow> (st, Answered (Denied 403))
         | Captured t \<Rightarrow> (case gate_capture c now challenge p t q st of (st', v) \<Rightarrow> (st', Answered v))
         | _ \<Rightarrow>
             (case take_grant c now d q key (candidate \<noteq> None) st of
                (st1, grant) \<Rightarrow>
                  let dc = authorizeRequest P h target (gw_registry g)
                             \<lparr>op_approvedMain = candidate \<noteq> None \<or> grant \<noteq> None \<or> own = OwnNavigation,
                              op_websocket = hq_upgrade q, op_workerModule = rt_isWorkerModule (en_rtype (ga_engine c) (pa_type p))\<rparr>;
                      src = (case dc_source dc of None \<Rightarrow> map_option fg_source grant | Some s \<Rightarrow> Some s)
                  in if \<not> dc_allowed dc then (st1, Answered (Denied 403))
                     else case candidate of
                       None \<Rightarrow> (st1, Admitted src None None)
                     | Some a \<Rightarrow>
                         if \<not> dc_navigation dc then (st1, Admitted src None None)
                         else (case gw_spend now key a (gs_gw st1) of
                           (g', None) \<Rightarrow> (st1\<lparr>gs_gw := g'\<rparr>, Answered (Denied 403))
                         | (g', Some r) \<Rightarrow> (st1\<lparr>gs_gw := g'\<rparr>, Admitted src (Some a) r))))"

text \<open>The last checks: worker modules, fetch metadata, and what only a signed-in session may load.\<close>

definition gate_final :: "bool \<Rightarrow> http_request \<Rightarrow> bool" where
  "gate_final auth q \<longleftrightarrow>
     (hq_upgrade q \<or> present (hget q ''sec-fetch-mode'') \<and> present (hget q ''sec-fetch-dest'')) \<and>
     (hget q ''sec-fetch-mode'' = Some ''navigate'' \<longrightarrow> auth \<and> hget q ''sec-fetch-dest'' = Some ''iframe'') \<and>
     (hget q ''sec-fetch-dest'' \<in> {Some ''document'', Some ''iframe'', Some ''object'', Some ''embed'', Some ''serviceworker''} \<longrightarrow> auth)"

text \<open>A worker module keeps the window id of its context; None is the refusal.\<close>

definition gate_workerModule :: "gate_cfg \<Rightarrow> parsed \<Rightarrow> http_request \<Rightarrow> realm \<Rightarrow> gate_state \<Rightarrow> gate_state option" where
  "gate_workerModule c p q target st =
     (if hget q ''sec-fetch-mode'' = Some ''navigate'' then None
      else map_option (\<lambda>(r, w, reg). st\<lparr>gs_gw := (gs_gw st)\<lparr>gw_registry := reg\<rparr>\<rparr>)
             (realm_map c (cx_documentOrigin (rl_context target)) (rl_context target) (en_workerKind (ga_engine c))
               (pa_window p) [] (gw_registry (gs_gw st))))"

definition gate_cacheKey :: "gate_cfg \<Rightarrow> identity \<Rightarrow> string \<Rightarrow> parsed \<Rightarrow> bool \<Rightarrow> string list" where
  "gate_cacheKey c d physical p worker =
     (if worker
      then scriptCacheKey physical (en_session (ga_engine c)) (pa_window p) (en_workerKind (ga_engine c)) ''utf-8'' (pa_dest p)
             (or_empty (window_part 2 (pa_window p)))
      else scriptCacheKey physical (en_session (ga_engine c)) (pa_window p) (pa_type p) (pa_charset p) (pa_dest p)
             (if id_relay d = [] then ga_relay c else id_relay d))"

definition gate_parsed ::
  "gate_cfg \<Rightarrow> int \<Rightarrow> string \<Rightarrow> bool \<Rightarrow> identity \<Rightarrow> string \<Rightarrow> string \<Rightarrow> parsed \<Rightarrow> http_request \<Rightarrow> realm \<Rightarrow> gate_state \<Rightarrow> gate_state \<times> gate_verdict" where
  "gate_parsed c now challenge auth d physical host p q0 target st =
     (let E = ga_engine c; t = en_rtype E (pa_type p); q = pin_google c p q0
      in if pa_session p \<noteq> en_session E \<or> \<not> realm_verify c (gw_registry (gs_gw st)) host (webUrl (pa_dest p)) then (st, Denied 403)
         else if ad_blocked c p q st then (st, Blocked (blocked_headers q))
         else if rt_isWorkerModule t \<and> pa_type p \<noteq> en_workerKind E then (st, Denied 403)
         else if hq_upgrade q \<noteq> rt_isWebSocket t then (st, Denied 403)
         else case gate_admit c now challenge auth d physical p q target st of
           (st1, Answered v) \<Rightarrow> (st1, v)
         | (st1, Admitted source navigation rp) \<Rightarrow>
             (let q1 = (case rp of None \<Rightarrow> q | Some r \<Rightarrow> replay_request r q);
                  pass = \<lparr>ps_method = hq_method q1, ps_headers = hq_headers q1, ps_role = (if auth then ''auth'' else ''relay''),
                          ps_realm = target, ps_source = source, ps_navigation = navigation, ps_replay = rp,
                          ps_cookie = cookie_context_for c target navigation p (hq_method q1),
                          ps_cacheKey = gate_cacheKey c d physical p (rt_isWorkerModule t),
                          ps_workerCsp = (rt_isWorkerModule t \<or> hget q ''sec-fetch-dest'' = Some ''worker'')\<rparr>
              in case (if rt_isWorkerModule t then gate_workerModule c p q target st1 else Some st1) of
                   None \<Rightarrow> (st1, Denied 403)
                 | Some st2 \<Rightarrow> if gate_final auth q then (st2, Pass pass) else (st2, Denied 403)))"

section \<open>The proxy's own addresses\<close>

definition plain_pass :: "bool \<Rightarrow> realm \<Rightarrow> http_request \<Rightarrow> passed" where
  "plain_pass auth target q =
     \<lparr>ps_method = hq_method q, ps_headers = hq_headers q, ps_role = (if auth then ''auth'' else ''relay''), ps_realm = target,
      ps_source = None, ps_navigation = None, ps_replay = None, ps_cookie = [], ps_cacheKey = [], ps_workerCsp = False\<rparr>"

text \<open>The request comes from a document of this very host.\<close>

definition same_document :: "gate_cfg \<Rightarrow> http_request \<Rightarrow> realm \<Rightarrow> string \<Rightarrow> gate_state \<Rightarrow> bool" where
  "same_document c q target physical st \<longleftrightarrow>
     map_option rl_physical (sourceRecord (gc_platform (ga_gw c)) (headers_of q) target (gw_registry (gs_gw st))) = Some physical"

definition gate_navigationPage :: "gate_cfg \<Rightarrow> bool \<Rightarrow> identity \<Rightarrow> http_request \<Rightarrow> string \<Rightarrow> string option \<Rightarrow> gateway \<Rightarrow> gate_verdict" where
  "gate_navigationPage c auth d q physical i g =
     (case Option.bind i (nav_get (gw_navs g)) of
        None \<Rightarrow> Denied 403
      | Some r \<Rightarrow>
          (case tab_get g (nv_tabId r) of
             None \<Rightarrow> Denied 403
           | Some t \<Rightarrow>
               if \<not> auth \<or> hq_method q \<noteq> ''GET'' \<or> hget q ''sec-fetch-dest'' \<noteq> Some ''iframe''
                  \<or> hget q ''sec-fetch-mode'' \<noteq> Some ''navigate'' \<or> tb_physical t \<noteq> physical \<or> tb_epoch t \<noteq> nv_epoch r
                  \<or> nv_state r \<noteq> CAPTURED \<or> (ga_ingress c \<noteq> None \<and> tb_lease t \<noteq> id_lease d)
               then Denied 403 else ChallengePage (nv_challenge r) (tb_tabId t) (tb_epoch t)))"

definition gate_worker :: "gate_cfg \<Rightarrow> bool \<Rightarrow> http_request \<Rightarrow> realm \<Rightarrow> string \<Rightarrow> gate_state \<Rightarrow> gate_verdict" where
  "gate_worker c auth q target physical st =
     (let dest = hget q ''sec-fetch-dest''
      in if hq_upgrade q \<or> \<not> auth \<or> rl_resourceOnly target \<or> \<not> same_document c q target physical st then Denied 403
         else if hq_method q = ''POST'' \<and> hget q ''origin'' = Some physical \<and> (\<not> present dest \<or> dest = Some ''empty'')
         then Pass (plain_pass auth target q)
         else if hq_method q = ''GET'' \<and> dest = Some ''worker'' then Pass (plain_pass auth target q)
         else Denied 403)"

text \<open>The page's own scripts: a document of this host gets them, with the document as the referer.\<close>

definition gate_pageScript ::
  "gate_cfg \<Rightarrow> bool \<Rightarrow> identity \<Rightarrow> http_request \<Rightarrow> realm \<Rightarrow> string \<Rightarrow> string \<Rightarrow> (string \<Rightarrow> string option) \<Rightarrow> gate_state \<Rightarrow> gate_state \<times> gate_verdict" where
  "gate_pageScript c auth d q target physical host query st =
     (case query ''document'' of
        None \<Rightarrow> (st, Denied 403)
      | Some doc \<Rightarrow>
          if \<not> same_document c q target physical st \<or> doc = [] \<or> \<not> realm_verify c (gw_registry (gs_gw st)) host doc
          then (st, Denied 403)
          else let w = (case Option.bind (hget q ''referer'') (en_parse (ga_engine c)) of
                          Some r \<Rightarrow> if pa_window r \<noteq> [] then pa_window r else or_empty (query ''windowId'')
                        | None \<Rightarrow> or_empty (query ''windowId''));
                   relay = (if id_relay d \<noteq> [] then id_relay d else ga_relay c)
               in case gate_url c doc (rl_context target) [] w relay (gw_registry (gs_gw st)) of
                    (url, reg) \<Rightarrow>
                      (st\<lparr>gs_gw := (gs_gw st)\<lparr>gw_registry := reg\<rparr>\<rparr>,
                       Pass ((plain_pass auth target q)\<lparr>ps_headers := kv_set ''referer'' url (hq_headers q)\<rparr>)))"

definition gate_internal ::
  "gate_cfg \<Rightarrow> bool \<Rightarrow> identity \<Rightarrow> http_request \<Rightarrow> realm \<Rightarrow> string \<Rightarrow> string \<Rightarrow> string \<Rightarrow> (string \<Rightarrow> string option) \<Rightarrow> gate_state \<Rightarrow> gate_state \<times> gate_verdict" where
  "gate_internal c auth d q target physical host path query st =
     (if path = ''/__vt/worker'' then (st, gate_worker c auth q target physical st)
      else if hq_upgrade q \<or> hq_method q \<noteq> ''GET'' then (st, Denied 403)
      else if path \<in> {en_runtimePath (ga_engine c), ''/__vt/bridge.js'', ''/hammerhead.js'', ''/rammerhead.js'',
                       ''/worker-hammerhead.js'', ''/transport-worker.js''} then (st, Pass (plain_pass auth target q))
      else if \<not> auth \<or> rl_resourceOnly target then (st, Denied 403)
      else if path \<in> {''/__vt/map'', ''/__vt/origin'', ''/__vt/message-target''}
      then (st, if same_document c q target physical st then Pass (plain_pass auth target q) else Denied 403)
      else if path \<in> {''/task.js'', ''/iframe-task.js'', ''/__vt/client.js''}
      then gate_pageScript c auth d q target physical host query st
      else (st, Denied 403))"

section \<open>The gate\<close>

text \<open>The answer to \<open>/__vt/entry\<close>.\<close>

definition gate_entry :: "gate_cfg \<Rightarrow> int \<Rightarrow> http_request \<Rightarrow> identity \<Rightarrow> string \<Rightarrow> string option \<Rightarrow> gate_state \<Rightarrow> gate_state \<times> gate_verdict" where
  "gate_entry c now q d host ticket st =
     (case ticket of
        None \<Rightarrow> (st, Denied 403)
      | Some t \<Rightarrow>
          (case gw_entry (ga_gw c) now
              \<lparr>er_ticket = t, er_host = host, er_fromParent = from_parent c q, er_dest = hget q ''sec-fetch-dest'',
               er_role = or_empty (id_role d), er_lease = id_lease d\<rparr> (gs_gw st) of
             (g, None) \<Rightarrow> (st\<lparr>gs_gw := g\<rparr>, Denied 403)
           | (g, Some url) \<Rightarrow> (st\<lparr>gs_gw := g\<rparr>, Redirect 303 url)))"

definition gate_authorized ::
  "gate_cfg \<Rightarrow> int \<Rightarrow> string \<Rightarrow> http_request \<Rightarrow> identity \<Rightarrow> string \<Rightarrow> string \<Rightarrow> string \<Rightarrow> (string \<Rightarrow> string option) \<Rightarrow> parsed option \<Rightarrow>
   realm \<Rightarrow> gate_state \<Rightarrow> gate_state \<times> gate_verdict" where
  "gate_authorized c now challenge q0 d physical host path query p target st =
     (let auth = gate_auth c now q0 d
      in if \<not> auth \<and> \<not> gate_relay c now p query d then (st, Denied 401)
         else if length (named_cookies (or_empty (hget q0 ''cookie'')) (ga_cookieName c)) > 1 then (st, Denied 403)
         else if path = ''/__vt/navigation-error'' then (st, Denied 502)
         else if path = ''/__vt/navigation'' then (st, gate_navigationPage c auth d q0 physical (query ''id'') (gs_gw st))
         else case p of
           Some pa \<Rightarrow> gate_parsed c now challenge auth d physical host pa (scrub q0) target st
         | None \<Rightarrow> gate_internal c auth d (scrub q0) target physical host path query st)"

definition gate :: "gate_cfg \<Rightarrow> int \<Rightarrow> string \<Rightarrow> http_request \<Rightarrow> gate_state \<Rightarrow> gate_state \<times> gate_verdict" where
  "gate c now challenge q st0 =
     (case gate_identity c now q st0 of
        (st, None) \<Rightarrow> (st, Denied 401)
      | (st, Some d) \<Rightarrow>
          (let P = gc_platform (ga_gw c); E = ga_engine c; host = js_string (hget q ''host''); physical = ''https://'' @ host
           in case en_location E (hq_url q) physical of
                None \<Rightarrow> (st, Denied 400)
              | Some (path, query) \<Rightarrow>
                  (let p = en_parse E (physical @ hq_url q)
                   in case (case p of None \<Rightarrow> None
                            | Some pa \<Rightarrow> if hq_upgrade q then None else bindChildFrame c now q d physical pa st) of
                        Some answer \<Rightarrow> answer
                      | None \<Rightarrow>
                          (case (case p of
                                   None \<Rightarrow> Some (gw_registry (gs_gw st))
                                 | Some pa \<Rightarrow> map_option snd (recover P (gc_realms (ga_gw c)) host (webUrl (pa_dest pa))
                                                 (hd (js_split (CHR ''~'') (pa_window pa))) (gw_registry (gs_gw st)))) of
                             None \<Rightarrow> (st, Denied 403)
                           | Some reg \<Rightarrow>
                               (let st1 = st\<lparr>gs_gw := (gs_gw st)\<lparr>gw_registry := reg\<rparr>\<rparr>
                                in case original P reg physical of
                                     None \<Rightarrow> (st1, Denied 421)
                                   | Some target \<Rightarrow>
                                       if path = ''/__vt/entry'' \<and> \<not> hq_upgrade q \<and> hq_method q = ''GET''
                                       then gate_entry c now q d host (query ''ticket'') st1
                                       else gate_authorized c now challenge q d physical host path query p target st1)))))"

end
