(* ===== verification/BlControlProps.thy ===== *)
theory BlControlProps
  imports BlControl BlTabsProps
begin

text \<open>
  The command ledger performs each numbered command of a toolbar tab once. A ghost log notes when a
  lane begins and what it performs; the lanes are shown to tell that log.
\<close>

section \<open>The log of what was performed\<close>

datatype happening = Began string | Did string int string "control_error + control_result"

text \<open>What a client's lane has performed since it began, the newest first.\<close>

fun since :: "string \<Rightarrow> happening list \<Rightarrow> (int \<times> string \<times> (control_error + control_result)) list" where
  "since cid [] = []"
| "since cid (Began k # ns) = (if k = cid then [] else since cid ns)"
| "since cid (Did k op fp out # ns) = (if k = cid then (op, fp, out) # since cid ns else since cid ns)"

definition fp_of :: "ledger_cfg \<Rightarrow> command \<Rightarrow> string" where
  "fp_of c q = lc_fingerprint c (cm_name q) (cm_body q)"

definition noted ::
  "ledger_cfg \<Rightarrow> int \<Rightarrow> command \<Rightarrow> control_state \<Rightarrow> (control_error + control_result) \<Rightarrow> verdict option \<Rightarrow> happening list \<Rightarrow> happening list" where
  "noted c now q s out v tr =
     (if v = Some Perform
      then Did (cm_client q) (cm_operation q) (fp_of c q) out #
             (if map_of (fst (ledger_collect now s)) (cm_client q) = None then [Began (cm_client q)] else []) @ tr
      else tr)"

inductive control_reach :: "ledger_cfg \<Rightarrow> gateway \<Rightarrow> control_state \<Rightarrow> happening list \<Rightarrow> bool" for c g0 where
  start: "control_reach c g0 ([], g0) []"
| run: "control_reach c g0 s tr \<Longrightarrow> ledger_run c now d q s = (s', out, v) \<Longrightarrow>
     control_reach c g0 s' (noted c now q s out v tr)"
| touch: "control_reach c g0 s tr \<Longrightarrow> control_reach c g0 (fst (ledger_touch c now cid owner s)) tr"
| revoke: "control_reach c g0 s tr \<Longrightarrow> control_reach c g0 (ledger_revoke owner s) tr"
| collect: "control_reach c g0 s tr \<Longrightarrow> control_reach c g0 (ledger_collect now s) tr"

text \<open>A lane tells the log: it performed the operations 1 to its number, and keeps the last.\<close>

definition lane_tells :: "happening list \<Rightarrow> string \<Rightarrow> lane \<Rightarrow> bool" where
  "lane_tells tr cid l \<longleftrightarrow>
     1 \<le> ln_operation l \<and> map fst (since cid tr) = rev [1..ln_operation l] \<and>
     (\<exists>fp out. hd (since cid tr) = (ln_operation l, fp, out) \<and> ln_fingerprint l = Some fp \<and> ln_outcome l = Some out)"

definition lanes_tell :: "happening list \<Rightarrow> (string \<times> lane) list \<Rightarrow> bool" where
  "lanes_tell tr ls \<longleftrightarrow> distinct (map fst ls) \<and> (\<forall>e \<in> set ls. lane_tells tr (fst e) (snd e))"

lemma lanes_tell_filter: "lanes_tell tr ls \<Longrightarrow> lanes_tell tr (filter P ls)"
  by (simp add: lanes_tell_def distinct_map_filter)

lemma lane_put_keys: "map fst (lane_put cid l ls) = map fst ls"
  by (simp add: lane_put_def comp_def case_prod_beta)

lemma lane_put_in: "e \<in> set (lane_put cid l ls) \<Longrightarrow> fst e = cid \<and> snd e = l \<or> fst e \<noteq> cid \<and> e \<in> set ls"
  by (auto simp: lane_put_def split: if_splits)

lemma lane_put_get: "map_of ls cid \<noteq> None \<Longrightarrow> map_of (lane_put cid l ls) cid = Some l"
  unfolding lane_put_def by (induction ls) auto

lemma lanes_tell_put:
  assumes "lanes_tell tr ls" "lane_tells tr cid l"
  shows "lanes_tell tr (lane_put cid l ls)"
  using assms by (auto simp: lanes_tell_def lane_put_keys dest!: lane_put_in)

lemma lane_tells_touch [simp]: "lane_tells tr cid (l\<lparr>ln_expires := x\<rparr>) = lane_tells tr cid l"
  by (simp add: lane_tells_def)

lemma lanes_tell_get: "lanes_tell tr ls \<Longrightarrow> map_of ls cid = Some l \<Longrightarrow> lane_tells tr cid l"
  by (auto simp: lanes_tell_def dest!: map_of_SomeD)

lemma ledger_collect_lanes: "fst (ledger_collect now s) = filter (\<lambda>e. \<not> ln_expires (snd e) \<le> now) (fst s)"
  by (simp add: ledger_collect_def ledger_drop_def)

lemma ledger_evict_lanes: "\<exists>P. fst (ledger_evict es s) = filter P (fst s)"
  by (auto simp: ledger_evict_def Let_def split: prod.split)

lemma evict_if: "s1 = (if b then ledger_evict es s else s) \<Longrightarrow> \<exists>P. fst s1 = filter P (fst s)"
proof (cases b)
  case True
  assume "s1 = (if b then ledger_evict es s else s)"
  then show ?thesis using ledger_evict_lanes [of es s] True by simp
next
  case False
  assume "s1 = (if b then ledger_evict es s else s)"
  then have "fst s1 = filter (\<lambda>_. True) (fst s)" using False by simp
  then show ?thesis by blast
qed

text \<open>What finding a client's lane does: nothing when it is there, else it begins a new one.\<close>

lemma ledger_lane_cases:
  assumes "ledger_lane c cid op i owner s = Some (l, s')"
  obtains (found) "map_of (fst s) cid = Some l" "s' = s"
  | (began) P where "map_of (fst s) cid = None" "op = 1" "ln_operation l = 0" "ln_tabId l = i" "ln_owner l = owner"
      "fst s' = filter P (fst s) @ [(cid, l)]"
proof (cases "map_of (fst s) cid")
  case (Some x)
  then have "x = l \<and> s = s'" using assms unfolding ledger_lane_def by (simp only: option.case option.inject prod.inject)
  then show ?thesis using found Some by blast
next
  case None
  define s1 where "s1 = (let es = filter (\<lambda>e. \<not> ln_closed (snd e)) (fst s) in if lc_limit c \<le> length es then ledger_evict es s else s)"
  define s2 where "s2 = (if 4096 \<le> length (fst s1) then ledger_evict (fst s1) s1 else s1)"
  obtain P1 where P1: "fst s1 = filter P1 (fst s)"
    using evict_if [of s1 _ _ s] unfolding s1_def Let_def by blast
  obtain P2 where P2: "fst s2 = filter P2 (fst s1)"
    using evict_if [of s2 _ _ s1] unfolding s2_def by blast
  have P: "fst s2 = filter (\<lambda>e. P2 e \<and> P1 e) (fst s)" unfolding P2 P1 filter_filter by (simp only: conj_commute)
  have "(if op \<noteq> 1 then None
         else let l = \<lparr>ln_operation = 0, ln_tabId = i, ln_owner = owner, ln_expires = 0, ln_fingerprint = None,
                        ln_outcome = None, ln_closed = False\<rparr> in Some (l, (fst s2 @ [(cid, l)], snd s2))) = Some (l, s')"
    using assms unfolding ledger_lane_def None s2_def s1_def Let_def by (simp only: option.case)
  then have "op = 1 \<and> ln_operation l = 0 \<and> ln_tabId l = i \<and> ln_owner l = owner \<and> fst s' = fst s2 @ [(cid, l)]"
    by (cases "op = 1") (auto simp: Let_def)
  then show ?thesis using began [OF None, of "\<lambda>e. P2 e \<and> P1 e"] unfolding P by blast
qed

lemma judge_began: "ln_operation l = 0 \<Longrightarrow> ln_tabId l = i \<Longrightarrow> judge l 1 fp i = Perform"
  by (simp add: judge_def)

lemma lane_done_simps [simp]:
  "ln_operation (lane_done op fp out l) = op" "ln_fingerprint (lane_done op fp out l) = Some fp"
  "ln_outcome (lane_done op fp out l) = Some out" "ln_owner (lane_done op fp out l) = ln_owner l"
  "ln_expires (lane_done op fp out l) = ln_expires l"
  by (simp_all add: lane_done_def Let_def split: sum.split control_result.split)

lemma judge_touch [simp]: "judge (l\<lparr>ln_expires := x\<rparr>) op fp i = judge l op fp i"
  by (simp add: judge_def)

lemma judge_Perform: "judge l op fp i = Perform \<Longrightarrow> op = ln_operation l + 1"
  by (auto simp: judge_def split: if_splits option.splits)

lemma judge_Replay:
  "judge l op fp i = Replay out \<Longrightarrow> op = ln_operation l \<and> ln_fingerprint l = Some fp \<and> ln_outcome l = Some out"
  by (auto simp: judge_def split: if_splits option.splits)

text \<open>The ways a command can end; \<open>s0\<close> is the state after the expired lanes are gone.\<close>

lemma ledger_run_cases:
  assumes r: "ledger_run c now d q s = (s', out, v)" and s0: "s0 = ledger_collect now s"
  obtains (refused) e where "v = None" "s' = s0" "out = Inl e"
  | (answered) l a where "v = Some a" "a \<noteq> Perform" "map_of (fst s0) (cm_client q) = Some l"
      "judge l (cm_operation q) (fp_of c q) (cb_tabId (cm_body q)) = a" "a = Replay out \<or> (\<exists>e. a = Deny e \<and> out = Inl e)"
      "s' = (lane_put (cm_client q) (l\<lparr>ln_expires := now + lc_ttl c\<rparr>) (fst s0), snd s0)"
  | (performed) l ls g g' where "v = Some Perform" "valid_client (cm_client q)" "1 \<le> cm_operation q" "ln_owner l = cm_owner q"
      "gw_perform (lc_gateway c) now d (cm_owner q) (cm_name q) (cm_body q) g = (g', out)"
      "s' = (lane_put (cm_client q) (lane_done (cm_operation q) (fp_of c q) out (l\<lparr>ln_expires := now + lc_ttl c\<rparr>)) ls, g')"
      "map_of (fst s0) (cm_client q) = Some l \<and> cm_operation q = ln_operation l + 1 \<and> ls = fst s0 \<and> g = snd s0 \<or>
       map_of (fst s0) (cm_client q) = None \<and> cm_operation q = 1 \<and> (\<exists>P. ls = filter P (fst s0) @ [(cm_client q, l)])"
proof (cases "\<not> valid_client (cm_client q) \<or> cm_operation q < 1")
  case True
  then have "s' = s0" "v = None" "out = Inl InvalidOperation" using r unfolding ledger_run_def s0 Let_def by simp_all
  then show ?thesis by (intro refused)
next
  case ok: False
  show ?thesis
  proof (cases "ledger_lane c (cm_client q) (cm_operation q) (cb_tabId (cm_body q)) (cm_owner q) s0")
    case None
    then have "s' = s0" "v = None" "out = Inl TabExpired" using r ok unfolding ledger_run_def s0 Let_def by simp_all
    then show ?thesis by (intro refused)
  next
    case (Some p)
    obtain l ls g where p: "p = (l, (ls, g))" by (cases p) auto
    let ?v = "judge l (cm_operation q) (fp_of c q) (cb_tabId (cm_body q))"
    let ?l = "l\<lparr>ln_expires := now + lc_ttl c\<rparr>"
    have eq: "(if ln_owner l \<noteq> cm_owner q then ((ls, g), Inl SessionMismatch, None)
         else case ?v of
             Deny e \<Rightarrow> ((lane_put (cm_client q) ?l ls, g), Inl e, Some ?v)
           | Replay out \<Rightarrow> ((lane_put (cm_client q) ?l ls, g), out, Some ?v)
           | Perform \<Rightarrow> (case gw_perform (lc_gateway c) now d (cm_owner q) (cm_name q) (cm_body q) g of
                 (g', out) \<Rightarrow> ((lane_put (cm_client q) (lane_done (cm_operation q) (fp_of c q) out ?l) ls, g'), out, Some ?v)))
        = (s', out, v)"
      using r ok unfolding ledger_run_def Let_def Some [unfolded s0 p] judge_touch fp_of_def by (simp del: not_le)
    show ?thesis
    proof (rule ledger_lane_cases [OF Some [unfolded p]])
      assume f: "map_of (fst s0) (cm_client q) = Some l" "(ls, g) = s0"
      show ?thesis
      proof (cases "ln_owner l = cm_owner q")
        case False
        then have "s' = s0" "v = None" "out = Inl SessionMismatch" using eq f by simp_all
        then show ?thesis by (intro refused)
      next
        case own: True
        show ?thesis
        proof (cases ?v)
          case (Deny e)
          then show ?thesis using eq own f by (intro answered [of ?v l]) auto
        next
          case (Replay o')
          then show ?thesis using eq own f by (intro answered [of ?v l]) auto
        next
          case Perform
          obtain g' o' where g': "gw_perform (lc_gateway c) now d (cm_owner q) (cm_name q) (cm_body q) g = (g', o')"
            by (metis surj_pair)
          have "s' = (lane_put (cm_client q) (lane_done (cm_operation q) (fp_of c q) o' ?l) ls, g')" "out = o'" "v = Some Perform"
            using eq own Perform g' by auto
          then show ?thesis using ok own f g' judge_Perform [OF Perform] by (intro performed [of l g g' ls]) auto
        qed
      qed
    next
      fix P assume b: "map_of (fst s0) (cm_client q) = None" "cm_operation q = 1" "ln_operation l = 0"
        "ln_tabId l = cb_tabId (cm_body q)" "ln_owner l = cm_owner q" "fst (ls, g) = filter P (fst s0) @ [(cm_client q, l)]"
      have Perform: "?v = Perform" using judge_began b(2,3,4) by simp
      obtain g' o' where g': "gw_perform (lc_gateway c) now d (cm_owner q) (cm_name q) (cm_body q) g = (g', o')"
        by (metis surj_pair)
      have "s' = (lane_put (cm_client q) (lane_done (cm_operation q) (fp_of c q) o' ?l) ls, g')" "out = o'" "v = Some Perform"
        using eq b(5) Perform g' by auto
      then show ?thesis using ok b g' by (intro performed [of l g g' ls]) auto
    qed
  qed
qed

section \<open>Every operation once, in order\<close>

lemma lane_tells_done:
  assumes "map fst (since cid tr) = rev [1..ln_operation l]" "0 \<le> ln_operation l" "op = ln_operation l + 1"
  shows "lane_tells (Did cid op fp out # tr) cid (lane_done op fp out l)"
proof -
  have "[1..op] = [1..ln_operation l] @ [op]" using assms(2,3) by (simp add: upto_rec2)
  then show ?thesis using assms by (simp add: lane_tells_def)
qed

lemma since_other: "cid \<noteq> cm_client q \<Longrightarrow> since cid (noted c now q s out v tr) = since cid tr"
  by (auto simp: noted_def)

lemma lanes_tell_run:
  assumes t: "lanes_tell tr (fst s)" and r: "ledger_run c now d q s = (s', out, v)"
  shows "lanes_tell (noted c now q s out v tr) (fst s')"
proof -
  define s0 where "s0 = ledger_collect now s"
  have t0: "lanes_tell tr (fst s0)" unfolding s0_def ledger_collect_lanes by (rule lanes_tell_filter [OF t])
  from r s0_def show ?thesis
  proof (cases rule: ledger_run_cases)
    case refused
    then show ?thesis using t0 by (simp add: noted_def)
  next
    case (answered l a)
    then have "lane_tells tr (cm_client q) l" using lanes_tell_get [OF t0] by blast
    then show ?thesis using answered lanes_tell_put [OF t0] by (simp add: noted_def)
  next
    case (performed l ls g g')
    let ?l = "lane_done (cm_operation q) (fp_of c q) out (l\<lparr>ln_expires := now + lc_ttl c\<rparr>)"
    let ?tr = "noted c now q s out v tr"
    have other: "lane_tells ?tr k x = lane_tells tr k x" if "k \<noteq> cm_client q" for k x
      unfolding lane_tells_def since_other [OF that] ..
    have "lane_tells ?tr (cm_client q) ?l \<and> distinct (map fst ls) \<and>
        (\<forall>e \<in> set ls. fst e \<noteq> cm_client q \<longrightarrow> lane_tells tr (fst e) (snd e))"
      using performed(7)
    proof
      assume f: "map_of (fst s0) (cm_client q) = Some l \<and> cm_operation q = ln_operation l + 1 \<and> ls = fst s0 \<and> g = snd s0"
      then have l: "lane_tells tr (cm_client q) l" using lanes_tell_get [OF t0] by blast
      have "?tr = Did (cm_client q) (cm_operation q) (fp_of c q) out # tr"
        using performed(1) f by (simp add: noted_def s0_def)
      moreover have "lane_tells (Did (cm_client q) (cm_operation q) (fp_of c q) out # tr) (cm_client q) ?l"
        by (rule lane_tells_done) (use l f in \<open>simp_all add: lane_tells_def\<close>)
      ultimately show ?thesis using t0 f by (simp add: lanes_tell_def)
    next
      assume b: "map_of (fst s0) (cm_client q) = None \<and> cm_operation q = 1 \<and> (\<exists>P. ls = filter P (fst s0) @ [(cm_client q, l)])"
      then obtain P where P: "ls = filter P (fst s0) @ [(cm_client q, l)]" by blast
      have "?tr = Did (cm_client q) (cm_operation q) (fp_of c q) out # Began (cm_client q) # tr"
        using performed(1) b by (simp add: noted_def s0_def)
      moreover have "lane_tells (Did (cm_client q) (cm_operation q) (fp_of c q) out # Began (cm_client q) # tr) (cm_client q) ?l"
        using b by (simp add: lane_tells_def)
      moreover have "cm_client q \<notin> fst ` set (fst s0)" using b by (simp add: map_of_eq_None_iff)
      ultimately show ?thesis
        using t0 by (auto simp: P lanes_tell_def distinct_map_filter)
    qed
    then show ?thesis
      unfolding performed(6) by (auto simp: lanes_tell_def lane_put_keys other dest!: lane_put_in)
  qed
qed

lemma control_reach_tells: "control_reach c g0 s tr \<Longrightarrow> lanes_tell tr (fst s)"
proof (induction rule: control_reach.induct)
  case start
  then show ?case by (simp add: lanes_tell_def)
next
  case (run s tr now d q s' out v)
  then show ?case using lanes_tell_run by blast
next
  case (touch s tr now cid owner)
  let ?s0 = "ledger_collect now s"
  have t0: "lanes_tell tr (fst ?s0)" unfolding ledger_collect_lanes by (rule lanes_tell_filter [OF touch.IH])
  show ?case
  proof (cases "map_of (fst ?s0) cid")
    case None
    then show ?thesis using t0 by (simp add: ledger_touch_def Let_def)
  next
    case (Some l)
    then have "lane_tells tr cid (l\<lparr>ln_expires := x\<rparr>)" for x using lanes_tell_get [OF t0 Some] by simp
    then show ?thesis using t0 Some lanes_tell_put [OF t0] by (simp add: ledger_touch_def Let_def)
  qed
next
  case (revoke s tr owner)
  then show ?case by (simp add: ledger_revoke_def ledger_drop_def lanes_tell_filter)
next
  case (collect s tr now)
  then show ?case by (simp add: ledger_collect_lanes lanes_tell_filter)
qed

text \<open>Repeating the request just performed, before the lane expires, is answered from the lane.\<close>

lemma ledger_run_again:
  assumes t: "lanes_tell tr (fst s)" and r: "ledger_run c now d q s = (s', out, Some Perform)" and e: "now' < now + lc_ttl c"
  shows "\<exists>s''. ledger_run c now' d' q s' = (s'', out, Some (Replay out)) \<and> snd s'' = snd (ledger_collect now' s')"
proof -
  from r refl show ?thesis
  proof (cases rule: ledger_run_cases)
    case (performed l ls g g')
    let ?l = "lane_done (cm_operation q) (fp_of c q) out (l\<lparr>ln_expires := now + lc_ttl c\<rparr>)"
    have "lanes_tell (noted c now q s out (Some Perform) tr) (fst s')" by (rule lanes_tell_run [OF t r])
    then have dist: "distinct (map fst (fst s'))" by (simp add: lanes_tell_def)
    have "map_of ls (cm_client q) \<noteq> None" using performed(7) by (auto simp: map_add_def split: option.split)
    then have "map_of (fst s') (cm_client q) = Some ?l" using performed(6) lane_put_get by simp
    then have "(cm_client q, ?l) \<in> set (fst (ledger_collect now' s'))"
      using e by (auto simp: ledger_collect_lanes dest: map_of_SomeD)
    moreover have "distinct (map fst (fst (ledger_collect now' s')))"
      using dist by (simp add: ledger_collect_lanes distinct_map_filter)
    ultimately have l: "map_of (fst (ledger_collect now' s')) (cm_client q) = Some ?l" by (simp add: map_of_is_SomeI)
    have "judge (?l\<lparr>ln_expires := now' + lc_ttl c\<rparr>) (cm_operation q) (fp_of c q) (cb_tabId (cm_body q)) = Replay out"
      by (simp add: judge_def)
    then show ?thesis
      using performed(2,3,4) l unfolding ledger_run_def Let_def
      by (simp add: ledger_lane_def fp_of_def case_prod_beta)
  qed simp_all
qed

text \<open>C26. A toolbar's command is performed exactly once however often its request arrives: a lane performs
  its operations 1, 2, 3, ... in order and each once; the repetition of the last one, sent before the lane
  expires, is answered with the outcome recorded for it, an error included, without touching the
  gateway; a command that is refused performs nothing either.\<close>

theorem control_exactly_once:
  assumes reach: "control_reach c g0 s tr" and r: "ledger_run c now d q s = (s', out, v)"
  shows "case v of
      Some Perform \<Rightarrow>
        map fst (since (cm_client q) (noted c now q s out v tr)) = rev [1..cm_operation q] \<and>
        (\<exists>g. gw_perform (lc_gateway c) now d (cm_owner q) (cm_name q) (cm_body q) g = (snd s', out)) \<and>
        (\<forall>now' d'. now' < now + lc_ttl c \<longrightarrow>
          (\<exists>s''. ledger_run c now' d' q s' = (s'', out, Some (Replay out)) \<and> snd s'' = snd (ledger_collect now' s')))
    | Some (Replay o') \<Rightarrow>
        snd s' = snd (ledger_collect now s) \<and> o' = out \<and>
        (\<exists>rest. since (cm_client q) tr = (cm_operation q, fp_of c q, out) # rest)
    | _ \<Rightarrow> snd s' = snd (ledger_collect now s) \<and> (\<exists>e. out = Inl e)"
proof -
  have t: "lanes_tell tr (fst s)" by (rule control_reach_tells [OF reach])
  from r refl show ?thesis
  proof (cases rule: ledger_run_cases)
    case refused
    then show ?thesis by simp
  next
    case (answered l a)
    show ?thesis
    proof (cases a)
      case (Deny e)
      then show ?thesis using answered by auto
    next
      case (Replay o')
      then have o': "o' = out" "v = Some (Replay out)" using answered by auto
      have j: "cm_operation q = ln_operation l" "ln_fingerprint l = Some (fp_of c q)" "ln_outcome l = Some out"
        using judge_Replay answered(4) Replay o' by blast+
      have "lanes_tell tr (fst (ledger_collect now s))"
        unfolding ledger_collect_lanes by (rule lanes_tell_filter [OF t])
      from lanes_tell_get [OF this answered(3)]
      have "map fst (since (cm_client q) tr) = rev [1..ln_operation l]" "1 \<le> ln_operation l"
        "hd (since (cm_client q) tr) = (cm_operation q, fp_of c q, out)"
        using j by (auto simp: lane_tells_def)
      then have "since (cm_client q) tr = (cm_operation q, fp_of c q, out) # tl (since (cm_client q) tr)"
        by (cases "since (cm_client q) tr") auto
      then show ?thesis using o' answered(6) by auto
    next
      case Perform
      then show ?thesis using answered(2) by simp
    qed
  next
    case (performed l ls g g')
    have v: "v = Some Perform" by (rule performed(1))
    have "lanes_tell (noted c now q s out v tr) (fst s')" by (rule lanes_tell_run [OF t r])
    moreover have "map_of (fst s') (cm_client q) =
        Some (lane_done (cm_operation q) (fp_of c q) out (l\<lparr>ln_expires := now + lc_ttl c\<rparr>))"
      using performed(6,7) lane_put_get [of ls "cm_client q"] by (auto simp: map_add_def split: option.splits)
    ultimately have "map fst (since (cm_client q) (noted c now q s out v tr)) = rev [1..cm_operation q]"
      using lanes_tell_get by (fastforce simp: lane_tells_def)
    then show ?thesis
      using ledger_run_again [OF t r [unfolded v]] performed(5,6) unfolding v by auto
  qed
qed

definition demo_ledger :: ledger_cfg where
  "demo_ledger = \<lparr>lc_gateway = demo_cfg, lc_fingerprint = (\<lambda>n b. n), lc_ttl = 1000, lc_limit = 128\<rparr>"

definition demo_command :: command where
  "demo_command = \<lparr>cm_name = ''open'', cm_body = \<lparr>cb_url = ''https://x.a.com'', cb_tabId = None, cb_epoch = None,
     cb_opener = Undefined, cb_challenge = []\<rparr>, cm_client = replicate 36 (CHR ''a''), cm_operation = 1, cm_owner = None\<rparr>"

definition demo_draws :: draws where
  "demo_draws = \<lparr>dr_tabId = ''T'', dr_token = ''tok'', dr_ticket = ''tick'', dr_navTicket = ''nav''\<rparr>"

lemma control_exactly_once_witness:
  "\<exists>s' out s''. ledger_run demo_ledger 0 demo_draws demo_command ([], gw_empty demo_reg) = (s', out, Some Perform) \<and>
     ledger_run demo_ledger 5 demo_draws demo_command s' = (s'', out, Some (Replay out))"
proof -
  obtain s' out v where r: "ledger_run demo_ledger 0 demo_draws demo_command ([], gw_empty demo_reg) = (s', out, v)"
    by (metis surj_pair)
  have v: "v = Some Perform"
    using r by (auto simp: ledger_run_def Let_def ledger_collect_def ledger_drop_def ledger_lane_def demo_command_def
        demo_ledger_def valid_client_def judge_def split: prod.splits)
  have "\<forall>now' d'. now' < 0 + lc_ttl demo_ledger \<longrightarrow>
      (\<exists>s''. ledger_run demo_ledger now' d' demo_command s' = (s'', out, Some (Replay out)) \<and> snd s'' = snd (ledger_collect now' s'))"
    using control_exactly_once [OF control_reach.start r] unfolding v option.case verdict.case by blast
  moreover have "(5::int) < 0 + lc_ttl demo_ledger" by (simp add: demo_ledger_def)
  ultimately have "\<exists>s''. ledger_run demo_ledger 5 demo_draws demo_command s' = (s'', out, Some (Replay out))" by blast
  then show ?thesis using r unfolding v by blast
qed

end
