(* ===== verification/BlWorkersProps.thy ===== *)
theory BlWorkersProps
  imports BlWorkers
begin

text \<open>
  What the gateway's resource stores promise: worker sources stay with the realm that put them and
  within their limits, a revoked lease has no connection left, and upload buffers are counted exactly.
\<close>

section \<open>Maps as lists\<close>

lemma kv_set_in: "e \<in> set (kv_set k v xs) \<Longrightarrow> e = (k, v) \<or> e \<in> set xs"
  by (auto simp: kv_set_def split: if_splits)

lemma kv_delete_in: "e \<in> set (kv_delete k xs) \<Longrightarrow> e \<in> set xs"
  by (simp add: kv_delete_def)

lemma kv_delete_get: "map_of (kv_delete k xs) j = (if j = k then None else map_of xs j)"
  unfolding kv_delete_def by (induction xs) auto

text \<open>A sum over a map grows by at most the new entry, and shrinks by at least a deleted one.\<close>

lemma kv_set_sum: "sum_list (map f (kv_set k v xs)) \<le> sum_list (map f xs) + (f (k, v) :: nat)" if "distinct (map fst xs)"
proof (cases "map_of xs k = None")
  case True
  then show ?thesis by (simp add: kv_set_def)
next
  case False
  have "sum_list (map f (map (\<lambda>(a, b). (a, if a = k then v else b)) xs)) \<le> sum_list (map f xs) + f (k, v)"
    using that
  proof (induction xs)
    case (Cons e xs)
    show ?case
    proof (cases "fst e = k")
      case True
      then have "map (\<lambda>(a, b). (a, if a = k then v else b)) xs = xs"
        using Cons.prems by (intro map_idI) (auto simp: image_iff)
      then show ?thesis using True by (cases e) simp
    next
      case False
      then show ?thesis using Cons by (cases e) simp
    qed
  qed simp
  then show ?thesis using False by (simp add: kv_set_def)
qed

lemma kv_set_distinct: "distinct (map fst xs) \<Longrightarrow> distinct (map fst (kv_set k v xs))"
  by (auto simp: kv_set_def map_of_eq_None_iff comp_def case_prod_beta)

lemma kv_delete_sum: "map_of xs k = Some v \<Longrightarrow> sum_list (map f (kv_delete k xs)) + (f (k, v) :: nat) \<le> sum_list (map f xs)"
proof (induction xs)
  case (Cons e xs)
  have le: "sum_list (map f (kv_delete k xs)) \<le> sum_list (map f xs)"
    unfolding kv_delete_def by (induction xs) auto
  show ?case using Cons le by (cases "fst e = k") (auto simp: kv_delete_def split: if_splits)
qed simp

lemma kv_delete_distinct: "distinct (map fst xs) \<Longrightarrow> distinct (map fst (kv_delete k xs))"
  by (simp add: kv_delete_def distinct_map_filter)

section \<open>Worker sources\<close>

text \<open>What an entry counts for its realm.\<close>

definition own_bytes :: "string \<Rightarrow> string \<times> worker_item \<Rightarrow> nat" where
  "own_bytes p e = (if wi_physical (snd e) = p then length (wi_body (snd e)) else 0)"

definition own_count :: "string \<Rightarrow> string \<times> worker_item \<Rightarrow> nat" where
  "own_count p e = (if wi_physical (snd e) = p then 1 else 0)"

definition total_bytes :: "(string \<times> worker_item) list \<Rightarrow> nat" where
  "total_bytes es = sum_list (map (\<lambda>e. length (wi_body (snd e))) es)"

definition put_for :: "worker_event list \<Rightarrow> string \<Rightarrow> string \<Rightarrow> nat list \<Rightarrow> bool" where
  "put_for evs p wid body \<longleftrightarrow> (\<exists>now r meta k. Put now r p body meta k \<in> set evs \<and> (case k of None \<Rightarrow> r = wid | Some x \<Rightarrow> x = wid))"

definition worker_limits :: "worker_cfg \<Rightarrow> worker_store \<Rightarrow> bool" where
  "worker_limits c s \<longleftrightarrow>
     total_bytes (ws_entries s) \<le> ws_bytes s \<and> ws_bytes s \<le> wc_maxTotalBytes c \<and>
     length (ws_entries s) \<le> wc_maxTotalEntries c \<and>
     (\<forall>p. sum_list (map (own_bytes p) (ws_entries s)) \<le> wc_maxBytes c \<and>
          sum_list (map (own_count p) (ws_entries s)) \<le> wc_maxEntries c)"

definition worker_ok :: "worker_cfg \<Rightarrow> worker_event list \<Rightarrow> worker_store \<Rightarrow> bool" where
  "worker_ok c evs s \<longleftrightarrow>
     distinct (map fst (ws_entries s)) \<and> worker_limits c s \<and>
     (\<forall>e \<in> set (ws_entries s). put_for evs (wi_physical (snd e)) (fst e) (wi_body (snd e))) \<and>
     (\<forall>(w, wid, r) \<in> set (ws_answers s). r \<noteq> None \<longrightarrow> put_for evs (wt_physical w) wid (the r))"

lemma worker_ok_same:
  assumes "worker_ok c evs s" "ws_entries s' = ws_entries s" "ws_bytes s' = ws_bytes s" "ws_answers s' = ws_answers s"
  shows "worker_ok c evs s'"
  using assms by (simp add: worker_ok_def worker_limits_def)

lemma worker_remove_ok: "worker_ok c evs s \<Longrightarrow> worker_ok c evs (worker_remove k s)"
proof (cases "map_of (ws_entries s) k")
  case (Some item)
  assume ok: "worker_ok c evs s"
  note sum = kv_delete_sum [OF Some]
  let ?es = "kv_delete k (ws_entries s)"
  have L: "worker_limits c s" using ok by (simp add: worker_ok_def)
  have t: "total_bytes ?es + length (wi_body item) \<le> total_bytes (ws_entries s)"
    using sum [of "\<lambda>e. length (wi_body (snd e))"] by (simp add: total_bytes_def)
  have len: "length ?es \<le> length (ws_entries s)" by (simp add: kv_delete_def)
  have own: "sum_list (map (own_bytes p) ?es) \<le> wc_maxBytes c \<and> sum_list (map (own_count p) ?es) \<le> wc_maxEntries c" for p
    using sum [of "own_bytes p"] sum [of "own_count p"] L unfolding worker_limits_def by (meson add_leD1 le_trans)
  have "total_bytes ?es \<le> ws_bytes s - length (wi_body item)" "ws_bytes s - length (wi_body item) \<le> wc_maxTotalBytes c"
    "length ?es \<le> wc_maxTotalEntries c"
    using L t len unfolding worker_limits_def by linarith+
  then have "worker_limits c (worker_remove k s)" using own Some by (simp add: worker_limits_def worker_remove_def)
  moreover have "distinct (map fst ?es)" using ok by (simp add: worker_ok_def kv_delete_distinct)
  moreover have "\<forall>e \<in> set ?es. put_for evs (wi_physical (snd e)) (fst e) (wi_body (snd e))"
    using ok by (auto simp: worker_ok_def dest: kv_delete_in)
  ultimately show ?thesis using ok Some by (simp add: worker_ok_def worker_remove_def)
qed (simp add: worker_remove_def)

lemma worker_collect_ok: "worker_ok c evs s \<Longrightarrow> worker_ok c evs (worker_collect now s)"
proof -
  assume ok: "worker_ok c evs s"
  have "worker_ok c evs (fold (\<lambda>e s. if wi_expires (snd e) \<le> now then worker_remove (fst e) s else s) es s)" if "worker_ok c evs s" for es s
    using that by (induction es arbitrary: s) (simp_all add: worker_remove_ok)
  from this [OF ok] show ?thesis unfolding worker_collect_def Let_def by (rule worker_ok_same) simp_all
qed

lemma worker_answered:
  assumes "worker_ok c evs s" "r \<noteq> None \<Longrightarrow> put_for evs (wt_physical w) wid (the r)"
  shows "worker_ok c evs (s\<lparr>ws_answers := (w, wid, r) # ws_answers s\<rparr>)"
  using assms by (simp add: worker_ok_def worker_limits_def)

lemma worker_get_ok:
  assumes ok: "worker_ok c evs s" and g: "worker_get now p wid s = (s', r)"
  shows "worker_ok c evs s'" "r \<noteq> None \<Longrightarrow> put_for evs p wid (the r)"
proof -
  have s': "s' = worker_collect now s" using g by (simp add: worker_get_def Let_def)
  show ok': "worker_ok c evs s'" unfolding s' by (rule worker_collect_ok [OF ok])
  assume "r \<noteq> None"
  then obtain item where "map_of (ws_entries s') wid = Some item" "wi_physical item = p" "r = Some (wi_body item)"
    using g unfolding s' by (auto simp: worker_get_def Let_def split: option.splits if_splits)
  then show "put_for evs p wid (the r)" using ok' by (force simp: worker_ok_def dest: map_of_SomeD)
qed

lemma worker_settle_ok: "worker_ok c evs s \<Longrightarrow> worker_ok c evs (worker_settle now wid s)"
proof (cases "map_of (ws_waiters s) wid")
  case (Some ws)
  assume ok: "worker_ok c evs s"
  have one: "worker_ok c evs (worker_answer now wid w s)" if "worker_ok c evs s" for w s
  proof -
    obtain s' r where g: "worker_get now (wt_physical w) wid s = (s', r)" by (metis surj_pair)
    have "worker_ok c evs (s'\<lparr>ws_answers := (w, wid, r) # ws_answers s'\<rparr>)"
      by (rule worker_answered) (rule worker_get_ok [OF that g], assumption?)+
    then show ?thesis by (simp add: worker_answer_def g)
  qed
  have "worker_ok c evs (fold (worker_answer now wid) ws s)" if "worker_ok c evs s" for ws s
    using that by (induction ws arbitrary: s) (simp_all add: one)
  moreover have "worker_ok c evs (s\<lparr>ws_waiters := kv_delete wid (ws_waiters s)\<rparr>)" by (rule worker_ok_same [OF ok]) simp_all
  ultimately show ?thesis using Some by (simp add: worker_settle_def)
qed (simp add: worker_settle_def)

lemma worker_ok_more: "worker_ok c evs s \<Longrightarrow> worker_ok c (evs @ es2) s"
proof -
  assume ok: "worker_ok c evs s"
  have more: "put_for evs p wid body \<Longrightarrow> put_for (evs @ es2) p wid body" for p wid body
    unfolding put_for_def set_append by blast
  show ?thesis using ok unfolding worker_ok_def by (auto dest: more)
qed

lemma worker_put_ok:
  assumes ok: "worker_ok c evs s" and inn: "Put now r p body meta k \<in> set evs"
  shows "worker_ok c evs (fst (worker_put c now r p body meta k s))"
proof -
  define s0 where "s0 = worker_collect now s"
  have ok0: "worker_ok c evs s0" unfolding s0_def by (rule worker_collect_ok [OF ok])
  define wid where "wid = (case k of None \<Rightarrow> r | Some x \<Rightarrow> x)"
  define item where "item = \<lparr>wi_physical = p, wi_body = body, wi_metadata = meta, wi_expires = now + wc_ttl c\<rparr>"
  let ?es = "kv_set wid item (ws_entries s0)"
  define s1 where "s1 = s0\<lparr>ws_entries := ?es, ws_bytes := ws_bytes s0 + length body\<rparr>"
  have "fst (worker_put c now r p body meta k s) = s0 \<or>
    (fst (worker_put c now r p body meta k s) = worker_settle now wid s1 \<and>
     sum_list (map (length \<circ> wi_body) (own_items p s0)) + length body \<le> wc_maxBytes c \<and>
     length (own_items p s0) < wc_maxEntries c \<and> ws_bytes s0 + length body \<le> wc_maxTotalBytes c \<and>
     length (ws_entries s0) < wc_maxTotalEntries c)"
    unfolding worker_put_def Let_def s0_def [symmetric] wid_def [symmetric] item_def [symmetric] s1_def by auto
  moreover have "worker_ok c evs (worker_settle now wid s1)"
    if lim: "sum_list (map (length \<circ> wi_body) (own_items p s0)) + length body \<le> wc_maxBytes c"
      "length (own_items p s0) < wc_maxEntries c" "ws_bytes s0 + length body \<le> wc_maxTotalBytes c"
      "length (ws_entries s0) < wc_maxTotalEntries c"
  proof (rule worker_settle_ok)
    have d: "distinct (map fst (ws_entries s0))" and L: "worker_limits c s0" using ok0 by (simp_all add: worker_ok_def)
    note sum = kv_set_sum [OF d, of _ wid item]
    have "total_bytes ?es \<le> ws_bytes s0 + length body"
      using sum [of "\<lambda>e. length (wi_body (snd e))"] L by (simp add: total_bytes_def worker_limits_def item_def)
    moreover have "length ?es \<le> length (ws_entries s0) + 1" by (simp add: kv_set_def)
    moreover have "sum_list (map (own_bytes q) ?es) \<le> wc_maxBytes c \<and> sum_list (map (own_count q) ?es) \<le> wc_maxEntries c" for q
    proof (cases "q = p")
      case True
      have "sum_list (map (own_bytes p) es) = sum_list (map (length \<circ> wi_body) (filter (\<lambda>i. wi_physical i = p) (map snd es)))"
        "sum_list (map (own_count p) es) = length (filter (\<lambda>i. wi_physical i = p) (map snd es))" for es
        by (induction es) (simp_all add: own_bytes_def own_count_def)
      then show ?thesis
        using sum [of "own_bytes p"] sum [of "own_count p"] lim True by (simp add: own_items_def own_bytes_def own_count_def item_def)
    next
      case False
      then have "own_bytes q (wid, item) = 0" "own_count q (wid, item) = 0" by (simp_all add: own_bytes_def own_count_def item_def)
      then show ?thesis using sum [of "own_bytes q"] sum [of "own_count q"] L unfolding worker_limits_def
        by (metis add.right_neutral le_trans)
    qed
    ultimately have "worker_limits c s1" using lim by (simp add: worker_limits_def s1_def)
    moreover have "put_for evs p wid body"
      unfolding put_for_def wid_def using inn by (intro exI [of _ now] exI [of _ r] exI [of _ meta] exI [of _ k]) (simp split: option.split)
    ultimately show "worker_ok c evs s1"
      using ok0 kv_set_distinct [OF d] by (auto simp: worker_ok_def s1_def item_def dest!: kv_set_in)
  qed
  ultimately show ?thesis using ok0 by auto
qed

lemma worker_step_ok:
  assumes ok: "worker_ok c evs s" and inn: "e \<in> set evs"
  shows "worker_ok c evs (worker_step c s e)"
proof (cases e)
  case (Put now r p body meta k)
  then show ?thesis using worker_put_ok [OF ok] inn by simp
next
  case (Fail now p k)
  have "worker_ok c evs (worker_collect now s)" by (rule worker_collect_ok [OF ok])
  then have "worker_ok c evs ((worker_collect now s)\<lparr>ws_failed := x\<rparr>)" for x by (rule worker_ok_same) simp_all
  then show ?thesis using Fail ok worker_collect_ok [OF ok]
    by (auto simp: worker_fail_def Let_def intro!: worker_settle_ok)
next
  case (Wait now w wid)
  obtain s' r where g: "worker_get now (wt_physical w) wid s = (s', r)" by (metis surj_pair)
  have a: "worker_ok c evs (s'\<lparr>ws_answers := (w, wid, r) # ws_answers s'\<rparr>)"
    by (rule worker_answered) (rule worker_get_ok [OF ok g], assumption?)+
  have n: "worker_ok c evs (s'\<lparr>ws_answers := (w, wid, None) # ws_answers s'\<rparr>)"
    by (rule worker_answered) (rule worker_get_ok [OF ok g], simp_all)
  have "worker_ok c evs (s'\<lparr>ws_waiters := x\<rparr>)" for x by (rule worker_ok_same [OF worker_get_ok(1) [OF ok g]]) simp_all
  then show ?thesis using a n by (simp add: Wait worker_wait_def g)
next
  case (Timeout w wid)
  have "worker_ok c evs ((s\<lparr>ws_waiters := x\<rparr>)\<lparr>ws_answers := (w, wid, None) # ws_answers s\<rparr>)" for x
    using worker_answered [OF worker_ok_same [OF ok], of "s\<lparr>ws_waiters := x\<rparr>" None w wid] by simp
  then show ?thesis using ok by (simp add: Timeout worker_timeout_def split: option.split)
qed

lemma worker_run_ok: "worker_ok c evs (foldl (worker_step c) worker_empty evs)"
proof -
  have "worker_ok c evs (foldl (worker_step c) s es)" if "worker_ok c evs s" "set es \<subseteq> set evs" for s es
    using that by (induction es arbitrary: s) (simp_all add: worker_step_ok)
  moreover have "worker_ok c evs worker_empty" by (simp add: worker_ok_def worker_limits_def worker_empty_def total_bytes_def)
  ultimately show ?thesis by blast
qed

text \<open>C30. A worker's source only ever reaches the realm that put it: whatever is answered to a request is
  None or a body put from the same realm under the same id. In every state the byte count covers the
  sources held, and their number and size are within the limits, for the store and for each realm.\<close>

theorem worker_sources_private:
  "let s = foldl (worker_step c) worker_empty evs
   in list_all (\<lambda>(w, wid, r). case r of None \<Rightarrow> True | Some body \<Rightarrow> put_for evs (wt_physical w) wid body) (ws_answers s) \<and>
      total_bytes (ws_entries s) \<le> ws_bytes s \<and> ws_bytes s \<le> wc_maxTotalBytes c \<and>
      length (ws_entries s) \<le> wc_maxTotalEntries c \<and>
      (\<forall>p. sum_list (map (own_bytes p) (ws_entries s)) \<le> wc_maxBytes c \<and>
           sum_list (map (own_count p) (ws_entries s)) \<le> wc_maxEntries c)"
  using worker_run_ok [of c evs] unfolding worker_ok_def worker_limits_def Let_def list_all_iff
  by (force split: option.split)

section \<open>Leases\<close>

text \<open>A revoked lease keeps no connection, and cannot be used again while it is remembered.\<close>

definition leases_ok :: "leases \<Rightarrow> bool" where
  "leases_ok s \<longleftrightarrow> (\<forall>e \<in> set (lx_leases s). li_revoked (snd e) \<longrightarrow> li_connections (snd e) = [])"

lemma revoke_item_ok: "leases_ok s \<Longrightarrow> leases_ok (revoke_item l item s)"
  by (auto simp: leases_ok_def revoke_item_def dest!: kv_set_in)

lemma revoke_items_ok: "leases_ok s \<Longrightarrow> leases_ok (fold (\<lambda>e. revoke_item (fst e) (snd e)) es s)"
  by (induction es arbitrary: s) (simp_all add: revoke_item_ok)

lemma leases_clean_ok: "leases_ok s \<Longrightarrow> leases_ok (leases_clean now s)"
  using revoke_items_ok [of s "filter (\<lambda>e. li_expires (snd e) * 1000 \<le> now) (lx_leases s)"]
  by (simp add: leases_clean_def Let_def leases_ok_def)

lemma lease_register_ok: "leases_ok s \<Longrightarrow> leases_ok (fst (lease_register limit now l e s))"
  using leases_clean_ok [of s now]
  by (auto simp: lease_register_def Let_def leases_ok_def split: option.split dest!: kv_set_in)

lemma lease_register_live:
  "lease_register limit now l e s = (s1, Some item) \<Longrightarrow> \<not> li_revoked item \<and> valid_lease now l e"
  by (auto simp: lease_register_def Let_def split: if_splits option.splits)

lemma lease_revoked:
  assumes "map_of (lx_leases s) l = Some item"
  shows "\<exists>i. map_of (lx_leases (lease_revoke limit now l e s)) l = Some i \<and> li_revoked i"
    "\<not> li_revoked item \<Longrightarrow> set (li_connections item) \<subseteq> set (lx_destroyed (lease_revoke limit now l e s))"
    "\<not> snd (lease_track limit now l x socket (lease_revoke limit now l e s))"
proof -
  show rev: "\<exists>i. map_of (lx_leases (lease_revoke limit now l e s)) l = Some i \<and> li_revoked i" for e
    using assms by (auto simp: lease_revoke_def revoke_item_def kv_set_get)
  show "\<not> li_revoked item \<Longrightarrow> set (li_connections item) \<subseteq> set (lx_destroyed (lease_revoke limit now l e s))"
    using assms by (simp add: lease_revoke_def revoke_item_def)
  show "\<not> snd (lease_track limit now l x socket (lease_revoke limit now l e s))"
    using rev [of e] by (auto simp: lease_track_def lease_register_def split: option.split prod.split)
qed

section \<open>Upload buffers\<close>

definition budget_ok :: "nat \<Rightarrow> nat \<Rightarrow> budget \<Rightarrow> bool" where
  "budget_ok maxBytes maxConcurrent b \<longleftrightarrow>
     distinct (map fst (bb_uploads b)) \<and> (\<forall>e \<in> set (bb_uploads b). fst e < bb_next b \<and> up_size (snd e) \<le> up_limit (snd e)) \<and>
     bb_bytes b = sum_list (map (\<lambda>e. up_size (snd e)) (bb_uploads b)) \<and> bb_bytes b \<le> maxBytes \<and>
     bb_active b = length (bb_uploads b) \<and> bb_active b \<le> maxConcurrent"

text \<open>In a map with one entry per key a sum is the entry's part and the rest.\<close>

lemma kv_split:
  assumes "map_of xs k = Some v" "distinct (map fst xs)"
  obtains ys zs where "xs = ys @ (k, v) # zs" "k \<notin> fst ` set ys" "k \<notin> fst ` set zs"
proof -
  from assms(1) have "(k, v) \<in> set xs" by (rule map_of_SomeD)
  then obtain ys zs where xs: "xs = ys @ (k, v) # zs" by (auto simp: in_set_conv_decomp)
  then show ?thesis using assms(2) that by auto
qed

lemma kv_parts:
  assumes "k \<notin> fst ` set ys" "k \<notin> fst ` set zs"
  shows "kv_delete k (ys @ (k, v) # zs) = ys @ zs" "kv_set k w (ys @ (k, v) # zs) = ys @ (k, w) # zs"
proof -
  have f: "filter (\<lambda>e. fst e \<noteq> k) xs = xs" "map (\<lambda>(a, b). (a, if a = k then w else b)) xs = xs" if "k \<notin> fst ` set xs" for xs
    using that by (auto simp: filter_id_conv image_iff intro!: map_idI)
  show "kv_delete k (ys @ (k, v) # zs) = ys @ zs" using assms by (simp add: kv_delete_def f)
  show "kv_set k w (ys @ (k, v) # zs) = ys @ (k, w) # zs"
    using assms by (auto simp: kv_set_def f map_add_def map_of_eq_None_iff split: option.splits)
qed

lemma budget_end_ok: "budget_ok m n b \<Longrightarrow> budget_ok m n (budget_end i b)"
proof (cases "map_of (bb_uploads b) i")
  case (Some u)
  assume ok: "budget_ok m n b"
  then have "distinct (map fst (bb_uploads b))" by (simp add: budget_ok_def)
  from Some this show ?thesis
  proof (rule kv_split)
    fix ys zs assume p: "bb_uploads b = ys @ (i, u) # zs" "i \<notin> fst ` set ys" "i \<notin> fst ` set zs"
    show ?thesis
      using ok Some p kv_parts(1) [OF p(2,3), of u] by (auto simp: budget_ok_def budget_end_def)
  qed
qed (simp add: budget_end_def)

lemma budget_chunk_ok: "budget_ok m n b \<Longrightarrow> budget_ok m n (fst (budget_chunk m i k b))"
proof (cases "map_of (bb_uploads b) i")
  case (Some u)
  assume ok: "budget_ok m n b"
  then have "distinct (map fst (bb_uploads b))" by (simp add: budget_ok_def)
  from Some this show ?thesis
  proof (rule kv_split)
    fix ys zs assume p: "bb_uploads b = ys @ (i, u) # zs" "i \<notin> fst ` set ys" "i \<notin> fst ` set zs"
    have new: "kv_set i w (bb_uploads b) = ys @ (i, w) # zs" for w unfolding p(1) by (rule kv_parts(2) [OF p(2,3)])
    show ?thesis
    proof (cases "up_size u + k > up_limit u \<or> bb_bytes b + k > m")
      case True
      then show ?thesis using Some budget_end_ok [OF ok] by (simp add: budget_chunk_def)
    next
      case False
      then have "fst (budget_chunk m i k b) =
          b\<lparr>bb_bytes := bb_bytes b + k, bb_uploads := ys @ (i, u\<lparr>up_size := up_size u + k\<rparr>) # zs\<rparr>"
        using Some new by (simp add: budget_chunk_def)
      then show ?thesis using ok False p by (simp add: budget_ok_def)
    qed
  qed
qed (simp add: budget_chunk_def)

interpretation budget: machine "budget_step m n" "budget_ok m n" "\<lambda>_. True" for m n
proof
  fix b e assume ok: "budget_ok m n b"
  show "budget_ok m n (budget_step m n b e)"
  proof (cases e)
    case (Upload limit)
    then show ?thesis using ok by (auto simp: budget_start_def budget_ok_def)
  next
    case (Chunk i k)
    then show ?thesis using budget_chunk_ok [OF ok] by simp
  next
    case (Ended i)
    then show ?thesis using budget_end_ok [OF ok] by simp
  qed
qed

text \<open>Uploads never buffer more than the budget, and everything is given back when they end.\<close>

lemma budget_bounds:
  "budget_ok m n (foldl (budget_step m n) budget_empty es)"
  by (rule budget.run_inv) (simp_all add: budget_ok_def budget_empty_def)

end
