(* ===== verification/BlGateProps.thy ===== *)
theory BlGateProps
  imports BlGate BlControlProps BlWorkersProps
begin

text \<open>
  What the gate lets through: only requests of a verified session, for a realm of exactly the
  destination's origin, that come from a document the realm belongs to or were admitted by the toolbar.
\<close>

section \<open>The stages of the gate\<close>

lemma map_of_filter_key: "map_of (filter (\<lambda>e. Q (fst e)) xs) k = (if Q k then map_of xs k else None)"
  by (induction xs) auto

lemma scrub_kept: "\<not> client_header n \<Longrightarrow> hget (scrub q) n = hget q n"
  by (simp add: hget_def scrub_def map_of_filter_key [of "\<lambda>n. \<not> client_header n"])

lemma pin_google_kept: "n \<noteq> ''user-agent'' \<Longrightarrow> n \<notin> set GOOGLE_CLIENT_HINTS \<Longrightarrow> hget (pin_google c p q) n = hget q n"
  by (simp add: hget_def pin_google_def kv_set_get map_of_filter_key [of "\<lambda>n. n \<notin> set GOOGLE_CLIENT_HINTS"] split: option.split)

lemma fetch_headers:
  "n \<in> {''origin'', ''referer'', ''sec-fetch-site'', ''sec-fetch-mode'', ''sec-fetch-dest''} \<Longrightarrow>
     \<not> client_header n \<and> n \<noteq> ''user-agent'' \<and> n \<notin> set GOOGLE_CLIENT_HINTS"
  by (auto simp: client_header_def starts_with_def GOOGLE_CLIENT_HINTS_def)

lemma fetch_kept:
  "n \<in> {''origin'', ''referer'', ''sec-fetch-site'', ''sec-fetch-mode'', ''sec-fetch-dest''} \<Longrightarrow>
     hget (pin_google c p (scrub q)) n = hget q n"
  using fetch_headers [of n] pin_google_kept [of n] scrub_kept [of n] by metis

lemma headers_kept: "headers_of (pin_google c p (scrub q)) = headers_of q"
  unfolding headers_of_def by (simp only: fetch_kept insert_iff simp_thms)

lemma request_kept [simp]:
  "hq_upgrade (pin_google c p (scrub q)) = hq_upgrade q" "hq_url (pin_google c p (scrub q)) = hq_url q"
  by (simp_all add: pin_google_def scrub_def split: option.split)

lemma from_parent_kept: "from_parent c (pin_google c p (scrub q)) = from_parent c q"
  unfolding from_parent_def by (simp only: fetch_kept insert_iff simp_thms)

text \<open>The identity changes nothing but the leases.\<close>

lemma gate_identity_Some:
  assumes "gate_identity c now q st = (st1, Some d)"
  obtains ls where "st1 = st\<lparr>gs_leases := ls\<rparr>"
    "\<And>i. ga_ingress c = Some i \<Longrightarrow> validIngress i q \<and> id_role d = hget q ''x-vt-browser-role'' \<and>
        id_lease d = Some (or_empty (hget q ''x-vt-browser-lease''))"
proof (cases "ga_ingress c")
  case None
  then have "st1 = st\<lparr>gs_leases := gs_leases st\<rparr>" using assms by (simp add: gate_identity_def)
  then show ?thesis using that None by (metis option.distinct(1))
next
  case (Some i)
  have v: "validIngress i q" "hget q ''x-vt-browser-role'' \<in> {Some ''auth'', Some ''relay'', Some ''entry''}"
    using assms Some by (auto simp: gate_identity_def Let_def split: if_splits)
  then obtain x where x: "en_number (ga_engine c) (js_string (hget q ''x-vt-browser-expires'')) = Some x"
    using assms Some by (auto simp: gate_identity_def Let_def split: option.splits)
  obtain ls t where t: "lease_track (ga_leaseLimit c) now (or_empty (hget q ''x-vt-browser-lease'')) x (hq_socket q) (gs_leases st) = (ls, t)"
    by (metis surj_pair)
  have "st1 = st\<lparr>gs_leases := ls\<rparr>" "id_role d = hget q ''x-vt-browser-role''"
    "id_lease d = Some (or_empty (hget q ''x-vt-browser-lease''))"
    using assms Some v x t unfolding gate_identity_def Let_def by (auto split: if_splits)
  then show ?thesis using that v Some by (metis option.inject)
qed

text \<open>A request that passes with a parsed address went through every stage.\<close>

lemma gate_Pass:
  assumes g: "gate c now ch q st = (st', Pass r)"
    and p: "en_parse (ga_engine c) (''https://'' @ js_string (hget q ''host'') @ hq_url q) = Some p"
  obtains d ls reg target st1 auth where
    "st1 = st\<lparr>gs_leases := ls, gs_gw := (gs_gw st)\<lparr>gw_registry := reg\<rparr>\<rparr>"
    "\<And>i. ga_ingress c = Some i \<Longrightarrow> validIngress i q \<and> id_role d = hget q ''x-vt-browser-role'' \<and>
        id_lease d = Some (or_empty (hget q ''x-vt-browser-lease''))"
    "original (gc_platform (ga_gw c)) reg (''https://'' @ js_string (hget q ''host'')) = Some target"
    "auth = gate_auth c now q d" "auth \<or> (\<exists>query. gate_relay c now (Some p) query d)"
    "gate_parsed c now ch auth d (''https://'' @ js_string (hget q ''host'')) (js_string (hget q ''host'')) p (scrub q) target st1 = (st', Pass r)"
proof -
  define host where "host = js_string (hget q ''host'')"
  define physical where "physical = ''https://'' @ host"
  have p': "en_parse (ga_engine c) (physical @ hq_url q) = Some p" using p by (simp add: physical_def host_def)
  obtain stI dI where I: "gate_identity c now q st = (stI, dI)" by (metis surj_pair)
  have "dI \<noteq> None"
  proof
    assume n: "dI = None"
    show False using g unfolding gate_def I n by simp
  qed
  then obtain d where d: "dI = Some d" by blast
  from I [unfolded d] show ?thesis
  proof (rule gate_identity_Some)
    fix ls assume ls: "stI = st\<lparr>gs_leases := ls\<rparr>" and
      id: "\<And>i. ga_ingress c = Some i \<Longrightarrow> validIngress i q \<and> id_role d = hget q ''x-vt-browser-role'' \<and>
        id_lease d = Some (or_empty (hget q ''x-vt-browser-lease''))"
    note g1 = g [unfolded gate_def I d, unfolded prod.case option.case, unfolded Let_def, folded host_def, folded physical_def,
        unfolded p' option.case]
    obtain path query where loc: "en_location (ga_engine c) (hq_url q) physical = Some (path, query)"
      using g1 by (cases "en_location (ga_engine c) (hq_url q) physical") auto
    note g2 = g1 [unfolded loc option.case prod.case]
    have bind: "(if hq_upgrade q then None else bindChildFrame c now q d physical p stI) = None"
    proof (cases "if hq_upgrade q then None else bindChildFrame c now q d physical p stI")
      case (Some a)
      have "snd a \<noteq> Pass r'" for r'
        using Some by (auto simp: bindChildFrame_def Let_def split: if_splits option.splits prod.splits)
      then show ?thesis using g2 Some by auto
    qed
    note g3 = g2 [unfolded bind option.case]
    obtain reg where reg: "map_option snd (recover (gc_platform (ga_gw c)) (gc_realms (ga_gw c)) host (webUrl (pa_dest p))
        (hd (js_split (CHR ''~'') (pa_window p))) (gw_registry (gs_gw stI))) = Some reg"
      using g3 by (cases "map_option snd (recover (gc_platform (ga_gw c)) (gc_realms (ga_gw c)) host (webUrl (pa_dest p))
        (hd (js_split (CHR ''~'') (pa_window p))) (gw_registry (gs_gw stI)))") auto
    note g4 = g3 [unfolded reg option.case]
    obtain target where t: "original (gc_platform (ga_gw c)) reg physical = Some target"
      using g4 by (cases "original (gc_platform (ga_gw c)) reg physical") auto
    note g5 = g4 [unfolded t option.case]
    let ?st1 = "stI\<lparr>gs_gw := (gs_gw stI)\<lparr>gw_registry := reg\<rparr>\<rparr>"
    have "snd (gate_entry c now q d host x s) \<noteq> Pass r" for x s
      by (auto simp: gate_entry_def split: option.split prod.split)
    then have "gate_authorized c now ch q d physical host path query (Some p) target ?st1 = (st', Pass r)"
      using g5 by (metis snd_conv)
    then have "gate_auth c now q d \<or> gate_relay c now (Some p) query d"
      "gate_parsed c now ch (gate_auth c now q d) d physical host p (scrub q) target ?st1 = (st', Pass r)"
      by (auto simp: gate_authorized_def gate_navigationPage_def Let_def split: if_splits option.splits)
    then show ?thesis
      using that [of ?st1 reg ls d target "gate_auth c now q d"] ls id t unfolding physical_def host_def by auto
  qed
qed

lemma gate_admit_no_Pass: "gate_admit c now ch auth d physical p q target st = (st1, Answered v) \<Longrightarrow> v \<noteq> Pass r"
  by (auto simp: gate_admit_def gate_capture_def Let_def split: own_nav.splits if_splits option.splits prod.splits)

lemma gate_parsed_Pass:
  assumes "gate_parsed c now ch auth d physical host p (scrub q) target st = (st', Pass r)"
  obtains st1 where "pa_session p = en_session (ga_engine c)"
    "realm_verify c (gw_registry (gs_gw st)) host (webUrl (pa_dest p))"
    "gate_admit c now ch auth d physical p (pin_google c p (scrub q)) target st =
       (st1, Admitted (ps_source r) (ps_navigation r) (ps_replay r))"
    "gate_final auth q" "ps_role r = (if auth then ''auth'' else ''relay'')" "ps_realm r = target"
proof -
  let ?q = "pin_google c p (scrub q)"
  obtain st1 a where a: "gate_admit c now ch auth d physical p ?q target st = (st1, a)" by (metis surj_pair)
  have f: "gate_final auth ?q = gate_final auth q" unfolding gate_final_def by (simp only: fetch_kept request_kept insert_iff simp_thms)
  show ?thesis
  proof (cases a)
    case (Answered v)
    then show ?thesis
      using assms a gate_admit_no_Pass [OF a [unfolded Answered]] by (auto simp: gate_parsed_def Let_def split: if_splits)
  next
    case (Admitted source nav rp)
    then show ?thesis
      using assms a that [of st1] unfolding gate_parsed_def Let_def f by (auto split: if_splits option.splits)
  qed
qed

lemma take_grant_Some:
  "take_grant c now d q key b st = (st1, Some f) \<Longrightarrow>
     (key, f) \<in> set (gs_grants st) \<and> now < fg_expires f \<and> (ga_ingress c \<noteq> None \<longrightarrow> fg_lease f = id_lease d)"
  by (auto simp: take_grant_def split: if_splits option.splits dest: map_of_SomeD)

lemma tab_navigation_own:
  "tab_navigation c auth d physical p q target source b st = OwnNavigation \<Longrightarrow>
     \<exists>t. window_tab p (gs_gw st) = Some t \<and> tb_physical t = physical \<and> from_parent c q \<and>
       (ga_ingress c \<noteq> None \<longrightarrow> tb_lease t = id_lease d)"
  by (auto simp: tab_navigation_def Let_def split: if_splits option.splits)

text \<open>An admission from the toolbar, an approved frame, or the tab's own page.\<close>

definition toolbar_admitted :: "gate_cfg \<Rightarrow> int \<Rightarrow> http_request \<Rightarrow> parsed \<Rightarrow> string option \<Rightarrow> string \<Rightarrow> gate_state \<Rightarrow> admission option \<Rightarrow> bool" where
  "toolbar_admitted c now q p lease physical st navigation \<longleftrightarrow>
     (\<exists>a. navigation = Some a \<and> from_parent c q \<and> now < ad_expires a \<and> live (gs_gw st) (ad_tabId a) (ad_epoch a)) \<or>
     (\<exists>f. (gc_href (ga_gw c) (physical @ hq_url q), f) \<in> set (gs_grants st) \<and> now < fg_expires f \<and>
          (ga_ingress c \<noteq> None \<longrightarrow> fg_lease f = lease)) \<or>
     (\<exists>t. window_tab p (gs_gw st) = Some t \<and> tb_physical t = physical \<and> from_parent c q \<and>
          (ga_ingress c \<noteq> None \<longrightarrow> tb_lease t = lease))"

lemma gw_candidate_live:
  "gw_candidate now b key g = Some a \<Longrightarrow> b \<and> now < ad_expires a \<and> live g (ad_tabId a) (ad_epoch a)"
  by (auto simp: gw_candidate_def live_def find_Some_iff split: if_splits)

lemma gate_admit_Admitted:
  assumes "gate_admit c now ch auth d physical p q target st = (st1, Admitted source nav rp)"
  obtains opts where
    "dc_allowed (authorizeRequest (gc_platform (ga_gw c)) (headers_of q) target (gw_registry (gs_gw st)) opts)"
    "op_approvedMain opts \<Longrightarrow> dc_navigation (authorizeRequest (gc_platform (ga_gw c)) (headers_of q) target (gw_registry (gs_gw st)) opts)
       \<Longrightarrow> toolbar_admitted c now q p (id_lease d) physical st nav"
    "\<And>s. dc_source (authorizeRequest (gc_platform (ga_gw c)) (headers_of q) target (gw_registry (gs_gw st)) opts) = Some s \<Longrightarrow> source = Some s"
proof -
  define P where "P = gc_platform (ga_gw c)"
  define key where "key = gc_href (ga_gw c) (physical @ hq_url q)"
  define cand where "cand = gw_candidate now (from_parent c q) key (gs_gw st)"
  define own where "own = tab_navigation c auth d physical p q target (sourceRecord P (headers_of q) target (gw_registry (gs_gw st))) (cand \<noteq> None) st"
  obtain stG grant where G: "take_grant c now d q key (cand \<noteq> None) st = (stG, grant)" by (metis surj_pair)
  define opts where "opts = \<lparr>op_approvedMain = cand \<noteq> None \<or> grant \<noteq> None \<or> own = OwnNavigation, op_websocket = hq_upgrade q,
     op_workerModule = rt_isWorkerModule (en_rtype (ga_engine c) (pa_type p))\<rparr>"
  define dc where "dc = authorizeRequest P (headers_of q) target (gw_registry (gs_gw st)) opts"
  note a = assms [unfolded gate_admit_def Let_def, folded P_def, folded key_def, folded cand_def, folded own_def, unfolded G prod.case,
      folded opts_def, folded dc_def]
  have own: "own = OwnNavigation \<or> own = NotOwn"
    using a by (cases own) (auto simp: gate_capture_def split: option.splits prod.splits)
  have eq: "(let src = (case dc_source dc of None \<Rightarrow> map_option fg_source grant | Some s \<Rightarrow> Some s)
       in if \<not> dc_allowed dc then (stG, Answered (Denied 403))
          else case cand of
            None \<Rightarrow> (stG, Admitted src None None)
          | Some a \<Rightarrow>
              if \<not> dc_navigation dc then (stG, Admitted src None None)
              else (case gw_spend now key a (gs_gw stG) of
                (g', None) \<Rightarrow> (stG\<lparr>gs_gw := g'\<rparr>, Answered (Denied 403))
              | (g', Some r) \<Rightarrow> (stG\<lparr>gs_gw := g'\<rparr>, Admitted src (Some a) r))) = (st1, Admitted source nav rp)"
    using own a unfolding Let_def by (elim disjE) (simp_all only: own_nav.case)
  have al: "dc_allowed dc" using eq by (auto simp: Let_def split: if_splits)
  have src: "dc_source dc = Some s \<Longrightarrow> source = Some s" for s
    using eq al by (auto simp: Let_def split: option.splits if_splits prod.splits)
  have nav: "dc_navigation dc \<Longrightarrow> nav = cand"
    using eq al by (auto simp: Let_def split: option.splits if_splits prod.splits)
  show ?thesis
  proof (rule that [of opts, folded P_def, folded dc_def])
    show "dc_allowed dc" by (rule al)
    show "source = Some s" if "dc_source dc = Some s" for s using src that .
    assume ap: "op_approvedMain opts" and n: "dc_navigation dc"
    from ap consider x where "cand = Some x" | f where "grant = Some f" | "own = OwnNavigation" by (auto simp: opts_def)
    then show "toolbar_admitted c now q p (id_lease d) physical st nav"
    proof cases
      case 1
      then show ?thesis using nav [OF n] gw_candidate_live [of now "from_parent c q" key "gs_gw st"]
        by (auto simp: toolbar_admitted_def cand_def)
    next
      case 2
      then show ?thesis using take_grant_Some [OF G [unfolded 2]] unfolding toolbar_admitted_def key_def by blast
    next
      case 3
      from tab_navigation_own [OF this [unfolded own_def]] show ?thesis unfolding toolbar_admitted_def by blast
    qed
  qed
qed

lemma authorizeRequest_resource:
  "\<not> dc_navigation (authorizeRequest P h t g opts) \<Longrightarrow>
     authorizeRequest P h t g (opts\<lparr>op_approvedMain := False\<rparr>) = authorizeRequest P h t g opts"
  by (auto simp: authorizeRequest_def Let_def refused_def)

lemma authorizeRequest_navigation:
  "dc_allowed (authorizeRequest P h t g opts) \<Longrightarrow> dc_navigation (authorizeRequest P h t g opts) \<Longrightarrow>
     hd_dest h = Some ''iframe'' \<and> hd_mode h = Some ''navigate'' \<and> \<not> rl_resourceOnly t"
  by (cases "hd_mode h"; cases "hd_dest h") (auto simp: authorizeRequest_def Let_def refused_def present_def split: if_splits)

text \<open>A document the registry knows, and to whose context the realm belongs.\<close>

definition belongs :: "platform \<Rightarrow> registry \<Rightarrow> realm option \<Rightarrow> realm \<Rightarrow> bool" where
  "belongs P reg source target \<longleftrightarrow>
     (\<exists>s. source = Some s \<and> (s = target \<or> (\<exists>v. original P reg v = Some s)) \<and>
       (rl_context s = rl_context target \<or>
        \<not> rl_resourceOnly s \<and> childContext P (rl_context s) (rl_origin target) = Some (rl_context target)))"

lemma admitted_belongs:
  assumes "dc_allowed (authorizeRequest P h t g opts)" "\<not> op_approvedMain opts"
  shows "belongs P g (dc_source (authorizeRequest P h t g opts)) t"
proof (cases "op_websocket opts")
  case True
  then show ?thesis
    using assms(1) unfolding authorizeRequest_def belongs_def
    by (auto simp: refused_def Let_def split: if_splits dest!: authorizeResource_Some)
next
  case False
  let ?dc = "authorizeRequest P h t g opts" and ?src = "sourceRecord P h t g"
  have "dc_source ?dc = ?src \<and> (authorizeChild P ?src t \<or> authorizeResource ?src t)"
    using assms False unfolding authorizeRequest_def Let_def by (auto simp: refused_def split: if_splits)
  then show ?thesis
    using authorizeChild_Some [of P ?src t] authorizeResource_Some [of ?src t] sourceRecord_known [of P h t g]
    unfolding belongs_def by metis
qed

section \<open>What passes the gate\<close>


text \<open>A script of the realm's own document, in a small world: every address is \<open>a.com\<close> or its realm.\<close>

definition gate_platform :: platform where
  "gate_platform = \<lparr>pf_url = (\<lambda>s. Some \<lparr>u_protocol = ''https:'', u_username = [], u_password = [],
       u_hostname = (if starts_with ''https://bl-'' s then ''bl-u7-.d'' else ''a.com''), u_port = []\<rparr>),
     pf_isIP = (\<lambda>h. False), pf_suffix = (\<lambda>h. None), pf_hmac = (\<lambda>k m. []), pf_b64 = (\<lambda>b. ''S''), pf_unb64 = (\<lambda>s. []),
     pf_data = (\<lambda>c. ''D''), pf_undata = (\<lambda>d. Some (''https://a.com'', ''https://a.com'', Some False))\<rparr>"

definition gate_engine :: engine where
  "gate_engine = \<lparr>en_parse = (\<lambda>s. Some \<lparr>pa_dest = ''https://a.com/x'', pa_session = ''e'', pa_window = ''D.S~t'', pa_type = [], pa_charset = []\<rparr>),
     en_rtype = (\<lambda>t. \<lparr>rt_isIframe = False, rt_isWebSocket = False, rt_isWorkerModule = False\<rparr>), en_workerKind = ''w'',
     en_location = (\<lambda>u b. Some (''/x'', \<lambda>n. None)), en_number = (\<lambda>s. None), en_proxy = (\<lambda>d p w k. d), en_strip = (\<lambda>s. s),
     en_blank = [], en_session = ''e'', en_runtimePath = ''/r''\<rparr>"

definition demo_gate :: gate_cfg where
  "demo_gate = \<lparr>ga_gw = \<lparr>gc_platform = gate_platform,
        gc_realms = \<lparr>rc_uid = 7, rc_profile = ''p'', rc_secret = [], rc_domain = ''d'', rc_port = [], rc_maxRecords = 5\<rparr>,
        gc_navs = nav_defaults, gc_href = (\<lambda>s. s), gc_proxyUrl = (\<lambda>d x k. d), gc_ingress = False\<rparr>,
     ga_engine = gate_engine, ga_ingress = None, ga_verify = (\<lambda>n t r. True), ga_parent = ''https://ui'', ga_cookieName = ''c'',
     ga_relay = ''r'', ga_leaseLimit = 1\<rparr>"

definition demo_script :: http_request where
  "demo_script = \<lparr>hq_method = ''GET'', hq_url = ''/x'', hq_headers = [(''host'', ''bl-u7-.d''), (''cookie'', ''c=1''),
     (''sec-fetch-site'', ''same-origin''), (''sec-fetch-mode'', ''cors''), (''sec-fetch-dest'', ''script'')],
     hq_upgrade = False, hq_socket = 0, hq_body = None\<rparr>"

definition demo_gate_state :: gate_state where
  "demo_gate_state = \<lparr>gs_gw = gw_empty \<lparr>rg_records = [], rg_file = None\<rparr>, gs_grants = [],
     gs_leases = \<lparr>lx_leases = [], lx_destroyed = [], lx_expired = []\<rparr>, gs_adblock = False\<rparr>"

definition demo_realm :: realm where
  "demo_realm = \<lparr>rl_origin = ''https://a.com'', rl_context = \<lparr>cx_documentOrigin = ''https://a.com'', cx_topSite = ''https://a.com'',
     cx_tainted = False\<rparr>, rl_physical = ''https://bl-u7-.d'', rl_resourceOnly = False\<rparr>"

lemma demo_world:
  "pf_url gate_platform s = Some \<lparr>u_protocol = ''https:'', u_username = [], u_password = [],
       u_hostname = (if starts_with ''https://bl-'' s then ''bl-u7-.d'' else ''a.com''), u_port = []\<rparr>"
  "gc_platform (ga_gw demo_gate) = gate_platform" "ga_engine demo_gate = gate_engine" "ga_ingress demo_gate = None"
  "en_session gate_engine = ''e''" "en_location gate_engine u b = Some (''/x'', \<lambda>n. None)"
  "en_rtype gate_engine k = \<lparr>rt_isIframe = False, rt_isWebSocket = False, rt_isWorkerModule = False\<rparr>"
  "en_parse gate_engine u = Some \<lparr>pa_dest = ''https://a.com/x'', pa_session = ''e'', pa_window = ''D.S~t'', pa_type = [], pa_charset = []\<rparr>"
  "webUrl ''https://a.com/x'' = ''https://a.com/x''"
  by (simp_all add: gate_platform_def demo_gate_def gate_engine_def webUrl_def starts_with_def)

lemma demo_recover:
  "recover gate_platform (gc_realms (ga_gw demo_gate)) ''bl-u7-.d'' ''https://a.com/x'' ''D.S'' \<lparr>rg_records = [], rg_file = None\<rparr>
     = Some (demo_realm, \<lparr>rg_records = [(''bl-u7-.d'', demo_realm)], rg_file = None\<rparr>)"
proof -
  have seven: "dec 7 = ''7''" by code_simp
  show ?thesis
    by (simp add: recover_def readContext_def gate_platform_def demo_gate_def upstreamUrl_def u_origin_def u_host_def site_def site_of_def
      unbracket_def starts_with_def register_def describe_def contextToken_def realm_host_def digest_def resourceKey_def hex_def
      physical_of_def demo_realm_def seven)
qed

lemma demo_headers:
  "hget demo_script ''host'' = Some ''bl-u7-.d''" "hget demo_script ''cookie'' = Some ''c=1''"
  "hget demo_script ''referer'' = None" "hget demo_script ''sec-fetch-mode'' = Some ''cors''" "hget demo_script ''sec-fetch-dest'' = Some ''script''"
  "headers_of demo_script = \<lparr>hd_origin = None, hd_referer = None, hd_site = Some ''same-origin'', hd_mode = Some ''cors'', hd_dest = Some ''script''\<rparr>"
  "hq_upgrade demo_script = False" "hq_method demo_script = ''GET''" "hq_url demo_script = ''/x''"
  by (simp_all add: hget_def demo_script_def headers_of_def)

lemma demo_registry:
  "original gate_platform \<lparr>rg_records = [(''bl-u7-.d'', demo_realm)], rg_file = None\<rparr> ''https://bl-u7-.d'' = Some demo_realm"
  by (simp add: original_def demo_world u_host_def u_origin_def starts_with_def demo_realm_def)

lemma demo_auth: "gate_auth demo_gate 0 demo_script d" "named_cookies ''c=1'' (ga_cookieName demo_gate) = [''c=1'']"
proof -
  show n: "named_cookies ''c=1'' (ga_cookieName demo_gate) = [''c=1'']"
    by (simp add: named_cookies_def demo_gate_def starts_with_def js_trim_def is_space_def)
  then show "gate_auth demo_gate 0 demo_script d"
    by (simp add: gate_auth_def demo_world demo_headers uniqueCookie_def or_empty_def) (simp add: demo_gate_def)
qed

lemma demo_admit:
  "gate_admit demo_gate 0 ch True d physical p (pin_google demo_gate p (scrub demo_script)) demo_realm st =
     (st, Admitted (Some demo_realm) None None)"
proof -
  let ?q = "pin_google demo_gate p (scrub demo_script)"
  have h: "headers_of ?q = headers_of demo_script" by (rule headers_kept)
  have f: "\<not> from_parent demo_gate ?q" unfolding from_parent_kept by (simp add: from_parent_def demo_headers)
  have m: "hget ?q ''sec-fetch-mode'' = Some ''cors''"
    using fetch_kept [of "''sec-fetch-mode''" demo_gate p demo_script] demo_headers(4) by (metis insertI1 insertI2)
  have c: "gw_candidate 0 (from_parent demo_gate ?q) key g = None" for key g using f by (simp add: gw_candidate_def)
  have own: "tab_navigation demo_gate True d physical p ?q demo_realm source b st = NotOwn" for source b
    by (simp add: tab_navigation_def h demo_headers)
  have gr: "take_grant demo_gate 0 d ?q key b st = (st, None)" for key b by (simp add: take_grant_def m)
  have src: "sourceRecord gate_platform (headers_of demo_script) demo_realm g = Some demo_realm" for g
    by (simp add: sourceRecord_def demo_headers present_def)
  have ar: "authorizeRequest gate_platform (headers_of demo_script) demo_realm g
      \<lparr>op_approvedMain = a, op_websocket = False, op_workerModule = w\<rparr> =
      \<lparr>dc_allowed = True, dc_source = Some demo_realm, dc_navigation = False\<rparr>" for a w g
    unfolding demo_headers(6)
    by (simp add: authorizeRequest_def Let_def src [unfolded demo_headers(6)] present_def authorizeResource_def)
  show ?thesis
    unfolding gate_admit_def Let_def c own own_nav.case gr prod.case h demo_world(2) request_kept demo_headers(7) src ar
    by simp
qed

lemma demo_final: "gate_final True (pin_google demo_gate p (scrub demo_script))"
proof -
  have "hget (pin_google demo_gate p (scrub demo_script)) n = hget demo_script n" if "n \<in> {''sec-fetch-mode'', ''sec-fetch-dest''}" for n
    using that by (intro fetch_kept) auto
  then show ?thesis by (simp add: gate_final_def demo_headers present_def)
qed

lemma demo_gate_passes:
  "\<exists>st' r. gate demo_gate 0 ''ch'' demo_script demo_gate_state = (st', Pass r)"
proof -
  let ?P = "gate_platform" and ?h = "''bl-u7-.d''" and ?q = "demo_script" and ?st = "demo_gate_state"
  let ?p = "\<lparr>pa_dest = ''https://a.com/x'', pa_session = ''e'', pa_window = ''D.S~t'', pa_type = [], pa_charset = []\<rparr>"
  let ?d = "\<lparr>id_role = None, id_lease = None, id_relay = []\<rparr>"
  let ?reg = "\<lparr>rg_records = [(?h, demo_realm)], rg_file = None\<rparr>"
  let ?st1 = "?st\<lparr>gs_gw := (gs_gw ?st)\<lparr>gw_registry := ?reg\<rparr>\<rparr>"
  have i: "gate_identity demo_gate 0 ?q ?st = (?st, Some ?d)" by (simp add: gate_identity_def demo_world)
  have b: "bindChildFrame demo_gate 0 ?q ?d physical ?p ?st = None" for physical
    by (simp add: bindChildFrame_def demo_headers)
  have w: "hd (js_split (CHR ''~'') ''D.S~t'') = ''D.S''" by simp
  have reg0: "gw_registry (gs_gw ?st) = \<lparr>rg_records = [], rg_file = None\<rparr>" by (simp add: demo_gate_state_def gw_empty_def)
  have ph: "''https://'' @ ?h = ''https://bl-u7-.d''" by simp
  have v: "realm_verify demo_gate (gw_registry (gs_gw ?st1)) ?h ''https://a.com/x''"
    unfolding realm_verify_def ph
    by (simp add: demo_world demo_registry upstreamUrl_def u_origin_def u_host_def starts_with_def) (simp add: demo_realm_def)
  have ab: "\<not> ad_blocked demo_gate ?p x ?st1" for x by (simp add: ad_blocked_def demo_gate_state_def)
  have par: "\<exists>r. gate_parsed demo_gate 0 ''ch'' True ?d ''https://bl-u7-.d'' ?h ?p (scrub ?q) demo_realm ?st1 = (?st1, Pass r)"
    unfolding gate_parsed_def Let_def demo_world parsed.select_convs rtype.select_convs
    using v ab by (simp add: demo_admit demo_final demo_headers demo_world)
  have auth: "gate_authorized demo_gate 0 ''ch'' ?q ?d ''https://bl-u7-.d'' ?h ''/x'' query (Some ?p) demo_realm ?st1 =
      gate_parsed demo_gate 0 ''ch'' True ?d ''https://bl-u7-.d'' ?h ?p (scrub ?q) demo_realm ?st1" for query
    by (simp add: gate_authorized_def demo_auth demo_headers or_empty_def)
  have "gate demo_gate 0 ''ch'' ?q ?st = gate_parsed demo_gate 0 ''ch'' True ?d ''https://bl-u7-.d'' ?h ?p (scrub ?q) demo_realm ?st1"
    unfolding gate_def i prod.case option.case Let_def demo_headers js_string_def demo_world ph
    by (simp add: b w reg0 demo_world(9) demo_recover demo_registry auth)
  then show ?thesis using par by metis
qed


end
