(* ===== verification/BlEgress.thy ===== *)
theory BlEgress
  imports BlAuth BlWorkers
begin

text \<open>
  \<^verbatim>\<open>browser-lite/proxy/egress.cjs\<close>: the forward proxy every upstream connection goes through. What
  \<^verbatim>\<open>ipaddr.js\<close> and \<open>net.isIP\<close> say of an address, the answers of the resolver and the interfaces of the
  machine are arguments; an address is a value of the library (\<open>'ip\<close>).
\<close>

section \<open>Addresses\<close>

datatype ip_kind = IPv4 | IPv6

text \<open>
  \<open>ia_parse\<close> throws (None) on what is no address; \<open>ia_mapped\<close> is the IPv4 address of an IPv4-mapped
  one; \<open>ia_in ip cidr\<close> is \<open>ip.match(parseCIDR(cidr))\<close>, for a network of the kind \<open>ia_cidr_kind\<close>;
  \<open>ia_isIP\<close> is \<open>net.isIP\<close>: 4, 6 or 0.
\<close>

record 'ip ip_lib =
  ia_parse :: "string \<Rightarrow> 'ip option"
  ia_kind :: "'ip \<Rightarrow> ip_kind"
  ia_mapped :: "'ip \<Rightarrow> 'ip option"
  ia_range :: "'ip \<Rightarrow> string"
  ia_in :: "'ip \<Rightarrow> string \<Rightarrow> bool"
  ia_cidr_kind :: "string \<Rightarrow> ip_kind"
  ia_isIP :: "string \<Rightarrow> nat"

definition publicAddress :: "'ip ip_lib \<Rightarrow> string \<Rightarrow> bool" where
  "publicAddress L value =
     (case ia_parse L value of
        None \<Rightarrow> False
      | Some ip0 \<Rightarrow>
          (let ip = (if ia_kind L ip0 = IPv6 then (case ia_mapped L ip0 of Some v4 \<Rightarrow> v4 | None \<Rightarrow> ip0) else ip0)
           in if ia_range L ip \<noteq> ''unicast'' then False
              else if ia_kind L ip = IPv6
              then ia_in L ip ''2000::/3'' \<and>
                   list_all (\<lambda>cidr. \<not> ia_in L ip cidr) [''64:ff9b::/96'', ''64:ff9b:1::/48'', ''2001::/32'', ''2002::/16'']
              else True))"

datatype egress_error = BlockedPort | BlockedLocal | Unavailable

text \<open>\<open>blockedHeader\<close>: the kind a refusal by policy names.\<close>

fun blockedHeader :: "egress_error \<Rightarrow> string" where
  "blockedHeader BlockedPort = ''port''"
| "blockedHeader BlockedLocal = ''local''"
| "blockedHeader Unavailable = []"

record egress_cfg =
  ec_maxConnections :: nat
  ec_slotWait :: int
  ec_denied :: "string list"
  ec_deniedCIDRs :: "string list"
  ec_deniedDomains :: "string list"
  ec_authorization :: string

text \<open>An answer of the resolver, and an interface of the machine with its network.\<close>

record answer =
  an_address :: string
  an_family :: nat

type_synonym interface = "string \<times> string option"

definition isLocal :: "'ip ip_lib \<Rightarrow> egress_cfg \<Rightarrow> interface list \<Rightarrow> string \<Rightarrow> bool" where
  "isLocal L c ifs address \<longleftrightarrow>
     address \<in> fst ` set ifs \<or>
     (case ia_parse L address of
        None \<Rightarrow> False
      | Some ip \<Rightarrow> list_ex (\<lambda>cidr. ia_cidr_kind L cidr = ia_kind L ip \<and> ia_in L ip cidr)
                    (ec_deniedCIDRs c @ List.map_filter snd ifs))"

text \<open>\<open>destination\<close>; \<open>resolved\<close> is what DNS answers, None for an error or the timeout.\<close>

definition egress_destination ::
  "'ip ip_lib \<Rightarrow> egress_cfg \<Rightarrow> interface list \<Rightarrow> (string \<Rightarrow> answer list option) \<Rightarrow> string \<Rightarrow> nat \<Rightarrow> egress_error + answer" where
  "egress_destination L c ifs resolved hostname0 port =
     (if port \<notin> {80, 443} then Inl BlockedPort
      else let hostname = unbracket hostname0
           in if hostname = [] \<or> CHR ''%'' \<in> set hostname then Inl Unavailable
              else if list_ex (\<lambda>d. no_trailing_dots (toLowerCase hostname) = d \<or>
                                   ends_with (no_trailing_dots (toLowerCase hostname)) (CHR ''.'' # d)) (ec_deniedDomains c)
              then Inl BlockedLocal
              else case (if ia_isIP L hostname \<noteq> 0 then Some [\<lparr>an_address = hostname, an_family = ia_isIP L hostname\<rparr>]
                         else resolved hostname) of
                     None \<Rightarrow> Inl Unavailable
                   | Some answers \<Rightarrow>
                       if answers = [] \<or> list_ex (\<lambda>x. \<not> publicAddress L (an_address x) \<or> an_address x \<in> set (ec_denied c)
                                                     \<or> isLocal L c ifs (an_address x)) answers
                       then Inl BlockedLocal
                       else Inr (case find (\<lambda>x. an_family x = 4) answers of Some x \<Rightarrow> x | None \<Rightarrow> hd answers))"

section \<open>Connection slots\<close>

text \<open>
  \<open>slot\<close> waits until there is room; the caller counts itself only in a later step (after the \<open>await\<close>),
  so the calls that have passed and are not yet counted are part of the state.
\<close>

record slots =
  sl_sockets :: "nat list"
  sl_pending :: nat
  sl_waiters :: "nat list"
  sl_passed :: "nat list"

datatype slot_answer = Passed | Waits | LimitError

definition slot_check :: "egress_cfg \<Rightarrow> int \<Rightarrow> int \<Rightarrow> nat \<Rightarrow> slots \<Rightarrow> slots \<times> slot_answer" where
  "slot_check c deadline now i s =
     (if length (sl_sockets s) + sl_pending s \<ge> ec_maxConnections c
      then if deadline - now \<le> 0 then (s, LimitError) else (s\<lparr>sl_waiters := sl_waiters s @ [i]\<rparr>, Waits)
      else (s\<lparr>sl_passed := sl_passed s @ [i]\<rparr>, Passed))"

text \<open>The timer of a waiting call: it leaves the queue and looks again.\<close>

definition slot_timer :: "egress_cfg \<Rightarrow> int \<Rightarrow> int \<Rightarrow> nat \<Rightarrow> slots \<Rightarrow> slots \<times> slot_answer" where
  "slot_timer c deadline now i s = slot_check c deadline now i (s\<lparr>sl_waiters := remove1 i (sl_waiters s)\<rparr>)"

definition slot_count :: "nat \<Rightarrow> slots \<Rightarrow> slots" where
  "slot_count i s = (if i \<in> set (sl_passed s) then s\<lparr>sl_passed := remove1 i (sl_passed s), sl_pending := sl_pending s + 1\<rparr> else s)"

definition slot_track :: "nat \<Rightarrow> slots \<Rightarrow> slots" where
  "slot_track socket s = s\<lparr>sl_sockets := List.insert socket (sl_sockets s)\<rparr>"

definition slot_settled :: "slots \<Rightarrow> slots" where
  "slot_settled s = s\<lparr>sl_pending := sl_pending s - 1\<rparr>"

text \<open>A socket closes: the first waiting call is woken, and looks again.\<close>

definition slot_close :: "nat \<Rightarrow> slots \<Rightarrow> slots \<times> nat option" where
  "slot_close socket s =
     (let s1 = s\<lparr>sl_sockets := removeAll socket (sl_sockets s)\<rparr>
      in case sl_waiters s1 of [] \<Rightarrow> (s1, None) | i # is' \<Rightarrow> (s1\<lparr>sl_waiters := is'\<rparr>, Some i))"

section \<open>Requests\<close>

definition egress_authorized :: "egress_cfg \<Rightarrow> (string \<times> string) list \<Rightarrow> bool" where
  "egress_authorized c hs \<longleftrightarrow> or_empty (map_of hs ''proxy-authorization'') = ec_authorization c"

definition HOP_BY_HOP :: "string list" where
  "HOP_BY_HOP = [''connection'', ''keep-alive'', ''te'', ''trailer'', ''transfer-encoding'', ''upgrade'',
     ''proxy-authorization'', ''proxy-connection'']"

definition egress_headers :: "(string \<times> string) list \<Rightarrow> string \<Rightarrow> bool \<Rightarrow> (string \<times> string) list" where
  "egress_headers hs host upgrade =
     (let h0 = kv_set ''host'' host hs;
          named = map (toLowerCase \<circ> js_trim) (js_split (CHR '','') (or_empty (map_of h0 ''connection'')));
          h1 = filter (\<lambda>e. fst e \<notin> set named \<and> fst e \<notin> set HOP_BY_HOP) h0;
          h2 = (if upgrade then kv_set ''upgrade'' ''websocket'' (kv_set ''connection'' ''Upgrade'' h1) else h1)
      in kv_set ''host'' host h2)"

text \<open>What a client gets: an error status, with the kind of a refusal, or a connection with the request sent on it.\<close>

datatype egress_result =
    Status nat string
  | Connected answer nat "(string \<times> string) list"

record egress_url =
  eu_protocol :: string
  eu_credentials :: bool
  eu_hostname :: string
  eu_port :: "nat option"
  eu_host :: string
  eu_bare :: bool

definition or_port :: "nat option \<Rightarrow> nat \<Rightarrow> nat" where "or_port p d = (case p of None \<Rightarrow> d | Some n \<Rightarrow> n)"

text \<open>
  \<open>request\<close>, \<open>tunnel\<close> and \<open>upgrade\<close> once a slot is free; \<open>url\<close> is the parsed target (None where
  \<open>new URL\<close> throws), \<open>eu_bare\<close> says that a CONNECT target has no path, query or fragment.
\<close>

definition egress_request ::
  "'ip ip_lib \<Rightarrow> egress_cfg \<Rightarrow> interface list \<Rightarrow> (string \<Rightarrow> answer list option) \<Rightarrow> egress_url option \<Rightarrow> (string \<times> string) list \<Rightarrow> egress_result" where
  "egress_request L c ifs resolved url hs =
     (if \<not> egress_authorized c hs then Status 407 []
      else case url of
        None \<Rightarrow> Status 403 []
      | Some u \<Rightarrow>
          if eu_protocol u \<noteq> ''http:'' \<or> eu_credentials u then Status 403 []
          else (case egress_destination L c ifs resolved (eu_hostname u) (or_port (eu_port u) 80) of
            Inl e \<Rightarrow> Status 403 (blockedHeader e)
          | Inr a \<Rightarrow> Connected a (or_port (eu_port u) 80) (egress_headers hs (eu_host u) False)))"

definition egress_tunnel ::
  "'ip ip_lib \<Rightarrow> egress_cfg \<Rightarrow> interface list \<Rightarrow> (string \<Rightarrow> answer list option) \<Rightarrow> egress_url option \<Rightarrow> (string \<times> string) list \<Rightarrow> egress_result" where
  "egress_tunnel L c ifs resolved url hs =
     (if \<not> egress_authorized c hs then Status 407 []
      else case url of
        None \<Rightarrow> Status 403 []
      | Some u \<Rightarrow>
          if eu_credentials u \<or> \<not> eu_bare u then Status 403 []
          else (case egress_destination L c ifs resolved (eu_hostname u) (or_port (eu_port u) 443) of
            Inl e \<Rightarrow> Status 403 (blockedHeader e)
          | Inr a \<Rightarrow> Connected a (or_port (eu_port u) 443) []))"

definition egress_upgrade ::
  "'ip ip_lib \<Rightarrow> egress_cfg \<Rightarrow> interface list \<Rightarrow> (string \<Rightarrow> answer list option) \<Rightarrow> egress_url option \<Rightarrow> (string \<times> string) list \<Rightarrow> egress_result" where
  "egress_upgrade L c ifs resolved url hs =
     (if \<not> egress_authorized c hs then Status 407 []
      else case url of
        None \<Rightarrow> Status 403 []
      | Some u \<Rightarrow>
          if eu_protocol u \<notin> {''http:'', ''ws:''} \<or> eu_credentials u then Status 403 []
          else (case egress_destination L c ifs resolved (eu_hostname u) (or_port (eu_port u) 80) of
            Inl e \<Rightarrow> Status 403 []
          | Inr a \<Rightarrow>
              if toLowerCase (or_empty (map_of hs ''upgrade'')) \<noteq> ''websocket'' then Status 403 []
              else Connected a (or_port (eu_port u) 80) (egress_headers hs (eu_host u) True)))"

section \<open>What may be reached\<close>

fun_cases egress_blocked: "blockedHeader e = ''local''"

text \<open>
  What is reached is stated on the bits of an address, not with the functions of the code: \<open>val\<close> is
  the number an address stands for and \<open>net\<close> the base and the prefix length of a CIDR string. An
  address of \<open>w\<close> bits is in a block when the first bits of the two agree.
\<close>

definition in_block :: "nat \<Rightarrow> nat \<Rightarrow> nat \<times> nat \<Rightarrow> bool" where
  "in_block w v n \<longleftrightarrow> v div 2 ^ (w - snd n) = fst n div 2 ^ (w - snd n)"

text \<open>This network, private, shared, loopback, link-local, multicast and reserved IPv4 addresses.\<close>

definition SPECIAL_V4 :: "(nat \<times> nat) list" where
  "SPECIAL_V4 = [(0, 8), (10 * 2 ^ 24, 8), (100 * 2 ^ 24 + 64 * 2 ^ 16, 10), (127 * 2 ^ 24, 8),
     (169 * 2 ^ 24 + 254 * 2 ^ 16, 16), (172 * 2 ^ 24 + 16 * 2 ^ 16, 12), (192 * 2 ^ 24 + 168 * 2 ^ 16, 16),
     (224 * 2 ^ 24, 4), (240 * 2 ^ 24, 4)]"

text \<open>Global unicast IPv6, and the transition mechanisms in it: NAT64, its local form, Teredo and 6to4.\<close>

definition GLOBAL_V6 :: "nat \<times> nat" where "GLOBAL_V6 = (2 ^ 125, 3)"

definition TRANSITION_V6 :: "(nat \<times> nat) list" where
  "TRANSITION_V6 = [(0x64ff9b * 2 ^ 96, 96), (0x64ff9b0001 * 2 ^ 80, 48), (0x20010000 * 2 ^ 96, 32), (0x2002 * 2 ^ 112, 16)]"

definition public_v4 :: "nat \<Rightarrow> bool" where "public_v4 v \<longleftrightarrow> list_all (\<lambda>n. \<not> in_block 32 v n) SPECIAL_V4"

definition public_v6 :: "nat \<Rightarrow> bool" where
  "public_v6 v \<longleftrightarrow> in_block 128 v GLOBAL_V6 \<and> list_all (\<lambda>n. \<not> in_block 128 v n) TRANSITION_V6"

definition width :: "ip_kind \<Rightarrow> nat" where "width k = (case k of IPv4 \<Rightarrow> 32 | IPv6 \<Rightarrow> 128)"

text \<open>
  The documented behaviour of the address library the proxy relies on: a match compares the bits of the
  prefix, an IPv4 address of range \<open>unicast\<close> is in none of the special blocks, and the IPv4-mapped
  address of \<open>v4\<close> is \<open>::ffff:0:0\<close> with \<open>v4\<close> in its last 32 bits.
\<close>

definition ip_documented :: "'ip ip_lib \<Rightarrow> ('ip \<Rightarrow> nat) \<Rightarrow> (string \<Rightarrow> nat \<times> nat) \<Rightarrow> bool" where
  "ip_documented L val net \<longleftrightarrow>
     (\<forall>ip cidr. ia_cidr_kind L cidr = ia_kind L ip \<longrightarrow> ia_in L ip cidr = in_block (width (ia_kind L ip)) (val ip) (net cidr)) \<and>
     (\<forall>ip. ia_kind L ip = IPv4 \<and> ia_range L ip = ''unicast'' \<longrightarrow> public_v4 (val ip)) \<and>
     (\<forall>ip v4. ia_mapped L ip = Some v4 \<longrightarrow> ia_kind L v4 = IPv4 \<and> val ip = 0xffff * 2 ^ 32 + val v4) \<and>
     (\<forall>cidr \<in> {''2000::/3'', ''64:ff9b::/96'', ''64:ff9b:1::/48'', ''2001::/32'', ''2002::/16''}. ia_cidr_kind L cidr = IPv6) \<and>
     net ''2000::/3'' = GLOBAL_V6 \<and>
     map net [''64:ff9b::/96'', ''64:ff9b:1::/48'', ''2001::/32'', ''2002::/16''] = TRANSITION_V6"

text \<open>The bits of an address on the public internet, IPv4-mapped or not.\<close>

definition public_bits :: "ip_kind \<Rightarrow> nat \<Rightarrow> bool" where
  "public_bits k v \<longleftrightarrow>
     (case k of IPv4 \<Rightarrow> public_v4 v | IPv6 \<Rightarrow> public_v6 v \<or> (\<exists>w. v = 0xffff * 2 ^ 32 + w \<and> public_v4 w))"

lemma publicAddress_bits:
  assumes doc: "ip_documented L val net" and pub: "publicAddress L address"
  shows "\<exists>ip. ia_parse L address = Some ip \<and> public_bits (ia_kind L ip) (val ip)"
proof -
  obtain ip where p: "ia_parse L address = Some ip" using pub by (auto simp: publicAddress_def split: option.splits)
  have match: "ia_in L ip cidr = in_block (width (ia_kind L ip)) (val ip) (net cidr)"
    if "ia_cidr_kind L cidr = ia_kind L ip" for cidr
    using doc that unfolding ip_documented_def by blast
  have v4: "public_v4 (val x)" if "ia_kind L x = IPv4" "ia_range L x = ''unicast''" for x
    using doc that unfolding ip_documented_def by blast
  have mapped: "ia_kind L v = IPv4 \<and> val ip = 0xffff * 2 ^ 32 + val v" if "ia_mapped L ip = Some v" for v
    using doc that unfolding ip_documented_def by blast
  have kinds: "\<forall>cidr \<in> {''2000::/3'', ''64:ff9b::/96'', ''64:ff9b:1::/48'', ''2001::/32'', ''2002::/16''}. ia_cidr_kind L cidr = IPv6"
    and nets: "net ''2000::/3'' = GLOBAL_V6"
      "map net [''64:ff9b::/96'', ''64:ff9b:1::/48'', ''2001::/32'', ''2002::/16''] = TRANSITION_V6"
    using doc unfolding ip_documented_def by blast+
  have "public_bits (ia_kind L ip) (val ip)"
  proof (cases "ia_kind L ip")
    case IPv4
    then show ?thesis using pub p v4 [of ip] by (simp add: publicAddress_def public_bits_def split: if_splits)
  next
    case IPv6
    show ?thesis
    proof (cases "ia_mapped L ip")
      case (Some v)
      have "ia_range L v = ''unicast''" using pub p IPv6 Some by (simp add: publicAddress_def split: if_splits)
      then show ?thesis using v4 [of v] mapped [OF Some] IPv6 unfolding public_bits_def by auto
    next
      case None
      have "ia_in L ip ''2000::/3'' \<and>
          list_all (\<lambda>cidr. \<not> ia_in L ip cidr) [''64:ff9b::/96'', ''64:ff9b:1::/48'', ''2001::/32'', ''2002::/16'']"
        using pub p IPv6 None by (simp add: publicAddress_def split: if_splits)
      then have "public_v6 (val ip)"
        unfolding public_v6_def nets [symmetric] using kinds IPv6 by (simp add: match width_def)
      then show ?thesis using IPv6 by (simp add: public_bits_def)
    qed
  qed
  with p show ?thesis by blast
qed

text \<open>An address the proxy may reach, and a host name it may be asked for.\<close>

definition may_reach :: "'ip ip_lib \<Rightarrow> ('ip \<Rightarrow> nat) \<Rightarrow> (string \<Rightarrow> nat \<times> nat) \<Rightarrow> egress_cfg \<Rightarrow> interface list \<Rightarrow> string \<Rightarrow> bool" where
  "may_reach L val net c ifs address \<longleftrightarrow>
     address \<notin> set (ec_denied c) \<and> address \<notin> fst ` set ifs \<and>
     (\<exists>ip. ia_parse L address = Some ip \<and> public_bits (ia_kind L ip) (val ip) \<and>
        (\<forall>cidr \<in> set (ec_deniedCIDRs c) \<union> {n. \<exists>x. (x, Some n) \<in> set ifs}.
           ia_cidr_kind L cidr = ia_kind L ip \<longrightarrow> \<not> in_block (width (ia_kind L ip)) (val ip) (net cidr)))"

definition host_allowed :: "egress_cfg \<Rightarrow> string \<Rightarrow> bool" where
  "host_allowed c host \<longleftrightarrow>
     (let h = no_trailing_dots (toLowerCase (unbracket host))
      in h \<notin> set (ec_deniedDomains c) \<and> (\<forall>d \<in> set (ec_deniedDomains c). \<forall>p. h \<noteq> p @ ''.'' @ d))"

lemma egress_destination_Inr:
  assumes "egress_destination L c ifs resolved host port = Inr a"
  shows "port \<in> {80, 443} \<and> publicAddress L (an_address a) \<and> an_address a \<notin> set (ec_denied c) \<and> \<not> isLocal L c ifs (an_address a)"
proof -
  obtain answers where
    p: "port \<in> {80, 443}" and ne: "answers \<noteq> []"
    and all: "\<not> list_ex (\<lambda>x. \<not> publicAddress L (an_address x) \<or> an_address x \<in> set (ec_denied c) \<or> isLocal L c ifs (an_address x)) answers"
    and a: "a = (case find (\<lambda>x. an_family x = 4) answers of Some x \<Rightarrow> x | None \<Rightarrow> hd answers)"
  proof -
    define ans where "ans = (if ia_isIP L (unbracket host) \<noteq> 0
        then Some [\<lparr>an_address = unbracket host, an_family = ia_isIP L (unbracket host)\<rparr>] else resolved (unbracket host))"
    have "port \<in> {80, 443} \<and> (case ans of None \<Rightarrow> False | Some answers \<Rightarrow>
        \<not> (answers = [] \<or> list_ex (\<lambda>x. \<not> publicAddress L (an_address x) \<or> an_address x \<in> set (ec_denied c) \<or> isLocal L c ifs (an_address x)) answers) \<and>
        a = (case find (\<lambda>x. an_family x = 4) answers of Some x \<Rightarrow> x | None \<Rightarrow> hd answers))"
      using assms unfolding egress_destination_def Let_def ans_def [symmetric] by (cases ans) (auto split: if_splits)
    then show ?thesis using that by (cases ans) auto
  qed
  have "a \<in> set answers"
    using ne a by (cases "find (\<lambda>x. an_family x = 4) answers") (auto simp: find_Some_iff)
  then show ?thesis using p all by (auto simp: list_ex_iff)
qed

lemma egress_destination_host:
  assumes "egress_destination L c ifs resolved host port = Inr a"
  shows "host_allowed c host"
proof -
  define h where "h = no_trailing_dots (toLowerCase (unbracket host))"
  have "\<not> list_ex (\<lambda>d. h = d \<or> ends_with h (CHR ''.'' # d)) (ec_deniedDomains c)"
    using assms unfolding egress_destination_def Let_def h_def [symmetric] by (auto split: if_splits)
  moreover have "ends_with (p @ CHR ''.'' # d) (CHR ''.'' # d)" for p d by (simp add: ends_with_def)
  ultimately show ?thesis unfolding host_allowed_def Let_def h_def [symmetric] by (auto simp: list_ex_iff)
qed

lemma egress_destination_reach:
  assumes doc: "ip_documented L val net" and d: "egress_destination L c ifs resolved host port = Inr a"
  shows "may_reach L val net c ifs (an_address a)"
proof -
  have pub: "publicAddress L (an_address a)" and den: "an_address a \<notin> set (ec_denied c)"
    and loc: "\<not> isLocal L c ifs (an_address a)"
    using egress_destination_Inr [OF d] by auto
  obtain ip where ip: "ia_parse L (an_address a) = Some ip" "public_bits (ia_kind L ip) (val ip)"
    using publicAddress_bits [OF doc pub] by blast
  have "\<not> in_block (width (ia_kind L ip)) (val ip) (net cidr)"
    if m: "cidr \<in> set (ec_deniedCIDRs c) \<union> {n. \<exists>x. (x, Some n) \<in> set ifs}" and k: "ia_cidr_kind L cidr = ia_kind L ip" for cidr
  proof -
    have "cidr \<in> set (ec_deniedCIDRs c @ List.map_filter snd ifs)" using m by (force simp: List.map_filter_def)
    then have "\<not> ia_in L ip cidr" using loc ip(1) k by (auto simp: isLocal_def list_ex_iff)
    then show ?thesis using doc k unfolding ip_documented_def by metis
  qed
  moreover have "an_address a \<notin> fst ` set ifs" using loc by (simp add: isLocal_def)
  ultimately show ?thesis using ip den unfolding may_reach_def by blast
qed

lemma egress_headers_private: "map_of (egress_headers hs host upgrade) ''proxy-authorization'' = None"
proof -
  have "map_of (filter (\<lambda>e. fst e \<notin> A \<and> fst e \<notin> set HOP_BY_HOP) xs) ''proxy-authorization'' = None" for A and xs :: "(string \<times> string) list"
    by (auto simp: map_of_eq_None_iff HOP_BY_HOP_def)
  moreover have "map_of (kv_set k v xs) ''proxy-authorization'' = map_of xs ''proxy-authorization''"
    if "k \<noteq> ''proxy-authorization''" for k v and xs :: "(string \<times> string) list"
    unfolding kv_set_get if_not_P [OF not_sym [OF that]] ..
  ultimately show ?thesis by (simp add: egress_headers_def Let_def)
qed

text \<open>A call passes only below the limit, and waits only before its deadline.\<close>

lemma slot_check_passed:
  "slot_check c deadline now i s = (s', Passed) \<Longrightarrow> length (sl_sockets s) + sl_pending s < ec_maxConnections c"
  by (auto simp: slot_check_def split: if_splits)

lemma slot_check_waits:
  "slot_check c deadline now i s = (s', Waits) \<Longrightarrow> now < deadline \<and> sl_waiters s' = sl_waiters s @ [i]"
  by (auto simp: slot_check_def split: if_splits)

lemma only_local_says_local: "blockedHeader e = ''local'' \<Longrightarrow> e = BlockedLocal"
  by (erule egress_blocked)

text \<open>
  A caller without the secret gets 407, a refusal is 403, and a connection is guarded: \<open>host\<close> is the
  host name asked for.
\<close>

definition egress_guarded ::
  "'ip ip_lib \<Rightarrow> ('ip \<Rightarrow> nat) \<Rightarrow> (string \<Rightarrow> nat \<times> nat) \<Rightarrow> egress_cfg \<Rightarrow> interface list \<Rightarrow> egress_url option
   \<Rightarrow> (string \<times> string) list \<Rightarrow> egress_result \<Rightarrow> bool" where
  "egress_guarded L val net c ifs url hs r =
     (case r of
        Status s _ \<Rightarrow> s = (if or_empty (map_of hs ''proxy-authorization'') = ec_authorization c then 403 else 407)
      | Connected a port hs' \<Rightarrow>
          or_empty (map_of hs ''proxy-authorization'') = ec_authorization c \<and> port \<in> {80, 443} \<and>
          (case url of None \<Rightarrow> False | Some u \<Rightarrow> \<not> eu_credentials u \<and> host_allowed c (eu_hostname u)) \<and>
          may_reach L val net c ifs (an_address a) \<and> map_of hs' ''proxy-authorization'' = None)"

text \<open>C40. Through the egress proxy only the public internet can be reached. The hypothesis is the
  documented behaviour of the address library, with the bits of an address and of a network. Then a
  connection is only made for a caller with the proxy's secret, to port 80 or 443, for a URL without
  credentials and a host that is no denied domain nor under one, to an address whose bits are those of
  global unicast: an IPv4 address, or the one in an IPv4-mapped address, in none of the private, shared,
  loopback, link-local, multicast and reserved blocks, or an address in 2000::/3 outside NAT64, Teredo and
  6to4. The address is not one of the denied addresses nor of this machine's, as they are spelled, and it is in no
  denied network and no network of this machine of its own family (an IPv4-mapped address is not compared
  with IPv4 networks). The secret does not go along, and everything else is answered with 407
  without the secret and with 403 with it.\<close>

theorem egress_public_only:
  assumes "ip_documented L val net"
  shows "egress_guarded L val net c ifs url hs (egress_request L c ifs resolved url hs) \<and>
    egress_guarded L val net c ifs url hs (egress_tunnel L c ifs resolved url hs) \<and>
    egress_guarded L val net c ifs url hs (egress_upgrade L c ifs resolved url hs)"
  using egress_destination_Inr [of L c ifs resolved] egress_destination_reach [OF assms, of c ifs resolved]
    egress_destination_host [of L c ifs resolved] egress_headers_private
  unfolding egress_guarded_def egress_request_def egress_tunnel_def egress_upgrade_def egress_authorized_def
  by (auto split: option.splits sum.splits if_splits)

text \<open>A library on a table of spellings, which computes everything else from the bits.\<close>

definition table_cidr :: "string \<Rightarrow> (ip_kind \<times> nat \<times> nat)" where
  "table_cidr n = (case map_of [(''2000::/3'', IPv6, GLOBAL_V6), (''64:ff9b::/96'', IPv6, 0x64ff9b * 2 ^ 96, 96),
     (''64:ff9b:1::/48'', IPv6, 0x64ff9b0001 * 2 ^ 80, 48), (''2001::/32'', IPv6, 0x20010000 * 2 ^ 96, 32),
     (''2002::/16'', IPv6, 0x2002 * 2 ^ 112, 16), (''93.184.216.0/24'', IPv4, 0x5db8d800, 24)] n of
     Some e \<Rightarrow> e | None \<Rightarrow> (IPv4, 0, 0))"

definition table_ips :: "(ip_kind \<times> nat) ip_lib" where
  "table_ips = \<lparr>ia_parse = map_of [(''93.184.216.34'', IPv4, 0x5db8d822), (''::ffff:5db8:d822'', IPv6, 0xffff * 2 ^ 32 + 0x5db8d822),
       (''10.0.0.1'', IPv4, 0x0a000001)],
     ia_kind = fst,
     ia_mapped = (\<lambda>ip. if fst ip = IPv6 \<and> snd ip div 2 ^ 32 = 0xffff then Some (IPv4, snd ip mod 2 ^ 32) else None),
     ia_range = (\<lambda>ip. if fst ip = IPv4 \<and> \<not> public_v4 (snd ip) then ''private'' else ''unicast''),
     ia_in = (\<lambda>ip n. in_block (width (fst ip)) (snd ip) (snd (table_cidr n))),
     ia_cidr_kind = fst \<circ> table_cidr,
     ia_isIP = (\<lambda>h. if h = ''93.184.216.34'' \<or> h = ''10.0.0.1'' then 4 else if h = ''::ffff:5db8:d822'' then 6 else 0)\<rparr>"

lemma table_documented: "ip_documented table_ips snd (snd \<circ> table_cidr)"
  unfolding ip_documented_def
proof (intro conjI allI impI)
  fix ip v4
  assume "ia_mapped table_ips ip = Some v4"
  then have h: "snd ip div 2 ^ 32 = 0xffff" and v: "v4 = (IPv4, snd ip mod 2 ^ 32)"
    by (auto simp: table_ips_def split: if_splits)
  show "ia_kind table_ips v4 = IPv4" using v by (simp add: table_ips_def)
  show "snd ip = 0xffff * 2 ^ 32 + snd v4"
    unfolding v snd_conv using div_mult_mod_eq [of "snd ip" "2 ^ 32"] unfolding h by (rule sym)
qed (auto simp: table_ips_def table_cidr_def GLOBAL_V6_def TRANSITION_V6_def split: if_splits)

definition a_egress :: egress_cfg where
  "a_egress = \<lparr>ec_maxConnections = 384, ec_slotWait = 15000, ec_denied = [], ec_deniedCIDRs = [],
     ec_deniedDomains = [''home.test''], ec_authorization = ''Basic x''\<rparr>"

definition an_egress_url :: "string \<Rightarrow> egress_url" where
  "an_egress_url h = \<lparr>eu_protocol = ''http:'', eu_credentials = False, eu_hostname = h, eu_port = None, eu_host = h, eu_bare = True\<rparr>"

lemmas egress_code = egress_request_def egress_authorized_def egress_destination_def Let_def an_egress_url_def a_egress_def
  publicAddress_def isLocal_def table_ips_def table_cidr_def public_v4_def in_block_def SPECIAL_V4_def width_def or_port_def

text \<open>
  A public host is connected, a private one refused; and the address of this machine, refused when it is
  spelled as an IPv4 address, is reached when it is spelled as an IPv4-mapped one, although the network of its
  interface is one of this machine's: \<open>isLocal\<close> does not unmap it as \<open>publicAddress\<close> does.
\<close>

lemma egress_examples:
  "egress_request table_ips a_egress [] (\<lambda>h. Some [\<lparr>an_address = ''93.184.216.34'', an_family = 4\<rparr>]) (Some (an_egress_url ''site.test''))
     [(''proxy-authorization'', ''Basic x'')] = Connected \<lparr>an_address = ''93.184.216.34'', an_family = 4\<rparr> 80 [(''host'', ''site.test'')]"
  "egress_request table_ips a_egress [] (\<lambda>h. Some [\<lparr>an_address = ''10.0.0.1'', an_family = 4\<rparr>]) (Some (an_egress_url ''site.test''))
     [(''proxy-authorization'', ''Basic x'')] = Status 403 ''local''"
  by (simp_all add: egress_code egress_headers_def kv_set_def HOP_BY_HOP_def js_trim_def unbracket_def no_trailing_dots_def
      toLowerCase_def ends_with_def or_empty_def)

lemma mapped_own_address_is_reached:
  "egress_request table_ips a_egress [(''93.184.216.34'', Some ''93.184.216.0/24'')] (\<lambda>h. None)
     (Some (an_egress_url ''93.184.216.34'')) [(''proxy-authorization'', ''Basic x'')] = Status 403 ''local''"
  "egress_request table_ips a_egress [(''93.184.216.34'', Some ''93.184.216.0/24'')] (\<lambda>h. None)
     (Some (an_egress_url ''[::ffff:5db8:d822]'')) [(''proxy-authorization'', ''Basic x'')] =
   Connected \<lparr>an_address = ''::ffff:5db8:d822'', an_family = 6\<rparr> 80 [(''host'', ''[::ffff:5db8:d822]'')]"
  by (simp_all add: egress_code egress_headers_def kv_set_def HOP_BY_HOP_def js_trim_def unbracket_def no_trailing_dots_def
      toLowerCase_def ends_with_def or_empty_def)

theorem egress_public_only_witness:
  "egress_guarded table_ips snd (snd \<circ> table_cidr) a_egress [] (Some (an_egress_url ''site.test'')) [(''proxy-authorization'', ''Basic x'')]
     (Connected \<lparr>an_address = ''93.184.216.34'', an_family = 4\<rparr> 80 [(''host'', ''site.test'')])"
  using egress_public_only [OF table_documented, of a_egress "[]" "Some (an_egress_url ''site.test'')" "[(''proxy-authorization'', ''Basic x'')]"
      "\<lambda>h. Some [\<lparr>an_address = ''93.184.216.34'', an_family = 4\<rparr>]", THEN conjunct1]
  unfolding egress_examples(1) .

end
