(* ===== verification/TermProfile.thy ===== *)
theory TermProfile
  imports VtPrelude JsStr BlWorkers
begin

text \<open>
  \<^verbatim>\<open>terminal/terminal-profile.js\<close>: the time-limited timing profile of a terminal page. It counts the
  control sequences of the output without keeping text, watches the scroll position, and sends its
  rows in small batches. The page, its clock and the sizes of JSON texts are arguments.
\<close>

section \<open>Control sequences\<close>

record controls =
  erase_screen :: nat
  erase_scrollback :: nat
  cursor_home :: nat
  delete_lines :: nat
  insert_lines :: nat
  scroll_up :: nat
  scroll_down :: nat
  alternate_enter :: nat
  alternate_exit :: nat

definition no_controls :: controls where
  "no_controls = \<lparr>erase_screen = 0, erase_scrollback = 0, cursor_home = 0, delete_lines = 0, insert_lines = 0,
     scroll_up = 0, scroll_down = 0, alternate_enter = 0, alternate_exit = 0\<rparr>"

text \<open>The parser state kept between frames, with the counts.\<close>

record ansi =
  an_state :: nat
  an_param :: nat
  an_first :: "nat option"
  an_private :: bool
  an_controls :: controls

definition ansi_start :: ansi where
  "ansi_start = \<lparr>an_state = 0, an_param = 0, an_first = None, an_private = False, an_controls = no_controls\<rparr>"

definition count_final :: "nat \<Rightarrow> nat \<Rightarrow> nat \<Rightarrow> bool \<Rightarrow> controls \<Rightarrow> controls" where
  "count_final c first param private k =
     (let k = (if c = 74 \<and> first = 2 then k\<lparr>erase_screen := erase_screen k + 1\<rparr> else k);
          k = (if c = 74 \<and> first = 3 then k\<lparr>erase_scrollback := erase_scrollback k + 1\<rparr> else k);
          k = (if (c = 72 \<or> c = 102) \<and> first \<le> 1 \<and> param \<le> 1 then k\<lparr>cursor_home := cursor_home k + 1\<rparr> else k);
          k = (if c = 77 then k\<lparr>delete_lines := delete_lines k + 1\<rparr> else k);
          k = (if c = 76 then k\<lparr>insert_lines := insert_lines k + 1\<rparr> else k);
          k = (if c = 83 then k\<lparr>scroll_up := scroll_up k + 1\<rparr> else k);
          k = (if c = 84 then k\<lparr>scroll_down := scroll_down k + 1\<rparr> else k)
      in if private \<and> first \<in> {1049, 1047, 47}
         then if c = 104 then k\<lparr>alternate_enter := alternate_enter k + 1\<rparr>
              else if c = 108 then k\<lparr>alternate_exit := alternate_exit k + 1\<rparr> else k
         else k)"

text \<open>One byte in the states 1 (after ESC) and 2 (inside a control sequence).\<close>

definition ansi_byte :: "ansi \<Rightarrow> nat \<Rightarrow> ansi" where
  "ansi_byte a c =
     (if an_state a = 1
      then a\<lparr>an_state := (if c = 91 then 2 else 0), an_param := 0, an_first := None, an_private := False\<rparr>
      else if c = 63 then a\<lparr>an_private := True\<rparr>
      else if 48 \<le> c \<and> c \<le> 57 then a\<lparr>an_param := min 65535 (an_param a * 10 + c - 48)\<rparr>
      else if c = 59 then a\<lparr>an_first := (case an_first a of None \<Rightarrow> Some (an_param a) | Some f \<Rightarrow> Some f), an_param := 0\<rparr>
      else a\<lparr>an_controls := count_final c (case an_first a of None \<Rightarrow> an_param a | Some f \<Rightarrow> f) (an_param a) (an_private a) (an_controls a),
             an_state := (if c = 27 then 1 else 0)\<rparr>)"

text \<open>The loop over a frame: in state 0 it jumps behind the next ESC, or stops when there is none.\<close>

function count_loop :: "ansi \<Rightarrow> nat list \<Rightarrow> ansi" where
  "count_loop a bs =
     (if bs = [] then a
      else if an_state a = 0
      then (case dropWhile (\<lambda>c. c \<noteq> 27) bs of [] \<Rightarrow> a | _ # rest \<Rightarrow> count_loop (a\<lparr>an_state := 1\<rparr>) rest)
      else count_loop (ansi_byte a (hd bs)) (tl bs))"
  by pat_completeness auto
termination count_loop
proof (relation "measure (\<lambda>(a, bs). length bs)")
  fix a :: ansi and bs x rest
  assume "dropWhile (\<lambda>c. c \<noteq> 27) bs = x # rest"
  then have "length (x # rest) \<le> length bs" by (metis length_dropWhile_le)
  then show "((a\<lparr>an_state := 1\<rparr>, rest), (a, bs)) \<in> measure (\<lambda>(a, bs). length bs)" by simp
qed auto

declare count_loop.simps [simp del]

text \<open>The first byte of a frame is its type.\<close>

definition countControls :: "ansi \<Rightarrow> nat list \<Rightarrow> ansi" where
  "countControls a frame = count_loop a (tl frame)"

section \<open>Rows and batches\<close>

datatype jval = Null | Undef | Num real | Str string | Flag bool | Obj "(string \<times> jval) list" | Arr "jval list"

type_synonym row = "(string \<times> jval) list"

text \<open>What a row is made of: the clock (\<open>pe_now\<close>, \<open>pe_stamp\<close>) and the page.\<close>

record penv =
  pe_now :: real
  pe_stamp :: real
  pe_until :: real
  pe_id :: string
  pe_path :: string
  pe_hidden :: bool
  pe_online :: bool

record profile =
  pq_queue :: "row list"
  pq_timer :: bool
  pq_seq :: nat
  pq_interaction :: real

definition queue_push :: "'a list \<Rightarrow> nat \<Rightarrow> 'a \<Rightarrow> 'a list" where
  "queue_push q cap x = (if length (q @ [x]) > cap then tl (q @ [x]) else q @ [x])"

definition profile_emit :: "penv \<Rightarrow> string \<Rightarrow> row \<Rightarrow> profile \<Rightarrow> profile" where
  "profile_emit e event data p =
     (if pe_now e \<ge> pe_until e then p
      else let base = [(''k'', Str ''terminal-profile''), (''event'', Str event), (''id'', Str (pe_id e)),
                  (''seq'', Num (real (pq_seq p))), (''path'', Str (pe_path e)), (''at'', Num (pe_now e)),
                  (''ms'', Num (Math_round (pe_stamp e))), (''hidden'', Flag (pe_hidden e)), (''online'', Flag (pe_online e)),
                  (''interaction_age_ms'', Num (pe_now e - pq_interaction p))];
               row = foldl (\<lambda>r kv. kv_set (fst kv) (snd kv) r) base data
           in p\<lparr>pq_queue := queue_push (pq_queue p) 32 row, pq_timer := True\<rparr>)"

text \<open>\<open>size\<close> is the length of the JSON of a list of rows.\<close>

fun take_batch :: "(row list \<Rightarrow> nat) \<Rightarrow> row list \<Rightarrow> row list \<Rightarrow> row list \<times> row list" where
  "take_batch sz batch [] = (batch, [])"
| "take_batch sz batch (r # q) =
     (if length batch \<ge> 8 \<or> (batch \<noteq> [] \<and> sz (batch @ [r]) > 4500) then (batch, r # q)
      else take_batch sz (batch @ [r]) q)"

definition profile_flush :: "(row list \<Rightarrow> nat) \<Rightarrow> penv \<Rightarrow> profile \<Rightarrow> profile \<times> row list option" where
  "profile_flush sz e p =
     (if pq_queue p = [] \<or> pe_now e \<ge> pe_until e then (p\<lparr>pq_queue := [], pq_timer := False\<rparr>, None)
      else case take_batch sz [] (pq_queue p) of
        (batch, rest) \<Rightarrow> (p\<lparr>pq_queue := rest, pq_timer := (rest \<noteq> [])\<rparr>, Some batch))"

section \<open>Resource timings\<close>

definition timing_ms :: "real option \<Rightarrow> real" where
  "timing_ms n = max 0 (Math_round (js_or n 0))"

record resource =
  re_path :: "string option"
  re_start :: real
  re_duration :: real
  re_ttfb :: real
  re_wire :: real
  re_encoded :: real

definition token_path :: "string \<Rightarrow> bool" where
  "token_path p \<longleftrightarrow>
     starts_with ''/t'' p \<and>
     (let d = takeWhile is_digit (drop 2 p) in d \<noteq> [] \<and> drop (2 + length d) p = ''/token'')"

definition profiled_path :: "string \<Rightarrow> bool" where
  "profiled_path p \<longleftrightarrow>
     token_path p \<or>
     p \<in> {''/terminal-connection.js'', ''/terminal-kbd.js'', ''/terminal-profile.js'', ''/kbd-input.js'', ''/coach.js''}"

definition resource_row :: "resource \<Rightarrow> row" where
  "resource_row r =
     [(''path'', Str (case re_path r of None \<Rightarrow> [] | Some p \<Rightarrow> p)), (''start_ms'', Num (timing_ms (Some (re_start r)))),
      (''duration_ms'', Num (timing_ms (Some (re_duration r)))), (''ttfb_ms'', Num (timing_ms (Some (re_ttfb r)))),
      (''wire_bytes'', Num (re_wire r)), (''encoded_bytes'', Num (re_encoded r))]"

definition resource_rows :: "resource list \<Rightarrow> row list" where
  "resource_rows rs =
     map resource_row (take 8 (filter (\<lambda>r. case re_path r of None \<Rightarrow> False | Some p \<Rightarrow> profiled_path p) rs))"

section \<open>The scroll position\<close>

text \<open>What the terminal shows, and what its reader says (undefined entries are \<open>Undef\<close>).\<close>

record reading =
  rd_revision :: jval
  rd_following :: jval
  rd_anchored :: jval
  rd_navigating :: jval
  rd_marker :: jval
  rd_anchorDistance :: jval

record view =
  vw_base :: real
  vw_viewport :: real
  vw_mode :: string
  vw_scrollTop :: "real option"
  vw_cursor :: real
  vw_rows :: real
  vw_cols :: real
  vw_reading :: reading

record geometry =
  gm_base :: real
  gm_viewport :: real
  gm_distance :: real
  gm_mode :: string
  gm_row :: row

text \<open>The last times are None where they are \<open>-Infinity\<close>.\<close>

record scroll =
  sc_last :: "geometry option"
  sc_observations :: "row list"
  sc_shift :: "real option"
  sc_navigation :: "real option"
  sc_repaint :: "real option"
  sc_sizeClaim :: "real option"
  sc_fit :: "real option"
  sc_reported :: controls

definition since_at_least :: "real \<Rightarrow> real option \<Rightarrow> real \<Rightarrow> bool" where
  "since_at_least stamp l0 d = (case l0 of None \<Rightarrow> True | Some l \<Rightarrow> stamp - l \<ge> d)"

definition since_more :: "real \<Rightarrow> real option \<Rightarrow> real \<Rightarrow> bool" where
  "since_more stamp l0 d = (case l0 of None \<Rightarrow> True | Some l \<Rightarrow> stamp - l > d)"

definition age :: "real \<Rightarrow> real option \<Rightarrow> jval" where
  "age stamp l0 = (case l0 of None \<Rightarrow> Null | Some l \<Rightarrow> Num (Math_round (stamp - l)))"

definition opt_num :: "real option \<Rightarrow> jval \<Rightarrow> jval" where
  "opt_num v d = (case v of None \<Rightarrow> d | Some x \<Rightarrow> Num x)"

definition controls_row :: "controls \<Rightarrow> row" where
  "controls_row k =
     [(''erase_screen'', Num (erase_screen k)), (''erase_scrollback'', Num (erase_scrollback k)), (''cursor_home'', Num (cursor_home k)),
      (''delete_lines'', Num (delete_lines k)), (''insert_lines'', Num (insert_lines k)), (''scroll_up'', Num (scroll_up k)),
      (''scroll_down'', Num (scroll_down k)), (''alternate_enter'', Num (alternate_enter k)), (''alternate_exit'', Num (alternate_exit k))]"

text \<open>The four counts that are compared with what was reported last.\<close>

definition unreported :: "controls \<Rightarrow> controls \<Rightarrow> bool" where
  "unreported k r \<longleftrightarrow>
     (erase_screen k, erase_scrollback k, alternate_enter k, alternate_exit k) \<noteq>
     (erase_screen r, erase_scrollback r, alternate_enter r, alternate_exit r)"

definition geometry_of :: "penv \<Rightarrow> string \<Rightarrow> real option \<Rightarrow> view \<Rightarrow> geometry" where
  "geometry_of e reason target v =
     (let d = vw_base v - vw_viewport v; r = vw_reading v
      in \<lparr>gm_base = vw_base v, gm_viewport = vw_viewport v, gm_distance = d, gm_mode = vw_mode v,
          gm_row = [(''ms'', Num (Math_round (pe_stamp e))), (''reason'', Str reason), (''base'', Num (vw_base v)),
            (''viewport'', Num (vw_viewport v)), (''distance'', Num d), (''mode'', Str (vw_mode v)),
            (''scroll_top'', opt_num (map_option Math_round (vw_scrollTop v)) Null), (''cursor_row'', Num (vw_cursor v)),
            (''rows'', Num (vw_rows v)), (''cols'', Num (vw_cols v)), (''reader_revision'', rd_revision r),
            (''following'', rd_following r), (''anchored'', rd_anchored r), (''navigating'', rd_navigating r),
            (''target'', opt_num target Undef)]\<rparr>)"

definition redraw_reason :: "string \<Rightarrow> bool" where
  "redraw_reason r \<longleftrightarrow> r \<in> {''reader-redraw-hold'', ''reader-redraw-resume'', ''reader-redraw-timeout'', ''reader-redraw-fallback''}"

definition shifted :: "string \<Rightarrow> real option \<Rightarrow> geometry \<Rightarrow> geometry option \<Rightarrow> bool" where
  "shifted reason target g prev =
     (case prev of
        None \<Rightarrow> False
      | Some p \<Rightarrow>
          gm_distance g - gm_distance p > 5 \<or>
          reason = ''reader-restore'' \<and> \<bar>js_or target 0 - gm_viewport g\<bar> > 5)"

definition observed :: "string \<Rightarrow> geometry \<Rightarrow> geometry option \<Rightarrow> bool" where
  "observed reason g prev =
     (case prev of
        None \<Rightarrow> True
      | Some p \<Rightarrow> gm_base p \<noteq> gm_base g \<or> gm_viewport p \<noteq> gm_viewport g \<or> gm_mode p \<noteq> gm_mode g \<or> reason \<noteq> ''parsed-write'')"

definition last_six :: "'a list \<Rightarrow> 'a list" where "last_six xs = drop (length xs - 6) xs"

text \<open>The rows both reports end with.\<close>

definition report_tail :: "penv \<Rightarrow> controls \<Rightarrow> scroll \<Rightarrow> row" where
  "report_tail e k s =
     [(''controls'', Obj (controls_row k)), (''size_claim_age_ms'', age (pe_stamp e) (sc_sizeClaim s)),
      (''fit_age_ms'', age (pe_stamp e) (sc_fit s)), (''observations'', Arr (map Obj (last_six (sc_observations s))))]"

definition observeScroll ::
  "penv \<Rightarrow> controls \<Rightarrow> string \<Rightarrow> real option \<Rightarrow> view option \<Rightarrow> scroll \<Rightarrow> scroll \<times> (string \<times> row) list" where
  "observeScroll e k reason target view s0 =
     (case view of
        None \<Rightarrow> (s0, [])
      | Some v \<Rightarrow>
          if pe_now e \<ge> pe_until e then (s0, [])
          else let t = pe_stamp e; r = vw_reading v;
                   s1 = s0\<lparr>sc_navigation := (if reason = ''navigation'' then Some t else sc_navigation s0),
                           sc_sizeClaim := (if reason = ''claim-size'' then Some t else sc_sizeClaim s0),
                           sc_fit := (if reason = ''fit'' then Some t else sc_fit s0)\<rparr>;
                   g = geometry_of e reason target v; prev = sc_last s1;
                   redraw = (if redraw_reason reason
                     then [(''reader-redraw'', [(''reason'', Str reason), (''reader_revision'', rd_revision r), (''base'', Num (vw_base v)),
                            (''viewport'', Num (vw_viewport v)), (''following'', rd_following r), (''anchored'', rd_anchored r),
                            (''marker_row'', rd_marker r), (''rows'', Num (vw_rows v)), (''cols'', Num (vw_cols v))])] else []);
                   s2 = s1\<lparr>sc_observations := (if observed reason g prev then queue_push (sc_observations s1) 8 (gm_row g)
                                              else sc_observations s1), sc_last := Some g\<rparr>;
                   paint = (reason = ''parsed-write'' \<and> since_at_least t (sc_repaint s2) 15000 \<and> unreported k (sc_reported s2));
                   repaint = (if paint
                     then [(''screen-repaint'', [(''base'', Num (vw_base v)), (''viewport'', Num (vw_viewport v)), (''mode'', Str (vw_mode v)),
                            (''rows'', Num (vw_rows v)), (''cols'', Num (vw_cols v)), (''reader_revision'', rd_revision r),
                            (''following'', rd_following r), (''anchored'', rd_anchored r)] @ report_tail e k s2)] else []);
                   s3 = (if paint then s2\<lparr>sc_repaint := Some t, sc_reported := k\<rparr> else s2);
                   sh = (shifted reason target g prev \<and> since_more t (sc_shift s3) 1000);
                   shift = (case prev of
                       Some p \<Rightarrow> if sh
                         then [(''viewport-shift'', [(''reason'', Str reason), (''from_base'', Num (gm_base p)), (''from_viewport'', Num (gm_viewport p)),
                            (''base'', Num (vw_base v)), (''viewport'', Num (vw_viewport v)), (''distance'', Num (gm_distance g)),
                            (''mode'', Str (vw_mode v)), (''scroll_top'', opt_num (map_option Math_round (vw_scrollTop v)) Null),
                            (''rows'', Num (vw_rows v)), (''cols'', Num (vw_cols v)), (''navigation_age_ms'', age t (sc_navigation s3)),
                            (''reader_revision'', rd_revision r), (''following'', rd_following r), (''anchored'', rd_anchored r),
                            (''navigating'', rd_navigating r), (''marker_row'', rd_marker r), (''anchor_distance'', rd_anchorDistance r),
                            (''target'', opt_num target Undef)] @ report_tail e k s3)] else []
                     | None \<Rightarrow> [])
               in (if sh then s3\<lparr>sc_shift := Some t\<rparr> else s3, redraw @ repaint @ shift))"

section \<open>Sockets\<close>

record socket_state =
  so_seq :: nat
  so_created :: real
  so_opened :: "real option"
  so_output :: "real option"
  so_bytes :: nat
  so_frames :: nat

definition socket_open :: "penv \<Rightarrow> socket_state \<Rightarrow> socket_state \<times> (string \<times> row)" where
  "socket_open e s =
     (s\<lparr>so_opened := Some (pe_stamp e)\<rparr>,
      (''socket-open'', [(''seq'', Num (so_seq s)), (''handshake_ms'', Num (Math_round (pe_stamp e - so_created s)))]))"

text \<open>A frame of output is its type (48, the digit 0) and at least one byte; other frames are ignored.\<close>

definition socket_message :: "penv \<Rightarrow> nat list \<Rightarrow> socket_state \<Rightarrow> ansi \<Rightarrow> socket_state \<times> ansi \<times> (string \<times> row) list" where
  "socket_message e frame s a =
     (if pe_now e \<ge> pe_until e \<or> length frame \<le> 1 \<or> hd frame \<noteq> 48 then (s, a, [])
      else let s1 = s\<lparr>so_frames := so_frames s + 1, so_bytes := so_bytes s + (length frame - 1)\<rparr>
           in if so_output s \<noteq> None then (s1, countControls a frame, [])
              else (s1\<lparr>so_output := Some (pe_stamp e)\<rparr>, countControls a frame,
                    [(''first-output'', [(''seq'', Num (so_seq s)), (''socket_to_output_ms'', Num (Math_round (pe_stamp e - so_created s))),
                       (''open_to_output_ms'', (case so_opened s of None \<Rightarrow> Null | Some t \<Rightarrow> Num (Math_round (pe_stamp e - t))))])]))"

definition socket_close :: "penv \<Rightarrow> real \<Rightarrow> socket_state \<Rightarrow> (string \<times> row) list" where
  "socket_close e code s =
     (if pe_now e \<ge> pe_until e then []
      else [(''socket-close'', [(''seq'', Num (so_seq s)), (''code'', Num code),
              (''lifetime_ms'', Num (Math_round (pe_stamp e - so_created s))), (''output_bytes'', Num (so_bytes s)),
              (''output_frames'', Num (so_frames s))])])"

section \<open>Counting does not depend on the frames\<close>

text \<open>The byte-by-byte machine.\<close>

definition ansi_step :: "ansi \<Rightarrow> nat \<Rightarrow> ansi" where
  "ansi_step a c = (if an_state a = 0 then (if c = 27 then a\<lparr>an_state := 1\<rparr> else a) else ansi_byte a c)"

lemma ansi_skip: "an_state a = 0 \<Longrightarrow> \<forall>c \<in> set xs. c \<noteq> 27 \<Longrightarrow> foldl ansi_step a xs = a"
  by (induction xs) (simp_all add: ansi_step_def)

lemma count_loop_steps: "count_loop a bs = foldl ansi_step a bs"
proof (induction a bs rule: count_loop.induct)
  case (1 a bs)
  show ?case
  proof (cases "bs = [] \<or> an_state a \<noteq> 0")
    case True
    show ?thesis
    proof (cases bs)
      case Nil
      then show ?thesis by (subst count_loop.simps) simp
    next
      case (Cons x rest)
      then have st: "an_state a \<noteq> 0" using True by simp
      then have head: "ansi_step a x = ansi_byte a x" by (simp add: ansi_step_def)
      have "count_loop (ansi_byte a x) rest = foldl ansi_step (ansi_byte a x) rest"
        using 1(2) Cons st by simp
      then show ?thesis using st head Cons by (subst count_loop.simps) simp
    qed
  next
    case False
    then have ne: "bs \<noteq> []" and st: "an_state a = 0" by simp_all
    define pre where "pre = takeWhile (\<lambda>c. c \<noteq> 27) bs"
    have bs: "bs = pre @ dropWhile (\<lambda>c. c \<noteq> 27) bs" by (simp add: pre_def)
    have skip: "foldl ansi_step a pre = a"
      by (rule ansi_skip [OF st]) (auto simp: pre_def dest: set_takeWhileD)
    show ?thesis
    proof (cases "dropWhile (\<lambda>c. c \<noteq> 27) bs")
      case Nil
      then have "foldl ansi_step a bs = a" using bs skip by (metis append_Nil2)
      then show ?thesis using ne st Nil by (subst count_loop.simps) (simp del: dropWhile_eq_Nil_conv)
    next
      case (Cons x rest)
      then have x: "x = 27" using hd_dropWhile [of "\<lambda>c. c \<noteq> 27" bs] by simp
      have "count_loop a bs = count_loop (a\<lparr>an_state := 1\<rparr>) rest"
        using ne st Cons by (subst count_loop.simps) simp
      also have "\<dots> = foldl ansi_step (a\<lparr>an_state := 1\<rparr>) rest" using 1(1) ne st Cons by simp
      also have "\<dots> = foldl ansi_step a bs"
        by (subst bs, subst Cons) (simp add: skip ansi_step_def st x)
      finally show ?thesis .
    qed
  qed
qed

text \<open>The counts of the terminal profile do not depend on how the output is cut into frames: counting
  the frames one by one, with the jumps to the next ESC, gives what the byte-by-byte machine counts in
  the joined output, wherever a sequence was cut.\<close>

lemma controls_any_fragmentation:
  "foldl countControls a frames = foldl ansi_step a (concat (map tl frames))"
  by (induction frames arbitrary: a) (simp_all add: countControls_def count_loop_steps)

section \<open>Bounded queues and batches\<close>

lemma queue_push_keeps:
  assumes "length q \<le> cap" "0 < cap"
  shows "queue_push q cap x = drop (length q - (cap - 1)) q @ [x]"
proof (cases "length q < cap")
  case True
  then have "length q - (cap - 1) = 0" by simp
  then show ?thesis using True by (simp add: queue_push_def)
next
  case False
  then have "length q - (cap - 1) = Suc 0" "length q = cap" "q \<noteq> []" using assms by auto
  then show ?thesis by (simp add: queue_push_def drop_Suc)
qed

interpretation rows: bounded_log "\<lambda>q x. queue_push q 32 x" 32
  by unfold_locales (simp_all add: queue_push_keeps)

interpretation observations: bounded_log "\<lambda>q x. queue_push q 8 x" 8
  by unfold_locales (simp_all add: queue_push_keeps)

lemma emit_bounded: "length (pq_queue p) \<le> 32 \<Longrightarrow> length (pq_queue (profile_emit e event data p)) \<le> 32"
  by (simp add: profile_emit_def Let_def rows.push_length)

lemma take_batch_split:
  "take_batch sz batch q = (b, rest) \<Longrightarrow> b @ rest = batch @ q \<and> (length batch \<le> 8 \<longrightarrow> length b \<le> 8)"
  by (induction sz batch q rule: take_batch.induct) (auto split: if_splits)

lemma take_batch_grows: "take_batch sz batch q = (b, rest) \<Longrightarrow> length batch \<le> length b"
  by (induction sz batch q rule: take_batch.induct) (auto split: if_splits)

lemma take_batch_size:
  "take_batch sz batch q = (b, rest) \<Longrightarrow> length b > 1 \<Longrightarrow> b = batch \<or> sz b \<le> 4500"
proof (induction sz batch q arbitrary: rule: take_batch.induct)
  case (2 sz batch r q)
  then show ?case by (auto split: if_splits)
qed simp

lemma flush_batch:
  assumes "profile_flush sz e p = (p', Some b)"
  shows "b @ pq_queue p' = pq_queue p \<and> 0 < length b \<and> length b \<le> 8 \<and> (length b = 1 \<or> sz b \<le> 4500)"
proof -
  obtain rest where t: "take_batch sz [] (pq_queue p) = (b, rest)" "pq_queue p' = rest" "pq_queue p \<noteq> []"
    using assms by (auto simp: profile_flush_def split: if_splits prod.splits)
  then obtain r q where q: "pq_queue p = r # q" by (cases "pq_queue p") auto
  have "take_batch sz [r] q = (b, rest)" using t(1) q by simp
  then have "b \<noteq> []" using take_batch_grows [of sz "[r]" q b rest] by auto
  then have "length b = 1 \<or> length b > 1" by (cases b) auto
  then show ?thesis using take_batch_split [OF t(1)] take_batch_size [OF t(1)] t(2) by auto
qed

end
