(* ===== verification/ServiceWorker.thy ===== *)
theory ServiceWorker
  imports VtPrelude JsStr BlWorkers BlCookies
begin

text \<open>
  \<^verbatim>\<open>shell/sw.js\<close>: the service worker of the desktop. It decides per request whether to answer
  at all, answers page navigations from the network with the cached shell as a fallback, keeps the
  caches, and records what it did in a short trace. The network is an argument: the time at which it
  answers (milliseconds after the request) with a response or the message of an error, or None when
  it never answers.
\<close>

section \<open>Responses and caches\<close>

datatype response_type = Basic | Cors | Default | OpaqueRedirect

text \<open>One line of the trace.\<close>

record trace_entry =
  te_t :: nat
  te_v :: string
  te_p :: string
  te_k :: string
  te_how :: string
  te_s :: "nat option"
  te_ty :: "response_type option"
  te_rd :: "bool option"
  te_ms :: nat
  te_why :: "string option"

text \<open>
  The bodies the worker makes itself are constructors with what varies in them; \<open>Ring\<close> is the JSON
  of the trace, and \<open>Document\<close> everything that comes from the network.
\<close>

datatype content = Document string | Handoff nat | Unreachable nat string | Ring "trace_entry list"

record response =
  rs_status :: nat
  rs_type :: response_type
  rs_redirected :: bool
  rs_content :: content

definition rs_ok :: "response \<Rightarrow> bool" where
  "rs_ok r \<longleftrightarrow> 200 \<le> rs_status r \<and> rs_status r \<le> 299"

definition isRedirect :: "response \<Rightarrow> bool" where
  "isRedirect r \<longleftrightarrow> rs_type r = OpaqueRedirect \<or> (300 \<le> rs_status r \<and> rs_status r < 400)"

definition own_page :: "content \<Rightarrow> response" where
  "own_page b = \<lparr>rs_status = 200, rs_type = Default, rs_redirected = False, rs_content = b\<rparr>"

definition handoffPage :: "nat \<Rightarrow> response" where
  "handoffPage now = own_page (Handoff now)"

definition unreachablePage :: "nat \<Rightarrow> string \<Rightarrow> response" where
  "unreachablePage now why = own_page (Unreachable now (filter (\<lambda>c. c \<notin> set ''<>&'') why))"

text \<open>The named caches, each from addresses to responses.\<close>

type_synonym cache = "(string \<times> response) list"
type_synonym caches = "(string \<times> cache) list"

definition VERSION :: string where "VERSION = ''v820''"
definition CACHE :: string where "CACHE = ''shell-'' @ VERSION"
definition TRACE_CACHE :: string where "TRACE_CACHE = ''vt-trace''"
definition TRACE_KEY :: string where "TRACE_KEY = ''/__vt/swtrace''"
definition TRACE_MAX :: nat where "TRACE_MAX = 40"

definition cache_of :: "string \<Rightarrow> caches \<Rightarrow> cache" where
  "cache_of name cs = (case map_of cs name of None \<Rightarrow> [] | Some c \<Rightarrow> c)"

definition cache_put :: "string \<Rightarrow> string \<Rightarrow> response \<Rightarrow> caches \<Rightarrow> caches" where
  "cache_put name u r cs = kv_set name (kv_set u r (cache_of name cs)) cs"

definition cache_match :: "string \<Rightarrow> string \<Rightarrow> caches \<Rightarrow> response option" where
  "cache_match name u cs = map_of (cache_of name cs) u"

section \<open>The trace\<close>

definition ring_push :: "trace_entry list \<Rightarrow> trace_entry \<Rightarrow> trace_entry list" where
  "ring_push ring e =
     (if length (ring @ [e]) > TRACE_MAX then drop (length (ring @ [e]) - TRACE_MAX) (ring @ [e]) else ring @ [e])"

definition ring_of :: "caches \<Rightarrow> trace_entry list" where
  "ring_of cs =
     (case cache_match TRACE_CACHE TRACE_KEY cs of
        None \<Rightarrow> []
      | Some r \<Rightarrow> (case rs_content r of Ring ring \<Rightarrow> ring | _ \<Rightarrow> []))"

definition trace :: "nat \<Rightarrow> trace_entry \<Rightarrow> caches \<Rightarrow> caches" where
  "trace now e cs =
     cache_put TRACE_CACHE TRACE_KEY (own_page (Ring (ring_push (ring_of cs) (e\<lparr>te_t := now, te_v := VERSION\<rparr>)))) cs"

section \<open>Which requests are answered\<close>

definition PRECACHE :: "string list" where
  "PRECACHE = [''/'', ''/vibe-modal.js'', ''/coach.js'', ''/system-tray.js'', ''/appreg.js'', ''/deskstate.js'',
     ''/usage-strips.js'', ''/winmgr.js'', ''/keybar.js'', ''/apph.js'', ''/landing.html'', ''/notes.html'',
     ''/monitor.html'', ''/token-stats.html'', ''/upload.html'', ''/x11launcher.html'', ''/files.html'',
     ''/manifest.json'', ''/icons/icon-192.png'', ''/icons/icon-512.png'', ''/icons/icon-512-maskable.png'',
     ''/icons/apple-touch-icon.png'']"

definition SHELL_PAGES :: "string list" where
  "SHELL_PAGES = filter (\<lambda>p. p = ''/'' \<or> ends_with p ''.html'') PRECACHE"

text \<open>The pattern \<open>BYPASS\<close>: the path starts with one of these, or with \<open>/t\<close> and a digit.\<close>

definition bypass :: "string \<Rightarrow> bool" where
  "bypass p \<longleftrightarrow>
     list_ex (\<lambda>w. starts_with (CHR ''/'' # w) p)
       [''api'', ''browser'', ''x11-display'', ''office'', ''onlyoffice'', ''terminals'', ''fileview'', ''services.json'',
        ''cdn-cgi'', ''reauth.html'', ''rts/''] \<or>
     (starts_with ''/t'' p \<and> (case drop 2 p of [] \<Rightarrow> False | c # _ \<Rightarrow> is_digit c))"

text \<open>A promise against a timer that is started at \<open>start\<close>: when it settles, and how.\<close>

type_synonym network = "(nat \<times> (string + response)) option"

definition withTimeout :: "nat \<Rightarrow> nat \<Rightarrow> network \<Rightarrow> nat \<times> (string + response)" where
  "withTimeout start ms net =
     (case net of
        None \<Rightarrow> (start + ms, Inl ''timeout'')
      | Some (t, r) \<Rightarrow> if t \<le> start then (start, r) else if t < start + ms then (t, r) else (start + ms, Inl ''timeout''))"

section \<open>Install and activate\<close>

text \<open>Each address of the list is fetched; what fails is left out, and the rest is stored whenever it arrives.\<close>

definition sw_precache :: "(string \<Rightarrow> network) \<Rightarrow> caches \<Rightarrow> caches" where
  "sw_precache net cs =
     fold (\<lambda>u cs. case net u of
                    Some (_, Inr r) \<Rightarrow> if rs_ok r \<and> \<not> rs_redirected r then cache_put CACHE u r cs else cs
                  | _ \<Rightarrow> cs) PRECACHE (kv_set CACHE (cache_of CACHE cs) cs)"

text \<open>When the installation ends: with the last fetch, but not after eight seconds.\<close>

definition sw_install_ends :: "(string \<Rightarrow> network) \<Rightarrow> nat" where
  "sw_install_ends net =
     fold (\<lambda>u m. max m (case net u of None \<Rightarrow> 8000 | Some (t, _) \<Rightarrow> min t 8000)) PRECACHE 0"

definition sw_activate :: "caches \<Rightarrow> caches" where
  "sw_activate cs = filter (\<lambda>e. fst e = CACHE \<or> fst e = TRACE_CACHE) cs"

section \<open>Requests\<close>

record request =
  rq_get :: bool
  rq_same_origin :: bool
  rq_path :: string
  rq_url :: string
  rq_navigate :: bool
  rq_reauth :: bool

text \<open>A response that may be stored.\<close>

definition storable :: "response \<Rightarrow> bool" where
  "storable r \<longleftrightarrow> rs_ok r \<and> rs_type r = Basic \<and> \<not> rs_redirected r"

definition store_network :: "string \<Rightarrow> network \<Rightarrow> caches \<Rightarrow> caches" where
  "store_network u net cs =
     (case net of Some (_, Inr r) \<Rightarrow> if storable r then cache_put CACHE u r cs else cs | _ \<Rightarrow> cs)"

definition trace_line :: "string \<Rightarrow> string \<Rightarrow> nat \<Rightarrow> string \<Rightarrow> response option \<Rightarrow> bool \<Rightarrow> string option \<Rightarrow> trace_entry" where
  "trace_line p k ms how r rd why =
     \<lparr>te_t = 0, te_v = [], te_p = p, te_k = k, te_how = how, te_s = map_option rs_status r, te_ty = map_option rs_type r,
      te_rd = (if rd then map_option rs_redirected r else None), te_ms = ms, te_why = why\<rparr>"

text \<open>The re-authentication navigation: the network alone, without a timeout (None is no answer ever).\<close>

definition sw_reauth :: "nat \<Rightarrow> request \<Rightarrow> network \<Rightarrow> caches \<Rightarrow> caches \<times> (nat \<times> response) option" where
  "sw_reauth now q net cs =
     (case net of
        None \<Rightarrow> (cs, None)
      | Some (t, Inr r) \<Rightarrow> (trace (now + t) (trace_line (rq_path q) ''reauth'' t ''net'' (Some r) True None) cs, Some (t, r))
      | Some (t, Inl err) \<Rightarrow>
          (trace (now + t) (trace_line (rq_path q) ''reauth'' t ''error'' None False (Some err)) cs,
           Some (t, unreachablePage (now + t) ''sign-in navigation failed'')))"

text \<open>The answer when the first wait has failed with \<open>why\<close> and no cached page was found.\<close>

definition sw_late :: "nat \<Rightarrow> string \<Rightarrow> string \<Rightarrow> nat \<Rightarrow> string \<Rightarrow> network \<Rightarrow> caches \<Rightarrow> caches \<times> nat \<times> response" where
  "sw_late now p k start why net cs =
     (case withTimeout start 9500 net of
        (t, Inr r) \<Rightarrow>
          if isRedirect r then (trace (now + t) (trace_line p k t ''handoff'' (Some r) False (Some why)) cs, t, handoffPage (now + t))
          else (trace (now + t) (trace_line p k t ''late'' (Some r) True (Some why)) cs, t, r)
      | (t, Inl err) \<Rightarrow>
          (trace (now + t) (trace_line p k t ''error'' None False (Some (why @ '' / '' @ err))) cs, t,
           unreachablePage (now + t) (if why = ''timeout'' then ''the network did not answer'' else ''the network failed'')))"

text \<open>
  A page navigation: \<open>lookup\<close> is what the two lookups in the cache take. The response of the network
  goes into the cache whenever it arrives, also after the page was served.
\<close>

definition sw_page :: "nat \<Rightarrow> request \<Rightarrow> network \<Rightarrow> nat \<Rightarrow> caches \<Rightarrow> caches \<times> nat \<times> response" where
  "sw_page now q net lookup cs0 =
     (let p = rq_path q; cacheable = p \<in> set SHELL_PAGES; k = (if cacheable then ''shell'' else ''page'');
          cs = kv_set CACHE (cache_of CACHE cs0) cs0;
          stored = (\<lambda>cs. if cacheable then store_network (rq_url q) net cs else cs)
      in case withTimeout 0 2500 net of
           (t, Inr r) \<Rightarrow>
             if isRedirect r then (stored (trace (now + t) (trace_line p k t ''handoff'' (Some r) False None) cs), t, handoffPage (now + t))
             else (stored (trace (now + t) (trace_line p k t ''net'' (Some r) True None) cs), t, r)
         | (t, Inl why) \<Rightarrow>
             (case (if cacheable
                    then (case cache_match CACHE (rq_url q) cs of Some r \<Rightarrow> Some r | None \<Rightarrow> cache_match CACHE ''/'' cs)
                    else None) of
                Some hit \<Rightarrow>
                  (stored (trace (now + t + lookup) (trace_line p k (t + lookup) ''cache'' None False (Some why)) cs), t + lookup, hit)
              | None \<Rightarrow>
                  (case sw_late now p k (if cacheable then t + lookup else t) why net cs of (cs', a) \<Rightarrow> (stored cs', a))))"

text \<open>A static file: the cached copy, or the network; the cache is refreshed in any case.\<close>

definition sw_static :: "request \<Rightarrow> network \<Rightarrow> caches \<Rightarrow> caches \<times> response option" where
  "sw_static q net cs0 =
     (let cs = kv_set CACHE (cache_of CACHE cs0) cs0; cached = cache_match CACHE (rq_url q) cs
      in (store_network (rq_url q) net cs,
          (case cached of
             Some r \<Rightarrow> Some r
           | None \<Rightarrow> (case net of Some (_, Inr r) \<Rightarrow> Some r | _ \<Rightarrow> None))))"

datatype sw_answer = Untouched | Answered nat response | Static "response option" | Silent

definition sw_fetch :: "nat \<Rightarrow> request \<Rightarrow> network \<Rightarrow> nat \<Rightarrow> caches \<Rightarrow> caches \<times> sw_answer" where
  "sw_fetch now q net lookup cs =
     (if \<not> rq_get q then (cs, Untouched)
      else if \<not> rq_same_origin q then (cs, Untouched)
      else if bypass (rq_path q) then (cs, Untouched)
      else if rq_navigate q
      then if rq_reauth q
           then (case sw_reauth now q net cs of
                   (cs', None) \<Rightarrow> (cs', Silent)
                 | (cs', Some (t, r)) \<Rightarrow> (cs', Answered t r))
           else (case sw_page now q net lookup cs of (cs', t, r) \<Rightarrow> (cs', Answered t r))
      else (case sw_static q net cs of (cs', r) \<Rightarrow> (cs', Static r)))"

section \<open>The caches\<close>

lemma cache_names [simp]: "TRACE_CACHE \<noteq> CACHE" "CACHE \<noteq> TRACE_CACHE"
  by (simp_all add: TRACE_CACHE_def CACHE_def)

lemma cache_of_put [simp]:
  "cache_of n (cache_put m u r cs) = (if n = m then kv_set u r (cache_of m cs) else cache_of n cs)"
  by (simp add: cache_of_def cache_put_def kv_set_get)

lemma cache_of_open [simp]: "cache_of n (kv_set m (cache_of m cs) cs) = cache_of n cs"
  by (simp add: cache_of_def kv_set_get)

lemma trace_keeps_pages [simp]: "cache_of CACHE (trace now e cs) = cache_of CACHE cs"
  by (simp add: trace_def)

lemma kv_set_all: "list_all (\<lambda>e. P (snd e)) xs \<Longrightarrow> P v \<Longrightarrow> list_all (\<lambda>e. P (snd e)) (kv_set k v xs)"
  by (auto simp: kv_set_def list_all_iff)

text \<open>No stored page is a redirect.\<close>

definition clean_pages :: "caches \<Rightarrow> bool" where
  "clean_pages cs \<longleftrightarrow> list_all (\<lambda>e. \<not> isRedirect (snd e)) (cache_of CACHE cs)"

lemma storable_clean: "storable r \<Longrightarrow> \<not> isRedirect r"
  by (auto simp: storable_def rs_ok_def isRedirect_def)

lemma put_clean: "clean_pages cs \<Longrightarrow> \<not> isRedirect r \<Longrightarrow> clean_pages (cache_put n u r cs)"
  by (auto simp: clean_pages_def intro!: kv_set_all)

lemma trace_clean [simp]: "clean_pages (trace now e cs) = clean_pages cs"
  by (simp add: clean_pages_def)

lemma open_clean [simp]: "clean_pages (kv_set m (cache_of m cs) cs) = clean_pages cs"
  by (simp add: clean_pages_def)

lemma store_clean: "clean_pages cs \<Longrightarrow> clean_pages (store_network u net cs)"
  by (auto simp: store_network_def storable_clean intro!: put_clean split: option.split sum.split)

lemma match_clean: "clean_pages cs \<Longrightarrow> cache_match CACHE u cs = Some r \<Longrightarrow> \<not> isRedirect r"
  by (auto simp: clean_pages_def cache_match_def list_all_iff dest!: map_of_SomeD)

lemma own_pages_clean [simp]: "\<not> isRedirect (handoffPage now)" "\<not> isRedirect (unreachablePage now why)"
  by (simp_all add: handoffPage_def unreachablePage_def own_page_def isRedirect_def)

lemma withTimeout_bound: "fst (withTimeout start ms net) \<le> start + ms" "start \<le> fst (withTimeout start ms net)"
  by (auto simp: withTimeout_def split: option.split)

text \<open>Installing stores no redirect, where an opaque redirect has status 0 as the Fetch standard has it.\<close>

lemma precache_clean:
  assumes "clean_pages cs" "\<And>u t r. net u = Some (t, Inr r) \<Longrightarrow> rs_type r = OpaqueRedirect \<Longrightarrow> rs_status r = 0"
  shows "clean_pages (sw_precache net cs)"
proof -
  have "clean_pages (fold (\<lambda>u cs. case net u of
          Some (_, Inr r) \<Rightarrow> if rs_ok r \<and> \<not> rs_redirected r then cache_put CACHE u r cs else cs
        | _ \<Rightarrow> cs) us cs)" if "clean_pages cs" for us cs
    using that
  proof (induction us arbitrary: cs)
    case (Cons u us)
    have "\<not> isRedirect r" if "net u = Some (t, Inr r)" "rs_ok r" for t r
      using that assms(2) [of u t r] by (auto simp: isRedirect_def rs_ok_def)
    then show ?case using Cons by (auto intro!: Cons.IH put_clean split: option.split sum.split)
  qed simp
  then show ?thesis using assms(1) by (simp add: sw_precache_def)
qed

lemma install_ends: "sw_install_ends net \<le> 8000"
proof -
  have "fold (\<lambda>u m. max m (case net u of None \<Rightarrow> 8000 | Some (t, _) \<Rightarrow> min t 8000)) us m \<le> 8000" if "m \<le> 8000" for us and m :: nat
    using that by (induction us arbitrary: m) (auto split: option.split)
  then show ?thesis by (simp add: sw_install_ends_def)
qed

lemma activate_keeps:
  "map_of (sw_activate cs) n = (if n = CACHE \<or> n = TRACE_CACHE then map_of cs n else None)"
  by (induction cs) (auto simp: sw_activate_def)

interpretation ring: bounded_log ring_push TRACE_MAX
  by unfold_locales (auto simp: ring_push_def TRACE_MAX_def)

lemma trace_reads_back: "ring_of (trace now e cs) = ring_push (ring_of cs) (e\<lparr>te_t := now, te_v := VERSION\<rparr>)"
  by (simp add: trace_def ring_of_def cache_match_def kv_set_get own_page_def)

section \<open>Navigations\<close>

lemma late_bound:
  assumes "sw_late now p k start why net cs = (cs', t, r)"
  shows "t \<le> start + 9500 \<and> \<not> isRedirect r \<and> cache_of CACHE cs' = cache_of CACHE cs"
proof (cases "withTimeout start 9500 net")
  case (Pair u a)
  then have "u \<le> start + 9500" using withTimeout_bound(1) [of start 9500 net] by simp
  then show ?thesis using assms Pair by (cases a) (auto simp: sw_late_def split: if_splits)
qed

lemma page_answered:
  assumes "clean_pages cs"
  shows "case sw_page now q net lookup cs of
           (cs', t, r) \<Rightarrow> t \<le> 12000 + lookup \<and> \<not> isRedirect r \<and> clean_pages cs'"
proof -
  define cs1 where "cs1 = kv_set CACHE (cache_of CACHE cs) cs"
  have c1: "clean_pages cs1" using assms by (simp add: cs1_def)
  obtain t a where w: "withTimeout 0 2500 net = (t, a)" by fastforce
  then have t: "t \<le> 2500" using withTimeout_bound(1) [of 0 2500 net] by simp
  define look where "look = (if rq_path q \<in> set SHELL_PAGES
     then (case cache_match CACHE (rq_url q) cs1 of Some r \<Rightarrow> Some r | None \<Rightarrow> cache_match CACHE ''/'' cs1) else None)"
  have hit: "\<not> isRedirect r" if "look = Some r" for r
    using that c1 match_clean by (auto simp: look_def split: if_splits option.splits)
  show ?thesis
  proof (cases a)
    case (Inr r)
    then show ?thesis using w t c1
      by (auto simp: sw_page_def Let_def cs1_def [symmetric] store_clean)
  next
    case (Inl why)
    show ?thesis
    proof (cases look)
      case (Some r)
      then show ?thesis using w t c1 Inl hit
        by (auto simp: sw_page_def Let_def cs1_def [symmetric] look_def [symmetric] store_clean)
    next
      case None
      obtain cs' t' r' where l: "sw_late now (rq_path q) (if rq_path q \<in> set SHELL_PAGES then ''shell'' else ''page'')
          (if rq_path q \<in> set SHELL_PAGES then t + lookup else t) why net cs1 = (cs', t', r')"
        by (metis prod_cases3)
      have "clean_pages cs'" using late_bound [OF l] c1 by (simp add: clean_pages_def)
      then show ?thesis using w t Inl None l late_bound [OF l]
        by (auto simp: sw_page_def Let_def cs1_def [symmetric] look_def [symmetric] store_clean split: if_splits)
    qed
  qed
qed

text \<open>
  No response comes before \<open>ms\<close>. Where the answer to a page navigation comes from: the network, the cached copy of the page or of the
  shell, which only a listed page falls back to, or one of the worker's own two pages.
\<close>

definition silent_for :: "nat \<Rightarrow> network \<Rightarrow> bool" where
  "silent_for ms net \<longleftrightarrow> (\<forall>t r. net = Some (t, Inr r) \<longrightarrow> ms \<le> t)"

definition page_source :: "request \<Rightarrow> network \<Rightarrow> caches \<Rightarrow> response \<Rightarrow> bool" where
  "page_source q net cs r \<longleftrightarrow>
     (\<exists>t. net = Some (t, Inr r)) \<or>
     (rq_path q \<in> set SHELL_PAGES \<and> silent_for 2500 net \<and>
       (cache_match CACHE (rq_url q) cs = Some r \<or> cache_match CACHE ''/'' cs = Some r)) \<or>
     (\<exists>t res. net = Some (t, Inr res) \<and> isRedirect res \<and> (\<exists>now. r = handoffPage now)) \<or>
     (silent_for 12000 net \<and> (\<exists>now why. r = unreachablePage now why))"

lemma withTimeout_source:
  "withTimeout start ms net = (t, Inr r) \<Longrightarrow> \<exists>u. net = Some (u, Inr r)"
  "withTimeout start ms net = (t, Inl e) \<Longrightarrow> silent_for (start + ms) net"
  by (auto simp: withTimeout_def silent_for_def split: option.splits if_splits)

lemma late_source:
  assumes l: "sw_late now p k start why net cs = (cs', t, r)" and s: "2500 \<le> start"
  shows "page_source q net cs0 r"
proof (cases "withTimeout start 9500 net")
  case (Pair u a)
  show ?thesis
  proof (cases a)
    case (Inl err)
    then have "silent_for 12000 net" using withTimeout_source(2) [of start 9500 net u err] Pair s by (auto simp: silent_for_def)
    then show ?thesis using l Pair Inl by (auto simp: sw_late_def page_source_def)
  next
    case (Inr res)
    then have "\<exists>v. net = Some (v, Inr res)" using withTimeout_source(1) Pair by simp
    then show ?thesis using l Pair Inr by (auto simp: sw_late_def page_source_def split: if_splits)
  qed
qed

text \<open>A network that failed before the first wait ended fails the second wait too.\<close>

lemma late_after_error:
  assumes "withTimeout 0 2500 net = (t, Inl err)" "t < 2500" "sw_late now p k start why net cs = (cs', u, r)" "t \<le> start"
  shows "page_source q net cs0 r"
proof -
  have "net = Some (t, Inl err)" using assms(1,2) by (auto simp: withTimeout_def split: option.splits if_splits)
  then have "silent_for 12000 net" "withTimeout start 9500 net = (start, Inl err)"
    using assms(4) by (auto simp: silent_for_def withTimeout_def)
  then show ?thesis using assms(3) by (auto simp: sw_late_def page_source_def)
qed

lemma page_from_somewhere: "page_source q net cs (snd (snd (sw_page now q net lookup cs)))"
proof -
  obtain t a where w: "withTimeout 0 2500 net = (t, a)" by fastforce
  show ?thesis
  proof (cases a)
    case (Inr res)
    then have "\<exists>v. net = Some (v, Inr res)" using withTimeout_source(1) w by simp
    then show ?thesis using w Inr by (auto simp: sw_page_def Let_def page_source_def)
  next
    case (Inl why)
    have quiet: "silent_for 2500 net" using withTimeout_source(2) [of 0 2500 net t why] w Inl by simp
    let ?late = "sw_late now (rq_path q) (if rq_path q \<in> set SHELL_PAGES then ''shell'' else ''page'')
        (if rq_path q \<in> set SHELL_PAGES then t + lookup else t) why net (kv_set CACHE (cache_of CACHE cs) cs)"
    obtain cs' u r where l: "?late = (cs', u, r)" by (metis prod_cases3)
    have late: "page_source q net cs (snd (snd ?late))"
    proof (cases "t < 2500")
      case True
      then show ?thesis using late_after_error [OF _ True l] w Inl l by simp
    next
      case False
      then show ?thesis using late_source [OF l] l by simp
    qed
    have m: "cache_match CACHE u (kv_set CACHE (cache_of CACHE cs) cs) = cache_match CACHE u cs" for u
      by (simp add: cache_match_def)
    show ?thesis
    proof (cases "rq_path q \<in> set SHELL_PAGES \<and> (cache_match CACHE (rq_url q) cs \<noteq> None \<or> cache_match CACHE ''/'' cs \<noteq> None)")
      case True
      then show ?thesis using w Inl quiet by (auto simp: sw_page_def Let_def m page_source_def split: option.split)
    next
      case False
      then have "snd (sw_page now q net lookup cs) = snd ?late"
        using w Inl by (auto simp: sw_page_def Let_def m split: prod.split option.split)
      then show ?thesis using late by simp
    qed
  qed
qed

lemma reauth_clean: "clean_pages (fst (sw_reauth now q net cs)) = clean_pages cs"
  by (auto simp: sw_reauth_def split: option.split sum.split)

lemma static_clean: "clean_pages cs \<Longrightarrow> clean_pages (fst (sw_static q net cs))"
  by (auto simp: sw_static_def Let_def intro!: store_clean)

text \<open>C38. What the worker does with any request. A page navigation it handles that is no re-authentication is
  answered within twelve seconds and the time of the cache lookups, whatever the network does, and never
  with a redirect (which left an installed app on a white page): the answer is the network's response, the
  cached copy of the page or of the shell (for the listed shell pages only, and only if no response came
  within 2.5 seconds), the hand-off page (only when the network answered with a redirect), or the
  unreachable page (only if no response came within twelve seconds). A re-authentication navigation gets just what the network
  answers and when it does, a redirect included, the unreachable page if the network fails, and no answer while it is
  silent. Requests that are no GET, go to another origin or have a path that is always live are left alone.
  No request puts a redirect into the cache of pages.\<close>

theorem navigation_answered:
  assumes "clean_pages cs"
  shows "case sw_fetch now q net lookup cs of
     (cs', a) \<Rightarrow> clean_pages cs' \<and>
       (if \<not> rq_get q \<or> \<not> rq_same_origin q \<or> bypass (rq_path q) then a = Untouched \<and> cs' = cs
        else if rq_navigate q \<and> rq_reauth q
        then a = (case net of None \<Rightarrow> Silent
                  | Some (t, Inr r) \<Rightarrow> Answered t r
                  | Some (t, Inl err) \<Rightarrow> Answered t (unreachablePage (now + t) ''sign-in navigation failed''))
        else rq_navigate q \<longrightarrow>
          (\<exists>t r. a = Answered t r \<and> t \<le> 12000 + lookup \<and> \<not> isRedirect r \<and> page_source q net cs r))"
proof -
  have p: "case sw_page now q net lookup cs of (cs', t, r) \<Rightarrow>
      t \<le> 12000 + lookup \<and> \<not> isRedirect r \<and> clean_pages cs' \<and> page_source q net cs r"
    using page_answered [OF assms, where now = now and q = q and net = net and lookup = lookup] page_from_somewhere [where q = q and net = net and cs = cs and now = now and lookup = lookup]
    by (auto split: prod.splits)
  have r: "clean_pages (fst (sw_reauth now q net cs))" using assms by (simp add: reauth_clean)
  show ?thesis
    using p r assms static_clean [OF assms, where q = q and net = net]
    by (auto simp: sw_fetch_def sw_reauth_def split: prod.splits option.splits sum.splits)
qed

definition slow_shell :: request where
  "slow_shell = \<lparr>rq_get = True, rq_same_origin = True, rq_path = ''/'', rq_url = ''/'', rq_navigate = True, rq_reauth = False\<rparr>"

text \<open>A silent network, and nothing stored: the unreachable page.\<close>

theorem navigation_answered_witness:
  "\<exists>t r. snd (sw_fetch 0 slow_shell None 30 []) = Answered t r \<and> t \<le> 12030 \<and> \<not> isRedirect r \<and> page_source slow_shell None [] r"
  using navigation_answered [where cs = "[]" and now = 0 and q = slow_shell and net = None and lookup = 30]
  by (auto simp: clean_pages_def cache_of_def slow_shell_def bypass_def starts_with_def split: prod.splits)

text \<open>What a page outside the list of shell pages gets: the network, with one wait of twelve seconds.\<close>

definition network_page :: "nat \<Rightarrow> network \<Rightarrow> nat \<times> response" where
  "network_page now net =
     (case withTimeout 0 12000 net of
        (t, Inr r) \<Rightarrow> (t, if isRedirect r then handoffPage (now + t) else r)
      | (t, Inl err) \<Rightarrow>
          (t, unreachablePage (now + t)
                (if t < 2500 \<and> err \<noteq> ''timeout'' then ''the network failed'' else ''the network did not answer'')))"

text \<open>A page that is not one of the listed shell pages is never stored and never answered from the cache:
  it gets what the network answers within twelve seconds (a redirect as a hand-off page), and
  otherwise, on an error or without an answer, the page that says which of the two it was.\<close>

lemma unlisted_page_from_network:
  assumes "rq_path q \<notin> set SHELL_PAGES"
  shows "snd (sw_page now q net lookup cs) = network_page now net \<and>
         cache_of CACHE (fst (sw_page now q net lookup cs)) = cache_of CACHE cs"
proof -
  have "snd (sw_page now q net lookup cs) = network_page now net"
    using assms
    by (auto simp: sw_page_def sw_late_def network_page_def withTimeout_def Let_def split: option.split sum.split)
  moreover have "cache_of CACHE (fst (sw_page now q net lookup cs)) = cache_of CACHE cs"
    using assms by (auto simp: sw_page_def sw_late_def Let_def split: prod.split sum.split)
  ultimately show ?thesis ..
qed

definition dead_update :: request where
  "dead_update = \<lparr>rq_get = True, rq_same_origin = True, rq_path = ''/update.html'', rq_url = ''/update.html'',
     rq_navigate = True, rq_reauth = False\<rparr>"

theorem unlisted_page_from_network_witness:
  "snd (sw_page 5 dead_update None 0 []) = (12000, unreachablePage 12005 ''the network did not answer'')"
  using unlisted_page_from_network [where q = dead_update and now = 5 and net = None and lookup = 0 and cs = "[]"]
  by (simp add: dead_update_def SHELL_PAGES_def PRECACHE_def ends_with_def network_page_def withTimeout_def)

text \<open>The office editor is not covered by this: its path starts with \<open>/office\<close>, which the worker leaves alone.\<close>

lemma office_editor_untouched:
  "rq_path q = ''/office-editor.html'' \<Longrightarrow> sw_fetch now q net lookup cs = (cs, Untouched)"
  by (simp add: sw_fetch_def bypass_def starts_with_def)

end
