(* ===== verification/TermReader.thy ===== *)
theory TermReader
  imports VtPrelude
begin

text \<open>
  \<^verbatim>\<open>terminal/terminal-kbd.js\<close>, the part that runs on every device: the reading position of a
  terminal that is scrolled back, the following of the latest line, and the claim of the shared size.
  The terminal (xterm) is an argument: every event comes with what the terminal shows then, and gives
  back where its viewport was moved. The scroll event that xterm reports for a move is an event of its
  own. The diagnostic traces are left out.
\<close>

section \<open>The terminal and the state\<close>

text \<open>
  The active buffer: \<open>tm_lines\<close> are its lines without trailing blanks, \<open>tm_shown\<close> says that the
  element has a width and \<open>tm_hidden\<close> that the document is hidden.
\<close>

record terminal =
  tm_alternate :: bool
  tm_base :: int
  tm_viewport :: int
  tm_cursor :: int
  tm_rows :: nat
  tm_cols :: nat
  tm_lines :: "string list"
  tm_mouse :: bool
  tm_shown :: bool
  tm_hidden :: bool

definition getLine :: "terminal \<Rightarrow> int \<Rightarrow> string option" where
  "getLine t i = (if 0 \<le> i \<and> i < int (length (tm_lines t)) then Some (tm_lines t ! nat i) else None)"

record anchor =
  an_distance :: int
  an_columns :: nat
  an_samples :: "(nat \<times> string) list"

text \<open>
  \<open>rd_marker\<close> is the line of the marker, None where there is none or it is disposed. A snapshot is
  named by the epoch in which it was taken. Timers and queued frames are flags, \<open>rd_resumes\<close> holds
  the snapshot and epoch of each queued uncovering.
\<close>

record reading =
  rd_reader :: "anchor option"
  rd_marker :: "int option"
  rd_queued :: bool
  rd_navigating :: bool
  rd_navigation_timer :: bool
  rd_dragging :: bool
  rd_snapshot :: "nat option"
  rd_snapshot_timer :: bool
  rd_image :: bool
  rd_epoch :: nat
  rd_fallback :: bool
  rd_resumes :: "(nat \<times> nat) list"
  rd_follow :: bool
  rd_until :: nat
  rd_timer :: bool
  rd_highest :: nat
  rd_cancelled :: nat

definition reading_start :: reading where
  "reading_start = \<lparr>rd_reader = None, rd_marker = None, rd_queued = False, rd_navigating = False,
     rd_navigation_timer = False, rd_dragging = False, rd_snapshot = None, rd_snapshot_timer = False,
     rd_image = False, rd_epoch = 0, rd_fallback = False, rd_resumes = [], rd_follow = True, rd_until = 0,
     rd_timer = False, rd_highest = 0, rd_cancelled = 0\<rparr>"

definition atLatest :: "terminal \<Rightarrow> bool" where
  "atLatest t \<longleftrightarrow> tm_base t - tm_viewport t \<le> 1"

text \<open>\<open>scrollToLine\<close> and \<open>scrollToBottom\<close> stay inside the scrollback.\<close>

definition scrollToLine :: "int \<Rightarrow> terminal \<Rightarrow> terminal" where
  "scrollToLine row t = t\<lparr>tm_viewport := max 0 (min (tm_base t) row)\<rparr>"

definition revealLatest :: "terminal \<Rightarrow> terminal" where
  "revealLatest t = t\<lparr>tm_viewport := tm_base t\<rparr>"

section \<open>Capturing and clearing the position\<close>

definition releaseReaderSnapshot :: "reading \<Rightarrow> reading" where
  "releaseReaderSnapshot s = s\<lparr>rd_snapshot_timer := False, rd_snapshot := None\<rparr>"

definition clearReader :: "reading \<Rightarrow> reading" where
  "clearReader s = (releaseReaderSnapshot s)\<lparr>rd_image := False, rd_fallback := False, rd_marker := None, rd_reader := None\<rparr>"

text \<open>The marker is registered relative to the cursor's line.\<close>

definition markReader :: "terminal \<Rightarrow> int \<Rightarrow> reading \<Rightarrow> reading" where
  "markReader t row s = s\<lparr>rd_marker := Some (tm_base t + tm_cursor t + (row - tm_base t - tm_cursor t))\<rparr>"

text \<open>The first twelve lines with text among the first 32 of the view.\<close>

definition reader_samples :: "terminal \<Rightarrow> (nat \<times> string) list" where
  "reader_samples t =
     take 12 (List.map_filter (\<lambda>i. case getLine t (tm_viewport t + int i) of
                                     None \<Rightarrow> None
                                   | Some text \<Rightarrow> if text = [] then None else Some (i, text)) [0..<min 32 (tm_rows t)])"

definition captureReader :: "terminal \<Rightarrow> reading \<Rightarrow> reading" where
  "captureReader t s =
     (if tm_alternate t \<or> atLatest t then clearReader s
      else markReader t (tm_viewport t)
             (s\<lparr>rd_image := False,
                rd_reader := Some \<lparr>an_distance = tm_base t - tm_viewport t, an_columns = tm_cols t, an_samples = reader_samples t\<rparr>\<rparr>))"

definition readerNavigation :: "reading \<Rightarrow> reading" where
  "readerNavigation s =
     (releaseReaderSnapshot s)\<lparr>rd_fallback := False, rd_navigating := True, rd_navigation_timer := True\<rparr>"

text \<open>Its timer, after the terminal's own handlers.\<close>

definition navigation_done :: "terminal \<Rightarrow> reading \<Rightarrow> reading" where
  "navigation_done t s =
     captureReader t (s\<lparr>rd_navigation_timer := False, rd_navigating := False, rd_follow := atLatest t\<rparr>)"

section \<open>Restoring the position\<close>

definition passage_at :: "terminal \<Rightarrow> anchor \<Rightarrow> int \<Rightarrow> bool" where
  "passage_at t r row \<longleftrightarrow>
     an_samples r \<noteq> [] \<and> list_all (\<lambda>(offset, text). getLine t (row + int offset) = Some text) (an_samples r)"

text \<open>The first of the matching rows nearest to the expected one.\<close>

fun nearest :: "(int \<Rightarrow> bool) \<Rightarrow> int \<Rightarrow> int option \<Rightarrow> int list \<Rightarrow> int option" where
  "nearest matches expected best [] = best"
| "nearest matches expected best (i # is') =
     nearest matches expected
       (if matches i \<and> (case best of None \<Rightarrow> True | Some b \<Rightarrow> \<bar>i - expected\<bar> < \<bar>b - expected\<bar>) then Some i else best) is'"

definition search_passage :: "terminal \<Rightarrow> anchor \<Rightarrow> int option" where
  "search_passage t r = nearest (passage_at t r) (max 0 (tm_base t - an_distance r)) None [0..tm_base t]"

text \<open>The row of the passage, where the marker is dropped when its row shows another text.\<close>

definition reader_row :: "terminal \<Rightarrow> anchor \<Rightarrow> int option \<Rightarrow> int option \<times> int option" where
  "reader_row t r marker =
     (let marker1 = (case marker of
                       None \<Rightarrow> None
                     | Some row \<Rightarrow> if an_samples r \<noteq> [] \<and> \<not> passage_at t r row then None else Some row)
      in (marker1, if marker1 = None \<and> an_samples r \<noteq> [] then search_passage t r else marker1))"

text \<open>After the move: the snapshot is uncovered two frames later, or its timer stopped.\<close>

definition reader_settled :: "reading \<Rightarrow> reading" where
  "reader_settled s0 =
     (let s = s0\<lparr>rd_fallback := False\<rparr>
      in case rd_snapshot s of
           Some snapshot \<Rightarrow> s\<lparr>rd_resumes := rd_resumes s @ [(snapshot, rd_epoch s)]\<rparr>
         | None \<Rightarrow> s\<lparr>rd_snapshot_timer := False\<rparr>)"

text \<open>The move itself; a passage that is \<open>lost\<close> is replaced by what is shown at its distance.\<close>

definition restore_to :: "bool \<Rightarrow> anchor \<Rightarrow> int \<Rightarrow> terminal \<Rightarrow> reading \<Rightarrow> reading \<times> terminal" where
  "restore_to lost r row t s =
     (let t1 = (if tm_viewport t \<noteq> row then scrollToLine row t else t);
          s1 = (if rd_marker s = None then markReader t1 row s else s);
          s2 = s1\<lparr>rd_reader := Some (r\<lparr>an_distance := tm_base t1 - row\<rparr>)\<rparr>;
          s3 = captureReader t1 s2;
          s4 = (if lost then (if rd_reader s3 = None then s3\<lparr>rd_follow := True\<rparr> else s3) else s2)
      in (reader_settled s4, t1))"

definition restoreReader :: "bool \<Rightarrow> terminal \<Rightarrow> reading \<Rightarrow> reading \<times> terminal \<times> bool" where
  "restoreReader fallback t s =
     (case rd_reader s of
        None \<Rightarrow> (s, t, False)
      | Some r \<Rightarrow>
          if tm_alternate t \<or> tm_hidden t \<or> \<not> tm_shown t then (s, t, False)
          else case reader_row t r (rd_marker s) of
            (marker, Some row) \<Rightarrow>
              (case restore_to False r row t (s\<lparr>rd_marker := marker\<rparr>) of (s', t') \<Rightarrow> (s', t', True))
          | (marker, None) \<Rightarrow>
              if fallback
              then (case restore_to True r (max 0 (tm_base t - an_distance r)) t (s\<lparr>rd_marker := marker\<rparr>) of (s', t') \<Rightarrow> (s', t', True))
              else (s\<lparr>rd_marker := marker\<rparr>, t, False))"

definition reader_resume :: "reading \<Rightarrow> reading" where
  "reader_resume s =
     (case rd_resumes s of
        [] \<Rightarrow> s
      | (snapshot, epoch) # rest \<Rightarrow>
          (let s1 = s\<lparr>rd_resumes := rest\<rparr>
           in if rd_snapshot s = Some snapshot \<and> rd_epoch s = epoch then releaseReaderSnapshot s1 else s1))"

definition restoreReaderSoon :: "reading \<Rightarrow> reading" where
  "restoreReaderSoon s =
     (if rd_queued s \<or> rd_navigating s \<or> rd_dragging s then s else s\<lparr>rd_queued := True\<rparr>)"

text \<open>The queued frame looks again at what the user does.\<close>

definition restore_frame :: "terminal \<Rightarrow> reading \<Rightarrow> reading \<times> terminal" where
  "restore_frame t s0 =
     (let s = s0\<lparr>rd_queued := False\<rparr>
      in if rd_navigating s \<or> rd_dragging s then (s, t)
         else if rd_reader s \<noteq> None then (case restoreReader (rd_fallback s) t s of (s', t', _) \<Rightarrow> (s', t'))
         else if rd_follow s \<and> \<not> tm_hidden t \<and> \<not> atLatest t then (s, revealLatest t)
         else (s, t))"

text \<open>
  An erase of the scrollback: the screen is covered with a copy (\<open>copied\<close>: one could be taken now)
  and a timer waits for the redraw.
\<close>

definition holdReaderSnapshot :: "bool \<Rightarrow> terminal \<Rightarrow> reading \<Rightarrow> reading" where
  "holdReaderSnapshot copied t s =
     (if rd_reader s = None then s
      else let s1 = s\<lparr>rd_epoch := rd_epoch s + 1, rd_snapshot_timer := True\<rparr>
           in if rd_snapshot s1 \<noteq> None \<or> tm_hidden t \<or> \<not> (rd_image s1 \<or> copied) then s1
              else s1\<lparr>rd_snapshot := Some (rd_epoch s1), rd_image := False\<rparr>)"

definition snapshot_timeout :: "terminal \<Rightarrow> reading \<Rightarrow> reading \<times> terminal" where
  "snapshot_timeout t s =
     (case restoreReader True t (s\<lparr>rd_snapshot_timer := False, rd_fallback := True\<rparr>) of
        (s', t', ok) \<Rightarrow> (if ok then s' else releaseReaderSnapshot s', t'))"

text \<open>A rendered screen that shows the passage is copied for later.\<close>

definition reader_render :: "bool \<Rightarrow> terminal \<Rightarrow> reading \<Rightarrow> reading" where
  "reader_render copied t s =
     (case rd_reader s of
        None \<Rightarrow> s
      | Some r \<Rightarrow>
          if rd_snapshot s \<noteq> None \<or> tm_hidden t \<or> rd_navigating s \<or> rd_dragging s then s
          else if tm_alternate t \<or> rd_marker s \<noteq> Some (tm_viewport t) then s
          else if list_all (\<lambda>(offset, text). getLine t (tm_viewport t + int offset) = Some text) (an_samples r)
          then s\<lparr>rd_image := copied\<rparr> else s)"

section \<open>Following the latest line\<close>

definition cancelLatest :: "reading \<Rightarrow> reading" where
  "cancelLatest s =
     (readerNavigation (s\<lparr>rd_follow := False\<rparr>))\<lparr>rd_until := 0, rd_cancelled := max (rd_cancelled s) (rd_highest s), rd_timer := False\<rparr>"

definition armLatest :: "nat \<Rightarrow> nat option \<Rightarrow> terminal \<Rightarrow> reading \<Rightarrow> reading \<times> terminal" where
  "armLatest now request t s =
     (if rd_reader s \<noteq> None \<and> request = None then (s, t)
      else if (case request of None \<Rightarrow> False | Some i \<Rightarrow> i \<le> rd_cancelled s) then (s, t)
      else let s1 = (case request of None \<Rightarrow> s | Some i \<Rightarrow> s\<lparr>rd_highest := max (rd_highest s) i\<rparr>)
           in ((clearReader s1)\<lparr>rd_follow := True, rd_until := now + 10000, rd_timer := True\<rparr>, revealLatest t))"

definition follow_tick :: "nat \<Rightarrow> terminal \<Rightarrow> reading \<Rightarrow> reading \<times> terminal" where
  "follow_tick now t s = (if now \<ge> rd_until s then (s\<lparr>rd_timer := False\<rparr>, t) else (s, revealLatest t))"

definition returnToTypingLine :: "nat \<Rightarrow> terminal \<Rightarrow> reading \<Rightarrow> reading \<times> terminal" where
  "returnToTypingLine now t s =
     (if \<not> tm_hidden t \<and> (rd_reader s \<noteq> None \<or> \<not> rd_follow s \<or> \<not> atLatest t)
      then armLatest now None t (clearReader (s\<lparr>rd_navigation_timer := False, rd_navigating := False, rd_dragging := False\<rparr>))
      else (s, t))"

section \<open>Events\<close>

record key =
  ky_key :: string
  ky_composing :: bool
  ky_ctrl :: bool
  ky_meta :: bool
  ky_alt :: bool
  ky_shift :: bool

definition typing_key :: "key \<Rightarrow> bool" where
  "typing_key k \<longleftrightarrow>
     \<not> (ky_composing k \<or> ky_ctrl k \<or> ky_meta k \<or> ky_alt k) \<and>
     (length (ky_key k) = 1 \<or>
      ky_key k \<in> {''Enter'', ''Backspace'', ''Delete'', ''Tab'', ''Escape'', ''ArrowUp'', ''ArrowDown'', ''ArrowLeft'', ''ArrowRight''})"

definition navigation_key :: "key \<Rightarrow> bool" where
  "navigation_key k \<longleftrightarrow> ky_key k \<in> {''PageUp'', ''PageDown'', ''Home'', ''End''}"

text \<open>Page keys in an application's screen go to the application: the sequence that is sent.\<close>

definition page_key :: "terminal \<Rightarrow> key \<Rightarrow> string option" where
  "page_key t k =
     (if ky_alt k \<or> ky_ctrl k \<or> ky_meta k \<or> ky_shift k \<or> ky_key k \<notin> {''PageUp'', ''PageDown''} then None
      else if tm_alternate t \<or> tm_mouse t
      then Some (CHR 0x1B # (if ky_key k = ''PageUp'' then ''[5~'' else ''[6~''))
      else None)"

datatype event =
    Key key | Typed bool | Wheel | PointerDown bool | PointerMove | PointerUp
  | Navigated | Scrolled | Rendered bool | ScrollbackErased bool | SnapshotTimeout | Uncover
  | WriteParsed | Resized | Frame | Visible | ShowLatest "nat option" | WindowResize bool
  | FollowTick | SocketOpen

definition keydown_event :: "nat \<Rightarrow> key \<Rightarrow> terminal \<Rightarrow> reading \<Rightarrow> reading \<times> terminal" where
  "keydown_event now k t s =
     (let (s1, t1) = (if typing_key k then returnToTypingLine now t s else (s, t));
          s2 = (if navigation_key k then cancelLatest s1 else s1);
          s3 = (if page_key t1 k \<noteq> None then cancelLatest s2 else s2)
      in (s3, t1))"

text \<open>\<open>resumeReader\<close>: the document is shown again or gets the focus.\<close>

definition resumeReader :: "terminal \<Rightarrow> reading \<Rightarrow> reading \<times> terminal" where
  "resumeReader t s =
     (if tm_hidden t then (s, t)
      else case restoreReader (rd_fallback s) t s of (s', t', _) \<Rightarrow> (restoreReaderSoon s', t'))"

definition scrolled_event :: "terminal \<Rightarrow> reading \<Rightarrow> reading" where
  "scrolled_event t s =
     (if rd_navigating s \<or> rd_dragging s then captureReader t (s\<lparr>rd_follow := atLatest t\<rparr>) else restoreReaderSoon s)"

definition reader_step :: "nat \<Rightarrow> event \<Rightarrow> terminal \<Rightarrow> reading \<Rightarrow> reading \<times> terminal" where
  "reader_step now e t s =
     (case e of
        Key k \<Rightarrow> keydown_event now k t s
      | Typed composing \<Rightarrow> if composing then (s, t) else returnToTypingLine now t s
      | Wheel \<Rightarrow> (cancelLatest s, t)
      | PointerDown scrollbar \<Rightarrow> (if scrollbar then cancelLatest (s\<lparr>rd_dragging := True\<rparr>) else s, t)
      | PointerMove \<Rightarrow> (if rd_dragging s then readerNavigation s else s, t)
      | PointerUp \<Rightarrow> (if rd_dragging s then readerNavigation (s\<lparr>rd_dragging := False\<rparr>) else s, t)
      | Navigated \<Rightarrow> (if rd_navigation_timer s then navigation_done t s else s, t)
      | Scrolled \<Rightarrow> (scrolled_event t s, t)
      | Rendered copied \<Rightarrow> (reader_render copied t s, t)
      | ScrollbackErased copied \<Rightarrow> (if tm_alternate t then s else holdReaderSnapshot copied t s, t)
      | SnapshotTimeout \<Rightarrow> if rd_snapshot_timer s then snapshot_timeout t s else (s, t)
      | Uncover \<Rightarrow> (reader_resume s, t)
      | WriteParsed \<Rightarrow> (restoreReaderSoon s, t)
      | Resized \<Rightarrow> (restoreReaderSoon s, t)
      | Frame \<Rightarrow> if rd_queued s then restore_frame t s else (s, t)
      | Visible \<Rightarrow> resumeReader t s
      | ShowLatest i \<Rightarrow> armLatest now i t s
      | WindowResize trusted \<Rightarrow> if trusted \<and> atLatest t then armLatest now None t s else (s, t)
      | FollowTick \<Rightarrow> if rd_timer s then follow_tick now t s else (s, t)
      | SocketOpen \<Rightarrow> armLatest now None t ((clearReader s)\<lparr>rd_follow := True\<rparr>))"

text \<open>A run over events with their times and terminals: the state after it, and where each event moved the viewport.\<close>

type_synonym happening = "nat \<times> event \<times> terminal"

definition reader_run :: "happening list \<Rightarrow> reading \<Rightarrow> reading" where
  "reader_run hs s = foldl (\<lambda>s (now, e, t). fst (reader_step now e t s)) s hs"

fun reader_moves :: "happening list \<Rightarrow> reading \<Rightarrow> (terminal \<times> terminal) list" where
  "reader_moves [] s = []"
| "reader_moves ((now, e, t) # hs) s =
     (case reader_step now e t s of (s', t') \<Rightarrow> (t, t') # reader_moves hs s')"

section \<open>The search\<close>

lemma nearest_spec:
  "nearest P x best is' = Some row \<Longrightarrow>
     (best = Some row \<or> row \<in> set is' \<and> P row) \<and>
     (\<forall>i \<in> set is'. P i \<longrightarrow> \<bar>row - x\<bar> \<le> \<bar>i - x\<bar>) \<and> (\<forall>b. best = Some b \<longrightarrow> \<bar>row - x\<bar> \<le> \<bar>b - x\<bar>)"
proof (induction P x best is' rule: nearest.induct)
  case (2 P x best i is')
  define best' where "best' = (if P i \<and> (case best of None \<Rightarrow> True | Some b \<Rightarrow> \<bar>i - x\<bar> < \<bar>b - x\<bar>) then Some i else best)"
  have "nearest P x best' is' = Some row" using 2(2) by (simp add: best'_def)
  note IH = 2(1) [folded best'_def, OF this]
  show ?case
  proof (cases "P i \<and> (case best of None \<Rightarrow> True | Some b \<Rightarrow> \<bar>i - x\<bar> < \<bar>b - x\<bar>)")
    case True
    then have "best' = Some i" by (simp add: best'_def)
    then show ?thesis using IH True by (auto split: option.splits)
  next
    case False
    then have "best' = best" by (auto simp: best'_def)
    then show ?thesis using IH False by (auto split: option.splits)
  qed
qed simp

lemma nearest_None: "nearest P x best is' = None \<longleftrightarrow> best = None \<and> (\<forall>i \<in> set is'. \<not> P i)"
  by (induction P x best is' rule: nearest.induct) auto

lemma search_passage_spec:
  "search_passage t r = Some row \<Longrightarrow>
     passage_at t r row \<and> 0 \<le> row \<and> row \<le> tm_base t \<and>
     (\<forall>i. 0 \<le> i \<longrightarrow> i \<le> tm_base t \<longrightarrow> passage_at t r i \<longrightarrow>
        \<bar>row - max 0 (tm_base t - an_distance r)\<bar> \<le> \<bar>i - max 0 (tm_base t - an_distance r)\<bar>)"
  unfolding search_passage_def by (drule nearest_spec) auto

lemma search_passage_None:
  "search_passage t r = None \<longleftrightarrow> (\<forall>i. 0 \<le> i \<longrightarrow> i \<le> tm_base t \<longrightarrow> \<not> passage_at t r i)"
  unfolding search_passage_def nearest_None by auto

section \<open>Fields each operation leaves alone\<close>

lemmas reader_ops = releaseReaderSnapshot_def clearReader_def markReader_def readerNavigation_def
  reader_settled_def reader_resume_def restoreReaderSoon_def holdReaderSnapshot_def reader_render_def cancelLatest_def

definition reading_inv :: "reading \<Rightarrow> bool" where
  "reading_inv s \<longleftrightarrow>
     (rd_reader s = None \<longrightarrow> rd_marker s = None \<and> rd_snapshot s = None \<and> \<not> rd_snapshot_timer s \<and> \<not> rd_image s \<and> \<not> rd_fallback s) \<and>
     (rd_reader s \<noteq> None \<longrightarrow> \<not> rd_follow s) \<and>
     rd_navigation_timer s = rd_navigating s"

lemma reading_inv_parts:
  "reading_inv s \<Longrightarrow> rd_navigation_timer s = rd_navigating s"
  "reading_inv s \<Longrightarrow> rd_reader s \<noteq> None \<Longrightarrow> \<not> rd_follow s"
  by (auto simp: reading_inv_def)

lemma captureReader_inv:
  "rd_navigation_timer s = rd_navigating s \<Longrightarrow> (\<not> tm_alternate t \<Longrightarrow> \<not> atLatest t \<Longrightarrow> \<not> rd_follow s) \<Longrightarrow>
   reading_inv (captureReader t s)"
  by (auto simp: captureReader_def reading_inv_def reader_ops)

lemma clearReader_inv: "rd_navigation_timer s = rd_navigating s \<Longrightarrow> reading_inv (clearReader s)"
  by (simp add: reading_inv_def reader_ops)

lemma settled_inv: "reading_inv s \<Longrightarrow> reading_inv (reader_settled s)"
  by (auto simp: reading_inv_def reader_settled_def Let_def split: option.splits)

lemma restore_to_inv:
  assumes "\<not> rd_follow s" "rd_navigation_timer s = rd_navigating s"
  shows "reading_inv (fst (restore_to lost r row t s))"
proof -
  define t1 where "t1 = (if tm_viewport t \<noteq> row then scrollToLine row t else t)"
  define s2 where "s2 = (if rd_marker s = None then markReader t1 row s else s)\<lparr>rd_reader := Some (r\<lparr>an_distance := tm_base t1 - row\<rparr>)\<rparr>"
  have s2: "\<not> rd_follow s2" "rd_navigation_timer s2 = rd_navigating s2" "rd_reader s2 \<noteq> None"
    using assms by (auto simp: s2_def markReader_def)
  have c: "reading_inv (captureReader t1 s2)" by (rule captureReader_inv) (use s2 in auto)
  have "reading_inv s2" using s2 by (auto simp: reading_inv_def)
  moreover have "reading_inv (captureReader t1 s2\<lparr>rd_follow := True\<rparr>)" if "rd_reader (captureReader t1 s2) = None"
    using c that by (simp add: reading_inv_def)
  ultimately show ?thesis using c
    by (simp add: restore_to_def Let_def t1_def [symmetric] s2_def [symmetric] settled_inv)
qed

lemma restoreReader_cases:
  assumes "restoreReader fb t s = (s', t', ok)"
  obtains (skip) "s' = s" "t' = t" "\<not> ok" "rd_reader s = None \<or> tm_alternate t \<or> tm_hidden t \<or> \<not> tm_shown t"
  | (missing) r m where "rd_reader s = Some r" "reader_row t r (rd_marker s) = (m, None)" "\<not> fb"
      "s' = s\<lparr>rd_marker := m\<rparr>" "t' = t" "\<not> ok"
  | (found) r m row where "rd_reader s = Some r" "reader_row t r (rd_marker s) = (m, Some row)"
      "restore_to False r row t (s\<lparr>rd_marker := m\<rparr>) = (s', t')" "ok"
  | (lost) r m where "rd_reader s = Some r" "reader_row t r (rd_marker s) = (m, None)" "fb"
      "restore_to True r (max 0 (tm_base t - an_distance r)) t (s\<lparr>rd_marker := m\<rparr>) = (s', t')" "ok"
proof (cases "rd_reader s")
  case None
  then show ?thesis using assms by (intro skip) (auto simp: restoreReader_def)
next
  case (Some r)
  show ?thesis
  proof (cases "tm_alternate t \<or> tm_hidden t \<or> \<not> tm_shown t")
    case True
    then show ?thesis using assms Some by (intro skip) (auto simp: restoreReader_def)
  next
    case False
    obtain m f where row: "reader_row t r (rd_marker s) = (m, f)" by fastforce
    show ?thesis
    proof (cases f)
      case None
      show ?thesis
      proof (cases fb)
        case True
        then have "restore_to True r (max 0 (tm_base t - an_distance r)) t (s\<lparr>rd_marker := m\<rparr>) = (s', t') \<and> ok"
          using assms Some False row None by (simp add: restoreReader_def split: prod.splits)
        then show ?thesis using lost [of r m] Some row None True by blast
      next
        case nofb: False
        then have "s' = s\<lparr>rd_marker := m\<rparr> \<and> t' = t \<and> \<not> ok"
          using assms Some False row None by (simp add: restoreReader_def)
        then show ?thesis using missing [of r m] Some row None nofb by blast
      qed
    next
      case row': (Some row')
      then have "restore_to False r row' t (s\<lparr>rd_marker := m\<rparr>) = (s', t') \<and> ok"
        using assms Some False row by (simp add: restoreReader_def split: prod.splits)
      then show ?thesis using found [of r m row'] Some row row' by blast
    qed
  qed
qed

lemma restoreReader_inv:
  assumes "rd_reader s = None \<Longrightarrow> reading_inv s" "rd_reader s \<noteq> None \<Longrightarrow> \<not> rd_follow s"
    "rd_navigation_timer s = rd_navigating s" "restoreReader fb t s = (s', t', ok)"
  shows "reading_inv s'"
proof -
  have step: "reading_inv u" if "rd_reader s = Some r'" "restore_to lost r' row t (s\<lparr>rd_marker := m\<rparr>) = (u, t'')" for u t'' lost r' row m
    using restore_to_inv [of "s\<lparr>rd_marker := m\<rparr>" lost r' row t] assms(2,3) that by simp
  show ?thesis using assms(4)
  proof (cases rule: restoreReader_cases)
    case skip
    then show ?thesis using assms(1-3) by (cases "rd_reader s") (auto simp: reading_inv_def)
  next
    case (missing r m)
    then show ?thesis using assms(2,3) by (auto simp: reading_inv_def)
  next
    case (found r m row)
    then show ?thesis by (intro step)
  next
    case (lost r m)
    then show ?thesis by (intro step)
  qed
qed

lemma restore_inv: "reading_inv s \<Longrightarrow> reading_inv (fst (restoreReader fb t s))"
  by (cases "restoreReader fb t s") (rule restoreReader_inv [of s fb t], simp_all add: reading_inv_parts)

lemma restore_pending_inv:
  "rd_reader s \<noteq> None \<Longrightarrow> \<not> rd_follow s \<Longrightarrow> rd_navigation_timer s = rd_navigating s \<Longrightarrow>
   reading_inv (fst (restoreReader fb t s))"
  using restoreReader_inv [of s fb t] by (cases "restoreReader fb t s") auto

lemma restoreReaderSoon_inv [simp]: "reading_inv (restoreReaderSoon s) = reading_inv s"
  by (auto simp: restoreReaderSoon_def reading_inv_def split: option.split)

lemma armLatest_inv: "reading_inv s \<Longrightarrow> reading_inv (fst (armLatest now i t s))"
  by (auto simp: armLatest_def Let_def reading_inv_def reader_ops split: option.splits)

lemma cancelLatest_inv: "reading_inv s \<Longrightarrow> reading_inv (cancelLatest s)"
  by (auto simp: reading_inv_def reader_ops split: option.splits)

lemma readerNavigation_inv: "reading_inv s \<Longrightarrow> reading_inv (readerNavigation s)"
  by (auto simp: reading_inv_def reader_ops split: option.splits)

lemma returnToTypingLine_inv: "reading_inv s \<Longrightarrow> reading_inv (fst (returnToTypingLine now t s))"
  by (auto simp: returnToTypingLine_def intro!: armLatest_inv clearReader_inv)

lemma keydown_inv: "reading_inv s \<Longrightarrow> reading_inv (fst (keydown_event now k t s))"
  using returnToTypingLine_inv [of s now t]
  by (auto simp: keydown_event_def Let_def intro!: cancelLatest_inv split: prod.splits)

lemma restore_frame_inv:
  assumes "reading_inv s"
  shows "reading_inv (fst (restore_frame t s))"
proof -
  have q: "reading_inv (s\<lparr>rd_queued := False\<rparr>)" using assms by (simp add: reading_inv_def split: option.splits)
  show ?thesis using q restore_inv [OF q, of "rd_fallback s" t]
    by (auto simp: restore_frame_def Let_def split: prod.split)
qed

lemma snapshot_timeout_inv:
  assumes "reading_inv s" "rd_snapshot_timer s"
  shows "reading_inv (fst (snapshot_timeout t s))"
proof -
  define u where "u = s\<lparr>rd_snapshot_timer := False, rd_fallback := True\<rparr>"
  have "rd_reader s \<noteq> None" using assms by (auto simp: reading_inv_def)
  then have "rd_reader u \<noteq> None" "\<not> rd_follow u" "rd_navigation_timer u = rd_navigating u"
    using assms(1) by (auto simp: u_def reading_inv_def)
  then have i: "reading_inv (fst (restoreReader True t u))" by (rule restore_pending_inv)
  have rel: "reading_inv v \<Longrightarrow> reading_inv (releaseReaderSnapshot v)" for v
    by (auto simp: reading_inv_def releaseReaderSnapshot_def split: option.splits)
  show ?thesis using i by (auto simp: snapshot_timeout_def u_def [symmetric] rel split: prod.split)
qed

lemma reader_step_inv: "reading_inv s \<Longrightarrow> reading_inv (fst (reader_step now e t s))"
proof (cases e)
  case Navigated
  assume "reading_inv s"
  then show ?thesis using Navigated
    by (auto simp: reader_step_def navigation_done_def intro!: captureReader_inv)
next
  case Scrolled
  assume "reading_inv s"
  then show ?thesis using Scrolled
    by (auto simp: reader_step_def scrolled_event_def intro!: captureReader_inv dest: reading_inv_parts)
next
  case (Rendered c)
  assume "reading_inv s"
  then show ?thesis using Rendered
    by (auto simp: reader_step_def reader_render_def reading_inv_def split: option.splits)
next
  case (ScrollbackErased c)
  assume "reading_inv s"
  then show ?thesis using ScrollbackErased
    by (auto simp: reader_step_def holdReaderSnapshot_def Let_def reading_inv_def split: option.splits)
next
  case Uncover
  assume "reading_inv s"
  then show ?thesis using Uncover
    by (auto simp: reader_step_def reader_resume_def releaseReaderSnapshot_def Let_def reading_inv_def split: option.splits list.splits)
next
  case Visible
  assume "reading_inv s"
  then show ?thesis using Visible restore_inv [of s "rd_fallback s" t]
    by (auto simp: reader_step_def resumeReader_def split: prod.split)
next
  case PointerUp
  assume i: "reading_inv s"
  then have "reading_inv (s\<lparr>rd_dragging := False\<rparr>)" by (simp add: reading_inv_def)
  then show ?thesis using i PointerUp by (auto simp: reader_step_def intro!: readerNavigation_inv)
next
  case (PointerDown b)
  assume i: "reading_inv s"
  then have "reading_inv (s\<lparr>rd_dragging := True\<rparr>)" by (simp add: reading_inv_def)
  then show ?thesis using i PointerDown by (auto simp: reader_step_def intro!: cancelLatest_inv)
next
  case SocketOpen
  assume i: "reading_inv s"
  then have "reading_inv ((clearReader s)\<lparr>rd_follow := True\<rparr>)" by (simp add: reading_inv_def reader_ops)
  then show ?thesis using SocketOpen by (auto simp: reader_step_def intro!: armLatest_inv)
next
  case FollowTick
  assume "reading_inv s"
  then show ?thesis using FollowTick by (auto simp: reader_step_def follow_tick_def reading_inv_def)
qed (auto simp: reader_step_def intro!: keydown_inv returnToTypingLine_inv cancelLatest_inv readerNavigation_inv
      restore_frame_inv snapshot_timeout_inv armLatest_inv)

text \<open>A terminal is never anchored at a read passage and following the latest line at once, and without
  an anchor nothing of one is left: no marker, no cover over the screen, no timer and no pending
  fallback. This holds through every sequence of input, redraws, frames, timers and reconnections.\<close>

lemma anchored_or_following: "reading_inv (reader_run hs reading_start)"
proof -
  have "reading_inv s \<Longrightarrow> reading_inv (reader_run hs s)" for s
  proof (induction hs arbitrary: s)
    case (Cons h hs)
    obtain now e t where h: "h = (now, e, t)" using prod_cases3 by blast
    show ?case using Cons.IH [OF reader_step_inv [OF Cons.prems, of now e t]] by (simp add: reader_run_def h)
  qed (simp add: reader_run_def)
  then show ?thesis by (simp add: reading_inv_def reading_start_def)
qed

section \<open>The passage that is read stays\<close>

text \<open>What happens without the reader: output, redraws, frames, timers, and retries of an activation seen before.\<close>

definition unattended :: "nat \<Rightarrow> event \<Rightarrow> bool" where
  "unattended c e =
     (case e of
        Key k \<Rightarrow> \<not> typing_key k \<and> \<not> navigation_key k
      | Typed composing \<Rightarrow> composing
      | Wheel \<Rightarrow> False
      | PointerDown scrollbar \<Rightarrow> \<not> scrollbar
      | ShowLatest (Some i) \<Rightarrow> i \<le> c
      | SocketOpen \<Rightarrow> False
      | _ \<Rightarrow> True)"

text \<open>Reading at rest, with these samples.\<close>

definition reads :: "nat \<Rightarrow> (nat \<times> string) list \<Rightarrow> reading \<Rightarrow> bool" where
  "reads c samples s \<longleftrightarrow>
     map_option an_samples (rd_reader s) = Some samples \<and>
     \<not> rd_navigating s \<and> \<not> rd_navigation_timer s \<and> \<not> rd_dragging s \<and> \<not> rd_timer s \<and> rd_cancelled s = c"

text \<open>A move that shows the passage.\<close>

definition shows_passage :: "(nat \<times> string) list \<Rightarrow> terminal \<Rightarrow> terminal \<Rightarrow> bool" where
  "shows_passage samples t t' \<longleftrightarrow>
     t' = t \<or>
     (\<exists>row. t' = scrollToLine row t \<and> (samples = [] \<or> list_all (\<lambda>(offset, text). getLine t (row + int offset) = Some text) samples))"

lemma reader_row_passage:
  "reader_row t r marker = (m, Some row) \<Longrightarrow> an_samples r \<noteq> [] \<Longrightarrow> passage_at t r row"
  by (auto simp: reader_row_def Let_def dest: search_passage_spec split: option.splits if_splits)

text \<open>
  The one way a passage is given up: no row of the scrollback shows it any more (or nothing but blank
  lines was read). The view goes to the row at the same distance from the end, and what is shown there
  is read from then on, unless it is the latest line, which is then followed.
\<close>

definition passage_lost :: "(nat \<times> string) list \<Rightarrow> terminal \<Rightarrow> bool" where
  "passage_lost samples t \<longleftrightarrow>
     samples = [] \<or> (\<forall>row. 0 \<le> row \<and> row \<le> tm_base t \<longrightarrow> \<not> list_all (\<lambda>(offset, text). getLine t (row + int offset) = Some text) samples)"

definition gives_up :: "nat \<Rightarrow> (nat \<times> string) list \<Rightarrow> reading \<Rightarrow> terminal \<Rightarrow> reading \<Rightarrow> terminal \<Rightarrow> bool" where
  "gives_up c samples s t s' t' \<longleftrightarrow>
     passage_lost samples t \<and>
     (case rd_reader s of
        None \<Rightarrow> False
      | Some r \<Rightarrow>
          t' = (if tm_viewport t \<noteq> max 0 (tm_base t - an_distance r) then scrollToLine (max 0 (tm_base t - an_distance r)) t else t)) \<and>
     (if atLatest t' then rd_reader s' = None \<and> rd_follow s' else reads c (reader_samples t') s')"

lemma restore_found:
  "restore_to False r row t s = (s', t') \<Longrightarrow>
     (t' = t \<or> t' = scrollToLine row t) \<and> rd_navigating s' = rd_navigating s \<and> rd_navigation_timer s' = rd_navigation_timer s \<and>
     rd_dragging s' = rd_dragging s \<and> rd_timer s' = rd_timer s \<and> \<not> rd_fallback s' \<and> rd_cancelled s' = rd_cancelled s \<and>
     (\<exists>r'. rd_reader s' = Some r' \<and> an_samples r' = an_samples r)"
  by (auto simp: restore_to_def Let_def markReader_def reader_settled_def split: if_splits option.splits)

lemma captured:
  "\<not> tm_alternate t \<Longrightarrow> rd_reader (captureReader t s) =
     (if atLatest t then None else Some \<lparr>an_distance = tm_base t - tm_viewport t, an_columns = tm_cols t, an_samples = reader_samples t\<rparr>)"
  "rd_navigating (captureReader t s) = rd_navigating s" "rd_navigation_timer (captureReader t s) = rd_navigation_timer s"
  "rd_dragging (captureReader t s) = rd_dragging s" "rd_timer (captureReader t s) = rd_timer s" "rd_cancelled (captureReader t s) = rd_cancelled s"
  by (auto simp: captureReader_def reader_ops)

lemma settled_same:
  "rd_reader (reader_settled s) = rd_reader s" "rd_follow (reader_settled s) = rd_follow s"
  "rd_navigating (reader_settled s) = rd_navigating s" "rd_navigation_timer (reader_settled s) = rd_navigation_timer s"
  "rd_dragging (reader_settled s) = rd_dragging s" "rd_timer (reader_settled s) = rd_timer s" "rd_cancelled (reader_settled s) = rd_cancelled s"
  by (auto simp: reader_settled_def Let_def split: option.split)

lemma restore_lost:
  assumes "restore_to True r row t s = (s', t')" "\<not> tm_alternate t"
  shows "t' = (if tm_viewport t \<noteq> row then scrollToLine row t else t) \<and>
     rd_navigating s' = rd_navigating s \<and> rd_navigation_timer s' = rd_navigation_timer s \<and>
     rd_dragging s' = rd_dragging s \<and> rd_timer s' = rd_timer s \<and> rd_cancelled s' = rd_cancelled s \<and>
     (if atLatest t' then rd_reader s' = None \<and> rd_follow s'
      else map_option an_samples (rd_reader s') = Some (reader_samples t'))"
proof -
  define t1 where "t1 = (if tm_viewport t \<noteq> row then scrollToLine row t else t)"
  define s2 where "s2 = (if rd_marker s = None then markReader t1 row s else s)\<lparr>rd_reader := Some (r\<lparr>an_distance := tm_base t1 - row\<rparr>)\<rparr>"
  have a: "\<not> tm_alternate t1" using assms(2) by (simp add: t1_def scrollToLine_def)
  have s2: "rd_navigating s2 = rd_navigating s" "rd_navigation_timer s2 = rd_navigation_timer s"
    "rd_dragging s2 = rd_dragging s" "rd_timer s2 = rd_timer s" "rd_cancelled s2 = rd_cancelled s"
    by (simp_all add: s2_def markReader_def)
  have "t' = t1" "s' = reader_settled (if rd_reader (captureReader t1 s2) = None then captureReader t1 s2\<lparr>rd_follow := True\<rparr> else captureReader t1 s2)"
    using assms(1) unfolding restore_to_def Let_def t1_def [symmetric] s2_def [symmetric] if_True prod.inject by (auto split: if_splits)
  then show ?thesis unfolding t1_def [symmetric] by (simp add: settled_same captured(2-6) captured(1) [OF a] s2)
qed

lemma restore_reads:
  assumes "reads c samples s" "restoreReader fb t s = (s', t', ok)"
  shows "reads c samples s' \<and> shows_passage samples t t' \<and> (\<not> rd_fallback s \<longrightarrow> \<not> rd_fallback s') \<or> fb \<and> gives_up c samples s t s' t'"
  using assms(2)
proof (cases rule: restoreReader_cases)
  case (found r m row)
  have r: "an_samples r = samples" using assms(1) found(1) by (simp add: reads_def)
  have "passage_at t r row" if "samples \<noteq> []" using reader_row_passage [OF found(2)] r that by simp
  then have "shows_passage samples t (scrollToLine row t)"
    using r by (auto simp: shows_passage_def passage_at_def)
  then show ?thesis using restore_found [OF found(3)] assms(1) r
    by (auto simp: reads_def shows_passage_def)
next
  case (lost r m)
  have r: "an_samples r = samples" using assms(1) lost(1) by (simp add: reads_def)
  have alt: "\<not> tm_alternate t" using assms(2) lost(1,4,5) by (auto simp: restoreReader_def)
  have "passage_lost samples t"
    using lost(2) r by (auto simp: reader_row_def Let_def passage_lost_def search_passage_None passage_at_def split: if_splits option.splits)
  then have "gives_up c samples s t s' t'"
    using restore_lost [OF lost(4) alt] lost(1) assms(1) by (auto simp: gives_up_def reads_def)
  then show ?thesis using lost(3) by simp
qed (use assms(1) in \<open>auto simp: reads_def shows_passage_def\<close>)

lemma soon_reads: "reads c samples s \<Longrightarrow> reads c samples (restoreReaderSoon s)"
  "rd_fallback (restoreReaderSoon s) = rd_fallback s"
  by (auto simp: reads_def restoreReaderSoon_def)

lemma soon_gives_up: "gives_up c samples s t s' t' \<Longrightarrow> gives_up c samples s t (restoreReaderSoon s') t'"
proof -
  have "rd_reader (restoreReaderSoon s') = rd_reader s'" "rd_follow (restoreReaderSoon s') = rd_follow s'"
    by (simp_all add: restoreReaderSoon_def)
  then show "gives_up c samples s t s' t' \<Longrightarrow> ?thesis" by (auto simp: gives_up_def soon_reads)
qed

lemma timeout_step:
  assumes "reads c samples s" "snapshot_timeout t s = (s', t')"
  shows "reads c samples s' \<and> shows_passage samples t t' \<or> gives_up c samples s t s' t'"
proof -
  let ?s = "s\<lparr>rd_snapshot_timer := False, rd_fallback := True\<rparr>"
  have r: "reads c samples ?s" using assms(1) by (simp add: reads_def)
  obtain u t1 ok where u: "restoreReader True t ?s = (u, t1, ok)" by (metis prod_cases3)
  have s': "s' = (if ok then u else releaseReaderSnapshot u)" "t' = t1" using assms(2) u by (simp_all add: snapshot_timeout_def)
  have g: "gives_up c samples ?s t u t1 \<Longrightarrow> gives_up c samples s t s' t'"
  proof -
    assume "gives_up c samples ?s t u t1"
    then show ?thesis using s' by (auto simp: gives_up_def reads_def releaseReaderSnapshot_def split: option.splits)
  qed
  show ?thesis using restore_reads [OF r u] g s' by (auto simp: reads_def releaseReaderSnapshot_def)
qed

lemma unattended_step:
  assumes "reads c samples s" "unattended c e" "reader_step now e t s = (s', t')"
  shows "reads c samples s' \<and> shows_passage samples t t' \<and> (e \<noteq> SnapshotTimeout \<and> \<not> rd_fallback s \<longrightarrow> \<not> rd_fallback s') \<or>
    (e = SnapshotTimeout \<or> rd_fallback s) \<and> gives_up c samples s t s' t'"
proof -
  have same: "shows_passage samples t t" by (simp add: shows_passage_def)
  show ?thesis
  proof (cases e)
    case SnapshotTimeout
    then show ?thesis using timeout_step [OF assms(1)] assms same by (auto simp: reader_step_def split: if_splits)
  next
    case Frame
    have q: "reads c samples (s\<lparr>rd_queued := False\<rparr>)" using assms(1) by (simp add: reads_def)
    have g: "gives_up c samples (s\<lparr>rd_queued := False\<rparr>) t u t1 = gives_up c samples s t u t1" for u t1
      by (simp add: gives_up_def)
    have "reads c samples (fst (restore_frame t s)) \<and> shows_passage samples t (snd (restore_frame t s)) \<and>
        (\<not> rd_fallback s \<longrightarrow> \<not> rd_fallback (fst (restore_frame t s))) \<or>
        rd_fallback s \<and> gives_up c samples s t (fst (restore_frame t s)) (snd (restore_frame t s))"
      using restore_reads [OF q, of "rd_fallback s" t] q same
      by (cases "restoreReader (rd_fallback s) t (s\<lparr>rd_queued := False\<rparr>)") (auto simp: restore_frame_def Let_def reads_def g)
    then show ?thesis using assms Frame same by (auto simp: reader_step_def split: if_splits)
  next
    case Visible
    obtain u t1 ok where u: "restoreReader (rd_fallback s) t s = (u, t1, ok)" by (metis prod_cases3)
    show ?thesis using restore_reads [OF assms(1) u] assms(1,3) same soon_reads soon_gives_up Visible u
      by (auto simp: reader_step_def resumeReader_def split: if_splits)
  next
    case (Key k)
    have "page_key t k = None" using assms(2) Key by (auto simp: unattended_def page_key_def navigation_key_def)
    then show ?thesis using assms Key same by (auto simp: reader_step_def keydown_event_def unattended_def Let_def)
  next
    case (Rendered b)
    then show ?thesis using assms same
      by (auto simp: reader_step_def reader_render_def reads_def split: option.splits if_splits)
  next
    case (ScrollbackErased b)
    then show ?thesis using assms same
      by (auto simp: reader_step_def holdReaderSnapshot_def reads_def Let_def split: option.splits if_splits)
  next
    case Uncover
    then show ?thesis using assms same
      by (auto simp: reader_step_def reader_resume_def releaseReaderSnapshot_def reads_def Let_def split: option.splits list.splits if_splits)
  next
    case (ShowLatest i)
    then show ?thesis using assms same
      by (cases i) (auto simp: reader_step_def armLatest_def reads_def unattended_def split: option.splits if_splits)
  next
    case (WindowResize b)
    then show ?thesis using assms same
      by (auto simp: reader_step_def armLatest_def reads_def split: option.splits if_splits)
  next
    case Scrolled
    then show ?thesis using assms same soon_reads by (auto simp: reader_step_def scrolled_event_def reads_def)
  qed (use assms same soon_reads in \<open>auto simp: reader_step_def unattended_def reads_def\<close>)
qed

text \<open>Through a run the passage stays, except where it is given up; then the same holds of what is read next.\<close>

fun kept :: "nat \<Rightarrow> (nat \<times> string) list \<Rightarrow> happening list \<Rightarrow> reading \<Rightarrow> bool" where
  "kept c samples [] s = True"
| "kept c samples ((now, e, t) # hs) s =
     (case reader_step now e t s of
        (s', t') \<Rightarrow>
          reads c samples s' \<and> shows_passage samples t t' \<and> kept c samples hs s' \<or>
          (e = SnapshotTimeout \<or> rd_fallback s) \<and> gives_up c samples s t s' t' \<and>
            (atLatest t' \<or> kept c (reader_samples t') hs s'))"

lemma always_kept:
  assumes "reads c samples s" "list_all (\<lambda>(now, e, t). unattended c e) hs"
  shows "kept c samples hs s"
  using assms
proof (induction hs arbitrary: s samples)
  case (Cons h hs)
  obtain now e t where h: "h = (now, e, t)" using prod_cases3 by blast
  obtain s' t' where st: "reader_step now e t s = (s', t')" by fastforce
  have IH: "\<And>samples'. reads c samples' s' \<Longrightarrow> kept c samples' hs s'" using Cons by (simp add: h)
  have "gives_up c samples s t s' t' \<Longrightarrow> \<not> atLatest t' \<Longrightarrow> reads c (reader_samples t') s'" by (simp add: gives_up_def)
  then show ?case using unattended_step [OF Cons.prems(1) _ st] Cons.prems(2) IH by (auto simp: h st)
qed simp

lemma kept_without_timeout:
  assumes "reads c samples s" "list_all (\<lambda>(now, e, t). unattended c e \<and> e \<noteq> SnapshotTimeout) hs" "\<not> rd_fallback s"
  shows "reads c samples (reader_run hs s) \<and> list_all (\<lambda>(t, t'). shows_passage samples t t') (reader_moves hs s)"
  using assms
proof (induction hs arbitrary: s)
  case (Cons h hs)
  obtain now e t where h: "h = (now, e, t)" using prod_cases3 by blast
  obtain s' t' where st: "reader_step now e t s = (s', t')" by fastforce
  have "reads c samples s' \<and> shows_passage samples t t' \<and> \<not> rd_fallback s'"
    using unattended_step [OF Cons.prems(1) _ st] Cons.prems(2,3) h by auto
  then show ?case using Cons.IH [of s'] Cons.prems(2) h st by (simp add: reader_run_def)
qed (simp add: reader_run_def)

text \<open>C33. What a user reads in the scrollback is not taken away. Once the terminal rests at a read passage, whatever output,
  erases, redraws, resizes, frames, timers and repeated activations come (no typing, scrolling or reconnection), the
  reading goes on and every move of the view by the program goes to a row that shows exactly the
  lines that were read, with one exception: at the two-second timer that an erase of the scrollback starts, or at
  a later restoration if the screen could not be restored then, a passage that no row of the scrollback shows any more is given up;
  the view goes to the row at the same distance from the end and what is shown there is read from then on, or the latest
  line followed if it is that. Without that timer there is no exception.\<close>

theorem reading_is_kept:
  assumes "reads c samples s" "list_all (\<lambda>(now, e, t). unattended c e) hs"
  shows "kept c samples hs s \<and>
    (\<not> rd_fallback s \<and> list_all (\<lambda>(now, e, t). e \<noteq> SnapshotTimeout) hs \<longrightarrow>
       reads c samples (reader_run hs s) \<and> list_all (\<lambda>(t, t'). shows_passage samples t t') (reader_moves hs s))"
proof -
  have "list_all (\<lambda>(now, e, t). unattended c e \<and> e \<noteq> SnapshotTimeout) hs" if "list_all (\<lambda>(now, e, t). e \<noteq> SnapshotTimeout) hs"
    using assms(2) that by (auto simp: list_all_iff)
  then show ?thesis using always_kept [OF assms] kept_without_timeout [OF assms(1)] by blast
qed

definition three_lines :: terminal where
  "three_lines = \<lparr>tm_alternate = False, tm_base = 3, tm_viewport = 3, tm_cursor = 0, tm_rows = 1, tm_cols = 80,
     tm_lines = [''a'', ''b'', ''c'', ''d''], tm_mouse = False, tm_shown = True, tm_hidden = False\<rparr>"

definition reading_b :: reading where
  "reading_b = reading_start\<lparr>rd_reader := Some \<lparr>an_distance = 2, an_columns = 80, an_samples = [(0, ''b'')]\<rparr>,
     rd_follow := False, rd_highest := 4, rd_cancelled := 4\<rparr>"

theorem reading_is_kept_witness:
  "reads 4 [(0, ''b'')]
     (reader_run [(0, WriteParsed, three_lines), (1, Frame, three_lines), (2, ShowLatest (Some 4), three_lines)] reading_b) \<and>
   list_all (\<lambda>(t, t'). shows_passage [(0, ''b'')] t t')
     (reader_moves [(0, WriteParsed, three_lines), (1, Frame, three_lines), (2, ShowLatest (Some 4), three_lines)] reading_b)"
proof -
  let ?hs = "[(0, WriteParsed, three_lines), (1, Frame, three_lines), (2, ShowLatest (Some 4), three_lines)]"
  have "reads 4 [(0, ''b'')] reading_b" "list_all (\<lambda>(now, e, t). unattended 4 e) ?hs"
    by (simp_all add: reads_def reading_b_def reading_start_def unattended_def)
  from reading_is_kept [OF this] show ?thesis by (simp add: reading_b_def reading_start_def)
qed

text \<open>The exception: the passage is gone when the timer fires, and the line two above the end is read instead.\<close>

lemma passage_is_given_up:
  "let t = three_lines\<lparr>tm_lines := [''x'', ''y'', ''z'', ''w'']\<rparr>; (s', t') = snapshot_timeout t reading_b
   in tm_viewport t' = 1 \<and> map_option an_samples (rd_reader s') = Some [(0, ''y'')]"
  by (simp add: three_lines_def reading_b_def reading_start_def snapshot_timeout_def restoreReader_def reader_row_def
      search_passage_def passage_at_def getLine_def upto.simps restore_to_def scrollToLine_def markReader_def captureReader_def atLatest_def
      reader_samples_def reader_settled_def List.map_filter_def Let_def)

text \<open>Restoring finds the passage whenever it is there: for a visible normal screen and a lost marker, the
  view moves to a row of the scrollback that shows the saved lines, the nearest one to where the
  passage was by its distance, exactly when there is such a row, and is left alone otherwise.\<close>

lemma passage_found_iff_present:
  assumes "rd_reader s = Some r" "an_samples r \<noteq> []" "rd_marker s = None"
    "\<not> tm_alternate t \<and> \<not> tm_hidden t \<and> tm_shown t"
  shows "case restoreReader False t s of
      (s', t', ok) \<Rightarrow>
        (ok \<longleftrightarrow> (\<exists>i. 0 \<le> i \<and> i \<le> tm_base t \<and> passage_at t r i)) \<and>
        (if ok then passage_at t r (tm_viewport t') \<and>
           (\<forall>i. 0 \<le> i \<and> i \<le> tm_base t \<and> passage_at t r i \<longrightarrow>
              \<bar>tm_viewport t' - max 0 (tm_base t - an_distance r)\<bar> \<le> \<bar>i - max 0 (tm_base t - an_distance r)\<bar>)
         else t' = t)"
proof (cases "search_passage t r")
  case None
  then have "restoreReader False t s = (s\<lparr>rd_marker := None\<rparr>, t, False)"
    using assms by (simp add: restoreReader_def reader_row_def)
  then show ?thesis using None by (auto simp: search_passage_None)
next
  case (Some row)
  note spec = search_passage_spec [OF Some]
  have v: "tm_viewport (snd (restore_to False r row t u)) = row" for u
    using spec by (simp add: restore_to_def Let_def scrollToLine_def)
  define u where "u = s\<lparr>rd_marker := None\<rparr>"
  have "restoreReader False t s = (fst (restore_to False r row t u), snd (restore_to False r row t u), True)"
    unfolding u_def
    using assms Some by (simp add: restoreReader_def reader_row_def case_prod_beta)
  then show ?thesis using spec v by auto
qed

definition anchor_b :: anchor where
  "anchor_b = \<lparr>an_distance = 2, an_columns = 80, an_samples = [(0, ''b'')]\<rparr>"

theorem passage_found_iff_present_witness:
  "case restoreReader False three_lines reading_b of (s', t', ok) \<Rightarrow> ok \<and> passage_at three_lines anchor_b (tm_viewport t')"
proof -
  have "passage_at three_lines anchor_b 1" "tm_base three_lines = 3"
    by (simp_all add: passage_at_def getLine_def three_lines_def anchor_b_def)
  then have "\<exists>i. 0 \<le> i \<and> i \<le> tm_base three_lines \<and> passage_at three_lines anchor_b i" by (intro exI [of _ 1]) simp
  moreover have "rd_reader reading_b = Some anchor_b" "an_samples anchor_b \<noteq> []" "rd_marker reading_b = None"
    "\<not> tm_alternate three_lines \<and> \<not> tm_hidden three_lines \<and> tm_shown three_lines"
    by (simp_all add: reading_b_def reading_start_def anchor_b_def three_lines_def)
  ultimately show ?thesis using passage_found_iff_present [of reading_b anchor_b three_lines] by (auto split: prod.splits)
qed

end
