(* ===== verification/TermSize.thy ===== *)
theory TermSize
  imports TermReader JsStr
begin

text \<open>
  \<^verbatim>\<open>terminal/terminal-kbd.js\<close>: who owns the size of a shared terminal. A claim sends two sizes so
  that the shared process sees a change; it follows deliberate interaction, a terminal that comes
  into view, and the end of a replay. Also the bar that shows while a replay is loading.
\<close>

section \<open>Claims\<close>

text \<open>What a claim does: frames on the socket, or resizes of the terminal when there is no open socket.\<close>

datatype claim = Frames "(nat \<times> nat) list" | Resizes "(nat \<times> nat) list"

definition claim_sizes :: "terminal \<Rightarrow> (nat \<times> nat) list" where
  "claim_sizes t = [(max 2 (tm_cols t - 1), tm_rows t), (tm_cols t, tm_rows t)]"

definition resize_frame :: "nat \<times> nat \<Rightarrow> string" where
  "resize_frame cr = ''1{\"columns\":'' @ dec (fst cr) @ '',\"rows\":'' @ dec (snd cr) @ ''}''"

definition claimSize :: "nat \<Rightarrow> bool \<Rightarrow> terminal \<Rightarrow> reading \<Rightarrow> reading \<times> terminal \<times> claim" where
  "claimSize now socket_open t s =
     (case (if atLatest t then armLatest now None t s else (s, t)) of
        (s', t') \<Rightarrow> (s', t', if socket_open then Frames (claim_sizes t') else Resizes (claim_sizes t')))"

text \<open>The events that can claim: \<open>IKey\<close> with its name, input, and a press.\<close>

datatype interaction = IKey string | IInput | IPress

definition claimForInteraction :: "bool \<Rightarrow> nat \<Rightarrow> interaction \<Rightarrow> terminal \<Rightarrow> nat \<Rightarrow> nat \<times> bool" where
  "claimForInteraction isTouch now e t last_claim =
     (if tm_hidden t then (last_claim, False)
      else if isTouch \<and> e \<noteq> IPress then (last_claim, False)
      else if \<not> tm_shown t then (last_claim, False)
      else if (case e of IKey k \<Rightarrow> k \<in> {''PageUp'', ''PageDown'', ''Home'', ''End''} | _ \<Rightarrow> False) then (last_claim, False)
      else if int now - int last_claim < 1000 then (last_claim, False)
      else (now, True))"

text \<open>A touch device claims when its box comes into view, or when its height changes by a quarter (the keyboard).\<close>

record box =
  bx_visible :: bool
  bx_height :: nat

definition observe_box :: "nat \<Rightarrow> nat \<Rightarrow> box \<Rightarrow> box \<times> bool" where
  "observe_box w h b =
     (let vis = (w > 0);
          claims = (if vis \<and> \<not> bx_visible b then True
                    else vis \<and> bx_height b > 0 \<and> h > 0 \<and> \<bar>int h - int (bx_height b)\<bar> * 4 \<ge> int (bx_height b))
      in (\<lparr>bx_visible = vis, bx_height = (if h > 0 then h else bx_height b)\<rparr>, claims))"

text \<open>The refit of a desktop: nothing without a width, and following only from the latest line.\<close>

definition reFit :: "nat \<Rightarrow> terminal \<Rightarrow> reading \<Rightarrow> reading \<times> terminal \<times> bool" where
  "reFit now t s =
     (if tm_shown t
      then (case (if atLatest t then armLatest now None t s else (s, t)) of (s', t') \<Rightarrow> (s', t', True))
      else (s, t, False))"

section \<open>The loading bar\<close>

record loading =
  ld_show :: bool
  ld_idle :: bool
  ld_cap :: bool
  ld_done :: bool
  ld_bar :: bool
  ld_frame :: bool

definition loading_start :: loading where
  "loading_start = \<lparr>ld_show = True, ld_idle = False, ld_cap = True, ld_done = False, ld_bar = False, ld_frame = False\<rparr>"

record page_socket =
  ps_touch :: bool
  ps_current :: bool
  ps_open :: bool

text \<open>The end of a replay: the state, whether the size is claimed, and the terminal.\<close>

definition loading_fin :: "nat \<Rightarrow> page_socket \<Rightarrow> terminal \<Rightarrow> loading \<Rightarrow> reading \<Rightarrow> loading \<times> reading \<times> terminal \<times> bool" where
  "loading_fin now p t l s =
     (if ld_done l then (l, s, t, False)
      else let l' = \<lparr>ld_show = False, ld_idle = False, ld_cap = False, ld_done = True, ld_bar = False, ld_frame = ld_frame l\<rparr>;
               claims = (ps_touch p \<and> ps_current p \<and> ps_open p \<and> \<not> tm_hidden t \<and> rd_follow s \<and> rd_reader s = None \<and> tm_shown t);
               (s1, t1) = (if claims then (case claimSize now (ps_open p) t s of (s1, t1, _) \<Rightarrow> (s1, t1)) else (s, t));
               t2 = (if now < rd_until s1 then revealLatest t1 else t1)
           in (l', s1, t2, claims))"

datatype load_event = LShow | LMessage | LFrame | LIdle | LCap | LClose

definition loading_step :: "nat \<Rightarrow> page_socket \<Rightarrow> load_event \<Rightarrow> terminal \<Rightarrow> loading \<times> reading \<Rightarrow> (loading \<times> reading) \<times> terminal \<times> bool" where
  "loading_step now p e t ls =
     (let (l, s) = ls; fin = (case loading_fin now p t l s of (l', s', t', c) \<Rightarrow> ((l', s'), t', c))
      in case e of
           LShow \<Rightarrow> if ld_show l then ((l\<lparr>ld_show := False, ld_bar := True\<rparr>, s), t, False) else (ls, t, False)
         | LMessage \<Rightarrow> if ld_done l then (ls, t, False) else ((l\<lparr>ld_idle := True, ld_frame := (ld_frame l \<or> now < rd_until s)\<rparr>, s), t, False)
         | LFrame \<Rightarrow> if ld_frame l then ((l\<lparr>ld_frame := False\<rparr>, s), revealLatest t, False) else (ls, t, False)
         | LIdle \<Rightarrow> if ld_idle l then fin else (ls, t, False)
         | LCap \<Rightarrow> if ld_cap l then fin else (ls, t, False)
         | LClose \<Rightarrow> fin)"

section \<open>What claims guarantee\<close>

text \<open>A claim ends with the terminal's own size, and its first size differs where there are three columns.\<close>

lemma claim_nudges: "3 \<le> tm_cols t \<Longrightarrow> fst (claim_sizes t ! 0) \<noteq> tm_cols t"
  by (simp add: claim_sizes_def)

lemma claim_ends: "last (claim_sizes t) = (tm_cols t, tm_rows t)" "snd (claim_sizes t ! 0) = tm_rows t"
  by (simp_all add: claim_sizes_def)

lemma resize_frame_inj: "resize_frame (c, r) = resize_frame (c', r') \<Longrightarrow> c = c' \<and> r = r'"
proof -
  assume "resize_frame (c, r) = resize_frame (c', r')"
  then have e: "dec c @ '',\"rows\":'' @ dec r @ ''}'' = dec c' @ '',\"rows\":'' @ dec r' @ ''}''"
    by (simp add: resize_frame_def)
  have t: "takeWhile is_digit (dec n @ CHR '','' # xs) = dec n" for n xs
    by (subst takeWhile_append2) (auto dest: dec_digits simp: is_digit_def)
  have "dec c = dec c'" using arg_cong [OF e, of "takeWhile is_digit"] by (simp add: t)
  then show ?thesis using e by (auto dest: dec_inj)
qed

text \<open>Claims by interaction are at least a second apart.\<close>

fun claim_times :: "bool \<Rightarrow> nat \<Rightarrow> (nat \<times> interaction \<times> terminal) list \<Rightarrow> nat list" where
  "claim_times isTouch l [] = []"
| "claim_times isTouch l ((now, e, t) # es) =
     (case claimForInteraction isTouch now e t l of
        (l', True) \<Rightarrow> now # claim_times isTouch l' es
      | (l', False) \<Rightarrow> claim_times isTouch l' es)"

lemma claims_spaced: "list_all (\<lambda>n. l + 1000 \<le> n) (take 1 (claim_times isTouch l es)) \<and>
   (\<forall>i. Suc i < length (claim_times isTouch l es) \<longrightarrow> claim_times isTouch l es ! i + 1000 \<le> claim_times isTouch l es ! Suc i)"
proof (induction isTouch l es rule: claim_times.induct)
  case (2 isTouch l now e t es)
  show ?case
  proof (cases "claimForInteraction isTouch now e t l")
    case (Pair l' b)
    then have "b \<Longrightarrow> l' = now \<and> l + 1000 \<le> now" "\<not> b \<Longrightarrow> l' = l"
      by (auto simp: claimForInteraction_def split: if_splits)
    then show ?thesis using 2 Pair
      by (cases b; cases "claim_times isTouch l' es") (auto simp: nth_Cons split: nat.split)
  qed
qed simp

text \<open>The bar never stays: once the replay is over it is hidden and nothing shows it again.\<close>

lemma loading_done_stays:
  "ld_done (fst ls) \<Longrightarrow> \<not> ld_bar (fst ls) \<Longrightarrow> \<not> ld_show (fst ls) \<Longrightarrow>
   (\<lambda>l. ld_done l \<and> \<not> ld_bar l \<and> \<not> ld_show l) (fst (fst (loading_step now p e t ls)))"
  by (cases ls; cases e) (auto simp: loading_step_def loading_fin_def)

lemma loading_cap_ends: "ld_cap (fst ls) \<or> e = LClose \<Longrightarrow> e = LCap \<or> e = LClose \<Longrightarrow>
   ld_done (fst (fst (loading_step now p e t ls)))"
  by (cases ls; cases e) (auto simp: loading_step_def loading_fin_def Let_def split: prod.split)

text \<open>A change below a quarter of the height, like a collapsing address bar, claims nothing in a visible terminal.\<close>

lemma small_change_ignored:
  "bx_visible b \<Longrightarrow> 4 * \<bar>int h - int (bx_height b)\<bar> < int (bx_height b) \<Longrightarrow> \<not> snd (observe_box w h b)"
  by (auto simp: observe_box_def Let_def)

text \<open>Nothing claims while a passage is read: neither a replay nor a refit ends the reading.\<close>

lemma claim_keeps_reading: "rd_reader s \<noteq> None \<Longrightarrow> fst (claimSize now o' t s) = s \<and> fst (reFit now t s) = s"
  by (auto simp: claimSize_def reFit_def armLatest_def)

lemma replay_claim_only_followed:
  "snd (snd (snd (loading_fin now p t l s))) \<Longrightarrow> rd_reader s = None \<and> rd_follow s \<and> \<not> tm_hidden t \<and> ps_current p"
  by (auto simp: loading_fin_def Let_def split: if_splits prod.splits)

end
