(* ===== verification/TermTouch.thy ===== *)
theory TermTouch
  imports TermReader KbdInput JsStr
begin

text \<open>
  \<^verbatim>\<open>terminal/terminal-kbd.js\<close>, the touch part: the overlay whose input goes to the terminal, the
  key bar's bytes, the words, lines and addresses under a finger, and the gestures of one and two
  fingers. Positions on the screen are reals; what a gesture does to the page is a list of actions.
\<close>

section \<open>The overlay\<close>

text \<open>\<open>ov_typed\<close> is the time of the last keystroke.\<close>

record overlay =
  ov_value :: jsstr
  ov_kbd :: kbd
  ov_typed :: nat
  ov_armed :: bool

definition resetBaseline :: "nat \<Rightarrow> overlay \<Rightarrow> overlay" where
  "resetBaseline safety o1 = o1\<lparr>ov_kbd := fst (kbd_step safety (ov_kbd o1) Reset), ov_value := []\<rparr>"

definition KBD_KEY_BYTES :: "string \<Rightarrow> jsstr option" where
  "KBD_KEY_BYTES k =
     map_of [(''Escape'', [27]), (''Tab'', [9]), (''CtrlC'', [3]), (''Enter'', [13]), (''Backspace'', [127]),
       (''ArrowUp'', [27, 91, 65]), (''ArrowDown'', [27, 91, 66]), (''ArrowRight'', [27, 91, 67]), (''ArrowLeft'', [27, 91, 68]),
       (''CtrlB'', [2]), (''CtrlF'', [6])] k"

datatype overlay_event =
    OFocus bool | OBlur | OCompositionStart | OCompositionEnd jsstr | OInput jsstr bool
  | OKey string | OVisible bool | OSystemKey string | OFire

text \<open>
  An event of the overlay with the value it then has: the new state and the chunks for the terminal.
  \<open>OFocus\<close> says whether xterm just took the focus and it was given back.
\<close>

definition overlay_step :: "nat \<Rightarrow> nat \<Rightarrow> overlay_event \<Rightarrow> overlay \<Rightarrow> overlay \<times> jsstr list" where
  "overlay_step safety now e o1 =
     (let kbd = (\<lambda>ev. kbd_step safety (ov_kbd o1) ev)
      in case e of
           OFocus bouncing \<Rightarrow>
             (let o2 = o1\<lparr>ov_armed := True\<rparr>
              in (if bouncing \<and> int now - int (ov_typed o2) < 1500 then o2 else resetBaseline safety o2, []))
         | OBlur \<Rightarrow> (o1\<lparr>ov_armed := False\<rparr>, [])
         | OCompositionStart \<Rightarrow> (case kbd CompositionStart of (k, out) \<Rightarrow> (o1\<lparr>ov_kbd := k\<rparr>, out))
         | OCompositionEnd v \<Rightarrow> (case kbd (CompositionEnd v) of (k, out) \<Rightarrow> (o1\<lparr>ov_kbd := k, ov_value := v\<rparr>, out))
         | OInput v isComposing \<Rightarrow>
             (case kbd (Input v isComposing) of (k, out) \<Rightarrow> (o1\<lparr>ov_kbd := k, ov_value := v, ov_typed := now\<rparr>, out))
         | OKey name \<Rightarrow>
             (let o2 = o1\<lparr>ov_typed := now\<rparr>
              in if name = ''Enter'' then (case kbd (Enter (ov_value o1)) of (k, out) \<Rightarrow> (o2\<lparr>ov_kbd := k, ov_value := []\<rparr>, out))
                 else if name = ''Tab'' then (case kbd TabKey of (k, out) \<Rightarrow> (o2\<lparr>ov_kbd := k\<rparr>, out))
                 else if name = ''Backspace'' \<and> ov_value o1 = []
                 then (case kbd BackspaceEmpty of (k, out) \<Rightarrow> (o2\<lparr>ov_kbd := k\<rparr>, out))
                 else (o2, []))
         | OVisible visible \<Rightarrow> (if visible then resetBaseline safety o1 else o1, [])
         | OSystemKey name \<Rightarrow>
             (case KBD_KEY_BYTES name of
                None \<Rightarrow> (o1, [])
              | Some bytes \<Rightarrow> (resetBaseline safety o1, [bytes]))
         | OFire \<Rightarrow> (case kbd Fire of (k, out) \<Rightarrow> (o1\<lparr>ov_kbd := k\<rparr>, out)))"

text \<open>Every chunk first returns the terminal to the line that is typed.\<close>

definition overlay_send :: "nat \<Rightarrow> jsstr list \<Rightarrow> terminal \<Rightarrow> reading \<Rightarrow> reading \<times> terminal" where
  "overlay_send now out t s = fold (\<lambda>_ (s, t). returnToTypingLine now t s) out (s, t)"

text \<open>Where the transparent caret is parked (in pixels from above), None while the terminal is scrolled back.\<close>

definition positionCaret :: "terminal \<Rightarrow> real \<Rightarrow> real option" where
  "positionCaret t h =
     (if tm_base t - tm_viewport t > 1 then None
      else let rows = (if tm_rows t = 0 then 24 else tm_rows t); rh = h / real rows
           in Some (Math_round (max 0 (min (of_int (tm_cursor t) * rh) (h - 2 * rh)))))"

section \<open>Cells, words and lines\<close>

record cell =
  ce_col :: int
  ce_row :: int

record screen_box =
  sb_left :: real
  sb_above :: real
  sb_width :: real
  sb_height :: real

definition cellAt :: "terminal \<Rightarrow> screen_box \<Rightarrow> real \<Rightarrow> real \<Rightarrow> cell" where
  "cellAt t r x y =
     \<lparr>ce_col = max 0 (min (int (tm_cols t) - 1) \<lfloor>(x - sb_left r) / (sb_width r / real (tm_cols t))\<rfloor>),
      ce_row = tm_viewport t + max 0 (min (int (tm_rows t) - 1) \<lfloor>(y - sb_above r) / (sb_height r / real (tm_rows t))\<rfloor>)\<rparr>"

definition before :: "cell \<Rightarrow> cell \<Rightarrow> bool" where
  "before a b \<longleftrightarrow> ce_row a < ce_row b \<or> (ce_row a = ce_row b \<and> ce_col a < ce_col b)"

text \<open>The column, row and length that are selected between two cells.\<close>

definition applySel :: "nat \<Rightarrow> cell \<Rightarrow> cell \<Rightarrow> int \<times> int \<times> int" where
  "applySel cols a b =
     (let (s, e) = (if before b a then (b, a) else (a, b))
      in (ce_col s, ce_row s, max 1 ((ce_row e - ce_row s) * int cols + (ce_col e - ce_col s) + 1)))"

fun word_start :: "string \<Rightarrow> nat \<Rightarrow> nat" where
  "word_start str 0 = 0"
| "word_start str (Suc a) = (if is_space (str ! a) then Suc a else word_start str a)"

function word_end :: "string \<Rightarrow> nat \<Rightarrow> nat" where
  "word_end str b = (if b + 1 < length str \<and> \<not> is_space (str ! (b + 1)) then word_end str (b + 1) else b)"
  by pat_completeness auto
termination by (relation "measure (\<lambda>(str, b). length str - b)") auto

declare word_end.simps [simp del]

definition wordAt :: "string option \<Rightarrow> cell \<Rightarrow> cell \<times> cell" where
  "wordAt line c =
     (case line of
        None \<Rightarrow> (c, c)
      | Some str \<Rightarrow>
          let k = nat (ce_col c)
          in if length str \<le> k \<or> is_space (str ! k) then (c, c)
             else (c\<lparr>ce_col := int (word_start str k)\<rparr>, c\<lparr>ce_col := int (word_end str k)\<rparr>))"

text \<open>Rows at full width, with whether they continue the row above.\<close>

type_synonym rows = "(bool \<times> string) list"

fun wrap_start :: "rows \<Rightarrow> nat \<Rightarrow> nat" where
  "wrap_start rs 0 = 0"
| "wrap_start rs (Suc n) = (if Suc n < length rs \<and> fst (rs ! Suc n) then wrap_start rs n else Suc n)"

definition wrap_run :: "rows \<Rightarrow> string list" where
  "wrap_run rs = (case rs of [] \<Rightarrow> [] | r # rest \<Rightarrow> snd r # map snd (takeWhile fst rest))"

text \<open>The whole line a cell is on and the cell's place in it.\<close>

definition logicalLineAt :: "rows \<Rightarrow> nat \<Rightarrow> nat \<Rightarrow> (string \<times> nat) option" where
  "logicalLineAt rs row col =
     (let start = wrap_start rs row; parts = wrap_run (drop start rs)
      in if start \<le> row \<and> row < start + length parts
         then Some (concat parts, length (concat (take (row - start) parts)) + col) else None)"

definition url_stop :: "char \<Rightarrow> bool" where
  "url_stop c \<longleftrightarrow> is_space c \<or> c \<in> set [CHR 0x22, CHR 0x27, CHR ''<'', CHR ''>'', CHR 0x60, CHR ''('', CHR '')'', CHR ''{'', CHR ''}'', CHR ''['', CHR '']'']"

definition url_head :: "string \<Rightarrow> string option" where
  "url_head s =
     (let scheme = (if starts_with ''http://'' s then Some 7 else if starts_with ''https://'' s then Some 8 else None)
      in case scheme of
           None \<Rightarrow> None
         | Some n \<Rightarrow>
             (case takeWhile (\<lambda>c. \<not> url_stop c) (drop n s) of
                [] \<Rightarrow> None
              | rest \<Rightarrow> Some (take n s @ rest)))"

definition trim_url :: "string \<Rightarrow> string" where
  "trim_url u = rev (dropWhile (\<lambda>c. c \<in> set [CHR ''.'', CHR '','', CHR '';'', CHR '':'', CHR ''!'', CHR ''?'', CHR 0x27, CHR 0x22, CHR '')'', CHR '']'']) (rev u))"

text \<open>The matches of the pattern from a place on, and the one that covers the offset.\<close>

function url_from :: "string \<Rightarrow> nat \<Rightarrow> nat \<Rightarrow> string option" where
  "url_from s i off =
     (if i \<ge> length s then None
      else case url_head (drop i s) of
             None \<Rightarrow> url_from s (i + 1) off
           | Some m \<Rightarrow> if i \<le> off \<and> off < i + length m then Some (trim_url m) else url_from s (i + length m) off)"
  by pat_completeness auto
termination
  by (relation "measure (\<lambda>(s, i, off). length s - i)")
     (auto simp: url_head_def Let_def starts_with_def split: if_splits list.splits)

declare url_from.simps [simp del]

definition urlAt :: "rows \<Rightarrow> nat \<Rightarrow> nat \<Rightarrow> string option" where
  "urlAt rs row col = (case logicalLineAt rs row col of None \<Rightarrow> None | Some (s, off) \<Rightarrow> url_from s 0 off)"

section \<open>Selection handles\<close>

record handles =
  hd_start :: "cell option"
  hd_end :: "cell option"
  hd_shown :: bool

definition showHandles :: "cell \<Rightarrow> cell \<Rightarrow> handles" where
  "showHandles s e =
     (if before e s then \<lparr>hd_start = Some e, hd_end = Some s, hd_shown = True\<rparr>
      else \<lparr>hd_start = Some s, hd_end = Some e, hd_shown = True\<rparr>)"

text \<open>A handle that is dragged to a cell never crosses the other one.\<close>

definition drag_handle :: "bool \<Rightarrow> cell \<Rightarrow> handles \<Rightarrow> handles" where
  "drag_handle isEnd c h =
     (case (hd_start h, hd_end h) of
        (Some s, Some e) \<Rightarrow>
          if isEnd then h\<lparr>hd_end := Some (if before c s then s else c)\<rparr>
          else h\<lparr>hd_start := Some (if before e c then e else c)\<rparr>
      | _ \<Rightarrow> h)"

text \<open>The place of an edge of a cell on the screen, None out of view.\<close>

definition edgePx :: "terminal \<Rightarrow> screen_box \<Rightarrow> cell \<Rightarrow> bool \<Rightarrow> (real \<times> real \<times> real) option" where
  "edgePx t r c atEnd =
     (let vr = ce_row c - tm_viewport t; rowH = sb_height r / real (tm_rows t); colW = sb_width r / real (tm_cols t)
      in if vr < 0 \<or> vr \<ge> int (tm_rows t) then None
         else Some (sb_left r + of_int (ce_col c + (if atEnd then 1 else 0)) * colW, sb_above r + of_int vr * rowH, rowH))"

section \<open>Gestures\<close>

datatype action =
    PreventDefault | HideCopy | ShowCopy real real | HideHandles | ShowHandles cell cell | BlurOverlay | ClearSelection
  | SelectCells cell cell | ScrollLine int | ClaimSize | OpenUrl string

record gesture =
  ge_two :: bool
  ge_two_start :: nat
  ge_startX :: real
  ge_startY :: real
  ge_prevY :: real
  ge_acc :: real
  ge_moved :: bool
  ge_timer :: bool
  ge_selecting :: bool
  ge_anchor :: "cell option"
  ge_cell :: "cell option"
  ge_scrolled :: bool
  ge_sel :: "(cell \<times> cell) option"

definition gesture_start :: gesture where
  "gesture_start = \<lparr>ge_two = False, ge_two_start = 0, ge_startX = 0, ge_startY = 0, ge_prevY = 0, ge_acc = 0, ge_moved = False,
     ge_timer = False, ge_selecting = False, ge_anchor = None, ge_cell = None, ge_scrolled = False, ge_sel = None\<rparr>"

definition touchstart :: "nat \<Rightarrow> nat \<Rightarrow> real \<Rightarrow> real \<Rightarrow> cell option \<Rightarrow> gesture \<Rightarrow> gesture \<times> action list" where
  "touchstart now touches x y c g =
     (if touches \<ge> 2 then (g\<lparr>ge_two := True, ge_two_start := now, ge_timer := False, ge_selecting := False\<rparr>, [])
      else (g\<lparr>ge_two := False, ge_startX := x, ge_startY := y, ge_prevY := y, ge_acc := 0, ge_moved := False,
              ge_selecting := False, ge_anchor := None, ge_cell := c, ge_scrolled := False, ge_timer := True\<rparr>, [HideCopy]))"

text \<open>The finger was held still; \<open>w\<close> is the word of the cell where it began.\<close>

definition longpress :: "(cell \<times> cell) option \<Rightarrow> gesture \<Rightarrow> gesture \<times> action list" where
  "longpress w g0 =
     (let g = g0\<lparr>ge_timer := False\<rparr>
      in if \<not> ge_timer g0 then (g0, [])
         else if ge_moved g then (g, [])
         else case w of
                None \<Rightarrow> (g\<lparr>ge_selecting := True\<rparr>, [BlurOverlay, HideHandles])
              | Some (s, e) \<Rightarrow>
                  (g\<lparr>ge_selecting := True, ge_anchor := Some s, ge_sel := Some (s, e)\<rparr>,
                   [BlurOverlay, HideHandles, ClearSelection, SelectCells s e]))"

text \<open>The two loops: one line for every 18 pixels.\<close>

function scroll_down_loop :: "real \<Rightarrow> nat \<times> real" where
  "scroll_down_loop acc = (if acc > 18 then (case scroll_down_loop (acc - 18) of (n, a) \<Rightarrow> (Suc n, a)) else (0, acc))"
  by pat_completeness auto
termination
proof (relation "measure (\<lambda>acc. nat \<lceil>acc\<rceil>)")
  fix acc :: real
  assume "18 < acc"
  then have "\<lceil>acc - 18\<rceil> < \<lceil>acc\<rceil>" "0 < \<lceil>acc\<rceil>" by linarith+
  then show "(acc - 18, acc) \<in> measure (\<lambda>acc. nat \<lceil>acc\<rceil>)" by simp
qed simp

function scroll_up_loop :: "real \<Rightarrow> nat \<times> real" where
  "scroll_up_loop acc = (if acc < -18 then (case scroll_up_loop (acc + 18) of (n, a) \<Rightarrow> (Suc n, a)) else (0, acc))"
  by pat_completeness auto
termination
proof (relation "measure (\<lambda>acc. nat \<lceil>- acc\<rceil>)")
  fix acc :: real
  assume "acc < - 18"
  then have "\<lceil>- (acc + 18)\<rceil> < \<lceil>- acc\<rceil>" "0 < \<lceil>- acc\<rceil>" by linarith+
  then show "(acc + 18, acc) \<in> measure (\<lambda>acc. nat \<lceil>- acc\<rceil>)" by simp
qed simp

declare scroll_down_loop.simps [simp del] scroll_up_loop.simps [simp del]

definition touchmove :: "real \<Rightarrow> real \<Rightarrow> cell option \<Rightarrow> gesture \<Rightarrow> gesture \<times> action list" where
  "touchmove x y c g0 =
     (if ge_two g0 then (g0, [PreventDefault])
      else let drift = (\<not> ge_moved g0 \<and> (\<bar>x - ge_startX g0\<bar> > 8 \<or> \<bar>y - ge_startY g0\<bar> > 8));
               g = (if drift then g0\<lparr>ge_moved := True, ge_timer := False\<rparr> else g0)
           in if ge_selecting g
              then (case (c, ge_anchor g) of
                      (Some cur, Some a) \<Rightarrow> (g\<lparr>ge_sel := Some (a, cur)\<rparr>, [SelectCells a cur, PreventDefault])
                    | _ \<Rightarrow> (g, [PreventDefault]))
              else let (n, acc1) = scroll_down_loop (ge_acc g + (y - ge_prevY g)); (m, acc2) = scroll_up_loop acc1
                   in (g\<lparr>ge_prevY := y, ge_acc := acc2, ge_scrolled := ge_scrolled g \<or> 0 < n + m\<rparr>,
                       replicate n (ScrollLine (-1)) @ replicate m (ScrollLine 1) @ (if ge_moved g then [PreventDefault] else [])))"

text \<open>\<open>left\<close> fingers remain; \<open>url\<close> is the address under the cell where the gesture began.\<close>

definition touchend :: "nat \<Rightarrow> nat \<Rightarrow> real \<Rightarrow> real \<Rightarrow> bool \<Rightarrow> string option \<Rightarrow> gesture \<Rightarrow> gesture \<times> action list" where
  "touchend now left x y hasSelection url g0 =
     (let g = g0\<lparr>ge_timer := False\<rparr>
      in if ge_two g
         then (if left = 0
               then (g\<lparr>ge_two := False\<rparr>, PreventDefault # (if int now - int (ge_two_start g) < 600 then [ClaimSize] else []))
               else (g, [PreventDefault]))
         else if ge_selecting g
         then (g\<lparr>ge_selecting := False\<rparr>,
               [PreventDefault, BlurOverlay] @
               (if hasSelection then ShowCopy x y # (case ge_sel g of None \<Rightarrow> [] | Some (s, e) \<Rightarrow> [ShowHandles s e]) else []))
         else if ge_scrolled g then (g, [])
         else case (if ge_cell g = None then None else url) of
                Some u \<Rightarrow> (g, [PreventDefault, BlurOverlay, OpenUrl u])
              | None \<Rightarrow> (g, (if hasSelection then [ClearSelection] else []) @ [HideHandles]))"

section \<open>What the gestures do\<close>

lemma scroll_down_spec: "scroll_down_loop a = (n, a') \<Longrightarrow> a' = a - 18 * real n \<and> a' \<le> 18 \<and> (0 < n \<longrightarrow> 0 < a')"
proof (induction a arbitrary: n rule: scroll_down_loop.induct)
  case (1 a)
  show ?case
  proof (cases "a > 18")
    case True
    obtain k b where r: "scroll_down_loop (a - 18) = (k, b)" by fastforce
    then have e: "n = Suc k" "a' = b" using 1(2) True by (auto simp: scroll_down_loop.simps [of a])
    then show ?thesis using 1(1) [OF True, of k] r True by (cases "k = 0") (auto simp: algebra_simps)
  next
    case False
    then show ?thesis using 1(2) by (simp add: scroll_down_loop.simps [of a])
  qed
qed

lemma scroll_up_spec: "scroll_up_loop a = (n, a') \<Longrightarrow> a' = a + 18 * real n \<and> - 18 \<le> a' \<and> (0 < n \<longrightarrow> a' < 0)"
proof (induction a arbitrary: n rule: scroll_up_loop.induct)
  case (1 a)
  show ?case
  proof (cases "a < - 18")
    case True
    obtain k b where r: "scroll_up_loop (a + 18) = (k, b)" by fastforce
    then have e: "n = Suc k" "a' = b" using 1(2) True by (auto simp: scroll_up_loop.simps [of a])
    then show ?thesis using 1(1) [OF True, of k] r True by (cases "k = 0") (auto simp: algebra_simps)
  next
    case False
    then show ?thesis using 1(2) by (simp add: scroll_up_loop.simps [of a])
  qed
qed

definition lines_scrolled :: "action list \<Rightarrow> int" where
  "lines_scrolled as = sum_list (map (\<lambda>a. case a of ScrollLine k \<Rightarrow> k | _ \<Rightarrow> 0) as)"

lemma lines_scrolled_simps [simp]:
  "lines_scrolled [] = 0" "lines_scrolled (as @ bs) = lines_scrolled as + lines_scrolled bs"
  "lines_scrolled (replicate n (ScrollLine k)) = int n * k" "lines_scrolled [PreventDefault] = 0"
  by (simp_all add: lines_scrolled_def sum_list_replicate)

lemma touchmove_scrolls:
  assumes "\<not> ge_two g" "\<not> ge_selecting g" "touchmove x y c g = (g', as)"
  shows "ge_acc g' = ge_acc g + (y - ge_prevY g) + 18 * of_int (lines_scrolled as) \<and> ge_prevY g' = y \<and>
    \<bar>ge_acc g'\<bar> \<le> 18 \<and> \<not> ge_two g' \<and> \<not> ge_selecting g' \<and> ge_scrolled g' = (ge_scrolled g \<or> lines_scrolled as \<noteq> 0)"
proof -
  obtain n a1 where d: "scroll_down_loop (ge_acc g + (y - ge_prevY g)) = (n, a1)" by fastforce
  obtain m a2 where u: "scroll_up_loop a1 = (m, a2)" by fastforce
  have one: "n = 0 \<or> m = 0"
    using scroll_down_spec [OF d] scroll_up_spec [OF u] by (cases n; cases m) auto
  have "a2 \<le> 18" using scroll_down_spec [OF d] scroll_up_spec [OF u] by (cases "m = 0") auto
  then have b: "\<bar>a2\<bar> \<le> 18" using scroll_up_spec [OF u] by auto
  have as: "lines_scrolled as = int m - int n" "ge_acc g' = a2" "ge_prevY g' = y" "\<not> ge_two g'" "\<not> ge_selecting g'"
    "ge_scrolled g' = (ge_scrolled g \<or> 0 < n + m)"
    using assms d u by (auto simp: touchmove_def Let_def split: if_splits)
  show ?thesis using as b one scroll_down_spec [OF d] scroll_up_spec [OF u] by auto
qed

text \<open>A drag: the moves of one finger, with everything they do.\<close>

fun drag :: "(real \<times> real \<times> cell option) list \<Rightarrow> gesture \<Rightarrow> gesture \<times> action list" where
  "drag [] g = (g, [])"
| "drag ((x, y, c) # ms) g =
     (let (g1, as) = touchmove x y c g; (g2, bs) = drag ms g1 in (g2, as @ bs))"

text \<open>A drag of one finger scrolls exactly by its distance: whatever its moves, the lines that were
  scrolled make up 18 pixels each of the way the finger went, with less than one line left over.\<close>

lemma drag_scrolls_exactly:
  assumes "drag ms (fst (touchstart now 1 x y c g)) = (g', as)"
  shows "ge_acc g' = (ge_prevY g' - y) + 18 * of_int (lines_scrolled as) \<and> \<bar>ge_acc g'\<bar> \<le> 18"
proof -
  have "ge_acc g' = ge_acc g0 + (ge_prevY g' - ge_prevY g0) + 18 * of_int (lines_scrolled as) \<and> \<bar>ge_acc g'\<bar> \<le> 18"
    if "drag ms g0 = (g', as)" "\<not> ge_two g0" "\<not> ge_selecting g0" "\<bar>ge_acc g0\<bar> \<le> 18" for g0
    using that
  proof (induction ms arbitrary: g0 as)
    case (Cons m ms)
    obtain mx my mc where m: "m = (mx, my, mc)" using prod_cases3 by blast
    obtain g1 bs where s1: "touchmove mx my mc g0 = (g1, bs)" by fastforce
    obtain g2 cs where s2: "drag ms g1 = (g2, cs)" by fastforce
    have e: "g' = g2" "as = bs @ cs" using Cons.prems(1) m s1 s2 by auto
    note t = touchmove_scrolls [OF Cons.prems(2,3) s1]
    show ?case using Cons.IH [of g1 cs] t s2 e by auto
  qed simp
  from this [OF assms] have "ge_acc g' = 0 + (ge_prevY g' - y) + 18 * of_int (lines_scrolled as) \<and> \<bar>ge_acc g'\<bar> \<le> 18"
    by (auto simp: touchstart_def)
  then show ?thesis unfolding add_0 .
qed

theorem drag_scrolls_exactly_witness:
  "\<exists>g' as. drag [(5, 140, None)] (fst (touchstart 0 1 5 100 None gesture_start)) = (g', as) \<and>
     ge_acc g' = (ge_prevY g' - 100) + 18 * of_int (lines_scrolled as) \<and> \<bar>ge_acc g'\<bar> \<le> 18"
proof -
  obtain g' as where "drag [(5, 140, None)] (fst (touchstart 0 1 5 100 None gesture_start)) = (g', as)" by fastforce
  with drag_scrolls_exactly [OF this] show ?thesis by blast
qed

text \<open>An address is opened by a tap only: one finger, not scrolled, nothing selected.\<close>

lemma opens_only_by_tap:
  "OpenUrl u \<in> set (snd (touchend now left x y sel url g)) \<Longrightarrow>
     \<not> ge_two g \<and> \<not> ge_selecting g \<and> \<not> ge_scrolled g \<and> url = Some u"
  by (auto simp: touchend_def Let_def split: if_splits option.splits)

text \<open>Two fingers claim the size and do nothing else.\<close>

lemma two_fingers_only_claim:
  "ge_two g \<Longrightarrow> set (snd (touchend now left x y sel url g)) \<subseteq> {PreventDefault, ClaimSize} \<and>
     snd (touchmove x y c g) = [PreventDefault]"
  by (auto simp: touchend_def touchmove_def Let_def)

section \<open>Handles and selections\<close>

definition handles_ordered :: "handles \<Rightarrow> bool" where
  "handles_ordered h = (case (hd_start h, hd_end h) of (Some s, Some e) \<Rightarrow> \<not> before e s | _ \<Rightarrow> True)"

lemma handles_never_cross:
  "handles_ordered (showHandles s e)" "handles_ordered h \<Longrightarrow> handles_ordered (drag_handle isEnd c h)"
  by (auto simp: handles_ordered_def showHandles_def drag_handle_def before_def split: option.splits)

lemma applySel_symmetric: "applySel cols a b = applySel cols b a"
  by (cases a; cases b) (auto simp: applySel_def before_def Let_def)

section \<open>Words\<close>

lemma word_start_spec:
  "word_start str a \<le> a \<and> (\<forall>i. word_start str a \<le> i \<and> i < a \<longrightarrow> \<not> is_space (str ! i)) \<and>
   (word_start str a = 0 \<or> is_space (str ! (word_start str a - 1)))"
proof (induction str a rule: word_start.induct)
  case (2 str a)
  then show ?case by (auto simp: less_Suc_eq)
qed simp

lemma word_end_spec:
  "b < length str \<Longrightarrow> b \<le> word_end str b \<and> word_end str b < length str \<and>
   (\<forall>i. b < i \<and> i \<le> word_end str b \<longrightarrow> \<not> is_space (str ! i)) \<and>
   (word_end str b + 1 = length str \<or> is_space (str ! (word_end str b + 1)))"
proof (induction str b rule: word_end.induct)
  case (1 str b)
  show ?case
  proof (cases "b + 1 < length str \<and> \<not> is_space (str ! (b + 1))")
    case True
    have "word_end str b = word_end str (b + 1)" using True by (subst word_end.simps) simp
    then show ?thesis using 1 True by (auto simp: le_less Suc_le_eq) (metis Suc_lessI)+
  next
    case False
    then have "word_end str b = b" by (subst word_end.simps) auto
    then show ?thesis using False 1(2) by auto
  qed
qed

section \<open>Wrapped lines and addresses\<close>

lemma wrap_start_in:
  "k < length para \<Longrightarrow> list_all fst (tl para) \<Longrightarrow> (pre = [] \<or> \<not> fst (hd para)) \<Longrightarrow>
     wrap_start (pre @ para @ post) (length pre + k) = length pre"
proof (induction k)
  case 0
  then show ?case by (cases pre; cases para) (auto simp: nth_append)
next
  case (Suc k)
  have "fst (para ! Suc k)" using Suc.prems(1,2) by (cases para) (auto simp: list_all_length)
  then have "fst ((pre @ para @ post) ! Suc (length pre + k))" using Suc.prems(1) by (simp add: nth_append)
  then show ?case using Suc by simp
qed

lemma wrap_run_para:
  assumes "para \<noteq> []" "list_all fst (tl para)" "post = [] \<or> \<not> fst (hd post)"
  shows "wrap_run (para @ post) = map snd para"
proof (cases para)
  case (Cons r rest)
  have "takeWhile fst (rest @ post) = rest"
    using assms(2,3) Cons by (cases post) (auto simp: takeWhile_append list_all_iff)
  then show ?thesis using Cons by (simp add: wrap_run_def)
qed (use assms in simp)

text \<open>A tap finds the whole line, however it was wrapped: a cell of any of the rows of a wrapped line
  is resolved to the rows joined, with the cell at its place in them, so an address is found
  from each of the rows it runs over.\<close>

lemma wrapped_line_joined:
  assumes "k < length para" "list_all fst (tl para)" "pre = [] \<or> \<not> fst (hd para)" "post = [] \<or> \<not> fst (hd post)"
  shows "logicalLineAt (pre @ para @ post) (length pre + k) col =
           Some (concat (map snd para), length (concat (map snd (take k para))) + col) \<and>
         urlAt (pre @ para @ post) (length pre + k) col =
           url_from (concat (map snd para)) 0 (length (concat (map snd (take k para))) + col)"
proof -
  have ne: "para \<noteq> []" using assms(1) by auto
  have "logicalLineAt (pre @ para @ post) (length pre + k) col =
           Some (concat (map snd para), length (concat (map snd (take k para))) + col)"
    using assms(1) unfolding logicalLineAt_def wrap_start_in [OF assms(1-3)]
    by (simp add: wrap_run_para [OF ne assms(2,4)] Let_def take_map)
  then show ?thesis by (simp add: urlAt_def)
qed

theorem wrapped_line_joined_witness:
  "logicalLineAt [(False, ''$ ls''), (False, ''see http:''), (True, ''//a.b/c ok''), (False, ''$'')] 2 3 =
     Some (''see http://a.b/c ok'', 12)"
  using wrapped_line_joined [of 1 "[(False, ''see http:''), (True, ''//a.b/c ok'')]" "[(False, ''$ ls'')]" "[(False, ''$'')]" 3]
  by (simp add: numeral_2_eq_2)

lemma scheme_prefix:
  assumes "starts_with w s" "m = take (length w) s @ takeWhile P (drop (length w) s)"
  shows "m = take (length m) s \<and> starts_with w m"
proof -
  obtain t where s: "s = w @ t" using assms(1) by (auto simp: starts_with_iff)
  then have m: "m = w @ takeWhile P t" using assms(2) by simp
  have "take (length m) s = w @ take (length (takeWhile P t)) t" by (simp add: s m)
  also have "\<dots> = m" by (simp add: m takeWhile_eq_take [symmetric])
  finally show ?thesis by (auto simp: m starts_with_iff)
qed

lemma scheme_lengths: "length ''http://'' = 7" "length ''https://'' = 8"
  by simp_all

lemma url_head_cases:
  assumes "url_head s = Some m"
  obtains w where "w \<in> {''http://'', ''https://''}" "starts_with w s" "m = take (length w) s @ takeWhile (\<lambda>c. \<not> url_stop c) (drop (length w) s)"
proof (cases "starts_with ''http://'' s")
  case True
  then have "m = take 7 s @ takeWhile (\<lambda>c. \<not> url_stop c) (drop 7 s)"
    using assms by (auto simp: url_head_def split: list.splits)
  then show ?thesis using that [of "''http://''"] True unfolding scheme_lengths by blast
next
  case False
  then have "starts_with ''https://'' s" "m = take 8 s @ takeWhile (\<lambda>c. \<not> url_stop c) (drop 8 s)"
    using assms by (auto simp: url_head_def split: if_splits list.splits)
  then show ?thesis using that [of "''https://''"] unfolding scheme_lengths by blast
qed

lemma url_head_prefix:
  assumes "url_head s = Some m"
  shows "m = take (length m) s \<and> (starts_with ''http://'' m \<or> starts_with ''https://'' m) \<and> 0 < length m"
  using assms
proof (cases rule: url_head_cases)
  case (1 w)
  note p = scheme_prefix [OF 1(2,3)]
  have "w \<noteq> []" using 1(1) by auto
  then have "m \<noteq> []" using p by (auto simp: starts_with_iff)
  then show ?thesis using p 1(1) by auto
qed

text \<open>What is opened is an address that covers the tapped place.\<close>

lemma url_from_covers:
  "url_from s i off = Some u \<Longrightarrow> \<exists>a m. i \<le> a \<and> a \<le> off \<and> off < a + length m \<and> take (length m) (drop a s) = m \<and>
     (starts_with ''http://'' m \<or> starts_with ''https://'' m) \<and> u = trim_url m"
proof (induction s i off rule: url_from.induct)
  case (1 s i off)
  have i: "i < length s" using 1(3) by (auto simp: url_from.simps [of s i] split: if_splits)
  show ?case
  proof (cases "url_head (drop i s)")
    case None
    then have "url_from s (i + 1) off = Some u" using 1(3) i by (simp add: url_from.simps [of s i])
    then show ?thesis using 1(1) None i by (metis (no_types, lifting) add_leD1 linorder_not_le)
  next
    case (Some m)
    note h = url_head_prefix [OF Some]
    show ?thesis
    proof (cases "i \<le> off \<and> off < i + length m")
      case True
      then have "u = trim_url m" using 1(3) Some i by (simp add: url_from.simps [of s i])
      then show ?thesis using True h by (metis order_refl)
    next
      case False
      then have "url_from s (i + length m) off = Some u" using 1(3) Some i by (auto simp: url_from.simps [of s i])
      then show ?thesis using 1(2) Some i False by (metis (no_types, lifting) add_leD1 linorder_not_le)
    qed
  qed
qed

section \<open>Typing shows the latest line\<close>

lemma returnToTypingLine_latest:
  assumes "\<not> tm_hidden t" "returnToTypingLine now t s = (s', t')"
  shows "rd_reader s' = None \<and> rd_follow s' \<and> atLatest t' \<and> \<not> tm_hidden t'"
proof (cases "rd_reader s \<noteq> None \<or> \<not> rd_follow s \<or> \<not> atLatest t")
  case True
  then have "(s', t') = armLatest now None t (clearReader (s\<lparr>rd_navigation_timer := False, rd_navigating := False, rd_dragging := False\<rparr>))"
    using assms by (simp add: returnToTypingLine_def)
  then show ?thesis using assms(1)
    by (auto simp: armLatest_def clearReader_def releaseReaderSnapshot_def revealLatest_def atLatest_def Let_def)
next
  case False
  then show ?thesis using assms by (auto simp: returnToTypingLine_def)
qed

lemma overlay_send_latest:
  "out \<noteq> [] \<Longrightarrow> \<not> tm_hidden t \<Longrightarrow> overlay_send now out t s = (s', t') \<Longrightarrow>
     rd_reader s' = None \<and> rd_follow s' \<and> atLatest t' \<and> \<not> tm_hidden t'"
proof (induction out arbitrary: s t)
  case (Cons c out)
  obtain s1 t1 where r: "returnToTypingLine now t s = (s1, t1)" by fastforce
  note l = returnToTypingLine_latest [OF Cons.prems(2) r]
  have o: "overlay_send now out t1 s1 = (s', t')" using Cons.prems(3) r by (simp add: overlay_send_def)
  show ?case
  proof (cases "out = []")
    case True
    then show ?thesis using o l by (simp add: overlay_send_def)
  next
    case False
    then show ?thesis using Cons.IH [OF False _ o] l by blast
  qed
qed simp

text \<open>On a visible terminal whatever the overlay sends, by typing, dictation or the key bar, first brings
  the terminal back to its latest line and ends a reading, and after a key of the key bar the mirror of
  the line is empty, so that the next input is compared with nothing.\<close>

lemma typing_shows_latest:
  assumes "overlay_step safety now e o1 = (o2, out)" "out \<noteq> []" "\<not> tm_hidden t"
  shows "(case overlay_send now out t s of (s', t') \<Rightarrow> rd_reader s' = None \<and> rd_follow s' \<and> atLatest t') \<and>
         (case e of OSystemKey _ \<Rightarrow> ov_value o2 = [] \<and> lastSent (ov_kbd o2) = [] \<and> timer (ov_kbd o2) = None | _ \<Rightarrow> True)"
proof -
  obtain s' t' where "overlay_send now out t s = (s', t')" by fastforce
  then have "case overlay_send now out t s of (s', t') \<Rightarrow> rd_reader s' = None \<and> rd_follow s' \<and> atLatest t'"
    using overlay_send_latest [OF assms(2,3)] by auto
  moreover have "case e of OSystemKey _ \<Rightarrow> ov_value o2 = [] \<and> lastSent (ov_kbd o2) = [] \<and> timer (ov_kbd o2) = None | _ \<Rightarrow> True"
    using assms(1,2) by (cases e) (auto simp: overlay_step_def Let_def resetBaseline_def cancel_def split: option.splits)
  ultimately show ?thesis ..
qed

definition old_line :: overlay where
  "old_line = \<lparr>ov_value = [108, 115], ov_kbd = \<lparr>lastSent = [108, 115], composing = False, timer = None\<rparr>, ov_typed = 0, ov_armed = True\<rparr>"

theorem typing_shows_latest_witness:
  "case overlay_send 9 [[3]] three_lines reading_b of (s', t') \<Rightarrow> rd_reader s' = None \<and> rd_follow s' \<and> atLatest t'"
proof -
  have o: "overlay_step 500 9 (OSystemKey ''CtrlC'') old_line = (resetBaseline 500 old_line, [[3]])"
    by (simp add: overlay_step_def KBD_KEY_BYTES_def)
  show ?thesis using typing_shows_latest [OF o, of three_lines reading_b] by (simp add: three_lines_def)
qed

end
