(* ===== verification/UsageStrips.thy ===== *)
theory UsageStrips
  imports VtPrelude JsStr
begin

text \<open>
  \<^verbatim>\<open>shell/usage-strips.js\<close>: the two strips that show how much of a plan is used, with their
  countdowns and their switches, which are changed at once and taken back when the server refuses.
  The HTML of a strip is the record of its parts; dates in the user's language are an argument.
\<close>

section \<open>Ages and countdowns\<close>

definition ageText :: "real option \<Rightarrow> string" where
  "ageText sec =
     (let m = \<lfloor>Math_round (js_or sec 0 / 60)\<rfloor>; h = m div 60
      in if m < 60 then dec_int m @ ''m''
         else if h < 48 then dec_int h @ ''h''
         else dec_int (h div 24) @ ''d'')"

definition two_digits :: "int \<Rightarrow> string" where
  "two_digits m = (if m < 10 then ''0'' else []) @ dec_int m"

text \<open>\<open>now\<close> is in whole seconds; a missing or zero time is no countdown.\<close>

definition fmtReset :: "int \<Rightarrow> int option \<Rightarrow> string" where
  "fmtReset now ts =
     (case ts of
        None \<Rightarrow> []
      | Some u \<Rightarrow>
          if u = 0 then []
          else let s = max 0 (u - now); d = s div 86400; h = s mod 86400 div 3600; m = s mod 3600 div 60
               in if d > 0 then dec_int d @ ''d '' @ dec_int h @ ''h''
                  else if h > 0 then dec_int h @ ''h '' @ two_digits m @ ''m''
                  else dec_int m @ ''m'')"

definition resetText :: "int \<Rightarrow> int option \<Rightarrow> string" where
  "resetText now ts =
     (case ts of
        None \<Rightarrow> []
      | Some u \<Rightarrow>
          if u = 0 then []
          else let sec = max 0 (u - now); d = sec div 86400; h = sec mod 86400 div 3600; m = sec mod 3600 div 60
               in if d \<noteq> 0 then dec_int d @ ''d '' @ dec_int h @ ''h''
                  else if h \<noteq> 0 then dec_int h @ ''h '' @ two_digits m @ ''m''
                  else dec_int m @ ''m'')"

record locale_dates =
  lc_weekday :: "int \<Rightarrow> string"
  lc_hour :: "int \<Rightarrow> string"
  lc_minute :: "int \<Rightarrow> string"

definition fmtResetAt :: "locale_dates \<Rightarrow> int \<Rightarrow> int option \<Rightarrow> string" where
  "fmtResetAt lc now ts =
     (case ts of
        None \<Rightarrow> []
      | Some u \<Rightarrow>
          if u = 0 then []
          else if (real_of_int u - real_of_int now) / 86400 \<ge> 1 then lc_weekday lc u @ '' '' @ lc_hour lc u
          else lc_minute lc u)"

definition resetAt :: "locale_dates \<Rightarrow> int \<Rightarrow> int option \<Rightarrow> string" where
  "resetAt lc now ts =
     (case ts of
        None \<Rightarrow> []
      | Some u \<Rightarrow>
          if u = 0 then []
          else if (real_of_int u - real_of_int now) / 86400 \<ge> 1 then lc_weekday lc u @ '' '' @ lc_hour lc u
          else lc_minute lc u)"

section \<open>Segments\<close>

datatype level = Normal | Warn | Crit

definition level_of :: "int \<Rightarrow> level" where
  "level_of p = (if p \<ge> 90 then Crit else if p \<ge> 70 then Warn else Normal)"

text \<open>The three forms of the reset time, longest first (the dot in front is left out); [] where there is none.\<close>

record segment =
  sg_label :: string
  sg_percent :: "int option"
  sg_level :: level
  sg_full :: string
  sg_mid :: string
  sg_min :: string

definition reset_forms :: "string \<Rightarrow> string \<Rightarrow> string \<times> string \<times> string" where
  "reset_forms rtxt rat =
     (if rtxt = [] then ([], [], [])
      else (''resets '' @ rtxt @ (if rat = [] then [] else '' ('' @ rat @ '')''), ''resets '' @ rtxt, rtxt))"

definition seg :: "locale_dates \<Rightarrow> int \<Rightarrow> string \<Rightarrow> real option \<Rightarrow> int option \<Rightarrow> segment" where
  "seg lc now label pct reset =
     (let p = \<lfloor>Math_round (js_or pct 0 * 100)\<rfloor>; (full, mid, mn) = reset_forms (fmtReset now reset) (fmtResetAt lc now reset)
      in \<lparr>sg_label = label, sg_percent = Some p, sg_level = level_of p, sg_full = full, sg_mid = mid, sg_min = mn\<rparr>)"

record usage_window =
  uw_pct :: "real option"
  uw_reset :: "int option"

text \<open>The Codex strip bounds the share and shows a missing reading as such.\<close>

definition codex_segment :: "locale_dates \<Rightarrow> int \<Rightarrow> string \<Rightarrow> usage_window option \<Rightarrow> segment" where
  "codex_segment lc now label value =
     (case value of
        None \<Rightarrow> \<lparr>sg_label = label, sg_percent = None, sg_level = Normal, sg_full = [], sg_mid = [], sg_min = []\<rparr>
      | Some w \<Rightarrow>
          (case uw_pct w of
             None \<Rightarrow> \<lparr>sg_label = label, sg_percent = None, sg_level = Normal, sg_full = [], sg_mid = [], sg_min = []\<rparr>
           | Some pct \<Rightarrow>
               let p = \<lfloor>Math_round (max 0 (min 1 pct) * 100)\<rfloor>;
                   (full, mid, mn) = reset_forms (resetText now (uw_reset w)) (resetAt lc now (uw_reset w))
               in \<lparr>sg_label = label, sg_percent = Some p, sg_level = level_of p, sg_full = full, sg_mid = mid, sg_min = mn\<rparr>))"

text \<open>
  The form a segment shows: \<open>over form\<close> measures whether the segment overflows with it. On a desktop
  the full form is kept; None is a hidden reset time.
\<close>

definition fitSegs :: "bool \<Rightarrow> (string \<Rightarrow> bool) \<Rightarrow> segment \<Rightarrow> string option" where
  "fitSegs narrow over sg =
     (if \<not> narrow then Some (sg_full sg)
      else let x1 = sg_full sg; x2 = (if over x1 then sg_mid sg else x1); x3 = (if over x2 then sg_min sg else x2)
           in if over x3 then None else Some x3)"

section \<open>The strips\<close>

record usage =
  us_enabled :: bool
  us_ageSec :: "real option"
  us_stale :: bool
  us_updated :: bool
  us_session :: "usage_window option"
  us_weekly :: "usage_window option"
  us_note :: string

text \<open>What \<open>{}\<close> holds before any data came.\<close>

definition no_usage :: usage where
  "no_usage = \<lparr>us_enabled = False, us_ageSec = None, us_stale = False, us_updated = False, us_session = None,
     us_weekly = None, us_note = []\<rparr>"

definition current :: "int \<Rightarrow> bool \<Rightarrow> usage_window option \<Rightarrow> bool" where
  "current now stale w =
     (case w of
        None \<Rightarrow> False
      | Some v \<Rightarrow> uw_pct v \<noteq> None \<and>
          (case uw_reset v of None \<Rightarrow> \<not> stale | Some r \<Rightarrow> if r = 0 then \<not> stale else r > now))"

datatype message = Segments "segment list" | Unavailable | Waiting | Note string

datatype description = On | Off | OperatorOnly | CouldNot nat | NotReached

record strip =
  st_enabled :: bool
  st_last :: "usage option"
  st_override :: nat
  st_hidden :: bool
  st_age :: string
  st_shown :: message
  st_desc :: description

definition strip_start :: strip where
  "strip_start = \<lparr>st_enabled = False, st_last = None, st_override = 0, st_hidden = True, st_age = [], st_shown = Waiting, st_desc = Off\<rparr>"

definition claude_shown :: "locale_dates \<Rightarrow> int \<Rightarrow> usage \<Rightarrow> message" where
  "claude_shown lc now d =
     (let hasSession = current now (us_stale d) (us_session d); hasWeekly = current now (us_stale d) (us_weekly d)
      in if hasSession \<or> hasWeekly
         then Segments
           ((case us_session d of Some w \<Rightarrow> if hasSession then [seg lc now ''session'' (uw_pct w) (uw_reset w)] else [] | None \<Rightarrow> []) @
            (case us_weekly d of Some w \<Rightarrow> if hasWeekly then [seg lc now ''week'' (uw_pct w) (uw_reset w)] else [] | None \<Rightarrow> []))
         else if us_updated d \<or> us_session d \<noteq> None \<or> us_weekly d \<noteq> None then Unavailable else Waiting)"

text \<open>The age is shown when the server calls the reading stale or it is a minute old; [] is the empty place.\<close>

definition claude_age :: "usage \<Rightarrow> string" where
  "claude_age d =
     (if us_stale d \<or> Math_round (js_or (us_ageSec d) 0 / 60) \<ge> 1 then ageText (us_ageSec d) @ '' ago'' else [])"

definition claude_render :: "locale_dates \<Rightarrow> int \<Rightarrow> usage \<Rightarrow> strip \<Rightarrow> strip" where
  "claude_render lc now d s0 =
     (let s = s0\<lparr>st_last := Some d, st_enabled := us_enabled d, st_desc := (if us_enabled d then On else Off)\<rparr>
      in if \<not> st_enabled s then s\<lparr>st_hidden := True\<rparr>
         else s\<lparr>st_hidden := False, st_age := claude_age d, st_shown := claude_shown lc now d\<rparr>)"

definition codex_shown :: "locale_dates \<Rightarrow> int \<Rightarrow> usage \<Rightarrow> message" where
  "codex_shown lc now d =
     (let hasSession = current now (us_stale d) (us_session d); hasWeekly = current now (us_stale d) (us_weekly d)
      in if hasSession \<or> hasWeekly
         then Segments
           (codex_segment lc now ''session'' (if hasSession then us_session d else None) #
            (if hasWeekly then [codex_segment lc now ''week'' (us_weekly d)] else []))
         else if us_note d \<noteq> [] then Note (us_note d)
         else if us_updated d \<or> us_session d \<noteq> None \<or> us_weekly d \<noteq> None then Unavailable else Waiting)"

definition codex_age :: "usage \<Rightarrow> string" where
  "codex_age d = (if Math_round (js_or (us_ageSec d) 0 / 60) \<ge> 1 then ageText (us_ageSec d) @ '' ago'' else [])"

definition codex_render :: "locale_dates \<Rightarrow> int \<Rightarrow> usage \<Rightarrow> strip \<Rightarrow> strip" where
  "codex_render lc now d s0 =
     (let s = s0\<lparr>st_last := Some d, st_enabled := us_enabled d, st_desc := (if us_enabled d then On else Off)\<rparr>
      in if \<not> st_enabled s then s\<lparr>st_hidden := True\<rparr>
         else s\<lparr>st_hidden := False, st_age := codex_age d, st_shown := codex_shown lc now d\<rparr>)"

section \<open>Switching\<close>

text \<open>The data last shown with another switch; \<open>draw\<close> is the strip's render.\<close>

type_synonym draw = "usage \<Rightarrow> strip \<Rightarrow> strip"

definition redraw :: "draw \<Rightarrow> bool \<Rightarrow> strip \<Rightarrow> strip" where
  "redraw draw on s = draw ((case st_last s of None \<Rightarrow> no_usage | Some d \<Rightarrow> d)\<lparr>us_enabled := on\<rparr>) s"

text \<open>Times of the switch are in milliseconds, like the clock's.\<close>

definition apply_with :: "draw \<Rightarrow> nat \<Rightarrow> bool \<Rightarrow> usage option \<Rightarrow> strip \<Rightarrow> strip" where
  "apply_with draw now on data s =
     (if now < st_override s then s
      else case data of
             Some d \<Rightarrow> draw d s
           | None \<Rightarrow> if on = st_enabled s then s else redraw draw on s)"

definition toggle_with :: "draw \<Rightarrow> nat \<Rightarrow> strip \<Rightarrow> strip \<times> bool" where
  "toggle_with draw now s = (redraw draw (\<not> st_enabled s) (s\<lparr>st_override := now + 8000\<rparr>), \<not> st_enabled s)"

definition refused_with :: "draw \<Rightarrow> bool \<Rightarrow> nat \<Rightarrow> strip \<Rightarrow> strip" where
  "refused_with draw want status s =
     (redraw draw (\<not> want) (s\<lparr>st_override := 0\<rparr>))
       \<lparr>st_desc := (if status = 403 then OperatorOnly else if status \<noteq> 0 then CouldNot status else NotReached)\<rparr>"

definition answered_with :: "draw \<Rightarrow> bool \<Rightarrow> nat option \<Rightarrow> strip \<Rightarrow> strip" where
  "answered_with draw want status s =
     (case status of
        None \<Rightarrow> refused_with draw want 0 s
      | Some c \<Rightarrow> if 200 \<le> c \<and> c \<le> 299 then s\<lparr>st_override := 0\<rparr> else refused_with draw want c s)"

definition applyServerClaudeUsage :: "locale_dates \<Rightarrow> nat \<Rightarrow> bool \<Rightarrow> usage option \<Rightarrow> strip \<Rightarrow> strip" where
  "applyServerClaudeUsage lc now = apply_with (claude_render lc (int now div 1000)) now"

definition toggleClaudeUsage :: "locale_dates \<Rightarrow> nat \<Rightarrow> strip \<Rightarrow> strip \<times> bool" where
  "toggleClaudeUsage lc now = toggle_with (claude_render lc (int now div 1000)) now"

definition claude_refused :: "locale_dates \<Rightarrow> nat \<Rightarrow> bool \<Rightarrow> nat \<Rightarrow> strip \<Rightarrow> strip" where
  "claude_refused lc now = refused_with (claude_render lc (int now div 1000))"

definition claude_answered :: "locale_dates \<Rightarrow> nat \<Rightarrow> bool \<Rightarrow> nat option \<Rightarrow> strip \<Rightarrow> strip" where
  "claude_answered lc now = answered_with (claude_render lc (int now div 1000))"

definition applyServerCodexUsage :: "locale_dates \<Rightarrow> nat \<Rightarrow> bool \<Rightarrow> usage option \<Rightarrow> strip \<Rightarrow> strip" where
  "applyServerCodexUsage lc now = apply_with (codex_render lc (int now div 1000)) now"

definition toggleCodexUsage :: "locale_dates \<Rightarrow> nat \<Rightarrow> strip \<Rightarrow> strip \<times> bool" where
  "toggleCodexUsage lc now = toggle_with (codex_render lc (int now div 1000)) now"

definition codex_refused :: "locale_dates \<Rightarrow> nat \<Rightarrow> bool \<Rightarrow> nat \<Rightarrow> strip \<Rightarrow> strip" where
  "codex_refused lc now = refused_with (codex_render lc (int now div 1000))"

definition codex_answered :: "locale_dates \<Rightarrow> nat \<Rightarrow> bool \<Rightarrow> nat option \<Rightarrow> strip \<Rightarrow> strip" where
  "codex_answered lc now = answered_with (codex_render lc (int now div 1000))"

section \<open>The levels are ordered\<close>

instantiation level :: linorder
begin

definition less_eq_level :: "level \<Rightarrow> level \<Rightarrow> bool" where
  "less_eq_level a b = (case a of Normal \<Rightarrow> True | Warn \<Rightarrow> b \<noteq> Normal | Crit \<Rightarrow> b = Crit)"

definition less_level :: "level \<Rightarrow> level \<Rightarrow> bool" where
  "less_level a b = (a \<le> b \<and> \<not> b \<le> (a :: level))"

instance
  by standard (auto simp: less_eq_level_def less_level_def split: level.splits)

end

lemma level_mono: "p \<le> q \<Longrightarrow> level_of p \<le> level_of q"
  by (auto simp: level_of_def less_eq_level_def)

lemma codex_level_bounded:
  "codex_segment lc now l v = g \<Longrightarrow> (case sg_percent g of None \<Rightarrow> True | Some p \<Rightarrow> 0 \<le> p \<and> p \<le> 100)"
proof -
  have "0 \<le> \<lfloor>Math_round (max 0 (min 1 x) * 100)\<rfloor> \<and> \<lfloor>Math_round (max 0 (min 1 x) * 100)\<rfloor> \<le> 100" for x :: real
  proof -
    have b: "0 \<le> max 0 (min 1 x) * 100" "max 0 (min 1 x) * 100 \<le> 100" by (auto simp: max_def min_def)
    have "Math_round 0 \<le> Math_round (max 0 (min 1 x) * 100)" "Math_round (max 0 (min 1 x) * 100) \<le> Math_round 100"
      using b by (auto intro: Math_round_mono)
    moreover have "Math_round 0 = 0" "Math_round 100 = 100" by (auto intro: Math_round_of_Ints)
    ultimately show ?thesis by (simp add: le_floor_iff floor_le_iff)
  qed
  moreover assume "codex_segment lc now l v = g"
  ultimately show ?thesis by (auto simp: codex_segment_def Let_def split: option.splits prod.splits)
qed

section \<open>Countdowns\<close>

lemma same_countdown: "resetText now ts = fmtReset now ts" "resetAt lc now ts = fmtResetAt lc now ts"
proof -
  have d: "0 \<le> max 0 (a :: int) div 86400" "0 \<le> max 0 a mod 86400 div 3600" for a
    by (simp_all add: pos_imp_zdiv_nonneg_iff)
  have "(max 0 (u - now) div 86400 \<noteq> 0) = (0 < max 0 (u - now) div 86400)"
    "(max 0 (u - now) mod 86400 div 3600 \<noteq> 0) = (0 < max 0 (u - now) mod 86400 div 3600)" for u
    using d [of "u - now"] by linarith+
  then show "resetText now ts = fmtReset now ts"
    by (simp add: resetText_def fmtReset_def Let_def split: option.split)
qed (simp add: resetAt_def fmtResetAt_def)

text \<open>The numbers of a countdown add up to the time left, without its last seconds.\<close>

lemma countdown_parts:
  fixes s :: int
  assumes "0 \<le> s"
  shows "s - 60 < s div 86400 * 86400 + s mod 86400 div 3600 * 3600 + s mod 3600 div 60 * 60"
    "s div 86400 * 86400 + s mod 86400 div 3600 * 3600 + s mod 3600 div 60 * 60 \<le> s"
    "s mod 86400 div 3600 < 24" "s mod 3600 div 60 < 60"
proof -
  have "s mod 86400 mod 3600 = s mod 3600" by (simp add: mod_mod_cancel)
  then have "s = s div 86400 * 86400 + s mod 86400 div 3600 * 3600 + s mod 3600 div 60 * 60 + s mod 3600 mod 60"
    by (metis (no_types, lifting) add.assoc div_mult_mod_eq)
  moreover have "0 \<le> s mod 3600 mod 60" "s mod 3600 mod 60 < 60" by simp_all
  ultimately show "s - 60 < s div 86400 * 86400 + s mod 86400 div 3600 * 3600 + s mod 3600 div 60 * 60"
    "s div 86400 * 86400 + s mod 86400 div 3600 * 3600 + s mod 3600 div 60 * 60 \<le> s" by linarith+
  have "s mod 86400 < 24 * 3600" "s mod 3600 < 60 * 60" by simp_all
  then show "s mod 86400 div 3600 < 24" "s mod 3600 div 60 < 60" by (simp_all add: div_less_iff_less_mult)
qed

text \<open>A narrow segment shows the first of its forms that fits.\<close>

lemma fitSegs_first:
  "fitSegs True over sg = find (\<lambda>f. \<not> over f) [sg_full sg, sg_mid sg, sg_min sg]"
  by (simp add: fitSegs_def Let_def)

section \<open>Refusals\<close>

text \<open>
  The data of a strip with a given switch, and the newest data the heartbeats \<open>hs\<close> bring at or after the
  time \<open>until\<close>, up to which they are put aside.
\<close>

definition with_switch :: "bool \<Rightarrow> usage option \<Rightarrow> usage" where
  "with_switch on d = (case d of None \<Rightarrow> no_usage | Some x \<Rightarrow> x)\<lparr>us_enabled := on\<rparr>"

definition newest_data :: "nat \<Rightarrow> (nat \<times> bool \<times> usage option) list \<Rightarrow> usage option \<Rightarrow> usage option" where
  "newest_data until hs = fold (\<lambda>(n, on, data) d. if n < until \<or> data = None then d else data) hs"

lemma newest_data_switch:
  "with_switch on a = with_switch on b \<Longrightarrow> with_switch on (newest_data t hs a) = with_switch on (newest_data t hs b)"
proof (induction hs arbitrary: a b)
  case (Cons h hs)
  obtain n c d where h: "h = (n, c, d)" by (cases h)
  show ?case using Cons.IH [OF Cons.prems] by (cases "n < t \<or> d = None") (auto simp: h newest_data_def)
qed (simp add: newest_data_def)

text \<open>Both renderings set the switch from the data and remember it.\<close>

locale drawing =
  fixes draw :: "int \<Rightarrow> draw"
  assumes draw_enabled: "st_enabled (draw n d s) = us_enabled d"
    and draw_last: "st_last (draw n d s) = Some d"
    and draw_override: "st_override (draw n d s) = st_override s"
    and draw_hidden: "st_hidden (draw n d s) = (\<not> us_enabled d)"
begin

lemma redraw_simps:
  "st_enabled (redraw (draw n) on s) = on" "st_override (redraw (draw n) on s) = st_override s"
  "st_last (redraw (draw n) on s) = Some ((case st_last s of None \<Rightarrow> no_usage | Some d \<Rightarrow> d)\<lparr>us_enabled := on\<rparr>)"
  "st_hidden (redraw (draw n) on s) = (\<not> on)"
  by (simp_all add: redraw_def draw_enabled draw_last draw_override draw_hidden split: option.split)

lemma heartbeats_wait:
  "list_all (\<lambda>(now, on, data). now < st_override s) hs \<Longrightarrow>
     fold (\<lambda>(now, on, data). apply_with (draw (int now div 1000)) now on data) hs s = s"
  by (induction hs) (auto simp: apply_with_def)

lemma heartbeats_data:
  "st_override (fold (\<lambda>(now, on, data). apply_with (draw (int now div 1000)) now on data) hs s) = st_override s \<and>
   with_switch on (st_last (fold (\<lambda>(now, on, data). apply_with (draw (int now div 1000)) now on data) hs s)) =
     with_switch on (newest_data (st_override s) hs (st_last s))"
proof (induction hs arbitrary: s)
  case (Cons h hs)
  obtain n b d where h: "h = (n, b, d)" by (cases h)
  let ?s = "apply_with (draw (int n div 1000)) n b d s"
  have o: "st_override ?s = st_override s"
    by (simp add: apply_with_def draw_override redraw_simps split: option.split)
  have l: "with_switch on (newest_data t hs (st_last ?s)) = with_switch on (newest_data t (h # hs) (st_last s))" if "t = st_override s" for t
  proof (cases "n < st_override s \<or> d \<noteq> None")
    case True
    then show ?thesis using that by (auto simp: h newest_data_def apply_with_def draw_last)
  next
    case False
    then have "with_switch on (st_last ?s) = with_switch on (st_last s)"
      by (simp add: apply_with_def redraw_simps with_switch_def split: option.split)
    then show ?thesis using False that newest_data_switch [of on "st_last ?s" "st_last s"] by (simp add: h newest_data_def)
  qed
  show ?case using Cons.IH [of ?s] o l [OF refl] by (simp add: h)
qed (simp add: newest_data_def)

end

interpretation claude: drawing "claude_render lc"
  by unfold_locales (simp_all add: claude_render_def Let_def)

interpretation codex: drawing "codex_render lc"
  by unfold_locales (simp_all add: codex_render_def Let_def)

text \<open>
  A switch is flipped at \<open>now\<close>, the heartbeats \<open>hs\<close> come in, and the server refuses: the state before
  the refusal, and what is left after it.
\<close>

definition switch_restored ::
  "(nat \<Rightarrow> strip \<Rightarrow> strip \<times> bool) \<Rightarrow> (nat \<Rightarrow> bool \<Rightarrow> usage option \<Rightarrow> strip \<Rightarrow> strip) \<Rightarrow> (nat \<Rightarrow> bool \<Rightarrow> nat option \<Rightarrow> strip \<Rightarrow> strip) \<Rightarrow>
   nat \<Rightarrow> (nat \<times> bool \<times> usage option) list \<Rightarrow> nat \<Rightarrow> nat option \<Rightarrow> strip \<Rightarrow> bool" where
  "switch_restored toggle heartbeat answered now hs later status s =
     (case toggle now s of
        (s1, want) \<Rightarrow>
          let s2 = fold (\<lambda>(n, on, data). heartbeat n on data) hs s1; s3 = answered later want status s2
          in want = (\<not> st_enabled s) \<and> st_enabled s1 = want \<and> (list_all (\<lambda>(n, on, data). n < now + 8000) hs \<longrightarrow> s2 = s1) \<and>
             st_enabled s3 = st_enabled s \<and> st_hidden s3 = (\<not> st_enabled s) \<and> st_override s3 = 0 \<and>
             st_last s3 = Some (with_switch (st_enabled s) (newest_data (now + 8000) hs (st_last s))) \<and>
             st_desc s3 = (case status of
                None \<Rightarrow> NotReached | Some c \<Rightarrow> if c = 403 then OperatorOnly else if c \<noteq> 0 then CouldNot c else NotReached))"

lemma restored_by_drawing:
  assumes "drawing draw" "case status of None \<Rightarrow> True | Some c \<Rightarrow> c < 200 \<or> 299 < c"
  shows "switch_restored (\<lambda>now. toggle_with (draw (int now div 1000)) now) (\<lambda>now. apply_with (draw (int now div 1000)) now)
    (\<lambda>now. answered_with (draw (int now div 1000))) now hs later status s"
proof -
  define s1 where "s1 = redraw (draw (int now div 1000)) (\<not> st_enabled s) (s\<lparr>st_override := now + 8000\<rparr>)"
  define s2 where "s2 = fold (\<lambda>(n, on, data). apply_with (draw (int n div 1000)) n on data) hs s1"
  have o1: "st_override s1 = now + 8000" "st_enabled s1 = (\<not> st_enabled s)"
    "st_last s1 = Some (with_switch (\<not> st_enabled s) (st_last s))"
    by (simp_all add: s1_def drawing.redraw_simps [OF assms(1)] with_switch_def)
  have w: "list_all (\<lambda>(n, on, data). n < now + 8000) hs \<Longrightarrow> s2 = s1"
    using drawing.heartbeats_wait [OF assms(1), of s1 hs] o1 by (simp add: s2_def)
  have "with_switch (st_enabled s) (st_last s2) = with_switch (st_enabled s) (newest_data (now + 8000) hs (st_last s1))"
    using drawing.heartbeats_data [OF assms(1), of hs s1 "st_enabled s"] by (simp add: s2_def o1)
  also have "\<dots> = with_switch (st_enabled s) (newest_data (now + 8000) hs (st_last s))"
    by (rule newest_data_switch) (simp add: o1 with_switch_def)
  finally have d: "(case st_last s2 of None \<Rightarrow> no_usage | Some x \<Rightarrow> x)\<lparr>us_enabled := st_enabled s\<rparr> =
      with_switch (st_enabled s) (newest_data (now + 8000) hs (st_last s))" by (simp add: with_switch_def)
  have r: "answered_with dr (\<not> st_enabled s) status s2 =
      refused_with dr (\<not> st_enabled s) (case status of None \<Rightarrow> 0 | Some c \<Rightarrow> c) s2" for dr
    using assms(2) by (auto simp: answered_with_def split: option.split)
  show ?thesis
    unfolding switch_restored_def toggle_with_def prod.case Let_def s1_def [symmetric] s2_def [symmetric] r refused_with_def
    using w d o1 by (auto simp: drawing.redraw_simps [OF assms(1)] split: option.split)
qed

text \<open>C39. A refused switch is taken back: when a usage strip's switch is flipped at \<open>now\<close> and no other flip of it
  happens before the answer, the strip shows the wanted position at once, and the heartbeats of the next
  8000 milliseconds change nothing. Whatever heartbeats came in, at whatever times, an answer outside
  200 to 299, or none, puts the switch and the strip back to where they were before the flip, over the newest data
  a heartbeat after those 8000 milliseconds brought, or else the data from before, lets heartbeats through
  again, and names the reason. This holds for both strips. (Two flips that are both refused do not have it:
  \<open>second_refusal_flips\<close>.)\<close>

theorem refused_switch_restored:
  assumes "case status of None \<Rightarrow> True | Some c \<Rightarrow> c < 200 \<or> 299 < c"
  shows "switch_restored (toggleClaudeUsage lc) (applyServerClaudeUsage lc) (claude_answered lc) now hs later status s \<and>
         switch_restored (toggleCodexUsage lc) (applyServerCodexUsage lc) (codex_answered lc) now hs later status s"
  unfolding toggleClaudeUsage_def [abs_def] applyServerClaudeUsage_def [abs_def] claude_answered_def [abs_def]
    toggleCodexUsage_def [abs_def] applyServerCodexUsage_def [abs_def] codex_answered_def [abs_def]
  by (intro conjI restored_by_drawing assms claude.drawing_axioms codex.drawing_axioms)

definition english :: locale_dates where
  "english = \<lparr>lc_weekday = (\<lambda>_. ''Thu''), lc_hour = (\<lambda>_. ''10 AM''), lc_minute = (\<lambda>_. ''10:00 AM'')\<rparr>"

theorem refused_switch_restored_witness:
  "switch_restored (toggleClaudeUsage english) (applyServerClaudeUsage english) (claude_answered english)
     1000 [(3000, False, None), (9500, False, Some no_usage)] 10000 (Some 403) strip_start"
  using refused_switch_restored [of "Some 403" english 1000 "[(3000, False, None), (9500, False, Some no_usage)]" 10000 strip_start] by simp

text \<open>Two refusals of two quick switches: the second one shows the switch on although the server kept it off.\<close>

lemma second_refusal_flips:
  assumes "\<not> st_enabled s" "toggleClaudeUsage lc a s = (s1, w1)" "toggleClaudeUsage lc b s1 = (s2, w2)"
  shows "st_enabled (claude_answered lc d w2 (Some 403) (claude_answered lc c w1 (Some 403) s2))"
  using assms
  by (auto simp: toggleClaudeUsage_def toggle_with_def claude_answered_def answered_with_def refused_with_def claude.redraw_simps)

end
