(* ===== verification/BlStores.thy ===== *)
theory BlStores
  imports BlWorkersProps BlCookies BlRealmProps
begin

text \<open>
  What Browser Lite keeps on disk for a user: \<^verbatim>\<open>tab-store.cjs\<close>, \<^verbatim>\<open>shortcut-store.cjs\<close>,
  \<^verbatim>\<open>prefs-store.cjs\<close>, \<^verbatim>\<open>login-import.cjs\<close> and \<^verbatim>\<open>cookie-store.cjs\<close>. Input is any JSON; a file is the
  JSON that was written last, None where there is none or it cannot be read. The byte size of a text and
  the conversion of a string or object to a number are arguments.
\<close>

section \<open>JSON\<close>

datatype json = JUndef | JNull | JBool bool | JNum real | JStr string | JArr "json list" | JObj "(string \<times> json) list"

definition jget :: "string \<Rightarrow> json \<Rightarrow> json" where
  "jget k j = (case j of JObj kvs \<Rightarrow> (case map_of kvs k of Some v \<Rightarrow> v | None \<Rightarrow> JUndef) | _ \<Rightarrow> JUndef)"

definition jobject :: "json \<Rightarrow> bool" where
  "jobject j \<longleftrightarrow> (case j of JArr _ \<Rightarrow> True | JObj _ \<Rightarrow> True | _ \<Rightarrow> False)"

definition jtruthy :: "json \<Rightarrow> bool" where
  "jtruthy j = (case j of JUndef \<Rightarrow> False | JNull \<Rightarrow> False | JBool b \<Rightarrow> b | JNum x \<Rightarrow> x \<noteq> 0 | JStr s \<Rightarrow> s \<noteq> [] | _ \<Rightarrow> True)"

text \<open>A string, cut to a length; anything else is the empty string.\<close>

definition jtext :: "nat \<Rightarrow> json \<Rightarrow> string" where
  "jtext n j = (case j of JStr s \<Rightarrow> take n s | _ \<Rightarrow> [])"

text \<open>\<open>x | 0\<close>: truncated to 32 bits with a sign; \<open>conv\<close> is the number of a string or object.\<close>

definition int32 :: "int \<Rightarrow> int" where
  "int32 k = (k + 2 ^ 31) mod 2 ^ 32 - 2 ^ 31"

definition jint :: "(json \<Rightarrow> int) \<Rightarrow> json \<Rightarrow> int" where
  "jint conv j =
     (case j of
        JUndef \<Rightarrow> 0 | JNull \<Rightarrow> 0
      | JBool b \<Rightarrow> (if b then 1 else 0)
      | JNum x \<Rightarrow> int32 (if x < 0 then \<lceil>x\<rceil> else \<lfloor>x\<rfloor>)
      | _ \<Rightarrow> int32 (conv j))"

definition last_n :: "nat \<Rightarrow> 'a list \<Rightarrow> 'a list" where "last_n n xs = drop (length xs - n) xs"

text \<open>A web address of at most 4096 characters.\<close>

definition is_web :: "string \<Rightarrow> bool" where
  "is_web s \<longleftrightarrow> length s \<le> 4096 \<and>
     (starts_with ''http://'' (toLowerCase (take 8 s)) \<or> starts_with ''https://'' (toLowerCase (take 8 s)))"

definition web :: "json \<Rightarrow> bool" where
  "web j = (case j of JStr s \<Rightarrow> is_web s | _ \<Rightarrow> False)"

definition the_str :: "json \<Rightarrow> string" where
  "the_str j = (case j of JStr s \<Rightarrow> s | _ \<Rightarrow> [])"

section \<open>Saved tabs\<close>

text \<open>The history with the position in it, where there is one.\<close>

record saved_tab =
  sv_url :: string
  sv_title :: string
  sv_history :: "((string \<times> string) list \<times> int) option"

definition MAX_TABS :: nat where "MAX_TABS = 30"
definition MAX_HISTORY :: nat where "MAX_HISTORY = 50"
definition MAX_BYTES :: nat where "MAX_BYTES = 80 * 1024"

definition clean_history :: "(json \<Rightarrow> int) \<Rightarrow> json \<Rightarrow> ((string \<times> string) list \<times> int) option" where
  "clean_history conv tab =
     (case jget ''history'' tab of
        JArr es \<Rightarrow>
          (let h = map (\<lambda>e. (the_str (jget ''url'' e), jtext 100 (jget ''documentId'' e)))
                     (last_n MAX_HISTORY (filter (\<lambda>e. web (jget ''url'' e)) es))
           in if h = [] then None
              else Some (h, min (max 0 (jint conv (jget ''position'' tab))) (int (length h) - 1)))
      | _ \<Rightarrow> None)"

definition clean_tab :: "(json \<Rightarrow> int) \<Rightarrow> json \<Rightarrow> saved_tab" where
  "clean_tab conv tab =
     \<lparr>sv_url = the_str (jget ''url'' tab), sv_title = jtext 200 (jget ''title'' tab), sv_history = clean_history conv tab\<rparr>"

text \<open>Shorten a history to \<open>keep\<close> entries around the position.\<close>

definition trim_start :: "nat \<Rightarrow> nat \<Rightarrow> int \<Rightarrow> int" where
  "trim_start keep n p = max 0 (min (p - int (keep div 2)) (int n - int keep))"

definition trim_tab :: "nat \<Rightarrow> saved_tab \<Rightarrow> saved_tab" where
  "trim_tab keep t =
     (case sv_history t of
        None \<Rightarrow> t
      | Some (h, p) \<Rightarrow>
          (let start = trim_start keep (length h) p
           in t\<lparr>sv_history := (if keep = 0 then None else Some (take keep (drop (nat start) h), p - start))\<rparr>))"

text \<open>The size of the tabs as text, and the limit it has to meet.\<close>

type_synonym tabs_size = "saved_tab list \<times> int \<Rightarrow> nat"

fun trim_histories :: "nat \<Rightarrow> tabs_size \<Rightarrow> nat list \<Rightarrow> saved_tab list \<Rightarrow> int \<Rightarrow> saved_tab list" where
  "trim_histories budget sz [] tabs active = tabs"
| "trim_histories budget sz (keep # ks) tabs active =
     (if sz (tabs, active) \<le> budget then tabs else trim_histories budget sz ks (map (trim_tab keep) tabs) active)"

fun drop_tabs :: "nat \<Rightarrow> tabs_size \<Rightarrow> saved_tab list \<Rightarrow> int \<Rightarrow> saved_tab list \<times> int" where
  "drop_tabs budget sz [] active = ([], active)"
| "drop_tabs budget sz (t # ts) active =
     (if sz (t # ts, active) > budget \<and> ts \<noteq> [] then drop_tabs budget sz ts (max 0 (active - 1)) else (t # ts, active))"

text \<open>None where the code throws.\<close>

definition clean_tabs :: "(json \<Rightarrow> int) \<Rightarrow> tabs_size \<Rightarrow> json \<Rightarrow> (saved_tab list \<times> int) option" where
  "clean_tabs conv sz input =
     (if \<not> jobject input then None
      else case jget ''tabs'' input of
             JArr ts \<Rightarrow>
               (let tabs = map (clean_tab conv) (last_n MAX_TABS (filter (\<lambda>t. web (jget ''url'' t)) ts));
                    active = min (max 0 (jint conv (jget ''active'' input))) (max 0 (int (length tabs) - 1))
                in Some (drop_tabs MAX_BYTES sz (trim_histories MAX_BYTES sz [20, 5, 0] tabs active) active))
           | _ \<Rightarrow> None)"

text \<open>What is written.\<close>

definition tab_json :: "saved_tab \<Rightarrow> json" where
  "tab_json t =
     JObj ([(''url'', JStr (sv_url t)), (''title'', JStr (sv_title t))] @
       (case sv_history t of
          None \<Rightarrow> []
        | Some (h, p) \<Rightarrow>
            [(''history'', JArr (map (\<lambda>(u, d). JObj [(''url'', JStr u), (''documentId'', JStr d)]) h)),
             (''position'', JNum (of_int p))]))"

definition tabs_json :: "real \<Rightarrow> saved_tab list \<times> int \<Rightarrow> json" where
  "tabs_json now ta =
     JObj [(''tabs'', JArr (map tab_json (fst ta))), (''active'', JNum (of_int (snd ta))), (''saved'', JNum now)]"

text \<open>The store over its file: \<open>None\<close> without a file name. Loading answers null for anything unreadable.\<close>

type_synonym store_file = "json option option"

definition tabs_load :: "(json \<Rightarrow> int) \<Rightarrow> tabs_size \<Rightarrow> store_file \<Rightarrow> (saved_tab list \<times> int) option" where
  "tabs_load conv sz f = (case f of Some (Some j) \<Rightarrow> clean_tabs conv sz j | _ \<Rightarrow> None)"

datatype 'a saving = NoFile | Invalid | Saved 'a

definition tabs_save :: "(json \<Rightarrow> int) \<Rightarrow> tabs_size \<Rightarrow> real \<Rightarrow> json \<Rightarrow> store_file \<Rightarrow> store_file \<times> (saved_tab list \<times> int) saving" where
  "tabs_save conv sz now input f =
     (if f = None then (f, NoFile)
      else case clean_tabs conv sz input of
             None \<Rightarrow> (f, Invalid)
           | Some ta \<Rightarrow> (Some (Some (tabs_json now ta)), Saved ta))"

section \<open>Shortcuts\<close>

definition MAX_SHORTCUTS :: nat where "MAX_SHORTCUTS = 24"

fun clean_shortcut_list :: "json list \<Rightarrow> string list \<Rightarrow> (string \<times> string) list \<Rightarrow> (string \<times> string) list" where
  "clean_shortcut_list [] seen out = out"
| "clean_shortcut_list (i # is') seen out =
     (if \<not> web (jget ''url'' i) \<or> the_str (jget ''url'' i) \<in> set seen then clean_shortcut_list is' seen out
      else let out' = out @ [(jtext 60 (jget ''name'' i), the_str (jget ''url'' i))]
           in if length out' \<ge> MAX_SHORTCUTS then out'
              else clean_shortcut_list is' (the_str (jget ''url'' i) # seen) out')"

text \<open>\<open>sz\<close> is the size of the text that would be written.\<close>

definition clean_shortcuts :: "((string \<times> string) list \<Rightarrow> nat) \<Rightarrow> json \<Rightarrow> (string \<times> string) list option" where
  "clean_shortcuts sz input =
     (case (case input of JArr xs \<Rightarrow> Some xs | _ \<Rightarrow> (case jget ''shortcuts'' input of JArr xs \<Rightarrow> Some xs | _ \<Rightarrow> None)) of
        None \<Rightarrow> None
      | Some xs \<Rightarrow>
          (let out = clean_shortcut_list xs [] [] in if sz out > 16 * 1024 then None else Some out))"

definition shortcuts_json :: "real \<Rightarrow> (string \<times> string) list \<Rightarrow> json" where
  "shortcuts_json now xs =
     JObj [(''shortcuts'', JArr (map (\<lambda>(n, u). JObj [(''name'', JStr n), (''url'', JStr u)]) xs)), (''saved'', JNum now)]"

definition shortcuts_load :: "((string \<times> string) list \<Rightarrow> nat) \<Rightarrow> store_file \<Rightarrow> (string \<times> string) list option" where
  "shortcuts_load sz f = (case f of Some (Some j) \<Rightarrow> clean_shortcuts sz j | _ \<Rightarrow> None)"

definition shortcuts_save ::
  "((string \<times> string) list \<Rightarrow> nat) \<Rightarrow> real \<Rightarrow> json \<Rightarrow> store_file \<Rightarrow> store_file \<times> (string \<times> string) list saving" where
  "shortcuts_save sz now input f =
     (if f = None then (f, NoFile)
      else case clean_shortcuts sz input of
             None \<Rightarrow> (f, Invalid)
           | Some xs \<Rightarrow> (Some (Some (shortcuts_json now xs)), Saved xs))"

section \<open>Preferences\<close>

text \<open>The one preference, the blocker; an array counts as an object for the inner \<open>prefs\<close> only.\<close>

definition clean_prefs :: "json \<Rightarrow> bool option" where
  "clean_prefs input =
     (case input of
        JObj _ \<Rightarrow>
          (let src = (if jobject (jget ''prefs'' input) then jget ''prefs'' input else input)
           in Some (case jget ''adblock'' src of JUndef \<Rightarrow> True | v \<Rightarrow> jtruthy v))
      | _ \<Rightarrow> None)"

definition prefs_json :: "real \<Rightarrow> bool \<Rightarrow> json" where
  "prefs_json now b = JObj [(''prefs'', JObj [(''adblock'', JBool b)]), (''saved'', JNum now)]"

definition prefs_load :: "store_file \<Rightarrow> bool" where
  "prefs_load f = (case f of Some (Some j) \<Rightarrow> (case clean_prefs j of Some b \<Rightarrow> b | None \<Rightarrow> True) | _ \<Rightarrow> True)"

definition prefs_save :: "real \<Rightarrow> json \<Rightarrow> store_file \<Rightarrow> store_file \<times> bool saving" where
  "prefs_save now input f =
     (if f = None then (f, NoFile)
      else case clean_prefs input of
             None \<Rightarrow> (f, Invalid)
           | Some b \<Rightarrow> (Some (Some (prefs_json now b)), Saved b))"

section \<open>Logins from the full browser\<close>

text \<open>A cookie as it is sent; \<open>lc_expires\<close> and \<open>lc_updated\<close> are None where they are not numbers.\<close>

record login_cookie =
  lc_name :: string
  lc_value :: string
  lc_domain :: string
  lc_path :: string
  lc_hostOnly :: bool
  lc_secure :: bool
  lc_httpOnly :: bool
  lc_sameSite :: string
  lc_expires :: "int option"
  lc_updated :: "int option"

text \<open>What is sent is a list of these, None for an entry whose name, value, domain or path is not a string.\<close>

text \<open>A cookie of the jar; without an expiry it lasts.\<close>

record jar_cookie =
  jc_key :: string
  jc_value :: string
  jc_domain :: string
  jc_path :: string
  jc_expires :: "int option"
  jc_secure :: bool
  jc_httpOnly :: bool
  jc_hostOnly :: bool
  jc_sameSite :: string
  jc_creation :: int
  jc_accessed :: int

definition control_char :: "char \<Rightarrow> bool" where
  "control_char c \<longleftrightarrow> (let k = of_char c :: nat in k < 32 \<or> k = 127)"

definition validCookie :: "login_cookie \<Rightarrow> string \<Rightarrow> bool" where
  "validCookie k host \<longleftrightarrow>
     lc_name k \<noteq> [] \<and> length (lc_name k) + length (lc_value k) \<le> 4096 \<and>
     starts_with ''/'' (lc_path k) \<and> length (lc_path k) \<le> 1024 \<and>
     \<not> list_ex (\<lambda>c. control_char c \<or> c = CHR '';'' \<or> c = CHR ''='') (lc_name k) \<and>
     \<not> list_ex (\<lambda>c. control_char c \<or> c = CHR '';'') (lc_value k) \<and>
     (let d = toLowerCase (lc_domain k)
      in if lc_hostOnly k then host = d else host = d \<or> ends_with host (CHR ''.'' # d))"

definition jar_find :: "string \<Rightarrow> string \<Rightarrow> string \<Rightarrow> jar_cookie list \<Rightarrow> jar_cookie option" where
  "jar_find d p n jar = find (\<lambda>c. jc_domain c = d \<and> jc_path c = p \<and> jc_key c = n) jar"

definition jar_put :: "jar_cookie \<Rightarrow> jar_cookie list \<Rightarrow> jar_cookie list" where
  "jar_put c jar = filter (\<lambda>o'. \<not> (jc_domain o' = jc_domain c \<and> jc_path o' = jc_path c \<and> jc_key o' = jc_key c)) jar @ [c]"

definition jar_live :: "int \<Rightarrow> jar_cookie \<Rightarrow> bool" where
  "jar_live now c = (case jc_expires c of None \<Rightarrow> True | Some e \<Rightarrow> e > now)"

definition login_as_cookie :: "int \<Rightarrow> jar_cookie option \<Rightarrow> login_cookie \<Rightarrow> jar_cookie" where
  "login_as_cookie now old k =
     \<lparr>jc_key = lc_name k, jc_value = lc_value k, jc_domain = toLowerCase (lc_domain k), jc_path = lc_path k,
      jc_expires = lc_expires k, jc_secure = lc_secure k, jc_httpOnly = lc_httpOnly k, jc_hostOnly = lc_hostOnly k,
      jc_sameSite = (if lc_sameSite k \<in> {''none'', ''lax'', ''strict''} then lc_sameSite k else ''lax''),
      jc_creation = (case old of Some c \<Rightarrow> jc_creation c | None \<Rightarrow> now), jc_accessed = now\<rparr>"

definition import_one :: "string \<Rightarrow> int \<Rightarrow> int \<Rightarrow> login_cookie \<Rightarrow> jar_cookie list \<Rightarrow> jar_cookie list \<times> bool" where
  "import_one host lastSync now k jar =
     (if \<not> validCookie k host then (jar, False)
      else if (case lc_expires k of None \<Rightarrow> False | Some e \<Rightarrow> e \<le> now) then (jar, False)
      else let old = jar_find (toLowerCase (lc_domain k)) (lc_path k) (lc_name k) jar;
               live = (case old of None \<Rightarrow> False | Some c \<Rightarrow> jar_live now c)
           in if live \<and> \<not> (case lc_updated k of None \<Rightarrow> False | Some u \<Rightarrow> u > lastSync) then (jar, False)
              else if live \<and> (case old of None \<Rightarrow> False | Some c \<Rightarrow> jc_value c = lc_value k) then (jar, False)
              else (jar_put (login_as_cookie now old k) jar, True))"

fun import_each :: "string \<Rightarrow> int \<Rightarrow> int \<Rightarrow> login_cookie option list \<Rightarrow> jar_cookie list \<Rightarrow> jar_cookie list \<times> nat" where
  "import_each host lastSync now [] jar = (jar, 0)"
| "import_each host lastSync now (k # ks) jar =
     (case (case k of None \<Rightarrow> (jar, False) | Some c \<Rightarrow> import_one host lastSync now c jar) of
        (jar1, changed) \<Rightarrow>
          (case import_each host lastSync now ks jar1 of
             (jar2, n) \<Rightarrow> (jar2, if changed then Suc n else n)))"

definition importLogins :: "platform \<Rightarrow> string \<Rightarrow> int \<Rightarrow> int \<Rightarrow> login_cookie option list \<Rightarrow> jar_cookie list \<Rightarrow> jar_cookie list \<times> nat" where
  "importLogins P address lastSync now ks jar =
     (if ks = [] then (jar, 0)
      else case pf_url P address of
             None \<Rightarrow> (jar, 0)
           | Some u \<Rightarrow>
               if u_protocol u \<notin> {''http:'', ''https:''} then (jar, 0)
               else import_each (toLowerCase (u_hostname u)) lastSync now (take 150 ks) jar)"

text \<open>When each site was synced last, oldest first.\<close>

definition MAX_SITES :: nat where "MAX_SITES = 4096"

fun sync_load :: "(string \<times> json) list \<Rightarrow> (string \<times> int) list \<Rightarrow> (string \<times> int) list" where
  "sync_load [] known = known"
| "sync_load ((sn, j) # es) known =
     (case j of
        JNum x \<Rightarrow>
          (if x \<in> \<int> \<and> \<bar>x\<bar> \<le> 2 ^ 53 - 1 \<and> length known < MAX_SITES then sync_load es (kv_set sn \<lfloor>x\<rfloor> known)
           else sync_load es known)
      | _ \<Rightarrow> sync_load es known)"

definition sync_get :: "string \<Rightarrow> (string \<times> int) list \<Rightarrow> int" where
  "sync_get s known = (case map_of known s of None \<Rightarrow> 0 | Some t \<Rightarrow> t)"

definition sync_set :: "string \<Rightarrow> int \<Rightarrow> (string \<times> int) list \<Rightarrow> (string \<times> int) list" where
  "sync_set s t known = (let ts = kv_delete s known @ [(s, t)] in drop (length ts - MAX_SITES) ts)"

definition syncLogins ::
  "platform \<Rightarrow> string \<Rightarrow> int \<Rightarrow> login_cookie option list \<Rightarrow> jar_cookie list \<times> (string \<times> int) list \<Rightarrow> (jar_cookie list \<times> (string \<times> int) list) \<times> bool" where
  "syncLogins P address now ks s =
     (case site P address of
        None \<Rightarrow> (s, False)
      | Some key \<Rightarrow>
          (case importLogins P address (sync_get key (snd s)) now ks (fst s) of
             (jar, changed) \<Rightarrow> ((jar, sync_set key now (snd s)), changed > 0)))"

section \<open>Cookie partitions\<close>

text \<open>The jars in use and those that are still as they were read.\<close>

record cookie_store =
  cs_jars :: "(string \<times> jar_cookie list) list"
  cs_saved :: "(string \<times> jar_cookie list) list"

definition partitions :: "cookie_store \<Rightarrow> string set" where
  "partitions s = fst ` set (cs_jars s) \<union> fst ` set (cs_saved s)"

text \<open>\<open>existing\<close> is the jar the caller has already, if any.\<close>

definition store_get :: "nat \<Rightarrow> string \<Rightarrow> jar_cookie list option \<Rightarrow> cookie_store \<Rightarrow> (cookie_store \<times> jar_cookie list) option" where
  "store_get maxJars key existing s =
     (case map_of (cs_jars s) key of
        Some jar \<Rightarrow> Some (s, jar)
      | None \<Rightarrow>
          if length (remdups (map fst (cs_jars s) @ map fst (cs_saved s))) \<ge> maxJars \<and> map_of (cs_saved s) key = None then None
          else let jar = (case map_of (cs_saved s) key of Some j \<Rightarrow> j | None \<Rightarrow> (case existing of Some j \<Rightarrow> j | None \<Rightarrow> []))
               in Some (\<lparr>cs_jars = cs_jars s @ [(key, jar)], cs_saved = kv_delete key (cs_saved s)\<rparr>, jar))"

text \<open>Saving loads every partition and drops the cookies that were used longest ago over the limit.\<close>

definition last_used :: "jar_cookie \<Rightarrow> int" where "last_used c = jc_accessed c"

definition all_cookies :: "(string \<times> jar_cookie list) list \<Rightarrow> (string \<times> jar_cookie) list" where
  "all_cookies jars = concat (map (\<lambda>(k, cs). map (Pair k) cs) jars)"

definition same_cookie :: "jar_cookie \<Rightarrow> jar_cookie \<Rightarrow> bool" where
  "same_cookie a b \<longleftrightarrow> jc_domain a = jc_domain b \<and> jc_path a = jc_path b \<and> jc_key a = jc_key b"

definition store_save :: "nat \<Rightarrow> cookie_store \<Rightarrow> cookie_store" where
  "store_save maxCookies s =
     (let jars = cs_jars s @ filter (\<lambda>(k, _). map_of (cs_jars s) k = None) (cs_saved s);
          sorted = sort_key (\<lambda>(_, c). last_used c) (all_cookies jars);
          gone = take (length sorted - maxCookies) sorted
      in \<lparr>cs_jars = map (\<lambda>(k, cs). (k, filter (\<lambda>c. \<not> list_ex (\<lambda>(k', c'). k' = k \<and> same_cookie c c') gone) cs)) jars,
          cs_saved = filter (\<lambda>(k, _). map_of (cs_jars s) k \<noteq> None) (cs_saved s)\<rparr>)"

section \<open>What a saved tab looks like\<close>

definition wf_entry :: "string \<times> string \<Rightarrow> bool" where
  "wf_entry e \<longleftrightarrow> is_web (fst e) \<and> length (snd e) \<le> 100"

definition wf_history :: "(string \<times> string) list \<times> int \<Rightarrow> bool" where
  "wf_history hp \<longleftrightarrow>
     fst hp \<noteq> [] \<and> length (fst hp) \<le> MAX_HISTORY \<and> list_all wf_entry (fst hp) \<and> 0 \<le> snd hp \<and> snd hp < int (length (fst hp))"

definition wf_tab :: "saved_tab \<Rightarrow> bool" where
  "wf_tab t \<longleftrightarrow> is_web (sv_url t) \<and> length (sv_title t) \<le> 200 \<and> pred_option wf_history (sv_history t)"

definition wf_tabs :: "saved_tab list \<times> int \<Rightarrow> bool" where
  "wf_tabs ta \<longleftrightarrow> length (fst ta) \<le> MAX_TABS \<and> list_all wf_tab (fst ta) \<and> 0 \<le> snd ta \<and> snd ta \<le> max 0 (int (length (fst ta)) - 1)"

lemma last_n_set: "x \<in> set (last_n n xs) \<Longrightarrow> x \<in> set xs"
  by (auto simp: last_n_def dest: in_set_dropD)

lemma last_n_length [simp]: "length (last_n n xs) = min n (length xs)"
  by (simp add: last_n_def)

lemma last_n_all [simp]: "length xs \<le> n \<Longrightarrow> last_n n xs = xs"
  by (simp add: last_n_def)

lemma jtext_length [simp]: "length (jtext n j) \<le> n"
  by (simp add: jtext_def split: json.splits)

lemma jtext_JStr [simp]: "length s \<le> n \<Longrightarrow> jtext n (JStr s) = s"
  by (simp add: jtext_def)

lemma the_str_JStr [simp]: "the_str (JStr s) = s"
  by (simp add: the_str_def)

lemma web_JStr [simp]: "web (JStr s) = is_web s"
  by (simp add: web_def)

lemma web_is_web: "web j \<Longrightarrow> is_web (the_str j)"
  by (cases j) (simp_all add: web_def the_str_def)

lemma clean_history_wf: "clean_history conv tab = Some hp \<Longrightarrow> wf_history hp"
  by (auto simp: clean_history_def wf_history_def wf_entry_def Let_def list_all_iff web_is_web MAX_HISTORY_def dest!: last_n_set
           split: json.splits if_splits)

lemma clean_tab_wf: "web (jget ''url'' t) \<Longrightarrow> wf_tab (clean_tab conv t)"
  by (cases "clean_history conv t") (simp_all add: clean_tab_def wf_tab_def web_is_web clean_history_wf)

text \<open>Shortening keeps the entry the tab is at.\<close>

lemma trim_start_bounds:
  assumes "0 \<le> p" "p < int n" "0 < keep"
  shows "0 \<le> trim_start keep n p" and "trim_start keep n p \<le> p"
    and "p - trim_start keep n p < int (min keep (n - nat (trim_start keep n p)))"
  using assms unfolding trim_start_def by linarith+

lemma trim_tab_wf: "wf_tab t \<Longrightarrow> wf_tab (trim_tab keep t)"
proof (cases "sv_history t")
  case (Some hp)
  assume wf: "wf_tab t"
  obtain h p where hp: "hp = (h, p)" by (cases hp)
  have w: "0 \<le> p" "p < int (length h)" "h \<noteq> []" "length h \<le> MAX_HISTORY" "list_all wf_entry h"
    using wf by (simp_all add: wf_tab_def wf_history_def Some hp)
  show ?thesis
  proof (cases "keep = 0")
    case False
    note b = trim_start_bounds [OF w(1,2), of keep]
    have "list_all wf_entry (take keep (drop (nat (trim_start keep (length h) p)) h))"
      using w(5) by (auto simp: list_all_iff dest!: in_set_takeD in_set_dropD)
    moreover have "take keep (drop (nat (trim_start keep (length h) p)) h) \<noteq> []" using b False w by auto
    ultimately show ?thesis
      using wf b False w by (simp add: wf_tab_def wf_history_def trim_tab_def Some hp Let_def min.commute)
  qed (use wf in \<open>simp add: wf_tab_def trim_tab_def Some hp\<close>)
qed (simp add: trim_tab_def)

lemma trim_tab_here:
  assumes "wf_tab t" "sv_history t = Some (h, p)" "sv_history (trim_tab keep t) = Some (h', p')"
  shows "h' ! nat p' = h ! nat p"
proof -
  have k: "0 < keep" using assms by (cases keep) (simp_all add: trim_tab_def Let_def)
  have w: "0 \<le> p" "p < int (length h)" using assms by (simp_all add: wf_tab_def wf_history_def)
  note b = trim_start_bounds [OF w k]
  have e: "h' = take keep (drop (nat (trim_start keep (length h) p)) h)" "p' = p - trim_start keep (length h) p"
    using assms k by (simp_all add: trim_tab_def Let_def)
  have "nat (trim_start keep (length h) p) + nat p' = nat p" using b e by linarith
  then show ?thesis using b e by (simp add: nat_less_iff)
qed

lemma trim_histories_wf: "list_all wf_tab ts \<Longrightarrow> list_all wf_tab (trim_histories budget sz ks ts a)"
  by (induction budget sz ks ts a rule: trim_histories.induct) (simp_all add: list_all_iff trim_tab_wf)

lemma trim_histories_length [simp]: "length (trim_histories budget sz ks ts a) = length ts"
  by (induction budget sz ks ts a rule: trim_histories.induct) simp_all

lemma drop_tabs_wf: "wf_tabs (ts, a) \<Longrightarrow> wf_tabs (drop_tabs budget sz ts a)"
  by (induction budget sz ts a rule: drop_tabs.induct) (auto simp: wf_tabs_def)

section \<open>Saved tabs read back\<close>

lemma int32_small: "0 \<le> k \<Longrightarrow> k < 2 ^ 31 \<Longrightarrow> int32 k = k"
  by (simp add: int32_def)

lemma jint_num [simp]: "0 \<le> k \<Longrightarrow> k < 2 ^ 31 \<Longrightarrow> jint conv (JNum (of_int k)) = k"
  by (simp add: jint_def int32_small)

lemma entry_json [simp]:
  "jget ''url'' (JObj [(''url'', JStr u), (''documentId'', JStr d)]) = JStr u"
  "jget ''documentId'' (JObj [(''url'', JStr u), (''documentId'', JStr d)]) = JStr d"
  by (simp_all add: jget_def)

lemma tab_json_get [simp]:
  "jget ''url'' (tab_json t) = JStr (sv_url t)"
  "jget ''title'' (tab_json t) = JStr (sv_title t)"
  by (simp_all add: jget_def tab_json_def)

lemma tab_json_history:
  "sv_history t = None \<Longrightarrow> jget ''history'' (tab_json t) = JUndef"
  "sv_history t = Some (h, p) \<Longrightarrow>
     jget ''history'' (tab_json t) = JArr (map (\<lambda>(u, d). JObj [(''url'', JStr u), (''documentId'', JStr d)]) h)"
  "sv_history t = Some (h, p) \<Longrightarrow> jget ''position'' (tab_json t) = JNum (of_int p)"
  by (simp_all add: jget_def tab_json_def)

lemma clean_history_json: "wf_tab t \<Longrightarrow> clean_history conv (tab_json t) = sv_history t"
proof (cases "sv_history t")
  case (Some hp)
  obtain h p where hp: "hp = (h, p)" by (cases hp)
  assume "wf_tab t"
  then have w: "h \<noteq> []" "length h \<le> MAX_HISTORY" "list_all wf_entry h" "0 \<le> p" "p < int (length h)"
    by (simp_all add: wf_tab_def wf_history_def Some hp)
  have f: "filter (\<lambda>e. web (jget ''url'' e)) (map (\<lambda>(u, d). JObj [(''url'', JStr u), (''documentId'', JStr d)]) h)
    = map (\<lambda>(u, d). JObj [(''url'', JStr u), (''documentId'', JStr d)]) h"
    using w(3) by (auto simp: filter_id_conv list_all_iff wf_entry_def)
  have m: "map ((\<lambda>e. (the_str (jget ''url'' e), jtext 100 (jget ''documentId'' e))) \<circ>
             (\<lambda>(u, d). JObj [(''url'', JStr u), (''documentId'', JStr d)])) h = h"
    using w(3) by (intro map_idI) (auto simp: list_all_iff wf_entry_def)
  have "p < 2 ^ 31" using w(2,5) by (simp add: MAX_HISTORY_def)
  then show ?thesis
    using w Some hp unfolding clean_history_def tab_json_history(2,3) [OF Some [unfolded hp]] json.case f Let_def
    by (simp add: m)
qed (simp add: clean_history_def tab_json_history)

lemma clean_tab_json [simp]: "wf_tab t \<Longrightarrow> clean_tab conv (tab_json t) = t"
  unfolding clean_tab_def by (simp add: clean_history_json) (simp add: wf_tab_def)

lemma tabs_json_get [simp]:
  "jobject (tabs_json now ta)"
  "jget ''tabs'' (tabs_json now ta) = JArr (map tab_json (fst ta))"
  "jget ''active'' (tabs_json now ta) = JNum (of_int (snd ta))"
  by (simp_all add: jget_def tabs_json_def jobject_def)

text \<open>What the budget leaves fits it, or is at most one tab without history.\<close>

definition settled :: "nat \<Rightarrow> tabs_size \<Rightarrow> saved_tab list \<times> int \<Rightarrow> bool" where
  "settled budget sz ta \<longleftrightarrow> sz ta \<le> budget \<or> (length (fst ta) \<le> 1 \<and> list_all (\<lambda>t. sv_history t = None) (fst ta))"

lemma trim_none [simp]: "sv_history t = None \<Longrightarrow> trim_tab keep t = t"
  by (simp add: trim_tab_def)

lemma trim_zero [simp]: "sv_history (trim_tab 0 t) = None"
  by (cases "sv_history t") (auto simp: trim_tab_def Let_def)

lemma trim_histories_done:
  "sz (trim_histories budget sz (ks @ [0]) ts a, a) \<le> budget \<or>
   list_all (\<lambda>t. sv_history t = None) (trim_histories budget sz (ks @ [0]) ts a)"
  by (induction ks arbitrary: ts) (auto simp: list_all_iff)

lemma drop_tabs_settled:
  "sz (ts, a) \<le> budget \<or> list_all (\<lambda>t. sv_history t = None) ts \<Longrightarrow> settled budget sz (drop_tabs budget sz ts a)"
  by (induction budget sz ts a rule: drop_tabs.induct) (auto simp: settled_def)

lemma trim_settled: "settled budget sz (ts, a) \<Longrightarrow> trim_histories budget sz ks ts a = ts"
proof (induction ks)
  case (Cons k ks)
  have "map (trim_tab k) ts = ts" if "\<not> sz (ts, a) \<le> budget"
    using Cons.prems that by (intro map_idI) (auto simp: settled_def list_all_iff)
  then show ?case using Cons by simp
qed simp

lemma drop_settled: "settled budget sz (ts, a) \<Longrightarrow> 0 \<le> a \<Longrightarrow> a \<le> max 0 (int (length ts) - 1) \<Longrightarrow> drop_tabs budget sz ts a = (ts, a)"
  by (cases ts) (auto simp: settled_def)

lemma clean_tabs_settled: "clean_tabs conv sz input = Some ta \<Longrightarrow> settled MAX_BYTES sz ta"
proof -
  assume "clean_tabs conv sz input = Some ta"
  then obtain tabs a where ta: "ta = drop_tabs MAX_BYTES sz (trim_histories MAX_BYTES sz ([20, 5] @ [0]) tabs a) a"
    unfolding clean_tabs_def Let_def by (auto split: if_splits json.splits simp del: trim_histories.simps)
  show ?thesis unfolding ta by (rule drop_tabs_settled) (rule trim_histories_done)
qed

lemma clean_tabs_wf: "clean_tabs conv sz input = Some ta \<Longrightarrow> wf_tabs ta"
proof -
  assume c: "clean_tabs conv sz input = Some ta"
  then obtain ts where j: "jobject input" "jget ''tabs'' input = JArr ts"
    by (auto simp: clean_tabs_def split: if_splits json.splits)
  define tabs where "tabs = map (clean_tab conv) (last_n MAX_TABS (filter (\<lambda>t. web (jget ''url'' t)) ts))"
  define a where "a = min (max 0 (jint conv (jget ''active'' input))) (max 0 (int (length tabs) - 1))"
  have ta: "ta = drop_tabs MAX_BYTES sz (trim_histories MAX_BYTES sz [20, 5, 0] tabs a) a"
    using c j unfolding clean_tabs_def tabs_def a_def Let_def by (simp del: trim_histories.simps)
  have "list_all wf_tab tabs"
    unfolding tabs_def by (auto simp: list_all_iff clean_tab_wf dest!: last_n_set)
  then have "wf_tabs (trim_histories MAX_BYTES sz [20, 5, 0] tabs a, a)"
    using trim_histories_wf [of tabs MAX_BYTES sz "[20, 5, 0]" a] unfolding wf_tabs_def fst_conv snd_conv trim_histories_length
    by (simp add: a_def tabs_def del: trim_histories.simps)
  from drop_tabs_wf [OF this] show ?thesis unfolding ta .
qed

text \<open>C28. What is loaded or saved as the tabs is well formed, whatever the input: at most 30 tabs with web
  addresses, an active tab among them, and for each tab no history or one of at most 50 web addresses with the
  position inside it.\<close>

theorem saved_tabs_well_formed:
  "clean_tabs conv sz input = None \<or> wf_tabs (the (clean_tabs conv sz input))"
  by (cases "clean_tabs conv sz input") (simp_all add: clean_tabs_wf)

lemma clean_tabs_json: "wf_tabs ta \<Longrightarrow> settled MAX_BYTES sz ta \<Longrightarrow> clean_tabs conv sz (tabs_json now ta) = Some ta"
proof -
  assume wf: "wf_tabs ta" and st: "settled MAX_BYTES sz ta"
  obtain ts a where ta: "ta = (ts, a)" by (cases ta)
  have w: "length ts \<le> MAX_TABS" "list_all wf_tab ts" "0 \<le> a" "a \<le> max 0 (int (length ts) - 1)"
    using wf by (simp_all add: wf_tabs_def ta)
  have f: "filter (\<lambda>t. web (jget ''url'' t)) (map tab_json ts) = map tab_json ts"
    using w(2) by (auto simp: filter_id_conv list_all_iff wf_tab_def)
  have m: "map (clean_tab conv \<circ> tab_json) ts = ts" using w(2) by (intro map_idI) (simp add: list_all_iff)
  have i: "a < 2 ^ 31" using w(1,4) by (simp add: MAX_TABS_def)
  show ?thesis
    using w i trim_settled [OF st [unfolded ta]] drop_settled [OF st [unfolded ta] w(3,4)]
    unfolding clean_tabs_def ta tabs_json_get fst_conv snd_conv json.case f Let_def
    by (simp add: m del: trim_histories.simps)
qed

text \<open>C29. What was saved is what is loaded: the same tabs, titles, histories and positions, with the same
  active tab, whatever was sent and however much of it had to be cut to fit.\<close>

theorem saved_tabs_read_back:
  "tabs_save conv sz now input (Some f) = (f', Saved ta) \<Longrightarrow> tabs_load conv' sz f' = Some ta"
  by (auto simp: tabs_save_def tabs_load_def clean_tabs_json clean_tabs_wf clean_tabs_settled split: option.splits)

theorem saved_tabs_read_back_witness:
  "tabs_load (\<lambda>_. 0) (\<lambda>_. 0)
     (fst (tabs_save (\<lambda>_. 0) (\<lambda>_. 0) 5 (JObj [(''tabs'', JArr [JObj [(''url'', JStr ''http://a/'')], JNull]), (''active'', JNum 3)]) (Some None)))
   = Some ([\<lparr>sv_url = ''http://a/'', sv_title = [], sv_history = None\<rparr>], 0)"
  by (rule saved_tabs_read_back [where conv = "\<lambda>_. 0" and now = 5 and f = None
        and input = "JObj [(''tabs'', JArr [JObj [(''url'', JStr ''http://a/'')], JNull]), (''active'', JNum 3)]"])
     (simp add: tabs_save_def clean_tabs_def jget_def jobject_def web_def is_web_def starts_with_def toLowerCase_def
        lower_char_def last_n_def MAX_TABS_def clean_tab_def clean_history_def the_str_def jtext_def jint_def int32_def MAX_BYTES_def)

section \<open>Logins the user keeps\<close>

abbreviation the_one :: "string \<Rightarrow> string \<Rightarrow> string \<Rightarrow> jar_cookie \<Rightarrow> bool" where
  "the_one d p n c \<equiv> jc_domain c = d \<and> jc_path c = p \<and> jc_key c = n"

lemma find_filter: "(\<And>x. x \<in> set xs \<Longrightarrow> P x \<Longrightarrow> Q x) \<Longrightarrow> find P (filter Q xs) = find P xs"
  by (induction xs) auto

lemma find_appended: "find P (xs @ ys) = (case find P xs of Some x \<Rightarrow> Some x | None \<Rightarrow> find P ys)"
  by (induction xs) auto

lemma jar_find_put_other:
  "\<not> the_one d p n c \<Longrightarrow> jar_find d p n (jar_put c jar) = jar_find d p n jar"
proof -
  assume d: "\<not> the_one d p n c"
  have "find (the_one d p n) (filter (\<lambda>o'. \<not> the_one (jc_domain c) (jc_path c) (jc_key c) o') jar) = find (the_one d p n) jar"
    by (rule find_filter) (use d in auto)
  moreover have "find (the_one d p n) [c] = None" using d by auto
  ultimately show ?thesis unfolding jar_find_def jar_put_def find_appended
    by (cases "find (the_one d p n) jar") simp_all
qed

lemma jar_put_in: "c \<in> set (jar_put n jar) \<Longrightarrow> c = n \<or> c \<in> set jar"
  by (auto simp: jar_put_def)

lemma jar_find_put_same: "the_one d p n c \<Longrightarrow> jar_find d p n (jar_put c jar) = Some c"
proof -
  assume d: "the_one d p n c"
  have "find (the_one d p n) (filter (\<lambda>o'. \<not> the_one (jc_domain c) (jc_path c) (jc_key c) o') jar) = None"
    using d by (auto simp: find_None_iff)
  then show ?thesis using d unfolding jar_find_def jar_put_def find_appended by simp
qed

text \<open>The sent cookie \<open>k\<close> may replace the live cookie \<open>c\<close>.\<close>

definition replaces :: "int \<Rightarrow> login_cookie \<Rightarrow> jar_cookie \<Rightarrow> bool" where
  "replaces lastSync k c \<longleftrightarrow>
     the_one (toLowerCase (lc_domain k)) (lc_path k) (lc_name k) c \<and> lc_value k \<noteq> jc_value c \<and>
     (case lc_updated k of None \<Rightarrow> False | Some u \<Rightarrow> u > lastSync)"

lemma import_one_keeps:
  assumes "jar_find d p n jar = Some c" "jar_live now c"
  shows "jar_find d p n (fst (import_one host lastSync now k jar)) = Some c \<or> replaces lastSync k c"
proof (cases "snd (import_one host lastSync now k jar)")
  case True
  then have e: "fst (import_one host lastSync now k jar)
      = jar_put (login_as_cookie now (jar_find (toLowerCase (lc_domain k)) (lc_path k) (lc_name k) jar) k) jar"
    by (auto simp: import_one_def Let_def split: if_splits)
  show ?thesis
  proof (cases "d = toLowerCase (lc_domain k) \<and> p = lc_path k \<and> n = lc_name k")
    case same: True
    have "the_one d p n c" using assms(1) by (auto simp: jar_find_def find_Some_iff)
    then show ?thesis using True same assms by (auto simp: import_one_def Let_def replaces_def split: if_splits)
  next
    case False
    then show ?thesis using assms(1) by (subst e) (auto simp: jar_find_put_other login_as_cookie_def)
  qed
qed (use assms(1) in \<open>auto simp: import_one_def Let_def split: if_splits\<close>)

lemma import_each_Some:
  "fst (import_each host lastSync now (Some k # ks) jar) = fst (import_each host lastSync now ks (fst (import_one host lastSync now k jar)))"
  by (simp add: case_prod_beta)

lemma import_each_None [simp]:
  "fst (import_each host lastSync now (None # ks) jar) = fst (import_each host lastSync now ks jar)"
  by (simp add: case_prod_beta)

lemma import_each_keeps:
  assumes "jar_find d p n jar = Some c" "jar_live now c"
  shows "jar_find d p n (fst (import_each host lastSync now ks jar)) = Some c \<or> (\<exists>k. Some k \<in> set ks \<and> replaces lastSync k c)"
  using assms
proof (induction ks arbitrary: jar)
  case (Cons k ks)
  show ?case
  proof (cases k)
    case None
    then show ?thesis using Cons by auto
  next
    case (Some k')
    from import_one_keeps [OF Cons.prems, of host lastSync k'] show ?thesis
    proof
      assume "jar_find d p n (fst (import_one host lastSync now k' jar)) = Some c"
      from Cons.IH [OF this Cons.prems(2)] show ?thesis unfolding Some import_each_Some by auto
    qed (use Some in auto)
  qed
qed simp

text \<open>A cookie the jar may hold for a host: for that host alone, or for it and what is above it.\<close>

definition cookie_for :: "string \<Rightarrow> jar_cookie \<Rightarrow> bool" where
  "cookie_for host c \<longleftrightarrow>
     (if jc_hostOnly c then host = jc_domain c else host = jc_domain c \<or> ends_with host (CHR ''.'' # jc_domain c))"

lemma import_one_for:
  "c \<in> set (fst (import_one host lastSync now k jar)) \<Longrightarrow> c \<in> set jar \<or> cookie_for host c"
  by (auto simp: import_one_def Let_def validCookie_def cookie_for_def login_as_cookie_def split: if_splits dest!: jar_put_in)

lemma import_each_for:
  "c \<in> set (fst (import_each host lastSync now ks jar)) \<Longrightarrow> c \<in> set jar \<or> cookie_for host c"
proof (induction ks arbitrary: jar)
  case (Cons k ks)
  show ?case
  proof (cases k)
    case None
    then show ?thesis using Cons by simp
  next
    case (Some k')
    from Cons.IH [OF Cons.prems [unfolded Some import_each_Some]] show ?thesis by (auto dest: import_one_for)
  qed
qed simp

lemma importLogins_each:
  assumes "pf_url P address = Some u" "u_protocol u \<in> {''http:'', ''https:''}"
  shows "fst (importLogins P address lastSync now ks jar)
    = fst (import_each (toLowerCase (u_hostname u)) lastSync now (take 150 ks) jar)"
  using assms by (auto simp: importLogins_def)

lemma importLogins_none:
  assumes "pf_url P address = None \<or> u_protocol (the (pf_url P address)) \<notin> {''http:'', ''https:''}"
  shows "importLogins P address lastSync now ks jar = (jar, 0)"
  using assms by (auto simp: importLogins_def split: option.splits)


definition kept_cookie :: jar_cookie where
  "kept_cookie = \<lparr>jc_key = ''sid'', jc_value = ''new'', jc_domain = ''a.com'', jc_path = ''/'', jc_expires = None, jc_secure = True,
     jc_httpOnly = True, jc_hostOnly = True, jc_sameSite = ''lax'', jc_creation = 6, jc_accessed = 6\<rparr>"

definition sent_cookie :: login_cookie where
  "sent_cookie = \<lparr>lc_name = ''sid'', lc_value = ''old'', lc_domain = ''a.com'', lc_path = ''/'', lc_hostOnly = True, lc_secure = True,
     lc_httpOnly = True, lc_sameSite = ''lax'', lc_expires = None, lc_updated = Some 3\<rparr>"


section \<open>The cookie file is bounded\<close>

lemma all_cookies_filter: "all_cookies (map (\<lambda>(k, cs). (k, filter (P k) cs)) jars) = filter (\<lambda>(k, c). P k c) (all_cookies jars)"
  by (induction jars) (auto simp: all_cookies_def filter_map o_def)

lemma filter_sorted_length: "mset xs = mset ys \<Longrightarrow> length (filter P xs) = length (filter P ys)"
  by (metis mset_filter size_mset)

lemma filter_rest: "(\<And>x. x \<in> set (take n xs) \<Longrightarrow> \<not> P x) \<Longrightarrow> length (filter P xs) \<le> length xs - n"
proof -
  assume "\<And>x. x \<in> set (take n xs) \<Longrightarrow> \<not> P x"
  then have "filter P (take n xs) = []" by (simp add: filter_empty_conv)
  then have "filter P xs = filter P (drop n xs)" by (metis append_take_drop_id append_Nil filter_append)
  then show ?thesis by (metis length_drop length_filter_le)
qed

abbreviation store_jars :: "cookie_store \<Rightarrow> (string \<times> jar_cookie list) list" where
  "store_jars s \<equiv> cs_jars s @ filter (\<lambda>(k, _). map_of (cs_jars s) k = None) (cs_saved s)"

text \<open>After a save the profile holds at most \<open>maxCookies\<close> cookies, counting those of the partitions that
  were not in use, and every partition is in use.\<close>

lemma saved_profile_bounded:
  "length (all_cookies (cs_jars (store_save maxCookies s))) \<le> maxCookies \<and>
   fst ` set (cs_jars (store_save maxCookies s)) = partitions s"
proof
  define all where "all = sort_key (\<lambda>(_, c). last_used c) (all_cookies (store_jars s))"
  define gone where "gone = take (length all - maxCookies) all"
  have jars: "cs_jars (store_save maxCookies s)
      = map (\<lambda>(k, cs). (k, filter (\<lambda>c. \<not> list_ex (\<lambda>(k', c'). k' = k \<and> same_cookie c c') gone) cs)) (store_jars s)"
    by (simp add: store_save_def Let_def all_def gone_def)
  define P where "P = (\<lambda>(k, c). \<not> list_ex (\<lambda>(k', c'). k' = k \<and> same_cookie c c') gone)"
  have "length (all_cookies (cs_jars (store_save maxCookies s))) = length (filter P (all_cookies (store_jars s)))"
    unfolding jars all_cookies_filter P_def ..
  also have "\<dots> = length (filter P all)" by (rule filter_sorted_length) (simp add: all_def)
  also have "\<dots> \<le> length all - (length all - maxCookies)"
    by (rule filter_rest) (force simp: P_def gone_def list_ex_iff same_cookie_def)
  finally show "length (all_cookies (cs_jars (store_save maxCookies s))) \<le> maxCookies" by linarith
  show "fst ` set (cs_jars (store_save maxCookies s)) = partitions s"
  proof -
    have "fst ` set (cs_jars (store_save maxCookies s)) = fst ` set (store_jars s)"
      unfolding jars set_map image_image by (rule image_cong) auto
    also have "\<dots> = partitions s"
      unfolding partitions_def by (auto simp: map_of_eq_None_iff image_Un split_beta image_iff) 
    finally show ?thesis .
  qed
qed

lemma sync_bounded: "length known \<le> MAX_SITES \<Longrightarrow> length (sync_load es known) \<le> MAX_SITES"
proof (induction es known rule: sync_load.induct)
  case (2 sn j es known)
  have "length (kv_set sn v known) \<le> Suc (length known)" for v :: int by (simp add: kv_set_def)
  then show ?case using 2 by (auto split: json.splits if_splits) (metis Suc_leI le_trans)+
qed simp

end
