(* ===== verification/BlJournal.thy ===== *)
theory BlJournal
  imports BlStores
begin

text \<open>
  \<^verbatim>\<open>browser-lite/proxy/document-history.js\<close>: the journal of one document. The page's own history calls
  and fragment changes become entries of a list of at most 50, and the toolbar traverses it. The native
  page (address, state, scroll position) is a record that the events change; the upstream address of a
  proxied one, its origin and its fragment, and what \<open>history.replaceState\<close> does to the page (None where it
  throws), are arguments. Identifiers are drawn from a counter.
\<close>

section \<open>The page and the journal\<close>

record 'st page =
  pg_href :: string
  pg_state :: 'st
  pg_x :: real
  pg_y :: real
  pg_restoration :: string

record 'st jentry =
  je_id :: nat
  je_url :: string
  je_physical :: string
  je_state :: 'st
  je_x :: real
  je_y :: real
  je_restoration :: string

record 'st journal =
  jn_entries :: "'st jentry list"
  jn_index :: nat
  jn_sequence :: nat
  jn_generation :: nat
  jn_depth :: int
  jn_ids :: nat

record ('st, 'a) jn_cfg =
  jc_original :: "string \<Rightarrow> string"
  jc_origin :: "string \<Rightarrow> string"
  jc_hash :: "string \<Rightarrow> string"
  jc_native :: "'a \<Rightarrow> 'st page \<Rightarrow> 'st page option"

datatype 'st jn_out = Changed string | Navigate int | PopState 'st | HashChange string string | Threw

definition maxEntries :: nat where "maxEntries = 50"

definition jn_read :: "('st, 'a) jn_cfg \<Rightarrow> nat \<Rightarrow> 'st page \<Rightarrow> 'st jentry" where
  "jn_read c i p =
     \<lparr>je_id = i, je_url = jc_original c (pg_href p), je_physical = pg_href p, je_state = pg_state p, je_x = pg_x p,
      je_y = pg_y p, je_restoration = pg_restoration p\<rparr>"

definition jn_start :: "('st, 'a) jn_cfg \<Rightarrow> 'st page \<Rightarrow> 'st journal" where
  "jn_start c p =
     \<lparr>jn_entries = [jn_read c 0 p], jn_index = 0, jn_sequence = 0, jn_generation = 0, jn_depth = 0, jn_ids = 1\<rparr>"

abbreviation jn_here :: "'st journal \<Rightarrow> 'st jentry" where
  "jn_here j \<equiv> jn_entries j ! jn_index j"

section \<open>Operations\<close>

definition saveScroll :: "'st page \<Rightarrow> 'st journal \<Rightarrow> 'st journal" where
  "saveScroll p j =
     j\<lparr>jn_entries := (jn_entries j)[jn_index j := (jn_here j)\<lparr>je_x := pg_x p, je_y := pg_y p, je_restoration := pg_restoration p\<rparr>]\<rparr>"

definition announce :: "'st journal \<Rightarrow> 'st journal" where
  "announce j = j\<lparr>jn_sequence := Suc (jn_sequence j)\<rparr>"

text \<open>A new entry takes the place of everything after the current one, and the oldest goes over the limit.\<close>

definition jn_push :: "'st jentry \<Rightarrow> 'st journal \<Rightarrow> 'st journal" where
  "jn_push e j =
     (let es = take (Suc (jn_index j)) (jn_entries j) @ [e]
      in if length es > maxEntries
         then j\<lparr>jn_entries := tl es, jn_index := length es - 2, jn_ids := Suc (jn_ids j)\<rparr>
         else j\<lparr>jn_entries := es, jn_index := length es - 1, jn_ids := Suc (jn_ids j)\<rparr>)"

definition reconcile :: "('st, 'a) jn_cfg \<Rightarrow> 'st page \<Rightarrow> 'st journal \<Rightarrow> 'st journal \<times> 'st jn_out list" where
  "reconcile c p j =
     (if pg_href p = je_physical (jn_here j) then (j, [])
      else (announce (jn_push (jn_read c (jn_ids j) p) j), [Changed ''push'']))"

datatype jn_kind = Push | Replace

definition kind_name :: "jn_kind \<Rightarrow> string" where
  "kind_name k = (case k of Push \<Rightarrow> ''push'' | Replace \<Rightarrow> ''replace'')"

text \<open>Both kinds replace the native entry, so the native history of the host page does not grow.\<close>

definition jn_mutation ::
  "('st, 'a) jn_cfg \<Rightarrow> jn_kind \<Rightarrow> 'a \<Rightarrow> 'st page \<times> 'st journal \<Rightarrow> ('st page \<times> 'st journal) \<times> 'st jn_out list" where
  "jn_mutation c kind args s =
     (let p = fst s; (j0, outs) = reconcile c p (snd s);
          j1 = (saveScroll p j0)\<lparr>jn_generation := Suc (jn_generation j0)\<rparr>
      in case jc_native c args p of
           None \<Rightarrow> ((p, j1), outs @ [Threw])
         | Some p' \<Rightarrow>
             (case kind of
                Push \<Rightarrow> ((p', announce (jn_push (jn_read c (jn_ids j1) p') j1)), outs @ [Changed (kind_name kind)])
              | Replace \<Rightarrow>
                  ((p', announce (j1\<lparr>jn_entries := (jn_entries j1)[jn_index j1 := jn_read c (je_id (jn_here j1)) p']\<rparr>)),
                   outs @ [Changed (kind_name kind)])))"

definition jn_request :: "('st, 'a) jn_cfg \<Rightarrow> int \<Rightarrow> 'st page \<times> 'st journal \<Rightarrow> ('st page \<times> 'st journal) \<times> 'st jn_out list" where
  "jn_request c delta s = (case reconcile c (fst s) (snd s) of (j, outs) \<Rightarrow> ((fst s, j), outs @ [Navigate (int32 delta)]))"

definition jn_length :: "'st journal \<Rightarrow> int" where
  "jn_length j = jn_depth j + int (length (jn_entries j))"

definition setDepth :: "int \<Rightarrow> 'st journal \<Rightarrow> 'st journal" where
  "setDepth d j = (if 0 \<le> d \<and> d \<le> 10000 then j\<lparr>jn_depth := d\<rparr> else j)"

record jn_snapshot =
  ss_sequence :: nat
  ss_index :: nat
  ss_entries :: "(nat \<times> string) list"

definition jn_view :: "'st journal \<Rightarrow> jn_snapshot" where
  "jn_view j = \<lparr>ss_sequence = jn_sequence j, ss_index = jn_index j, ss_entries = map (\<lambda>e. (je_id e, je_url e)) (jn_entries j)\<rparr>"

definition snapshot :: "('st, 'a) jn_cfg \<Rightarrow> 'st page \<Rightarrow> 'st journal \<Rightarrow> 'st journal \<times> 'st jn_out list \<times> jn_snapshot" where
  "snapshot c p j = (case reconcile c p j of (j', outs) \<Rightarrow> (j', outs, jn_view j'))"

text \<open>The scroll position that a traversal restores at the next frame, if nothing happened since.\<close>

record restore =
  rs_generation :: nat
  rs_target :: nat
  rs_before :: "real \<times> real"
  rs_desired :: "real \<times> real"

fun index_of :: "nat \<Rightarrow> 'st jentry list \<Rightarrow> nat option" where
  "index_of i [] = None"
| "index_of i (e # es) = (if je_id e = i then Some 0 else map_option Suc (index_of i es))"

definition jn_traverse ::
  "('st, 'a) jn_cfg \<Rightarrow> nat \<Rightarrow> nat \<Rightarrow> 'st page \<times> 'st journal \<Rightarrow> ('st page \<times> 'st journal) \<times> 'st jn_out list \<times> restore option" where
  "jn_traverse c basis target s =
     (let p = fst s; (j, outs) = reconcile c p (snd s); sync = ((p, announce j), outs @ [Changed ''sync''], None)
      in if je_id (jn_here j) \<noteq> basis then sync
         else case index_of target (jn_entries j) of
           None \<Rightarrow> sync
         | Some next_i \<Rightarrow>
             if next_i = jn_index j then sync
             else let j1 = (saveScroll p j)\<lparr>jn_generation := Suc (jn_generation j)\<rparr>;
                      old = jn_here j1; t = jn_entries j1 ! next_i
                  in if jc_origin c (je_physical t) \<noteq> jc_origin c (pg_href p) then ((p, j1), outs @ [Threw], None)
                     else ((p\<lparr>pg_href := je_physical t, pg_state := je_state t, pg_restoration := je_restoration t\<rparr>,
                            announce (j1\<lparr>jn_index := next_i\<rparr>)),
                           outs @ [Changed ''traverse'', PopState (je_state t)] @
                             (if jc_hash c (je_url old) \<noteq> jc_hash c (je_url t) then [HashChange (je_url old) (je_url t)] else []),
                           if je_restoration t = ''auto''
                           then Some \<lparr>rs_generation = jn_generation j1, rs_target = je_id t, rs_before = (pg_x p, pg_y p),
                                      rs_desired = (je_x t, je_y t)\<rparr>
                           else None))"

definition jn_restore :: "restore \<Rightarrow> 'st page \<times> 'st journal \<Rightarrow> 'st page \<times> 'st journal" where
  "jn_restore r s =
     (let p = fst s; j = snd s
      in if rs_generation r = jn_generation j \<and> je_id (jn_here j) = rs_target r \<and> pg_restoration p = ''auto'' \<and>
            (pg_x p, pg_y p) = rs_before r
         then (p\<lparr>pg_x := fst (rs_desired r), pg_y := snd (rs_desired r)\<rparr>, j) else s)"

section \<open>Events\<close>

text \<open>\<open>Moved\<close> is any change of the native page: scrolling, a fragment link, an assignment of \<open>location.hash\<close>.\<close>

datatype ('st, 'a) jn_event =
    Moved "'st page" | Clicked | HashChanged | Scrolled | Touched
  | State jn_kind 'a | Go int | Snapshot | Depth int | Traverse nat nat | Restored restore

fun jn_step :: "('st, 'a) jn_cfg \<Rightarrow> ('st, 'a) jn_event \<Rightarrow> 'st page \<times> 'st journal \<Rightarrow> 'st page \<times> 'st journal" where
  "jn_step c (Moved p') s = (p', snd s)"
| "jn_step c Clicked s = (fst s, saveScroll (fst s) (snd s))"
| "jn_step c HashChanged s = (fst s, fst (reconcile c (fst s) (snd s)))"
| "jn_step c Scrolled s = (fst s, if pg_href (fst s) = je_physical (jn_here (snd s)) then saveScroll (fst s) (snd s) else snd s)"
| "jn_step c Touched s = (fst s, (snd s)\<lparr>jn_generation := Suc (jn_generation (snd s))\<rparr>)"
| "jn_step c (State k a) s = fst (jn_mutation c k a s)"
| "jn_step c (Go d) s = fst (jn_request c d s)"
| "jn_step c Snapshot s = (fst s, fst (snapshot c (fst s) (snd s)))"
| "jn_step c (Depth d) s = (fst s, setDepth d (snd s))"
| "jn_step c (Traverse b t) s = fst (jn_traverse c b t s)"
| "jn_step c (Restored r) s = jn_restore r s"

inductive jn_reach :: "('st, 'a) jn_cfg \<Rightarrow> 'st page \<times> 'st journal \<Rightarrow> bool" for c where
  start: "jn_reach c (p, jn_start c p)"
| step: "jn_reach c s \<Longrightarrow> jn_reach c (jn_step c e s)"

section \<open>The journal stays well formed\<close>

definition jn_ok :: "'st journal \<Rightarrow> bool" where
  "jn_ok j \<longleftrightarrow>
     jn_index j < length (jn_entries j) \<and> length (jn_entries j) \<le> maxEntries \<and>
     distinct (map je_id (jn_entries j)) \<and> (\<forall>e \<in> set (jn_entries j). je_id e < jn_ids j)"

lemma saveScroll_ids [simp]:
  "map je_id (jn_entries (saveScroll p j)) = map je_id (jn_entries j)"
  "map je_url (jn_entries (saveScroll p j)) = map je_url (jn_entries j)"
  "map je_physical (jn_entries (saveScroll p j)) = map je_physical (jn_entries j)"
  "length (jn_entries (saveScroll p j)) = length (jn_entries j)"
  by (simp_all add: saveScroll_def map_update) (metis list_update_id map_update)+

lemma saveScroll_same [simp]:
  "jn_index (saveScroll p j) = jn_index j" "jn_ids (saveScroll p j) = jn_ids j"
  "jn_sequence (saveScroll p j) = jn_sequence j" "jn_generation (saveScroll p j) = jn_generation j"
  by (simp_all add: saveScroll_def)

lemma announce_simps [simp]:
  "jn_entries (announce j) = jn_entries j" "jn_index (announce j) = jn_index j" "jn_ids (announce j) = jn_ids j"
  "jn_sequence (announce j) = Suc (jn_sequence j)" "jn_generation (announce j) = jn_generation j"
  by (simp_all add: announce_def)

text \<open>All that depends on the identifiers only is kept where they are.\<close>

lemma jn_ok_ids:
  assumes "jn_ok j" "map je_id (jn_entries j') = map je_id (jn_entries j)" "jn_index j' < length (jn_entries j)" "jn_ids j \<le> jn_ids j'"
  shows "jn_ok j'"
proof -
  have "length (jn_entries j') = length (jn_entries j)" using assms(2) by (metis length_map)
  moreover have "je_id ` set (jn_entries j') = je_id ` set (jn_entries j)" using assms(2) by (metis set_map)
  ultimately show ?thesis using assms unfolding jn_ok_def by (metis (no_types, lifting) image_iff order_less_le_trans)
qed

lemma jn_push_ok: "jn_ok j \<Longrightarrow> je_id e = jn_ids j \<Longrightarrow> jn_ok (jn_push e j)"
proof -
  assume ok: "jn_ok j" and e: "je_id e = jn_ids j"
  define ks where "ks = take (Suc (jn_index j)) (jn_entries j)"
  have below: "\<forall>x \<in> set ks. je_id x < jn_ids j" using ok by (auto simp: ks_def jn_ok_def dest: in_set_takeD)
  have "distinct (map je_id ks)" using ok by (simp add: ks_def jn_ok_def take_map [symmetric])
  with below e have "distinct (map je_id (ks @ [e]))" by auto
  with below have ks: "length ks = Suc (jn_index j)" "length ks \<le> maxEntries" "distinct (map je_id (ks @ [e]))"
      "\<forall>x \<in> set ks. je_id x < jn_ids j"
    using ok by (simp_all add: ks_def jn_ok_def)
  have "distinct (map je_id (tl (ks @ [e])))" using ks(1,3) by (cases ks) auto
  moreover have "\<forall>x \<in> set (tl (ks @ [e])). je_id x < Suc (jn_ids j)" using ks(1,4) e by (cases ks) auto
  ultimately show ?thesis
    using ks e unfolding jn_push_def ks_def [symmetric] Let_def by (auto simp: jn_ok_def)
qed

lemma jn_push_simps [simp]:
  "jn_sequence (jn_push e j) = jn_sequence j" "jn_generation (jn_push e j) = jn_generation j"
  "jn_ids (jn_push e j) = Suc (jn_ids j)"
  by (simp_all add: jn_push_def Let_def)

lemma jn_read_simps [simp]:
  "je_id (jn_read c i p) = i" "je_url (jn_read c i p) = jc_original c (pg_href p)" "je_physical (jn_read c i p) = pg_href p"
  by (simp_all add: jn_read_def)

lemma jn_ok_announce [simp]: "jn_ok (announce j) = jn_ok j"
  by (simp add: jn_ok_def)

lemma jn_ok_generation [simp]: "jn_ok (j\<lparr>jn_generation := g\<rparr>) = jn_ok j"
  by (simp add: jn_ok_def)

lemma saveScroll_ok [simp]: "jn_ok j \<Longrightarrow> jn_ok (saveScroll p j)"
  by (rule jn_ok_ids [of j]) (simp_all add: jn_ok_def)

lemma reconcile_ok: "jn_ok j \<Longrightarrow> jn_ok (fst (reconcile c p j))"
  by (simp add: reconcile_def jn_push_ok)

lemma index_of_Some: "index_of i es = Some n \<Longrightarrow> n < length es \<and> je_id (es ! n) = i"
  by (induction es arbitrary: n) (auto split: if_splits)

lemma index_of_None: "index_of i es = None \<longleftrightarrow> i \<notin> je_id ` set es"
  by (induction es) auto

lemma jn_mutation_ok: "jn_ok (snd s) \<Longrightarrow> jn_ok (snd (fst (jn_mutation c k a s)))"
proof -
  assume ok: "jn_ok (snd s)"
  define j1 where "j1 = (saveScroll (fst s) (fst (reconcile c (fst s) (snd s))))\<lparr>jn_generation := Suc (jn_generation (fst (reconcile c (fst s) (snd s))))\<rparr>"
  have j1: "jn_ok j1" unfolding j1_def using reconcile_ok [OF ok, of c "fst s"] by simp
  then have "jn_ok (j1\<lparr>jn_entries := (jn_entries j1)[jn_index j1 := jn_read c (je_id (jn_here j1)) p']\<rparr>)" for p'
    by (rule jn_ok_ids) (use j1 in \<open>simp_all add: map_update jn_ok_def\<close>, metis list_update_id map_update nth_map)
  then show ?thesis
    using j1 jn_push_ok [OF j1] unfolding jn_mutation_def Let_def case_prod_beta j1_def [symmetric]
    by (cases k) (auto split: option.splits)
qed

lemma jn_traverse_ok: "jn_ok (snd s) \<Longrightarrow> jn_ok (snd (fst (jn_traverse c b t s)))"
proof -
  assume ok: "jn_ok (snd s)"
  define j where "j = fst (reconcile c (fst s) (snd s))"
  have j: "jn_ok j" unfolding j_def by (rule reconcile_ok [OF ok])
  have "n < length (jn_entries j) \<Longrightarrow> jn_ok ((saveScroll (fst s) j)\<lparr>jn_generation := g, jn_index := n\<rparr>)" for n g
    using saveScroll_ok [OF j, of "fst s"] by (rule jn_ok_ids) simp_all
  then show ?thesis
    using j unfolding jn_traverse_def Let_def case_prod_beta j_def [symmetric]
    by (auto dest: index_of_Some split: option.splits)
qed

lemma jn_step_ok: "jn_ok (snd s) \<Longrightarrow> jn_ok (snd (jn_step c e s))"
proof (cases e)
  case (Restored r)
  assume "jn_ok (snd s)"
  then show ?thesis unfolding Restored by (simp add: jn_restore_def Let_def)
next
  case (Depth d)
  assume "jn_ok (snd s)"
  then show ?thesis unfolding Depth by (simp add: setDepth_def jn_ok_def)
qed (simp_all add: jn_mutation_ok jn_traverse_ok reconcile_ok jn_request_def snapshot_def case_prod_beta)

lemma jn_reach_ok: "jn_reach c s \<Longrightarrow> jn_ok (snd s)"
  by (induction rule: jn_reach.induct) (simp_all add: jn_step_ok, simp add: jn_ok_def jn_start_def maxEntries_def)

section \<open>The history of a browser\<close>

text \<open>What a document's history is: the entries behind, nearest first, the one shown, and those ahead. An
  entry is its identifier, its address and the address it is served at.\<close>

type_synonym z_entry = "nat \<times> string \<times> string"

record zipper =
  z_past :: "z_entry list"
  z_here :: z_entry
  z_future :: "z_entry list"

definition z_push :: "z_entry \<Rightarrow> zipper \<Rightarrow> zipper" where
  "z_push e z = \<lparr>z_past = take (maxEntries - 1) (z_here z # z_past z), z_here = e, z_future = []\<rparr>"

definition z_seek :: "nat \<Rightarrow> zipper \<Rightarrow> zipper" where
  "z_seek t z =
     (let past = dropWhile (\<lambda>e. fst e \<noteq> t) (z_past z); ahead = dropWhile (\<lambda>e. fst e \<noteq> t) (z_future z)
      in if past \<noteq> []
         then \<lparr>z_past = tl past, z_here = hd past,
               z_future = rev (takeWhile (\<lambda>e. fst e \<noteq> t) (z_past z)) @ z_here z # z_future z\<rparr>
         else if ahead \<noteq> []
         then \<lparr>z_past = rev (takeWhile (\<lambda>e. fst e \<noteq> t) (z_future z)) @ z_here z # z_past z, z_here = hd ahead, z_future = tl ahead\<rparr>
         else z)"

definition z_read :: "('st, 'a) jn_cfg \<Rightarrow> nat \<Rightarrow> 'st page \<Rightarrow> z_entry" where
  "z_read c i p = (i, jc_original c (pg_href p), pg_href p)"

text \<open>A native change of the address is a push; \<open>n\<close> is the next identifier.\<close>

definition z_sync :: "('st, 'a) jn_cfg \<Rightarrow> 'st page \<Rightarrow> zipper \<times> nat \<Rightarrow> zipper \<times> nat" where
  "z_sync c p zn =
     (if pg_href p = snd (snd (z_here (fst zn))) then zn else (z_push (z_read c (snd zn) p) (fst zn), Suc (snd zn)))"

fun z_step :: "('st, 'a) jn_cfg \<Rightarrow> 'st page \<Rightarrow> ('st, 'a) jn_event \<Rightarrow> zipper \<times> nat \<Rightarrow> zipper \<times> nat" where
  "z_step c p (State k a) zn =
     (case (z_sync c p zn, jc_native c a p) of
        (zn', None) \<Rightarrow> zn'
      | ((z, n), Some p') \<Rightarrow>
          (case k of Push \<Rightarrow> (z_push (z_read c n p') z, Suc n) | Replace \<Rightarrow> (z\<lparr>z_here := z_read c (fst (z_here z)) p'\<rparr>, n)))"
| "z_step c p (Traverse b t) zn =
     (case z_sync c p zn of
        (z, n) \<Rightarrow>
          if fst (z_here z) = b \<and> jc_origin c (snd (snd (z_here (z_seek t z)))) = jc_origin c (pg_href p) then (z_seek t z, n)
          else (z, n))"
| "z_step c p HashChanged zn = z_sync c p zn"
| "z_step c p Snapshot zn = z_sync c p zn"
| "z_step c p (Go d) zn = z_sync c p zn"
| "z_step c p e zn = zn"

definition jn_entry :: "'st jentry \<Rightarrow> z_entry" where
  "jn_entry e = (je_id e, je_url e, je_physical e)"

definition z_at :: "z_entry list \<Rightarrow> nat \<Rightarrow> zipper" where
  "z_at es i = \<lparr>z_past = rev (take i es), z_here = es ! i, z_future = drop (Suc i) es\<rparr>"

definition jn_zipper :: "'st journal \<Rightarrow> zipper" where
  "jn_zipper j = z_at (map jn_entry (jn_entries j)) (jn_index j)"

definition jn_abs :: "'st journal \<Rightarrow> zipper \<times> nat" where
  "jn_abs j = (jn_zipper j, jn_ids j)"

lemma jn_entry_saveScroll [simp]: "map jn_entry (jn_entries (saveScroll p j)) = map jn_entry (jn_entries j)"
  by (simp add: saveScroll_def map_update) (metis jn_entry_def jentry.select_convs(1-3) jentry.surjective jentry.update_convs(5-7) list_update_id nth_map map_update)

lemma z_at_push:
  assumes "i < length es" "length es \<le> maxEntries"
  shows "z_push e (z_at es i) =
    (let ks = take (Suc i) es @ [e] in if length ks > maxEntries then z_at (tl ks) (length ks - 2) else z_at ks (length ks - 1))"
proof -
  have t: "take (Suc i) es = take i es @ [es ! i]" using assms(1) by (simp add: take_Suc_conv_app_nth)
  show ?thesis
  proof (cases "Suc i < maxEntries")
    case True
    then show ?thesis using assms t by (simp add: z_push_def z_at_def Let_def min_def nth_append)
  next
    case False
    then have i: "Suc i = maxEntries" using assms by linarith
    then have e: "Suc i = length es" using assms by linarith
    obtain x bs b where es: "es = x # bs @ [b]"
      using e i by (cases es; cases "tl es" rule: rev_cases) (auto simp: maxEntries_def)
    have l: "length bs = 48" "maxEntries = 50" "i = 49" using i e es by (simp_all add: maxEntries_def)
    show ?thesis unfolding es l z_push_def z_at_def Let_def by (simp add: l nth_append)
  qed
qed

lemma dropWhile_to: "t \<notin> fst ` set as \<Longrightarrow> dropWhile (\<lambda>e. fst e \<noteq> t) (as @ bs) = dropWhile (\<lambda>e. fst e \<noteq> t) bs"
  by (induction as) auto

lemma takeWhile_to: "t \<notin> fst ` set as \<Longrightarrow> takeWhile (\<lambda>e. fst e \<noteq> t) (as @ bs) = as @ takeWhile (\<lambda>e. fst e \<noteq> t) bs"
  by (induction as) auto

lemma dropWhile_none: "t \<notin> fst ` set as \<Longrightarrow> dropWhile (\<lambda>e. fst e \<noteq> t) as = []"
  using dropWhile_to [of t as "[]"] by simp

lemma split_at_two:
  assumes "n < i" "i < length es"
  obtains as x bs y cs where "es = as @ x # bs @ y # cs" "length as = n" "Suc (length as + length bs) = i"
proof -
  have "es = take n es @ es ! n # drop (Suc n) es" using assms by (simp add: id_take_nth_drop)
  moreover have "drop (Suc n) es = take (i - Suc n) (drop (Suc n) es) @ es ! i # drop (Suc i) es"
    using assms id_take_nth_drop [of "i - Suc n" "drop (Suc n) es"] by (simp add: add.commute)
  ultimately have "es = take n es @ es ! n # take (i - Suc n) (drop (Suc n) es) @ es ! i # drop (Suc i) es" by simp
  from this show ?thesis by (rule that) (use assms in simp_all)
qed

lemma z_seek_at:
  assumes d: "distinct (map fst es)" and i: "i < length es" and n: "n < length es" and t: "fst (es ! n) = t"
  shows "z_seek t (z_at es i) = z_at es n"
proof (cases n i rule: linorder_cases)
  case less
  obtain as x bs y cs where s: "es = as @ x # bs @ y # cs" "length as = n" "Suc (length as + length bs) = i"
    using split_at_two [OF less i] .
  then have x: "t = fst x" using t by (simp add: nth_append)
  have nb: "fst x \<notin> fst ` set (rev bs)" using d unfolding s x by auto
  have z: "z_at es i = \<lparr>z_past = rev bs @ x # rev as, z_here = y, z_future = cs\<rparr>"
    using s by (auto simp: z_at_def nth_append)
  show ?thesis unfolding z z_seek_def x using s
    by (simp add: dropWhile_to [OF nb] takeWhile_to [OF nb] z_at_def nth_append Let_def)
next
  case equal
  have no: "t \<notin> fst ` set (rev (take i es))" "t \<notin> fst ` set (drop (Suc i) es)"
  proof -
    have "distinct (map fst (take i es @ es ! i # drop (Suc i) es))" using d id_take_nth_drop [OF i] by simp
    then show "t \<notin> fst ` set (rev (take i es))" "t \<notin> fst ` set (drop (Suc i) es)"
      using t unfolding equal by (auto simp del: append_take_drop_id)
  qed
  show ?thesis unfolding z_seek_def z_at_def zipper.select_convs dropWhile_none [OF no(1)] dropWhile_none [OF no(2)]
    using equal by (simp add: Let_def)
next
  case greater
  obtain as y bs x cs where s: "es = as @ y # bs @ x # cs" "length as = i" "Suc (length as + length bs) = n"
    using split_at_two [OF greater n] .
  then have x: "t = fst x" using t by (auto simp: nth_append)
  have nb: "fst x \<notin> fst ` set bs" and na: "fst x \<notin> fst ` set (rev as)" using d unfolding s x by auto
  have z: "z_at es i = \<lparr>z_past = rev as, z_here = y, z_future = bs @ x # cs\<rparr>"
    using s by (auto simp: z_at_def nth_append)
  show ?thesis unfolding z z_seek_def x using s
    by (auto simp: dropWhile_none [OF na] dropWhile_to [OF nb] takeWhile_to [OF nb] z_at_def nth_append Let_def)
qed

lemma z_seek_absent:
  assumes "t \<notin> fst ` set es" "i < length es" shows "z_seek t (z_at es i) = z_at es i"
proof -
  have no: "t \<notin> fst ` set (rev (take i es))" "t \<notin> fst ` set (drop (Suc i) es)"
    using assms by (auto dest: in_set_takeD in_set_dropD)
  show ?thesis unfolding z_seek_def z_at_def zipper.select_convs dropWhile_none [OF no(1)] dropWhile_none [OF no(2)]
    by (simp add: Let_def)
qed

section \<open>The journal is that history\<close>

lemma jn_here_abs: "jn_ok j \<Longrightarrow> z_here (jn_zipper j) = jn_entry (jn_here j)"
  by (simp add: jn_zipper_def z_at_def jn_ok_def)

lemma jn_push_abs: "jn_ok j \<Longrightarrow> jn_zipper (jn_push e j) = z_push (jn_entry e) (jn_zipper j)"
  using z_at_push [of "jn_index j" "map jn_entry (jn_entries j)" "jn_entry e"]
  by (auto simp: jn_zipper_def jn_push_def jn_ok_def Let_def take_map map_tl split: if_splits)

lemma jn_entry_read [simp]: "jn_entry (jn_read c i p) = z_read c i p"
  by (simp add: jn_entry_def z_read_def)

lemma announce_abs [simp]: "jn_zipper (announce j) = jn_zipper j"
  by (simp add: jn_zipper_def)

lemma reconcile_abs: "jn_ok j \<Longrightarrow> jn_abs (fst (reconcile c p j)) = z_sync c p (jn_abs j)"
  by (simp add: jn_abs_def reconcile_def z_sync_def jn_here_abs jn_push_abs) (simp add: jn_entry_def)

lemma saveScroll_abs [simp]: "jn_zipper (saveScroll p j) = jn_zipper j"
  by (simp add: jn_zipper_def)

lemma generation_abs [simp]: "jn_zipper (j\<lparr>jn_generation := g\<rparr>) = jn_zipper j" "jn_zipper (j\<lparr>jn_depth := d\<rparr>) = jn_zipper j"
  by (simp_all add: jn_zipper_def)

lemma jn_replace_abs:
  "jn_ok j \<Longrightarrow> jn_zipper (j\<lparr>jn_entries := (jn_entries j)[jn_index j := e]\<rparr>) = (jn_zipper j)\<lparr>z_here := jn_entry e\<rparr>"
  by (simp add: jn_zipper_def z_at_def jn_ok_def map_update)

lemma jn_seek_abs:
  assumes "jn_ok j"
  shows "z_seek t (jn_zipper j) =
    (case index_of t (jn_entries j) of None \<Rightarrow> jn_zipper j | Some n \<Rightarrow> z_at (map jn_entry (jn_entries j)) n)"
proof (cases "index_of t (jn_entries j)")
  case None
  then have "t \<notin> fst ` set (map jn_entry (jn_entries j))" by (auto simp: index_of_None jn_entry_def)
  then show ?thesis using assms None by (simp add: jn_zipper_def z_seek_absent jn_ok_def)
next
  case (Some n)
  have "map fst (map jn_entry (jn_entries j)) = map je_id (jn_entries j)" by (simp add: jn_entry_def)
  then show ?thesis
    using assms Some index_of_Some [OF Some] unfolding jn_zipper_def Some option.case
    by (intro z_seek_at) (simp_all add: jn_ok_def jn_entry_def del: map_map)
qed

lemma mutation_abs:
  assumes "jn_ok (snd s)" shows "jn_abs (snd (fst (jn_mutation c k a s))) = z_step c (fst s) (State k a) (jn_abs (snd s))"
proof -
  obtain j0 outs where r: "reconcile c (fst s) (snd s) = (j0, outs)" by fastforce
  have j0: "jn_ok j0" and a0: "z_sync c (fst s) (jn_zipper (snd s), jn_ids (snd s)) = (jn_zipper j0, jn_ids j0)"
    using reconcile_ok [OF assms, of c "fst s"] reconcile_abs [OF assms, of c "fst s"] r by (simp_all add: jn_abs_def)
  define j1 where "j1 = (saveScroll (fst s) j0)\<lparr>jn_generation := Suc (jn_generation j0)\<rparr>"
  have j1: "jn_ok j1" "jn_zipper j1 = jn_zipper j0" "jn_ids j1 = jn_ids j0" unfolding j1_def using j0 by simp_all
  have h: "je_id (jn_here j1) = fst (z_here (jn_zipper j0))"
    using jn_here_abs [OF j1(1)] j1(2) by (simp add: jn_entry_def)
  show ?thesis
    using jn_push_abs [OF j1(1)] jn_replace_abs [OF j1(1)] j1 h
    unfolding jn_mutation_def Let_def r prod.case j1_def [symmetric]
    by (cases k) (simp_all add: a0 jn_abs_def split: option.splits)
qed

lemma traverse_abs:
  assumes "jn_ok (snd s)" shows "jn_abs (snd (fst (jn_traverse c b t s))) = z_step c (fst s) (Traverse b t) (jn_abs (snd s))"
proof -
  obtain j outs where r: "reconcile c (fst s) (snd s) = (j, outs)" by fastforce
  have j: "jn_ok j" and a: "z_sync c (fst s) (jn_zipper (snd s), jn_ids (snd s)) = (jn_zipper j, jn_ids j)"
    using reconcile_ok [OF assms, of c "fst s"] reconcile_abs [OF assms, of c "fst s"] r by (simp_all add: jn_abs_def)
  have h: "fst (z_here (jn_zipper j)) = je_id (jn_here j)" using jn_here_abs [OF j] by (simp add: jn_entry_def)
  then have h': "fst (z_here (z_at (map jn_entry (jn_entries j)) (jn_index j))) = je_id (jn_here j)" by (simp add: jn_zipper_def)
  have same: "jn_zipper j = z_at (map jn_entry (jn_entries j)) (jn_index j)" by (simp add: jn_zipper_def)
  have ph: "je_physical (jn_entries (saveScroll p j) ! n) = je_physical (jn_entries j ! n)" if "n < length (jn_entries j)" for p n
    using that by (metis nth_map saveScroll_ids(3,4))
  have z: "snd (snd (z_here (z_at (map jn_entry (jn_entries j)) n))) = je_physical (jn_entries j ! n)" if "n < length (jn_entries j)" for n
    using that by (simp add: z_at_def jn_entry_def)
  have m: "jn_zipper ((saveScroll p j)\<lparr>jn_generation := g, jn_index := n\<rparr>) = z_at (map jn_entry (jn_entries j)) n" for p g n
    by (simp add: jn_zipper_def)
  show ?thesis
    using jn_seek_abs [OF j, of t] same
    unfolding jn_traverse_def Let_def r prod.case
    by (auto simp: a h h' m z ph jn_abs_def dest: index_of_Some split: option.splits)
qed

text \<open>C16. The journal a page keeps is a browser's history: in every reachable state, each event changes it as
  it changes the entries behind, at and ahead of the document. A new entry drops those ahead and, beyond 50,
  the oldest; a replacement keeps its identifier; a native change of the address is a new entry; a traversal
  moves to the entry it names when it was asked from the current one, and is refused otherwise.\<close>

theorem journal_is_browser_history:
  assumes "jn_reach c s"
  shows "jn_abs (snd (jn_step c e s)) = z_step c (fst s) e (jn_abs (snd s))"
proof (cases e)
  case (Restored r)
  then show ?thesis by (simp add: jn_restore_def Let_def)
next
  case (Depth d)
  then show ?thesis by (simp add: setDepth_def jn_abs_def)
next
  case (Go d)
  then show ?thesis using reconcile_abs [OF jn_reach_ok [OF assms]] by (simp add: jn_request_def case_prod_beta)
next
  case (State k a)
  then show ?thesis using mutation_abs [OF jn_reach_ok [OF assms], of c k a] by (simp del: z_step.simps)
next
  case (Traverse b t)
  then show ?thesis using traverse_abs [OF jn_reach_ok [OF assms], of c b t] by (simp del: z_step.simps)
next
  case Snapshot
  then show ?thesis using reconcile_abs [OF jn_reach_ok [OF assms]] by (simp add: snapshot_def case_prod_beta)
qed (use jn_reach_ok [OF assms] in
      \<open>simp_all add: jn_abs_def reconcile_abs [unfolded jn_abs_def]\<close>)

definition demo_jn :: "(nat, string) jn_cfg" where
  "demo_jn = \<lparr>jc_original = id, jc_origin = take 8, jc_hash = (\<lambda>u. []), jc_native = (\<lambda>u p. Some (p\<lparr>pg_href := u\<rparr>))\<rparr>"

definition demo_page :: "nat page" where
  "demo_page = \<lparr>pg_href = ''http://a/1'', pg_state = 0, pg_x = 0, pg_y = 0, pg_restoration = ''auto''\<rparr>"

theorem journal_is_browser_history_witness:
  "jn_zipper (snd (jn_step demo_jn (State Push ''http://a/2'') (demo_page, jn_start demo_jn demo_page)))
   = \<lparr>z_past = [(0, ''http://a/1'', ''http://a/1'')], z_here = (1, ''http://a/2'', ''http://a/2''), z_future = []\<rparr>"
  using journal_is_browser_history [OF jn_reach.start [of demo_jn demo_page], of "State Push ''http://a/2''"]
  by (simp add: jn_abs_def jn_zipper_def jn_start_def z_sync_def z_at_def jn_entry_def jn_read_def z_push_def z_read_def maxEntries_def
        demo_page_def demo_jn_def)

section \<open>Changes are announced\<close>

definition jn_ahead :: "'st journal \<Rightarrow> 'st journal \<Rightarrow> bool" where
  "jn_ahead j j' \<longleftrightarrow> jn_view j' = jn_view j \<or> jn_sequence j < jn_sequence j'"

lemma jn_ahead_trans: "jn_ahead a b \<Longrightarrow> jn_ahead b d \<Longrightarrow> jn_ahead a d"
  by (auto simp: jn_ahead_def jn_view_def)

lemma jn_ahead_same: "map (\<lambda>e. (je_id e, je_url e)) (jn_entries j') = map (\<lambda>e. (je_id e, je_url e)) (jn_entries j) \<Longrightarrow>
    jn_index j' = jn_index j \<Longrightarrow> jn_sequence j' = jn_sequence j \<Longrightarrow> jn_ahead j j'"
  by (simp add: jn_ahead_def jn_view_def)

lemma saveScroll_view [simp]:
  "map (\<lambda>e. (je_id e, je_url e)) (jn_entries (saveScroll p j)) = map (\<lambda>e. (je_id e, je_url e)) (jn_entries j)"
  by (simp add: saveScroll_def map_update) (metis (mono_tags, lifting) list_update_id map_update)

lemma reconcile_ahead: "jn_ahead j (fst (reconcile c p j))"
  by (simp add: reconcile_def jn_ahead_def)

lemma sequence_ahead: "jn_sequence j < jn_sequence j' \<Longrightarrow> jn_ahead j j'"
  by (simp add: jn_ahead_def)

lemma saveScroll_ahead: "jn_ahead j (saveScroll p j)" "jn_ahead j ((saveScroll p j)\<lparr>jn_generation := g\<rparr>)"
  by (rule jn_ahead_same, simp_all)+

lemma reconcile_sequence: "jn_sequence j \<le> jn_sequence (fst (reconcile c p j))"
  by (simp add: reconcile_def)

lemma mutation_ahead: "jn_ahead (snd s) (snd (fst (jn_mutation c k a s)))"
proof (cases "jc_native c a (fst s)")
  case None
  have "snd (fst (jn_mutation c k a s)) = (saveScroll (fst s) (fst (reconcile c (fst s) (snd s))))
      \<lparr>jn_generation := Suc (jn_generation (fst (reconcile c (fst s) (snd s))))\<rparr>"
    by (simp add: jn_mutation_def case_prod_beta Let_def None)
  then show ?thesis using jn_ahead_trans [OF reconcile_ahead saveScroll_ahead(2)] by metis
next
  case (Some p')
  show ?thesis using reconcile_sequence [of "snd s" c "fst s"]
    by (intro sequence_ahead) (simp add: jn_mutation_def case_prod_beta Let_def Some split: jn_kind.splits)
qed

lemma traverse_ahead: "jn_ahead (snd s) (snd (fst (jn_traverse c b t s)))"
proof -
  define j where "j = fst (reconcile c (fst s) (snd s))"
  have j: "jn_ahead (snd s) j" "jn_sequence (snd s) \<le> jn_sequence j"
    unfolding j_def by (rule reconcile_ahead reconcile_sequence)+
  have "jn_ahead (snd s) ((saveScroll (fst s) j)\<lparr>jn_generation := g\<rparr>)" for g
    using j(1) saveScroll_ahead(2) by (rule jn_ahead_trans)
  then show ?thesis
    using j(2) unfolding jn_traverse_def Let_def case_prod_beta j_def [symmetric]
    by (auto intro: sequence_ahead split: option.splits)
qed

lemma step_ahead: "jn_ahead (snd s) (snd (jn_step c e s))"
  by (cases e) (auto simp: mutation_ahead traverse_ahead reconcile_ahead jn_request_def snapshot_def case_prod_beta saveScroll_ahead
      jn_restore_def setDepth_def Let_def intro: jn_ahead_same)

text \<open>C31. Whatever happens to a page, its journal cannot change behind the toolbar's back: two reports with the
  same number show the same entries and position, and any other report has a higher number.\<close>

theorem changes_are_announced:
  "let j = snd s; j' = snd (foldl (\<lambda>s e. jn_step c e s) s es)
   in jn_view j' = jn_view j \<or> jn_sequence j < jn_sequence j'"
proof -
  have "jn_ahead (snd s) (snd (foldl (\<lambda>s e. jn_step c e s) s es))"
  proof (induction es arbitrary: s)
    case (Cons e es)
    from jn_ahead_trans [OF step_ahead Cons.IH] show ?case unfolding foldl_Cons .
  qed (simp add: jn_ahead_same)
  then show ?thesis by (simp add: jn_ahead_def)
qed

end
