(* ===== verification/BlController.thy ===== *)
theory BlController
  imports BlControl BlStores
begin

text \<open>
  \<^verbatim>\<open>browser-lite/proxy/trusted-controller.js\<close>: the toolbar's side of one tab. It queues numbered commands for
  the server, keeps the one that has no answer yet, loads the entries the server gives it into the frame,
  and checks every message of the page. What runs between two requests is one step; random identifiers are
  drawn from a supply \<open>uuid\<close>; a parsed address and its \<open>href\<close> come from the platform.
\<close>

section \<open>State\<close>

record doc_report =
  hr_doc :: string
  hr_sequence :: int
  hr_index :: int
  hr_entries :: "(string \<times> string) list"

text \<open>What the tab shows: the server's answer, and what the page reported about itself.\<close>

record shown =
  sh_tab :: string
  sh_epoch :: int
  sh_entry :: string
  sh_origin :: string
  sh_url :: string
  sh_title :: string
  sh_history :: "doc_report option"
  sh_kind :: string
  sh_blocked :: bool
  sh_failed :: bool
  sh_failure :: string

text \<open>An approval remembers the tab, epoch and sequence it was asked in.\<close>

datatype task = TOpen string nat | TApprove string string int nat | TRetry | TClose

text \<open>
  \<open>ct_running\<close> is the task that awaits an answer, whether it sent its own command already or recovers an
  earlier one first, and the request under way.
\<close>

record ctl =
  ct_client :: string
  ct_tab :: string
  ct_ids :: nat
  ct_operation :: int
  ct_pending :: "command option"
  ct_sequence :: nat
  ct_server :: "opened option"
  ct_state :: "shown option"
  ct_expired :: bool
  ct_nonce :: "string option"
  ct_doc :: "string option"
  ct_historySequence :: int
  ct_ready :: bool
  ct_approving :: bool
  ct_traversal :: "string option"
  ct_lastEntry :: "string option"
  ct_src :: "string option"
  ct_requested :: string
  ct_queue :: "task list"
  ct_running :: "(task \<times> bool \<times> command) option"

datatype popup = NamedPopup string string | HeldPopup int

datatype post = Attach | TraverseTo string string string string

datatype ctl_out =
    Request command | OnState shown bool | OnError | OnHistory int | OnOpen string "popup option" | OnClose "int option"
  | Post post string | FreshFrame | SetSrc string | ReplaceWith string | Traversed bool

record ctl_env =
  ce_uuid :: "nat \<Rightarrow> string"
  ce_platform :: platform
  ce_href :: "string \<Rightarrow> string"

type_synonym ctl_step = "ctl \<Rightarrow> ctl \<times> ctl_out list"

text \<open>One step after another.\<close>

definition and_then :: "ctl_step \<Rightarrow> ctl_step \<Rightarrow> ctl_step" where
  "and_then f g s = (case f s of (s1, o1) \<Rightarrow> (case g s1 of (s2, o2) \<Rightarrow> (s2, o1 @ o2)))"

definition origin_of :: "ctl_env \<Rightarrow> string \<Rightarrow> string option" where
  "origin_of E s = map_option u_origin (pf_url (ce_platform E) s)"

definition ctl_new :: "ctl_env \<Rightarrow> string option \<Rightarrow> ctl" where
  "ctl_new E src =
     \<lparr>ct_client = ce_uuid E 0, ct_tab = ce_uuid E 1, ct_ids = 2, ct_operation = 0, ct_pending = None, ct_sequence = 0,
      ct_server = None, ct_state = None, ct_expired = False, ct_nonce = None, ct_doc = None, ct_historySequence = 0,
      ct_ready = False, ct_approving = False, ct_traversal = None, ct_lastEntry = None, ct_src = src, ct_requested = [],
      ct_queue = [], ct_running = None\<rparr>"

section \<open>Commands\<close>

definition cancelTraversal :: ctl_step where
  "cancelTraversal s = (if ct_traversal s = None then (s, []) else (s\<lparr>ct_traversal := None\<rparr>, [Traversed False]))"

definition expire :: "ctl_env \<Rightarrow> ctl_step" where
  "expire E s =
     (case cancelTraversal (s\<lparr>ct_sequence := Suc (ct_sequence s)\<rparr>) of
        (s1, outs) \<Rightarrow>
          (s1\<lparr>ct_client := ce_uuid E (ct_ids s1), ct_tab := ce_uuid E (Suc (ct_ids s1)), ct_ids := ct_ids s1 + 2,
              ct_operation := 0, ct_pending := None, ct_server := None, ct_expired := True\<rparr>, outs))"

text \<open>Send a new command; it is pending until an answer settles it.\<close>

definition issue :: "string \<Rightarrow> control_body \<Rightarrow> ctl_step" where
  "issue name body s =
     (let q = \<lparr>cm_name = name, cm_body = body, cm_client = ct_client s, cm_operation = ct_operation s + 1, cm_owner = None\<rparr>
      in (s\<lparr>ct_operation := ct_operation s + 1, ct_pending := Some q\<rparr>, [Request q]))"

text \<open>An answer of the server, a refusal that is definitive (and may reset the tab), or no answer at all.\<close>

datatype answer = Answer control_result | Refusal bool | Lost

definition settle :: "ctl_env \<Rightarrow> command \<Rightarrow> answer \<Rightarrow> ctl \<Rightarrow> ctl \<times> ctl_out list \<times> control_result option" where
  "settle E q a s =
     (case a of
        Answer r \<Rightarrow>
          if ct_pending s \<noteq> Some q then (s, [], None)
          else (case r of
                  Entry o' \<Rightarrow> (s\<lparr>ct_pending := None, ct_server := Some o'\<rparr>, [], Some r)
                | Closed \<Rightarrow> (s\<lparr>ct_pending := None\<rparr>, [], Some r))
      | Refusal reset \<Rightarrow>
          (let s1 = s\<lparr>ct_pending := None\<rparr> in if reset then (case expire E s1 of (s2, outs) \<Rightarrow> (s2, outs, None)) else (s1, [], None))
      | Lost \<Rightarrow> (s, [], None))"

section \<open>The frame\<close>

definition current_entry :: "ctl \<Rightarrow> string option" where
  "current_entry s = (case ct_lastEntry s of Some e \<Rightarrow> Some e | None \<Rightarrow> ct_src s)"

definition freshFrame :: ctl_step where
  "freshFrame s = (if current_entry s = None then (s, []) else (s\<lparr>ct_lastEntry := None, ct_src := None\<rparr>, [FreshFrame]))"

definition shown_of :: "opened \<Rightarrow> shown" where
  "shown_of o' =
     \<lparr>sh_tab = on_tabId o', sh_epoch = on_epoch o', sh_entry = on_entry o', sh_origin = on_origin o', sh_url = on_url o',
      sh_title = [], sh_history = None, sh_kind = [], sh_blocked = False, sh_failed = False, sh_failure = []\<rparr>"

definition load_entry :: "string \<Rightarrow> ctl_step" where
  "load_entry e s =
     (if current_entry s = Some e then (s, [])
      else if current_entry s \<noteq> None then (s\<lparr>ct_lastEntry := Some e\<rparr>, [ReplaceWith e])
      else (s\<lparr>ct_src := Some e, ct_lastEntry := Some e\<rparr>, [SetSrc e]))"

text \<open>The flag says that it did not throw.\<close>

definition activate :: "ctl_env \<Rightarrow> opened \<Rightarrow> bool \<Rightarrow> ctl \<Rightarrow> ctl \<times> ctl_out list \<times> bool" where
  "activate E o' fresh s =
     (case cancelTraversal s of
        (s1, o1) \<Rightarrow>
          if origin_of E (on_entry o') \<noteq> Some (on_origin o') then (s1, o1, False)
          else let s2 = s1\<lparr>ct_state := Some (shown_of o'), ct_server := Some o', ct_expired := False, ct_nonce := None,
                           ct_doc := None, ct_historySequence := -1, ct_ready := False\<rparr>
               in (case and_then (if fresh then freshFrame else (\<lambda>s. (s, []))) (load_entry (on_entry o')) s2 of
                     (s3, o3) \<Rightarrow> (s3, o1 @ [OnState (shown_of o') True] @ o3, True)))"

section \<open>The queue\<close>

definition body_of :: "string \<Rightarrow> string \<Rightarrow> int \<Rightarrow> opener \<Rightarrow> string \<Rightarrow> control_body" where
  "body_of address i e op ch = \<lparr>cb_url = address, cb_tabId = Some i, cb_epoch = Some e, cb_opener = op, cb_challenge = ch\<rparr>"

definition open_body :: "string \<Rightarrow> int option \<Rightarrow> ctl \<Rightarrow> control_body" where
  "open_body address opener s =
     (let op = (case opener of Some n \<Rightarrow> if n \<ge> 0 then Integer n else Undefined | None \<Rightarrow> Undefined)
      in case ct_server s of
           Some o' \<Rightarrow> body_of address (on_tabId o') (on_epoch o' + 1) op []
         | None \<Rightarrow> body_of address (ct_tab s) 1 op [])"

text \<open>A task ends: an approval lets the next one in, and reports its error where the tab is still the same.\<close>

definition same_page :: "string \<Rightarrow> int \<Rightarrow> nat \<Rightarrow> ctl \<Rightarrow> bool" where
  "same_page i e q s \<longleftrightarrow> q = ct_sequence s \<and> (case ct_state s of None \<Rightarrow> False | Some p \<Rightarrow> sh_tab p = i \<and> sh_epoch p = e)"

definition end_task :: "task \<Rightarrow> bool \<Rightarrow> ctl_step" where
  "end_task t ok s =
     (let s1 = s\<lparr>ct_running := None\<rparr>
      in case t of
           TApprove ch i e q \<Rightarrow> (s1\<lparr>ct_approving := False\<rparr>, if \<not> ok \<and> same_page i e q s then [OnError] else [])
         | _ \<Rightarrow> (s1, []))"

definition issue_for :: "task \<Rightarrow> string \<Rightarrow> control_body \<Rightarrow> ctl_step" where
  "issue_for t name body =
     and_then (issue name body) (\<lambda>s. (s\<lparr>ct_running := map_option (\<lambda>q. (t, True, q)) (ct_pending s)\<rparr>, []))"

text \<open>The task goes on after \<open>recover\<close>; \<open>r\<close> is what that gave.\<close>

definition approve_next :: "ctl_env \<Rightarrow> task \<Rightarrow> ctl_step" where
  "approve_next E t s =
     (case t of
        TApprove ch i e q \<Rightarrow>
          if q \<noteq> ct_sequence s \<or> (case ct_server s of None \<Rightarrow> True | Some o' \<Rightarrow> on_tabId o' \<noteq> i \<or> on_epoch o' \<noteq> e)
          then end_task t True s
          else issue_for t ''approve'' (body_of [] i e Undefined ch) s
      | _ \<Rightarrow> (s, []))"

definition go_on :: "ctl_env \<Rightarrow> int option \<Rightarrow> task \<Rightarrow> control_result option \<Rightarrow> ctl_step" where
  "go_on E opener t r s =
     (case t of
        TOpen address q \<Rightarrow> issue_for t ''open'' (open_body address opener s) s
      | TApprove ch i e q \<Rightarrow>
          (case r of
             Some (Entry o') \<Rightarrow>
               if q = ct_sequence s
               then (case activate E o' False s of
                       (s1, o1, ok) \<Rightarrow>
                         (case (if ok then approve_next E t s1 else end_task t False s1) of (s2, o2) \<Rightarrow> (s2, o1 @ o2)))
               else approve_next E t s
           | _ \<Rightarrow> approve_next E t s)
      | TRetry \<Rightarrow>
          (case r of
             Some (Entry o') \<Rightarrow>
               (case activate E o' False s of (s1, o1, ok) \<Rightarrow> (case end_task t ok s1 of (s2, o2) \<Rightarrow> (s2, o1 @ o2)))
           | _ \<Rightarrow> end_task t True s)
      | TClose \<Rightarrow>
          (case ct_server s of
             Some o' \<Rightarrow> issue_for t ''close'' (body_of [] (on_tabId o') (on_epoch o') Undefined []) s
           | None \<Rightarrow> end_task t True s))"

text \<open>The next task of the queue begins; a pending command is sent again first.\<close>

definition begin_task :: "ctl_env \<Rightarrow> int option \<Rightarrow> ctl_step" where
  "begin_task E opener s =
     (case (ct_running s, ct_queue s) of
        (None, t # ts) \<Rightarrow>
          (let s1 = s\<lparr>ct_queue := ts\<rparr>; stale = (case t of TOpen _ q \<Rightarrow> q \<noteq> ct_sequence s | _ \<Rightarrow> False)
           in if stale then end_task t True s1
              else (case ct_pending s1 of
                      Some q \<Rightarrow> (s1\<lparr>ct_running := Some (t, False, q)\<rparr>, [Request q])
                    | None \<Rightarrow> go_on E opener t None s1))
      | _ \<Rightarrow> (s, []))"

text \<open>
  An answer for the request that the running task sent. The server answers an opening or an approval with
  an entry and a closing without one.
\<close>

definition finish_own :: "ctl_env \<Rightarrow> task \<Rightarrow> control_result \<Rightarrow> ctl_step" where
  "finish_own E t r s =
     (case (t, r) of
        (TOpen address q, Entry o') \<Rightarrow>
          if q = ct_sequence s
          then (case activate E o' True s of (s1, o1, ok) \<Rightarrow> (case end_task t ok s1 of (s2, o2) \<Rightarrow> (s2, o1 @ o2)))
          else end_task t True s
      | (TApprove ch i e q, Entry o') \<Rightarrow>
          if q = ct_sequence s
          then (case activate E o' False s of (s1, o1, ok) \<Rightarrow> (case end_task t ok s1 of (s2, o2) \<Rightarrow> (s2, o1 @ o2)))
          else end_task t True s
      | _ \<Rightarrow> end_task t True s)"

definition answered :: "ctl_env \<Rightarrow> int option \<Rightarrow> answer \<Rightarrow> ctl_step" where
  "answered E opener a s =
     (case ct_running s of
        None \<Rightarrow> (s, [])
      | Some (t, own, q) \<Rightarrow>
          (case settle E q a s of
             (s1, o1, None) \<Rightarrow> (case end_task t False s1 of (s2, o2) \<Rightarrow> (s2, o1 @ o2))
           | (s1, o1, Some r) \<Rightarrow>
               (case (if own then finish_own E t r else go_on E opener t (Some r)) s1 of (s2, o2) \<Rightarrow> (s2, o1 @ o2))))"

definition enqueue :: "task \<Rightarrow> ctl_step" where
  "enqueue t s = (s\<lparr>ct_queue := ct_queue s @ [t]\<rparr>, [])"

definition ctl_open :: "string \<Rightarrow> ctl_step" where
  "ctl_open address s =
     (let s1 = s\<lparr>ct_requested := address, ct_sequence := Suc (ct_sequence s)\<rparr> in enqueue (TOpen address (ct_sequence s1)) s1)"

definition ctl_retry :: ctl_step where
  "ctl_retry s =
     (if ct_pending s = None
      then ctl_open (case ct_state s of Some p \<Rightarrow> if sh_url p \<noteq> [] then sh_url p else ct_requested s | None \<Rightarrow> ct_requested s) s
      else enqueue TRetry s)"

definition ctl_dispose :: ctl_step where
  "ctl_dispose = and_then (\<lambda>s. cancelTraversal (s\<lparr>ct_sequence := Suc (ct_sequence s)\<rparr>)) (enqueue TClose)"

section \<open>The page\<close>

definition post :: "post \<Rightarrow> ctl \<Rightarrow> ctl_out list" where
  "post m s = (case ct_state s of None \<Rightarrow> [] | Some p \<Rightarrow> [Post m (sh_origin p)])"

definition attach :: "ctl_env \<Rightarrow> ctl_step" where
  "attach E s =
     (case cancelTraversal s of
        (s1, o1) \<Rightarrow>
          if ct_state s1 = None \<or> ct_expired s1 then (s1, o1)
          else let s2 = s1\<lparr>ct_nonce := Some (ce_uuid E (ct_ids s1)), ct_ids := Suc (ct_ids s1), ct_doc := None, ct_historySequence := -1\<rparr>
               in (s2, o1 @ post Attach s2))"

definition frame_loaded :: "ctl_env \<Rightarrow> ctl_step" where
  "frame_loaded E s = (if ct_ready s then (s\<lparr>ct_ready := False\<rparr>, []) else attach E s)"

text \<open>Ask the page to traverse to an entry of its history; False where it is refused at once.\<close>

definition ctl_traverse :: "ctl_env \<Rightarrow> string \<Rightarrow> ctl \<Rightarrow> ctl \<times> ctl_out list \<times> bool" where
  "ctl_traverse E target s =
     (case Option.bind (ct_state s) sh_history of
        None \<Rightarrow> (s, [], False)
      | Some h \<Rightarrow>
          if ct_expired s \<or> Some (hr_doc h) \<noteq> ct_doc s then (s, [], False)
          else (case cancelTraversal s of
                  (s1, o1) \<Rightarrow>
                    (let r = ce_uuid E (ct_ids s1); s2 = s1\<lparr>ct_ids := Suc (ct_ids s1), ct_traversal := Some r\<rparr>
                     in (s2, o1 @ post (TraverseTo r (hr_doc h) (fst (hr_entries h ! nat (hr_index h))) target) s2, True))))"

definition traversal_timeout :: "string \<Rightarrow> ctl_step" where
  "traversal_timeout r s = (if ct_traversal s = Some r then (s\<lparr>ct_traversal := None\<rparr>, [Traversed False]) else (s, []))"

text \<open>The two origins are realms of the same user: \<open>bl-u<uid>-<32 hex>\<close> under one domain.\<close>

definition is_hex :: "char \<Rightarrow> bool" where
  "is_hex ch \<longleftrightarrow> ch \<in> set ''0123456789abcdef''"

definition realm_uid :: "string \<Rightarrow> string option" where
  "realm_uid label =
     (let rest = drop 4 label; ds = takeWhile is_digit rest; h = drop (length ds) rest
      in if starts_with ''bl-u'' label \<and> ds \<noteq> [] \<and> starts_with ''-'' h \<and> length h = 33 \<and> list_all is_hex (tl h) then Some ds else None)"

definition realm_parts :: "ctl_env \<Rightarrow> string \<Rightarrow> (string \<times> string) option" where
  "realm_parts E value =
     (case pf_url (ce_platform E) value of
        None \<Rightarrow> None
      | Some u \<Rightarrow>
          if u_protocol u \<noteq> ''https:'' then None
          else (case js_split (CHR ''.'') (u_hostname u) of
                  [] \<Rightarrow> None
                | label # rest \<Rightarrow> map_option (\<lambda>uid. (uid, js_join ''.'' rest @ '':'' @ u_port u)) (realm_uid label)))"

definition siblingRealm :: "ctl_env \<Rightarrow> string \<Rightarrow> string \<Rightarrow> bool" where
  "siblingRealm E a b \<longleftrightarrow> realm_parts E a \<noteq> None \<and> realm_parts E a = realm_parts E b"

text \<open>A message of the right shape; \<open>ms_source\<close> says that it came from the tab's frame.\<close>

record state_data =
  sd_url :: string
  sd_title :: string
  sd_history :: doc_report
  sd_kind :: string
  sd_blocked :: bool
  sd_failed :: bool
  sd_failure :: string

record popup_data =
  pd_index :: "int option"
  pd_name :: string
  pd_features :: string

datatype ms_kind =
    MNavigation string | MReady | MState state_data | MNavigating | MTraversed string string bool | MHistory string int
  | MOpen string "popup_data option" | MClose "popup_data option"

definition held_index :: "popup_data \<Rightarrow> int option" where
  "held_index d = (case pd_index d of Some n \<Rightarrow> if n \<ge> 0 then Some n else None | None \<Rightarrow> None)"

definition popup_of :: "popup_data \<Rightarrow> popup" where
  "popup_of d = (case held_index d of Some n \<Rightarrow> HeldPopup n | None \<Rightarrow> NamedPopup (take 64 (pd_name d)) (take 256 (pd_features d)))"

record msg =
  ms_source :: bool
  ms_origin :: string
  ms_tab :: string
  ms_epoch :: int
  ms_nonce :: "string option"
  ms_kind :: ms_kind

definition bound :: "msg \<Rightarrow> shown \<Rightarrow> bool" where
  "bound m p \<longleftrightarrow> ms_tab m = sh_tab p \<and> ms_epoch m = sh_epoch p"

definition attached :: "msg \<Rightarrow> ctl \<Rightarrow> bool" where
  "attached m s \<longleftrightarrow> ct_nonce s \<noteq> None \<and> ms_nonce m = ct_nonce s"

definition report_ok :: "ctl_env \<Rightarrow> string \<Rightarrow> ctl \<Rightarrow> doc_report \<Rightarrow> bool" where
  "report_ok E page_origin s h \<longleftrightarrow>
     length (hr_doc h) \<le> 128 \<and> (ct_doc s = None \<or> ct_doc s = Some (hr_doc h)) \<and> hr_sequence h \<ge> ct_historySequence s \<and>
     hr_entries h \<noteq> [] \<and> length (hr_entries h) \<le> 50 \<and> 0 \<le> hr_index h \<and> hr_index h < int (length (hr_entries h)) \<and>
     distinct (map fst (hr_entries h)) \<and>
     list_all (\<lambda>(i, a). length i \<le> 128 \<and> length a \<le> 16384 \<and> origin_of E a = Some page_origin) (hr_entries h)"

text \<open>The page says what it shows: it may name an address of its own origin only.\<close>

definition page_state :: "ctl_env \<Rightarrow> shown \<Rightarrow> state_data \<Rightarrow> ctl_step" where
  "page_state E p d s =
     (case pf_url (ce_platform E) (sd_url d) of
        None \<Rightarrow> (s, [])
      | Some u \<Rightarrow>
          if u_protocol u \<notin> {''http:'', ''https:''} \<or> origin_of E (sh_url p) \<noteq> Some (u_origin u) \<or>
             \<not> report_ok E (u_origin u) s (sd_history d) \<or>
             snd (hr_entries (sd_history d) ! nat (hr_index (sd_history d))) \<noteq> ce_href E (sd_url d)
          then (s, [])
          else let p' = p\<lparr>sh_url := ce_href E (sd_url d), sh_title := take 1024 (sd_title d), sh_history := Some (sd_history d),
                          sh_kind := sd_kind d, sh_blocked := sd_blocked d, sh_failed := sd_failed d,
                          sh_failure := (if sd_failure d \<in> {''local'', ''port''} then sd_failure d else [])\<rparr>
               in (s\<lparr>ct_doc := Some (hr_doc (sd_history d)), ct_historySequence := hr_sequence (sd_history d), ct_state := Some p'\<rparr>,
                   [OnState p' False]))"

definition message :: "ctl_env \<Rightarrow> (unit \<Rightarrow> bool) \<Rightarrow> msg \<Rightarrow> ctl_step" where
  "message E allowPopup m s =
     (case ct_state s of
        None \<Rightarrow> (s, [])
      | Some p \<Rightarrow>
          if ct_expired s \<or> \<not> ms_source m then (s, [])
          else if ms_origin m \<noteq> sh_origin p \<and>
                  \<not> ((case ms_kind m of MNavigation _ \<Rightarrow> True | _ \<Rightarrow> False) \<and> siblingRealm E (ms_origin m) (sh_origin p))
          then (s, [])
          else (case ms_kind m of
             MNavigation ch \<Rightarrow>
               if ct_approving s \<or> \<not> bound m p then (s, [])
               else enqueue (TApprove ch (sh_tab p) (sh_epoch p) (ct_sequence s)) (s\<lparr>ct_approving := True\<rparr>)
           | MReady \<Rightarrow> if bound m p then attach E (s\<lparr>ct_ready := True\<rparr>) else (s, [])
           | MState d \<Rightarrow> if bound m p \<and> attached m s then page_state E p d s else (s, [])
           | MNavigating \<Rightarrow> if bound m p \<and> attached m s then (s, [OnState p True]) else (s, [])
           | MTraversed doc r failed \<Rightarrow>
               if bound m p \<and> attached m s \<and> Some doc = ct_doc s \<and> ct_traversal s = Some r
               then (s\<lparr>ct_traversal := None\<rparr>, [Traversed (\<not> failed)]) else (s, [])
           | MHistory doc d \<Rightarrow> if bound m p \<and> attached m s \<and> Some doc = ct_doc s then (s, [OnHistory d]) else (s, [])
           | MOpen address d \<Rightarrow>
               if Option.bind d held_index \<noteq> None \<or> allowPopup () then (s, [OnOpen address (map_option popup_of d)]) else (s, [])
           | MClose d \<Rightarrow> if bound m p then (s, [OnClose (Option.bind d held_index)]) else (s, [])))"

section \<open>Everything that happens to it\<close>

text \<open>\<open>Answered\<close> is the end of the request that is under way; \<open>Begin\<close> lets the queue go on.\<close>

datatype ctl_event =
    Open string | Retry | Dispose | Begin "int option" | Answered "int option" answer | Expire | Loaded
  | Traverse string | Timeout string | Message bool msg

fun ctl_do :: "ctl_env \<Rightarrow> ctl_event \<Rightarrow> ctl_step" where
  "ctl_do E (Open address) s = ctl_open address s"
| "ctl_do E Retry s = ctl_retry s"
| "ctl_do E Dispose s = ctl_dispose s"
| "ctl_do E (Begin opener) s = begin_task E opener s"
| "ctl_do E (Answered opener a) s = answered E opener a s"
| "ctl_do E Expire s = expire E s"
| "ctl_do E Loaded s = frame_loaded E s"
| "ctl_do E (Traverse target) s = (case ctl_traverse E target s of (s', outs, _) \<Rightarrow> (s', outs))"
| "ctl_do E (Timeout r) s = traversal_timeout r s"
| "ctl_do E (Message allowed m) s = message E (\<lambda>_. allowed) m s"

end
