(* ===== verification/BlControllerProps.thy ===== *)
theory BlControllerProps
  imports BlController BlControlProps
begin

text \<open>
  The toolbar's controller: a page cannot move its tab to another origin; and with a server that keeps its
  side of the protocol (the locale \<open>command_server\<close>), over a network that loses, repeats and delays requests
  and answers, the command a tab waits for is never refused.
\<close>

section \<open>What a page can do to its tab\<close>

definition where_it_is :: "ctl_env \<Rightarrow> ctl \<Rightarrow> (string \<times> int \<times> string \<times> string \<times> string option) option" where
  "where_it_is E s =
     map_option (\<lambda>p. (sh_tab p, sh_epoch p, sh_entry p, sh_origin p, origin_of E (sh_url p))) (ct_state s)"

fun loads :: "ctl_out \<Rightarrow> bool" where
  "loads FreshFrame = True"
| "loads (SetSrc e) = True"
| "loads (ReplaceWith e) = True"
| "loads (Request q) = True"
| "loads o' = False"

lemma cancelTraversal_simps [simp]:
  "ct_state (fst (cancelTraversal s)) = ct_state s" "ct_expired (fst (cancelTraversal s)) = ct_expired s"
  "list_all (\<lambda>o'. \<not> loads o') (snd (cancelTraversal s))"
  by (simp_all add: cancelTraversal_def)

lemma post_quiet [simp]: "list_all (\<lambda>o'. \<not> loads o') (post m s)"
  by (simp add: post_def split: option.splits)

lemma attach_quiet: "where_it_is E (fst (attach E s)) = where_it_is E s \<and> list_all (\<lambda>o'. \<not> loads o') (snd (attach E s))"
  by (auto simp: attach_def where_it_is_def case_prod_beta Let_def)

lemma page_state_quiet:
  assumes "ct_state s = Some p"
  shows "where_it_is E (fst (page_state E p d s)) = where_it_is E s \<and> list_all (\<lambda>o'. \<not> loads o') (snd (page_state E p d s))"
proof (cases "fst (page_state E p d s) = s")
  case False
  then obtain u where u: "pf_url (ce_platform E) (sd_url d) = Some u" "origin_of E (sh_url p) = Some (u_origin u)"
      "report_ok E (u_origin u) s (sd_history d)"
      "snd (hr_entries (sd_history d) ! nat (hr_index (sd_history d))) = ce_href E (sd_url d)"
    by (auto simp: page_state_def split: option.splits if_splits)
  have "hr_entries (sd_history d) ! nat (hr_index (sd_history d)) \<in> set (hr_entries (sd_history d))"
    using u(3) by (intro nth_mem) (auto simp: report_ok_def)
  then have "origin_of E (ce_href E (sd_url d)) = Some (u_origin u)"
    using u(3,4) by (auto simp: report_ok_def list_all_iff)
  then show ?thesis using u(2) assms by (auto simp: page_state_def where_it_is_def Let_def split: option.splits)
qed (auto simp: page_state_def Let_def split: option.splits)

definition heard :: "ctl_env \<Rightarrow> msg \<Rightarrow> ctl \<Rightarrow> bool" where
  "heard E m s \<longleftrightarrow>
     \<not> ct_expired s \<and> ms_source m \<and>
     (case ct_state s of
        None \<Rightarrow> False
      | Some p \<Rightarrow> ms_origin m = sh_origin p \<or>
          (case ms_kind m of MNavigation _ \<Rightarrow> siblingRealm E (ms_origin m) (sh_origin p) | _ \<Rightarrow> False))"


section \<open>The network between the toolbar and the server\<close>

text \<open>What the server's outcome is for the toolbar. An expired tab resets it, and so may what the gateway refuses.\<close>

fun replies :: "control_error + control_result \<Rightarrow> answer \<Rightarrow> bool" where
  "replies (Inr r) a = (a = Answer r)"
| "replies (Inl TabExpired) a = (a = Refusal True)"
| "replies (Inl Refused) a = (a = Refusal True \<or> a = Refusal False)"
| "replies (Inl e) a = (a = Refusal False)"

fun requests :: "ctl_out list \<Rightarrow> command set" where
  "requests [] = {}"
| "requests (Request q # outs) = insert q (requests outs)"
| "requests (o' # outs) = requests outs"

definition allowed :: "ctl_event \<Rightarrow> ctl \<Rightarrow> (command \<times> answer) set \<Rightarrow> bool" where
  "allowed ev s given \<longleftrightarrow>
     (case ev of
        Answered _ a \<Rightarrow> (case ct_running s of Some (_, _, q) \<Rightarrow> a = Lost \<or> (q, a) \<in> given | None \<Rightarrow> False)
      | _ \<Rightarrow> True)"

text \<open>
  A toolbar tab and a server: every request that was sent may arrive any number of times, at any time, or
  never; an answer that was given may reach the tab, or none does. The server forgets no lane of the tab
  in use while it is observed. \<open>run\<close> is the server's handling of a command, \<open>idle\<close> all else it does.
\<close>

inductive wire ::
  "ctl_env \<Rightarrow> string option \<Rightarrow> ('s \<Rightarrow> string \<Rightarrow> lane option) \<Rightarrow> (int \<Rightarrow> 's \<Rightarrow> string \<Rightarrow> bool) \<Rightarrow>
   (int \<Rightarrow> command \<Rightarrow> 's \<Rightarrow> 's \<Rightarrow> control_error + control_result \<Rightarrow> verdict option \<Rightarrow> bool) \<Rightarrow> ('s \<Rightarrow> 's \<Rightarrow> bool) \<Rightarrow> 's \<Rightarrow>
   ctl \<Rightarrow> 's \<Rightarrow> command set \<Rightarrow> (command \<times> answer) set \<Rightarrow> bool"
  for E ow lane_of live run idle S0 where
  start: "wire E ow lane_of live run idle S0 (ctl_new E src) S0 {} {}"
| client: "wire E ow lane_of live run idle S0 s S sent given \<Longrightarrow> allowed ev s given \<Longrightarrow> ctl_do E ev s = (s', outs) \<Longrightarrow>
     wire E ow lane_of live run idle S0 s' S (sent \<union> requests outs) given"
| deliver: "wire E ow lane_of live run idle S0 s S sent given \<Longrightarrow> q \<in> sent \<Longrightarrow>
     (lane_of S (cm_client q) = None \<or> live now S (cm_client q)) \<Longrightarrow> run now (q\<lparr>cm_owner := ow\<rparr>) S S' out v \<Longrightarrow>
     (lane_of S (ct_client s) = None \<or> lane_of S' (ct_client s) \<noteq> None) \<Longrightarrow> replies out a \<Longrightarrow>
     wire E ow lane_of live run idle S0 s S' sent (insert (q, a) given)"
| idle: "wire E ow lane_of live run idle S0 s S sent given \<Longrightarrow> idle S S' \<Longrightarrow>
     (lane_of S (ct_client s) = None \<or> lane_of S' (ct_client s) \<noteq> None) \<Longrightarrow>
     wire E ow lane_of live run idle S0 s S' sent given"

text \<open>What a lane keeps of its last command.\<close>

definition lane_core :: "lane \<Rightarrow> int \<times> string option \<times> string option \<times> string option" where
  "lane_core l = (ln_operation l, ln_fingerprint l, ln_tabId l, ln_owner l)"

text \<open>
  What the toolbar relies on: a repeated command is answered from the lane, the next one and the first are
  performed, any other is refused and leaves the lane, and a tab keeps its identifier.
\<close>

locale command_server =
  fixes inv :: "'s \<Rightarrow> bool"
    and lane_of :: "'s \<Rightarrow> string \<Rightarrow> lane option"
    and live :: "int \<Rightarrow> 's \<Rightarrow> string \<Rightarrow> bool"
    and fp :: "command \<Rightarrow> string"
    and run :: "int \<Rightarrow> command \<Rightarrow> 's \<Rightarrow> 's \<Rightarrow> control_error + control_result \<Rightarrow> verdict option \<Rightarrow> bool"
    and idle :: "'s \<Rightarrow> 's \<Rightarrow> bool"
    and ours :: "string \<Rightarrow> bool"
    and valid :: "string \<Rightarrow> bool"
  assumes run_inv: "inv s \<Longrightarrow> run now q s s' out v \<Longrightarrow> inv s'"
    and idle_inv: "inv s \<Longrightarrow> idle s s' \<Longrightarrow> inv s'"
    and run_first: "inv s \<Longrightarrow> run now q s s' out v \<Longrightarrow> lane_of s (cm_client q) = None \<Longrightarrow> valid (cm_client q) \<Longrightarrow>
      cm_operation q = 1 \<Longrightarrow> cb_tabId (cm_body q) = Some t \<Longrightarrow> t \<noteq> [] \<Longrightarrow>
      v = Some Perform \<and> map_option lane_core (lane_of s' (cm_client q)) = Some (1, Some (fp q), Some t, cm_owner q)"
    and run_next: "inv s \<Longrightarrow> run now q s s' out v \<Longrightarrow> lane_of s (cm_client q) = Some l \<Longrightarrow> live now s (cm_client q) \<Longrightarrow>
      lane_core l = (n, f, Some t, cm_owner q) \<Longrightarrow> cm_operation q = n + 1 \<Longrightarrow> valid (cm_client q) \<Longrightarrow> n \<ge> 1 \<Longrightarrow>
      cb_tabId (cm_body q) = Some t \<Longrightarrow> t \<noteq> [] \<Longrightarrow>
      v = Some Perform \<and> map_option lane_core (lane_of s' (cm_client q)) = Some (n + 1, Some (fp q), Some t, cm_owner q)"
    and run_again: "inv s \<Longrightarrow> run now q s s' out v \<Longrightarrow> lane_of s (cm_client q) = Some l \<Longrightarrow> live now s (cm_client q) \<Longrightarrow>
      lane_core l = (cm_operation q, Some (fp q), tab, cm_owner q) \<Longrightarrow> valid (cm_client q) \<Longrightarrow> cm_operation q \<ge> 1 \<Longrightarrow>
      v = Some (Replay out) \<and> map_option lane_core (lane_of s' (cm_client q)) = Some (lane_core l)"
    and run_old: "inv s \<Longrightarrow> run now q s s' out v \<Longrightarrow> lane_of s (cm_client q) = Some l \<Longrightarrow> live now s (cm_client q) \<Longrightarrow>
      cm_operation q < ln_operation l \<Longrightarrow>
      (\<exists>e. out = Inl e) \<and> map_option lane_core (lane_of s' (cm_client q)) = Some (lane_core l)"
    and run_tab: "inv s \<Longrightarrow> run now q s s' (Inr (Entry o')) v \<Longrightarrow> cb_tabId (cm_body q) = Some t \<Longrightarrow>
      lane_of s (cm_client q) = None \<or> map_option ln_tabId (lane_of s (cm_client q)) = Some (Some t) \<Longrightarrow> on_tabId o' = t"
    and run_other: "inv s \<Longrightarrow> run now q s s' out v \<Longrightarrow> k \<noteq> cm_client q \<Longrightarrow> lane_of s' k = lane_of s k \<or> lane_of s' k = None"
    and idle_keeps: "inv s \<Longrightarrow> idle s s' \<Longrightarrow> ours k \<Longrightarrow>
      map_option lane_core (lane_of s' k) = map_option lane_core (lane_of s k) \<or> lane_of s' k = None"
begin

end

section \<open>What the tab keeps\<close>

text \<open>The state of the tab's side that the protocol is about.\<close>

definition ctl_core :: "ctl \<Rightarrow> string \<times> string \<times> int \<times> command option \<times> opened option" where
  "ctl_core s = (ct_client s, ct_tab s, ct_operation s, ct_pending s, ct_server s)"

text \<open>
  Identifiers come from the supply; what was sent under the current one is numbered up to the last
  command, once each, and names the tab; so do the pending command and the server's last answer.
\<close>

definition own_ids :: "ctl_env \<Rightarrow> ctl \<Rightarrow> command set \<Rightarrow> bool" where
  "own_ids E s sent \<longleftrightarrow>
     (\<exists>k. Suc k < ct_ids s \<and> ct_client s = ce_uuid E k \<and> ct_tab s = ce_uuid E (Suc k)) \<and>
     (\<forall>q \<in> sent. \<exists>k < ct_ids s. cm_client q = ce_uuid E k)"

definition numbered :: "ctl \<Rightarrow> command set \<Rightarrow> bool" where
  "numbered s sent \<longleftrightarrow>
     (\<forall>q \<in> sent. 1 \<le> cm_operation q \<and> cm_owner q = None) \<and>
     (\<forall>q \<in> sent. \<forall>q' \<in> sent. cm_client q = cm_client q' \<and> cm_operation q = cm_operation q' \<longrightarrow> q = q') \<and>
     (\<forall>q \<in> sent. cm_client q = ct_client s \<longrightarrow> cm_operation q \<le> ct_operation s \<and> cb_tabId (cm_body q) = Some (ct_tab s)) \<and>
     (\<forall>q. ct_pending s = Some q \<longrightarrow> q \<in> sent \<and> cm_client q = ct_client s \<and> cm_operation q = ct_operation s) \<and>
     (\<forall>o'. ct_server s = Some o' \<longrightarrow> on_tabId o' = ct_tab s) \<and> 0 \<le> ct_operation s"

lemma frame_own: "own_ids E s sent \<Longrightarrow> ctl_core s' = ctl_core s \<Longrightarrow> ct_ids s \<le> ct_ids s' \<Longrightarrow> own_ids E s' sent"
  unfolding own_ids_def ctl_core_def by (auto intro: order_less_le_trans)

lemma frame_numbered: "numbered s sent \<Longrightarrow> ctl_core s' = ctl_core s \<Longrightarrow> numbered s' sent"
  unfolding numbered_def ctl_core_def by simp

text \<open>A step that leaves the core alone and sends nothing new.\<close>

definition quiet :: "ctl \<Rightarrow> ctl \<times> ctl_out list \<Rightarrow> bool" where
  "quiet s r \<longleftrightarrow> ctl_core (fst r) = ctl_core s \<and> ct_ids s \<le> ct_ids (fst r) \<and> requests (snd r) = {}"

lemma requests_append [simp]: "requests (a @ b) = requests a \<union> requests b"
  by (induction a rule: requests.induct) auto

lemma quietI:
  "ct_client s' = ct_client s \<Longrightarrow> ct_tab s' = ct_tab s \<Longrightarrow> ct_operation s' = ct_operation s \<Longrightarrow> ct_pending s' = ct_pending s \<Longrightarrow>
   ct_server s' = ct_server s \<Longrightarrow> ct_ids s \<le> ct_ids s' \<Longrightarrow> requests outs = {} \<Longrightarrow> quiet s (s', outs)"
  by (simp add: quiet_def ctl_core_def)

lemma quiet_trans: "quiet s (s1, o1) \<Longrightarrow> quiet s1 (s2, o2) \<Longrightarrow> quiet s (s2, o1 @ o2)"
  by (auto simp: quiet_def)

lemma quiet_trans': "quiet s (s1, []) \<Longrightarrow> quiet s1 r \<Longrightarrow> quiet s r"
  by (auto simp: quiet_def)

lemma quiet_pair: "quiet s r \<longleftrightarrow> quiet s (fst r, snd r)"
  by simp

lemma cancel_quiet [simp]: "quiet s (cancelTraversal s)"
  by (simp add: quiet_def ctl_core_def cancelTraversal_def)

lemma end_task_quiet [simp]: "quiet s (end_task t ok s)"
  by (simp add: quiet_def ctl_core_def end_task_def Let_def split: task.split)

lemma post_requests [simp]: "requests (post m s) = {}"
  by (simp add: post_def split: option.split)

lemma attach_quiet_core [simp]: "quiet s (attach E s)"
  using cancel_quiet [of s] by (auto simp: quiet_def ctl_core_def attach_def case_prod_beta Let_def)

lemma load_quiet: "quiet s (and_then (if fresh then freshFrame else (\<lambda>s. (s, []))) (load_entry e) s)"
  by (auto simp: quiet_def ctl_core_def and_then_def freshFrame_def load_entry_def current_entry_def)

text \<open>Showing what the server already answered changes nothing of the protocol.\<close>

lemma activate_quiet: "ct_server s = Some o' \<Longrightarrow> quiet s (fst (activate E o' fresh s), fst (snd (activate E o' fresh s)))"
proof -
  assume o: "ct_server s = Some o'"
  obtain s1 o1 where c: "cancelTraversal s = (s1, o1)" by fastforce
  have q: "quiet s (s1, o1)" using cancel_quiet [of s] c by simp
  define s2 where "s2 = s1\<lparr>ct_state := Some (shown_of o'), ct_server := Some o', ct_expired := False, ct_nonce := None,
      ct_doc := None, ct_historySequence := -1, ct_ready := False\<rparr>"
  have "quiet s1 (s2, [OnState (shown_of o') True])"
    using q o by (simp add: quiet_def ctl_core_def s2_def)
  with q have "quiet s (s2, o1 @ [OnState (shown_of o') True])" by (rule quiet_trans)
  moreover have "quiet s2 (and_then (if fresh then freshFrame else (\<lambda>s. (s, []))) (load_entry (on_entry o')) s2)" by (rule load_quiet)
  ultimately show ?thesis
    using q by (auto simp: activate_def c s2_def [symmetric] Let_def case_prod_beta quiet_def)
qed

lemma message_quiet: "quiet s (message E f m s)"
  unfolding message_def
  using attach_quiet_core [of "s\<lparr>ct_ready := True\<rparr>" E]
  by (auto simp: quiet_def ctl_core_def enqueue_def page_state_def Let_def split: option.split ms_kind.split)

lemma traverse_quiet: "quiet s (case ctl_traverse E target s of (s', outs, _) \<Rightarrow> (s', outs))"
  using cancel_quiet [of s] unfolding ctl_traverse_def Let_def case_prod_beta
  by (auto simp: quiet_def ctl_core_def split: option.split)

section \<open>The tab and the server agree\<close>

definition fp_sent :: "(command \<Rightarrow> string) \<Rightarrow> string option \<Rightarrow> command \<Rightarrow> string" where
  "fp_sent fp ow q = fp (q\<lparr>cm_owner := ow\<rparr>)"

text \<open>The lane of the tab holds a command that was sent, and at least the last one that was settled.\<close>

definition lane_ok :: "(command \<Rightarrow> string) \<Rightarrow> string option \<Rightarrow> lane option \<Rightarrow> ctl \<Rightarrow> command set \<Rightarrow> bool" where
  "lane_ok fp ow l s sent \<longleftrightarrow>
     (l = None \<longrightarrow> ct_operation s = 0 \<or> ct_operation s = 1 \<and> ct_pending s \<noteq> None) \<and>
     (l \<noteq> None \<longrightarrow>
        (\<exists>q \<in> sent. cm_client q = ct_client s \<and> lane_core (the l) = (cm_operation q, Some (fp_sent fp ow q), Some (ct_tab s), ow)) \<and>
        (if ct_pending s = None then ct_operation s = ln_operation (the l) else ct_operation s \<le> ln_operation (the l) + 1))"

definition given_ok :: "lane option \<Rightarrow> ctl \<Rightarrow> command set \<Rightarrow> (command \<times> answer) set \<Rightarrow> bool" where
  "given_ok l s sent given \<longleftrightarrow>
     (\<forall>(q, a) \<in> given. q \<in> sent \<and>
        (cm_client q = ct_client s \<and> a \<noteq> Refusal True \<longrightarrow> l \<noteq> None \<and> cm_operation q \<le> ln_operation (the l)) \<and>
        (\<forall>o'. cm_client q = ct_client s \<and> a = Answer (Entry o') \<longrightarrow> on_tabId o' = ct_tab s))"

definition under_way :: "ctl \<Rightarrow> command set \<Rightarrow> bool" where
  "under_way s sent \<longleftrightarrow>
     (\<forall>t own q. ct_running s = Some (t, own, q) \<longrightarrow> q \<in> sent \<and> (ct_pending s = None \<or> ct_pending s = Some q))"

definition wire_ok ::
  "ctl_env \<Rightarrow> string option \<Rightarrow> ('s \<Rightarrow> string \<Rightarrow> lane option) \<Rightarrow> (command \<Rightarrow> string) \<Rightarrow> 's \<Rightarrow> ctl \<Rightarrow> command set \<Rightarrow> (command \<times> answer) set \<Rightarrow> bool" where
  "wire_ok E ow lane_of fp S s sent given \<longleftrightarrow>
     own_ids E s sent \<and> numbered s sent \<and> lane_ok fp ow (lane_of S (ct_client s)) s sent \<and>
     given_ok (lane_of S (ct_client s)) s sent given \<and> (\<forall>k \<ge> ct_ids s. lane_of S (ce_uuid E k) = None)"

lemma frame_wire:
  assumes "wire_ok E ow lane_of fp S s sent given" "quiet s (s', outs)"
  shows "wire_ok E ow lane_of fp S s' (sent \<union> requests outs) given"
proof -
  have q: "ctl_core s' = ctl_core s" "ct_ids s \<le> ct_ids s'" "requests outs = {}" using assms(2) by (simp_all add: quiet_def)
  then have "ct_client s' = ct_client s" "ct_tab s' = ct_tab s" "ct_operation s' = ct_operation s" "ct_pending s' = ct_pending s"
    by (simp_all add: ctl_core_def)
  then show ?thesis
    using assms(1) q frame_own [of E s sent s'] frame_numbered [of s sent s']
    by (simp add: wire_ok_def lane_ok_def given_ok_def)
qed

lemma wire_quiet:
  assumes "wire_ok E ow lane_of fp S s sent given" "quiet s r"
  shows "wire_ok E ow lane_of fp S (fst r) (sent \<union> requests (snd r)) given"
  using frame_wire [OF assms(1), of "fst r" "snd r"] assms(2) by simp

lemma wire_issue:
  assumes ok: "wire_ok E ow lane_of fp S s sent given" and p: "ct_pending s = None"
    and b: "cb_tabId body = Some (ct_tab s)"
  shows "wire_ok E ow lane_of fp S (fst (issue name body s)) (sent \<union> requests (snd (issue name body s))) given"
proof -
  define q where "q = \<lparr>cm_name = name, cm_body = body, cm_client = ct_client s, cm_operation = ct_operation s + 1, cm_owner = None\<rparr>"
  have i: "issue name body s = (s\<lparr>ct_operation := ct_operation s + 1, ct_pending := Some q\<rparr>, [Request q])"
    by (simp add: issue_def q_def Let_def)
  have "own_ids E (s\<lparr>ct_operation := ct_operation s + 1, ct_pending := Some q\<rparr>) (insert q sent)"
    using ok unfolding wire_ok_def own_ids_def q_def by (auto intro: Suc_lessD)
  moreover have "numbered (s\<lparr>ct_operation := ct_operation s + 1, ct_pending := Some q\<rparr>) (insert q sent)"
  proof -
    have n: "numbered s sent" using ok by (simp add: wire_ok_def)
    have q: "cm_client q = ct_client s" "cm_operation q = ct_operation s + 1" "cb_tabId (cm_body q) = Some (ct_tab s)" "cm_owner q = None"
      using b by (simp_all add: q_def)
    have low: "cm_operation x \<le> ct_operation s \<and> cb_tabId (cm_body x) = Some (ct_tab s)" if "x \<in> sent" "cm_client x = ct_client s" for x
      using n that by (simp add: numbered_def)
    have once: "x = y" if "x \<in> insert q sent" "y \<in> insert q sent" "cm_client x = cm_client y" "cm_operation x = cm_operation y" for x y
    proof (cases "x = q \<or> y = q")
      case True
      then show ?thesis using that q low [of x] low [of y] by auto
    next
      case False
      then show ?thesis using that n unfolding numbered_def by blast
    qed
    have "\<forall>x \<in> insert q sent. cm_client x = ct_client s \<longrightarrow> cm_operation x \<le> ct_operation s + 1 \<and> cb_tabId (cm_body x) = Some (ct_tab s)"
      using q low by fastforce
    moreover have "\<forall>x \<in> insert q sent. 1 \<le> cm_operation x \<and> cm_owner x = None" using q n by (auto simp: numbered_def)
    moreover have "\<forall>o'. ct_server s = Some o' \<longrightarrow> on_tabId o' = ct_tab s" "0 \<le> ct_operation s" using n by (auto simp: numbered_def)
    ultimately show ?thesis using once q unfolding numbered_def by auto
  qed
  moreover have "lane_ok fp ow (lane_of S (ct_client s)) (s\<lparr>ct_operation := ct_operation s + 1, ct_pending := Some q\<rparr>) (insert q sent)"
    using ok p unfolding wire_ok_def lane_ok_def by auto
  ultimately show ?thesis
    using ok unfolding wire_ok_def i by (auto simp: given_ok_def)
qed

lemma wire_expire:
  assumes ok: "wire_ok E ow lane_of fp S s sent given" and inj: "inj (ce_uuid E)"
  shows "wire_ok E ow lane_of fp S (fst (expire E s)) (sent \<union> requests (snd (expire E s))) given"
proof -
  obtain s1 o1 where c: "cancelTraversal (s\<lparr>ct_sequence := Suc (ct_sequence s)\<rparr>) = (s1, o1)" by fastforce
  have s1: "ct_ids s1 = ct_ids s" "requests o1 = {}" using c by (auto simp: cancelTraversal_def split: if_splits)
  have new: "cm_client q \<noteq> ce_uuid E (ct_ids s)" if "q \<in> sent" for q
    using ok that inj by (auto simp: wire_ok_def own_ids_def inj_eq)
  define s' where "s' = fst (expire E s)"
  have e: "ct_client s' = ce_uuid E (ct_ids s)" "ct_tab s' = ce_uuid E (Suc (ct_ids s))" "ct_ids s' = ct_ids s + 2"
      "ct_operation s' = 0" "ct_pending s' = None" "ct_server s' = None" "requests (snd (expire E s)) = {}"
    by (simp_all add: s'_def expire_def c s1)
  have no: "lane_of S (ce_uuid E k) = None" if "k \<ge> ct_ids s" for k using ok that by (simp add: wire_ok_def)
  have "own_ids E s' sent"
    using ok unfolding wire_ok_def own_ids_def e(1-3) by (metis add_2_eq_Suc' lessI less_SucI)
  moreover have "numbered s' sent" using ok new unfolding wire_ok_def numbered_def e by auto
  moreover have "lane_ok fp ow (lane_of S (ct_client s')) s' sent" using no unfolding lane_ok_def e by simp
  moreover have "given_ok (lane_of S (ct_client s')) s' sent given"
    using ok new unfolding wire_ok_def given_ok_def e by auto
  ultimately show ?thesis unfolding s'_def [symmetric] e(7) using no by (simp add: wire_ok_def e)
qed

lemma wire_server:
  "wire_ok E ow lane_of fp S s sent given \<Longrightarrow> on_tabId o' = ct_tab s \<Longrightarrow>
   wire_ok E ow lane_of fp S (s\<lparr>ct_server := Some o'\<rparr>) sent given"
  by (simp add: wire_ok_def own_ids_def numbered_def lane_ok_def given_ok_def)

text \<open>An answer that was given for the request under way settles it.\<close>

lemma wire_settle:
  assumes ok: "wire_ok E ow lane_of fp S s sent given" and inj: "inj (ce_uuid E)"
    and q: "ct_pending s = None \<or> ct_pending s = Some q" and a: "a = Lost \<or> (q, a) \<in> given"
    and st: "settle E q a s = (s', outs, r)"
  shows "wire_ok E ow lane_of fp S s' (sent \<union> requests outs) given"
    and "r \<noteq> None \<Longrightarrow> ct_pending s' = None" and "r = Some (Entry o') \<Longrightarrow> ct_server s' = Some o'"
    and "requests outs = {} \<and> ct_running s' = ct_running s"
proof -
  have g: "l \<noteq> None \<and> cm_operation q \<le> ln_operation (the l) \<and> (\<forall>o'. a = Answer (Entry o') \<longrightarrow> on_tabId o' = ct_tab s)"
    if "(q, a) \<in> given" "a \<noteq> Refusal True" "cm_client q = ct_client s" "l = lane_of S (ct_client s)" for l
    using ok that unfolding wire_ok_def given_ok_def by auto
  have p: "cm_client q = ct_client s \<and> cm_operation q = ct_operation s" if "ct_pending s = Some q"
    using ok that by (simp add: wire_ok_def numbered_def)
  have settled: "wire_ok E ow lane_of fp S (s\<lparr>ct_pending := None\<rparr>) sent given"
    if "ct_pending s = None \<or> (q, a) \<in> given \<and> a \<noteq> Refusal True"
  proof (cases "ct_pending s")
    case None
    then have "s\<lparr>ct_pending := None\<rparr> = s" by simp
    then show ?thesis using ok by simp
  next
    case (Some q')
    then have q': "ct_pending s = Some q" and ga: "(q, a) \<in> given" "a \<noteq> Refusal True" using q that by auto
    have l: "lane_of S (ct_client s) \<noteq> None" "ct_operation s \<le> ln_operation (the (lane_of S (ct_client s)))"
      using g [OF ga _ refl] p [OF q'] by auto
    obtain q2 where "q2 \<in> sent" "cm_client q2 = ct_client s" "ln_operation (the (lane_of S (ct_client s))) = cm_operation q2"
      using ok l unfolding wire_ok_def lane_ok_def lane_core_def by auto
    then have "ln_operation (the (lane_of S (ct_client s))) \<le> ct_operation s"
      using ok unfolding wire_ok_def numbered_def by auto
    then have e: "ct_operation s = ln_operation (the (lane_of S (ct_client s)))" using l(2) by simp
    have "lane_ok fp ow (lane_of S (ct_client s)) (s\<lparr>ct_pending := None\<rparr>) sent"
    proof -
      obtain y where y: "lane_of S (ct_client s) = Some y" using l(1) by auto
      show ?thesis using ok e unfolding wire_ok_def lane_ok_def y by simp
    qed
    moreover have "numbered (s\<lparr>ct_pending := None\<rparr>) sent" "own_ids E (s\<lparr>ct_pending := None\<rparr>) sent"
      using ok unfolding wire_ok_def numbered_def own_ids_def by simp_all
    ultimately show ?thesis using ok unfolding wire_ok_def by (simp add: given_ok_def)
  qed
  show "wire_ok E ow lane_of fp S s' (sent \<union> requests outs) given"
  proof (cases a)
    case (Answer x)
    then have ga: "(q, a) \<in> given" "a \<noteq> Refusal True" using a by auto
    show ?thesis
    proof (cases "ct_pending s = Some q")
      case True
      have "wire_ok E ow lane_of fp S (s\<lparr>ct_pending := None\<rparr>) sent given" using settled ga by blast
      moreover have "on_tabId o' = ct_tab s" if "x = Entry o'" for o' using g [OF ga _ refl] p [OF True] Answer that by simp
      ultimately show ?thesis
        using st True wire_server unfolding Answer settle_def
        by (cases x) fastforce+
    qed (use st ok in \<open>auto simp: Answer settle_def\<close>)
  next
    case (Refusal reset)
    show ?thesis
    proof (cases reset)
      case True
      have "expire E (s\<lparr>ct_pending := None\<rparr>) = expire E s" by (simp add: expire_def cancelTraversal_def)
      then show ?thesis using st wire_expire [OF ok inj] unfolding Refusal settle_def by (auto simp: True Let_def split: prod.splits)
    next
      case False
      then have "wire_ok E ow lane_of fp S (s\<lparr>ct_pending := None\<rparr>) sent given" using settled a Refusal by auto
      then show ?thesis using st False unfolding Refusal settle_def by (auto simp: Let_def)
    qed
  qed (use st ok in \<open>auto simp: settle_def\<close>)
  show "r \<noteq> None \<Longrightarrow> ct_pending s' = None" "r = Some (Entry o') \<Longrightarrow> ct_server s' = Some o'"
    using st by (auto simp: settle_def Let_def split: answer.splits control_result.splits if_splits prod.splits)
  show "requests outs = {} \<and> ct_running s' = ct_running s"
    using st by (auto simp: settle_def Let_def expire_def cancelTraversal_def split: answer.splits control_result.splits if_splits prod.splits)
qed

text \<open>A step keeps the agreement, and what it sends is counted.\<close>

definition keeps ::
  "ctl_env \<Rightarrow> string option \<Rightarrow> ('s \<Rightarrow> string \<Rightarrow> lane option) \<Rightarrow> (command \<Rightarrow> string) \<Rightarrow> 's \<Rightarrow> (command \<times> answer) set \<Rightarrow> command set \<Rightarrow>
   ctl \<times> ctl_out list \<Rightarrow> bool" where
  "keeps E ow lane_of fp S given sent r \<longleftrightarrow>
     wire_ok E ow lane_of fp S (fst r) (sent \<union> requests (snd r)) given \<and> under_way (fst r) (sent \<union> requests (snd r))"

lemma keeps_after:
  assumes "requests o1 = {}" "keeps E ow lane_of fp S given sent r"
  shows "keeps E ow lane_of fp S given sent (case r of (s2, o2) \<Rightarrow> (s2, o1 @ o2))"
  using assms by (simp add: keeps_def case_prod_beta)

lemma end_task_running: "ct_running (fst (end_task t ok s)) = None"
  by (simp add: end_task_def Let_def split: task.split)

lemma end_task_keeps: "wire_ok E ow lane_of fp S s sent given \<Longrightarrow> keeps E ow lane_of fp S given sent (end_task t ok s)"
proof -
  assume "wire_ok E ow lane_of fp S s sent given"
  from wire_quiet [OF this end_task_quiet, of t ok] end_task_running [of t ok s] show ?thesis
    unfolding keeps_def under_way_def by simp
qed

lemma issue_for_keeps:
  assumes "wire_ok E ow lane_of fp S s sent given" "ct_pending s = None" "cb_tabId body = Some (ct_tab s)"
  shows "keeps E ow lane_of fp S given sent (issue_for t name body s)"
proof -
  obtain s1 q where i: "issue name body s = (s1, [Request q])" "ct_pending s1 = Some q" by (simp add: issue_def Let_def)
  have "wire_ok E ow lane_of fp S s1 (insert q sent) given" using wire_issue [OF assms, of name] i by simp
  moreover have "quiet s1 (s1\<lparr>ct_running := Some (t, True, q)\<rparr>, [])" by (simp add: quiet_def ctl_core_def)
  ultimately have "wire_ok E ow lane_of fp S (s1\<lparr>ct_running := Some (t, True, q)\<rparr>) (insert q sent) given"
    using frame_wire by fastforce
  then show ?thesis by (simp add: keeps_def issue_for_def and_then_def i under_way_def)
qed

lemma wire_tab: "wire_ok E ow lane_of fp S s sent given \<Longrightarrow> ct_server s = Some o' \<Longrightarrow> on_tabId o' = ct_tab s"
  by (simp add: wire_ok_def numbered_def)

lemma open_body_tab: "wire_ok E ow lane_of fp S s sent given \<Longrightarrow> cb_tabId (open_body address opener s) = Some (ct_tab s)"
  by (simp add: open_body_def body_of_def wire_tab Let_def split: option.split)

lemma approve_next_keeps:
  assumes "wire_ok E ow lane_of fp S s sent given" "ct_pending s = None" "\<exists>ch i e q. t = TApprove ch i e q"
  shows "keeps E ow lane_of fp S given sent (approve_next E t s)"
  using assms by (auto simp: approve_next_def body_of_def wire_tab intro!: end_task_keeps issue_for_keeps split: option.split)

text \<open>Showing the page of an answer, then going on.\<close>

lemma show_keeps:
  assumes ok: "wire_ok E ow lane_of fp S s sent given" and o: "ct_server s = Some o'" and a: "activate E o' fresh s = (s1, o1, b)"
  shows "wire_ok E ow lane_of fp S s1 sent given" "ct_pending s1 = ct_pending s" "requests o1 = {}"
  using frame_wire [OF ok, of s1 o1] activate_quiet [OF o, of E fresh] a by (auto simp: quiet_def ctl_core_def)

lemma show_end_keeps:
  assumes ok: "wire_ok E ow lane_of fp S s sent given" and o: "ct_server s = Some o'"
  shows "keeps E ow lane_of fp S given sent
    (case activate E o' fresh s of (s1, o1, b) \<Rightarrow> (case end_task t b s1 of (s2, o2) \<Rightarrow> (s2, o1 @ o2)))"
proof -
  obtain s1 o1 b where a: "activate E o' fresh s = (s1, o1, b)" by (metis surj_pair)
  note k = show_keeps [OF ok o a]
  show ?thesis using keeps_after [OF k(3) end_task_keeps [OF k(1)]] by (simp add: a)
qed

lemma go_on_keeps:
  assumes ok: "wire_ok E ow lane_of fp S s sent given" and p: "ct_pending s = None"
    and r: "\<And>o'. r = Some (Entry o') \<Longrightarrow> ct_server s = Some o'"
  shows "keeps E ow lane_of fp S given sent (go_on E opener t r s)"
proof (cases t)
  case (TOpen address q)
  then show ?thesis using issue_for_keeps [OF ok p open_body_tab [OF ok]] by (simp add: go_on_def)
next
  case (TApprove ch i e q)
  have next_ok: "keeps E ow lane_of fp S given sent (approve_next E t s)" using approve_next_keeps [OF ok p] TApprove by blast
  show ?thesis
  proof (cases "\<exists>o'. r = Some (Entry o') \<and> q = ct_sequence s")
    case True
    then obtain o' where o: "r = Some (Entry o')" "q = ct_sequence s" by blast
    obtain s1 o1 b where a: "activate E o' False s = (s1, o1, b)" by (metis surj_pair)
    note k = show_keeps [OF ok r [OF o(1)] a]
    have "keeps E ow lane_of fp S given sent (if b then approve_next E t s1 else end_task t False s1)"
      using approve_next_keeps [OF k(1)] end_task_keeps [OF k(1)] k(2) p TApprove by simp
    from keeps_after [OF k(3) this] show ?thesis by (simp add: go_on_def TApprove o a split: if_splits)
  next
    case False
    then have "go_on E opener t r s = approve_next E t s"
      by (auto simp: go_on_def TApprove split: option.split control_result.split)
    then show ?thesis using next_ok by simp
  qed
next
  case TRetry
  then show ?thesis
    using show_end_keeps [OF ok r] end_task_keeps [OF ok]
    by (auto simp: go_on_def split: option.split control_result.split)
next
  case TClose
  then show ?thesis
    using ok p wire_tab [OF ok] by (auto simp: go_on_def body_of_def intro!: end_task_keeps issue_for_keeps split: option.split)
qed

lemma finish_own_keeps:
  assumes ok: "wire_ok E ow lane_of fp S s sent given" and r: "\<And>o'. r = Entry o' \<Longrightarrow> ct_server s = Some o'"
  shows "keeps E ow lane_of fp S given sent (finish_own E t r s)"
proof (cases "\<exists>o'. r = Entry o'")
  case True
  then obtain o' where o: "r = Entry o'" by blast
  show ?thesis
    using show_end_keeps [OF ok r [OF o]] end_task_keeps [OF ok] unfolding finish_own_def o
    by (simp split: task.split)
next
  case False
  then show ?thesis using end_task_keeps [OF ok] unfolding finish_own_def by (cases r) (simp_all split: task.split)
qed

text \<open>Every event of the tab keeps the agreement.\<close>

lemma quiet_keeps:
  assumes "wire_ok E ow lane_of fp S s sent given" "under_way s sent" "quiet s r" "ct_running (fst r) = ct_running s"
  shows "keeps E ow lane_of fp S given sent r"
proof -
  have "ct_pending (fst r) = ct_pending s" "requests (snd r) = {}" using assms(3) by (simp_all add: quiet_def ctl_core_def)
  then show ?thesis using wire_quiet [OF assms(1,3)] assms(2,4) by (simp add: keeps_def under_way_def)
qed

lemma cancel_running [simp]: "ct_running (fst (cancelTraversal s)) = ct_running s"
  by (simp add: cancelTraversal_def)

lemma attach_running [simp]: "ct_running (fst (attach E s)) = ct_running s"
  by (simp add: attach_def case_prod_beta Let_def)

lemma message_running [simp]: "ct_running (fst (message E f m s)) = ct_running s"
  unfolding message_def by (auto simp: enqueue_def page_state_def Let_def split: option.split ms_kind.split)

lemma begin_keeps:
  assumes ok: "wire_ok E ow lane_of fp S s sent given" and u: "under_way s sent"
  shows "keeps E ow lane_of fp S given sent (begin_task E opener s)"
proof (cases "ct_running s = None \<and> ct_queue s \<noteq> []")
  case False
  then have "begin_task E opener s = (s, [])" by (auto simp: begin_task_def split: option.split list.split)
  then show ?thesis using ok u by (simp add: keeps_def)
next
  case True
  then obtain t ts where q: "ct_running s = None" "ct_queue s = t # ts" by (meson neq_Nil_conv)
  define s1 where "s1 = s\<lparr>ct_queue := ts\<rparr>"
  have ok1: "wire_ok E ow lane_of fp S s1 sent given"
    using frame_wire [OF ok, of s1 "[]"] by (simp add: s1_def quiet_def ctl_core_def)
  show ?thesis
  proof (cases "case t of TOpen _ q \<Rightarrow> q \<noteq> ct_sequence s | _ \<Rightarrow> False")
    case True
    then have "begin_task E opener s = end_task t True s1" by (simp add: begin_task_def q s1_def)
    then show ?thesis using end_task_keeps [OF ok1] by simp
  next
    case fresh: False
    show ?thesis
    proof (cases "ct_pending s")
      case None
      then have "begin_task E opener s = go_on E opener t None s1" using fresh by (simp add: begin_task_def q s1_def)
      moreover have "ct_pending s1 = None" using None by (simp add: s1_def)
      ultimately show ?thesis using go_on_keeps [OF ok1, where r = None] by simp
    next
      case (Some p)
      then have b: "begin_task E opener s = (s1\<lparr>ct_running := Some (t, False, p)\<rparr>, [Request p])"
        using fresh by (simp add: begin_task_def q s1_def)
      have "p \<in> sent" using ok Some by (simp add: wire_ok_def numbered_def)
      then have e: "insert p sent = sent" by blast
      have "wire_ok E ow lane_of fp S (s1\<lparr>ct_running := Some (t, False, p)\<rparr>) sent given"
        using frame_wire [OF ok1, of "s1\<lparr>ct_running := Some (t, False, p)\<rparr>" "[]"] by (simp add: quiet_def ctl_core_def)
      then show ?thesis using Some \<open>p \<in> sent\<close> unfolding b keeps_def by (simp add: e under_way_def s1_def)
    qed
  qed
qed

lemma answered_keeps:
  assumes ok: "wire_ok E ow lane_of fp S s sent given" and u: "under_way s sent" and inj: "inj (ce_uuid E)"
    and a: "allowed (Answered opener a) s given"
  shows "keeps E ow lane_of fp S given sent (answered E opener a s)"
proof -
  obtain t own q where r: "ct_running s = Some (t, own, q)" and ga: "a = Lost \<or> (q, a) \<in> given"
    using a by (auto simp: allowed_def split: option.splits)
  have p: "ct_pending s = None \<or> ct_pending s = Some q" using u r by (simp add: under_way_def)
  obtain s1 o1 res where st: "settle E q a s = (s1, o1, res)" by (metis surj_pair)
  note w = wire_settle [OF ok inj p ga st]
  have ok1: "wire_ok E ow lane_of fp S s1 sent given" and o1: "requests o1 = {}" using w(1,4) by simp_all
  show ?thesis
  proof (cases res)
    case None
    then show ?thesis using keeps_after [OF o1 end_task_keeps [OF ok1]] by (simp add: answered_def r st)
  next
    case (Some x)
    have "ct_pending s1 = None" using w(2) Some by simp
    then have "keeps E ow lane_of fp S given sent (if own then finish_own E t x s1 else go_on E opener t (Some x) s1)"
      using finish_own_keeps [OF ok1, where r = x] go_on_keeps [OF ok1, where r = "Some x"] w(3) Some by auto
    from keeps_after [OF o1 this] show ?thesis by (simp add: answered_def r st Some split: if_splits)
  qed
qed

lemma expire_keeps:
  assumes ok: "wire_ok E ow lane_of fp S s sent given" and u: "under_way s sent" and inj: "inj (ce_uuid E)"
  shows "keeps E ow lane_of fp S given sent (expire E s)"
proof -
  have "ct_pending (fst (expire E s)) = None" "ct_running (fst (expire E s)) = ct_running s" "requests (snd (expire E s)) = {}"
    by (auto simp: expire_def cancelTraversal_def)
  then show ?thesis using wire_expire [OF ok inj] u by (simp add: keeps_def under_way_def)
qed

lemma ctl_do_keeps:
  assumes ok: "wire_ok E ow lane_of fp S s sent given" and u: "under_way s sent" and inj: "inj (ce_uuid E)" and a: "allowed ev s given"
  shows "keeps E ow lane_of fp S given sent (ctl_do E ev s)"
proof (cases ev)
  case (Answered opener x)
  then show ?thesis using answered_keeps [OF ok u inj] a by simp
next
  case (Begin opener)
  then show ?thesis using begin_keeps [OF ok u] by simp
next
  case Expire
  then show ?thesis using expire_keeps [OF ok u inj] by simp
next
  case (Message b m)
  then show ?thesis using quiet_keeps [OF ok u message_quiet] by simp
next
  case (Traverse target)
  then show ?thesis using quiet_keeps [OF ok u traverse_quiet, of E target]
    by (auto simp: ctl_traverse_def case_prod_beta Let_def split: option.splits)
next
  case Loaded
  then show ?thesis using quiet_keeps [OF ok u attach_quiet_core, of E]
      quiet_keeps [OF ok u, of "(s\<lparr>ct_ready := False\<rparr>, [])"]
    by (simp add: frame_loaded_def quiet_def ctl_core_def)
next
  case Dispose
  then show ?thesis by (auto intro!: quiet_keeps [OF ok u] simp: ctl_dispose_def and_then_def enqueue_def cancelTraversal_def quiet_def ctl_core_def)
qed (auto intro!: quiet_keeps [OF ok u]
      simp: ctl_open_def ctl_retry_def enqueue_def traversal_timeout_def quiet_def ctl_core_def Let_def)

text \<open>Identifiers are drawn in order.\<close>

lemma cancel_ids [simp]: "ct_ids (fst (cancelTraversal s)) = ct_ids s"
  by (simp add: cancelTraversal_def)

lemma end_task_ids [simp]: "ct_ids (fst (end_task t ok s)) = ct_ids s"
  by (simp add: end_task_def Let_def split: task.split)

lemma issue_for_ids [simp]: "ct_ids (fst (issue_for t n b s)) = ct_ids s"
  by (simp add: issue_for_def and_then_def issue_def Let_def)

lemma approve_next_ids [simp]: "ct_ids (fst (approve_next E t s)) = ct_ids s"
  by (simp add: approve_next_def split: task.split)

lemma load_ids [simp]: "ct_ids (fst (and_then (if fresh then freshFrame else (\<lambda>s. (s, []))) (load_entry e) s)) = ct_ids s"
  by (simp add: and_then_def freshFrame_def load_entry_def case_prod_beta)

lemma activate_ids [simp]: "ct_ids (fst (activate E o' fresh s)) = ct_ids s"
  by (simp add: activate_def case_prod_beta Let_def)

lemma go_on_ids [simp]: "ct_ids (fst (go_on E opener t r s)) = ct_ids s"
  by (simp add: go_on_def case_prod_beta split: task.split option.split control_result.split)

lemma finish_own_ids [simp]: "ct_ids (fst (finish_own E t r s)) = ct_ids s"
  by (simp add: finish_own_def case_prod_beta split: task.split control_result.split)

lemma begin_ids [simp]: "ct_ids (fst (begin_task E opener s)) = ct_ids s"
  by (simp add: begin_task_def Let_def split: option.split list.split task.split)

lemma expire_ids [simp]: "ct_ids (fst (expire E s)) = ct_ids s + 2"
  by (simp add: expire_def case_prod_beta)

lemma settle_ids: "ct_ids s \<le> ct_ids (fst (settle E q a s))"
  by (simp add: settle_def case_prod_beta Let_def split: answer.split control_result.split)

lemma answered_ids: "ct_ids s \<le> ct_ids (fst (answered E opener a s))"
  using settle_ids [of s E] by (auto simp: answered_def case_prod_beta split: option.split)

lemma ctl_do_ids: "ct_ids s \<le> ct_ids (fst (ctl_do E ev s))"
proof (cases ev)
  case (Answered opener a)
  then show ?thesis by (simp add: answered_ids)
next
  case (Message b m)
  then show ?thesis using message_quiet [of s E "\<lambda>_. b" m] by (simp add: quiet_def)
next
  case (Traverse t)
  then show ?thesis using traverse_quiet [of s E t] by (simp add: quiet_def)
next
  case Loaded
  then show ?thesis using attach_quiet_core [of s E] by (simp add: frame_loaded_def quiet_def)
qed (simp_all add: ctl_open_def ctl_retry_def ctl_dispose_def and_then_def enqueue_def traversal_timeout_def case_prod_beta Let_def)

section \<open>Every command is carried out\<close>

lemma lane_core_same:
  assumes "map_option lane_core l' = map_option lane_core l"
  shows "lane_ok fp ow l' s sent = lane_ok fp ow l s sent" "given_ok l' s sent given = given_ok l s sent given"
proof -
  have "(l' = None) = (l = None)" using assms by (cases l; cases l') auto
  moreover have "l \<noteq> None \<Longrightarrow> lane_core (the l') = lane_core (the l) \<and> ln_operation (the l') = ln_operation (the l)"
    using assms by (cases l; cases l') (auto simp: lane_core_def)
  ultimately show "lane_ok fp ow l' s sent = lane_ok fp ow l s sent" "given_ok l' s sent given = given_ok l s sent given"
    unfolding lane_ok_def given_ok_def by auto
qed

lemma replies_entry: "replies out (Answer (Entry o')) \<Longrightarrow> out = Inr (Entry o')"
  by (cases out rule: sum.exhaust) (auto elim: replies.elims)

text \<open>A lane that moved on, or stayed, to the command \<open>q\<close>.\<close>

lemma lane_moved:
  assumes n: "numbered s sent" and g: "given_ok l s sent given" and k: "lane_ok fp ow l s sent"
    and q: "q \<in> sent" "cm_client q = ct_client s"
    and l': "lane_core l' = (cm_operation q, Some (fp_sent fp ow q), Some (ct_tab s), ow)"
    and up: "l \<noteq> None \<Longrightarrow> ln_operation (the l) \<le> cm_operation q"
    and a: "\<And>o'. a = Answer (Entry o') \<Longrightarrow> on_tabId o' = ct_tab s"
  shows "lane_ok fp ow (Some l') s sent \<and> given_ok (Some l') s sent (insert (q, a) given)"
proof
  have ln: "ln_operation l' = cm_operation q" using l' by (simp add: lane_core_def)
  have "1 \<le> cm_operation q" "cm_operation q \<le> ct_operation s" using n q by (simp_all add: numbered_def)
  then show "lane_ok fp ow (Some l') s sent"
    using k q l' up ln unfolding lane_ok_def by (cases "l = None") (auto split: if_splits)
  show "given_ok (Some l') s sent (insert (q, a) given)"
    using g q a up ln unfolding given_ok_def by (cases "l = None") fastforce+
qed

context command_server begin

lemma delivered_ours:
  assumes ok: "wire_ok E ow lane_of fp S s sent given" and i: "inv S" and o: "\<And>k. k < ct_ids s \<Longrightarrow> valid (ce_uuid E k) \<and> ce_uuid E k \<noteq> []"
    and q: "q \<in> sent" "cm_client q = ct_client s" and al: "lane_of S (cm_client q) = None \<or> live now S (cm_client q)"
    and r: "run now (q\<lparr>cm_owner := ow\<rparr>) S S' out v" and a: "replies out a"
  shows "(lane_ok fp ow (lane_of S' (ct_client s)) s sent \<and> given_ok (lane_of S' (ct_client s)) s sent (insert (q, a) given)) \<and>
    (cm_operation q = ct_operation s \<longrightarrow> v = Some Perform \<or> v = Some (Replay out))"
proof -
  have n: "numbered s sent" and k: "lane_ok fp ow (lane_of S (ct_client s)) s sent"
      and g: "given_ok (lane_of S (ct_client s)) s sent given" and own: "own_ids E s sent"
    using ok by (simp_all add: wire_ok_def)
  have q1: "1 \<le> cm_operation q" "cm_operation q \<le> ct_operation s" "cb_tabId (cm_body q) = Some (ct_tab s)"
    using n q by (simp_all add: numbered_def)
  have us: "valid (cm_client q)" "ct_tab s \<noteq> []" using own o q(2) unfolding own_ids_def by (metis Suc_lessD)+
  note moved = lane_moved [OF n g k q]
  have tab: "on_tabId o' = ct_tab s" if "a = Answer (Entry o')"
      "lane_of S (ct_client s) = None \<or> map_option ln_tabId (lane_of S (ct_client s)) = Some (Some (ct_tab s))" for o'
    using run_tab [OF i r [unfolded replies_entry [OF a [unfolded that(1)]]], of "ct_tab s"] q1(3) q(2) that(2) by simp
  show ?thesis
  proof (cases "lane_of S (ct_client s)")
    case None
    then have "cm_operation q = 1" using k q1 by (auto simp: lane_ok_def)
    with run_first [OF i r, of "ct_tab s"] None q q1 us
    have v: "v = Some Perform" and l': "map_option lane_core (lane_of S' (ct_client s)) = Some (cm_operation q, Some (fp_sent fp ow q), Some (ct_tab s), ow)"
      by (simp_all add: fp_sent_def)
    then obtain l' where "lane_of S' (ct_client s) = Some l'" "lane_core l' = (cm_operation q, Some (fp_sent fp ow q), Some (ct_tab s), ow)" by auto
    then show ?thesis using moved [of l' a] tab None v by simp
  next
    case (Some l)
    then obtain q2 where q2: "q2 \<in> sent" "cm_client q2 = ct_client s" "lane_core l = (cm_operation q2, Some (fp_sent fp ow q2), Some (ct_tab s), ow)"
      using k by (auto simp: lane_ok_def)
    have low: "ct_operation s \<le> cm_operation q2 + 1" using k Some q2(3) by (auto simp: lane_ok_def lane_core_def split: if_splits)
    have lt: "ln_tabId l = Some (ct_tab s)" "ln_operation l = cm_operation q2" using q2(3) by (simp_all add: lane_core_def)
    have al': "live now S (cm_client q)" using al Some q(2) by simp
    consider "cm_operation q = cm_operation q2" | "cm_operation q = cm_operation q2 + 1" | "cm_operation q < cm_operation q2"
      using low q1 by linarith
    then show ?thesis
    proof cases
      case 1
      then have e: "q = q2" using n q q2 by (simp add: numbered_def)
      have "v = Some (Replay out) \<and> map_option lane_core (lane_of S' (ct_client s)) = Some (lane_core l)"
        using run_again [OF i r, of l "Some (ct_tab s)"] q2(3) Some al' q(2) us q1(1) by (simp add: e [symmetric] fp_sent_def)
      moreover from this obtain l' where "lane_of S' (ct_client s) = Some l'" "lane_core l' = lane_core l" by auto
      ultimately show ?thesis using moved [of l' a] tab Some q2(3) lt e by simp
    next
      case 2
      have "1 \<le> cm_operation q2" using n q2 by (simp add: numbered_def)
      then have "v = Some Perform \<and> map_option lane_core (lane_of S' (ct_client s)) = Some (cm_operation q, Some (fp_sent fp ow q), Some (ct_tab s), ow)"
        using run_next [OF i r, of l "cm_operation q2" _ "ct_tab s"] q2(3) Some al' q(2) us q1 2 by (simp add: fp_sent_def)
      moreover from this obtain l' where "lane_of S' (ct_client s) = Some l'" "lane_core l' = (cm_operation q, Some (fp_sent fp ow q), Some (ct_tab s), ow)" by auto
      ultimately show ?thesis using moved [of l' a] tab Some lt 2 by simp
    next
      case 3
      have old: "(\<exists>e. out = Inl e) \<and> map_option lane_core (lane_of S' (ct_client s)) = Some (lane_core l)"
        using run_old [OF i r, of l] Some al' q(2) lt 3 by simp
      then have "lane_ok fp ow (lane_of S' (ct_client s)) s sent" "given_ok (lane_of S' (ct_client s)) s sent given"
        using k g lane_core_same [of "lane_of S' (ct_client s)" "Some l"] Some by simp_all
      moreover have "lane_of S' (ct_client s) \<noteq> None \<and> ln_operation (the (lane_of S' (ct_client s))) = cm_operation q2"
        using old lt by (auto simp: lane_core_def)
      moreover have "cm_operation q2 \<le> ct_operation s" using n q2 by (simp add: numbered_def)
      ultimately show ?thesis using old a q 3 by (auto simp: given_ok_def dest: replies_entry)
    qed
  qed
qed

text \<open>A command of an earlier life of the tab does not touch the lane in use.\<close>

lemma delivered:
  assumes ok: "wire_ok E ow lane_of fp S s sent given" and i: "inv S" and o: "\<And>k. k < ct_ids s \<Longrightarrow> valid (ce_uuid E k) \<and> ce_uuid E k \<noteq> []"
    and inj: "inj (ce_uuid E)"
    and q: "q \<in> sent" and al: "lane_of S (cm_client q) = None \<or> live now S (cm_client q)"
    and r: "run now (q\<lparr>cm_owner := ow\<rparr>) S S' out v" and a: "replies out a"
    and kept: "lane_of S (ct_client s) = None \<or> lane_of S' (ct_client s) \<noteq> None"
  shows "wire_ok E ow lane_of fp S' s sent (insert (q, a) given)"
proof -
  have w: "own_ids E s sent" "numbered s sent" "lane_ok fp ow (lane_of S (ct_client s)) s sent"
      "given_ok (lane_of S (ct_client s)) s sent given" "\<And>k. k \<ge> ct_ids s \<Longrightarrow> lane_of S (ce_uuid E k) = None"
    using ok by (simp_all add: wire_ok_def)
  obtain n where n: "n < ct_ids s" "cm_client q = ce_uuid E n" using w(1) q by (auto simp: own_ids_def)
  have new: "lane_of S' (ce_uuid E k) = None" if "k \<ge> ct_ids s" for k
  proof -
    have "ce_uuid E k \<noteq> cm_client q" using n that inj by (auto simp: inj_eq)
    then show ?thesis using run_other [OF i r, of "ce_uuid E k"] w(5) that by auto
  qed
  show ?thesis
  proof (cases "cm_client q = ct_client s")
    case True
    then show ?thesis using delivered_ours [OF ok i o q True al r a] w new by (simp add: wire_ok_def)
  next
    case False
    then have "lane_of S' (ct_client s) = lane_of S (ct_client s)" using run_other [OF i r, of "ct_client s"] kept by auto
    then show ?thesis using w new q False by (auto simp: wire_ok_def given_ok_def)
  qed
qed

lemma wire_agrees:
  assumes "wire E ow lane_of live run idle S0 s S sent given"
    and i: "inv S0" and l: "\<And>k. lane_of S0 (ce_uuid E k) = None"
    and o: "\<And>k. ours (ce_uuid E k)" and inj: "inj (ce_uuid E)"
    and "\<And>k. k < ct_ids s \<Longrightarrow> valid (ce_uuid E k) \<and> ce_uuid E k \<noteq> []"
  shows "inv S \<and> wire_ok E ow lane_of fp S s sent given \<and> under_way s sent"
  using assms(1,6)
proof (induction rule: wire.induct)
  case (start src)
  have "own_ids E (ctl_new E src) {}" unfolding own_ids_def ctl_new_def by (auto intro!: exI [of _ 0])
  then show ?case
    using i l by (simp add: wire_ok_def numbered_def lane_ok_def given_ok_def under_way_def) (simp add: ctl_new_def)
next
  case (client s S sent given ev s' outs)
  have "ct_ids s \<le> ct_ids s'" using ctl_do_ids [of s E ev] client.hyps(3) by simp
  then have "inv S \<and> wire_ok E ow lane_of fp S s sent given \<and> under_way s sent" using client.IH client.prems by simp
  then show ?case using ctl_do_keeps [of E ow lane_of fp S s sent given ev] inj client.hyps by (simp add: keeps_def)
next
  case (deliver s S sent given q now S' out v a)
  then have ih: "inv S" "wire_ok E ow lane_of fp S s sent given" "under_way s sent" by simp_all
  show ?case using delivered [OF ih(2,1) deliver.prems inj deliver.hyps(2-4,6,5)] run_inv [OF ih(1) deliver.hyps(4)] ih(3) by simp
next
  case (idle s S sent given S')
  then have ih: "inv S" "wire_ok E ow lane_of fp S s sent given" "under_way s sent" by simp_all
  have cl: "ours (ct_client s)" using ih o by (auto simp: wire_ok_def own_ids_def)
  have "map_option lane_core (lane_of S' (ct_client s)) = map_option lane_core (lane_of S (ct_client s))"
    using idle_keeps [OF ih(1) idle.hyps(2) cl] idle.hyps(3) by auto
  moreover have "lane_of S' (ce_uuid E k) = None" if "k \<ge> ct_ids s" for k
  proof -
    have "lane_of S (ce_uuid E k) = None" using ih that by (simp add: wire_ok_def)
    then show ?thesis using idle_keeps [OF ih(1) idle.hyps(2) o, of k] by auto
  qed
  ultimately show ?case
    using ih idle_inv [OF _ idle.hyps(2)] lane_core_same [of "lane_of S' (ct_client s)" "lane_of S (ct_client s)"]
    by (simp add: wire_ok_def)
qed

lemma carried_out:
  assumes w: "wire E ow lane_of live run idle S0 s S sent given"
    and i: "inv S0" and l: "\<And>k. lane_of S0 (ce_uuid E k) = None"
    and o: "\<And>k. ours (ce_uuid E k)" and inj: "inj (ce_uuid E)"
    and o': "\<And>k. k < ct_ids s \<Longrightarrow> valid (ce_uuid E k) \<and> ce_uuid E k \<noteq> []"
    and p: "ct_pending s = Some q" and al: "lane_of S (cm_client q) = None \<or> live now S (cm_client q)"
    and r: "run now (q\<lparr>cm_owner := ow\<rparr>) S S' out v"
  shows "v = Some Perform \<or> v = Some (Replay out)"
proof -
  have ok: "inv S" "wire_ok E ow lane_of fp S s sent given" using wire_agrees [OF w i l o inj o'] by simp_all
  have q: "q \<in> sent" "cm_client q = ct_client s" "cm_operation q = ct_operation s" using ok(2) p by (simp_all add: wire_ok_def numbered_def)
  obtain a where "replies out a"
  proof (cases out)
    case (Inl e)
    then show ?thesis using that by (cases e) auto
  qed (use that in auto)
  from delivered_ours [OF ok(2,1) o' q(1,2) al r this] q(3) show ?thesis by simp
qed

end

end
