(* ===== verification/BlToolbar.thy ===== *)
theory BlToolbar
  imports BlControllerProps
begin

text \<open>
  The toolbar's controller and the server's command ledger together: the ledger is a server as the
  controller needs it, so that over a network that loses, delays and repeats requests and answers, the
  command a tab waits for is carried out.
\<close>

section \<open>The ledger is such a server\<close>

definition ledger_lane_of :: "control_state \<Rightarrow> string \<Rightarrow> lane option" where
  "ledger_lane_of s k = map_of (fst s) k"

definition ledger_live :: "int \<Rightarrow> control_state \<Rightarrow> string \<Rightarrow> bool" where
  "ledger_live now s k \<longleftrightarrow> (case map_of (fst s) k of None \<Rightarrow> False | Some l \<Rightarrow> now < ln_expires l)"

definition ledger_serve ::
  "ledger_cfg \<Rightarrow> int \<Rightarrow> command \<Rightarrow> control_state \<Rightarrow> control_state \<Rightarrow> control_error + control_result \<Rightarrow> verdict option \<Rightarrow> bool" where
  "ledger_serve c now q s s' out v \<longleftrightarrow> (\<exists>d. ledger_run c now d q s = (s', out, v))"

text \<open>What else the ledger does: commands of other clients, heartbeats, revocations and collections.\<close>

definition ledger_idle :: "ledger_cfg \<Rightarrow> string set \<Rightarrow> control_state \<Rightarrow> control_state \<Rightarrow> bool" where
  "ledger_idle c U s s' \<longleftrightarrow>
     (\<exists>now q out v. cm_client q \<notin> U \<and> ledger_serve c now q s s' out v) \<or>
     (\<exists>now k owner. s' = fst (ledger_touch c now k owner s)) \<or> (\<exists>owner. s' = ledger_revoke owner s) \<or>
     (\<exists>now. s' = ledger_collect now s)"

text \<open>The entry that a lane keeps is for its tab.\<close>

definition tab_inv :: "lane \<Rightarrow> bool" where
  "tab_inv l \<longleftrightarrow> (\<forall>o' t. ln_outcome l = Some (Inr (Entry o')) \<and> ln_tabId l = Some t \<longrightarrow> on_tabId o' = t)"

definition ledger_inv :: "ledger_cfg \<Rightarrow> control_state \<Rightarrow> bool" where
  "ledger_inv c s \<longleftrightarrow> (\<exists>g0 tr. control_reach c g0 s tr) \<and> list_all (\<lambda>e. tab_inv (snd e)) (fst s)"

lemma open_tab: "gw_open c now lease token ticket dest opts g = (g', Some o') \<Longrightarrow> on_tabId o' = oo_tabId opts"
  by (auto simp: gw_open_def Let_def split: if_splits option.splits prod.splits)

lemma approve_tab: "gw_approveNavigation c now lease nt token ticket ch i ep g = (g', Some o') \<Longrightarrow> on_tabId o' = i"
  by (auto simp: gw_approveNavigation_def split: if_splits option.splits prod.splits dest!: open_tab)

lemma refused_entry: "refused_or x = (g', Inr (Entry o')) \<Longrightarrow> x = (g', Some o')"
  by (cases x; cases "snd x") auto

lemma perform_tab:
  assumes "gw_perform c now d lease name b g = (g', Inr (Entry o'))" "cb_tabId b = Some t"
  shows "on_tabId o' = t"
  using assms by (auto simp: gw_perform_def Let_def split: if_splits option.splits prod.splits dest!: refused_entry open_tab approve_tab)

lemma map_of_kept: "map_of xs k = Some v \<Longrightarrow> P (k, v) \<Longrightarrow> map_of (filter P xs) k = Some v"
  by (induction xs) (auto split: if_splits)

lemma collect_live: "ledger_lane_of s k = Some l \<Longrightarrow> ledger_live now s k \<Longrightarrow> map_of (fst (ledger_collect now s)) k = Some l"
  unfolding ledger_collect_lanes by (rule map_of_kept) (auto simp: ledger_lane_of_def ledger_live_def)

lemma collect_none: "ledger_lane_of s k = None \<Longrightarrow> map_of (fst (ledger_collect now s)) k = None"
  unfolding ledger_collect_lanes ledger_lane_of_def by (auto simp: map_of_eq_None_iff)

text \<open>A command that finds its lane.\<close>

lemma serve_lane:
  assumes r: "ledger_run c now d q s = (s', out, v)" and l: "ledger_lane_of s (cm_client q) = Some l"
    and live: "ledger_live now s (cm_client q)" and ok: "valid_client (cm_client q)" "1 \<le> cm_operation q" "ln_owner l = cm_owner q"
  shows "v = Some (judge l (cm_operation q) (fp_of c q) (cb_tabId (cm_body q)))"
    and "\<exists>l'. ledger_lane_of s' (cm_client q) = Some l' \<and>
       (if v = Some Perform
        then (\<exists>g g'. gw_perform (lc_gateway c) now d (cm_owner q) (cm_name q) (cm_body q) g = (g', out)) \<and>
          l' = lane_done (cm_operation q) (fp_of c q) out (l\<lparr>ln_expires := now + lc_ttl c\<rparr>)
        else l' = l\<lparr>ln_expires := now + lc_ttl c\<rparr> \<and> (v = Some (Replay out) \<or> (\<exists>e. out = Inl e)))"
proof -
  define s0 where "s0 = ledger_collect now s"
  have m: "map_of (fst s0) (cm_client q) = Some l" unfolding s0_def by (rule collect_live [OF l live])
  have lane: "ledger_lane c (cm_client q) (cm_operation q) (cb_tabId (cm_body q)) (cm_owner q) s0 = Some (l, (fst s0, snd s0))"
    using m by (simp add: ledger_lane_def)
  have put: "map_of (lane_put (cm_client q) x (fst s0)) (cm_client q) = Some x" for x using m by (intro lane_put_get) simp
  note run = r [unfolded ledger_run_def Let_def s0_def [symmetric] lane option.case prod.case, unfolded fp_of_def [symmetric]]
  show "v = Some (judge l (cm_operation q) (fp_of c q) (cb_tabId (cm_body q)))"
    using run ok by (auto split: verdict.splits prod.splits)
  show "\<exists>l'. ledger_lane_of s' (cm_client q) = Some l' \<and>
       (if v = Some Perform
        then (\<exists>g g'. gw_perform (lc_gateway c) now d (cm_owner q) (cm_name q) (cm_body q) g = (g', out)) \<and>
          l' = lane_done (cm_operation q) (fp_of c q) out (l\<lparr>ln_expires := now + lc_ttl c\<rparr>)
        else l' = l\<lparr>ln_expires := now + lc_ttl c\<rparr> \<and> (v = Some (Replay out) \<or> (\<exists>e. out = Inl e)))"
    using run ok put by (auto simp: ledger_lane_of_def split: verdict.splits prod.splits)
qed

lemma serve_first:
  assumes r: "ledger_run c now d q s = (s', out, v)" and n: "ledger_lane_of s (cm_client q) = None"
    and ok: "valid_client (cm_client q)" "cm_operation q = 1"
  shows "v = Some Perform \<and> (\<exists>l g g'. ledger_lane_of s' (cm_client q) = Some (lane_done 1 (fp_of c q) out l) \<and> ln_owner l = cm_owner q \<and>
      ln_tabId l = cb_tabId (cm_body q) \<and> gw_perform (lc_gateway c) now d (cm_owner q) (cm_name q) (cm_body q) g = (g', out))"
proof -
  define s0 where "s0 = ledger_collect now s"
  have m: "map_of (fst s0) (cm_client q) = None" unfolding s0_def by (rule collect_none [OF n])
  have "ledger_lane c (cm_client q) (cm_operation q) (cb_tabId (cm_body q)) (cm_owner q) s0 \<noteq> None"
    using m ok(2) by (simp add: ledger_lane_def Let_def)
  then obtain l ls g where lane: "ledger_lane c (cm_client q) (cm_operation q) (cb_tabId (cm_body q)) (cm_owner q) s0 = Some (l, (ls, g))"
    by (metis option.exhaust surj_pair)
  from lane show ?thesis
  proof (cases rule: ledger_lane_cases)
    case found
    then show ?thesis using m by simp
  next
    case (began P)
    have j: "judge (l\<lparr>ln_expires := now + lc_ttl c\<rparr>) (cm_operation q) (fp_of c q) (cb_tabId (cm_body q)) = Perform"
      using began judge_began ok(2) by simp
    have ls: "ls = filter P (fst s0) @ [(cm_client q, l)]" using began(6) by simp
    have "map_of (filter P (fst s0)) (cm_client q) = None" using m by (auto simp: map_of_eq_None_iff)
    then have "map_of ls (cm_client q) \<noteq> None" by (simp add: ls)
    note put = lane_put_get [OF this]
    show ?thesis
      using r j ok began(5,4) put unfolding ledger_run_def Let_def s0_def [symmetric] lane option.case prod.case fp_of_def [symmetric]
      by (fastforce simp: ledger_lane_of_def split: prod.splits)
  qed
qed

lemma map_of_filter_distinct: "distinct (map fst xs) \<Longrightarrow> map_of (filter P xs) k = map_of xs k \<or> map_of (filter P xs) k = None"
proof (induction xs)
  case (Cons x xs)
  then have "map_of (filter P xs) (fst x) = None" by (auto simp: map_of_eq_None_iff)
  then show ?case using Cons by auto
qed simp

lemma lane_put_other [simp]: "k \<noteq> cid \<Longrightarrow> map_of (lane_put cid l ls) k = map_of ls k"
  unfolding lane_put_def by (induction ls) auto

lemma ledger_inv_distinct: "ledger_inv c s \<Longrightarrow> distinct (map fst (fst s))"
  unfolding ledger_inv_def using control_reach_tells lanes_tell_def by metis

lemma collect_distinct: "distinct (map fst (fst s)) \<Longrightarrow> distinct (map fst (fst (ledger_collect now s)))"
  unfolding ledger_collect_lanes by (rule distinct_map_filter)

lemma serve_other:
  assumes i: "ledger_inv c s" and r: "ledger_run c now d q s = (s', out, v)" and k: "k \<noteq> cm_client q"
  shows "ledger_lane_of s' k = ledger_lane_of s k \<or> ledger_lane_of s' k = None"
proof -
  define s0 where "s0 = ledger_collect now s"
  note d = ledger_inv_distinct [OF i]
  have c0: "map_of (fst s0) k = map_of (fst s) k \<or> map_of (fst s0) k = None"
    unfolding s0_def ledger_collect_lanes by (rule map_of_filter_distinct [OF d])
  have f0: "map_of (filter P (fst s0)) k = map_of (fst s0) k \<or> map_of (filter P (fst s0)) k = None" for P
    by (rule map_of_filter_distinct) (unfold s0_def, rule collect_distinct [OF d])
  from r s0_def show ?thesis
  proof (cases rule: ledger_run_cases)
    case (performed l ls g g')
    have "map_of ls k = map_of (fst s0) k \<or> map_of ls k = None"
      using performed(7)
    proof
      assume "map_of (fst s0) (cm_client q) = None \<and> cm_operation q = 1 \<and> (\<exists>P. ls = filter P (fst s0) @ [(cm_client q, l)])"
      then obtain P where "ls = filter P (fst s0) @ [(cm_client q, l)]" by blast
      then have "map_of ls k = map_of (filter P (fst s0)) k" using k by (simp add: map_add_def split: option.split)
      then show ?thesis using f0 by metis
    qed simp
    then show ?thesis using c0 k performed(6) by (auto simp: ledger_lane_of_def)
  qed (use c0 k in \<open>auto simp: ledger_lane_of_def\<close>)
qed

lemma lane_put_all:
  "(\<And>e. e \<in> set ls \<Longrightarrow> fst e \<noteq> k \<Longrightarrow> P (snd e)) \<Longrightarrow> P l \<Longrightarrow> list_all (\<lambda>e. P (snd e)) (lane_put k l ls)"
  by (auto simp: lane_put_def list_all_iff)

lemma filter_all: "list_all P xs \<Longrightarrow> list_all P (filter Q xs)"
  by (auto simp: list_all_iff)

lemma map_of_all: "list_all (\<lambda>e. P (snd e)) ls \<Longrightarrow> map_of ls k = Some l \<Longrightarrow> P l"
  by (auto simp: list_all_iff dest!: map_of_SomeD)

lemma tab_inv_touch [simp]: "tab_inv (l\<lparr>ln_expires := x\<rparr>) = tab_inv l"
  by (simp add: tab_inv_def)

lemma perform_tab_inv:
  assumes j: "judge l op f (cb_tabId b) = Perform" and p: "gw_perform c now d lease name b g = (g', out)"
  shows "tab_inv (lane_done op f out l)"
proof (cases "\<exists>o'. out = Inr (Entry o')")
  case True
  then obtain o' where o: "out = Inr (Entry o')" by blast
  have "present (ln_tabId l) \<Longrightarrow> cb_tabId b = ln_tabId l" using j by (auto simp: judge_def split: if_splits option.splits)
  then have t: "on_tabId o' = t" if "ln_tabId l = Some t" "t \<noteq> []" for t
    using perform_tab [OF p [unfolded o], of t] that by (simp add: present_def)
  show ?thesis unfolding o
    by (cases "on_tabId o' = []") (auto simp: tab_inv_def lane_done_def Let_def dest: t)
qed (auto simp: tab_inv_def)

lemma run_tab_inv:
  assumes t: "list_all (\<lambda>e. tab_inv (snd e)) (fst s)" and r: "ledger_run c now d q s = (s', out, v)"
  shows "list_all (\<lambda>e. tab_inv (snd e)) (fst s')"
proof -
  define s0 where "s0 = ledger_collect now s"
  have t0: "list_all (\<lambda>e. tab_inv (snd e)) (fst s0)" unfolding s0_def ledger_collect_lanes by (rule filter_all [OF t])
  note run = r [unfolded ledger_run_def Let_def s0_def [symmetric]]
  show ?thesis
  proof (cases "(\<not> valid_client (cm_client q) \<or> cm_operation q < 1) \<or>
      ledger_lane c (cm_client q) (cm_operation q) (cb_tabId (cm_body q)) (cm_owner q) s0 = None")
    case True
    then have "s' = s0" using run by (auto split: if_splits option.splits)
    then show ?thesis using t0 by simp
  next
    case False
    then obtain l ls g where lane: "ledger_lane c (cm_client q) (cm_operation q) (cb_tabId (cm_body q)) (cm_owner q) s0 = Some (l, (ls, g))"
      by auto
    have ls: "e \<in> set ls \<Longrightarrow> fst e \<noteq> cm_client q \<Longrightarrow> tab_inv (snd e)" for e
      using lane t0 by (cases rule: ledger_lane_cases) (auto simp: list_all_iff)
    have l: "ln_operation l = 0 \<and> cm_operation q = 1 \<and> ln_tabId l = cb_tabId (cm_body q) \<and> ln_owner l = cm_owner q \<or> tab_inv l \<and> list_all (\<lambda>e. tab_inv (snd e)) ls"
      using lane t0 by (cases rule: ledger_lane_cases) (auto dest: map_of_all)
    define l1 where "l1 = l\<lparr>ln_expires := now + lc_ttl c\<rparr>"
    have same: "ln_owner l \<noteq> cm_owner q \<Longrightarrow> list_all (\<lambda>e. tab_inv (snd e)) ls" using l by auto
    have other: "judge l1 (cm_operation q) (fp_of c q) (cb_tabId (cm_body q)) \<noteq> Perform \<Longrightarrow> tab_inv l1"
      using l judge_began [of l "cb_tabId (cm_body q)"] by (auto simp: l1_def)
    have run': "(if ln_owner l \<noteq> cm_owner q then ((ls, g), Inl SessionMismatch, None)
        else case judge l1 (cm_operation q) (fp_of c q) (cb_tabId (cm_body q)) of
          Deny e \<Rightarrow> ((lane_put (cm_client q) l1 ls, g), Inl e, Some (judge l1 (cm_operation q) (fp_of c q) (cb_tabId (cm_body q))))
        | Replay x \<Rightarrow> ((lane_put (cm_client q) l1 ls, g), x, Some (judge l1 (cm_operation q) (fp_of c q) (cb_tabId (cm_body q))))
        | Perform \<Rightarrow> (case gw_perform (lc_gateway c) now d (cm_owner q) (cm_name q) (cm_body q) g of
            (g', x) \<Rightarrow> ((lane_put (cm_client q) (lane_done (cm_operation q) (fp_of c q) x l1) ls, g'), x,
              Some (judge l1 (cm_operation q) (fp_of c q) (cb_tabId (cm_body q)))))) = (s', out, v)"
    proof -
      have "(\<not> valid_client (cm_client q) \<or> cm_operation q < 1) = False" using False by simp
      from run [unfolded this lane option.case prod.case if_False] show ?thesis unfolding l1_def fp_of_def .
    qed
    show ?thesis
    proof (cases "ln_owner l \<noteq> cm_owner q")
      case True
      then show ?thesis using run' same by auto
    next
      case own: False
      show ?thesis
      proof (cases "judge l1 (cm_operation q) (fp_of c q) (cb_tabId (cm_body q))")
        case Perform
        then show ?thesis
          using run' own perform_tab_inv [OF Perform] ls by (auto split: prod.splits intro!: lane_put_all)
      qed (use run' own other ls in \<open>auto intro!: lane_put_all\<close>)
    qed
  qed
qed

lemma touch_tab_inv:
  assumes "list_all (\<lambda>e. tab_inv (snd e)) (fst s)" shows "list_all (\<lambda>e. tab_inv (snd e)) (fst (fst (ledger_touch c now k owner s)))"
proof -
  have t0: "list_all (\<lambda>e. tab_inv (snd e)) (fst (ledger_collect now s))" unfolding ledger_collect_lanes by (rule filter_all [OF assms])
  have "map_of (fst (ledger_collect now s)) k = Some l \<Longrightarrow>
      list_all (\<lambda>e. tab_inv (snd e)) (lane_put k (l\<lparr>ln_expires := x\<rparr>) (fst (ledger_collect now s)))" for l x
    using t0 map_of_all [OF t0, of k l] by (intro lane_put_all) (auto simp: list_all_iff)
  then show ?thesis using t0 by (simp add: ledger_touch_def Let_def split: option.split)
qed

lemma serve_inv: "ledger_inv c s \<Longrightarrow> ledger_run c now d q s = (s', out, v) \<Longrightarrow> ledger_inv c s'"
  unfolding ledger_inv_def using control_reach.run run_tab_inv by blast

lemma ledger_idle_inv:
  assumes i: "ledger_inv c s" and s: "ledger_idle c U s s'" shows "ledger_inv c s'"
proof -
  obtain g0 tr where g: "control_reach c g0 s tr" and t: "list_all (\<lambda>e. tab_inv (snd e)) (fst s)" using i by (auto simp: ledger_inv_def)
  have f: "list_all (\<lambda>e. tab_inv (snd e)) (fst (ledger_collect now s))" "list_all (\<lambda>e. tab_inv (snd e)) (fst (ledger_revoke owner s))" for now owner
    using filter_all [OF t] by (simp_all add: ledger_collect_lanes ledger_revoke_def ledger_drop_def)
  from s show ?thesis unfolding ledger_idle_def
  proof (elim disjE exE conjE)
    fix now q out v assume "ledger_serve c now q s s' out v"
    then obtain d where "ledger_run c now d q s = (s', out, v)" by (auto simp: ledger_serve_def)
    then show ?thesis by (rule serve_inv [OF i])
  next
    fix now k owner assume "s' = fst (ledger_touch c now k owner s)"
    then show ?thesis unfolding ledger_inv_def using control_reach.touch [OF g] touch_tab_inv [OF t] by blast
  next
    fix owner assume "s' = ledger_revoke owner s"
    then show ?thesis unfolding ledger_inv_def using control_reach.revoke [OF g] f by blast
  next
    fix now assume "s' = ledger_collect now s"
    then show ?thesis unfolding ledger_inv_def using control_reach.collect [OF g] f by blast
  qed
qed

lemma idle_lane:
  assumes i: "ledger_inv c s" and s: "ledger_idle c U s s'" and k: "k \<in> U"
  shows "map_option lane_core (ledger_lane_of s' k) = map_option lane_core (ledger_lane_of s k) \<or> ledger_lane_of s' k = None"
proof -
  note d = ledger_inv_distinct [OF i]
  have f: "map_of (filter P (fst s)) k = map_of (fst s) k \<or> map_of (filter P (fst s)) k = None" for P
    by (rule map_of_filter_distinct [OF d])
  have dropped: ?thesis if "fst s' = filter P (fst s)" for P
    using f [of P] that by (cases "map_of (filter P (fst s)) k = None") (auto simp: ledger_lane_of_def)
  from s show ?thesis unfolding ledger_idle_def
  proof (elim disjE exE conjE)
    fix now q out v assume q: "cm_client q \<notin> U" "ledger_serve c now q s s' out v"
    then obtain d' where "ledger_run c now d' q s = (s', out, v)" by (auto simp: ledger_serve_def)
    moreover have "k \<noteq> cm_client q" using q k by auto
    ultimately show ?thesis using serve_other [OF i] by metis
  next
    fix now k' owner assume s': "s' = fst (ledger_touch c now k' owner s)"
    define s0 where "s0 = ledger_collect now s"
    have c0: "map_of (fst s0) k = map_of (fst s) k \<or> map_of (fst s0) k = None" using f by (simp add: s0_def ledger_collect_lanes)
    show ?thesis
    proof (cases "fst s' = fst s0")
      case False
      then obtain l where l: "map_of (fst s0) k' = Some l" "fst s' = lane_put k' (l\<lparr>ln_expires := now + lc_ttl c\<rparr>) (fst s0)"
        unfolding s' ledger_touch_def s0_def [symmetric] Let_def by (auto split: option.splits if_splits)
      have "map_of (lane_put k' (l\<lparr>ln_expires := now + lc_ttl c\<rparr>) (fst s0)) k' = Some (l\<lparr>ln_expires := now + lc_ttl c\<rparr>)"
        using l(1) by (intro lane_put_get) simp
      moreover have "map_of (fst s) k = Some l" if "k = k'" using c0 l(1) that by simp
      ultimately show ?thesis using l(2) c0 by (cases "k = k'") (simp_all add: ledger_lane_of_def lane_core_def, metis)
    qed (use c0 in \<open>auto simp: ledger_lane_of_def\<close>)
  next
    fix owner assume "s' = ledger_revoke owner s"
    then show ?thesis by (intro dropped) (simp add: ledger_revoke_def ledger_drop_def)
  next
    fix now assume "s' = ledger_collect now s"
    then show ?thesis by (intro dropped) (simp add: ledger_collect_lanes)
  qed
qed

lemma lane_done_core:
  assumes "\<And>o'. out = Inr (Entry o') \<Longrightarrow> on_tabId o' = t" "ln_tabId l = Some t"
  shows "lane_core (lane_done op f out l) = (op, Some f, Some t, ln_owner l)"
  using assms by (auto simp: lane_core_def lane_done_def Let_def split: sum.split control_result.split)

lemma judge_next: "1 \<le> ln_operation l \<Longrightarrow> ln_tabId l = i \<Longrightarrow> judge l (ln_operation l + 1) f i = Perform"
  by (simp add: judge_def)

lemma reach_operation: "ledger_inv c s \<Longrightarrow> ledger_lane_of s k = Some l \<Longrightarrow> ln_outcome l \<noteq> None"
  unfolding ledger_inv_def ledger_lane_of_def using control_reach_tells lanes_tell_get by (fastforce simp: lane_tells_def)

lemma serve_old:
  assumes r: "ledger_run c now d q s = (s', out, v)" and l: "ledger_lane_of s (cm_client q) = Some l"
    and live: "ledger_live now s (cm_client q)" and op: "cm_operation q < ln_operation l"
  shows "(\<exists>e. out = Inl e) \<and> map_option lane_core (ledger_lane_of s' (cm_client q)) = Some (lane_core l)"
proof (cases "valid_client (cm_client q) \<and> 1 \<le> cm_operation q \<and> ln_owner l = cm_owner q")
  case True
  note sv = serve_lane [OF r l live, simplified True]
  have v: "v = Some (Deny StaleOperation)" using sv(1) op by (simp add: judge_def)
  then show ?thesis using sv(2) by (auto simp: lane_core_def)
next
  case False
  define s0 where "s0 = ledger_collect now s"
  have m: "map_of (fst s0) (cm_client q) = Some l" unfolding s0_def by (rule collect_live [OF l live])
  have lane: "ledger_lane c (cm_client q) (cm_operation q) (cb_tabId (cm_body q)) (cm_owner q) s0 = Some (l, (fst s0, snd s0))"
    using m by (simp add: ledger_lane_def)
  have "s' = s0 \<and> (\<exists>e. out = Inl e)"
    using False r [unfolded ledger_run_def Let_def s0_def [symmetric] lane option.case prod.case]
    by (auto split: if_splits)
  then show ?thesis using m by (auto simp: ledger_lane_of_def)
qed

lemma serve_entry:
  assumes i: "ledger_inv c s" and r: "ledger_run c now d q s = (s', Inr (Entry o'), v)" and t: "cb_tabId (cm_body q) = Some t"
    and l: "ledger_lane_of s (cm_client q) = None \<or> map_option ln_tabId (ledger_lane_of s (cm_client q)) = Some (Some t)"
  shows "on_tabId o' = t"
proof -
  define s0 where "s0 = ledger_collect now s"
  from r s0_def show ?thesis
  proof (cases rule: ledger_run_cases)
    case (answered x a)
    then have x: "map_of (fst s0) (cm_client q) = Some x" "ln_outcome x = Some (Inr (Entry o'))" using judge_Replay by fastforce+
    then have "ledger_lane_of s (cm_client q) = Some x"
      using map_of_filter_distinct [OF ledger_inv_distinct [OF i], of "\<lambda>e. \<not> ln_expires (snd e) \<le> now" "cm_client q"]
      unfolding s0_def ledger_collect_lanes ledger_lane_of_def by simp
    moreover have "tab_inv x"
      by (rule map_of_all [where ls = "fst s" and k = "cm_client q"]) (use i calculation in \<open>simp_all add: ledger_inv_def ledger_lane_of_def\<close>)
    ultimately show ?thesis using x l by (simp add: tab_inv_def)
  next
    case (performed x ls g g')
    from perform_tab [OF performed(5) t] show ?thesis .
  qed simp
qed

interpretation lanes: command_server "ledger_inv c" ledger_lane_of ledger_live "fp_of c" "ledger_serve c" "ledger_idle c U"
    "\<lambda>k. k \<in> U" valid_client for c U
proof (unfold_locales, goal_cases)
  case (1 s now q s' out v)
  then show ?case using serve_inv unfolding ledger_serve_def by blast
next
  case (2 s s')
  then show ?case by (rule ledger_idle_inv)
next
  case (3 s now q s' out v t)
  then obtain d where r: "ledger_run c now d q s = (s', out, v)" by (auto simp: ledger_serve_def)
  have ok: "valid_client (cm_client q)" using 3 by simp
  obtain l g g' where l: "v = Some Perform" "ledger_lane_of s' (cm_client q) = Some (lane_done 1 (fp_of c q) out l)" "ln_owner l = cm_owner q"
      "ln_tabId l = Some t" "gw_perform (lc_gateway c) now d (cm_owner q) (cm_name q) (cm_body q) g = (g', out)"
    using serve_first [OF r 3(3) ok 3(5)] 3(6) by auto
  then show ?case using lane_done_core [of out t l 1 "fp_of c q"] perform_tab 3(6) by fastforce
next
  case (4 s now q s' out v l n f t)
  then obtain d where r: "ledger_run c now d q s = (s', out, v)" by (auto simp: ledger_serve_def)
  have core: "ln_operation l = n" "ln_tabId l = Some t" "ln_owner l = cm_owner q" using 4(5) by (simp_all add: lane_core_def)
  have ok: "valid_client (cm_client q)" "1 \<le> cm_operation q" using 4 by simp_all
  note sv = serve_lane [OF r 4(3,4) ok core(3)]
  have v: "v = Some Perform" using sv(1) judge_next [of l "Some t"] core 4 by simp
  then obtain g g' where l': "ledger_lane_of s' (cm_client q) = Some (lane_done (cm_operation q) (fp_of c q) out (l\<lparr>ln_expires := now + lc_ttl c\<rparr>))"
      "gw_perform (lc_gateway c) now d (cm_owner q) (cm_name q) (cm_body q) g = (g', out)" using sv(2) by auto
  have "out = Inr (Entry o') \<Longrightarrow> on_tabId o' = t" for o' using perform_tab l'(2) 4(9) by blast
  then show ?case using v l'(1) lane_done_core [of out t "l\<lparr>ln_expires := now + lc_ttl c\<rparr>"] core 4(6) by simp
next
  case (5 s now q s' out v l t)
  then obtain d where r: "ledger_run c now d q s = (s', out, v)" by (auto simp: ledger_serve_def)
  have core: "ln_operation l = cm_operation q" "ln_fingerprint l = Some (fp_of c q)" "ln_owner l = cm_owner q"
    using 5(5) by (simp_all add: lane_core_def)
  have ok: "valid_client (cm_client q)" "1 \<le> cm_operation q" using 5 by simp_all
  note sv = serve_lane [OF r 5(3,4) ok core(3)]
  obtain x where x: "ln_outcome l = Some x" using reach_operation [OF 5(1,3)] by auto
  then have v: "v = Some (Replay x)" using sv(1) core by (simp add: judge_def)
  then show ?case using sv(2) r core x by (auto simp: lane_core_def ledger_run_def Let_def split: if_splits option.splits verdict.splits prod.splits)
next
  case (6 s now q s' out v l)
  then obtain d where r: "ledger_run c now d q s = (s', out, v)" by (auto simp: ledger_serve_def)
  show ?case by (rule serve_old [OF r 6(3-5)])
next
  case (7 s now q s' o' v t)
  then obtain d where r: "ledger_run c now d q s = (s', Inr (Entry o'), v)" by (auto simp: ledger_serve_def)
  show ?case by (rule serve_entry [OF 7(1) r 7(3,4)])
next
  case (8 s now q s' out v k)
  then obtain d where r: "ledger_run c now d q s = (s', out, v)" by (auto simp: ledger_serve_def)
  show ?case by (rule serve_other [OF 8(1) r 8(3)])
next
  case (9 s s' k)
  then show ?case by (rule idle_lane)
qed

text \<open>A toolbar tab and the ledger of the server; \<open>U\<close> are the identifiers that the tab may draw.\<close>

definition toolbar ::
  "ctl_env \<Rightarrow> string option \<Rightarrow> ledger_cfg \<Rightarrow> string set \<Rightarrow> gateway \<Rightarrow> ctl \<Rightarrow> control_state \<Rightarrow> command set \<Rightarrow> (command \<times> answer) set \<Rightarrow> bool" where
  "toolbar E ow c U g0 = wire E ow ledger_lane_of ledger_live (ledger_serve c) (ledger_idle c U) ([], g0)"

lemma valid_ne: "valid_client k \<Longrightarrow> k \<noteq> []"
  unfolding valid_client_def by (metis list.size(3) zero_neq_numeral)

text \<open>C6. What a tab asks for is carried out, over a network that loses, delays and repeats requests and
  answers, with other tabs at work: as long as the server keeps the tab's lane, the command that has no
  answer yet is performed when it arrives first and answered from the lane when it arrives again; it is
  never refused as stale, changed, of another tab or of another session.\<close>

theorem pending_is_carried_out:
  assumes w: "toolbar E ow c U g0 s S sent given" and p: "ct_pending s = Some q"
    and ids: "inj (ce_uuid E)" "range (ce_uuid E) \<subseteq> U" "\<And>k. k < ct_ids s \<Longrightarrow> valid_client (ce_uuid E k)"
    and al: "ledger_lane_of S (cm_client q) = None \<or> ledger_live now S (cm_client q)"
    and r: "ledger_run c now d (q\<lparr>cm_owner := ow\<rparr>) S = (S', out, v)"
  shows "v = Some Perform \<or> v = Some (Replay out)"
proof (rule lanes.carried_out [OF w [unfolded toolbar_def] _ _ _ ids(1) _ p al])
  show "ledger_inv c ([], g0)" by (auto simp: ledger_inv_def intro: control_reach.start)
  show "ledger_lane_of ([], g0) (ce_uuid E k) = None" for k by (simp add: ledger_lane_of_def)
  show "ce_uuid E k \<in> U" for k using ids(2) by auto
  show "k < ct_ids s \<Longrightarrow> valid_client (ce_uuid E k) \<and> ce_uuid E k \<noteq> []" for k
    using ids(3) [of k] valid_ne by simp
  show "ledger_serve c now (q\<lparr>cm_owner := ow\<rparr>) S S' out v" using r by (auto simp: ledger_serve_def)
qed

text \<open>A tab that opened its first page, whose request is lost once and then arrives.\<close>

lemma toolbar_event:
  "toolbar E ow c U g0 s S sent given \<Longrightarrow> allowed ev s given \<Longrightarrow>
   toolbar E ow c U g0 (fst (ctl_do E ev s)) S (sent \<union> requests (snd (ctl_do E ev s))) given"
  unfolding toolbar_def by (erule (1) wire.client) simp

definition demo_uuid :: "nat \<Rightarrow> string" where
  "demo_uuid n = (if n < 2 then replicate 35 (CHR ''a'') @ [if n = 0 then CHR ''0'' else CHR ''1''] else replicate (n + 40) (CHR ''b''))"

definition demo_env :: ctl_env where
  "demo_env = \<lparr>ce_uuid = demo_uuid, ce_platform = demo_platform, ce_href = id\<rparr>"

lemma demo_uuid_inj: "inj demo_uuid"
proof (rule injI)
  fix m n assume "demo_uuid m = demo_uuid n"
  moreover have "length (demo_uuid k) = (if k < 2 then 36 else k + 40)" for k by (simp add: demo_uuid_def)
  ultimately have "(if m < 2 then 36 else m + 40) = (if n < 2 then 36 else n + 40)" by metis
  then consider "m = n" | "m < 2" "n < 2" by (auto split: if_splits)
  then show "m = n"
  proof cases
    case 2
    then show ?thesis using \<open>demo_uuid m = demo_uuid n\<close> by (auto simp: demo_uuid_def split: if_splits)
  qed
qed

lemma demo_uuid_valid: "k < 2 \<Longrightarrow> valid_client (demo_uuid k)"
  by (auto simp: demo_uuid_def valid_client_def)

theorem pending_is_carried_out_witness:
  "\<exists>(s :: ctl) q. ct_pending s = Some q \<and>
     (\<forall>now d S' out v. ledger_run demo_ledger now d q ([], gw_empty demo_reg) = (S', out, v) \<longrightarrow> v = Some Perform \<or> v = Some (Replay out))"
proof -
  let ?run = "toolbar demo_env None demo_ledger UNIV (gw_empty demo_reg)"
  define s1 where "s1 = fst (ctl_do demo_env (Open ''https://x.a.com'') (ctl_new demo_env None))"
  obtain q where q: "ct_pending (fst (ctl_do demo_env (Begin None) s1)) = Some q" and id: "q\<lparr>cm_owner := None\<rparr> = q"
      and ids: "ct_ids (fst (ctl_do demo_env (Begin None) s1)) = 2"
    by (simp add: s1_def ctl_open_def enqueue_def ctl_new_def begin_task_def go_on_def issue_for_def and_then_def issue_def Let_def)
  have "?run (ctl_new demo_env None) ([], gw_empty demo_reg) {} {}" unfolding toolbar_def by (rule wire.start)
  moreover have al: "allowed (Open ''https://x.a.com'') s {}" "allowed (Begin None) s {}" for s by (simp_all add: allowed_def)
  ultimately have "?run s1 ([], gw_empty demo_reg) ({} \<union> requests (snd (ctl_do demo_env (Open ''https://x.a.com'') (ctl_new demo_env None)))) {}"
    unfolding s1_def by (intro toolbar_event)
  from toolbar_event [OF this al(2)]
  obtain x2 where w: "?run (fst (ctl_do demo_env (Begin None) s1)) ([], gw_empty demo_reg) x2 {}" by (rule that)
  have "v = Some Perform \<or> v = Some (Replay out)"
    if "ledger_run demo_ledger now d q ([], gw_empty demo_reg) = (S', out, v)" for now d S' out v
  proof -
    have r: "ledger_run demo_ledger now d (q\<lparr>cm_owner := None\<rparr>) ([], gw_empty demo_reg) = (S', out, v)" using that by (simp only: id)
    have e: "ce_uuid demo_env = demo_uuid" by (simp add: demo_env_def)
    show ?thesis
      by (rule pending_is_carried_out [OF w q _ _ _ _ r])
        (simp_all only: e ids demo_uuid_inj demo_uuid_valid subset_UNIV ledger_lane_of_def fst_conv map_of.simps simp_thms)
  qed
  with q show ?thesis by (intro exI [of _ "fst (ctl_do demo_env (Begin None) s1)"] exI [of _ q]) simp
qed

end
