(* ===== verification/BlTabHistory.thy ===== *)
theory BlTabHistory
  imports BlController
begin

text \<open>
  \<^verbatim>\<open>browser-lite/proxy/wrapper.js\<close>, one tab of the toolbar: its history, which is put together from the
  reports of the pages it shows, and Back, Forward, reload and retry. What the tab saves and restores is
  here too. The tab's controller is the one of \<^theory_text>\<open>BlController\<close>. The status line, the address field
  and the buttons of the page are left out. A failed command is an event that says whether it resets the tab.
\<close>

section \<open>State\<close>

record hentry =
  he_id :: string
  he_url :: string
  he_doc :: string

text \<open>Where in the history the page that is being opened goes; \<open>tg_previous\<close> is where the tab was.\<close>

record target =
  tg_position :: int
  tg_url :: string
  tg_previous :: "int option"
  tg_sequence :: nat
  tg_epoch :: "int option"
  tg_tab :: "string option"

text \<open>What the loop over the requested steps waits for.\<close>

datatype waiting = Idle | ForTraversal | ForOpening

record wtab =
  wt_ctl :: ctl
  wt_history :: "hentry list"
  wt_position :: int
  wt_state :: "(shown \<times> bool) option"
  wt_pendingUrl :: "string option"
  wt_pendingTitle :: string
  wt_pendingHistory :: "(hentry list \<times> int) option"
  wt_target :: "target option"
  wt_journal :: "(string \<times> int) option"
  wt_generation :: nat
  wt_queue :: "int list"
  wt_waiting :: waiting
  wt_since :: nat

datatype wt_out = Depth string int | Control ctl_out

text \<open>\<open>wt_since\<close> is the generation the running loop began in. An entry of an array, where it is in range.\<close>

definition entry_at :: "hentry list \<Rightarrow> int \<Rightarrow> hentry option" where
  "entry_at h i = (if 0 \<le> i \<and> i < int (length h) then Some (h ! nat i) else None)"

definition state_url :: "wtab \<Rightarrow> string" where
  "state_url t = (case wt_state t of None \<Rightarrow> [] | Some (p, _) \<Rightarrow> sh_url p)"

definition wt_new :: "ctl \<Rightarrow> wtab" where
  "wt_new c =
     \<lparr>wt_ctl = c, wt_history = [], wt_position = -1, wt_state = None, wt_pendingUrl = None, wt_pendingTitle = [],
      wt_pendingHistory = None, wt_target = None, wt_journal = None, wt_generation = 0, wt_queue = [], wt_waiting = Idle, wt_since = 0\<rparr>"

section \<open>A page reports\<close>

fun find_doc :: "string \<Rightarrow> hentry list \<Rightarrow> nat option" where
  "find_doc d [] = None"
| "find_doc d (e # es) = (if he_doc e = d then Some 0 else map_option Suc (find_doc d es))"

definition doc_entries :: "doc_report \<Rightarrow> hentry list" where
  "doc_entries h = map (\<lambda>(i, a). \<lparr>he_id = i, he_url = a, he_doc = hr_doc h\<rparr>) (hr_entries h)"

text \<open>\<open>splice\<close>: from a position on, remove some entries and put others in. A negative position counts from the end.\<close>

definition splice_at :: "int \<Rightarrow> nat \<Rightarrow> nat" where
  "splice_at i len = (if i < 0 then nat (int len + i) else min (nat i) len)"

definition splice :: "int \<Rightarrow> nat \<Rightarrow> 'a list \<Rightarrow> 'a list \<Rightarrow> 'a list" where
  "splice i n new xs = take (splice_at i (length xs)) xs @ new @ drop (splice_at i (length xs) + n) xs"

definition replacing :: "shown \<Rightarrow> wtab \<Rightarrow> bool" where
  "replacing p t \<longleftrightarrow>
     (case wt_target t of
        None \<Rightarrow> False
      | Some g \<Rightarrow> tg_sequence g = ct_sequence (wt_ctl t) \<and> tg_epoch g = Some (sh_epoch p) \<and> tg_tab g = Some (sh_tab p))"

text \<open>Where the entries of the document go, and the history with them.\<close>

definition merge_history :: "shown \<Rightarrow> doc_report \<Rightarrow> wtab \<Rightarrow> int \<times> hentry list" where
  "merge_history p h t =
     (let new = doc_entries h; hist = wt_history t
      in case find_doc (hr_doc h) hist of
           None \<Rightarrow>
             (let slot = (case wt_target t of Some g \<Rightarrow> if replacing p t then tg_position g else wt_position t + 1 | None \<Rightarrow> wt_position t + 1);
                  start = min slot (int (length hist));
                  kept = (if replacing p t then hist else splice start (length hist) [] hist)
              in (start, splice start (if replacing p t then 1 else 0) new kept))
         | Some start \<Rightarrow>
             (let count = length (takeWhile (\<lambda>e. he_doc e = hr_doc h) (drop start hist)); merged = splice (int start) count new hist
              in (int start, if sh_kind p = ''push'' then splice (int (start + length new)) (length merged) [] merged else merged)))"

definition report :: "shown \<Rightarrow> wtab \<Rightarrow> wtab \<times> wt_out list" where
  "report p t =
     (case sh_history p of
        None \<Rightarrow> (t, [])
      | Some h \<Rightarrow>
          if wt_journal t = Some (hr_doc h, hr_sequence h) then (t, [])
          else (case merge_history p h t of
                  (start, hist) \<Rightarrow>
                    (t\<lparr>wt_history := hist, wt_position := start + hr_index h, wt_journal := Some (hr_doc h, hr_sequence h),
                       wt_target := (if find_doc (hr_doc h) (wt_history t) = None then None else wt_target t)\<rparr>,
                     [Depth (hr_doc h) (int (length hist) - int (length (hr_entries h)))])))"

definition update :: "shown \<Rightarrow> bool \<Rightarrow> wtab \<Rightarrow> wtab \<times> wt_out list" where
  "update p loading t =
     (if \<not> loading \<and> (case wt_target t of Some g \<Rightarrow> tg_epoch g = None | None \<Rightarrow> False) then (t, [])
      else let t1 = (case wt_target t of
                       Some g \<Rightarrow>
                         if \<not> loading then t
                         else if tg_sequence g = ct_sequence (wt_ctl t)
                         then t\<lparr>wt_target := Some (g\<lparr>tg_epoch := Some (sh_epoch p), tg_tab := Some (sh_tab p)\<rparr>)\<rparr>
                         else t\<lparr>wt_target := None\<rparr>
                     | None \<Rightarrow> t);
               t2 = t1\<lparr>wt_state := Some (p, loading)\<rparr>
           in if loading then (t2, []) else report p t2)"

section \<open>The controller\<close>

text \<open>The controller's callbacks about what the page shows come back as updates.\<close>

fun heard_of :: "ctl_out list \<Rightarrow> wtab \<Rightarrow> wtab \<times> wt_out list" where
  "heard_of [] t = (t, [])"
| "heard_of (OnState p l # os) t = (case update p l t of (t1, o1) \<Rightarrow> (case heard_of os t1 of (t2, o2) \<Rightarrow> (t2, o1 @ o2)))"
| "heard_of (o' # os) t = (case heard_of os t of (t2, o2) \<Rightarrow> (t2, Control o' # o2))"

definition with_ctl :: "ctl_step \<Rightarrow> wtab \<Rightarrow> wtab \<times> wt_out list" where
  "with_ctl f t = (case f (wt_ctl t) of (c, outs) \<Rightarrow> heard_of outs (t\<lparr>wt_ctl := c\<rparr>))"

text \<open>A new navigation: the steps asked for before are off.\<close>

definition new_generation :: "wtab \<Rightarrow> wtab \<times> wt_out list" where
  "new_generation t = with_ctl cancelTraversal (t\<lparr>wt_generation := Suc (wt_generation t)\<rparr>)"

definition then_do :: "wtab \<times> wt_out list \<Rightarrow> (wtab \<Rightarrow> wtab \<times> wt_out list) \<Rightarrow> wtab \<times> wt_out list" where
  "then_do r f = (case f (fst r) of (t, os) \<Rightarrow> (t, snd r @ os))"

section \<open>Opening\<close>

definition new_target :: "int \<Rightarrow> string \<Rightarrow> int option \<Rightarrow> wtab \<Rightarrow> target" where
  "new_target i a prev t =
     \<lparr>tg_position = i, tg_url = a, tg_previous = prev, tg_sequence = Suc (ct_sequence (wt_ctl t)), tg_epoch = None, tg_tab = None\<rparr>"

definition openInPlace :: "string \<Rightarrow> wtab \<Rightarrow> wtab \<times> wt_out list" where
  "openInPlace a t =
     then_do (new_generation t)
       (\<lambda>t. with_ctl (ctl_open a)
              (t\<lparr>wt_queue := [], wt_target := Some (new_target (wt_position t) a (Some (wt_position t)) t)\<rparr>))"

definition keepUnreported :: "string \<Rightarrow> wtab \<Rightarrow> wtab" where
  "keepUnreported uid t =
     (case wt_state t of
        Some (p, True) \<Rightarrow>
          if sh_url p = [] \<or> map_option he_url (entry_at (wt_history t) (wt_position t)) = Some (sh_url p) then t
          else (let h = take (nat (wt_position t + 1)) (wt_history t) @ [\<lparr>he_id = ''pending-'' @ uid, he_url = sh_url p, he_doc = ''pending:'' @ uid\<rparr>]
                in t\<lparr>wt_history := h, wt_position := int (length h) - 1\<rparr>)
      | _ \<Rightarrow> t)"

text \<open>\<open>addr\<close> is the address the entered text stands for, None where it is refused.\<close>

definition go_to :: "string \<Rightarrow> bool \<Rightarrow> string option \<Rightarrow> wtab \<Rightarrow> wtab \<times> wt_out list" where
  "go_to uid retried addr t =
     then_do (new_generation t)
       (\<lambda>t. let t1 = (if retried then t else keepUnreported uid t);
                pos = (case wt_target t1 of
                         Some g \<Rightarrow> (case (tg_epoch g, tg_previous g) of (None, Some i) \<Rightarrow> i | _ \<Rightarrow> wt_position t1)
                       | None \<Rightarrow> wt_position t1);
                t2 = t1\<lparr>wt_position := pos, wt_target := None, wt_queue := []\<rparr>
            in case addr of None \<Rightarrow> (t2, []) | Some a \<Rightarrow> with_ctl (ctl_open a) t2)"

text \<open>Both try once more when the server has forgotten the tab.\<close>

definition place_failed :: "ctl_env \<Rightarrow> string \<Rightarrow> bool \<Rightarrow> bool \<Rightarrow> wtab \<Rightarrow> wtab \<times> wt_out list" where
  "place_failed E a reset retried t =
     (if reset \<and> \<not> retried then then_do (with_ctl (expire E) t) (openInPlace a) else (t, []))"

definition go_failed :: "ctl_env \<Rightarrow> string option \<Rightarrow> bool \<Rightarrow> bool \<Rightarrow> bool \<Rightarrow> wtab \<Rightarrow> wtab \<times> wt_out list" where
  "go_failed E addr active reset retried t =
     (if reset \<and> \<not> retried \<and> active then then_do (with_ctl (expire E) t) (go_to [] True addr) else (t, []))"

definition reopen :: "ctl_env \<Rightarrow> string \<Rightarrow> (string \<Rightarrow> string option) \<Rightarrow> bool \<Rightarrow> wtab \<Rightarrow> wtab \<times> wt_out list" where
  "reopen E uid address active t =
     (let a = state_url t
      in if a = [] then (t, [])
         else then_do (with_ctl (expire E) t)
                (\<lambda>t. if \<not> active then (t\<lparr>wt_pendingUrl := Some a\<rparr>, [])
                     else if map_option he_url (entry_at (wt_history t) (wt_position t)) = Some a then openInPlace a t
                     else go_to uid False (address a) t))"

text \<open>The tab is shown: its state is shown again, and a page that was put off is opened.\<close>

definition show_tab :: "string \<Rightarrow> (string \<Rightarrow> string option) \<Rightarrow> wtab \<Rightarrow> wtab \<times> wt_out list" where
  "show_tab uid address t =
     then_do (case wt_state t of Some (p, l) \<Rightarrow> update p l t | None \<Rightarrow> (t, []))
       (\<lambda>t. case wt_pendingUrl t of
              None \<Rightarrow> (t, [])
            | Some a \<Rightarrow>
                (let t1 = (case wt_pendingHistory t of
                             Some (h, i) \<Rightarrow> t\<lparr>wt_pendingUrl := None, wt_history := h, wt_position := i, wt_pendingHistory := None\<rparr>
                           | None \<Rightarrow> t\<lparr>wt_pendingUrl := None\<rparr>)
                 in if map_option he_url (entry_at (wt_history t1) (wt_position t1)) = Some a then openInPlace a t1
                    else go_to uid False (address a) t1))"

section \<open>Back, Forward, reload\<close>

text \<open>The steps of the queue, up to the first that has to be waited for; \<open>exists\<close> says that the tab is open.\<close>

fun history_loop :: "ctl_env \<Rightarrow> bool \<Rightarrow> int list \<Rightarrow> wtab \<Rightarrow> wtab \<times> wt_out list" where
  "history_loop E exists [] t = (t\<lparr>wt_queue := [], wt_waiting := Idle\<rparr>, [])"
| "history_loop E exists (step # steps) t =
     (if \<not> exists \<or> wt_since t \<noteq> wt_generation t then (t\<lparr>wt_queue := step # steps, wt_waiting := Idle\<rparr>, [])
      else if step = 0
      then with_ctl (ctl_open (state_url t))
             (t\<lparr>wt_queue := steps, wt_waiting := ForOpening, wt_target := Some (new_target (wt_position t) (state_url t) None t)\<rparr>)
      else case entry_at (wt_history t) (wt_position t + step) of
             None \<Rightarrow> history_loop E exists steps t
           | Some e \<Rightarrow>
               if Some (he_doc e) = ct_doc (wt_ctl t)
               then (case ctl_traverse E (he_id e) (wt_ctl t) of
                       (c, outs, ok) \<Rightarrow>
                         (case heard_of outs (t\<lparr>wt_ctl := c, wt_queue := steps, wt_waiting := ForTraversal\<rparr>) of
                            (t1, o1) \<Rightarrow> (t1, if ok then o1 else o1 @ [Control (Traversed False)])))
               else with_ctl (ctl_open (he_url e))
                      (t\<lparr>wt_queue := steps, wt_waiting := ForOpening,
                         wt_target := Some (new_target (wt_position t + step) (he_url e) (Some (wt_position t)) t),
                         wt_position := wt_position t + step\<rparr>))"

definition history :: "ctl_env \<Rightarrow> int \<Rightarrow> wtab \<Rightarrow> wtab \<times> wt_out list" where
  "history E delta t =
     (let t1 = t\<lparr>wt_queue := wt_queue t @ [delta]\<rparr>
      in if wt_waiting t \<noteq> Idle then (t1, []) else history_loop E True (wt_queue t1) (t1\<lparr>wt_since := wt_generation t1\<rparr>))"

text \<open>What the loop waited for went well or did not.\<close>

definition waited :: "ctl_env \<Rightarrow> bool \<Rightarrow> bool \<Rightarrow> wtab \<Rightarrow> wtab \<times> wt_out list" where
  "waited E exists ok t =
     (if wt_waiting t = Idle then (t, [])
      else if ok
      then (if wt_waiting t = ForTraversal then history_loop E exists (wt_queue t) t
            else (t\<lparr>wt_queue := [], wt_waiting := Idle\<rparr>, []))
      else if wt_since t \<noteq> wt_generation t then (t\<lparr>wt_waiting := Idle\<rparr>, [])
      else (t\<lparr>wt_position := (case wt_target t of Some g \<Rightarrow> (case tg_previous g of Some i \<Rightarrow> i | None \<Rightarrow> wt_position t) | None \<Rightarrow> wt_position t),
              wt_target := (if ct_pending (wt_ctl t) = None then None else wt_target t), wt_queue := [], wt_waiting := Idle\<rparr>, []))"

definition retry_page :: "wtab \<Rightarrow> wtab \<times> wt_out list" where
  "retry_page t =
     (let c = wt_ctl t; free = (ct_pending c = None);
          t1 = t\<lparr>wt_generation := Suc (wt_generation t), wt_queue := [],
                 wt_target := map_option (\<lambda>g. g\<lparr>tg_epoch := None, tg_tab := None,
                     tg_sequence := (if free then Suc (ct_sequence c) else tg_sequence g)\<rparr>) (wt_target t)\<rparr>
      in case wt_target t1 of
           Some g \<Rightarrow> if free then with_ctl (ctl_open (tg_url g)) t1 else with_ctl ctl_retry t1
         | None \<Rightarrow> with_ctl ctl_retry t1)"

section \<open>The history is the pages'\<close>

lemma find_doc_Some: "find_doc d es = Some i \<Longrightarrow> i < length es \<and> he_doc (es ! i) = d"
  by (induction es arbitrary: i) (auto split: if_splits)

lemma splice_at_le: "splice_at i len \<le> len" by (auto simp: splice_at_def)

lemma splice_at_nonneg: "0 \<le> i \<Longrightarrow> i \<le> int len \<Longrightarrow> int (splice_at i len) = i" by (auto simp: splice_at_def)

lemma splice_parts:
  "take (splice_at i (length xs)) (splice i n new xs) = take (splice_at i (length xs)) xs"
  "take (length new) (drop (splice_at i (length xs)) (splice i n new xs)) = new"
  "drop (splice_at i (length xs) + length new) (splice i n new xs) = drop (splice_at i (length xs) + n) xs"
  using splice_at_le [of i "length xs"] by (simp_all add: splice_def)

lemma splice_rest_gone: "splice i (length xs) [] xs = take (splice_at i (length xs)) xs"
  by (simp add: splice_def)

lemma doc_entries_length [simp]: "length (doc_entries h) = length (hr_entries h)"
  by (simp add: doc_entries_def)

text \<open>A history with the document's entries at \<open>start\<close>; \<open>n\<close> of the old ones went, or all that were ahead.\<close>

definition merged :: "nat \<Rightarrow> doc_report \<Rightarrow> hentry list \<Rightarrow> hentry list \<Rightarrow> bool" where
  "merged start h old new \<longleftrightarrow>
     start \<le> length old \<and> take start new = take start old \<and> take (length (hr_entries h)) (drop start new) = doc_entries h \<and>
     (\<exists>n \<ge> start. drop (start + length (hr_entries h)) new \<in> {drop n old, []})"

lemma merged_splice: "merged (splice_at i (length old)) h old (splice i n (doc_entries h) old)"
  using splice_at_le [of i "length old"] splice_parts [where i = i and xs = old and n = n and new = "doc_entries h"]
  by (auto simp: merged_def intro!: exI [of _ "splice_at i (length old) + n"])

lemma merged_cut: "merged k h old new \<Longrightarrow> merged k h old (take (k + length (hr_entries h)) new)"
  by (auto simp: merged_def drop_take min_def)

lemma merge_history_merged:
  assumes "merge_history p h t = (start, new)" "-1 \<le> wt_position t"
  shows "merged (splice_at start (length (wt_history t))) h (wt_history t) new \<and> start \<le> int (length (wt_history t)) \<and>
    ((replacing p t \<longrightarrow> (\<exists>g. wt_target t = Some g \<and> 0 \<le> tg_position g)) \<longrightarrow> 0 \<le> start)"
proof (cases "find_doc (hr_doc h) (wt_history t)")
  case None
  define slot where "slot = (case wt_target t of Some g \<Rightarrow> if replacing p t then tg_position g else wt_position t + 1 | None \<Rightarrow> wt_position t + 1)"
  let ?hist = "wt_history t" and ?k = "splice_at start (length (wt_history t))"
  have st: "start = min slot (int (length ?hist))"
    and nw: "new = splice start (if replacing p t then 1 else 0) (doc_entries h) (if replacing p t then ?hist else splice start (length ?hist) [] ?hist)"
    using assms(1) by (auto simp: merge_history_def None Let_def slot_def)
  have pos: "0 \<le> start" if "replacing p t \<longrightarrow> (\<exists>g. wt_target t = Some g \<and> 0 \<le> tg_position g)"
    using that assms(2) by (auto simp: st slot_def split: option.split)
  have "merged ?k h ?hist new"
  proof (cases "replacing p t")
    case True
    then show ?thesis using nw merged_splice by simp
  next
    case False
    then have k: "int ?k = start" using pos st by (simp add: splice_at_nonneg)
    have le: "?k \<le> length ?hist" by (rule splice_at_le)
    then have "new = splice start 0 (doc_entries h) (take ?k ?hist)" using nw False by (simp add: splice_rest_gone)
    moreover have "splice_at start (length (take ?k ?hist)) = ?k" using k le by (auto simp: splice_at_def)
    ultimately have "new = take ?k ?hist @ doc_entries h" using le by (simp add: splice_def)
    then show ?thesis using le by (auto simp: merged_def intro!: exI [of _ ?k])
  qed
  then show ?thesis using pos st by auto
next
  case (Some i)
  have len: "i < length (wt_history t)" using find_doc_Some [OF Some] by simp
  define n where "n = length (takeWhile (\<lambda>e. he_doc e = hr_doc h) (drop i (wt_history t)))"
  define sp where "sp = splice (int i) n (doc_entries h) (wt_history t)"
  have k: "splice_at (int i) (length (wt_history t)) = i" using len by (simp add: splice_at_def)
  have sp: "merged i h (wt_history t) sp" using merged_splice [of "int i" "wt_history t" h n] by (simp add: sp_def k)
  have le: "i + length (hr_entries h) \<le> length sp" using len by (simp add: sp_def splice_def k)
  have nw: "start = int i \<and> (new = sp \<or> new = splice (int (i + length (hr_entries h))) (length sp) [] sp)"
    using assms(1) by (auto simp: merge_history_def Some Let_def n_def [symmetric] sp_def [symmetric] split: if_splits)
  have "splice (int (i + length (hr_entries h))) (length sp) [] sp = take (i + length (hr_entries h)) sp"
    using le by (simp add: splice_rest_gone splice_at_def del: of_nat_add)
  then have "merged i h (wt_history t) new" using nw sp merged_cut [OF sp] by auto
  then show ?thesis using nw k len by auto
qed

lemma merged_at:
  assumes m: "merged start h old new" and i: "0 \<le> hr_index h" "hr_index h < int (length (hr_entries h))"
  shows "entry_at new (int start + hr_index h) = Some (doc_entries h ! nat (hr_index h))"
proof -
  define k where "k = nat (hr_index h)"
  have k: "k < length (hr_entries h)" "hr_index h = int k" using i by (simp_all add: k_def)
  have b: "take (length (hr_entries h)) (drop start new) = doc_entries h" using m by (simp add: merged_def)
  then have "length (take (length (hr_entries h)) (drop start new)) = length (hr_entries h)" by simp
  then have l: "start + length (hr_entries h) \<le> length new" using k by (simp add: min_def split: if_splits)
  have "new ! (start + k) = take (length (hr_entries h)) (drop start new) ! k" using k l by (simp add: add.commute)
  then show ?thesis using k l b by (simp add: entry_at_def nat_add_distrib)
qed


definition demo_shown :: shown where
  "demo_shown = \<lparr>sh_tab = ''T'', sh_epoch = 1, sh_entry = ''https://r/e'', sh_origin = ''https://r'', sh_url = ''https://a/2'', sh_title = [],
     sh_history = Some \<lparr>hr_doc = ''d'', hr_sequence = 1, hr_index = 1, hr_entries = [(''x'', ''https://a/1''), (''y'', ''https://a/2'')]\<rparr>,
     sh_kind = ''push'', sh_blocked = False, sh_failed = False, sh_failure = []\<rparr>"


text \<open>
  A reload of a tab whose first page has not reported yet: the target is at the position -1, so the entries are put at the
  start, but the tab is one before the one that is shown, here before the first.
\<close>

lemma early_reload_misplaced:
  assumes "ct_sequence c = 1"
  shows "case update (demo_shown\<lparr>sh_history := Some \<lparr>hr_doc = ''d'', hr_sequence = 1, hr_index = 0, hr_entries = [(''x'', ''https://a/2'')]\<rparr>\<rparr>) False
      ((wt_new c)\<lparr>wt_target := Some \<lparr>tg_position = -1, tg_url = ''https://a/2'', tg_previous = None, tg_sequence = 1, tg_epoch = Some 1, tg_tab = Some ''T''\<rparr>\<rparr>) of
    (t', _) \<Rightarrow> map he_url (wt_history t') = [''https://a/2''] \<and> wt_position t' = -1"
  using assms by (simp add: update_def report_def merge_history_def replacing_def splice_def splice_at_def doc_entries_def demo_shown_def wt_new_def Let_def)

section \<open>A step that fails\<close>

lemma open_quiet: "with_ctl (ctl_open a) t =
    (t\<lparr>wt_ctl := fst (ctl_open a (wt_ctl t))\<rparr>, [])"
  by (simp add: with_ctl_def ctl_open_def enqueue_def Let_def)

lemma ctl_open_pending [simp]: "ct_pending (fst (ctl_open a c)) = ct_pending c" "ct_sequence (fst (ctl_open a c)) = Suc (ct_sequence c)"
  by (simp_all add: ctl_open_def enqueue_def Let_def)

text \<open>Back or Forward to another document, when its opening fails: the tab is again where it was, with the
  same history, and takes the next step; and while it was under way the tab was at the entry it was for.\<close>

theorem failed_step_returns:
  assumes "wt_waiting t = Idle" "wt_queue t = []" "delta \<noteq> 0"
    and "entry_at (wt_history t) (wt_position t + delta) = Some e" "Some (he_doc e) \<noteq> ct_doc (wt_ctl t)"
  shows "case history E delta t of (t1, _) \<Rightarrow>
    wt_position t1 = wt_position t + delta \<and> wt_waiting t1 = ForOpening \<and>
    (case waited E True False t1 of (t2, _) \<Rightarrow>
       wt_position t2 = wt_position t \<and> wt_history t2 = wt_history t \<and> wt_waiting t2 = Idle \<and> wt_queue t2 = [])"
  using assms by (simp add: history_def open_quiet waited_def new_target_def)

theorem failed_step_returns_witness:
  "\<forall>c. ct_doc c = None \<longrightarrow>
     (let h = [\<lparr>he_id = ''x'', he_url = ''https://a/'', he_doc = ''d''\<rparr>, \<lparr>he_id = ''y'', he_url = ''https://b/'', he_doc = ''e''\<rparr>];
          t = (wt_new c)\<lparr>wt_history := h, wt_position := 1\<rparr>
      in \<forall>E. wt_position (fst (waited E True False (fst (history E (-1) t)))) = 1)"
  unfolding Let_def
proof (intro allI impI)
  fix c :: ctl and E assume c: "ct_doc c = None"
  let ?h = "[\<lparr>he_id = ''x'', he_url = ''https://a/'', he_doc = ''d''\<rparr>, \<lparr>he_id = ''y'', he_url = ''https://b/'', he_doc = ''e''\<rparr>]"
  let ?t = "(wt_new c)\<lparr>wt_history := ?h, wt_position := 1\<rparr>"
  have "case history E (-1) ?t of (t1, _) \<Rightarrow>
    wt_position t1 = wt_position ?t + -1 \<and> wt_waiting t1 = ForOpening \<and>
    (case waited E True False t1 of (t2, _) \<Rightarrow>
       wt_position t2 = wt_position ?t \<and> wt_history t2 = wt_history ?t \<and> wt_waiting t2 = Idle \<and> wt_queue t2 = [])"
    by (rule failed_step_returns [where e = "hd ?h"]) (use c in \<open>simp_all add: wt_new_def entry_at_def\<close>)
  then show "wt_position (fst (waited E True False (fst (history E (-1) ?t)))) = 1" by (simp only: case_prod_beta) simp
qed

end
