(* ===== verification/BlTabStrip.thy ===== *)
theory BlTabStrip
  imports BlTabHistory BlHosts
begin

text \<open>
  \<^verbatim>\<open>browser-lite/proxy/wrapper.js\<close>, all tabs of the toolbar: the frames they use and the spare one for
  popups, opening, closing and dragging tabs, what is saved and restored of them. Tabs and frames are numbers,
  a frame's place among the page's frames is its place in \<open>sp_frames\<close>; the tab's history and controller are
  those of \<^theory_text>\<open>BlTabHistory\<close>. Page elements are left out.
\<close>

section \<open>Saving and restoring\<close>

definition MAX_SAVED :: nat where "MAX_SAVED = 30"
definition SAVE_BYTES :: nat where "SAVE_BYTES = 48 * 1024"

text \<open>\<open>/^https?:/\<close>\<close>

definition is_http :: "string \<Rightarrow> bool" where
  "is_http s \<longleftrightarrow> starts_with ''http:'' s \<or> starts_with ''https:'' s"

definition savedHistory :: "wtab \<Rightarrow> ((string \<times> string) list \<times> int) option" where
  "savedHistory t =
     (let (es, pos) = (case wt_pendingHistory t of Some hp \<Rightarrow> hp | None \<Rightarrow> (wt_history t, wt_position t));
          entries = filter (\<lambda>e. is_http (he_url e)) es
      in if entries = [] then None
         else let start = max 0 (int (length entries) - int MAX_HISTORY)
              in Some (map (\<lambda>e. (he_url e, he_doc e)) (drop (nat start) entries),
                       min (max 0 (int32 pos - start)) (int (length entries) - start - 1)))"

text \<open>\<open>replace(/^(restored:)+/, '')\<close>\<close>

fun strip_restored :: "nat \<Rightarrow> string \<Rightarrow> string" where
  "strip_restored 0 s = s"
| "strip_restored (Suc n) s = (if starts_with ''restored:'' s then strip_restored n (drop 9 s) else s)"

definition restored_doc :: "nat \<Rightarrow> string \<Rightarrow> string" where
  "restored_doc i d = ''restored:'' @ (let s = (if d = [] then dec i else d) in strip_restored (length s) s)"

definition restoredHistory :: "((string \<times> string) list \<times> int) option \<Rightarrow> (hentry list \<times> int) option" where
  "restoredHistory item =
     (case item of
        None \<Rightarrow> None
      | Some (h, pos) \<Rightarrow>
          (let es = map (\<lambda>(i, (u, d)). \<lparr>he_id = ''restored-'' @ dec i, he_url = u, he_doc = restored_doc i d\<rparr>)
                     (enumerate 0 (last_n MAX_HISTORY (filter (\<lambda>(u, d). is_http u) h)))
           in if es = [] then None else Some (es, min (max 0 (int32 pos)) (int (length es) - 1))))"

definition tabBudget :: "nat \<Rightarrow> tabs_size \<Rightarrow> saved_tab list \<times> int \<Rightarrow> saved_tab list \<times> int" where
  "tabBudget limit sz payload =
     (case payload of (tabs, active) \<Rightarrow> drop_tabs limit sz (trim_histories limit sz [20, 5, 0] tabs active) active)"

section \<open>Tabs and frames\<close>

text \<open>A fingerprint of the full browser's cookies for the site is watched after a hand-over.\<close>

record watch =
  wa_id :: nat
  wa_url :: string
  wa_baseline :: "string option"
  wa_until :: int

record stab =
  sb_id :: nat
  sb_tab :: wtab
  sb_frame :: nat
  sb_opener :: "nat option"
  sb_return :: "string option"
  sb_watch :: "watch option"

text \<open>\<open>sp_order\<close> is the order on the screen, \<open>sp_frames\<close> the frames in the order of their creation.\<close>

record strip =
  sp_tabs :: "stab list"
  sp_active :: "nat option"
  sp_order :: "nat list"
  sp_frames :: "nat list"
  sp_spare :: "nat option"
  sp_popups :: nat
  sp_ids :: nat
  sp_closedByUser :: bool

definition sp_empty :: strip where
  "sp_empty = \<lparr>sp_tabs = [], sp_active = None, sp_order = [], sp_frames = [], sp_spare = None, sp_popups = 0, sp_ids = 0, sp_closedByUser = False\<rparr>"

definition has_tab :: "nat \<Rightarrow> strip \<Rightarrow> bool" where
  "has_tab i s \<longleftrightarrow> i \<in> sb_id ` set (sp_tabs s)"

definition tab_of :: "nat \<Rightarrow> strip \<Rightarrow> stab option" where
  "tab_of i s = find (\<lambda>t. sb_id t = i) (sp_tabs s)"

definition on_tab :: "nat \<Rightarrow> (wtab \<Rightarrow> wtab \<times> wt_out list) \<Rightarrow> strip \<Rightarrow> strip \<times> (nat \<times> wt_out) list" where
  "on_tab i f s =
     (s\<lparr>sp_tabs := map (\<lambda>t. if sb_id t = i then t\<lparr>sb_tab := fst (f (sb_tab t))\<rparr> else t) (sp_tabs s)\<rparr>,
      concat (map (\<lambda>t. if sb_id t = i then map (Pair i) (snd (f (sb_tab t))) else []) (sp_tabs s)))"

definition detachFrame :: "nat \<Rightarrow> strip \<Rightarrow> strip" where
  "detachFrame f s = s\<lparr>sp_frames := remove1 f (sp_frames s)\<rparr>"

definition attachFrame :: "nat \<Rightarrow> strip \<Rightarrow> strip" where
  "attachFrame f s = s\<lparr>sp_frames := sp_frames s @ [f]\<rparr>"

text \<open>The spare frame goes and a new one comes, so it is the last.\<close>

definition ensureSpare :: "strip \<Rightarrow> strip" where
  "ensureSpare s =
     (let s1 = (case sp_spare s of Some f \<Rightarrow> detachFrame f s | None \<Rightarrow> s); f = sp_ids s1
      in attachFrame f (s1\<lparr>sp_spare := Some f, sp_ids := Suc f\<rparr>))"

fun position_of :: "nat \<Rightarrow> nat list \<Rightarrow> nat option" where
  "position_of x [] = None"
| "position_of x (y # ys) = (if x = y then Some 0 else map_option Suc (position_of x ys))"

definition frameIndex :: "nat \<Rightarrow> strip \<Rightarrow> int" where
  "frameIndex f s = (case position_of f (sp_frames s) of Some k \<Rightarrow> int k | None \<Rightarrow> -1)"

definition openerIndex :: "stab \<Rightarrow> strip \<Rightarrow> int option" where
  "openerIndex t s =
     (let index = (case Option.bind (sb_opener t) (\<lambda>o'. tab_of o' s) of Some p \<Rightarrow> frameIndex (sb_frame p) s | None \<Rightarrow> -1)
      in if index \<ge> 0 then Some index else None)"

definition tabAtFrame :: "int \<Rightarrow> strip \<Rightarrow> stab option" where
  "tabAtFrame i s = find (\<lambda>t. frameIndex (sb_frame t) s = i) (sp_tabs s)"

record strip_env =
  se_address :: "string \<Rightarrow> string option"
  se_uid :: string
  se_ctl :: "nat \<Rightarrow> ctl"
  se_env :: ctl_env

type_synonym strip_step = "strip \<Rightarrow> strip \<times> (nat \<times> wt_out) list"

definition strip_then :: "strip_step \<Rightarrow> strip_step \<Rightarrow> strip_step" where
  "strip_then f g s = (case f s of (s1, o1) \<Rightarrow> (case g s1 of (s2, o2) \<Rightarrow> (s2, o1 @ o2)))"

definition activateTab :: "strip_env \<Rightarrow> nat \<Rightarrow> strip_step" where
  "activateTab E i s = on_tab i (show_tab (se_uid E) (se_address E)) (s\<lparr>sp_active := Some i\<rparr>)"

definition go_active :: "strip_env \<Rightarrow> string \<Rightarrow> strip_step" where
  "go_active E a s = (case sp_active s of None \<Rightarrow> (s, []) | Some i \<Rightarrow> on_tab i (go_to (se_uid E) False (se_address E a)) s)"

text \<open>A tab is added, with a frame of its own or one that is given; \<open>lazy\<close> ones are loaded when first shown.\<close>

definition addTab :: "strip_env \<Rightarrow> nat option \<Rightarrow> nat option \<Rightarrow> (wtab \<Rightarrow> wtab) \<Rightarrow> strip \<Rightarrow> strip \<times> nat" where
  "addTab E frame opener init s =
     (let i = sp_ids s; f = (case frame of Some f \<Rightarrow> f | None \<Rightarrow> Suc i);
          s1 = s\<lparr>sp_ids := i + 2, sp_order := sp_order s @ [i]\<rparr>;
          s2 = (if frame = None then ensureSpare (attachFrame f s1) else s1);
          t = \<lparr>sb_id = i, sb_tab = init (wt_new (se_ctl E i)), sb_frame = f, sb_opener = opener, sb_return = None, sb_watch = None\<rparr>
      in (s2\<lparr>sp_tabs := sp_tabs s2 @ [t]\<rparr>, i))"

definition newTab :: "strip_env \<Rightarrow> string option \<Rightarrow> nat option \<Rightarrow> nat option \<Rightarrow> strip_step" where
  "newTab E a frame opener s =
     (case addTab E frame opener id s of
        (s1, i) \<Rightarrow>
          strip_then (activateTab E i) (case a of Some a \<Rightarrow> if a = [] then (\<lambda>s. (s, [])) else go_active E a | None \<Rightarrow> (\<lambda>s. (s, []))) s1)"

definition lazyTab :: "strip_env \<Rightarrow> saved_tab \<Rightarrow> strip \<Rightarrow> strip \<times> nat" where
  "lazyTab E item =
     addTab E None None
       (\<lambda>t. t\<lparr>wt_pendingUrl := Some (sv_url item), wt_pendingTitle := take 200 (sv_title item),
              wt_pendingHistory := restoredHistory (sv_history item)\<rparr>)"

definition closeTab :: "strip_env \<Rightarrow> nat \<Rightarrow> strip_step" where
  "closeTab E i s =
     (case tab_of i s of
        None \<Rightarrow> (s, [])
      | Some t \<Rightarrow>
          (let s1 = detachFrame (sb_frame t)
                      (s\<lparr>sp_tabs := filter (\<lambda>x. sb_id x \<noteq> i) (sp_tabs s), sp_order := remove1 i (sp_order s), sp_closedByUser := True\<rparr>);
               next = (if sp_active s1 \<noteq> Some i then (\<lambda>s. (s, []))
                       else if sp_tabs s1 = [] then newTab E None None None
                       else activateTab E (case Option.bind (sb_opener t) (\<lambda>o'. tab_of o' s1) of
                                             Some p \<Rightarrow> sb_id p | None \<Rightarrow> sb_id (last (sp_tabs s1))))
           in strip_then (\<lambda>s. (s, map (Pair i) (snd (with_ctl ctl_dispose (sb_tab t))))) next s1))"

text \<open>A popup takes the spare frame; a page may also navigate a popup that it opened.\<close>

definition openPopup :: "strip_env \<Rightarrow> nat \<Rightarrow> string \<Rightarrow> popup \<Rightarrow> strip_step" where
  "openPopup E opener a p s =
     (case p of
        HeldPopup n \<Rightarrow>
          (case tabAtFrame n s of
             Some t \<Rightarrow>
               if sb_opener t = Some opener
               then strip_then (activateTab E (sb_id t)) (if a = [] then (\<lambda>s. (s, [])) else go_active E a) s
               else (s, [])
           | None \<Rightarrow> (s, []))
      | NamedPopup nm fs \<Rightarrow>
          (let s1 = (if sp_spare s = None then ensureSpare s else s)
           in case newTab E (Some a) (sp_spare s1) (Some opener) (s1\<lparr>sp_spare := None\<rparr>) of (s2, o2) \<Rightarrow> (ensureSpare s2, o2)))"

definition tabOpens :: "strip_env \<Rightarrow> nat \<Rightarrow> string \<Rightarrow> popup option \<Rightarrow> strip_step" where
  "tabOpens E i a p = (case p of Some p \<Rightarrow> openPopup E i a p | None \<Rightarrow> newTab E (Some a) None None)"

text \<open>A page closes itself, if it is a popup, or a popup that it opened.\<close>

definition tabCloses :: "strip_env \<Rightarrow> nat \<Rightarrow> int option \<Rightarrow> strip_step" where
  "tabCloses E i n s =
     (case n of
        None \<Rightarrow> (case tab_of i s of Some t \<Rightarrow> if sb_opener t \<noteq> None then closeTab E i s else (s, []) | None \<Rightarrow> (s, []))
      | Some n \<Rightarrow>
          (case tabAtFrame n s of
             Some t \<Rightarrow> if sb_opener t = Some i then closeTab E (sb_id t) s else (s, [])
           | None \<Rightarrow> (s, [])))"

text \<open>Popups in one gesture of the user, who is at the tab.\<close>

definition allowPopup :: "nat \<Rightarrow> bool \<Rightarrow> bool \<Rightarrow> strip \<Rightarrow> strip \<times> bool" where
  "allowPopup i focused gesture s =
     (if sp_active s \<noteq> Some i \<or> \<not> focused \<or> \<not> gesture \<or> sp_popups s \<ge> 3 then (s, False)
      else (s\<lparr>sp_popups := Suc (sp_popups s)\<rparr>, True))"

definition popup_tick :: "bool \<Rightarrow> strip \<Rightarrow> strip" where
  "popup_tick gesture s = (if gesture then s else s\<lparr>sp_popups := 0\<rparr>)"

text \<open>A navigation of the toolbar gave the tab a new frame.\<close>

definition frameReplaced :: "nat \<Rightarrow> strip \<Rightarrow> strip" where
  "frameReplaced i s =
     (let s1 = (case tab_of i s of Some t \<Rightarrow> detachFrame (sb_frame t) s | None \<Rightarrow> s);
          f = sp_ids s1;
          s2 = s1\<lparr>sp_ids := Suc f, sp_tabs := map (\<lambda>x. if sb_id x = i then x\<lparr>sb_frame := f\<rparr> else x) (sp_tabs s1)\<rparr>
      in ensureSpare (attachFrame f s2))"

text \<open>The server forgot some of the tabs; a controller's error may also say that it forgot this one.\<close>

definition reopenTab :: "strip_env \<Rightarrow> nat \<Rightarrow> strip_step" where
  "reopenTab E i s = on_tab i (reopen (se_env E) (se_uid E) (se_address E) (sp_active s = Some i)) s"

definition heartbeat_clients :: "strip \<Rightarrow> string list" where
  "heartbeat_clients s = map (\<lambda>t. ct_client (wt_ctl (sb_tab t))) (filter (\<lambda>t. ct_server (wt_ctl (sb_tab t)) \<noteq> None) (sp_tabs s))"

fun reopenAll :: "strip_env \<Rightarrow> string list \<Rightarrow> stab list \<Rightarrow> strip_step" where
  "reopenAll E expired [] s = (s, [])"
| "reopenAll E expired (t # ts) s =
     strip_then (if ct_client (wt_ctl (sb_tab t)) \<in> set expired then reopenTab E (sb_id t) else (\<lambda>s. (s, []))) (reopenAll E expired ts) s"

definition heartbeat_answered :: "strip_env \<Rightarrow> string list \<Rightarrow> strip_step" where
  "heartbeat_answered E expired s = reopenAll E expired (sp_tabs s) s"

definition tab_error :: "strip_env \<Rightarrow> nat \<Rightarrow> bool \<Rightarrow> strip_step" where
  "tab_error E i reset s =
     (if reset \<and> (case tab_of i s of Some t \<Rightarrow> state_url (sb_tab t) \<noteq> [] | None \<Rightarrow> False) then reopenTab E i s else (s, []))"

section \<open>Dragging\<close>

text \<open>The tab goes before the first other one whose middle is right of the pointer.\<close>

definition place :: "(nat \<Rightarrow> real) \<Rightarrow> nat \<Rightarrow> real \<Rightarrow> nat list \<Rightarrow> nat list" where
  "place middle i x order =
     (let others = remove1 i order
      in takeWhile (\<lambda>k. \<not> x < middle k) others @ i # dropWhile (\<lambda>k. \<not> x < middle k) others)"

definition syncTabOrder :: "strip \<Rightarrow> strip" where
  "syncTabOrder s =
     s\<lparr>sp_tabs := sort_key (\<lambda>t. case position_of (sb_id t) (sp_order s) of Some k \<Rightarrow> int k | None \<Rightarrow> -1) (sp_tabs s)\<rparr>"

record drag =
  dg_start :: "(real \<times> real) option"
  dg_dragging :: bool
  dg_hold :: bool
  dg_pointer :: "int option"

datatype drag_event =
    Down int bool bool int real real nat | Move int bool real real | Hold | Up int

text \<open>The pointer goes down (button, on the close button, mouse, pointer, place, number of tabs), moves, is
  held, or goes up. The result says whether the drag ended, so that the order is taken over. Only a finger
  starts the hold timer.\<close>

definition drag_idle :: drag where
  "drag_idle = \<lparr>dg_start = None, dg_dragging = False, dg_hold = False, dg_pointer = None\<rparr>"

fun drag_step :: "(nat \<Rightarrow> real) \<Rightarrow> nat \<Rightarrow> drag_event \<Rightarrow> drag \<times> nat list \<Rightarrow> (drag \<times> nat list) \<times> bool" where
  "drag_step middle i (Down button close mouse ptr x y n) (d, order) =
     (if button \<noteq> 0 \<or> close \<or> n < 2 then ((d, order), False)
      else ((d\<lparr>dg_start := Some (x, y), dg_pointer := Some ptr, dg_hold := (dg_hold d \<or> \<not> mouse)\<rparr>, order), False))"
| "drag_step middle i Hold (d, order) =
     ((if dg_hold d then d\<lparr>dg_hold := False, dg_dragging := (dg_dragging d \<or> dg_start d \<noteq> None)\<rparr> else d, order), False)"
| "drag_step middle i (Move ptr mouse x y) (d, order) =
     (case dg_start d of
        None \<Rightarrow> ((d, order), False)
      | Some (x0, y0) \<Rightarrow>
          if dg_pointer d \<noteq> Some ptr then ((d, order), False)
          else if dg_dragging d then ((d, place middle i x order), False)
          else if \<not> mouse
          then (if \<bar>x - x0\<bar> > 8 \<or> \<bar>y - y0\<bar> > 8
                then (d\<lparr>dg_start := None, dg_pointer := None, dg_hold := False\<rparr>, order) else (d, order), False)
          else if \<bar>x - x0\<bar> < 6 then ((d, order), False)
          else ((d\<lparr>dg_dragging := True, dg_hold := False\<rparr>, place middle i x order), False))"
| "drag_step middle i (Up ptr) (d, order) =
     (if dg_pointer d = Some ptr then ((drag_idle, order), dg_dragging d) else ((d, order), False))"

text \<open>The order on the screen becomes the order of the tabs when the drag ends.\<close>

definition drag_tab :: "(nat \<Rightarrow> real) \<Rightarrow> nat \<Rightarrow> drag_event \<Rightarrow> drag \<Rightarrow> strip \<Rightarrow> drag \<times> strip" where
  "drag_tab middle i e d s =
     (case drag_step middle i e (d, sp_order s) of
        ((d1, order), ended) \<Rightarrow> (d1, (if ended then syncTabOrder else (\<lambda>s. s)) (s\<lparr>sp_order := order\<rparr>)))"

section \<open>What is saved of all tabs\<close>

definition tab_saved :: "stab \<Rightarrow> saved_tab" where
  "tab_saved t =
     \<lparr>sv_url = (if state_url (sb_tab t) \<noteq> [] then state_url (sb_tab t) else case wt_pendingUrl (sb_tab t) of Some a \<Rightarrow> a | None \<Rightarrow> []),
      sv_title = (case wt_state (sb_tab t) of
                    Some (p, _) \<Rightarrow> if sh_title p \<noteq> [] then sh_title p else wt_pendingTitle (sb_tab t)
                  | None \<Rightarrow> wt_pendingTitle (sb_tab t)),
      sv_history = savedHistory (sb_tab t)\<rparr>"

definition saveTabs :: "strip \<Rightarrow> saved_tab list \<times> int" where
  "saveTabs s =
     (let saved = last_n MAX_SAVED (filter (\<lambda>e. is_http (sv_url (snd e))) (map (\<lambda>t. (sb_id t, tab_saved t)) (sp_tabs s)));
          active = (case sp_active s of Some i \<Rightarrow> position_of i (map fst saved) | None \<Rightarrow> None)
      in (map snd saved, case active of Some k \<Rightarrow> int k | None \<Rightarrow> 0))"

text \<open>What the server gets; a fresh, empty start never overwrites what is saved.\<close>

definition saveToServer :: "tabs_size \<Rightarrow> bool \<Rightarrow> strip \<Rightarrow> (saved_tab list \<times> int) option" where
  "saveToServer sz localOnly s =
     (case saveTabs s of
        (saved, active) \<Rightarrow>
          if localOnly \<or> saved = [] \<and> \<not> sp_closedByUser s then None else Some (tabBudget SAVE_BYTES sz (saved, active)))"

fun lazyTabs :: "strip_env \<Rightarrow> saved_tab list \<Rightarrow> strip \<Rightarrow> strip \<times> nat list" where
  "lazyTabs E [] s = (s, [])"
| "lazyTabs E (i # is') s = (case lazyTab E i s of (s1, k) \<Rightarrow> (case lazyTabs E is' s1 of (s2, ks) \<Rightarrow> (s2, k # ks)))"

definition restoreFrom :: "strip_env \<Rightarrow> saved_tab list \<Rightarrow> int \<Rightarrow> string option \<Rightarrow> strip_step" where
  "restoreFrom E saved active requested s =
     (case lazyTabs E (last_n MAX_SAVED (filter (\<lambda>i. is_http (sv_url i)) saved)) s of
        (s1, ks) \<Rightarrow>
          if requested \<noteq> None \<or> ks = [] then newTab E requested None None s1
          else activateTab E (ks ! nat (min (max 0 (int32 active)) (int (length ks) - 1))) s1)"

end
