(* ===== verification/BlTabStripProps.thy ===== *)
theory BlTabStripProps
  imports BlTabStrip
begin

text \<open>
  What holds of the strip of tabs after any sequence of what the user, the pages and the server do, what a page
  may close, and that a tab's history survives being saved, kept by the server and restored.
\<close>

section \<open>The invariant\<close>

abbreviation ids :: "strip \<Rightarrow> nat list" where "ids s \<equiv> map sb_id (sp_tabs s)"
abbreviation frames :: "strip \<Rightarrow> nat list" where "frames s \<equiv> map sb_frame (sp_tabs s)"

text \<open>Every tab has a frame of its own in the page, and the spare frame is not a tab's.\<close>

definition frames_ok :: "strip \<Rightarrow> bool" where
  "frames_ok s \<longleftrightarrow>
     distinct (ids s) \<and> distinct (frames s) \<and> distinct (sp_frames s) \<and> set (frames s) \<subseteq> set (sp_frames s) \<and>
     (\<forall>i \<in> set (ids s) \<union> set (sp_frames s). i < sp_ids s) \<and>
     (\<forall>f. sp_spare s = Some f \<longrightarrow> f \<in> set (sp_frames s) - set (frames s))"

text \<open>The spare frame is the page's last, which is how a page finds it.\<close>

definition spare_last :: "strip \<Rightarrow> bool" where
  "spare_last s \<longleftrightarrow> (\<forall>f. sp_spare s = Some f \<longrightarrow> sp_frames s \<noteq> [] \<and> last (sp_frames s) = f)"

text \<open>Every open tab is on the screen, once; what is there besides are closed tabs that were dragged (below).\<close>

definition order_ok :: "strip \<Rightarrow> bool" where
  "order_ok s \<longleftrightarrow> distinct (sp_order s) \<and> set (ids s) \<subseteq> set (sp_order s) \<and> (\<forall>i \<in> set (sp_order s). i < sp_ids s)"

definition strip_ok :: "strip \<Rightarrow> bool" where
  "strip_ok s \<longleftrightarrow> frames_ok s \<and> spare_last s \<and> order_ok s"

definition shows_active :: "strip \<Rightarrow> bool" where
  "shows_active s \<longleftrightarrow> (\<exists>i. sp_active s = Some i \<and> i \<in> set (sp_order s))"

text \<open>The closed tabs on the screen.\<close>

definition dead :: "strip \<Rightarrow> nat set" where
  "dead s = set (sp_order s) - set (ids s)"

named_theorems strip

lemma frames_okD [strip]:
  "frames_ok s \<Longrightarrow> distinct (ids s)" "frames_ok s \<Longrightarrow> distinct (frames s)" "frames_ok s \<Longrightarrow> distinct (sp_frames s)"
  "frames_ok s \<Longrightarrow> i \<in> set (ids s) \<Longrightarrow> i < sp_ids s" "frames_ok s \<Longrightarrow> f \<in> set (sp_frames s) \<Longrightarrow> f < sp_ids s"
  by (simp_all add: frames_ok_def)

lemma on_tab_same [simp]:
  "ids (fst (on_tab i f s)) = ids s" "frames (fst (on_tab i f s)) = frames s" "sp_frames (fst (on_tab i f s)) = sp_frames s"
  "sp_spare (fst (on_tab i f s)) = sp_spare s" "sp_ids (fst (on_tab i f s)) = sp_ids s" "sp_order (fst (on_tab i f s)) = sp_order s"
  "sp_active (fst (on_tab i f s)) = sp_active s" "map sb_opener (sp_tabs (fst (on_tab i f s))) = map sb_opener (sp_tabs s)"
  by (simp_all add: on_tab_def o_def if_distrib [of sb_id] if_distrib [of sb_frame] if_distrib [of sb_opener] cong: if_cong)

lemma on_tab_ok [simp]: "strip_ok (fst (on_tab i f s)) = strip_ok s" "shows_active (fst (on_tab i f s)) = shows_active s"
  by (simp_all add: strip_ok_def frames_ok_def spare_last_def order_ok_def shows_active_def)

lemma activate_same [simp]:
  "ids (fst (activateTab E i s)) = ids s" "strip_ok (fst (activateTab E i s)) = strip_ok s"
  "shows_active (fst (activateTab E i s)) \<longleftrightarrow> i \<in> set (sp_order s)"
  "map sb_opener (sp_tabs (fst (activateTab E i s))) = map sb_opener (sp_tabs s)"
  by (simp_all add: activateTab_def) (simp_all add: strip_ok_def frames_ok_def spare_last_def order_ok_def shows_active_def)

lemma dead_same [simp]: "dead (fst (on_tab i f s)) = dead s" "dead (fst (activateTab E i s)) = dead s" "dead (fst (go_active E a s)) = dead s"
proof -
  show o: "dead (fst (on_tab i f s)) = dead s" for i f and s by (simp only: dead_def on_tab_same)
  show "dead (fst (activateTab E i s)) = dead s" by (simp add: activateTab_def o) (simp add: dead_def)
  show "dead (fst (go_active E a s)) = dead s" by (simp add: go_active_def o split: option.split)
qed

text \<open>An open tab is on the screen.\<close>

lemma open_shown:
  "strip_ok s \<Longrightarrow> i \<in> set (ids s) \<Longrightarrow> i \<in> set (sp_order s)" "strip_ok s \<Longrightarrow> t \<in> set (sp_tabs s) \<Longrightarrow> sb_id t \<in> set (sp_order s)"
  unfolding strip_ok_def order_ok_def by auto

lemma go_active_same [simp]:
  "ids (fst (go_active E a s)) = ids s" "strip_ok (fst (go_active E a s)) = strip_ok s" "shows_active (fst (go_active E a s)) = shows_active s"
  "map sb_opener (sp_tabs (fst (go_active E a s))) = map sb_opener (sp_tabs s)"
  by (simp_all add: go_active_def split: option.split)

lemma same_ids [simp]:
  "sb_id ` set (sp_tabs (fst (on_tab i f s))) = sb_id ` set (sp_tabs s)"
  "sb_id ` set (sp_tabs (fst (activateTab E i s))) = sb_id ` set (sp_tabs s)"
  "sb_id ` set (sp_tabs (fst (go_active E a s))) = sb_id ` set (sp_tabs s)"
  using on_tab_same(1) [of i f s] activate_same(1) [of E i s] go_active_same(1) [of E a s] by (metis list.set_map)+

lemma strip_then_fst [simp]: "fst (strip_then f g s) = fst (g (fst (f s)))"
  by (simp add: strip_then_def split: prod.split)

section \<open>Frames\<close>

lemma attach_frames_ok: "frames_ok s \<Longrightarrow> f < sp_ids s \<Longrightarrow> f \<notin> set (sp_frames s) \<Longrightarrow> frames_ok (attachFrame f s)"
  by (auto simp: frames_ok_def attachFrame_def)

lemma ensureSpare_same [simp]:
  "sp_tabs (ensureSpare s) = sp_tabs s" "sp_order (ensureSpare s) = sp_order s" "sp_active (ensureSpare s) = sp_active s"
  "sp_ids (ensureSpare s) = Suc (sp_ids s)" "dead (ensureSpare s) = dead s"
  unfolding dead_def by (simp_all add: ensureSpare_def attachFrame_def detachFrame_def Let_def split: option.split)

lemma detach_spare_ok: "frames_ok s \<Longrightarrow> sp_spare s = Some f \<Longrightarrow> frames_ok ((detachFrame f s)\<lparr>sp_spare := None\<rparr>)"
  by (auto simp: frames_ok_def detachFrame_def)

lemma ensureSpare_new:
  "frames_ok s \<Longrightarrow> frames_ok (attachFrame (sp_ids s) (s\<lparr>sp_spare := Some (sp_ids s), sp_ids := Suc (sp_ids s)\<rparr>))"
  unfolding frames_ok_def attachFrame_def by (auto simp: less_Suc_eq)

lemma ensureSpare_ok: "frames_ok s \<Longrightarrow> frames_ok (ensureSpare s) \<and> spare_last (ensureSpare s)"
proof -
  assume ok: "frames_ok s"
  have "frames_ok (ensureSpare s)"
  proof (cases "sp_spare s")
    case None
    then show ?thesis using ensureSpare_new [OF ok] by (simp add: ensureSpare_def Let_def)
  next
    case (Some f)
    then show ?thesis using ensureSpare_new [OF detach_spare_ok [OF ok Some]]
      by (simp add: ensureSpare_def Let_def detachFrame_def)
  qed
  then show ?thesis by (simp add: spare_last_def ensureSpare_def attachFrame_def Let_def)
qed

lemma ensureSpare_strip [simp]: "strip_ok s \<Longrightarrow> strip_ok (ensureSpare s)" "shows_active (ensureSpare s) = shows_active s"
  using ensureSpare_ok [of s] by (auto simp: strip_ok_def order_ok_def shows_active_def less_Suc_eq)

lemma frames_ok_more: "frames_ok s \<Longrightarrow> sp_ids s \<le> n \<Longrightarrow> frames_ok (s\<lparr>sp_ids := n, sp_order := os\<rparr>)"
proof -
  assume ok: "frames_ok s" and n: "sp_ids s \<le> n"
  have "\<forall>i \<in> set (ids s) \<union> set (sp_frames s). i < n" using ok less_le_trans [OF _ n] unfolding frames_ok_def by blast
  then show ?thesis using ok unfolding frames_ok_def by simp
qed

lemma tab_added:
  assumes "frames_ok s" "sb_id t \<notin> set (ids s)" "sb_id t < sp_ids s" "sb_frame t \<in> set (sp_frames s) - set (frames s)" "sp_spare s \<noteq> Some (sb_frame t)"
  shows "frames_ok (s\<lparr>sp_tabs := sp_tabs s @ [t]\<rparr>)"
  using assms unfolding frames_ok_def by auto

section \<open>Opening\<close>

text \<open>A frame for a new tab: none yet, or one of the page's that no tab has and that is not the spare.\<close>

definition free_frame :: "nat option \<Rightarrow> strip \<Rightarrow> bool" where
  "free_frame frame s \<longleftrightarrow> (\<forall>f. frame = Some f \<longrightarrow> f \<in> set (sp_frames s) - set (frames s) \<and> sp_spare s \<noteq> Some f)"

lemma addTab_ok:
  assumes "strip_ok s" "free_frame frame s"
  shows "strip_ok (fst (addTab E frame opener init s))" "snd (addTab E frame opener init s) = sp_ids s"
    "ids (fst (addTab E frame opener init s)) = ids s @ [sp_ids s]" "sp_active (fst (addTab E frame opener init s)) = sp_active s"
proof -
  let ?s1 = "s\<lparr>sp_ids := sp_ids s + 2, sp_order := sp_order s @ [sp_ids s]\<rparr>"
  have ok: "frames_ok s" "spare_last s" "order_ok s" using assms(1) by (simp_all add: strip_ok_def)
  have new: "sp_ids s \<notin> set (ids s)" "Suc (sp_ids s) \<notin> set (sp_frames s)" using frames_okD(4,5) [OF ok(1)] by fastforce+
  have f1: "frames_ok ?s1" using frames_ok_more [OF ok(1), of "sp_ids s + 2"] by simp
  show "snd (addTab E frame opener init s) = sp_ids s" by (simp add: addTab_def Let_def)
  show "ids (fst (addTab E frame opener init s)) = ids s @ [sp_ids s]" "sp_active (fst (addTab E frame opener init s)) = sp_active s"
    by (simp_all add: addTab_def Let_def attachFrame_def)
  let ?f = "case frame of Some f \<Rightarrow> f | None \<Rightarrow> Suc (sp_ids s)"
  let ?s2 = "if frame = None then ensureSpare (attachFrame ?f ?s1) else ?s1"
  have "frames_ok ?s2 \<and> spare_last ?s2 \<and> sp_ids s < sp_ids ?s2 \<and> ?f \<in> set (sp_frames ?s2) - set (frames ?s2) \<and> sp_spare ?s2 \<noteq> Some ?f"
  proof (cases frame)
    case (Some f)
    then have f: "f \<in> set (sp_frames s) - set (frames s)" "sp_spare s \<noteq> Some f" using assms(2) by (simp_all add: free_frame_def)
    have "spare_last ?s1" using ok(2) by (simp add: spare_last_def)
    then show ?thesis using f f1 by (simp add: Some)
  next
    case None
    have "frames_ok (attachFrame (Suc (sp_ids s)) ?s1)" using attach_frames_ok [OF f1] new(2) by simp
    then have e: "frames_ok (ensureSpare (attachFrame (Suc (sp_ids s)) ?s1))" "spare_last (ensureSpare (attachFrame (Suc (sp_ids s)) ?s1))"
      using ensureSpare_ok by simp_all
    have "sp_spare s \<noteq> Some (Suc (sp_ids s))" "Suc (sp_ids s) \<notin> set (frames s)" using ok(1) new(2) by (auto simp: frames_ok_def)
    then have "Suc (sp_ids s) \<in> set (sp_frames (ensureSpare (attachFrame (Suc (sp_ids s)) ?s1)))"
        "Suc (sp_ids s) \<notin> set (frames (ensureSpare (attachFrame (Suc (sp_ids s)) ?s1)))"
        "sp_spare (ensureSpare (attachFrame (Suc (sp_ids s)) ?s1)) \<noteq> Some (Suc (sp_ids s))"
        "sp_ids (ensureSpare (attachFrame (Suc (sp_ids s)) ?s1)) > sp_ids s"
      by (auto simp: ensureSpare_def attachFrame_def detachFrame_def Let_def in_set_remove1 split: option.split)
    then show ?thesis using e by (simp add: None)
  qed
  moreover have same: "sp_tabs ?s2 = sp_tabs s" "sp_order ?s2 = sp_order s @ [sp_ids s]" by (simp_all add: attachFrame_def)
  moreover have "\<forall>i \<in> set (sp_order s). i < sp_ids ?s2" using ok(3) by (auto simp: order_ok_def attachFrame_def)
  moreover have "sp_ids s \<notin> set (sp_order s)" using ok(3) by (auto simp: order_ok_def)
  ultimately show "strip_ok (fst (addTab E frame opener init s))"
    unfolding addTab_def Let_def fst_conv strip_ok_def using tab_added [of ?s2] new(1) ok(3)
    by (auto simp: spare_last_def order_ok_def subset_iff simp del: ensureSpare_same)
qed

lemma newTab_ok:
  assumes "strip_ok s" "free_frame frame s"
  shows "strip_ok (fst (newTab E a frame opener s))" "shows_active (fst (newTab E a frame opener s))"
    "ids (fst (newTab E a frame opener s)) = ids s @ [sp_ids s]"
  using addTab_ok [OF assms, of E opener id] open_shown(1) [of "fst (addTab E frame opener id s)" "sp_ids s"]
  by (auto simp: newTab_def split: prod.split option.split)

lemma lazyTab_ok: "strip_ok s \<Longrightarrow> strip_ok (fst (lazyTab E item s)) \<and> snd (lazyTab E item s) \<in> set (ids (fst (lazyTab E item s))) \<and>
    set (ids s) \<subseteq> set (ids (fst (lazyTab E item s)))"
  using addTab_ok [of s None] by (simp add: lazyTab_def free_frame_def subset_insertI)

lemma lazyTabs_ok: "strip_ok s \<Longrightarrow> strip_ok (fst (lazyTabs E is' s)) \<and> set (snd (lazyTabs E is' s)) \<subseteq> set (ids (fst (lazyTabs E is' s))) \<and>
    set (ids s) \<subseteq> set (ids (fst (lazyTabs E is' s)))"
proof (induction is' arbitrary: s)
  case (Cons i is')
  have l: "strip_ok (fst (lazyTab E i s))" "snd (lazyTab E i s) \<in> set (ids (fst (lazyTab E i s)))"
      "set (ids s) \<subseteq> set (ids (fst (lazyTab E i s)))"
    using lazyTab_ok [OF Cons.prems] by simp_all
  have n: "strip_ok (fst (lazyTabs E is' (fst (lazyTab E i s))))"
      "set (snd (lazyTabs E is' (fst (lazyTab E i s)))) \<subseteq> set (ids (fst (lazyTabs E is' (fst (lazyTab E i s)))))"
      "set (ids (fst (lazyTab E i s))) \<subseteq> set (ids (fst (lazyTabs E is' (fst (lazyTab E i s)))))"
    using Cons.IH [OF l(1)] by simp_all
  have e: "lazyTabs E (i # is') s = (fst (lazyTabs E is' (fst (lazyTab E i s))), snd (lazyTab E i s) # snd (lazyTabs E is' (fst (lazyTab E i s))))"
    by (simp split: prod.split)
  show ?case unfolding e fst_conv snd_conv using n(1,2) subset_trans [OF l(3) n(3)] subsetD [OF n(3) l(2)] by simp
qed simp

lemma restoreFrom_ok: "strip_ok s \<Longrightarrow> strip_ok (fst (restoreFrom E saved active requested s)) \<and> shows_active (fst (restoreFrom E saved active requested s))"
proof -
  assume s: "strip_ok s"
  define items where "items = last_n MAX_SAVED (filter (\<lambda>i. is_http (sv_url i)) saved)"
  obtain s1 ks where l: "lazyTabs E items s = (s1, ks)" by fastforce
  have ok: "strip_ok s1" "set ks \<subseteq> set (ids s1)" using lazyTabs_ok [OF s, of E items] by (simp_all add: l)
  have n: "ks \<noteq> [] \<Longrightarrow> ks ! nat (min (max 0 (int32 active)) (int (length ks) - 1)) \<in> set (ids s1)"
    using ok(2) by (intro subsetD [OF ok(2)] nth_mem) (cases ks, auto)
  show ?thesis unfolding restoreFrom_def items_def [symmetric] l
    using newTab_ok [OF ok(1), of None] open_shown(1) [OF ok(1) n] ok(1) by (simp add: free_frame_def)
qed

section \<open>Closing, popups, frames\<close>

lemma tab_of_in: "tab_of i s = Some t \<Longrightarrow> t \<in> set (sp_tabs s) \<and> sb_id t = i"
  by (auto simp: tab_of_def find_Some_iff)

lemma tabAtFrame_in: "tabAtFrame k s = Some t \<Longrightarrow> t \<in> set (sp_tabs s)"
  by (auto simp: tabAtFrame_def find_Some_iff)

lemma detach_last: "spare_last s \<Longrightarrow> sp_spare s \<noteq> Some f \<Longrightarrow> spare_last (detachFrame f s)"
proof -
  assume l: "spare_last s" and n: "sp_spare s \<noteq> Some f"
  have "xs \<noteq> [] \<Longrightarrow> last xs \<noteq> f \<Longrightarrow> remove1 f xs \<noteq> [] \<and> last (remove1 f xs) = last xs" for xs :: "nat list"
    by (induction xs) (auto split: if_splits)
  then show ?thesis using l n by (auto simp: spare_last_def detachFrame_def)
qed

lemma closed_ok:
  assumes "strip_ok s" "t \<in> set (sp_tabs s)"
  shows "strip_ok (detachFrame (sb_frame t)
     (s\<lparr>sp_tabs := filter (\<lambda>x. sb_id x \<noteq> sb_id t) (sp_tabs s), sp_order := remove1 (sb_id t) (sp_order s), sp_closedByUser := True\<rparr>))"
proof -
  let ?s1 = "s\<lparr>sp_tabs := filter (\<lambda>x. sb_id x \<noteq> sb_id t) (sp_tabs s), sp_order := remove1 (sb_id t) (sp_order s), sp_closedByUser := True\<rparr>"
  have ok: "frames_ok s" "spare_last s" "order_ok s" using assms(1) by (simp_all add: strip_ok_def)
  have "sp_spare s \<noteq> Some (sb_frame t)" using ok(1) assms(2) by (auto simp: frames_ok_def)
  moreover have "spare_last ?s1" using ok(2) by (simp add: spare_last_def)
  ultimately have l: "spare_last (detachFrame (sb_frame t) ?s1)" using detach_last by simp
  have o: "order_ok (detachFrame (sb_frame t) ?s1)" using ok(3) by (auto simp: order_ok_def detachFrame_def)
  have u: "sb_frame x = sb_frame t \<Longrightarrow> x \<in> set (sp_tabs s) \<Longrightarrow> sb_id x = sb_id t" for x
    using ok(1) assms(2) by (auto simp: frames_ok_def distinct_map inj_on_def)
  have sub: "set (ids ?s1) \<subseteq> set (ids s)" "set (frames ?s1) \<subseteq> set (frames s) - {sb_frame t}" using u by auto
  have dist: "distinct (ids ?s1)" "distinct (frames ?s1)" using ok(1) by (simp_all add: frames_ok_def distinct_map_filter)
  have "set (sp_frames (detachFrame (sb_frame t) ?s1)) = set (sp_frames s) - {sb_frame t}" "distinct (sp_frames (detachFrame (sb_frame t) ?s1))"
    using ok(1) by (simp_all add: frames_ok_def detachFrame_def)
  note f = this
  have "frames_ok (detachFrame (sb_frame t) ?s1)"
  proof -
    let ?s2 = "detachFrame (sb_frame t) ?s1"
    have same: "ids ?s2 = ids ?s1" "frames ?s2 = frames ?s1" "sp_ids ?s2 = sp_ids s" "sp_spare ?s2 = sp_spare s"
      by (simp_all add: detachFrame_def)
    have "set (frames ?s2) \<subseteq> set (sp_frames ?s2)" using sub(2) ok(1) unfolding f(1) same frames_ok_def by blast
    moreover have "\<forall>i \<in> set (ids ?s2) \<union> set (sp_frames ?s2). i < sp_ids ?s2"
      using sub(1) ok(1) unfolding f(1) same frames_ok_def by blast
    moreover have "\<forall>f. sp_spare ?s2 = Some f \<longrightarrow> f \<in> set (sp_frames ?s2) - set (frames ?s2)"
      using sub(2) ok(1) assms(2) unfolding f(1) same frames_ok_def by auto
    ultimately show ?thesis using dist f(2) unfolding frames_ok_def same by blast
  qed
  then show ?thesis using l o by (simp add: strip_ok_def)
qed

lemma closeTab_ok:
  assumes "strip_ok s" "shows_active s"
  shows "strip_ok (fst (closeTab E i s)) \<and> shows_active (fst (closeTab E i s))"
proof (cases "tab_of i s")
  case (Some t)
  have t: "t \<in> set (sp_tabs s)" "sb_id t = i" using tab_of_in [OF Some] by simp_all
  define s1 where "s1 = detachFrame (sb_frame t)
     (s\<lparr>sp_tabs := filter (\<lambda>x. sb_id x \<noteq> i) (sp_tabs s), sp_order := remove1 i (sp_order s), sp_closedByUser := True\<rparr>)"
  have ok: "strip_ok s1" using closed_ok [OF assms(1) t(1)] by (simp add: s1_def t(2))
  have a: "sp_active s1 = sp_active s" "sp_order s1 = remove1 i (sp_order s)"
    by (simp_all add: s1_def detachFrame_def filter_map o_def)
  have nx: "sp_tabs s1 \<noteq> [] \<Longrightarrow> (case Option.bind (sb_opener t) (\<lambda>o'. tab_of o' s1) of Some p \<Rightarrow> sb_id p | None \<Rightarrow> sb_id (last (sp_tabs s1))) \<in> set (ids s1)"
    by (auto split: option.split bind_splits dest: tab_of_in)
  have "sp_active s \<noteq> Some i \<Longrightarrow> shows_active s1" using assms(2) a by (auto simp: shows_active_def in_set_remove1)
  moreover note open_shown(1) [OF ok nx]
  ultimately show ?thesis using ok newTab_ok [OF ok, of None] nx unfolding closeTab_def Some option.case Let_def s1_def [symmetric]
    by (simp add: free_frame_def a(1))
qed (simp add: closeTab_def assms)

lemma openPopup_ok:
  assumes "strip_ok s" "shows_active s"
  shows "strip_ok (fst (openPopup E opener a p s)) \<and> shows_active (fst (openPopup E opener a p s))"
proof (cases p)
  case (HeldPopup n)
  then show ?thesis using assms by (auto simp: openPopup_def split: option.split dest: tabAtFrame_in open_shown(2))
next
  case (NamedPopup nm fs)
  define s1 where "s1 = (if sp_spare s = None then ensureSpare s else s)"
  have ok: "strip_ok s1" using assms(1) by (simp add: s1_def)
  have "strip_ok (s1\<lparr>sp_spare := None\<rparr>)" "free_frame (sp_spare s1) (s1\<lparr>sp_spare := None\<rparr>)"
    using ok by (auto simp: strip_ok_def frames_ok_def spare_last_def order_ok_def free_frame_def)
  from newTab_ok [OF this, of E "Some a" "Some opener"] show ?thesis
    unfolding openPopup_def NamedPopup popup.case Let_def s1_def [symmetric]
    by (cases "newTab E (Some a) (sp_spare s1) (Some opener) (s1\<lparr>sp_spare := None\<rparr>)") simp
qed

lemma tabOpens_ok:
  "strip_ok s \<Longrightarrow> shows_active s \<Longrightarrow> strip_ok (fst (tabOpens E i a p s)) \<and> shows_active (fst (tabOpens E i a p s))"
  using openPopup_ok newTab_ok [of s None] by (simp add: tabOpens_def free_frame_def split: option.split)

lemma tabCloses_ok:
  "strip_ok s \<Longrightarrow> shows_active s \<Longrightarrow> strip_ok (fst (tabCloses E i n s)) \<and> shows_active (fst (tabCloses E i n s))"
  using closeTab_ok by (simp add: tabCloses_def split: option.split)

lemma frameReplaced_ok: "strip_ok s \<Longrightarrow> strip_ok (frameReplaced i s)"
proof -
  assume s: "strip_ok s"
  define s1 where "s1 = (case tab_of i s of Some t \<Rightarrow> detachFrame (sb_frame t) s | None \<Rightarrow> s)"
  define s2 where "s2 = s1\<lparr>sp_ids := Suc (sp_ids s1), sp_tabs := map (\<lambda>x. if sb_id x = i then x\<lparr>sb_frame := sp_ids s1\<rparr> else x) (sp_tabs s1)\<rparr>"
  have ok: "frames_ok s" using s by (simp add: strip_ok_def)
  have sm: "sp_tabs s1 = sp_tabs s" "sp_ids s1 = sp_ids s" "sp_spare s1 = sp_spare s" "sp_order s1 = sp_order s"
      "set (sp_frames s1) \<subseteq> set (sp_frames s)" "distinct (sp_frames s1)"
    using ok by (auto simp: s1_def detachFrame_def frames_ok_def split: option.split dest: notin_set_remove1)
  have old: "f \<in> set (sp_frames s1)" if f: "f \<in> set (sp_frames s)" and "\<And>t. t \<in> set (sp_tabs s) \<Longrightarrow> sb_id t = i \<Longrightarrow> sb_frame t \<noteq> f" for f
    using that(1) that(2) tab_of_in [of i s] ok by (auto simp: s1_def detachFrame_def frames_ok_def split: option.split)
  have i2: "ids s2 = ids s" by (simp add: s2_def sm o_def if_distrib [of sb_id] cong: if_cong)
  have uniq: "x = y" if "x \<in> set (sp_tabs s)" "y \<in> set (sp_tabs s)" "sb_frame x = sb_frame y \<or> sb_id x = sb_id y" for x y
    using ok that by (auto simp: frames_ok_def distinct_map inj_on_def)
  have fr: "sb_frame x < sp_ids s" "sb_frame x \<in> set (sp_frames s)" if "x \<in> set (sp_tabs s)" for x
    using ok that by (auto simp: frames_ok_def)
  have d: "distinct (frames s2)"
  proof -
    have "inj_on (\<lambda>x. sb_frame (if sb_id x = i then x\<lparr>sb_frame := sp_ids s\<rparr> else x)) (set (sp_tabs s))"
    proof (rule inj_onI)
      fix x y assume xy: "x \<in> set (sp_tabs s)" "y \<in> set (sp_tabs s)"
        and e: "sb_frame (if sb_id x = i then x\<lparr>sb_frame := sp_ids s\<rparr> else x) = sb_frame (if sb_id y = i then y\<lparr>sb_frame := sp_ids s\<rparr> else y)"
      show "x = y" using e uniq [OF xy] fr(1) [OF xy(1)] fr(1) [OF xy(2)] by (auto split: if_splits)
    qed
    moreover have "distinct (sp_tabs s)" using ok by (simp add: frames_ok_def distinct_map)
    ultimately have "distinct (map (\<lambda>x. sb_frame (if sb_id x = i then x\<lparr>sb_frame := sp_ids s\<rparr> else x)) (sp_tabs s))"
      by (simp only: distinct_map)
    then show ?thesis unfolding s2_def sm(2) by (simp add: sm(1) o_def)
  qed
  have "frames_ok (attachFrame (sp_ids s) s2)"
    unfolding frames_ok_def
  proof (intro conjI)
    show "distinct (ids (attachFrame (sp_ids s) s2))" using i2 ok by (simp add: attachFrame_def frames_ok_def)
    show "distinct (frames (attachFrame (sp_ids s) s2))" using d by (simp add: attachFrame_def)
    show "distinct (sp_frames (attachFrame (sp_ids s) s2))"
      using sm(5,6) frames_okD(5) [OF ok] by (auto simp: attachFrame_def s2_def)
    show "set (frames (attachFrame (sp_ids s) s2)) \<subseteq> set (sp_frames (attachFrame (sp_ids s) s2))"
    proof
      fix f assume "f \<in> set (frames (attachFrame (sp_ids s) s2))"
      then obtain x where x: "x \<in> set (sp_tabs s)" "f = (if sb_id x = i then sp_ids s else sb_frame x)"
        by (auto simp: attachFrame_def s2_def sm(1,2) split: if_splits)
      show "f \<in> set (sp_frames (attachFrame (sp_ids s) s2))"
      proof (cases "sb_id x = i")
        case False
        then have "\<And>t. t \<in> set (sp_tabs s) \<Longrightarrow> sb_id t = i \<Longrightarrow> sb_frame t \<noteq> sb_frame x" using uniq x(1) by blast
        then show ?thesis using old [OF fr(2) [OF x(1)]] x(2) False by (simp add: attachFrame_def s2_def)
      qed (simp add: x(2) attachFrame_def)
    qed
    show "\<forall>k \<in> set (ids (attachFrame (sp_ids s) s2)) \<union> set (sp_frames (attachFrame (sp_ids s) s2)). k < sp_ids (attachFrame (sp_ids s) s2)"
      using i2 sm(5) frames_okD(4,5) [OF ok] by (fastforce simp: attachFrame_def s2_def sm(2))
    show "\<forall>f. sp_spare (attachFrame (sp_ids s) s2) = Some f \<longrightarrow>
        f \<in> set (sp_frames (attachFrame (sp_ids s) s2)) - set (frames (attachFrame (sp_ids s) s2))"
    proof (intro allI impI)
      fix f assume "sp_spare (attachFrame (sp_ids s) s2) = Some f"
      then have "f \<in> set (sp_frames s) - set (frames s)" using ok by (simp add: attachFrame_def s2_def sm frames_ok_def)
      then show "f \<in> set (sp_frames (attachFrame (sp_ids s) s2)) - set (frames (attachFrame (sp_ids s) s2))"
        using old [of f] frames_okD(5) [OF ok, of f] by (auto simp: attachFrame_def s2_def sm split: if_splits)
    qed
  qed
  moreover have "order_ok (attachFrame (sp_ids s) s2)"
    using s i2 by (auto simp: strip_ok_def order_ok_def attachFrame_def s2_def sm less_Suc_eq)
  moreover have "frameReplaced i s = ensureSpare (attachFrame (sp_ids s) s2)"
    unfolding frameReplaced_def Let_def s1_def [symmetric] by (simp only: s2_def sm(2))
  ultimately show ?thesis
    using ensureSpare_ok [of "attachFrame (sp_ids s) s2"] by (auto simp: strip_ok_def order_ok_def less_Suc_eq)
qed

lemma frameReplaced_same [simp]: "ids (frameReplaced i s) = ids s" "sp_active (frameReplaced i s) = sp_active s"
  "sp_order (frameReplaced i s) = sp_order s"
  by (simp_all add: frameReplaced_def Let_def attachFrame_def detachFrame_def o_def if_distrib [of sb_id] cong: if_cong split: option.split)

lemma frameReplaced_active: "shows_active (frameReplaced i s) = shows_active s"
  by (simp only: shows_active_def frameReplaced_same)

section \<open>The order of the tabs\<close>

text \<open>Dragging only moves the dragged tab.\<close>

lemma place_perm: "distinct order \<Longrightarrow> distinct (place m i x order) \<and> set (place m i x order) = insert i (set order)"
proof -
  assume d: "distinct order"
  define os where "os = remove1 i order"
  define P where "P = (\<lambda>k. \<not> x < m k)"
  have os: "set os = set order - {i}" "distinct os" using d by (simp_all add: os_def)
  have s: "set (takeWhile P os) \<union> set (dropWhile P os) = set os" by (metis set_append takeWhile_dropWhile_id)
  have dd: "distinct (takeWhile P os)" "distinct (dropWhile P os)" "set (takeWhile P os) \<inter> set (dropWhile P os) = {}"
    using os(2) distinct_append [of "takeWhile P os" "dropWhile P os"] by simp_all
  have "i \<notin> set os" using os(1) by simp
  then have "distinct (takeWhile P os @ i # dropWhile P os)" using dd s by auto
  moreover have "set (takeWhile P os @ i # dropWhile P os) = insert i (set order)" using s os(1) by auto
  ultimately show ?thesis unfolding place_def Let_def os_def [symmetric] P_def [symmetric] by simp
qed

lemma drag_step_order: "drag_step m i e (d, order) = ((d1, order1), ended) \<Longrightarrow> order1 = order \<or> (\<exists>x. order1 = place m i x order)"
  by (cases e) (auto split: if_splits option.splits)

lemma syncTabOrder_ok: "strip_ok s \<Longrightarrow> strip_ok (syncTabOrder s) \<and> (shows_active s \<longrightarrow> shows_active (syncTabOrder s))"
proof -
  have "set (frames (syncTabOrder s)) = set (frames s)" "set (ids (syncTabOrder s)) = set (ids s)" by (simp_all add: syncTabOrder_def)
  moreover have "mset (ids (syncTabOrder s)) = mset (ids s)" "mset (frames (syncTabOrder s)) = mset (frames s)"
    by (simp_all add: syncTabOrder_def)
  then have "distinct (ids (syncTabOrder s)) = distinct (ids s)" "distinct (frames (syncTabOrder s)) = distinct (frames s)"
    using mset_eq_imp_distinct_iff by blast+
  moreover have "sp_frames (syncTabOrder s) = sp_frames s" "sp_spare (syncTabOrder s) = sp_spare s" "sp_ids (syncTabOrder s) = sp_ids s"
      "sp_order (syncTabOrder s) = sp_order s" "sp_active (syncTabOrder s) = sp_active s"
    by (simp_all add: syncTabOrder_def)
  ultimately show "strip_ok s \<Longrightarrow> ?thesis"
    unfolding strip_ok_def frames_ok_def spare_last_def order_ok_def shows_active_def by metis
qed

lemma drag_tab_ok:
  assumes "strip_ok s" "shows_active s" "i < sp_ids s"
  shows "strip_ok (snd (drag_tab m i e d s)) \<and> shows_active (snd (drag_tab m i e d s)) \<and>
    dead (snd (drag_tab m i e d s)) \<subseteq> (if i \<in> set (ids s) then dead s else insert i (dead s))"
proof -
  obtain d1 order ended where r: "drag_step m i e (d, sp_order s) = ((d1, order), ended)" by (metis prod.exhaust)
  have o: "distinct (sp_order s)" "set (ids s) \<subseteq> set (sp_order s)" "\<forall>k \<in> set (sp_order s). k < sp_ids s"
    using assms(1) by (simp_all add: strip_ok_def order_ok_def)
  have n: "distinct order" "set (sp_order s) \<subseteq> set order" "set order \<subseteq> insert i (set (sp_order s))"
    using drag_step_order [OF r] place_perm [OF o(1), of m i] o(1) by auto
  have "\<forall>k \<in> set order. k < sp_ids s" using n(3) o(3) assms(3) by blast
  then have ok: "strip_ok (s\<lparr>sp_order := order\<rparr>)" "shows_active (s\<lparr>sp_order := order\<rparr>)"
    using assms(1,2) n(1,2) unfolding strip_ok_def frames_ok_def spare_last_def order_ok_def shows_active_def by auto
  have "dead (snd (drag_tab m i e d s)) = set order - set (ids s)" by (auto simp: drag_tab_def r dead_def syncTabOrder_def)
  then have "dead (snd (drag_tab m i e d s)) \<subseteq> (if i \<in> set (ids s) then dead s else insert i (dead s))"
    using n(3) by (auto simp: dead_def)
  then show ?thesis using syncTabOrder_ok [OF ok(1)] ok by (simp add: drag_tab_def r)
qed

section \<open>Closed tabs on the screen\<close>

text \<open>Only a drag puts a closed tab on the screen.\<close>

lemma newTab_dead: "dead (fst (newTab E a frame opener s)) \<subseteq> dead s"
proof -
  have "dead (fst (addTab E frame opener id s)) \<subseteq> dead s"
    by (auto simp: addTab_def Let_def attachFrame_def dead_def)
  then show ?thesis unfolding newTab_def by (cases "addTab E frame opener id s") (simp split: option.split)
qed

lemma lazyTabs_dead: "dead (fst (lazyTabs E is' s)) \<subseteq> dead s"
proof (induction is' arbitrary: s)
  case (Cons i is')
  have "dead (fst (lazyTab E i s)) \<subseteq> dead s" by (auto simp: lazyTab_def addTab_def Let_def attachFrame_def dead_def)
  then show ?case using Cons.IH [of "fst (lazyTab E i s)"] by (auto split: prod.split)
qed simp

lemma restoreFrom_dead: "dead (fst (restoreFrom E saved active requested s)) \<subseteq> dead s"
proof -
  obtain s1 ks where l: "lazyTabs E (last_n MAX_SAVED (filter (\<lambda>i. is_http (sv_url i)) saved)) s = (s1, ks)" by fastforce
  then have "dead s1 \<subseteq> dead s" using lazyTabs_dead [of E "last_n MAX_SAVED (filter (\<lambda>i. is_http (sv_url i)) saved)" s] by simp
  then show ?thesis using subset_trans [OF newTab_dead [of E requested None None s1]] by (simp add: restoreFrom_def l)
qed

lemma closeTab_dead: "strip_ok s \<Longrightarrow> dead (fst (closeTab E i s)) \<subseteq> dead s"
proof (cases "tab_of i s")
  case (Some t)
  assume ok: "strip_ok s"
  define s1 where "s1 = detachFrame (sb_frame t)
     (s\<lparr>sp_tabs := filter (\<lambda>x. sb_id x \<noteq> i) (sp_tabs s), sp_order := remove1 i (sp_order s), sp_closedByUser := True\<rparr>)"
  have "distinct (sp_order s)" using ok by (simp add: strip_ok_def order_ok_def)
  then have "dead s1 \<subseteq> dead s" by (auto simp: s1_def detachFrame_def dead_def)
  then show ?thesis using newTab_dead [of E None None None s1]
    unfolding closeTab_def Some option.case Let_def s1_def [symmetric] by auto
qed (simp add: closeTab_def)

lemma openPopup_dead: "dead (fst (openPopup E opener a p s)) \<subseteq> dead s"
proof (cases p)
  case (NamedPopup nm fs)
  define s1 where "s1 = (if sp_spare s = None then ensureSpare s else s)"
  have "dead (s1\<lparr>sp_spare := None\<rparr>) = dead s" unfolding s1_def by (simp add: dead_def)
  then show ?thesis using newTab_dead [of E "Some a" "sp_spare s1" "Some opener" "s1\<lparr>sp_spare := None\<rparr>"]
    unfolding openPopup_def NamedPopup popup.case Let_def s1_def [symmetric]
    by (cases "newTab E (Some a) (sp_spare s1) (Some opener) (s1\<lparr>sp_spare := None\<rparr>)") simp
qed (simp add: openPopup_def split: option.split)

lemma frameReplaced_dead [simp]: "dead (frameReplaced i s) = dead s"
  by (simp only: dead_def frameReplaced_same)

section \<open>The reachable strips\<close>

text \<open>
  The page starts with the saved tabs or with one; then come the user's clicks and drags, the pages' requests,
  answers and reports to a tab (any step of it), and the server's answers, in any order. Nothing stops a drag
  when the dragged tab is closed meanwhile, and a click may be on any tab on the screen. The first argument
  collects the closed tabs that were dragged; what is loaded in such a tab later is left out.
\<close>

inductive strip_reach :: "nat set \<Rightarrow> strip \<Rightarrow> bool" where
  start: "strip_reach {} (fst (newTab E requested None None sp_empty))"
| restore: "strip_reach {} (fst (restoreFrom E saved active requested sp_empty))"
| spare: "strip_reach g s \<Longrightarrow> strip_reach g (ensureSpare s)"
| new: "strip_reach g s \<Longrightarrow> strip_reach g (fst (newTab E a None None s))"
| select: "strip_reach g s \<Longrightarrow> i \<in> set (sp_order s) \<Longrightarrow> strip_reach g (fst (activateTab E i s))"
| address: "strip_reach g s \<Longrightarrow> strip_reach g (fst (go_active E a s))"
| close: "strip_reach g s \<Longrightarrow> strip_reach g (fst (closeTab E i s))"
| opens: "strip_reach g s \<Longrightarrow> strip_reach g (fst (tabOpens E i a p s))"
| closes: "strip_reach g s \<Longrightarrow> strip_reach g (fst (tabCloses E i n s))"
| frame: "strip_reach g s \<Longrightarrow> strip_reach g (frameReplaced i s)"
| tab: "strip_reach g s \<Longrightarrow> strip_reach g (fst (on_tab i f s))"
| heartbeat: "strip_reach g s \<Longrightarrow> strip_reach g (fst (heartbeat_answered E expired s))"
| drag: "strip_reach g s \<Longrightarrow> i < sp_ids s \<Longrightarrow>
    strip_reach (if i \<in> set (ids s) then g else insert i g) (snd (drag_tab m i e d s))"

lemma reopenAll_ok [simp]:
  "strip_ok (fst (reopenAll E expired ts s)) = strip_ok s" "shows_active (fst (reopenAll E expired ts s)) = shows_active s"
  "dead (fst (reopenAll E expired ts s)) = dead s"
  by (induction ts arbitrary: s) (simp_all add: reopenTab_def)

lemma empty_ok: "strip_ok sp_empty" and empty_dead: "dead sp_empty = {}"
  by (simp_all add: strip_ok_def frames_ok_def spare_last_def order_ok_def sp_empty_def dead_def)

lemma strip_reach_ok: "strip_reach g s \<Longrightarrow> strip_ok s \<and> shows_active s \<and> dead s \<subseteq> g"
proof (induction rule: strip_reach.induct)
  case (start E requested)
  then show ?case using newTab_ok [OF empty_ok, of None] newTab_dead [of E requested None None sp_empty]
    by (simp add: free_frame_def empty_dead)
next
  case (restore E saved active requested)
  then show ?case using restoreFrom_ok [OF empty_ok, of E saved active requested] restoreFrom_dead [of E saved active requested sp_empty]
    by (simp add: empty_dead)
next
  case (new g s E a)
  then show ?case using newTab_ok [of s None] newTab_dead [of E a None None s] by (auto simp: free_frame_def)
next
  case (close g s E i)
  then show ?case using closeTab_ok [of s E i] closeTab_dead [of s E i] by blast
next
  case (opens g s E i a p)
  then have "dead (fst (tabOpens E i a p s)) \<subseteq> g"
    using newTab_dead [of E "Some a" None None s] openPopup_dead [of E i a _ s] by (auto simp: tabOpens_def split: option.split)
  then show ?case using opens tabOpens_ok by blast
next
  case (closes g s E i n)
  then have "dead (fst (tabCloses E i n s)) \<subseteq> g" using closeTab_dead [of s E] by (auto simp: tabCloses_def split: option.split)
  then show ?case using closes tabCloses_ok by blast
next
  case (frame g s i)
  then show ?case using frameReplaced_ok frameReplaced_active by simp
next
  case (drag g s i m e d)
  then show ?case using drag_tab_ok [of s i m e d] by (auto split: if_splits)
qed (simp_all add: heartbeat_answered_def)


definition demo_strip_env :: "ctl_env \<Rightarrow> strip_env" where
  "demo_strip_env E = \<lparr>se_address = Some, se_uid = ''u'', se_ctl = (\<lambda>_. ctl_new E None), se_env = E\<rparr>"


section \<open>What a page may close and open\<close>

lemma newTab_keeps: "set (ids s) \<subseteq> set (ids (fst (newTab E a frame opener s)))"
proof -
  have "ids (fst (addTab E frame opener id s)) = ids s @ [sp_ids s]" by (simp add: addTab_def Let_def attachFrame_def)
  then have "ids (fst (newTab E a frame opener s)) = ids s @ [sp_ids s]"
    unfolding newTab_def by (cases "addTab E frame opener id s") (simp split: option.split)
  then show ?thesis by (simp add: subset_insertI)
qed

lemma closeTab_keeps: "set (ids s) - {i} \<subseteq> set (ids (fst (closeTab E i s)))"
proof (cases "tab_of i s")
  case (Some t)
  define s1 where "s1 = detachFrame (sb_frame t)
     (s\<lparr>sp_tabs := filter (\<lambda>x. sb_id x \<noteq> i) (sp_tabs s), sp_order := remove1 i (sp_order s), sp_closedByUser := True\<rparr>)"
  have "set (ids s1) = set (ids s) - {i}" by (auto simp: s1_def detachFrame_def)
  then show ?thesis using newTab_keeps [of s1 E None None None]
    unfolding closeTab_def Some option.case Let_def s1_def [symmetric] by auto
qed (simp add: closeTab_def)

lemma on_tab_others: "t \<in> set (sp_tabs s) \<Longrightarrow> sb_id t \<noteq> i \<Longrightarrow> t \<in> set (sp_tabs (fst (on_tab i f s)))"
  by (force simp: on_tab_def)

text \<open>C9. A page can close only its own tab, and that only if it is a popup, and popups that it opened itself;
  and by a popup it holds it can send only such a popup elsewhere: every other tab is left as it is.\<close>

theorem page_acts_on_own_popups:
  assumes "strip_ok s" "t \<in> set (sp_tabs s)"
  shows "(sb_id t \<notin> set (ids (fst (tabCloses E i n s))) \<longrightarrow> sb_opener t = Some i \<or> (sb_id t = i \<and> sb_opener t \<noteq> None)) \<and>
    (sb_opener t \<noteq> Some i \<longrightarrow> t \<in> set (sp_tabs (fst (tabOpens E i a (Some (HeldPopup k)) s))))"
proof
  have u: "x = t" if "x \<in> set (sp_tabs s)" "sb_id x = sb_id t" for x
    using that assms by (auto simp: strip_ok_def frames_ok_def distinct_map inj_on_def)
  have gone: "sb_id t = j" if "sb_id t \<notin> set (ids (fst (closeTab E j s)))" for j
    using that closeTab_keeps [of s j E] assms(2) by auto
  show "sb_id t \<notin> set (ids (fst (tabCloses E i n s))) \<longrightarrow> sb_opener t = Some i \<or> (sb_id t = i \<and> sb_opener t \<noteq> None)"
  proof
    assume g: "sb_id t \<notin> set (ids (fst (tabCloses E i n s)))"
    have self: "sb_id t \<in> set (ids s)" using assms(2) by simp
    show "sb_opener t = Some i \<or> (sb_id t = i \<and> sb_opener t \<noteq> None)"
    proof (cases n)
      case None
      show ?thesis
      proof (cases "tab_of i s")
        case (Some x)
        have c: "sb_opener x \<noteq> None \<and> sb_id t \<notin> set (ids (fst (closeTab E i s)))"
          using g self unfolding tabCloses_def None Some option.case by (cases "sb_opener x = None") simp_all
        then have "x = t" using gone [of i] tab_of_in [OF Some] by (intro u) simp_all
        then show ?thesis using c tab_of_in [OF Some] by simp
      qed (use g self in \<open>simp add: tabCloses_def None\<close>)
    next
      case m: (Some m)
      show ?thesis
      proof (cases "tabAtFrame m s")
        case (Some x)
        have c: "sb_opener x = Some i \<and> sb_id t \<notin> set (ids (fst (closeTab E (sb_id x) s)))"
          using g self unfolding tabCloses_def m Some option.case by (cases "sb_opener x = Some i") simp_all
        then have "x = t" using gone [of "sb_id x"] tabAtFrame_in [OF Some] by (intro u) simp_all
        then show ?thesis using c by simp
      qed (use g self in \<open>simp add: tabCloses_def m\<close>)
    qed
  qed
  show "sb_opener t \<noteq> Some i \<longrightarrow> t \<in> set (sp_tabs (fst (tabOpens E i a (Some (HeldPopup k)) s)))"
  proof
    assume o: "sb_opener t \<noteq> Some i"
    show "t \<in> set (sp_tabs (fst (tabOpens E i a (Some (HeldPopup k)) s)))"
    proof (cases "tabAtFrame k s")
      case (Some x)
      have "sb_id t \<noteq> sb_id x" if "sb_opener x = Some i" using that o u tabAtFrame_in [OF Some] by force
      moreover have "sp_active (fst (activateTab E j s)) = Some j" for j by (simp add: activateTab_def)
      ultimately show ?thesis using assms(2) on_tab_others
        by (simp add: tabOpens_def openPopup_def Some go_active_def activateTab_def)
    qed (simp add: tabOpens_def openPopup_def assms(2))
  qed
qed

theorem page_acts_on_own_popups_witness:
  "\<forall>E. let D = demo_strip_env E; s = fst (newTab D None None None (fst (newTab D None None None sp_empty)))
     in 0 \<in> set (ids (fst (tabCloses D 0 None s)))"
  unfolding Let_def
proof
  fix E
  let ?D = "demo_strip_env E"
  let ?s = "fst (newTab ?D None None None (fst (newTab ?D None None None sp_empty)))"
  have r: "strip_ok ?s" using newTab_ok [OF newTab_ok(1) [OF empty_ok]] by (simp add: free_frame_def)
  have "sp_tabs ?s \<noteq> [] \<and> sb_id (hd (sp_tabs ?s)) = 0 \<and> sb_opener (hd (sp_tabs ?s)) = None"
    by (simp add: newTab_def addTab_def activateTab_def on_tab_def ensureSpare_def attachFrame_def detachFrame_def sp_empty_def)
  then have t: "hd (sp_tabs ?s) \<in> set (sp_tabs ?s)" "sb_id (hd (sp_tabs ?s)) = 0" "sb_opener (hd (sp_tabs ?s)) = None"
    using hd_in_set by blast+
  show "0 \<in> set (ids (fst (tabCloses ?D 0 None ?s)))"
    using page_acts_on_own_popups [OF r t(1), of ?D 0 None "[]" 0] t(2,3) by auto
qed

section \<open>The history of a tab is saved and restored\<close>

lemma clean_history_saved:
  assumes "pred_option wf_history (sv_history t)"
  shows "clean_history conv (tab_json t) = sv_history t"
proof -
  let ?t = "\<lparr>sv_url = ''http://'', sv_title = [], sv_history = sv_history t\<rparr>"
  have "wf_tab ?t" using assms by (simp add: wf_tab_def is_web_def starts_with_def toLowerCase_def lower_char_def)
  then have "clean_history conv (tab_json ?t) = sv_history t" using clean_history_json by fastforce
  moreover have "clean_history conv (tab_json t) = clean_history conv (tab_json ?t)"
  proof (cases "sv_history t")
    case (Some hp)
    obtain h p where hp: "hp = (h, p)" by (cases hp)
    have t: "sv_history t = Some (h, p)" "sv_history ?t = Some (h, p)" using Some hp by simp_all
    show ?thesis unfolding clean_history_def tab_json_history(2,3) [OF t(1)] tab_json_history(2,3) [OF t(2)] by (rule refl)
  qed (simp add: clean_history_def tab_json_history)
  ultimately show ?thesis by simp
qed

definition saved_from :: "hentry list \<Rightarrow> int" where
  "saved_from h = max 0 (int (length h) - int MAX_HISTORY)"

lemma savedHistory_all:
  assumes "wt_pendingHistory t = None" "wt_history t \<noteq> []" "list_all (is_http \<circ> he_url) (wt_history t)"
    and "0 \<le> wt_position t" "wt_position t < int (length (wt_history t))" "length (wt_history t) < 2 ^ 31"
  shows "savedHistory t = Some (map (\<lambda>e. (he_url e, he_doc e)) (last_n MAX_HISTORY (wt_history t)),
     max 0 (wt_position t - saved_from (wt_history t)))"
proof -
  have f: "filter (\<lambda>e. is_http (he_url e)) (wt_history t) = wt_history t"
    using assms(3) by (simp add: filter_id_conv list_all_iff)
  have "int (length (wt_history t)) < 2 ^ 31" using assms(6) by simp
  then have "wt_position t < 2 ^ 31" using assms(5) by linarith
  then have i: "int32 (wt_position t) = wt_position t" using int32_small assms(4) by simp
  have d: "drop (nat (saved_from (wt_history t))) (wt_history t) = last_n MAX_HISTORY (wt_history t)"
    by (simp add: saved_from_def last_n_def nat_diff_distrib' max_def)
  have "min (max 0 (wt_position t - saved_from (wt_history t))) (int (length (wt_history t)) - saved_from (wt_history t) - 1)
      = max 0 (wt_position t - saved_from (wt_history t))"
    using assms(4,5) unfolding saved_from_def by (auto simp: MAX_HISTORY_def max_def min_def)
  then show ?thesis unfolding savedHistory_def assms(1) option.case prod.case f Let_def saved_from_def [symmetric] i d
    using assms(2) by simp
qed

lemma restoredHistory_all:
  assumes "h \<noteq> []" "length h \<le> MAX_HISTORY" "list_all (is_http \<circ> fst) h" "0 \<le> p" "p < int (length h)"
  shows "restoredHistory (Some (h, p)) =
    Some (map (\<lambda>(i, (u, d)). \<lparr>he_id = ''restored-'' @ dec i, he_url = u, he_doc = restored_doc i d\<rparr>) (enumerate 0 h), p)"
proof -
  have f: "filter (\<lambda>(u, d). is_http u) h = h" using assms(3) by (auto simp: filter_id_conv list_all_iff)
  have "p < 2 ^ 31" using assms(2,5) by (simp add: MAX_HISTORY_def)
  then have "int32 p = p" using int32_small assms(4) by simp
  moreover have "enumerate 0 h \<noteq> []" using assms(1) by (cases h) simp_all
  ultimately show ?thesis using assms unfolding restoredHistory_def by (simp add: f Let_def)
qed


definition demo_saved_tab :: "ctl \<Rightarrow> stab" where
  "demo_saved_tab c =
     \<lparr>sb_id = 0, sb_tab = (wt_new c)\<lparr>wt_history := [\<lparr>he_id = ''x'', he_url = ''https://a/'', he_doc = ''d''\<rparr>,
        \<lparr>he_id = ''y'', he_url = ''https://b/'', he_doc = ''e''\<rparr>], wt_position := 1\<rparr>,
      sb_frame = 1, sb_opener = None, sb_return = None, sb_watch = None\<rparr>"


text \<open>A drag of a tab that its page closes meanwhile puts the closed tab back on the screen.\<close>

lemma closed_tab_dragged_back:
  assumes "i \<notin> set (ids s)" "dg_start d = Some o'" "dg_pointer d = Some ptr" "dg_dragging d"
  shows "i \<in> dead (snd (drag_tab m i (Move ptr mouse x y) d s))"
  using assms by (cases o') (auto simp: drag_tab_def place_def Let_def dead_def)

end
