(* ===== verification/BlToolbarPage.thy ===== *)
theory BlToolbarPage
  imports BlTabStripProps
begin

text \<open>
  \<^verbatim>\<open>browser-lite/proxy/wrapper.js\<close>, the rest of the toolbar's page: what the address field makes of a text, the
  bar that offers the full browser and the watch for the sign-in that is made there, the shortcuts, the
  advertising switch, and which tabs the page starts with. Page elements, local storage failures and the delay
  timers of saving are left out.
\<close>

section \<open>The address field\<close>

text \<open>\<open>/^[a-z][a-z\d+.-]*:/i\<close>\<close>

fun scheme_tail :: "string \<Rightarrow> bool" where
  "scheme_tail [] = False"
| "scheme_tail (c # cs) = (c = CHR '':'' \<or> (is_letter (lower_char c) \<or> is_digit c \<or> c \<in> set ''+.-'') \<and> scheme_tail cs)"

definition has_scheme :: "string \<Rightarrow> bool" where
  "has_scheme s \<longleftrightarrow> (case s of [] \<Rightarrow> False | c # cs \<Rightarrow> is_letter (lower_char c) \<and> scheme_tail cs)"

text \<open>The address for an entered text; None where it is refused. \<open>pg_href\<close> is \<open>new URL(s).href\<close>,
  \<open>pg_encode\<close> is \<open>encodeURIComponent\<close>.\<close>

record page_env =
  pg_platform :: platform
  pg_href :: "string \<Rightarrow> string"
  pg_encode :: "string \<Rightarrow> string"

definition address :: "page_env \<Rightarrow> string \<Rightarrow> string option" where
  "address G value =
     (let v = js_trim value;
          w = (if has_scheme v then v
               else if list_ex is_space v \<or> CHR ''.'' \<notin> set v then ''https://www.google.com/search?q='' @ pg_encode G v
               else ''https://'' @ v)
      in if v = [] then None
         else case upstreamUrl (pg_platform G) w of None \<Rightarrow> None | Some u \<Rightarrow> Some (pg_href G w))"

section \<open>The hand-over to the full browser\<close>

definition GOOGLE_SIGN_IN :: "string \<Rightarrow> bool" where
  "GOOGLE_SIGN_IN host \<longleftrightarrow> host \<in> {''accounts.google.com'', ''accounts.youtube.com''}"

definition host_of :: "page_env \<Rightarrow> string \<Rightarrow> string" where
  "host_of G s = (case pf_url (pg_platform G) s of Some u \<Rightarrow> u_hostname u | None \<Rightarrow> [])"

datatype bar = Hidden | SignIn bool | Refused | BotCheck

text \<open>Which text the bar shows; for a sign-in also whether the tab can go on to the site that asked for it.\<close>

definition watch_span :: int where "watch_span = 15 * 60 * 1000"

definition stopHandoffWatch :: "stab \<Rightarrow> stab" where
  "stopHandoffWatch t = t\<lparr>sb_watch := None\<rparr>"

definition watchHandoff :: "bool \<Rightarrow> nat \<Rightarrow> int \<Rightarrow> stab \<Rightarrow> stab" where
  "watchHandoff localOnly i now t =
     (case sb_watch t of
        Some _ \<Rightarrow> t
      | None \<Rightarrow>
          if localOnly then t
          else t\<lparr>sb_watch := Some \<lparr>wa_id = i, wa_url = (case sb_return t of Some a \<Rightarrow> a | None \<Rightarrow> []), wa_baseline = None, wa_until = now + watch_span\<rparr>\<rparr>)"

definition handoff :: "page_env \<Rightarrow> bool \<Rightarrow> bool \<Rightarrow> nat \<Rightarrow> int \<Rightarrow> stab \<Rightarrow> stab \<times> bar" where
  "handoff G session localOnly i now t =
     (let url = state_url (sb_tab t); host = host_of G url; signIn = GOOGLE_SIGN_IN host;
          loading = (case wt_state (sb_tab t) of Some (p, l) \<Rightarrow> l | None \<Rightarrow> False);
          blocked = (\<not> signIn \<and> (case wt_state (sb_tab t) of Some (p, l) \<Rightarrow> sh_blocked p \<and> \<not> l | None \<Rightarrow> False));
          refused = (\<not> signIn \<and> (case wt_state (sb_tab t) of Some (p, l) \<Rightarrow> sh_failure p \<noteq> [] \<and> \<not> l | None \<Rightarrow> False));
          t1 = (if host \<noteq> [] \<and> \<not> signIn \<and> \<not> under host ''google.com'' then t\<lparr>sb_return := Some url\<rparr> else t);
          goes_on = (signIn \<and> sb_return t1 \<noteq> None)
      in (if goes_on then watchHandoff localOnly i now t1 else stopHandoffWatch t1,
          if \<not> session then Hidden else if signIn then SignIn goes_on else if refused then Refused else if blocked then BotCheck else Hidden))"

text \<open>
  \<open>request\<close> for the fingerprint of the cookies (\<open>logins-check\<close>): the reply is a status with the fingerprint
  (\<open>None\<close> if the body is no JSON), or none at all. A 401 renews the session, where there is one, and
  if that succeeds (\<open>renewed\<close>) the request is sent once more: how many times it is sent, and what it gives, \<open>None\<close> for an error.
\<close>

datatype reply = NoReply | Replied nat "string option"

record exchange =
  ex_first :: reply
  ex_renewed :: bool
  ex_second :: reply

definition reply_result :: "reply \<Rightarrow> string option" where
  "reply_result r = (case r of NoReply \<Rightarrow> None | Replied st mark \<Rightarrow> if 200 \<le> st \<and> st \<le> 299 then mark else None)"

definition check_request :: "bool \<Rightarrow> exchange \<Rightarrow> nat \<times> string option" where
  "check_request session x =
     (case ex_first x of
        Replied st mark \<Rightarrow>
          if st = 401 then if session \<and> ex_renewed x then (2, reply_result (ex_second x)) else (1, None)
          else (1, reply_result (ex_first x))
      | NoReply \<Rightarrow> (1, None))"

text \<open>One poll: whether it asks, and what its answer leads to. The answer is the fingerprint of the cookies the
  full browser has for the site, \<open>None\<close> if the request failed. \<open>Back\<close> sends the tab to the site again.\<close>

datatype polled = Stops | Again | Back string

definition poll_asks :: "nat \<Rightarrow> int \<Rightarrow> bool \<Rightarrow> stab \<Rightarrow> stab \<times> bool" where
  "poll_asks i now exists t =
     (case sb_watch t of
        Some w \<Rightarrow>
          if wa_id w \<noteq> i \<or> \<not> exists then (t, False)
          else if now > wa_until w then (stopHandoffWatch t, False)
          else (t, True)
      | None \<Rightarrow> (t, False))"

definition poll_answer :: "nat \<Rightarrow> string option \<Rightarrow> stab \<Rightarrow> stab \<times> polled" where
  "poll_answer i ans t =
     (case ans of
        None \<Rightarrow> (t, Again)
      | Some mark \<Rightarrow>
          (case sb_watch t of
             Some w \<Rightarrow>
               if wa_id w \<noteq> i then (t, Stops)
               else (case wa_baseline w of
                       None \<Rightarrow> (t\<lparr>sb_watch := Some (w\<lparr>wa_baseline := Some mark\<rparr>)\<rparr>, Again)
                     | Some b \<Rightarrow>
                         if mark \<noteq> b \<and> mark \<noteq> [] then (stopHandoffWatch t, Back (wa_url w)) else (t, Again))
           | None \<Rightarrow> (t, Stops)))"

text \<open>The active tab goes there now, another one when it is shown next.\<close>

definition poll_back :: "strip_env \<Rightarrow> nat \<Rightarrow> string \<Rightarrow> strip_step" where
  "poll_back E i a s =
     (if sp_active s = Some i then go_active E a s else on_tab i (\<lambda>t. (t\<lparr>wt_pendingUrl := Some a\<rparr>, [])) s)"

section \<open>Shortcuts\<close>

definition strip_www :: "string \<Rightarrow> string" where
  "strip_www h = (if starts_with ''www.'' h then drop 4 h else h)"

definition shortcut_name :: "string \<Rightarrow> string \<Rightarrow> string" where
  "shortcut_name name host = take 60 (if js_trim name \<noteq> [] then js_trim name else strip_www host)"

fun clean_page_list :: "page_env \<Rightarrow> json list \<Rightarrow> (string \<times> string) list \<Rightarrow> (string \<times> string) list" where
  "clean_page_list G [] out = out"
| "clean_page_list G (item # items) out =
     (case jget ''url'' item of
        JStr s \<Rightarrow>
          (case upstreamUrl (pg_platform G) s of
             None \<Rightarrow> clean_page_list G items out
           | Some u \<Rightarrow>
               if pg_href G s \<in> snd ` set out then clean_page_list G items out
               else let out' = out @ [(shortcut_name (the_str (jget ''name'' item)) (u_hostname u), pg_href G s)]
                    in if length out' \<ge> MAX_SHORTCUTS then out' else clean_page_list G items out')
      | _ \<Rightarrow> clean_page_list G items out)"

definition cleanShortcuts :: "page_env \<Rightarrow> json \<Rightarrow> (string \<times> string) list option" where
  "cleanShortcuts G input = (case input of JArr xs \<Rightarrow> Some (clean_page_list G xs []) | _ \<Rightarrow> None)"

definition DEFAULT_SHORTCUTS :: "(string \<times> string) list" where
  "DEFAULT_SHORTCUTS =
     [(''Google'', ''https://www.google.com/''), (''Wikipedia'', ''https://www.wikipedia.org/''), (''GitHub'', ''https://github.com/''),
      (''X'', ''https://x.com/''), (''ChatGPT'', ''https://chatgpt.com/''), (''Claude'', ''https://claude.ai/'')]"

definition shortcutList :: "(string \<times> string) list option \<Rightarrow> (string \<times> string) list" where
  "shortcutList s = (case s of Some xs \<Rightarrow> xs | None \<Rightarrow> DEFAULT_SHORTCUTS)"

datatype added = BadAddress | Already | Full | Added

definition addShortcut :: "page_env \<Rightarrow> string \<Rightarrow> string \<Rightarrow> (string \<times> string) list option \<Rightarrow> (string \<times> string) list option \<times> added" where
  "addShortcut G name value s =
     (case address G value of
        None \<Rightarrow> (s, BadAddress)
      | Some url \<Rightarrow>
          if url \<in> snd ` set (shortcutList s) then (s, Already)
          else if length (shortcutList s) \<ge> MAX_SHORTCUTS then (s, Full)
          else (Some (shortcutList s @ [(shortcut_name name (host_of G url), url)]), Added))"

definition removeShortcut :: "string \<Rightarrow> (string \<times> string) list option \<Rightarrow> (string \<times> string) list option" where
  "removeShortcut url s = Some (filter (\<lambda>x. snd x \<noteq> url) (shortcutList s))"

text \<open>The server's list, if it has one, is taken over.\<close>

definition shortcuts_answer :: "page_env \<Rightarrow> json \<Rightarrow> (string \<times> string) list option \<Rightarrow> (string \<times> string) list option" where
  "shortcuts_answer G result s = (case cleanShortcuts G (jget ''shortcuts'' result) of Some xs \<Rightarrow> Some xs | None \<Rightarrow> s)"

section \<open>The advertising switch\<close>

text \<open>On unless this device says otherwise; the server's answer decides when it is a boolean.\<close>

definition adblock_start :: "string option \<Rightarrow> bool" where
  "adblock_start stored = (case stored of None \<Rightarrow> True | Some v \<Rightarrow> v = ''1'')"

definition adblock_answer :: "json \<Rightarrow> bool \<Rightarrow> bool" where
  "adblock_answer result on =
     (if jtruthy (jget ''prefs'' result) then case jget ''adblock'' (jget ''prefs'' result) of JBool b \<Rightarrow> b | _ \<Rightarrow> on else on)"

section \<open>The start\<close>

text \<open>This device's tabs, else the server's, else a new tab; \<open>None\<close> while the server is asked.\<close>

definition page_start :: "strip_env \<Rightarrow> bool \<Rightarrow> bool \<Rightarrow> (saved_tab list \<times> int) option \<Rightarrow> string option \<Rightarrow> strip \<times> (nat \<times> wt_out) list" where
  "page_start E profile localOnly local requested =
     (let s = sp_empty
      in strip_then
           (case local of
              Some (t # ts, active) \<Rightarrow> restoreFrom E (t # ts) active requested
            | _ \<Rightarrow> if profile \<and> \<not> localOnly then (\<lambda>s. (s, [])) else newTab E requested None None)
           (\<lambda>s. (ensureSpare s, [])) s)"

definition server_tabs :: "strip_env \<Rightarrow> (saved_tab list \<times> int) option \<Rightarrow> string option \<Rightarrow> strip_step" where
  "server_tabs E saved requested s =
     (if sp_tabs s \<noteq> [] then (s, [])
      else case saved of Some (t # ts, active) \<Rightarrow> restoreFrom E (t # ts) active requested s | _ \<Rightarrow> newTab E requested None None s)"

section \<open>The watch ends\<close>

text \<open>
  A whole watch: the polls at their times with what their requests meet; how many polls ask, how often a
  request is sent, and how the watch ended.
\<close>

fun watch_run :: "bool \<Rightarrow> nat \<Rightarrow> (int \<times> exchange) list \<Rightarrow> stab \<Rightarrow> nat \<times> nat \<times> string option" where
  "watch_run session i [] t = (0, 0, None)"
| "watch_run session i ((now, x) # ps) t =
     (case poll_asks i now True t of
        (t1, False) \<Rightarrow> (0, 0, None)
      | (t1, True) \<Rightarrow>
          (case check_request session x of
             (sent, ans) \<Rightarrow>
               (case poll_answer i ans t1 of
                  (t2, Stops) \<Rightarrow> (1, sent, None)
                | (t2, Back a) \<Rightarrow> (1, sent, Some a)
                | (t2, Again) \<Rightarrow> (case watch_run session i ps t2 of (n, m, r) \<Rightarrow> (Suc n, sent + m, r)))))"

text \<open>Each poll comes at least four seconds after the one before.\<close>

fun spaced :: "int list \<Rightarrow> bool" where
  "spaced [] = True"
| "spaced [x] = True"
| "spaced (x # y # xs) = (x + 4000 \<le> y \<and> spaced (y # xs))"

lemma check_request_sends: "1 \<le> fst (check_request session x) \<and> fst (check_request session x) \<le> (if session then 2 else 1)"
  by (simp add: check_request_def split: reply.split)

definition watch_bounded :: "bool \<Rightarrow> nat \<Rightarrow> string \<Rightarrow> nat \<times> nat \<times> string option \<Rightarrow> bool" where
  "watch_bounded session k back_to r =
     (case r of (polls, sent, ended) \<Rightarrow>
        polls \<le> k \<and> polls \<le> sent \<and> sent \<le> (if session then 2 else 1) * polls \<and> (\<forall>a. ended = Some a \<longrightarrow> a = back_to))"

lemma watch_run_bound:
  assumes "sb_watch t = Some w" "spaced (map fst ps)" "ps \<noteq> [] \<longrightarrow> wa_until w - fst (hd ps) < 4000 * int k"
  shows "watch_bounded session k (wa_url w) (watch_run session i ps t)"
  using assms
proof (induction ps arbitrary: t w k)
  case (Cons p ps)
  obtain now x where p: "p = (now, x)" by (cases p)
  show ?case
  proof (cases "wa_id w \<noteq> i \<or> now > wa_until w")
    case True
    then show ?thesis using Cons.prems(1) by (simp add: p poll_asks_def watch_bounded_def)
  next
    case False
    then have asks: "poll_asks i now True t = (t, True)" using Cons.prems(1) by (simp add: poll_asks_def)
    have "0 < 4000 * int k" using Cons.prems(3) False by (simp add: p)
    then obtain j where k: "k = Suc j" by (cases k) auto
    have nx: "ps \<noteq> [] \<longrightarrow> wa_until w - fst (hd ps) < 4000 * int j" using Cons.prems(2,3) by (cases ps) (auto simp: p k)
    have sp: "spaced (map fst ps)" using Cons.prems(2) by (cases ps) (simp_all add: p)
    obtain sent ans where c: "check_request session x = (sent, ans)" by fastforce
    have sent: "1 \<le> sent" "sent \<le> (if session then 2 else 1)" using check_request_sends [of session x] c by simp_all
    obtain t2 r where a: "poll_answer i ans t = (t2, r)" by fastforce
    have same: "\<exists>w2. sb_watch t2 = Some w2 \<and> wa_until w2 = wa_until w \<and> wa_url w2 = wa_url w" if "r = Again"
      using a that Cons.prems(1) by (auto simp: poll_answer_def split: option.splits if_splits)
    have site: "a = wa_url w" if "r = Back a" for a
      using a that Cons.prems(1) by (auto simp: poll_answer_def split: option.splits if_splits)
    show ?thesis
    proof (cases r)
      case Again
      then obtain w2 where w2: "sb_watch t2 = Some w2" "wa_until w2 = wa_until w" "wa_url w2 = wa_url w" using same by blast
      have "watch_bounded session j (wa_url w) (watch_run session i ps t2)"
        using Cons.IH [OF w2(1) sp, of j] nx w2(2,3) by simp
      then show ?thesis using sent
        by (cases "watch_run session i ps t2") (auto simp: p asks c a Again k watch_bounded_def split: if_splits)
    next
      case (Back a')
      then show ?thesis using site sent by (simp add: p asks c a k watch_bounded_def)
    qed (use sent in \<open>simp add: p asks c a k watch_bounded_def\<close>)
  qed
qed (simp add: watch_bounded_def)

text \<open>C19. The watch for a sign-in in the full browser ends: begun now, with polls that come at least four seconds
  apart, at most 226 polls ask, however long it is left alone and whatever the answers. Each of them sends its
  request once, or twice when a 401 made the session renew, so at most 452 are sent, and at most 226 without
  a session. If it sends the tab anywhere, then back to the site that asked for the sign-in.\<close>

theorem sign_in_watch_ends:
  assumes "sb_watch t = None" "sb_return t = Some back_to" "spaced (map fst ps)" "ps \<noteq> [] \<longrightarrow> now \<le> fst (hd ps)"
  shows "case watch_run session i ps (watchHandoff False i now t) of
    (polls, sent, ended) \<Rightarrow>
      polls \<le> 226 \<and> polls \<le> sent \<and> sent \<le> (if session then 2 else 1) * polls \<and> ended \<in> {None, Some back_to}"
proof -
  let ?w = "\<lparr>wa_id = i, wa_url = back_to, wa_baseline = None, wa_until = now + watch_span\<rparr>"
  have w: "sb_watch (watchHandoff False i now t) = Some ?w" using assms(1,2) by (simp add: watchHandoff_def)
  have "ps \<noteq> [] \<longrightarrow> wa_until ?w - fst (hd ps) < 4000 * int 226" using assms(4) by (cases "ps = []") (simp_all add: watch_span_def)
  from watch_run_bound [OF w assms(3) this, of session i] show ?thesis
    by (cases "watch_run session i ps (watchHandoff False i now t)"; cases "snd (snd (watch_run session i ps (watchHandoff False i now t)))")
      (auto simp: watch_bounded_def)
qed

definition a_reply :: "nat \<Rightarrow> string \<Rightarrow> exchange" where
  "a_reply st mark = \<lparr>ex_first = Replied st (Some mark), ex_renewed = True, ex_second = Replied 200 (Some mark)\<rparr>"

theorem sign_in_watch_ends_witness:
  "\<forall>c. watch_run True 7 [(0, a_reply 200 ''x''), (4000, a_reply 500 []), (8000, a_reply 401 ''y'')]
       (watchHandoff False 7 0 ((demo_saved_tab c)\<lparr>sb_return := Some ''https://a/''\<rparr>)) = (3, 4, Some ''https://a/'')"
proof
  fix c
  let ?t = "watchHandoff False 7 0 ((demo_saved_tab c)\<lparr>sb_return := Some ''https://a/''\<rparr>)"
  let ?ps = "[(0 :: int, a_reply 200 ''x''), (4000, a_reply 500 []), (8000, a_reply 401 ''y'')]"
  have r: "fst (watch_run True 7 ?ps ?t) = 3" "fst (snd (watch_run True 7 ?ps ?t)) = 4" "snd (snd (watch_run True 7 ?ps ?t)) \<noteq> None"
    by (simp_all add: watchHandoff_def demo_saved_tab_def poll_asks_def poll_answer_def watch_span_def stopHandoffWatch_def
        check_request_def reply_result_def a_reply_def)
  have "case watch_run True 7 ?ps ?t of (polls, sent, ended) \<Rightarrow>
      polls \<le> 226 \<and> polls \<le> sent \<and> sent \<le> (if True then 2 else 1) * polls \<and> ended \<in> {None, Some ''https://a/''}"
    by (rule sign_in_watch_ends) (simp_all add: demo_saved_tab_def)
  then show "watch_run True 7 ?ps ?t = (3, 4, Some ''https://a/'')"
    using r by (cases "watch_run True 7 ?ps ?t") auto
qed

section \<open>Shortcuts stay in bounds\<close>

definition shortcuts_ok :: "(string \<times> string) list \<Rightarrow> bool" where
  "shortcuts_ok xs \<longleftrightarrow> length xs \<le> MAX_SHORTCUTS \<and> distinct (map snd xs) \<and> (\<forall>x \<in> set xs. length (fst x) \<le> 60)"

lemma clean_page_list_ok: "shortcuts_ok out \<Longrightarrow> length out < MAX_SHORTCUTS \<Longrightarrow> shortcuts_ok (clean_page_list G items out)"
proof (induction G items out rule: clean_page_list.induct)
  case (2 G item items out)
  show ?case
  proof (cases "\<exists>s u. jget ''url'' item = JStr s \<and> upstreamUrl (pg_platform G) s = Some u \<and> pg_href G s \<notin> snd ` set out")
    case True
    then obtain s u where su: "jget ''url'' item = JStr s" "upstreamUrl (pg_platform G) s = Some u" "pg_href G s \<notin> snd ` set out" by blast
    let ?out = "out @ [(shortcut_name (the_str (jget ''name'' item)) (u_hostname u), pg_href G s)]"
    have "shortcuts_ok ?out" using "2.prems" su(3) by (auto simp: shortcuts_ok_def shortcut_name_def)
    then show ?thesis using "2.IH" su by (auto simp: Let_def)
  next
    case False
    then show ?thesis using 2 by (auto split: json.split option.split)
  qed
qed simp

theorem shortcuts_stay_ok:
  "shortcuts_ok (shortcutList s) \<Longrightarrow>
     shortcuts_ok (shortcutList (fst (addShortcut G name value s))) \<and> shortcuts_ok (shortcutList (removeShortcut url s)) \<and>
     shortcuts_ok (shortcutList (shortcuts_answer G result s))"
proof (intro conjI)
  assume ok: "shortcuts_ok (shortcutList s)"
  show "shortcuts_ok (shortcutList (fst (addShortcut G name value s)))"
    using ok by (auto simp: addShortcut_def shortcutList_def [of "Some _"] shortcuts_ok_def shortcut_name_def split: option.split)
  show "shortcuts_ok (shortcutList (removeShortcut url s))"
    using ok by (auto simp: removeShortcut_def shortcutList_def [of "Some _"] shortcuts_ok_def distinct_map_filter intro: le_trans [OF length_filter_le])
  have e: "shortcuts_ok []" "length ([] :: (string \<times> string) list) < MAX_SHORTCUTS" by (simp_all add: shortcuts_ok_def MAX_SHORTCUTS_def)
  show "shortcuts_ok (shortcutList (shortcuts_answer G result s))"
    using ok clean_page_list_ok [OF e] by (auto simp: shortcuts_answer_def cleanShortcuts_def shortcutList_def [of "Some _"] split: option.split json.split)
qed

lemma default_shortcuts_ok: "shortcuts_ok (shortcutList None)"
  by (simp add: shortcutList_def DEFAULT_SHORTCUTS_def shortcuts_ok_def MAX_SHORTCUTS_def)

text \<open>Whichever way it starts, there is a tab, or one is shown once the server has answered.\<close>

lemma started_has_tab:
  "strip_ok (fst (page_start E profile localOnly local requested)) \<and>
   (sp_tabs (fst (page_start E profile localOnly local requested)) \<noteq> [] \<or>
    shows_active (fst (server_tabs E saved requested (fst (page_start E profile localOnly local requested)))))"
proof -
  define s where "s = fst (page_start E profile localOnly local requested)"
  have ok: "strip_ok s"
    using restoreFrom_ok [OF empty_ok] newTab_ok(1) [OF empty_ok, of None] empty_ok
    by (auto simp: s_def page_start_def Let_def free_frame_def split: option.split list.split prod.split)
  have "shows_active (fst (server_tabs E saved requested s))" if "sp_tabs s = []"
    using restoreFrom_ok [OF ok] newTab_ok(2) [OF ok, of None] that
    by (auto simp: server_tabs_def free_frame_def split: option.split list.split prod.split)
  then show ?thesis using ok by (auto simp: s_def)
qed

end
