(* ===== verification/JsBits.thy ===== *)
theory JsBits
  imports "HOL-Library.Word"
begin

text \<open>
  The bitwise operators of JavaScript: they read both numbers as 32-bit integers and give a signed one,
  \<open>>>>\<close> an unsigned one. The shift counts of the sources are below 32. What a typed array keeps of a
  number is here too.
\<close>

unbundle bit_operations_syntax

section \<open>Operators\<close>

abbreviation w32 :: "int \<Rightarrow> 32 word" where "w32 x \<equiv> word_of_int x"

definition jb_and :: "int \<Rightarrow> int \<Rightarrow> int" where "jb_and x y = sint (w32 x AND w32 y)"
definition jb_or :: "int \<Rightarrow> int \<Rightarrow> int" where "jb_or x y = sint (w32 x OR w32 y)"
definition jb_xor :: "int \<Rightarrow> int \<Rightarrow> int" where "jb_xor x y = sint (w32 x XOR w32 y)"
definition jb_not :: "int \<Rightarrow> int" where "jb_not x = sint (NOT (w32 x))"
definition jb_shl :: "int \<Rightarrow> nat \<Rightarrow> int" where "jb_shl x n = sint (push_bit n (w32 x))"
definition jb_sar :: "int \<Rightarrow> nat \<Rightarrow> int" where "jb_sar x n = sint (signed_drop_bit n (w32 x))"
definition jb_shr :: "int \<Rightarrow> nat \<Rightarrow> int" where "jb_shr x n = uint (drop_bit n (w32 x))"

text \<open>Elements of a \<open>Uint32Array\<close> and of a \<open>Uint8Array\<close>.\<close>

definition u32 :: "int \<Rightarrow> int" where "u32 x = x mod 2 ^ 32"
definition u8 :: "int \<Rightarrow> nat" where "u8 x = nat (x mod 256)"

section \<open>They are the operations of words\<close>

named_theorems jb_bits

lemma jb_word [jb_bits]:
  "w32 (jb_and x y) = w32 x AND w32 y" "w32 (jb_or x y) = w32 x OR w32 y" "w32 (jb_xor x y) = w32 x XOR w32 y"
  "w32 (jb_not x) = NOT (w32 x)" "w32 (jb_shl x n) = push_bit n (w32 x)" "w32 (jb_shr x n) = drop_bit n (w32 x)"
  "w32 (x + y) = w32 x + w32 y"
  by (simp_all add: jb_and_def jb_or_def jb_xor_def jb_not_def jb_shl_def jb_shr_def)

lemma u32_uint: "u32 x = uint (w32 x)"
  by (simp add: u32_def uint_word_of_int)

lemma u32_word [jb_bits]: "w32 (u32 x) = w32 x"
  by (simp add: u32_uint)

lemma u8_less [simp]: "u8 x < 256"
  by (simp add: u8_def nat_less_iff)

lemma rotr_or:
  fixes x :: "32 word"
  assumes "0 < n" "n < 32"
  shows "drop_bit n x OR push_bit (32 - n) x = word_rotr n x"
proof (rule bit_word_eqI)
  fix k assume k: "k < LENGTH(32)"
  show "bit (drop_bit n x OR push_bit (32 - n) x) k \<longleftrightarrow> bit (word_rotr n x) k"
  proof (cases "k + n < 32")
    case True
    then show ?thesis using assms k by (auto simp: bit_simps add.commute)
  next
    case False
    then have "(k + n) mod 32 = k + n - 32" using assms k by (simp add: mod_if)
    moreover have "\<not> bit x (n + k)" using False bit_imp_le_length [of x "n + k"] by auto
    moreover have "32 - n \<le> k" using False by simp
    ultimately show ?thesis using False assms k by (simp add: bit_simps add.commute)
  qed
qed

lemma or_disjoint:
  fixes k x :: int
  assumes "0 \<le> x" "x < 2 ^ n"
  shows "(k * 2 ^ n) OR x = k * 2 ^ n + x"
proof -
  have "take_bit n x = x" using assms by (simp add: take_bit_int_eq_self_iff)
  then have "\<not> bit (push_bit n k) m \<or> \<not> bit x m" for m by (metis bit_push_bit_iff_int bit_take_bit_iff not_le)
  then have "push_bit n k + x = push_bit n k OR x" by (intro disjunctive_add) blast
  then show ?thesis by (simp add: push_bit_eq_mult)
qed

text \<open>On small numbers that are not negative they are what one expects.\<close>

lemma sint_small: "0 \<le> x \<Longrightarrow> x < 2 ^ 31 \<Longrightarrow> sint (w32 x) = x"
  by (simp add: signed_take_bit_int_eq_self sint_sbintrunc')

lemma jb_or_small: "0 \<le> x \<Longrightarrow> x < 2 ^ 31 \<Longrightarrow> 0 \<le> y \<Longrightarrow> y < 2 ^ 31 \<Longrightarrow> jb_or x y = x OR y"
  using OR_upper [of x 31 y] unfolding jb_or_def word_wi_log_defs by (simp add: sint_small)

lemma jb_xor_small: "0 \<le> x \<Longrightarrow> x < 2 ^ 31 \<Longrightarrow> 0 \<le> y \<Longrightarrow> y < 2 ^ 31 \<Longrightarrow> jb_xor x y = x XOR y"
  using XOR_upper [of x 31 y] unfolding jb_xor_def word_wi_log_defs by (simp add: sint_small)

lemma jb_and_mask:
  assumes "m < 32"
  shows "jb_and x (2 ^ m - 1) = x mod 2 ^ m"
proof -
  have e: "x AND (2 ^ m - 1) = x mod 2 ^ m" by (simp flip: mask_eq_exp_minus_1 take_bit_eq_mask take_bit_eq_mod)
  have "x mod 2 ^ m < 2 ^ 31"
  proof -
    have "x mod 2 ^ m < 2 ^ m" by simp
    also have "(2 :: int) ^ m \<le> 2 ^ 31" using assms by (intro power_increasing) simp_all
    finally show ?thesis .
  qed
  then show ?thesis unfolding jb_and_def word_wi_log_defs e by (simp add: sint_small)
qed

lemma jb_shr_val: "jb_shr x n = x mod 2 ^ 32 div 2 ^ n"
  unfolding jb_shr_def unsigned_drop_bit_eq by (simp add: uint_word_of_int take_bit_eq_mod drop_bit_eq_div)

lemma jb_sar_small: "0 \<le> x \<Longrightarrow> x < 2 ^ 31 \<Longrightarrow> jb_sar x n = x div 2 ^ n"
  by (simp add: jb_sar_def sint_signed_drop_bit_eq sint_small drop_bit_eq_div)

lemma jb_shl_small: "0 \<le> x \<Longrightarrow> x * 2 ^ n < 2 ^ 31 \<Longrightarrow> jb_shl x n = x * 2 ^ n"
  using sint_small [of "x * 2 ^ n"] by (simp add: jb_shl_def push_bit_eq_mult)

text \<open>The low bits of a shifted number are those of the number, whatever was lost above.\<close>

lemma jb_sar_low:
  assumes "n + m \<le> 32"
  shows "jb_sar x n mod 2 ^ m = x div 2 ^ n mod 2 ^ m"
proof -
  have "take_bit m (drop_bit n (signed_take_bit 31 x)) = take_bit m (drop_bit n x)"
  proof (rule bit_eqI)
    fix k
    have "k < m \<Longrightarrow> min 31 (n + k) = n + k" using assms by simp
    then show "bit (take_bit m (drop_bit n (signed_take_bit 31 x))) k = bit (take_bit m (drop_bit n x)) k"
      by (auto simp: bit_simps)
  qed
  then show ?thesis
    by (simp add: jb_sar_def sint_signed_drop_bit_eq sint_sbintrunc' take_bit_eq_mod drop_bit_eq_div)
qed

end
