(* ===== verification/BlRealmHost.thy ===== *)
theory BlRealmHost
  imports JsBits BlRealmProps
begin

text \<open>
  \<^verbatim>\<open>browser-lite/proxy/realm-host.js\<close>: the page's own naming of the realm of a resource, with its own
  SHA-256 and HMAC on the numbers of JavaScript, so that it need not ask the server. Numbers are \<open>int\<close>, bytes are
  \<open>nat\<close>, and a text is a list of code points. That part of \<^verbatim>\<open>client-bridge.js\<close> that asks for the name is here too.
\<close>

section \<open>SHA-256\<close>

definition K256 :: "int list" where
  "K256 =
     [0x428a2f98, 0x71374491, 0xb5c0fbcf, 0xe9b5dba5, 0x3956c25b, 0x59f111f1, 0x923f82a4, 0xab1c5ed5] @
     [0xd807aa98, 0x12835b01, 0x243185be, 0x550c7dc3, 0x72be5d74, 0x80deb1fe, 0x9bdc06a7, 0xc19bf174] @
     [0xe49b69c1, 0xefbe4786, 0x0fc19dc6, 0x240ca1cc, 0x2de92c6f, 0x4a7484aa, 0x5cb0a9dc, 0x76f988da] @
     [0x983e5152, 0xa831c66d, 0xb00327c8, 0xbf597fc7, 0xc6e00bf3, 0xd5a79147, 0x06ca6351, 0x14292967] @
     [0x27b70a85, 0x2e1b2138, 0x4d2c6dfc, 0x53380d13, 0x650a7354, 0x766a0abb, 0x81c2c92e, 0x92722c85] @
     [0xa2bfe8a1, 0xa81a664b, 0xc24b8b70, 0xc76c51a3, 0xd192e819, 0xd6990624, 0xf40e3585, 0x106aa070] @
     [0x19a4c116, 0x1e376c08, 0x2748774c, 0x34b0bcb5, 0x391c0cb3, 0x4ed8aa4a, 0x5b9cca4f, 0x682e6ff3] @
     [0x748f82ee, 0x78a5636f, 0x84c87814, 0x8cc70208, 0x90befffa, 0xa4506ceb, 0xbef9a3f7, 0xc67178f2]"

definition H256 :: "int list" where
  "H256 = [0x6a09e667, 0xbb67ae85, 0x3c6ef372, 0xa54ff53a, 0x510e527f, 0x9b05688c, 0x1f83d9ab, 0x5be0cd19]"

definition rotr :: "int \<Rightarrow> nat \<Rightarrow> int" where
  "rotr x n = jb_or (jb_shr x n) (jb_shl x (32 - n))"

text \<open>The padded data: a one bit, zeros, and the length in bits at the end.\<close>

definition padded_size :: "nat \<Rightarrow> nat" where
  "padded_size n = nat (jb_shl (jb_sar (int n + 9 + 63) 6) 6)"

definition padded :: "nat list \<Rightarrow> nat list" where
  "padded data =
     (let n = length data; size = padded_size n; bits = int n * 8;
          block = (data @ replicate (size - n) 0)[n := 128]
      in block[size - 4 := u8 (jb_shr bits 24), size - 3 := u8 (jb_shr bits 16), size - 2 := u8 (jb_shr bits 8), size - 1 := u8 bits,
               size - 5 := u8 (int n div 0x20000000)])"

definition word_at :: "nat list \<Rightarrow> nat \<Rightarrow> int" where
  "word_at block j =
     u32 (jb_or (jb_or (jb_or (jb_shl (int (block ! j)) 24) (jb_shl (int (block ! (j + 1))) 16)) (jb_shl (int (block ! (j + 2))) 8))
           (int (block ! (j + 3))))"

definition w_next :: "int list \<Rightarrow> nat \<Rightarrow> int" where
  "w_next w i =
     (let a = w ! (i - 15); b = w ! (i - 2)
      in jb_shr (w ! (i - 16) + jb_xor (jb_xor (rotr a 7) (rotr a 18)) (jb_shr a 3) + w ! (i - 7) +
                 jb_xor (jb_xor (rotr b 17) (rotr b 19)) (jb_shr b 10)) 0)"

definition schedule :: "nat list \<Rightarrow> nat \<Rightarrow> int list" where
  "schedule block offset =
     foldl (\<lambda>w i. w @ [w_next w i]) (map (\<lambda>i. word_at block (offset + i * 4)) [0..<16]) [16..<64]"

type_synonym regs = "int \<times> int \<times> int \<times> int \<times> int \<times> int \<times> int \<times> int"

definition sha_round :: "int list \<Rightarrow> regs \<Rightarrow> nat \<Rightarrow> regs" where
  "sha_round w r i =
     (case r of (a, b, c, d, e, f, g, k) \<Rightarrow>
        let t1 = jb_shr (k + jb_xor (jb_xor (rotr e 6) (rotr e 11)) (rotr e 25) + jb_xor (jb_and e f) (jb_and (jb_not e) g) + K256 ! i + w ! i) 0;
            t2 = jb_shr (jb_xor (jb_xor (rotr a 2) (rotr a 13)) (rotr a 22) + jb_xor (jb_xor (jb_and a b) (jb_and a c)) (jb_and b c)) 0
        in (jb_shr (t1 + t2) 0, a, b, c, jb_shr (d + t1) 0, e, f, g))"

definition regs_of :: "int list \<Rightarrow> regs" where
  "regs_of h = (h ! 0, h ! 1, h ! 2, h ! 3, h ! 4, h ! 5, h ! 6, h ! 7)"

definition add_regs :: "int list \<Rightarrow> regs \<Rightarrow> int list" where
  "add_regs h r =
     (case r of (a, b, c, d, e, f, g, k) \<Rightarrow>
        [u32 (h ! 0 + a), u32 (h ! 1 + b), u32 (h ! 2 + c), u32 (h ! 3 + d), u32 (h ! 4 + e), u32 (h ! 5 + f), u32 (h ! 6 + g), u32 (h ! 7 + k)])"

definition sha_block :: "nat list \<Rightarrow> int list \<Rightarrow> nat \<Rightarrow> int list" where
  "sha_block block h offset = add_regs h (foldl (sha_round (schedule block offset)) (regs_of h) [0..<64])"

definition word_bytes :: "int \<Rightarrow> nat list" where
  "word_bytes h = [u8 (jb_shr h 24), u8 (jb_shr h 16), u8 (jb_shr h 8), u8 h]"

definition sha256 :: "nat list \<Rightarrow> nat list" where
  "sha256 data =
     (let block = padded data
      in concat (map word_bytes (foldl (sha_block block) H256 (map (\<lambda>i. i * 64) [0..<length block div 64]))))"

section \<open>Texts and bytes\<close>

definition utf8_char :: "int \<Rightarrow> int list" where
  "utf8_char c =
     (if c < 0x80 then [c]
      else if c < 0x800 then [jb_or 0xc0 (jb_sar c 6), jb_or 0x80 (jb_and c 63)]
      else if c < 0x10000 then [jb_or 0xe0 (jb_sar c 12), jb_or 0x80 (jb_and (jb_sar c 6) 63), jb_or 0x80 (jb_and c 63)]
      else [jb_or 0xf0 (jb_sar c 18), jb_or 0x80 (jb_and (jb_sar c 12) 63), jb_or 0x80 (jb_and (jb_sar c 6) 63), jb_or 0x80 (jb_and c 63)])"

definition utf8 :: "nat list \<Rightarrow> nat list" where
  "utf8 text = map u8 (concat (map (\<lambda>c. utf8_char (int c)) text))"

definition alphabet :: string where
  "alphabet = ''ABCDEFGHIJKLMNOPQRSTUVWXYZabcdefghijklmnopqrstuvwxyz0123456789-_''"

fun index_of :: "char \<Rightarrow> string \<Rightarrow> int option" where
  "index_of c [] = None"
| "index_of c (x # xs) = (if x = c then Some 0 else map_option ((+) 1) (index_of c xs))"

text \<open>The key; None where the code throws. Buffer and number of bits are those left over.\<close>

fun base64_loop :: "int \<Rightarrow> nat \<Rightarrow> string \<Rightarrow> int list option" where
  "base64_loop buffer bits [] = Some []"
| "base64_loop buffer bits (ch # chs) =
     (case index_of ch alphabet of
        None \<Rightarrow> None
      | Some v \<Rightarrow>
          (let b = jb_or (jb_shl buffer 6) v; n = bits + 6
           in if n \<ge> 8 then map_option ((#) (jb_and (jb_sar b (n - 8)) 255)) (base64_loop b (n - 8) chs) else base64_loop b n chs))"

definition base64url :: "string \<Rightarrow> nat list option" where
  "base64url text = map_option (map u8) (base64_loop 0 0 text)"

section \<open>The name\<close>

definition hmac :: "nat list \<Rightarrow> nat list \<Rightarrow> nat list" where
  "hmac key message =
     (let k = (if length key > 64 then sha256 key else key);
          byte = (\<lambda>i. if i < length k then int (k ! i) else 0);
          inner = map (\<lambda>i. u8 (jb_xor (byte i) 0x36)) [0..<64] @ message;
          outer = map (\<lambda>i. u8 (jb_xor (byte i) 0x5c)) [0..<64]
      in sha256 (outer @ sha256 inner))"

definition realmHost :: "string \<Rightarrow> string \<Rightarrow> string \<times> string \<Rightarrow> string option" where
  "realmHost key org affixes =
     (case base64url key of
        None \<Rightarrow> None
      | Some k \<Rightarrow> Some (fst affixes @ take 32 (hex (hmac k (utf8 (map of_char org)))) @ snd affixes))"

text \<open>\<open>realm-policy.cjs\<close>: what a page is told of the hosts.\<close>

definition hostAffixes :: "realm_cfg \<Rightarrow> string \<times> string" where
  "hostAffixes cfg =
     (''https://bl-u'' @ dec (rc_uid cfg) @ ''-'', ''.'' @ rc_domain cfg @ (if rc_port cfg = [] then [] else '':'' @ rc_port cfg))"

section \<open>The page asks\<close>

text \<open>\<open>client-bridge.js\<close>: what the page's script was given, and the origins it has named so far with their physical
  origin and window. \<open>ask\<close> is the server's answer to a question, None where it failed. Outside realms the
  answer has no window. The second result are the origins whose message target is looked up meanwhile.\<close>

record page_realm =
  pr_realmMode :: bool
  pr_key :: "string option"
  pr_self :: "(string \<times> string) option"
  pr_documentOrigin :: string
  pr_affixes :: "string \<times> string"

type_synonym named = "string \<times> string option"

definition mapOrigin :: "(string \<Rightarrow> bool \<Rightarrow> named option) \<Rightarrow> page_realm \<Rightarrow> string \<Rightarrow> bool \<Rightarrow> (string \<rightharpoonup> named) \<Rightarrow>
    (named option \<times> string list) \<times> (string \<rightharpoonup> named)" where
  "mapOrigin ask G org iframe origins =
     (let key = (if iframe then ''iframe:'' @ org else org);
          keep = (\<lambda>n fetched. case n of None \<Rightarrow> ((None, fetched), origins) | Some v \<Rightarrow> ((Some v, fetched), origins(key \<mapsto> v)))
      in case origins key of
           Some v \<Rightarrow> ((Some v, []), origins)
         | None \<Rightarrow>
             (case (pr_realmMode G, pr_key G, pr_self G) of
                (True, Some k, Some (self, w)) \<Rightarrow>
                  if k = [] then keep (ask org iframe) []
                  else let fetched = (if iframe \<and> org \<noteq> pr_documentOrigin G then [org] else [])
                       in if iframe \<or> org = pr_documentOrigin G then keep (Some (self, Some w)) fetched
                          else keep (map_option (\<lambda>p. (p, Some w)) (realmHost k org (pr_affixes G))) fetched
              | _ \<Rightarrow> keep (map_option (\<lambda>(p, w). (p, if pr_realmMode G then w else None)) (ask org iframe)) []))"

end
