(* ===== verification/BlRealmHostProps.thy ===== *)
theory BlRealmHostProps
  imports BlRealmHost
begin

text \<open>
  The page's own SHA-256 is the standard's (FIPS 180-4, on 32-bit words), its HMAC that of RFC 2104, its key and
  text encodings those of RFC 4648 and RFC 3629; so the page names the host that the server would have named.
\<close>

unbundle bit_operations_syntax

section \<open>The standard\<close>

type_synonym word32 = "32 word"

definition Ch :: "word32 \<Rightarrow> word32 \<Rightarrow> word32 \<Rightarrow> word32" where
  "Ch x y z = (x AND y) XOR (NOT x AND z)"

definition Maj :: "word32 \<Rightarrow> word32 \<Rightarrow> word32 \<Rightarrow> word32" where
  "Maj x y z = (x AND y) XOR (x AND z) XOR (y AND z)"

definition big0 :: "word32 \<Rightarrow> word32" where "big0 x = word_rotr 2 x XOR word_rotr 13 x XOR word_rotr 22 x"
definition big1 :: "word32 \<Rightarrow> word32" where "big1 x = word_rotr 6 x XOR word_rotr 11 x XOR word_rotr 25 x"
definition small0 :: "word32 \<Rightarrow> word32" where "small0 x = word_rotr 7 x XOR word_rotr 18 x XOR drop_bit 3 x"
definition small1 :: "word32 \<Rightarrow> word32" where "small1 x = word_rotr 17 x XOR word_rotr 19 x XOR drop_bit 10 x"

text \<open>The constants: fractional parts of the cube roots of the first 64 primes and of the square roots of the
  first eight, 32 bits of each.\<close>

definition cube_part :: "int \<Rightarrow> int \<Rightarrow> bool" where
  "cube_part k p \<longleftrightarrow> list_ex (\<lambda>a. let n = a * 2 ^ 32 + k in n * n * n \<le> p * 2 ^ 96 \<and> p * 2 ^ 96 < (n + 1) * (n + 1) * (n + 1)) [1, 2, 3, 4, 5, 6]"

definition square_part :: "int \<Rightarrow> int \<Rightarrow> bool" where
  "square_part k p \<longleftrightarrow> list_ex (\<lambda>a. let n = a * 2 ^ 32 + k in n * n \<le> p * 2 ^ 64 \<and> p * 2 ^ 64 < (n + 1) * (n + 1)) [1, 2, 3, 4]"

definition first_primes :: "int list" where
  "first_primes =
     [2, 3, 5, 7, 11, 13, 17, 19, 23, 29, 31, 37, 41, 43, 47, 53, 59, 61, 67, 71, 73, 79, 83, 89, 97, 101, 103, 107, 109, 113, 127, 131,
      137, 139, 149, 151, 157, 163, 167, 173, 179, 181, 191, 193, 197, 199, 211, 223, 227, 229, 233, 239, 241, 251, 257, 263, 269, 271,
      277, 281, 283, 293, 307, 311]"

lemma K256_standard: "list_all2 cube_part K256 first_primes"
  by code_simp

lemma H256_standard: "list_all2 square_part H256 (take 8 first_primes)"
  by code_simp

text \<open>Padding: a one bit, as many zeros as it takes, and the length in bits as eight bytes.\<close>

definition be64 :: "nat \<Rightarrow> nat list" where
  "be64 n = map (\<lambda>i. n div 256 ^ (7 - i) mod 256) [0..<8]"

definition pad :: "nat list \<Rightarrow> nat list" where
  "pad m = m @ 128 # replicate (nat ((55 - int (length m)) mod 64)) 0 @ be64 (8 * length m)"

definition be_word :: "nat list \<Rightarrow> word32" where
  "be_word bs = of_nat (foldl (\<lambda>a b. a * 256 + b) 0 bs)"

text \<open>The schedule of a block of sixteen words, and the rounds.\<close>

function sched :: "word32 list \<Rightarrow> nat \<Rightarrow> word32" where
  "sched m t =
     (if t < 16 then m ! t else small1 (sched m (t - 2)) + sched m (t - 7) + small0 (sched m (t - 15)) + sched m (t - 16))"
  by auto
termination by (relation "measure snd") auto

declare sched.simps [simp del]

type_synonym wregs = "word32 \<times> word32 \<times> word32 \<times> word32 \<times> word32 \<times> word32 \<times> word32 \<times> word32"

definition std_round :: "word32 list \<Rightarrow> wregs \<Rightarrow> nat \<Rightarrow> wregs" where
  "std_round m r t =
     (case r of (a, b, c, d, e, f, g, h) \<Rightarrow>
        let T1 = h + big1 e + Ch e f g + of_int (K256 ! t) + sched m t; T2 = big0 a + Maj a b c
        in (T1 + T2, a, b, c, d + T1, e, f, g))"

definition std_block :: "word32 list \<Rightarrow> word32 list \<Rightarrow> word32 list" where
  "std_block H m =
     (case foldl (std_round m) (H ! 0, H ! 1, H ! 2, H ! 3, H ! 4, H ! 5, H ! 6, H ! 7) [0..<64] of
        (a, b, c, d, e, f, g, h) \<Rightarrow> [H ! 0 + a, H ! 1 + b, H ! 2 + c, H ! 3 + d, H ! 4 + e, H ! 5 + f, H ! 6 + g, H ! 7 + h])"

definition block_words :: "nat list \<Rightarrow> nat \<Rightarrow> word32 list" where
  "block_words p i = map (\<lambda>j. be_word (take 4 (drop (64 * i + 4 * j) p))) [0..<16]"

definition be_bytes :: "word32 \<Rightarrow> nat list" where
  "be_bytes w = map (\<lambda>i. unat w div 256 ^ (3 - i) mod 256) [0..<4]"

definition SHA256 :: "nat list \<Rightarrow> nat list" where
  "SHA256 m =
     (let p = pad m
      in concat (map be_bytes (foldl std_block (map of_int H256) (map (block_words p) [0..<length p div 64]))))"

definition HMAC256 :: "nat list \<Rightarrow> nat list \<Rightarrow> nat list" where
  "HMAC256 key message =
     (let k = (if length key > 64 then SHA256 key else key); k0 = k @ replicate (64 - length k) 0
      in SHA256 (map (\<lambda>b. b XOR 0x5c) k0 @ SHA256 (map (\<lambda>b. b XOR 0x36) k0 @ message)))"

definition utf8_standard :: "nat \<Rightarrow> nat list" where
  "utf8_standard c =
     (if c < 128 then [c]
      else if c < 2048 then [192 + c div 64, 128 + c mod 64]
      else if c < 65536 then [224 + c div 4096, 128 + c div 64 mod 64, 128 + c mod 64]
      else [240 + c div 262144, 128 + c div 4096 mod 64, 128 + c div 64 mod 64, 128 + c mod 64])"

fun base64_standard :: "nat list \<Rightarrow> string" where
  "base64_standard [] = []"
| "base64_standard [a] = [alphabet ! (a div 4), alphabet ! (a mod 4 * 16)]"
| "base64_standard [a, b] = [alphabet ! (a div 4), alphabet ! (a mod 4 * 16 + b div 16), alphabet ! (b mod 16 * 4)]"
| "base64_standard (a # b # c # bs) =
     [alphabet ! (a div 4), alphabet ! (a mod 4 * 16 + b div 16), alphabet ! (b mod 16 * 4 + c div 64), alphabet ! (c mod 64)] @ base64_standard bs"

section \<open>One block\<close>

lemma rotr_word [jb_bits]: "0 < n \<Longrightarrow> n < 32 \<Longrightarrow> w32 (rotr x n) = word_rotr n (w32 x)"
  by (simp add: rotr_def jb_bits rotr_or)

abbreviation wregs :: "regs \<Rightarrow> wregs" where
  "wregs r \<equiv> (case r of (a, b, c, d, e, f, g, k) \<Rightarrow> (w32 a, w32 b, w32 c, w32 d, w32 e, w32 f, w32 g, w32 k))"

lemma w_next_word: "w32 (w_next w i) = small1 (w32 (w ! (i - 2))) + w32 (w ! (i - 7)) + small0 (w32 (w ! (i - 15))) + w32 (w ! (i - 16))"
  by (simp add: w_next_def Let_def jb_bits small0_def small1_def xor.assoc add.commute add.left_commute)

text \<open>The words the code has made so far are those of the schedule.\<close>

lemma schedule_word:
  assumes "length m = 16" "map w32 w0 = m" "n \<le> 48"
  shows "length (foldl (\<lambda>w i. w @ [w_next w i]) w0 [16..<16 + n]) = 16 + n \<and>
    (\<forall>t < 16 + n. w32 (foldl (\<lambda>w i. w @ [w_next w i]) w0 [16..<16 + n] ! t) = sched m t)"
  using assms(3)
proof (induction n)
  case 0
  have "length w0 = 16" using assms(1,2) by auto
  moreover have "w32 (w0 ! t) = sched m t" if "t < 16" for t
    using that assms(2) \<open>length w0 = 16\<close> by (subst sched.simps) auto
  ultimately show ?case by simp
next
  case (Suc n)
  let ?w = "foldl (\<lambda>w i. w @ [w_next w i]) w0 [16..<16 + n]"
  have IH: "length ?w = 16 + n" "\<And>t. t < 16 + n \<Longrightarrow> w32 (?w ! t) = sched m t" using Suc by simp_all
  have "[16..<16 + Suc n] = [16..<16 + n] @ [16 + n]" by (simp only: add_Suc_right upt_Suc_append le_add1)
  then have e: "foldl (\<lambda>w i. w @ [w_next w i]) w0 [16..<16 + Suc n] = ?w @ [w_next ?w (16 + n)]"
    by (simp only: foldl_append foldl.simps)
  have "w32 (w_next ?w (16 + n)) = sched m (16 + n)"
    unfolding w_next_word by (subst sched.simps) (simp add: IH(2))
  moreover have "t < 16 + Suc n \<Longrightarrow> t < 16 + n \<or> t = 16 + n" for t by linarith
  ultimately show ?case unfolding e using IH by (auto simp: nth_append)
qed

lemma sha_round_word:
  assumes "w32 (w ! t) = sched m t"
  shows "wregs (sha_round w r t) = std_round m (wregs r) t"
proof -
  obtain a b c d e f g k where r: "r = (a, b, c, d, e, f, g, k)" by (cases r) auto
  show ?thesis unfolding r sha_round_def std_round_def Let_def prod.case
    by (simp add: jb_bits assms big0_def big1_def Ch_def Maj_def xor.assoc add.commute add.left_commute)
qed

lemma sha_rounds_word:
  assumes "\<And>t. t < n \<Longrightarrow> w32 (w ! t) = sched m t"
  shows "wregs (foldl (sha_round w) r [0..<n]) = foldl (std_round m) (wregs r) [0..<n]"
  using assms by (induction n) (simp_all add: sha_round_word)

lemma push_word: "push_bit n (w32 x) = w32 (x * 2 ^ n)"
  by (simp add: push_bit_eq_mult)

lemma or_bytes:
  assumes "a < 256" "b < 256" "c < 256" "d < (256 :: nat)"
  shows "w32 (jb_or (jb_or (jb_or (jb_shl (int a) 24) (jb_shl (int b) 16)) (jb_shl (int c) 8)) (int d)) = be_word [a, b, c, d]"
proof -
  have "w32 (jb_or (jb_or (jb_or (jb_shl (int a) 24) (jb_shl (int b) 16)) (jb_shl (int c) 8)) (int d))
      = w32 (((int a * 2 ^ 24 OR int b * 2 ^ 16) OR int c * 2 ^ 8) OR int d)"
    unfolding jb_bits push_word word_wi_log_defs by (rule refl)
  also have "((int a * 2 ^ 24 OR int b * 2 ^ 16) OR int c * 2 ^ 8) OR int d = ((int a * 256 + int b) * 256 + int c) * 256 + int d"
  proof -
    have "int a * 2 ^ 24 OR int b * 2 ^ 16 = (int a * 256 + int b) * 2 ^ 16"
      using or_disjoint [of "int b * 2 ^ 16" 24 "int a"] assms by simp
    moreover have "(int a * 256 + int b) * 2 ^ 16 OR int c * 2 ^ 8 = ((int a * 256 + int b) * 256 + int c) * 2 ^ 8"
      using or_disjoint [of "int c * 2 ^ 8" 16 "int a * 256 + int b"] assms by simp
    moreover have "((int a * 256 + int b) * 256 + int c) * 2 ^ 8 OR int d = ((int a * 256 + int b) * 256 + int c) * 256 + int d"
      using or_disjoint [of "int d" 8 "(int a * 256 + int b) * 256 + int c"] assms by simp
    ultimately show ?thesis by simp
  qed
  also have "w32 (((int a * 256 + int b) * 256 + int c) * 256 + int d) = be_word [a, b, c, d]"
    by (simp add: be_word_def)
  finally show ?thesis .
qed

lemma word_at_word:
  assumes "list_all (\<lambda>b. b < 256) p" "j + 3 < length p"
  shows "w32 (word_at p j) = be_word (take 4 (drop j p))"
proof -
  have "take 4 (drop j p) = [p ! j, p ! (j + 1), p ! (j + 2), p ! (j + 3)]"
    using assms(2) by (simp add: Cons_nth_drop_Suc [symmetric] take_Suc_conv_app_nth numeral_eq_Suc)
  moreover have "p ! j < 256" "p ! (j + 1) < 256" "p ! (j + 2) < 256" "p ! (j + 3) < 256"
    using assms by (simp_all add: list_all_length)
  ultimately show ?thesis using or_bytes by (simp add: word_at_def u32_word)
qed

lemma schedule_block:
  assumes "list_all (\<lambda>b. b < 256) p" "64 * i + 63 < length p"
  shows "\<forall>t < 64. w32 (schedule p (i * 64) ! t) = sched (block_words p i) t"
proof -
  let ?w0 = "map (\<lambda>j. word_at p (i * 64 + j * 4)) [0..<16]"
  have "map w32 ?w0 = block_words p i"
    unfolding block_words_def map_map
  proof (rule map_cong [OF refl])
    fix j assume "j \<in> set [0..<16]"
    then have "i * 64 + j * 4 + 3 < length p" using assms(2) by simp
    from word_at_word [OF assms(1) this] show "(w32 \<circ> (\<lambda>j. word_at p (i * 64 + j * 4))) j = be_word (take 4 (drop (64 * i + 4 * j) p))"
      by (simp add: mult.commute)
  qed
  moreover have "length (block_words p i) = 16" by (simp only: block_words_def length_map length_upt minus_nat.diff_0)
  moreover have q: "16 + 48 = (64 :: nat)" by simp
  ultimately have "\<forall>t < 64. w32 (foldl (\<lambda>w i. w @ [w_next w i]) ?w0 [16..<64] ! t) = sched (block_words p i) t"
    using schedule_word [of "block_words p i" ?w0 48, unfolded q] by blast
  then show ?thesis unfolding schedule_def .
qed

text \<open>The state of the hash: eight unsigned numbers that are the standard's words.\<close>

definition state_is :: "int list \<Rightarrow> word32 list \<Rightarrow> bool" where
  "state_is h H \<longleftrightarrow> length H = 8 \<and> h = map uint H"

lemma sha_block_word:
  assumes "state_is h H" "list_all (\<lambda>b. b < 256) p" "64 * i + 63 < length p"
  shows "state_is (sha_block p h (i * 64)) (std_block H (block_words p i))"
proof -
  let ?r = "foldl (sha_round (schedule p (i * 64))) (regs_of h) [0..<64]"
  have h: "h ! j = uint (H ! j)" "j < length H" if "j < 8" for j using assms(1) that by (auto simp: state_is_def)
  have "wregs (regs_of h) = (H ! 0, H ! 1, H ! 2, H ! 3, H ! 4, H ! 5, H ! 6, H ! 7)" by (simp add: regs_of_def h)
  moreover have "wregs ?r = foldl (std_round (block_words p i)) (wregs (regs_of h)) [0..<64]"
    using sha_rounds_word [of 64 "schedule p (i * 64)" "block_words p i" "regs_of h"] schedule_block [OF assms(2,3)] by simp
  ultimately have r: "wregs ?r = foldl (std_round (block_words p i)) (H ! 0, H ! 1, H ! 2, H ! 3, H ! 4, H ! 5, H ! 6, H ! 7) [0..<64]" by simp
  obtain a b c d e f g k where rr: "?r = (a, b, c, d, e, f, g, k)" by (cases ?r) auto
  show ?thesis unfolding std_block_def r [symmetric] sha_block_def rr add_regs_def prod.case state_is_def
    by (simp add: h u32_uint)
qed

lemma sha_blocks_word:
  assumes "state_is h H" "list_all (\<lambda>b. b < 256) p" "64 * n \<le> length p"
  shows "state_is (foldl (sha_block p) h (map (\<lambda>i. i * 64) [0..<n])) (foldl std_block H (map (block_words p) [0..<n]))"
  using assms(3)
proof (induction n)
  case 0
  then show ?case using assms(1) by simp
next
  case (Suc n)
  then have "state_is (foldl (sha_block p) h (map (\<lambda>i. i * 64) [0..<n])) (foldl std_block H (map (block_words p) [0..<n]))" by simp
  from sha_block_word [OF this assms(2), of n] show ?case using Suc.prems by simp
qed

lemma start_state: "state_is H256 (map of_int H256)"
  by (simp add: state_is_def H256_def uint_word_of_int)

lemma word_bytes_word: "word_bytes (uint w) = be_bytes (w :: word32)"
proof -
  have "uint w < 2 ^ 32" using uint_lt2p [of w] by simp
  then have "uint w mod 2 ^ 32 = uint w" by simp
  then have s: "jb_shr (uint w) n = uint w div 2 ^ n" for n by (simp only: jb_shr_val)
  have u: "u8 (uint w div 2 ^ n) = unat w div 2 ^ n mod 256" for n
  proof -
    have "uint w div 2 ^ n mod 256 = int (unat w div 2 ^ n mod 256)" unfolding zmod_int zdiv_int uint_nat by simp
    then show ?thesis unfolding u8_def by (simp only: nat_int)
  qed
  have b: "be_bytes w = [unat w div 2 ^ 24 mod 256, unat w div 2 ^ 16 mod 256, unat w div 2 ^ 8 mod 256, unat w mod 256]"
  proof -
    have "[0..<4] = [0, 1, 2, 3 :: nat]" by code_simp
    then show ?thesis by (simp add: be_bytes_def)
  qed
  have u0: "u8 (uint w) = unat w mod 256" using u [of 0] by simp
  show ?thesis unfolding word_bytes_def s u u0 b by (rule refl)
qed

section \<open>The whole hash\<close>

lemma padded_size_val: "n + 72 < 2 ^ 31 \<Longrightarrow> padded_size n = 64 * ((n + 72) div 64)"
proof -
  assume n: "n + 72 < 2 ^ 31"
  have "jb_sar (int n + 9 + 63) 6 = int ((n + 72) div 64)" using n by (simp add: jb_sar_small zdiv_int)
  moreover have "jb_shl (int ((n + 72) div 64)) 6 = int ((n + 72) div 64) * 2 ^ 6" using n by (intro jb_shl_small) simp_all
  ultimately show ?thesis by (simp add: padded_size_def)
qed

lemma zeros_val: "(55 - int n) mod 64 = 63 - int ((n + 72) mod 64)"
proof -
  have "int n = 64 * int ((n + 72) div 64) + int ((n + 72) mod 64) - 72"
    using div_mult_mod_eq [of "n + 72" 64] by linarith
  then have "55 - int n = (63 - int ((n + 72) mod 64)) + 64 * (1 - int ((n + 72) div 64))" by (simp add: right_diff_distrib)
  then have "(55 - int n) mod 64 = (63 - int ((n + 72) mod 64)) mod 64" by (simp only: mod_mult_self2)
  also have "... = 63 - int ((n + 72) mod 64)" by (intro mod_pos_pos_trivial) simp_all
  finally show ?thesis .
qed

lemma zeros_nat: "nat ((55 - int n) mod 64) = 63 - (n + 72) mod 64"
  unfolding zeros_val by simp

lemma be64_length [simp]: "length (be64 n) = 8"
  by (simp add: be64_def)

lemma pad_length: "length (pad m) = 64 * ((length m + 72) div 64)"
proof -
  have r: "(length m + 72) mod 64 < 64" by simp
  have e: "(length m + 72) div 64 * 64 + (length m + 72) mod 64 = length m + 72" by (rule div_mult_mod_eq)
  have "length (pad m) = length m + (1 + ((63 - (length m + 72) mod 64) + 8))" by (simp add: pad_def zeros_nat)
  also have "... = 64 * ((length m + 72) div 64)" using r e by linarith
  finally show ?thesis .
qed

lemma be64_small: "n < 2 ^ 40 \<Longrightarrow> be64 n = [0, 0, 0, n div 2 ^ 32 mod 256, n div 2 ^ 24 mod 256, n div 2 ^ 16 mod 256, n div 2 ^ 8 mod 256, n mod 256]"
proof -
  assume n: "n < 2 ^ 40"
  have "[0..<8] = [0, 1, 2, 3, 4, 5, 6, 7 :: nat]" by code_simp
  then show ?thesis using n by (simp add: be64_def)
qed

text \<open>The code writes the length in bits into the last five bytes, which are enough for it.\<close>

lemma bit_length_bytes:
  assumes "n < 2 ^ 31"
  shows "[u8 (int n div 0x20000000), u8 (jb_shr (int n * 8) 24), u8 (jb_shr (int n * 8) 16), u8 (jb_shr (int n * 8) 8), u8 (int n * 8)]
    = drop 3 (be64 (8 * n))"
proof -
  have u: "u8 (int x) = x mod 256" for x by (simp add: u8_def nat_mod_distrib)
  have s: "u8 (jb_shr (int n * 8) k) = 8 * n div 2 ^ k mod 256" if "k \<le> 24" for k
  proof -
    have "(8 * n) mod 2 ^ 32 div 2 ^ k mod 256 = 8 * n div 2 ^ k mod 256"
    proof -
      have "take_bit 8 (drop_bit k (take_bit 32 (8 * n))) = take_bit 8 (drop_bit k (8 * n))"
        using that by (intro bit_eqI) (auto simp: bit_simps)
      then show ?thesis by (simp add: take_bit_eq_mod drop_bit_eq_div)
    qed
    moreover have "jb_shr (int n * 8) k = int ((8 * n) mod 2 ^ 32 div 2 ^ k)"
      unfolding jb_shr_val by (simp add: zdiv_int zmod_int mult.commute)
    ultimately show ?thesis by (simp only: u)
  qed
  have h: "u8 (int n div 0x20000000) = 8 * n div 2 ^ 32 mod 256"
  proof -
    have "int n div 0x20000000 = int (n div 0x20000000)" by (simp add: zdiv_int)
    moreover have "8 * n div (8 * 0x20000000) = n div 0x20000000" by (rule div_mult_mult1) simp
    then have "8 * n div 2 ^ 32 = n div 0x20000000" by simp
    ultimately show ?thesis by (simp only: u)
  qed
  have l: "u8 (int n * 8) = 8 * n mod 256" using u [of "8 * n"] by (simp add: mult.commute)
  have "8 * n < 2 ^ 40" using assms by simp
  then show ?thesis using s [of 24] s [of 16] s [of 8] unfolding be64_small [OF \<open>8 * n < 2 ^ 40\<close>] h l by simp
qed

lemma update_tail:
  assumes "length block = n + 5"
  shows "block[n + 1 := a, n + 2 := b, n + 3 := c, n + 4 := d, n := e] = take n block @ [e, a, b, c, d]"
proof (rule nth_equalityI)
  fix i assume "i < length (block[n + 1 := a, n + 2 := b, n + 3 := c, n + 4 := d, n := e])"
  then have i: "i < n \<or> i = n \<or> i = n + 1 \<or> i = n + 2 \<or> i = n + 3 \<or> i = n + 4" using assms by simp linarith
  then show "block[n + 1 := a, n + 2 := b, n + 3 := c, n + 4 := d, n := e] ! i = (take n block @ [e, a, b, c, d]) ! i"
    using assms by (auto simp: nth_append nth_list_update)
qed (simp add: assms)

lemma padded_pad:
  assumes "length m + 72 < 2 ^ 31"
  shows "padded m = pad m"
proof -
  let ?n = "length m"
  define z where "z = 63 - (length m + 72) mod 64"
  define size where "size = padded_size ?n"
  define block where "block = (m @ replicate (size - ?n) 0)[?n := 128]"
  have r: "(?n + 72) mod 64 < 64" by simp
  have e: "(?n + 72) div 64 * 64 + (?n + 72) mod 64 = ?n + 72" by (rule div_mult_mod_eq)
  have size: "size = ?n + 1 + z + 3 + 5" using padded_size_val [OF assms] r e unfolding size_def z_def by linarith
  have "size - ?n = Suc (size - ?n - 1)" using size by simp
  then have "replicate (size - ?n) (0 :: nat) = 0 # replicate (size - ?n - 1) 0" by (metis replicate_Suc)
  then have b: "block = m @ 128 # replicate (size - ?n - 1) 0" by (simp add: block_def list_update_append)
  have len: "length block = (?n + 1 + z + 3) + 5" using size by (simp add: b)
  have "size - ?n - 1 = (z + 3) + 5" using size by simp
  then have "block = (m @ 128 # replicate (z + 3) 0) @ replicate 5 0" unfolding b by (simp only: replicate_add [of "z + 3" 5] append_assoc append_Cons)
  moreover have "length (m @ 128 # replicate (z + 3) 0) = ?n + 1 + z + 3" by simp
  ultimately have "take (?n + 1 + z + 3) block = m @ 128 # replicate (z + 3) 0" by (metis append_eq_conv_conj)
  moreover have "replicate 3 (0 :: nat) = [0, 0, 0]" by code_simp
  ultimately have t: "take (?n + 1 + z + 3) block = m @ 128 # replicate z 0 @ [0, 0, 0]" by (simp only: replicate_add)
  have n31: "?n < 2 ^ 31" "8 * ?n < 2 ^ 40" using assms by simp_all
  have bits: "[u8 (int ?n div 0x20000000), u8 (jb_shr (int ?n * 8) 24), u8 (jb_shr (int ?n * 8) 16), u8 (jb_shr (int ?n * 8) 8), u8 (int ?n * 8)]
    = drop 3 (be64 (8 * ?n))" by (rule bit_length_bytes [OF n31(1)])
  have idx: "size - 4 = (?n + 1 + z + 3) + 1" "size - 3 = (?n + 1 + z + 3) + 2" "size - 2 = (?n + 1 + z + 3) + 3"
      "size - 1 = (?n + 1 + z + 3) + 4" "size - 5 = ?n + 1 + z + 3"
    using size by linarith+
  have "padded m = take (?n + 1 + z + 3) block @ drop 3 (be64 (8 * ?n))"
    unfolding padded_def Let_def size_def [symmetric] block_def [symmetric] idx update_tail [OF len] bits ..
  also have "... = pad m"
    unfolding t pad_def zeros_nat z_def [symmetric] using be64_small [OF n31(2)] by simp
  finally show ?thesis .
qed

lemma pad_bytes: "list_all (\<lambda>b. b < 256) m \<Longrightarrow> list_all (\<lambda>b. b < 256) (pad m)"
  by (auto simp: pad_def be64_def list_all_iff)

lemma sha256_standard:
  assumes "list_all (\<lambda>b. b < 256) m" "length m + 72 < 2 ^ 31"
  shows "sha256 m = SHA256 m"
proof -
  have "64 * (length (pad m) div 64) \<le> length (pad m)" by simp
  from sha_blocks_word [OF start_state pad_bytes [OF assms(1)] this]
  have "foldl (sha_block (pad m)) H256 (map (\<lambda>i. i * 64) [0..<length (pad m) div 64]) =
    map uint (foldl std_block (map of_int H256) (map (block_words (pad m)) [0..<length (pad m) div 64]))"
    by (simp add: state_is_def)
  then show ?thesis
    unfolding sha256_def SHA256_def Let_def padded_pad [OF assms(2)] by (simp add: word_bytes_word o_def)
qed

lemma SHA256_bytes: "list_all (\<lambda>b. b < 256) (SHA256 m)"
  by (auto simp: SHA256_def Let_def be_bytes_def list_all_iff)

lemma std_block_length: "length H = 8 \<Longrightarrow> length (foldl std_block H ms) = 8"
  by (induction ms arbitrary: H) (simp_all add: std_block_def split: prod.split)

lemma SHA256_length: "length (SHA256 m) = 32"
proof -
  have "length (foldl std_block (map of_int H256) ms) = 8" for ms by (rule std_block_length) (simp add: H256_def)
  moreover have "length (concat (map be_bytes ws)) = 4 * length ws" for ws by (induction ws) (simp_all add: be_bytes_def)
  ultimately show ?thesis by (simp only: SHA256_def Let_def)
qed

section \<open>HMAC\<close>

lemma xor_byte: "b < 256 \<Longrightarrow> c < 256 \<Longrightarrow> u8 (jb_xor (int b) (int c)) = b XOR c"
proof -
  assume bc: "b < 256" "c < (256 :: nat)"
  have "jb_xor (int b) (int c) = int b XOR int c" using bc by (intro jb_xor_small) simp_all
  also have "... = int (b XOR c)" by (simp add: of_nat_xor_eq)
  finally have e: "jb_xor (int b) (int c) = int (b XOR c)" .
  have "int b XOR int c < 2 ^ 8" using bc by (intro XOR_upper) simp_all
  then have "int (b XOR c) < int 256" unfolding of_nat_xor_eq by simp
  then have "b XOR c < 256" by (simp only: of_nat_less_iff)
  then show ?thesis unfolding e by (simp add: u8_def)
qed

lemma padded_key:
  assumes "length k \<le> 64" "list_all (\<lambda>b. b < 256) k" "c < 256"
  shows "map (\<lambda>i. u8 (jb_xor (if i < length k then int (k ! i) else 0) (int c))) [0..<64] = map (\<lambda>b. b XOR c) (k @ replicate (64 - length k) 0)"
proof (rule nth_equalityI)
  show "length (map (\<lambda>i. u8 (jb_xor (if i < length k then int (k ! i) else 0) (int c))) [0..<64]) = length (map (\<lambda>b. b XOR c) (k @ replicate (64 - length k) 0))"
    using assms(1) by simp
  fix i assume "i < length (map (\<lambda>i. u8 (jb_xor (if i < length k then int (k ! i) else 0) (int c))) [0..<64])"
  then have i: "i < 64" by simp
  have "u8 (jb_xor 0 (int c)) = 0 XOR c" using xor_byte [of 0 c] assms(3) by simp
  moreover have "u8 (jb_xor (int (k ! i)) (int c)) = k ! i XOR c" if "i < length k"
    using xor_byte [of "k ! i" c] assms(2,3) that by (simp add: list_all_length)
  ultimately show "map (\<lambda>i. u8 (jb_xor (if i < length k then int (k ! i) else 0) (int c))) [0..<64] ! i = map (\<lambda>b. b XOR c) (k @ replicate (64 - length k) 0) ! i"
    using i by (simp add: nth_append del: upt_rec_numeral)
qed

lemma xor_bytes: "c < (256 :: nat) \<Longrightarrow> list_all (\<lambda>b. b < 256) k \<Longrightarrow> list_all (\<lambda>b. b < 256) (map (\<lambda>b. b XOR c) k)"
proof -
  assume c: "c < (256 :: nat)" and k: "list_all (\<lambda>b. b < 256) k"
  have "b XOR c < 256" if "b \<in> set k" for b
  proof -
    have "b < 256" using k that by (simp add: list_all_iff)
    from xor_byte [OF this c, symmetric] show ?thesis by (simp only: u8_less)
  qed
  then show ?thesis unfolding list_all_iff by simp
qed

lemma hmac_standard:
  assumes "list_all (\<lambda>b. b < 256) key" "list_all (\<lambda>b. b < 256) message" "length key < 2 ^ 30" "length message < 2 ^ 30"
  shows "hmac key message = HMAC256 key message"
proof -
  define k where "k = (if length key > 64 then SHA256 key else key)"
  have k: "length k \<le> 64" "list_all (\<lambda>b. b < 256) k" using assms(1) by (auto simp: k_def SHA256_length SHA256_bytes)
  have s: "(if length key > 64 then sha256 key else key) = k" using assms(1,3) by (simp add: k_def sha256_standard)
  have z: "list_all (\<lambda>b. b < 256) (k @ replicate (64 - length k) 0)" using k(2) by (auto simp: list_all_iff)
  have i: "sha256 (map (\<lambda>b. b XOR 0x36) (k @ replicate (64 - length k) 0) @ message) = SHA256 (map (\<lambda>b. b XOR 0x36) (k @ replicate (64 - length k) 0) @ message)"
    using xor_bytes [where c = "0x36", OF _ z] assms(2,4) k(1) by (intro sha256_standard) simp_all
  have o': "sha256 (map (\<lambda>b. b XOR 0x5c) (k @ replicate (64 - length k) 0) @ SHA256 x) = SHA256 (map (\<lambda>b. b XOR 0x5c) (k @ replicate (64 - length k) 0) @ SHA256 x)" for x
    using xor_bytes [where c = "0x5c", OF _ z] SHA256_bytes [of x] SHA256_length [of x] k(1) by (intro sha256_standard) simp_all
  have p: "map (\<lambda>i. u8 (jb_xor (if i < length k then int (k ! i) else 0) 0x36)) [0..<64] = map (\<lambda>b. b XOR 0x36) (k @ replicate (64 - length k) 0)"
      "map (\<lambda>i. u8 (jb_xor (if i < length k then int (k ! i) else 0) 0x5c)) [0..<64] = map (\<lambda>b. b XOR 0x5c) (k @ replicate (64 - length k) 0)"
    using padded_key [OF k, of "0x36"] padded_key [OF k, of "0x5c"] by simp_all
  show ?thesis
    unfolding hmac_def HMAC256_def Let_def s k_def [symmetric] p i o' by (rule refl)
qed

text \<open>C2. The page's own HMAC-SHA256, on the numbers of JavaScript with their 32-bit operators, is the standard's on words,
  and its tables are the standard's: for every key and message of bytes, short of the size of an array.\<close>

theorem hmac_is_standard:
  assumes "list_all (\<lambda>b. b < 256) key" "list_all (\<lambda>b. b < 256) message" "length key < 2 ^ 30" "length message < 2 ^ 30"
  shows "hmac key message = HMAC256 key message \<and> list_all2 cube_part K256 first_primes \<and> list_all2 square_part H256 (take 8 first_primes)"
  using hmac_standard [OF assms] K256_standard H256_standard by simp

theorem hmac_is_standard_witness: "hmac [1, 2, 255] [7] = HMAC256 [1, 2, 255] [7]"
  using hmac_is_standard [of "[1, 2, 255]" "[7]"] by simp

section \<open>Text and key\<close>

lemma jb_or_val:
  assumes "0 \<le> x" "x < 2 ^ n" "0 \<le> k" "k * 2 ^ n < 2 ^ 31" "n \<le> 31"
  shows "jb_or (k * 2 ^ n) x = k * 2 ^ n + x"
proof -
  have "x < 2 ^ 31" using assms(2,5) power_increasing [of n 31 "2 :: int"] by linarith
  then show ?thesis using jb_or_small [of "k * 2 ^ n" x] or_disjoint [OF assms(1,2)] assms by simp
qed

lemma utf8_char_standard: "c < 0x110000 \<Longrightarrow> map u8 (utf8_char (int c)) = utf8_standard c"
proof -
  assume c: "c < 0x110000"
  have u: "u8 (int x) = x mod 256" for x by (simp add: u8_def nat_mod_distrib)
  have un: "u8 (numeral k + int x) = (numeral k + x) mod 256" for k x using u [of "numeral k + x"] by simp
  have d: "jb_sar (int c) n = int (c div 2 ^ n)" for n using c by (simp add: jb_sar_small zdiv_int)
  have m: "jb_and (int x) 63 = int (x mod 64)" for x using jb_and_mask [of 6 "int x"] by (simp add: zmod_int)
  have o80: "jb_or 0x80 (int (x mod 64)) = int (128 + x mod 64)" for x using jb_or_val [of "int (x mod 64)" 6 2] by simp
  have oc0: "jb_or 0xc0 (int x) = int (192 + x)" if "x < 64" for x using jb_or_val [of "int x" 6 3] that by simp
  have oe0: "jb_or 0xe0 (int x) = int (224 + x)" if "x < 32" for x using jb_or_val [of "int x" 5 7] that by simp
  have of0: "jb_or 0xf0 (int x) = int (240 + x)" if "x < 16" for x using jb_or_val [of "int x" 4 15] that by simp
  consider "c < 128" | "128 \<le> c" "c < 2048" | "2048 \<le> c" "c < 65536" | "65536 \<le> c" by linarith
  then show ?thesis
  proof cases
    case 1
    then show ?thesis by (simp add: utf8_char_def utf8_standard_def u)
  next
    case 2
    then have "c div 64 < 32" by simp
    then show ?thesis using 2 oc0 [of "c div 64"] unfolding utf8_char_def utf8_standard_def d m o80 by (simp add: un)
  next
    case 3
    then have "c div 4096 < 16" by simp
    then show ?thesis using 3 oe0 [of "c div 4096"] unfolding utf8_char_def utf8_standard_def d m o80 by (simp add: un)
  next
    case 4
    have "c div 262144 < 5" using c by simp
    then show ?thesis using 4 of0 [of "c div 262144"] unfolding utf8_char_def utf8_standard_def d m o80 by (simp add: un)
  qed
qed

lemma utf8_is_standard: "list_all (\<lambda>c. c < 0x110000) cs \<Longrightarrow> utf8 cs = concat (map utf8_standard cs)"
  by (induction cs) (simp_all add: utf8_def utf8_char_standard)

lemma utf8_bytes: "list_all (\<lambda>b. b < 256) (utf8 cs)"
  by (simp add: utf8_def list_all_iff)

lemma index_of_alphabet: "v < 64 \<Longrightarrow> index_of (alphabet ! v) alphabet = Some (int v)"
proof -
  have "list_all (\<lambda>v. index_of (alphabet ! v) alphabet = Some (int v)) [0..<64]" by code_simp
  then show "v < 64 \<Longrightarrow> ?thesis" by (simp add: list_all_iff del: upt_rec_numeral)
qed

text \<open>Only the low bits of the buffer matter, so it may be thought of as unbounded.\<close>

lemma base64_loop_low: "w32 x = w32 y \<Longrightarrow> base64_loop x n cs = base64_loop y n cs"
proof (induction cs arbitrary: x y n)
  case (Cons c cs)
  have e: "jb_shl x 6 = jb_shl y 6" using Cons.prems by (simp add: jb_shl_def)
  show ?case unfolding base64_loop.simps e ..
qed simp

lemma base64_step:
  assumes "v < 64"
  shows "base64_loop x n (alphabet ! v # cs) =
    (if n + 6 \<ge> 8 then map_option ((#) (jb_and (jb_sar (x * 64 + int v) (n - 2)) 255)) (base64_loop (x * 64 + int v) (n - 2) cs)
     else base64_loop (x * 64 + int v) (n + 6) cs)"
proof -
  have w: "w32 (jb_or (jb_shl x 6) (int v)) = w32 (x * 64 + int v)"
    unfolding jb_bits push_word word_wi_log_defs using or_disjoint [of "int v" 6 x] assms by simp
  have s: "jb_sar (jb_or (jb_shl x 6) (int v)) k = jb_sar (x * 64 + int v) k" for k unfolding jb_sar_def w ..
  show ?thesis using base64_loop_low [OF w] by (simp add: index_of_alphabet [OF assms] s Let_def)
qed

lemma byte_out:
  assumes "x = (k * 256 + int a) * 2 ^ n + r" "0 \<le> r" "r < 2 ^ n" "a < 256" "n \<le> 24"
  shows "jb_and (jb_sar x n) 255 = int a"
proof -
  have "x div 2 ^ n = k * 256 + int a" unfolding assms(1) using assms(2,3) by simp
  moreover have "(k * 256 + int a) mod 256 = int a" using assms(4) by simp
  moreover have "jb_and (jb_sar x n) 255 = jb_sar x n mod 2 ^ 8" using jb_and_mask [of 8] by simp
  ultimately show ?thesis using jb_sar_low [of n 8 x] assms(5) by simp
qed

text \<open>The bytes of a group of four letters.\<close>

lemma group_bytes:
  assumes "a2 < 4" "a1 < 64" "b2 < 16" "b1 < 16" "c2 < 64" "c1 < (4 :: nat)"
  shows "jb_and (jb_sar ((x * 64 + int a1) * 64 + int (a2 * 16 + b1)) 4) 255 = int (a1 * 4 + a2)"
    and "jb_and (jb_sar (((x * 64 + int a1) * 64 + int (a2 * 16 + b1)) * 64 + int (b2 * 4 + c1)) 2) 255 = int (b1 * 16 + b2)"
    and "jb_and (jb_sar ((((x * 64 + int a1) * 64 + int (a2 * 16 + b1)) * 64 + int (b2 * 4 + c1)) * 64 + int c2) 0) 255 = int (c1 * 64 + c2)"
proof -
  show "jb_and (jb_sar ((x * 64 + int a1) * 64 + int (a2 * 16 + b1)) 4) 255 = int (a1 * 4 + a2)"
    by (rule byte_out [where k = x and r = "int b1"]) (use assms in simp_all)
  show "jb_and (jb_sar (((x * 64 + int a1) * 64 + int (a2 * 16 + b1)) * 64 + int (b2 * 4 + c1)) 2) 255 = int (b1 * 16 + b2)"
    by (rule byte_out [where k = "x * 256 + int (a1 * 4 + a2)" and r = "int c1"]) (use assms in simp_all)
  show "jb_and (jb_sar ((((x * 64 + int a1) * 64 + int (a2 * 16 + b1)) * 64 + int (b2 * 4 + c1)) * 64 + int c2) 0) 255 = int (c1 * 64 + c2)"
    by (rule byte_out [where k = "(x * 256 + int (a1 * 4 + a2)) * 256 + int (b1 * 16 + b2)" and r = 0]) (use assms in simp_all)
qed

lemma base64_step_short:
  assumes "v < 64"
  shows "base64_loop x 0 (alphabet ! v # cs) = base64_loop (x * 64 + int v) 6 cs"
    "base64_loop x 6 (alphabet ! v # cs) = map_option ((#) (jb_and (jb_sar (x * 64 + int v) 4) 255)) (base64_loop (x * 64 + int v) 4 cs)"
    "base64_loop x 4 (alphabet ! v # cs) = map_option ((#) (jb_and (jb_sar (x * 64 + int v) 2) 255)) (base64_loop (x * 64 + int v) 2 cs)"
    "base64_loop x 2 (alphabet ! v # cs) = map_option ((#) (jb_and (jb_sar (x * 64 + int v) 0) 255)) (base64_loop (x * 64 + int v) 0 cs)"
  by (simp_all add: base64_step [OF assms] del: base64_loop.simps(2))

lemma base64_roundtrip: "list_all (\<lambda>b. b < 256) bs \<Longrightarrow> base64_loop x 0 (base64_standard bs) = Some (map int bs)"
proof (induction bs arbitrary: x rule: base64_standard.induct)
  case (2 a)
  define a1 a2 where "a1 = a div 4" and "a2 = a mod 4"
  have a: "a1 < 64" "a2 < 4" "a2 * 16 < 64" "a = a1 * 4 + a2" using 2 by (simp_all add: a1_def a2_def)
  have "jb_and (jb_sar ((x * 64 + int a1) * 64 + int (a2 * 16)) 4) 255 = int a"
    using group_bytes(1) [OF a(2,1), of 0 0 0 0 x] unfolding a(4) by simp
  then show ?case unfolding base64_standard.simps a1_def [symmetric] a2_def [symmetric] base64_step_short [OF a(1)] base64_step_short [OF a(3)]
    by simp
next
  case (3 a b)
  define a1 a2 b1 b2 where d: "a1 = a div 4" "a2 = a mod 4" "b1 = b div 16" "b2 = b mod 16"
  have "a < 256" "b < 256" using 3 by simp_all
  then have a: "a1 < 64" "a2 < 4" "a = a1 * 4 + a2" and b: "b1 < 16" "b2 < 16" "b = b1 * 16 + b2" by (simp_all add: d)
  have v: "a2 * 16 + b1 < 64" "b2 * 4 < 64" using a b by simp_all
  have "jb_and (jb_sar ((x * 64 + int a1) * 64 + int (a2 * 16 + b1)) 4) 255 = int a"
      "jb_and (jb_sar (((x * 64 + int a1) * 64 + int (a2 * 16 + b1)) * 64 + int (b2 * 4)) 2) 255 = int b"
    using group_bytes(1,2) [OF a(2,1) b(2,1), of 0 0 x] unfolding a(3) b(3) by simp_all
  then show ?case
    unfolding base64_standard.simps d [symmetric] base64_step_short [OF a(1)] base64_step_short [OF v(1)] base64_step_short [OF v(2)] by simp
next
  case (4 a b c bs)
  define a1 a2 b1 b2 c1 c2 where d: "a1 = a div 4" "a2 = a mod 4" "b1 = b div 16" "b2 = b mod 16" "c1 = c div 64" "c2 = c mod 64"
  have "a < 256" "b < 256" "c < 256" using 4 by simp_all
  then have a: "a1 < 64" "a2 < 4" "a = a1 * 4 + a2" and b: "b1 < 16" "b2 < 16" "b = b1 * 16 + b2" and c: "c1 < 4" "c2 < 64" "c = c1 * 64 + c2"
    by (simp_all add: d)
  have v: "a2 * 16 + b1 < 64" "b2 * 4 + c1 < 64" using a b c by simp_all
  note g = group_bytes [OF a(2,1) b(2,1) c(2,1), of x, folded a(3) b(3) c(3)]
  have IH: "base64_loop y 0 (base64_standard bs) = Some (map int bs)" for y using 4 by simp
  show ?case
    unfolding base64_standard.simps append_Cons append_Nil d [symmetric] base64_step_short [OF a(1)] base64_step_short [OF v(1)]
      base64_step_short [OF v(2)] base64_step_short [OF c(2)] g IH by simp
qed simp

lemma base64url_standard: "list_all (\<lambda>b. b < 256) bs \<Longrightarrow> base64url (base64_standard bs) = Some bs"
proof -
  assume b: "list_all (\<lambda>b. b < 256) bs"
  have "map u8 (map int bs) = bs" unfolding map_map using b by (intro map_idI) (simp add: u8_def list_all_iff nat_mod_distrib)
  then show ?thesis by (simp add: base64url_def base64_roundtrip [OF b])
qed

section \<open>The page and the server agree\<close>

lemma base64_standard_nonempty: "bs \<noteq> [] \<Longrightarrow> base64_standard bs \<noteq> []"
  by (cases bs rule: base64_standard.cases) simp_all

text \<open>C1. Where the server's platform computes HMAC-SHA256 of UTF-8 text and writes base64url, the page names for
  every origin but its own document's the very host that the server registers for it in the same context, from the
  key it was given and without asking.\<close>

theorem page_names_the_realm:
  assumes "\<And>k m. pf_hmac P k m = HMAC256 k (concat (map utf8_standard (map of_char m)))" "\<And>bs. pf_b64 P bs = base64_standard bs"
    and "org \<noteq> cx_documentOrigin c" "length org < 2 ^ 29"
    and "pr_realmMode G" "pr_key G = Some (pf_b64 P (resourceKey P cfg c))" "pr_self G = Some (self, w)"
      "pr_documentOrigin G = cx_documentOrigin c" "pr_affixes G = hostAffixes cfg"
  shows "fst (mapOrigin ask G org False Map.empty) = (Some (physical_of cfg (digest P cfg org c), Some w), [])"
proof -
  define k where "k = resourceKey P cfg c"
  have k: "list_all (\<lambda>b. b < 256) k" "length k = 32" by (simp_all add: k_def resourceKey_def assms(1) HMAC256_def Let_def SHA256_bytes SHA256_length)
  have cs: "list_all (\<lambda>c. c < 0x110000) (map of_char org :: nat list)"
    by (auto simp: list_all_iff intro: less_trans [OF nat_of_char_less_256])
  have u: "utf8 (map of_char org) = concat (map utf8_standard (map of_char org))" by (rule utf8_is_standard [OF cs])
  have "length (concat (map utf8_standard (map of_char org))) \<le> 2 * length org"
    by (induction org) (auto simp: utf8_standard_def intro: less_trans [OF nat_of_char_less_256])
  then have l: "length (utf8 (map of_char org)) < 2 ^ 30" using assms(4) unfolding u by simp
  have "hmac k (utf8 (map of_char org)) = HMAC256 k (utf8 (map of_char org))"
    using hmac_standard [OF k(1) utf8_bytes _ l] k(2) by simp
  then have "realmHost (base64_standard k) org (hostAffixes cfg) = Some (physical_of cfg (digest P cfg org c))"
    by (simp add: realmHost_def base64url_standard [OF k(1)])
       (simp add: u k_def digest_def assms(1,3) physical_of_def realm_host_def hostAffixes_def)
  moreover have "base64_standard k \<noteq> []" using k(2) by (intro base64_standard_nonempty) auto
  ultimately show ?thesis
    using assms(3) by (simp add: mapOrigin_def assms(2,5-9) flip: k_def)
qed

definition standard_platform :: platform where
  "standard_platform =
     \<lparr>pf_url = (\<lambda>_. None), pf_isIP = (\<lambda>_. False), pf_suffix = (\<lambda>_. None),
      pf_hmac = (\<lambda>k m. HMAC256 k (concat (map utf8_standard (map of_char m)))), pf_b64 = base64_standard, pf_unb64 = (\<lambda>_. []),
      pf_data = (\<lambda>_. []), pf_undata = (\<lambda>_. None)\<rparr>"

theorem page_names_the_realm_witness:
  "\<forall>cfg ask. let c = \<lparr>cx_documentOrigin = ''https://a'', cx_topSite = ''https://a'', cx_tainted = False\<rparr>;
       G = \<lparr>pr_realmMode = True, pr_key = Some (base64_standard (resourceKey standard_platform cfg c)), pr_self = Some (''p'', ''w''),
             pr_documentOrigin = ''https://a'', pr_affixes = hostAffixes cfg\<rparr>
     in fst (mapOrigin ask G ''https://b'' False Map.empty) = (Some (physical_of cfg (digest standard_platform cfg ''https://b'' c), Some ''w''), [])"
  unfolding Let_def
  by (intro allI page_names_the_realm [where self = "''p''"]) (simp_all add: standard_platform_def)

end
