(* ===== verification/BlMessages.thy ===== *)
theory BlMessages
  imports JsStr VtPrelude
begin

text \<open>
  Messages between the windows of a proxied page. \<^verbatim>\<open>browser-lite/proxy/message-gate.js\<close> holds a message until the
  site of its sender is known, \<^verbatim>\<open>message-target.js\<close> decides which realm a page's message may go to, and
  \<^verbatim>\<open>client-bridge.js\<close> keeps what it knows of senders and targets. Looking up a sender is a request to the server;
  its answer is an event.
\<close>

section \<open>Holding messages\<close>

text \<open>A message is kept with its sender's physical origin. \<open>gt_origins\<close> are the known sites, shared with the
  rest of the page's script.\<close>

record 'm gate =
  gt_origins :: "string \<rightharpoonup> string"
  gt_held :: "('m \<times> string) list"
  gt_pending :: "string set"

definition gate_drain :: "'m gate \<Rightarrow> 'm gate \<times> 'm list" where
  "gate_drain s =
     (s\<lparr>gt_held := dropWhile (\<lambda>(m, p). p \<notin> gt_pending s) (gt_held s)\<rparr>, map fst (takeWhile (\<lambda>(m, p). p \<notin> gt_pending s) (gt_held s)))"

text \<open>A lookup ends, with a site or without one; what comes after its end is ignored.\<close>

definition lookup_done :: "string \<Rightarrow> string option \<Rightarrow> 'm gate \<Rightarrow> 'm gate \<times> 'm list" where
  "lookup_done p site s =
     (if p \<notin> gt_pending s then (s, [])
      else gate_drain (s\<lparr>gt_origins := (case site of Some o' \<Rightarrow> (gt_origins s)(p \<mapsto> o') | None \<Rightarrow> gt_origins s),
                         gt_pending := gt_pending s - {p}\<rparr>))"

text \<open>A lookup that was started: it is under way, or it ended at once (\<open>lookUp\<close> threw or answered).\<close>

datatype looked = Later | Ended "string option"

definition start_lookup :: "looked \<Rightarrow> string \<Rightarrow> 'm gate \<Rightarrow> 'm gate \<times> 'm list" where
  "start_lookup r p s =
     (if p \<in> gt_pending s then (s, [])
      else let s1 = s\<lparr>gt_pending := insert p (gt_pending s)\<rparr>
           in case r of Later \<Rightarrow> (s1, []) | Ended site \<Rightarrow> lookup_done p site s1)"

text \<open>A message comes; the last result says that the gate took it, otherwise it goes on at once.\<close>

definition hold :: "bool \<Rightarrow> looked \<Rightarrow> 'm \<Rightarrow> string \<Rightarrow> 'm gate \<Rightarrow> ('m gate \<times> 'm list) \<times> bool" where
  "hold delivering r m p s =
     (let known = (p = ''null'' \<or> gt_origins s p \<noteq> None)
      in if delivering \<or> known \<and> gt_held s = [] then ((s, []), False)
         else let s1 = s\<lparr>gt_held := gt_held s @ [(m, p)]\<rparr>
              in (if known then gate_drain s1 else start_lookup r p s1, True))"

datatype 'm gate_event = Arrives 'm string looked | Looked string "string option" | Learns string string

text \<open>What the page gets, in order: messages of the gate and those that go on at once. The rest of the script may
  learn of a site meanwhile.\<close>

fun gate_step :: "'m gate_event \<Rightarrow> 'm gate \<Rightarrow> 'm gate \<times> 'm list" where
  "gate_step (Arrives m p r) s = (case hold False r m p s of ((s', out), held) \<Rightarrow> (s', if held then out else [m]))"
| "gate_step (Looked p site) s = lookup_done p site s"
| "gate_step (Learns p site) s = (s\<lparr>gt_origins := (gt_origins s)(p \<mapsto> site)\<rparr>, [])"

fun gate_run :: "'m gate_event list \<Rightarrow> 'm gate \<Rightarrow> 'm gate \<times> 'm list" where
  "gate_run [] s = (s, [])"
| "gate_run (e # es) s = (case gate_step e s of (s1, o1) \<Rightarrow> (case gate_run es s1 of (s2, o2) \<Rightarrow> (s2, o1 @ o2)))"

definition gate_new :: "(string \<rightharpoonup> string) \<Rightarrow> 'm gate" where
  "gate_new origins = \<lparr>gt_origins = origins, gt_held = [], gt_pending = {}\<rparr>"

section \<open>The gate is a queue\<close>

fun arrivals :: "'m gate_event list \<Rightarrow> 'm list" where
  "arrivals [] = []"
| "arrivals (Arrives m p r # es) = m # arrivals es"
| "arrivals (_ # es) = arrivals es"

definition head_waits :: "'m gate \<Rightarrow> bool" where
  "head_waits s \<longleftrightarrow> (gt_held s \<noteq> [] \<longrightarrow> snd (hd (gt_held s)) \<in> gt_pending s)"

text \<open>One step delivers a front part of what waits and what comes, and leaves the rest waiting for a lookup.\<close>

definition in_order :: "'m list \<Rightarrow> 'm gate \<Rightarrow> 'm gate \<times> 'm list \<Rightarrow> bool" where
  "in_order new s r \<longleftrightarrow> snd r @ map fst (gt_held (fst r)) = map fst (gt_held s) @ new \<and> head_waits (fst r)"

lemma drain_in_order [simp]: "in_order [] s (gate_drain s)"
proof -
  have "map fst (takeWhile (\<lambda>(m, p). p \<notin> gt_pending s) (gt_held s)) @ map fst (dropWhile (\<lambda>(m, p). p \<notin> gt_pending s) (gt_held s)) = map fst (gt_held s)"
    by (simp flip: map_append)
  moreover have "dropWhile (\<lambda>(m, p). p \<notin> gt_pending s) (gt_held s) \<noteq> [] \<Longrightarrow>
      \<not> (\<lambda>(m, p). p \<notin> gt_pending s) (hd (dropWhile (\<lambda>(m, p). p \<notin> gt_pending s) (gt_held s)))"
    by (rule hd_dropWhile)
  ultimately show ?thesis by (auto simp: in_order_def gate_drain_def head_waits_def case_prod_beta)
qed

lemma in_order_held: "in_order [] s' r \<Longrightarrow> gt_held s' = gt_held s @ [(m, p)] \<Longrightarrow> in_order [m] s r"
  by (simp add: in_order_def)

lemma in_order_same: "in_order [] s' r \<Longrightarrow> gt_held s' = gt_held s \<Longrightarrow> in_order [] s r"
  by (simp add: in_order_def)

lemma done_in_order: "head_waits s \<Longrightarrow> in_order [] s (lookup_done p site s)"
proof (cases "p \<in> gt_pending s")
  case True
  let ?s = "s\<lparr>gt_origins := (case site of Some o' \<Rightarrow> (gt_origins s)(p \<mapsto> o') | None \<Rightarrow> gt_origins s), gt_pending := gt_pending s - {p}\<rparr>"
  have "in_order [] s (gate_drain ?s)" by (rule in_order_same [OF drain_in_order]) simp
  then show "head_waits s \<Longrightarrow> ?thesis" using True by (simp add: lookup_done_def)
qed (simp add: lookup_done_def in_order_def)

lemma lookup_in_order:
  assumes "gt_held s \<noteq> []" "snd (hd (gt_held s)) \<in> insert p (gt_pending s)"
  shows "in_order [] s (start_lookup r p s)"
proof (cases "p \<in> gt_pending s")
  case True
  then show ?thesis using assms by (auto simp: start_lookup_def in_order_def head_waits_def)
next
  case False
  let ?s = "s\<lparr>gt_pending := insert p (gt_pending s)\<rparr>"
  have w: "head_waits ?s" using assms by (simp add: head_waits_def)
  show ?thesis
  proof (cases r)
    case Later
    then show ?thesis using False w by (simp add: start_lookup_def in_order_def)
  next
    case (Ended site)
    then show ?thesis using False in_order_same [OF done_in_order [OF w]] by (simp add: start_lookup_def)
  qed
qed

lemma gate_step_in_order:
  assumes "head_waits s"
  shows "in_order (arrivals [e]) s (gate_step e s)"
proof (cases e)
  case (Arrives m p r)
  let ?s1 = "s\<lparr>gt_held := gt_held s @ [(m, p)]\<rparr>"
  show ?thesis
  proof (cases "p = ''null'' \<or> gt_origins s p \<noteq> None")
    case known: True
    show ?thesis
    proof (cases "gt_held s = []")
      case True
      then show ?thesis using known Arrives by (simp add: hold_def in_order_def head_waits_def)
    next
      case False
      have "in_order [m] s (gate_drain ?s1)" by (rule in_order_held [OF drain_in_order]) simp
      then show ?thesis using known False Arrives by (simp add: hold_def split: prod.split)
    qed
  next
    case False
    have "in_order [] ?s1 (start_lookup r p ?s1)"
    proof (rule lookup_in_order)
      show "snd (hd (gt_held ?s1)) \<in> insert p (gt_pending ?s1)" using assms by (cases "gt_held s") (simp_all add: head_waits_def)
    qed simp
    then have "in_order [m] s (start_lookup r p ?s1)" by (rule in_order_held) simp
    then show ?thesis using False Arrives by (simp add: hold_def split: prod.split)
  qed
next
  case (Looked p site)
  then show ?thesis using done_in_order [OF assms] by simp
next
  case (Learns p site)
  then show ?thesis using assms by (simp add: in_order_def head_waits_def)
qed

lemma gate_run_in_order: "head_waits s \<Longrightarrow> in_order (arrivals es) s (gate_run es s)"
proof (induction es arbitrary: s)
  case (Cons e es)
  obtain s1 o1 where e: "gate_step e s = (s1, o1)" by fastforce
  obtain s2 o2 where es: "gate_run es s1 = (s2, o2)" by fastforce
  have a: "in_order (arrivals [e]) s (s1, o1)" using gate_step_in_order [OF Cons.prems, of e] e by simp
  then have "in_order (arrivals es) s1 (s2, o2)" using Cons.IH [of s1] es by (simp add: in_order_def)
  moreover have "arrivals (e # es) = arrivals [e] @ arrivals es" by (cases e) simp_all
  ultimately show ?case using a by (auto simp: in_order_def e es)
qed (simp add: in_order_def)

lemma nothing_pending: "head_waits s \<Longrightarrow> gt_pending s = {} \<Longrightarrow> gt_held s = []"
  by (auto simp: head_waits_def)

text \<open>A lookup of a sender is under way: an arrival started it, and no end of it has come since.\<close>

definition under_way :: "string \<Rightarrow> 'm gate_event list \<Rightarrow> bool" where
  "under_way p es \<longleftrightarrow> (\<exists>pre m post. es = pre @ Arrives m p Later # post \<and> (\<forall>site. Looked p site \<notin> set post))"

lemma under_way_Cons: "under_way p es \<Longrightarrow> under_way p (e # es)"
  unfolding under_way_def by (metis append_Cons)

lemma lookup_done_pending: "q \<in> gt_pending (fst (lookup_done p site s)) \<longleftrightarrow> q \<in> gt_pending s \<and> q \<noteq> p"
  by (auto simp: lookup_done_def gate_drain_def)

lemma start_lookup_pending: "q \<in> gt_pending (fst (start_lookup r p s)) \<Longrightarrow> q \<in> gt_pending s \<or> (q = p \<and> r = Later)"
  by (cases r) (auto simp: start_lookup_def lookup_done_pending split: if_splits)

lemma step_pending:
  assumes "p \<in> gt_pending (fst (gate_step e s))"
  shows "(p \<in> gt_pending s \<and> (\<forall>site. e \<noteq> Looked p site)) \<or> (\<exists>m. e = Arrives m p Later)"
proof (cases e)
  case (Arrives m q r)
  have "gt_pending (fst (gate_step e s)) = gt_pending s \<or>
      gt_pending (fst (gate_step e s)) = gt_pending (fst (start_lookup r q (s\<lparr>gt_held := gt_held s @ [(m, q)]\<rparr>)))"
    by (cases "gt_held s") (auto simp: Arrives hold_def gate_drain_def Let_def split: prod.splits if_splits)
  then show ?thesis using assms start_lookup_pending [of p r q "s\<lparr>gt_held := gt_held s @ [(m, q)]\<rparr>"] Arrives by auto
next
  case (Looked q site)
  then show ?thesis using assms by (auto simp: lookup_done_pending)
qed (use assms in simp)

lemma run_pending:
  "p \<in> gt_pending (fst (gate_run es s)) \<Longrightarrow> under_way p es \<or> (p \<in> gt_pending s \<and> (\<forall>site. Looked p site \<notin> set es))"
proof (induction es arbitrary: s)
  case (Cons e es)
  obtain s1 o1 where e: "gate_step e s = (s1, o1)" by fastforce
  have "under_way p es \<or> (p \<in> gt_pending s1 \<and> (\<forall>site. Looked p site \<notin> set es))"
    using Cons.IH [of s1] Cons.prems by (simp add: e split: prod.splits)
  then show ?case
  proof
    assume w: "p \<in> gt_pending s1 \<and> (\<forall>site. Looked p site \<notin> set es)"
    then have "(p \<in> gt_pending s \<and> (\<forall>site. e \<noteq> Looked p site)) \<or> (\<exists>m. e = Arrives m p Later)"
      using step_pending [of p e s] e by simp
    then show ?thesis
    proof
      assume "\<exists>m. e = Arrives m p Later"
      then have "under_way p (e # es)" unfolding under_way_def using w by (metis append_Nil)
      then show ?thesis ..
    qed (use w in auto)
  qed (simp add: under_way_Cons)
qed simp

text \<open>C10. Whatever messages come, from whomever, and whenever lookups end, with a site or not: the page gets the
  messages in the order in which they came, none twice and none left out; those it has not got yet are the last
  ones and wait in order, and only ever behind one whose sender is being looked up: whenever something
  waits, a lookup of the sender of the first that waits was started by an arrival and has not ended since. So when no lookup is
  under way it has got them all.\<close>

theorem gate_is_a_queue:
  "case gate_run es (gate_new origins) of (s, delivered) \<Rightarrow>
     delivered @ map fst (gt_held s) = arrivals es \<and>
     (gt_held s \<noteq> [] \<longrightarrow> snd (hd (gt_held s)) \<in> gt_pending s \<and> under_way (snd (hd (gt_held s))) es) \<and>
     (\<forall>p \<in> gt_pending s. under_way p es) \<and>
     ((\<forall>p. \<not> under_way p es) \<longrightarrow> delivered = arrivals es)"
proof -
  obtain s d where r: "gate_run es (gate_new origins) = (s, d)" by fastforce
  have "in_order (arrivals es) (gate_new origins :: 'a gate) (gate_run es (gate_new origins))"
    by (rule gate_run_in_order) (simp add: head_waits_def gate_new_def)
  then have "in_order (arrivals es) (gate_new origins) (s, d)" unfolding r .
  then have q: "d @ map fst (gt_held s) = arrivals es" "head_waits s" by (simp_all add: in_order_def gate_new_def)
  have u: "under_way p es" if "p \<in> gt_pending s" for p
    using run_pending [of p es "gate_new origins :: 'a gate"] that unfolding r by (simp add: gate_new_def)
  have "gt_held s = []" if "\<forall>p. \<not> under_way p es" using u that q(2) by (auto simp: head_waits_def)
  then show ?thesis using q u unfolding r prod.case head_waits_def by auto
qed

theorem gate_is_a_queue_witness:
  "gate_run [Arrives (1 :: nat) ''a'' Later, Arrives 2 ''b'' Later, Arrives 3 ''null'' Later, Looked ''a'' None] (gate_new Map.empty) =
     (\<lparr>gt_origins = Map.empty, gt_held = [(2, ''b''), (3, ''null'')], gt_pending = {''b''}\<rparr>, [1])"
proof -
  let ?es = "[Arrives (1 :: nat) ''a'' Later, Arrives 2 ''b'' Later, Arrives 3 ''null'' Later, Looked ''a'' None]"
  let ?r = "gate_run ?es (gate_new Map.empty)"
  have p: "gt_pending (fst ?r) = {''b''}" "gt_origins (fst ?r) = Map.empty" "gt_held (fst ?r) = [(2, ''b''), (3, ''null'')]"
    by (auto simp add: gate_new_def hold_def start_lookup_def lookup_done_def gate_drain_def)
  have "snd ?r @ map fst (gt_held (fst ?r)) = arrivals ?es"
    using gate_is_a_queue [of ?es Map.empty] by (simp only: case_prod_beta)
  then have "snd ?r = [1]" unfolding p(3) by simp
  then show ?thesis using p by (cases ?r) simp
qed

section \<open>Where a message may go\<close>

definition discard :: string where "discard = ''https://vibetop-discard.invalid''"

text \<open>A lookup of a window's relation to the page: it may throw.\<close>

datatype found = Throws | Found string

fun first_found :: "(string \<Rightarrow> found) option list \<Rightarrow> string \<Rightarrow> string" where
  "first_found [] org = discard"
| "first_found (None # fs) org = first_found fs org"
| "first_found (Some f # fs) org = (case f org of Throws \<Rightarrow> discard | Found p \<Rightarrow> if p = [] then first_found fs org else p)"

text \<open>\<open>url_origin\<close> is \<open>new URL(s).origin\<close>; \<open>known\<close> and \<open>parent\<close> are pairs of a site's origin and its realm's. None
  where the code throws.\<close>

definition targetOrigin :: "(string \<Rightarrow> string option) \<Rightarrow> string \<Rightarrow> string \<Rightarrow> string \<Rightarrow> bool \<Rightarrow> (string \<times> string) option \<Rightarrow> (string \<times> string) option \<Rightarrow>
    (string \<Rightarrow> found) option list \<Rightarrow> string option" where
  "targetOrigin url_origin expected documentOrigin physicalOrigin samePhysical known parent lookups =
     (if expected = ''*'' then Some ''*''
      else case url_origin (if expected = ''/'' then documentOrigin else expected) of
             None \<Rightarrow> None
           | Some org \<Rightarrow>
               Some (if org = ''null'' then discard
                     else if samePhysical then (if org = documentOrigin then physicalOrigin else discard)
                     else case known of
                            Some (original, physical) \<Rightarrow>
                              if original = org then physical
                              else (case parent of
                                      Some (original', physical') \<Rightarrow> if original' = org then physical' else first_found lookups org
                                    | None \<Rightarrow> first_found lookups org)
                          | None \<Rightarrow>
                              (case parent of
                                 Some (original', physical') \<Rightarrow> if original' = org then physical' else first_found lookups org
                               | None \<Rightarrow> first_found lookups org)))"

section \<open>What the page's script remembers\<close>

text \<open>Sites of senders, targets of messages (the last 256 in the order in which they came), and lookups in the
  background, at most 32 of each kind.\<close>

record bridge =
  br_origins :: "string \<rightharpoonup> string"
  br_prefetchingOrigins :: "string list"
  br_targets :: "(string \<times> string) list"
  br_prefetchingTargets :: "string list"
  br_known :: "nat \<rightharpoonup> string"

text \<open>Each may send a request; its answer, None if it failed, comes back. \<open>messageOrigin\<close> and \<open>messageTarget\<close> wait
  for it.\<close>

definition messageOrigin :: "string option \<Rightarrow> string \<Rightarrow> bridge \<Rightarrow> string \<times> bridge" where
  "messageOrigin ans p s =
     (case br_origins s p of
        Some o' \<Rightarrow> (o', s)
      | None \<Rightarrow>
          (case ans of
             None \<Rightarrow> (p, s)
           | Some o' \<Rightarrow> let site = (if o' = [] then p else o') in (site, s\<lparr>br_origins := (br_origins s)(p \<mapsto> site)\<rparr>)))"

definition prefetchOrigin :: "string \<Rightarrow> bridge \<Rightarrow> bridge \<times> string list" where
  "prefetchOrigin p s =
     (if p = [] \<or> br_origins s p \<noteq> None \<or> p \<in> set (br_prefetchingOrigins s) \<or> length (br_prefetchingOrigins s) \<ge> 32 then (s, [])
      else (s\<lparr>br_prefetchingOrigins := br_prefetchingOrigins s @ [p]\<rparr>, [p]))"

definition prefetchedOrigin :: "string \<Rightarrow> string option \<Rightarrow> bridge \<Rightarrow> bridge" where
  "prefetchedOrigin p ans s =
     s\<lparr>br_prefetchingOrigins := remove1 p (br_prefetchingOrigins s),
       br_origins := (case ans of Some o' \<Rightarrow> if br_origins s p = None then (br_origins s)(p \<mapsto> if o' = [] then p else o') else br_origins s
                      | None \<Rightarrow> br_origins s)\<rparr>"

text \<open>Every message of a window tells its physical origin, which the browser vouches for.\<close>

definition message_seen :: "nat option \<Rightarrow> string \<Rightarrow> bridge \<Rightarrow> bridge \<times> string list" where
  "message_seen source p s =
     (let s1 = (case source of Some w \<Rightarrow> if p \<noteq> ''null'' then s\<lparr>br_known := (br_known s)(w \<mapsto> p)\<rparr> else s | None \<Rightarrow> s)
      in if p \<noteq> [] \<and> p \<noteq> ''null'' then prefetchOrigin p s1 else (s1, []))"

definition rememberTarget :: "string \<Rightarrow> string \<Rightarrow> bridge \<Rightarrow> bridge" where
  "rememberTarget key p s =
     (let ts = (if length (br_targets s) \<ge> 256 then tl (br_targets s) else br_targets s)
      in s\<lparr>br_targets := (if map_of ts key = None then ts @ [(key, p)] else map (\<lambda>(k, v). (k, if k = key then p else v)) ts)\<rparr>)"

definition messageTarget :: "string option \<Rightarrow> string \<Rightarrow> string \<Rightarrow> bridge \<Rightarrow> found \<times> bridge" where
  "messageTarget ans relation org s =
     (let key = relation @ '':'' @ org
      in case map_of (br_targets s) key of
           Some p \<Rightarrow> (Found p, s)
         | None \<Rightarrow> (case ans of None \<Rightarrow> (Throws, s) | Some p \<Rightarrow> (Found p, rememberTarget key p s)))"

definition prefetchTarget :: "bool \<Rightarrow> string \<Rightarrow> string \<Rightarrow> bridge \<Rightarrow> bridge \<times> string list" where
  "prefetchTarget realmMode relation org s =
     (let key = relation @ '':'' @ org
      in if \<not> realmMode \<or> map_of (br_targets s) key \<noteq> None \<or> key \<in> set (br_prefetchingTargets s) \<or> length (br_prefetchingTargets s) \<ge> 32
         then (s, [])
         else (s\<lparr>br_prefetchingTargets := br_prefetchingTargets s @ [key]\<rparr>, [key]))"

definition prefetchedTarget :: "string \<Rightarrow> string option \<Rightarrow> bridge \<Rightarrow> bridge" where
  "prefetchedTarget key ans s =
     (let s1 = s\<lparr>br_prefetchingTargets := remove1 key (br_prefetchingTargets s)\<rparr>
      in case ans of Some p \<Rightarrow> if map_of (br_targets s1) key = None then rememberTarget key p s1 else s1 | None \<Rightarrow> s1)"

text \<open>Posting to a window \<open>w\<close>: \<open>parent\<close> is the site and realm of the page that holds this one, if the window is it, and
  \<open>relations\<close> are those the window has to the page, with the server's answer for each.\<close>

fun ask_relations :: "(string \<times> string option) list \<Rightarrow> string \<Rightarrow> bridge \<Rightarrow> string \<times> bridge" where
  "ask_relations [] org s = (discard, s)"
| "ask_relations ((relation, ans) # rs) org s =
     (case messageTarget ans relation org s of
        (Throws, s1) \<Rightarrow> (discard, s1)
      | (Found p, s1) \<Rightarrow> if p = [] then ask_relations rs org s1 else (p, s1))"

record post_to =
  po_expected :: string
  po_same :: bool
  po_window :: nat
  po_sender :: "string option"
  po_parent :: "(string \<times> string) option"
  po_relations :: "(string \<times> string option) list"

definition postMessage :: "(string \<Rightarrow> string option) \<Rightarrow> string \<Rightarrow> string \<Rightarrow> post_to \<Rightarrow> bridge \<Rightarrow> string option \<times> bridge" where
  "postMessage url_origin documentOrigin physicalOrigin t s =
     (if po_expected t = ''*'' then (Some ''*'', s)
      else case url_origin (if po_expected t = ''/'' then documentOrigin else po_expected t) of
             None \<Rightarrow> (None, s)
           | Some org \<Rightarrow>
               if org = ''null'' \<or> po_same t
               then (targetOrigin url_origin (po_expected t) documentOrigin physicalOrigin (po_same t) None None [], s)
               else let (known, s1) = (case br_known s (po_window t) of
                                         None \<Rightarrow> (None, s)
                                       | Some p \<Rightarrow> (case messageOrigin (po_sender t) p s of (o', s1) \<Rightarrow> (Some (o', p), s1)));
                        (asked, s2) = (if (case known of Some (o', p) \<Rightarrow> o' = org | None \<Rightarrow> False) \<or>
                                          (case po_parent t of Some (o', p) \<Rightarrow> o' = org | None \<Rightarrow> False)
                                       then (discard, s1) else ask_relations (po_relations t) org s1)
                    in (targetOrigin url_origin (po_expected t) documentOrigin physicalOrigin False known (po_parent t)
                          [Some (\<lambda>_. Found asked)], s2))"

section \<open>A message goes only where the page meant it to\<close>

text \<open>\<open>stands o p\<close>: the physical origin \<open>p\<close> is a realm of the site \<open>o\<close>; an origin stands for itself where the
  server knows no site for it.\<close>

definition bridge_ok :: "(string \<Rightarrow> string \<Rightarrow> bool) \<Rightarrow> bridge \<Rightarrow> bool" where
  "bridge_ok stands s \<longleftrightarrow>
     (\<forall>p o'. br_origins s p = Some o' \<longrightarrow> stands o' p \<or> o' = p) \<and>
     (\<forall>(k, p) \<in> set (br_targets s). \<forall>relation org. CHR '':'' \<notin> set relation \<and> k = relation @ '':'' @ org \<and> p \<noteq> [] \<longrightarrow> stands org p)"

text \<open>What the server answers is true.\<close>

definition true_site :: "(string \<Rightarrow> string \<Rightarrow> bool) \<Rightarrow> string \<Rightarrow> string option \<Rightarrow> bool" where
  "true_site stands p ans \<longleftrightarrow> (case ans of None \<Rightarrow> True | Some o' \<Rightarrow> o' = [] \<or> o' = p \<or> stands o' p)"

definition true_target :: "(string \<Rightarrow> string \<Rightarrow> bool) \<Rightarrow> string \<Rightarrow> string option \<Rightarrow> bool" where
  "true_target stands org ans \<longleftrightarrow> (case ans of None \<Rightarrow> True | Some p \<Rightarrow> p = [] \<or> stands org p)"

lemma colon_split:
  "CHR '':'' \<notin> set a \<Longrightarrow> CHR '':'' \<notin> set b \<Longrightarrow> a @ CHR '':'' # x = b @ CHR '':'' # y \<Longrightarrow> a = b \<and> x = y"
  by (induction a arbitrary: b) (case_tac b; auto)+

lemma rememberTarget_ok:
  assumes "bridge_ok stands s" "CHR '':'' \<notin> set relation" "true_target stands org (Some p)"
  shows "bridge_ok stands (rememberTarget (relation @ '':'' @ org) p s)"
proof -
  have new: "stands org' p" if "CHR '':'' \<notin> set relation'" "relation @ '':'' @ org = relation' @ '':'' @ org'" "p \<noteq> []" for relation' org'
    using colon_split [of relation relation' org org'] assms(2,3) that by (simp add: true_target_def)
  have "set (tl (br_targets s)) \<subseteq> set (br_targets s)" by (cases "br_targets s") auto
  then have old: "stands org' v" if "(k, v) \<in> set (if length (br_targets s) \<ge> 256 then tl (br_targets s) else br_targets s)"
      "CHR '':'' \<notin> set relation'" "k = relation' @ '':'' @ org'" "v \<noteq> []" for k v relation' org'
    using assms(1) that unfolding bridge_ok_def by (fastforce split: if_splits)
  show ?thesis
    unfolding bridge_ok_def
  proof (intro conjI ballI)
    show "\<forall>p' o'. br_origins (rememberTarget (relation @ '':'' @ org) p s) p' = Some o' \<longrightarrow> stands o' p' \<or> o' = p'"
      using assms(1) by (simp add: rememberTarget_def Let_def bridge_ok_def)
    fix kv assume "kv \<in> set (br_targets (rememberTarget (relation @ '':'' @ org) p s))"
    moreover obtain k v where kv: "kv = (k, v)" by (cases kv)
    ultimately have "(k, v) \<in> set (if length (br_targets s) \<ge> 256 then tl (br_targets s) else br_targets s) \<or> (k = relation @ '':'' @ org \<and> v = p)"
      by (auto simp: rememberTarget_def Let_def split: if_splits)
    note c = this
    have "stands org' v" if "CHR '':'' \<notin> set relation' \<and> k = relation' @ '':'' @ org' \<and> v \<noteq> []" for relation' org'
      using c
    proof
      assume "(k, v) \<in> set (if length (br_targets s) \<ge> 256 then tl (br_targets s) else br_targets s)"
      then show ?thesis using old that by blast
    next
      assume "k = relation @ '':'' @ org \<and> v = p"
      then show ?thesis using new [of relation' org'] that by simp
    qed
    then show "case kv of (k, p) \<Rightarrow> \<forall>relation org. CHR '':'' \<notin> set relation \<and> k = relation @ '':'' @ org \<and> p \<noteq> [] \<longrightarrow> stands org p"
      unfolding kv prod.case by blast
  qed
qed

lemma messageOrigin_ok:
  assumes "bridge_ok stands s" "true_site stands p ans"
  shows "bridge_ok stands (snd (messageOrigin ans p s)) \<and> (stands (fst (messageOrigin ans p s)) p \<or> fst (messageOrigin ans p s) = p)"
  using assms by (auto simp: messageOrigin_def bridge_ok_def true_site_def Let_def split: option.split)

lemma messageTarget_ok:
  assumes "bridge_ok stands s" "CHR '':'' \<notin> set relation" "true_target stands org ans"
  shows "bridge_ok stands (snd (messageTarget ans relation org s)) \<and>
    (\<forall>p. fst (messageTarget ans relation org s) = Found p \<longrightarrow> p = [] \<or> stands org p)"
proof (cases "map_of (br_targets s) (relation @ '':'' @ org)")
  case None
  then show ?thesis using assms rememberTarget_ok [OF assms(1,2)] by (cases ans) (auto simp: messageTarget_def Let_def true_target_def)
next
  case (Some p)
  have "case (relation @ '':'' @ org, p) of (k, p) \<Rightarrow> \<forall>relation org. CHR '':'' \<notin> set relation \<and> k = relation @ '':'' @ org \<and> p \<noteq> [] \<longrightarrow> stands org p"
    using assms(1) map_of_SomeD [OF Some] unfolding bridge_ok_def by blast
  then have "p = [] \<or> stands org p" using assms(2) unfolding prod.case by blast
  then show ?thesis using assms(1) unfolding messageTarget_def Let_def Some by simp
qed

lemma ask_relations_ok:
  assumes "bridge_ok stands s" "\<forall>(relation, ans) \<in> set rs. CHR '':'' \<notin> set relation \<and> true_target stands org ans"
  shows "bridge_ok stands (snd (ask_relations rs org s)) \<and> (fst (ask_relations rs org s) = discard \<or> stands org (fst (ask_relations rs org s)))"
  using assms
proof (induction rs org s rule: ask_relations.induct)
  case (2 relation ans rs org s)
  have t: "bridge_ok stands (snd (messageTarget ans relation org s))"
      "\<And>p. fst (messageTarget ans relation org s) = Found p \<Longrightarrow> p = [] \<or> stands org p"
    using messageTarget_ok [of stands s relation org ans] 2(2,3) by auto
  obtain f s1 where m: "messageTarget ans relation org s = (f, s1)" by fastforce
  show ?case
  proof (cases f)
    case Throws
    then show ?thesis using t m by simp
  next
    case (Found p)
    then show ?thesis using t 2(1) [OF m [symmetric] Found] 2(3) by (simp add: m) blast
  qed
qed simp

lemma prefetchedOrigin_ok: "bridge_ok stands s \<Longrightarrow> true_site stands p ans \<Longrightarrow> bridge_ok stands (prefetchedOrigin p ans s)"
  by (auto simp: prefetchedOrigin_def bridge_ok_def true_site_def split: option.split)

lemma prefetchedTarget_ok:
  assumes "bridge_ok stands s" "CHR '':'' \<notin> set relation" "true_target stands org ans"
  shows "bridge_ok stands (prefetchedTarget (relation @ '':'' @ org) ans s)"
proof -
  have "bridge_ok stands (s\<lparr>br_prefetchingTargets := ps\<rparr>)" for ps using assms(1) by (simp add: bridge_ok_def)
  note r = rememberTarget_ok [OF this assms(2)]
  show ?thesis
  proof (cases ans)
    case None
    then show ?thesis using assms(1) by (simp add: prefetchedTarget_def bridge_ok_def)
  next
    case (Some p)
    have "bridge_ok stands (rememberTarget (relation @ '':'' @ org) p (s\<lparr>br_prefetchingTargets := remove1 (relation @ '':'' @ org) (br_prefetchingTargets s)\<rparr>))"
      using r assms(3) unfolding Some .
    then show ?thesis using assms(1) unfolding prefetchedTarget_def Let_def Some option.case by (simp add: bridge_ok_def)
  qed
qed

lemma background_ok [simp]:
  "bridge_ok stands (fst (prefetchOrigin p s)) = bridge_ok stands s"
  "bridge_ok stands (fst (prefetchTarget m r q s)) = bridge_ok stands s"
  "bridge_ok stands (fst (message_seen w p s)) = bridge_ok stands s"
  by (auto simp: prefetchOrigin_def prefetchTarget_def message_seen_def bridge_ok_def Let_def split: option.split)

definition known_sender :: "string \<Rightarrow> post_to \<Rightarrow> bridge \<Rightarrow> (string \<times> string) option \<times> bridge" where
  "known_sender org t s =
     (case br_known s (po_window t) of
        None \<Rightarrow> (None, s)
      | Some p \<Rightarrow> (case messageOrigin (po_sender t) p s of (o', s1) \<Rightarrow> (Some (o', p), s1)))"

text \<open>The answers that a post may wait for are true.\<close>

definition true_answers :: "(string \<Rightarrow> string \<Rightarrow> bool) \<Rightarrow> post_to \<Rightarrow> bridge \<Rightarrow> string \<Rightarrow> bool" where
  "true_answers stands t s org \<longleftrightarrow>
     (\<forall>p. br_known s (po_window t) = Some p \<longrightarrow> true_site stands p (po_sender t)) \<and>
     (\<forall>o' p. po_parent t = Some (o', p) \<longrightarrow> stands o' p) \<and>
     (\<forall>(relation, ans) \<in> set (po_relations t). relation \<in> {''child'', ''sibling'', ''top''} \<and> true_target stands org ans)"

lemma post_goes_where_meant:
  assumes ok: "bridge_ok stands s" and self: "stands documentOrigin physicalOrigin"
    and org: "url_origin (if po_expected t = ''/'' then documentOrigin else po_expected t) = Some org" "true_answers stands t s org"
    and post: "postMessage url_origin documentOrigin physicalOrigin t s = (Some d, s')" "po_expected t \<noteq> ''*''"
  shows "(d = discard \<or> d = org \<or> stands org d) \<and> bridge_ok stands s'"
proof (cases "org = ''null'' \<or> po_same t")
  case True
  then show ?thesis using post org(1) ok self by (auto simp: postMessage_def targetOrigin_def split: if_splits)
next
  case False
  obtain known s1 where k: "known_sender org t s = (known, s1)" by fastforce
  have k1: "bridge_ok stands s1" "\<And>o' p. known = Some (o', p) \<Longrightarrow> stands o' p \<or> o' = p"
  proof -
    show "bridge_ok stands s1"
      using k ok org(2) messageOrigin_ok [of stands s _ "po_sender t"] by (auto simp: known_sender_def true_answers_def split: option.splits prod.splits) (metis snd_conv)
    show "stands o' p \<or> o' = p" if "known = Some (o', p)" for o' p
      using k ok org(2) that messageOrigin_ok [of stands s p "po_sender t"] by (auto simp: known_sender_def true_answers_def split: option.splits prod.splits)
  qed
  define skip where "skip \<longleftrightarrow> (case known of Some (o', p) \<Rightarrow> o' = org | None \<Rightarrow> False) \<or> (case po_parent t of Some (o', p) \<Rightarrow> o' = org | None \<Rightarrow> False)"
  obtain asked s2 where a: "(if skip then (discard, s1) else ask_relations (po_relations t) org s1) = (asked, s2)" by fastforce
  have rs: "\<forall>(relation, ans) \<in> set (po_relations t). CHR '':'' \<notin> set relation \<and> true_target stands org ans"
    using org(2) unfolding true_answers_def by auto
  have a1: "bridge_ok stands s2" "asked = discard \<or> stands org asked"
    using ask_relations_ok [OF k1(1) rs] a k1(1) by (auto split: if_splits)
  have "postMessage url_origin documentOrigin physicalOrigin t s =
      (targetOrigin url_origin (po_expected t) documentOrigin physicalOrigin False known (po_parent t) [Some (\<lambda>_. Found asked)], s2)"
    unfolding postMessage_def org(1) option.case k [unfolded known_sender_def] Let_def prod.case skip_def [symmetric] a
    using post(2) False by simp
  then have d: "targetOrigin url_origin (po_expected t) documentOrigin physicalOrigin False known (po_parent t) [Some (\<lambda>_. Found asked)] = Some d" "s' = s2"
    using post(1) by simp_all
  have "stands o' p" if "po_parent t = Some (o', p)" for o' p using org(2) that by (simp add: true_answers_def)
  then show ?thesis using d a1 k1(2) False post(2) unfolding targetOrigin_def org(1) option.case
    by (auto split: option.splits if_splits prod.splits)
qed

text \<open>The states of the page's script, when the server answers truly.\<close>

inductive bridge_reach :: "(string \<Rightarrow> string \<Rightarrow> bool) \<Rightarrow> (string \<Rightarrow> string option) \<Rightarrow> string \<Rightarrow> string \<Rightarrow> bridge \<Rightarrow> bool" for stands url_origin doc ph where
  start: "stands doc ph \<Longrightarrow> (\<And>p o'. known p = Some o' \<Longrightarrow> stands o' p) \<Longrightarrow>
     bridge_reach stands url_origin doc ph \<lparr>br_origins = known, br_prefetchingOrigins = [], br_targets = [], br_prefetchingTargets = [], br_known = Map.empty\<rparr>"
| seen: "bridge_reach stands url_origin doc ph s \<Longrightarrow> bridge_reach stands url_origin doc ph (fst (message_seen w p s))"
| asked: "bridge_reach stands url_origin doc ph s \<Longrightarrow> true_site stands p ans \<Longrightarrow> bridge_reach stands url_origin doc ph (snd (messageOrigin ans p s))"
| learnt: "bridge_reach stands url_origin doc ph s \<Longrightarrow> true_site stands p ans \<Longrightarrow> bridge_reach stands url_origin doc ph (prefetchedOrigin p ans s)"
| fetch: "bridge_reach stands url_origin doc ph s \<Longrightarrow> bridge_reach stands url_origin doc ph (fst (prefetchTarget m r q s))"
| fetched: "bridge_reach stands url_origin doc ph s \<Longrightarrow> r \<in> {''child'', ''sibling'', ''top''} \<Longrightarrow> true_target stands q ans \<Longrightarrow>
     bridge_reach stands url_origin doc ph (prefetchedTarget (r @ '':'' @ q) ans s)"
| posted: "bridge_reach stands url_origin doc ph s \<Longrightarrow> postMessage url_origin doc ph t s = (Some d, s') \<Longrightarrow> po_expected t \<noteq> ''*'' \<Longrightarrow>
     url_origin (if po_expected t = ''/'' then doc else po_expected t) = Some q \<Longrightarrow> true_answers stands t s q \<Longrightarrow>
     bridge_reach stands url_origin doc ph s'"

lemma bridge_reach_ok: "bridge_reach stands url_origin doc ph s \<Longrightarrow> bridge_ok stands s \<and> stands doc ph"
proof (induction rule: bridge_reach.induct)
  case (fetched s r q ans)
  have "CHR '':'' \<notin> set r" using fetched.hyps(2) by auto
  then show ?case using prefetchedTarget_ok fetched by blast
next
  case (posted s t d s' q)
  then show ?case using post_goes_where_meant by blast
qed (simp_all add: messageOrigin_ok prefetchedOrigin_ok, simp add: bridge_ok_def)

text \<open>C13. Whatever a page has seen and asked before: a message that it posts with a target origin goes to a realm of
  just that origin, to that origin itself, or nowhere. The server's answers are true, and a lookup may fail.\<close>

theorem message_goes_where_meant:
  assumes "bridge_reach stands url_origin doc ph s" "postMessage url_origin doc ph t s = (Some d, s')" "po_expected t \<noteq> ''*''"
    and "url_origin (if po_expected t = ''/'' then doc else po_expected t) = Some org" "true_answers stands t s org"
  shows "d \<in> {discard, org} \<or> stands org d"
  using post_goes_where_meant [OF _ _ assms(4,5,2,3)] bridge_reach_ok [OF assms(1)] by blast

theorem message_goes_where_meant_witness:
  "let s = \<lparr>br_origins = Map.empty, br_prefetchingOrigins = [], br_targets = [], br_prefetchingTargets = [], br_known = Map.empty\<rparr>;
       t = \<lparr>po_expected = ''https://b'', po_same = False, po_window = 7, po_sender = None, po_parent = None, po_relations = [(''child'', Some ''https://r'')]\<rparr>;
       d = the (fst (postMessage Some ''https://a'' ''https://q'' t s))
   in d = ''https://r'' \<and> (d \<in> {discard, ''https://b''} \<or> (d, ''https://b'') \<in> {(''https://q'', ''https://a''), (''https://r'', ''https://b'')})"
proof -
  let ?s = "\<lparr>br_origins = Map.empty, br_prefetchingOrigins = [], br_targets = [], br_prefetchingTargets = [], br_known = Map.empty\<rparr> :: bridge"
  let ?t = "\<lparr>po_expected = ''https://b'', po_same = False, po_window = 7, po_sender = None, po_parent = None, po_relations = [(''child'', Some ''https://r'')]\<rparr> :: post_to"
  let ?stands = "\<lambda>o' p. (p, o') \<in> {(''https://q'', ''https://a''), (''https://r'', ''https://b'')}"
  have r: "bridge_reach ?stands Some ''https://a'' ''https://q'' ?s" by (rule bridge_reach.start) simp_all
  obtain s' where p: "postMessage Some ''https://a'' ''https://q'' ?t ?s = (Some ''https://r'', s')"
    by (simp add: postMessage_def targetOrigin_def messageTarget_def)
  have a: "true_answers ?stands ?t ?s ''https://b''" by (simp add: true_answers_def true_target_def)
  have "''https://r'' \<in> {discard, ''https://b''} \<or> ?stands ''https://b'' ''https://r''"
    by (rule message_goes_where_meant [OF r p _ _ a]) simp_all
  then show ?thesis by (simp add: p Let_def)
qed

end
