(* ===== verification/Spec2Isabelle.thy ===== *)
theory Spec2Isabelle
  imports WinProps Desk TabSync KbdInput FilesCore GameProps Keybar Pinch Coach TermConnProps TermHttpProps TermResumeProps BlTabsProps BlCookies BlGateProps BlEgress TermProfile ServiceWorker TermSize TermTouch UsageStrips BlStores BlJournal BlToolbar BlToolbarPage BlRealmHostProps BlMessages
begin

text \<open>
  VibeTop is a desktop in the browser: a shell page (\<^verbatim>\<open>src/shell\<close>) with floating windows, apps in
  iframes (\<^verbatim>\<open>src/apps\<close>), browser libraries they share (\<^verbatim>\<open>src/shared\<close>) and a server. This library
  models the JavaScript that carries the program's own decisions, translated function by function
  from the sources: records for the state each module keeps, one definition per operation with all its
  early returns, step functions for what happens over time, and theorems about every reachable state.

  \<^bold>\<open>The shell.\<close> \<^theory_text>\<open>WinMgr\<close>, \<^theory_text>\<open>WinTiling\<close> and \<^theory_text>\<open>WinZones\<close> are \<^verbatim>\<open>shell/winmgr.js\<close>: clamping, resizing,
  tiling, snap zones and the recognition of a layout. \<^theory_text>\<open>WinProps\<close> shows that geometries stay inside
  the frame, tilings are exact, and placed layouts read back. \<^theory_text>\<open>Desk\<close> is \<^verbatim>\<open>shell/deskstate.js\<close> (the
  decisions on the shared desktop state), \<^theory_text>\<open>Keybar\<close> \<^verbatim>\<open>shell/keybar.js\<close>, \<^theory_text>\<open>Coach\<close> \<^verbatim>\<open>shell/coach.js\<close>,
  \<^theory_text>\<open>Pinch\<close> \<^verbatim>\<open>shared/pinch.js\<close>. \<^theory_text>\<open>ServiceWorker\<close> is \<^verbatim>\<open>shell/sw.js\<close>: every page navigation is answered in
  bounded time and without a redirect, and pages outside its list come from the network only.
  \<^theory_text>\<open>UsageStrips\<close> is \<^verbatim>\<open>shell/usage-strips.js\<close>: countdowns, segments and switches that a refusal takes back.

  \<^bold>\<open>The terminal\<close> (\<^verbatim>\<open>apps/everyday/terminal\<close>). \<^theory_text>\<open>TabSync\<close> (\<^verbatim>\<open>lib/tab-sync.js\<close>) reconciles tabs with the
  server, \<^theory_text>\<open>KbdInput\<close> (\<^verbatim>\<open>lib/kbd-input.js\<close>) turns the overlay's values into bytes, \<^theory_text>\<open>TermConn\<close>
  (\<^verbatim>\<open>terminal-connection.js\<close>) recovers a connection, \<^theory_text>\<open>TermHttp\<close> (\<^verbatim>\<open>terminal-http.js\<close>) carries the
  socket over requests, \<^theory_text>\<open>TermResume\<close> (\<^verbatim>\<open>terminal-resume.js\<close>) keeps the scrollback for a resume, and
  \<^theory_text>\<open>TermProfile\<close> (\<^verbatim>\<open>terminal-profile.js\<close>) counts control sequences. The \<^theory_text>\<open>...Props\<close> theories hold their
  properties: order and exactly-once delivery, bounded attempts, independence of how data is cut.
  \<^verbatim>\<open>terminal-kbd.js\<close> is three theories: \<^theory_text>\<open>TermReader\<close> (the reading position and the following of the
  latest line), \<^theory_text>\<open>TermSize\<close> (claims of the shared size, the loading bar) and \<^theory_text>\<open>TermTouch\<close> (the overlay,
  words and addresses under a finger, gestures). \<^theory_text>\<open>TermTouch\<close> composes the keyboard machine with the
  reader: whatever is typed first returns the terminal to its latest line.

  \<^bold>\<open>Files and games.\<close> \<^theory_text>\<open>FilesCore\<close> is \<^verbatim>\<open>files/filesx-core.js\<close>; \<^theory_text>\<open>LocalStorage\<close> and \<^theory_text>\<open>GameScore\<close> are
  \<^verbatim>\<open>shared/gamescore.js\<close> over a model of the browser's storage, with \<^theory_text>\<open>GameProps\<close>.

  \<^bold>\<open>Browser Lite\<close> (\<^verbatim>\<open>apps/everyday/browser-lite/proxy\<close>) is a proxy that gives every website origin and
  embedding context a host of its own, a realm. \<^theory_text>\<open>BlRealm\<close> is the registry of realms with the policies on
  contexts and requests, \<^theory_text>\<open>BlNav\<close> the transactions by which a navigation to another site is approved,
  \<^theory_text>\<open>BlTabs\<close> the tabs, tickets and admissions of \<^verbatim>\<open>gateway.cjs\<close>, \<^theory_text>\<open>BlControl\<close> the ledger of commands,
  \<^theory_text>\<open>BlWorkers\<close> worker sources, leases and upload budgets, \<^theory_text>\<open>BlAuth\<close> capabilities and response policies,
  \<^theory_text>\<open>BlGate\<close> the decision on each request, \<^theory_text>\<open>BlCookies\<close> which cookies a page may see, \<^theory_text>\<open>BlHosts\<close> the host
  lists, and \<^theory_text>\<open>BlEgress\<close> the forward proxy that everything leaves by. Their properties say that a realm
  host stands for one origin in one context, that tokens and tickets of earlier epochs are revoked,
  that commands act exactly once, that cookies and worker sources stay with their owner, and that only
  public addresses are reached. \<^theory_text>\<open>BlStores\<close> is what the server keeps of a user
  (\<^verbatim>\<open>tab-store.cjs\<close>, \<^verbatim>\<open>shortcut-store.cjs\<close>, \<^verbatim>\<open>prefs-store.cjs\<close>, \<^verbatim>\<open>login-import.cjs\<close>,
  \<^verbatim>\<open>cookie-store.cjs\<close>): whatever is sent, what is stored is well formed and reads back.

  The page that shows these realms is modelled from the page inside outwards. \<^theory_text>\<open>BlJournal\<close> is
  \<^verbatim>\<open>document-history.js\<close>, which keeps a document's history entries; its journal is refined from the browser's
  own history. \<^theory_text>\<open>BlController\<close> is \<^verbatim>\<open>trusted-controller.js\<close>, the toolbar's end of a tab: its queue of
  commands, the one under way and its recovery, and every message of a page with its checks;
  \<^theory_text>\<open>BlControllerProps\<close> shows what a page cannot change, and states as the locale \<open>command_server\<close> what the
  controller needs of a server. \<^theory_text>\<open>BlToolbar\<close> interprets that locale on the ledger of \<^theory_text>\<open>BlControl\<close> and
  concludes that the command a tab waits for is carried out. \<^theory_text>\<open>BlTabHistory\<close>, \<^theory_text>\<open>BlTabStrip\<close> and
  \<^theory_text>\<open>BlToolbarPage\<close> are \<^verbatim>\<open>wrapper.js\<close>: the history of a tab, all tabs with the frames they use, and the rest
  of the page (address field, hand-over to the full browser, shortcuts, start). \<^theory_text>\<open>BlTabStripProps\<close> shows the
  invariant of the strip over every sequence of steps, what a page may close, and that a history goes through
  saving, the store of \<^theory_text>\<open>BlStores\<close> and restoring unchanged.

  Inside a proxied page, \<^theory_text>\<open>BlRealmHost\<close> is \<^verbatim>\<open>realm-host.js\<close> with the part of
  \<^verbatim>\<open>client-bridge.js\<close> that uses it: the page computes SHA-256 and HMAC itself, on JavaScript's numbers
  with the operators of \<^theory_text>\<open>JsBits\<close>, to name the realms of its resources. \<^theory_text>\<open>BlRealmHostProps\<close> proves it
  equal to the standard on 32-bit words and concludes that page and registry (\<^theory_text>\<open>BlRealm\<close>) give the same
  names. \<^theory_text>\<open>BlMessages\<close> is \<^verbatim>\<open>message-gate.js\<close>, \<^verbatim>\<open>message-target.js\<close> and what
  \<^verbatim>\<open>client-bridge.js\<close> remembers for them: messages keep their order, and go only where the page meant them to.

  \<^bold>\<open>Interfaces.\<close> \<^theory_text>\<open>VtPrelude\<close> holds the numbers and truthiness of JavaScript and the locales the components
  are interpretations of: \<open>machine\<close> (a step that keeps an invariant) and \<open>bounded_log\<close> (a list that keeps
  its last entries). \<^theory_text>\<open>JsStr\<close> holds strings. The strips of \<^theory_text>\<open>UsageStrips\<close> are two interpretations of
  one drawing contract; the ledger of commands is an interpretation of the server the toolbar's
  controller relies on.

  \<^bold>\<open>Conventions and bounds.\<close> Numbers of JavaScript are \<open>real\<close>, \<open>int\<close> or \<open>nat\<close>, without the rounding of
  doubles, except where bitwise operators cut them to 32 bits (\<^theory_text>\<open>JsBits\<close>); string operations are those of ASCII. Loops are structural, or functions with a
  termination proof on the data that shrinks. The one counter is that of \<open>strip_restored\<close>, which removes
  prefixes at most as often as the text is long. Times are arguments, and asynchronous
  code is a step per callback. Exceptions are values of an option or sum. What is not in the repository
  is an argument: the network and its answers, hashes and random tokens, URL and address parsers, the
  terminal's buffer, the measurements of a page, dates in the user's language.

  \<^bold>\<open>Not modelled.\<close> Scripts that patch third-party code which is not in the repository (the Hammerhead
  engine, the xpra client) or that replace the browser's own objects inside a proxied page
  (the rest of \<^verbatim>\<open>client-bridge.js\<close>), because
  their meaning is that of the patched code; the construction and styling of page elements, clipboard
  calls and logging; pages whose logic is inline markup; the Python server, deployment scripts and
  tests. Of the gateway, its start-up, the wiring of the engine's hooks and the writing of response
  headers are left out; of the profile, the navigation timings and the timers around rendering.
\<close>

end
